(* ===== verification/Prelude.thy ===== *)
theory Prelude
  imports Main "HOL-Library.Word"
begin

text \<open>
  Shared vocabulary of the development: the fixed-width integer types of the C++ sources, the
  collections of rewrite rules the component theories add to, byte memory with little-endian
  32 bit access (the i386 view of memory), and slices of byte buffers.
\<close>

unbundle bit_operations_syntax

subsection \<open>Machine types\<close>

type_synonym u8 = "8 word"
type_synonym u16 = "16 word"
type_synonym u32 = "32 word"
type_synonym u64 = "64 word"

type_synonym bytes = "u8 list"

text \<open>The flat 32 bit address space: one byte per address.\<close>

type_synonym mem = "u32 \<Rightarrow> u8"

named_theorems layout_simps \<open>field layouts of the packed structures\<close>
named_theorems heap_simps \<open>reads and writes of heap memory\<close>
named_theorems fat_defs \<open>accessors of the FAT structures\<close>

subsection \<open>Bit lemmas on words\<close>

lemma bit_of_small:
  fixes w :: "'a::len word"
  assumes "LENGTH('a) \<le> n"
  shows "\<not> bit w n"
  using assms by (auto dest: bit_imp_le_length)

lemma ucast_and_255 [simp]:
  fixes w :: "'a::len word"
  shows "(ucast (w AND 255) :: u8) = ucast w"
proof -
  have "w AND 255 = take_bit 8 w"
    by (simp add: take_bit_eq_mask mask_eq_exp_minus_1)
  then show ?thesis
    by (simp add: bit_eq_iff bit_simps) (auto dest: bit_imp_le_length)
qed

text \<open>Two words agree when their bytes do: the workhorse of the little-endian round trips.\<close>

lemma word16_of_bytes:
  fixes w :: u16
  shows "ucast (ucast w :: u8) OR push_bit 8 (ucast (ucast (drop_bit 8 w) :: u8)) = w"
  by (rule bit_word_eqI) (auto simp: bit_simps)

lemma word32_of_bytes:
  fixes w :: u32
  shows "ucast (ucast w :: u8) OR push_bit 8 (ucast (ucast (drop_bit 8 w) :: u8)) OR
    push_bit 16 (ucast (ucast (drop_bit 16 w) :: u8)) OR
    push_bit 24 (ucast (ucast (drop_bit 24 w) :: u8)) = w"
proof (rule bit_word_eqI)
  fix n assume "n < LENGTH(32)"
  then consider "n < 8" | "8 \<le> n \<and> n < 16" | "16 \<le> n \<and> n < 24" | "24 \<le> n \<and> n < 32"
    by fastforce
  then show "bit (ucast (ucast w :: u8) OR push_bit 8 (ucast (ucast (drop_bit 8 w) :: u8)) OR
      push_bit 16 (ucast (ucast (drop_bit 16 w) :: u8)) OR
      push_bit 24 (ucast (ucast (drop_bit 24 w) :: u8)) :: u32) n = bit w n"
    by cases (auto simp: bit_simps)
qed

subsection \<open>Word arithmetic through \<open>nat\<close>\<close>

lemma unat_of_nat_u32 [simp]: "a < 2 ^ 32 \<Longrightarrow> unat (of_nat a :: u32) = a"
  by (simp add: unat_of_nat take_bit_eq_mod)

lemma unat_ucast_up [simp]:
  "LENGTH('a) \<le> LENGTH('b) \<Longrightarrow> unat (ucast (x :: 'a::len word) :: 'b::len word) = unat x"
proof -
  assume "LENGTH('a) \<le> LENGTH('b)"
  then have "(2 :: nat) ^ LENGTH('a) \<le> 2 ^ LENGTH('b)" by (rule power_increasing) simp
  moreover have "unat x < 2 ^ LENGTH('a)" by (rule unsigned_less)
  ultimately have "unat x < 2 ^ LENGTH('b)" by linarith
  then show ?thesis by (simp add: unsigned_ucast_eq take_bit_nat_eq_self)
qed

lemma unat_ucast_u32_u8: "unat (ucast (x :: u32) :: u8) = unat x mod 256"
  by (simp add: unsigned_ucast_eq take_bit_eq_mod)

lemma unat_lt_u32 [simp]: "unat (x :: u32) < 4294967296"
  using unsigned_less [of x] by simp

lemma of_nat_u32_eq_iff:
  assumes "a < 2 ^ 32" "b < 2 ^ 32"
  shows "(of_nat a :: u32) = of_nat b \<longleftrightarrow> a = b"
proof -
  have "unat (of_nat a :: u32) = a" "unat (of_nat b :: u32) = b"
    using assms by simp_all
  then show ?thesis by metis
qed

lemma unat_eq_of_nat_u32: "unat (x :: u32) = n \<Longrightarrow> x = of_nat n"
  by auto

lemma of_nat_u32_diff:
  assumes "b \<le> a"
  shows "(of_nat a :: u32) - of_nat b = of_nat (a - b)"
  using assms by simp

lemma of_nat_u32_less_iff:
  assumes "a < 2 ^ 32" "b < 2 ^ 32"
  shows "(of_nat a :: u32) < of_nat b \<longleftrightarrow> a < b"
  using assms by (simp add: word_less_nat_alt)

lemma of_nat_u32_le_iff:
  assumes "a < 2 ^ 32" "b < 2 ^ 32"
  shows "(of_nat a :: u32) \<le> of_nat b \<longleftrightarrow> a \<le> b"
  using assms by (simp add: word_le_nat_alt)

subsection \<open>Little-endian memory access\<close>

definition le32 :: "u8 \<Rightarrow> u8 \<Rightarrow> u8 \<Rightarrow> u8 \<Rightarrow> u32" where
  "le32 b0 b1 b2 b3 =
     ucast b0 OR push_bit 8 (ucast b1) OR push_bit 16 (ucast b2) OR push_bit 24 (ucast b3)"

definition load32 :: "mem \<Rightarrow> u32 \<Rightarrow> u32" where
  "load32 m a = le32 (m a) (m (a + 1)) (m (a + 2)) (m (a + 3))"

definition store32 :: "mem \<Rightarrow> u32 \<Rightarrow> u32 \<Rightarrow> mem" where
  "store32 m a v = m(a := ucast v, a + 1 := ucast (drop_bit 8 v),
     a + 2 := ucast (drop_bit 16 v), a + 3 := ucast (drop_bit 24 v))"

lemma le32_split [simp]:
  "le32 (ucast v) (ucast (drop_bit 8 v)) (ucast (drop_bit 16 v)) (ucast (drop_bit 24 v)) = v"
  by (simp add: le32_def word32_of_bytes)

lemma u32_small_offset_neq:
  fixes a :: u32
  shows "a + 1 \<noteq> a" "a + 2 \<noteq> a" "a + 3 \<noteq> a" "a + 1 \<noteq> a + 2" "a + 1 \<noteq> a + 3" "a + 2 \<noteq> a + 3"
    "a \<noteq> a + 1" "a \<noteq> a + 2" "a \<noteq> a + 3" "a + 2 \<noteq> a + 1" "a + 3 \<noteq> a + 1" "a + 3 \<noteq> a + 2"
  by simp_all

lemma load32_store32_same [heap_simps]: "load32 (store32 m a v) a = v"
  by (simp add: load32_def store32_def u32_small_offset_neq)

text \<open>The four bytes of the word at \<open>a\<close>, as addresses.\<close>

definition word_at :: "u32 \<Rightarrow> u32 set" where
  "word_at a = {a, a + 1, a + 2, a + 3}"

lemma load32_cong:
  assumes "\<And>x. x \<in> word_at a \<Longrightarrow> m x = m' x"
  shows "load32 m a = load32 m' a"
  using assms by (simp add: load32_def word_at_def)

lemma store32_other [heap_simps]: "x \<notin> word_at a \<Longrightarrow> store32 m a v x = m x"
  by (simp add: store32_def word_at_def)

lemma load32_store32_disjoint:
  assumes "word_at a \<inter> word_at b = {}"
  shows "load32 (store32 m a v) b = load32 m b"
  using assms by (intro load32_cong store32_other) auto

lemma ex_less_four: "(\<exists>i < 4. P i) \<longleftrightarrow> P 0 \<or> P 1 \<or> P 2 \<or> P (3::nat)"
proof -
  have "i < 4 \<longleftrightarrow> i = 0 \<or> i = 1 \<or> i = 2 \<or> i = (3::nat)" for i by linarith
  then show ?thesis by auto
qed

lemma word_at_of_nat:
  "x \<in> word_at (of_nat a) \<longleftrightarrow> (\<exists>i < 4. x = of_nat (a + i))"
  by (auto simp: word_at_def ex_less_four ac_simps)

lemma word_at_disjoint:
  assumes "a + 4 \<le> 2 ^ 32" "b + 4 \<le> 2 ^ 32" "a + 4 \<le> b \<or> b + 4 \<le> a"
  shows "word_at (of_nat a) \<inter> word_at (of_nat b) = {}"
proof -
  have "of_nat (a + i) \<noteq> (of_nat (b + j) :: u32)" if "i < 4" "j < 4" for i j
    using assms that by (subst of_nat_u32_eq_iff) auto
  then show ?thesis by (auto simp: word_at_of_nat)
qed

lemma load32_store32_apart [heap_simps]:
  assumes "a + 4 \<le> 2 ^ 32" "b + 4 \<le> 2 ^ 32" "a + 4 \<le> b \<or> b + 4 \<le> a"
  shows "load32 (store32 m (of_nat a) v) (of_nat b) = load32 m (of_nat b)"
  using load32_store32_disjoint [OF word_at_disjoint [OF assms]] .

lemma store32_apart [heap_simps]:
  assumes "a + 4 \<le> 2 ^ 32" "x < 2 ^ 32" "x < a \<or> a + 4 \<le> x"
  shows "store32 m (of_nat a) v (of_nat x) = m (of_nat x)"
proof -
  have "of_nat x \<noteq> (of_nat (a + i) :: u32)" if "i < 4" for i
    using assms that by (subst of_nat_u32_eq_iff) auto
  then show ?thesis by (intro store32_other) (auto simp: word_at_of_nat)
qed

subsection \<open>Slices of byte buffers\<close>

text \<open>\<open>subbytes off n xs\<close> is the view of \<open>n\<close> bytes from \<open>off\<close>; \<open>overwrite off ys xs\<close> overwrites
  them.\<close>

definition subbytes :: "nat \<Rightarrow> nat \<Rightarrow> 'a list \<Rightarrow> 'a list" where
  "subbytes off n xs = take n (drop off xs)"

definition overwrite :: "nat \<Rightarrow> 'a list \<Rightarrow> 'a list \<Rightarrow> 'a list" where
  "overwrite off ys xs = take off xs @ ys @ drop (off + length ys) xs"

lemma length_subbytes [simp]: "off + n \<le> length xs \<Longrightarrow> length (subbytes off n xs) = n"
  by (simp add: subbytes_def)

lemma length_overwrite [simp]:
  "off + length ys \<le> length xs \<Longrightarrow> length (overwrite off ys xs) = length xs"
  by (simp add: overwrite_def)

lemma subbytes_overwrite_same [simp]:
  "off + length ys \<le> length xs \<Longrightarrow> n = length ys \<Longrightarrow> subbytes off n (overwrite off ys xs) = ys"
  by (simp add: subbytes_def overwrite_def)

lemma subbytes_overwrite_before:
  assumes "off + length ys \<le> length xs" "a + n \<le> off"
  shows "subbytes a n (overwrite off ys xs) = subbytes a n xs"
  using assms by (auto simp: subbytes_def overwrite_def drop_take min_def)

lemma subbytes_overwrite_after:
  assumes "off + length ys \<le> length xs" "off + length ys \<le> a"
  shows "subbytes a n (overwrite off ys xs) = subbytes a n xs"
  using assms by (simp add: subbytes_def overwrite_def)

lemma subbytes_append_left:
  "off + n \<le> length xs \<Longrightarrow> subbytes off n (xs @ ys) = subbytes off n xs"
  by (simp add: subbytes_def)

lemma subbytes_append_right:
  "length xs \<le> off \<Longrightarrow> subbytes off n (xs @ ys) = subbytes (off - length xs) n ys"
  by (simp add: subbytes_def)

lemma subbytes_full [simp]: "subbytes 0 (length xs) xs = xs"
  by (simp add: subbytes_def)

lemma subbytes_all: "n = length xs \<Longrightarrow> subbytes 0 n xs = xs"
  by (simp add: subbytes_def)

lemma nth_subbytes: "i < n \<Longrightarrow> off + n \<le> length xs \<Longrightarrow> subbytes off n xs ! i = xs ! (off + i)"
  by (simp add: subbytes_def)

lemma subbytes_single: "off < length xs \<Longrightarrow> [xs ! off] = subbytes off 1 xs"
  by (simp add: subbytes_def take_Suc_conv_app_nth hd_drop_conv_nth take_Suc)

lemma subbytes_bound: "xs = subbytes off (length xs) ys \<Longrightarrow> xs \<noteq> [] \<Longrightarrow> off + length xs \<le> length ys"
proof -
  assume xs: "xs = subbytes off (length xs) ys" and "xs \<noteq> []"
  have "length xs = min (length xs) (length ys - off)"
    by (subst xs) (simp add: subbytes_def min.commute)
  moreover have "0 < length xs" using \<open>xs \<noteq> []\<close> by simp
  ultimately show ?thesis by linarith
qed

lemma subbytes_split:
  "k \<le> n \<Longrightarrow> subbytes off k xs @ subbytes (off + k) (n - k) xs = subbytes off n xs"
  unfolding subbytes_def by (metis add.commute drop_drop le_add_diff_inverse take_add)

lemma overwrite_split:
  assumes "off + length xs + length ys \<le> length zs"
  shows "overwrite (off + length xs) ys (overwrite off xs zs) = overwrite off (xs @ ys) zs"
proof -
  have "min (length zs) off = off" using assms by simp
  then show ?thesis by (simp add: overwrite_def ac_simps)
qed

lemma unat_u64_add: "unat (off :: u64) + k < 2 ^ 64 \<Longrightarrow> unat (off + of_nat k) = unat off + k"
  by (simp add: unat_word_ariths unat_of_nat)

text \<open>Consecutive fields of given widths: cutting a buffer into them and joining them again.\<close>

fun pieces :: "nat \<Rightarrow> nat list \<Rightarrow> 'a list \<Rightarrow> 'a list" where
  "pieces off [] xs = []"
| "pieces off (n # ns) xs = subbytes off n xs @ pieces (off + n) ns xs"

lemma pieces_join: "off + sum_list ns \<le> length xs \<Longrightarrow> pieces off ns xs = subbytes off (sum_list ns) xs"
proof (induction ns arbitrary: off)
  case (Cons n ns)
  then show ?case by (simp add: subbytes_def take_add ac_simps)
qed (simp add: subbytes_def)

lemma pieces_all: "sum_list ns = length xs \<Longrightarrow> pieces 0 ns xs = xs"
  by (simp add: pieces_join subbytes_def)

subsection \<open>Masks\<close>

lemma and_mask_16: "(w :: u32) AND 0xFFFF = take_bit 16 w"
  by (simp add: take_bit_eq_mask mask_eq_exp_minus_1)

lemma and_mask_28: "(w :: u32) AND 0x0FFFFFFF = take_bit 28 w"
  by (simp add: take_bit_eq_mask mask_eq_exp_minus_1)

subsection \<open>Blocks of memory\<close>

definition mem_read :: "mem \<Rightarrow> u32 \<Rightarrow> nat \<Rightarrow> bytes" where
  "mem_read m a n = map (\<lambda>i. m (a + of_nat i)) [0 ..< n]"

definition mem_write :: "mem \<Rightarrow> u32 \<Rightarrow> bytes \<Rightarrow> mem" where
  "mem_write m a bs = (\<lambda>x. if unat (x - a) < length bs then bs ! unat (x - a) else m x)"

lemma length_mem_read [simp]: "length (mem_read m a n) = n"
  by (simp add: mem_read_def)

lemma mem_read_write [simp]:
  assumes "n = length bs" "length bs \<le> 2 ^ 32"
  shows "mem_read (mem_write m a bs) a n = bs"
  using assms by (intro nth_equalityI) (simp_all add: mem_read_def mem_write_def)

lemma mem_read_write_part:
  assumes "k + n \<le> length bs" "length bs \<le> 2 ^ 32"
  shows "mem_read (mem_write m a bs) (a + of_nat k) n = subbytes k n bs"
proof (rule nth_equalityI)
  fix i assume "i < length (mem_read (mem_write m a bs) (a + of_nat k) n)"
  then have i: "i < n" by simp
  have "a + of_nat k + of_nat i - a = of_nat (k + i)" by simp
  moreover have "unat (of_nat (k + i) :: u32) = k + i" using i assms by (intro unat_of_nat_u32) simp
  ultimately have "unat (a + of_nat k + of_nat i - a) = k + i" by simp
  with i assms show "mem_read (mem_write m a bs) (a + of_nat k) n ! i = subbytes k n bs ! i"
    by (simp add: mem_read_def mem_write_def nth_subbytes)
qed (use assms in simp)

lemma mem_write_outside: "length bs \<le> unat (x - a) \<Longrightarrow> mem_write m a bs x = m x"
  by (simp add: mem_write_def)

lemma mem_read_append:
  "mem_read m a (n + k) = mem_read m a n @ mem_read m (a + of_nat n) k"
  by (rule nth_equalityI) (auto simp: mem_read_def nth_append add.assoc simp flip: of_nat_add)

lemma unat_offset_diff:
  assumes "j < 2 ^ 32" "k < 2 ^ 32"
  shows "unat ((a + of_nat j) - (a + of_nat k) :: u32) = (if k \<le> j then j - k else 2 ^ 32 + j - k)"
proof (cases "k \<le> j")
  case True
  then have "(a + of_nat j) - (a + of_nat k) = (of_nat (j - k) :: u32)" by simp
  then show ?thesis using True assms by (simp del: of_nat_diff)
next
  case False
  have "(of_nat (2 ^ 32 + j - k) :: u32) = of_nat (2 ^ 32 + j) - of_nat k"
    using False assms by (intro of_nat_diff) simp
  moreover have "(of_nat (2 ^ 32 + j) :: u32) = of_nat j" by simp
  ultimately have "(a + of_nat j) - (a + of_nat k) = (of_nat (2 ^ 32 + j - k) :: u32)" by simp
  moreover have "unat (of_nat (2 ^ 32 + j - k) :: u32) = 2 ^ 32 + j - k"
    using False assms by (intro unat_of_nat_u32) simp
  ultimately show ?thesis using False by simp
qed

lemma mem_read_write_other:
  assumes "j + n \<le> k \<or> k + length bs \<le> j" "j + n \<le> 2 ^ 32" "k + length bs \<le> 2 ^ 32" "k < 2 ^ 32"
  shows "mem_read (mem_write m (a + of_nat k) bs) (a + of_nat j) n = mem_read m (a + of_nat j) n"
proof (rule nth_equalityI)
  fix i assume "i < length (mem_read (mem_write m (a + of_nat k) bs) (a + of_nat j) n)"
  then have i: "i < n" by simp
  have "unat ((a + of_nat (j + i)) - (a + of_nat k)) = (if k \<le> j + i then j + i - k else 2 ^ 32 + (j + i) - k)"
    using i assms by (intro unat_offset_diff) simp_all
  then have "length bs \<le> unat ((a + of_nat (j + i)) - (a + of_nat k))" using i assms by auto
  then have "mem_write m (a + of_nat k) bs (a + of_nat (j + i)) = m (a + of_nat (j + i))"
    by (rule mem_write_outside)
  then show "mem_read (mem_write m (a + of_nat k) bs) (a + of_nat j) n ! i = mem_read m (a + of_nat j) n ! i"
    using i by (simp add: mem_read_def add.assoc)
qed simp

end
