(* ===== verification/Basic_Types.thy ===== *)
theory Basic_Types
  imports Prelude
begin

text \<open>
  The value types under \<^verbatim>\<open>include/types\<close>: \<^verbatim>\<open>FlagField\<close> (a word used as a set of flags),
  \<^verbatim>\<open>UnalignedInt\<close> (a little-endian integer kept as raw bytes), \<^verbatim>\<open>FixedLengthString\<close> (a padded
  character field) and \<^verbatim>\<open>ByteBlob\<close>. C strings are byte lists; the terminator is the first zero
  byte, or the end of the list.
\<close>

subsection \<open>C strings\<close>

definition cstr :: "bytes \<Rightarrow> bytes" where
  "cstr s = takeWhile (\<lambda>c. c \<noteq> 0) s"

lemma cstr_Nil [simp]: "cstr [] = []"
  by (simp add: cstr_def)

lemma cstr_Cons [simp]: "cstr (c # s) = (if c = 0 then [] else c # cstr s)"
  by (simp add: cstr_def)

lemma cstr_idem [simp]: "cstr (cstr s) = cstr s"
  by (induction s) auto

lemma cstr_no_zero: "0 \<notin> set (cstr s)"
  by (auto simp: cstr_def dest: set_takeWhileD)

lemma cstr_id: "0 \<notin> set s \<Longrightarrow> cstr s = s"
  by (induction s) auto

text \<open>String literals of the sources as bytes.\<close>

definition text_bytes :: "string \<Rightarrow> bytes" where
  "text_bytes s = map of_char s"

subsection \<open>FlagField\<close>

definition FlagField_Set :: "'a::len word \<Rightarrow> 'a word \<Rightarrow> 'a word" where
  "FlagField_Set value flag = value OR flag"

definition FlagField_Clear :: "'a::len word \<Rightarrow> 'a word \<Rightarrow> 'a word" where
  "FlagField_Clear value flag = value AND NOT flag"

definition FlagField_ClearAll :: "'a::len word \<Rightarrow> 'a word" where
  "FlagField_ClearAll value = 0"

definition FlagField_SetTo :: "'a::len word \<Rightarrow> 'a word \<Rightarrow> bool \<Rightarrow> 'a word" where
  "FlagField_SetTo value flag setval =
     (if setval then FlagField_Set value flag else FlagField_Clear value flag)"

definition FlagField_IsSet :: "'a::len word \<Rightarrow> 'a word \<Rightarrow> bool" where
  "FlagField_IsSet value flag \<longleftrightarrow> value AND flag = flag"

text \<open>The initializer-list constructor: starts at 0 and ors in each flag.\<close>

fun FlagField_init :: "'a::len word \<Rightarrow> 'a word list \<Rightarrow> 'a word" where
  "FlagField_init value [] = value"
| "FlagField_init value (flag # flags) = FlagField_init (value OR flag) flags"

text \<open>\<^verbatim>\<open>FlagRef\<close>: reading a reference tests the flag, assigning one writes it through.\<close>

definition FlagRef_read :: "'a::len word \<Rightarrow> 'a word \<Rightarrow> bool" where
  "FlagRef_read ref flag = FlagField_IsSet ref flag"

definition FlagRef_assign :: "'a::len word \<Rightarrow> 'a word \<Rightarrow> 'a word \<Rightarrow> 'a word \<Rightarrow> 'a word" where
  "FlagRef_assign ref flag oref oflag = FlagField_SetTo ref flag (FlagRef_read oref oflag)"

lemmas FlagField_defs = FlagField_Set_def FlagField_Clear_def FlagField_ClearAll_def
  FlagField_SetTo_def FlagField_IsSet_def

text \<open>The abstract value of a flag field is the set of its bits.\<close>

definition flags_of :: "'a::len word \<Rightarrow> nat set" where
  "flags_of v = {n. bit v n}"

lemma flags_of_Set [simp]: "flags_of (FlagField_Set v f) = flags_of v \<union> flags_of f"
  by (auto simp: flags_of_def FlagField_Set_def bit_simps)

lemma flags_of_Clear [simp]: "flags_of (FlagField_Clear v f) = flags_of v - flags_of f"
  by (auto simp: flags_of_def FlagField_Clear_def bit_simps dest: bit_imp_le_length)

lemma flags_of_ClearAll [simp]: "flags_of (FlagField_ClearAll v) = {}"
  by (simp add: flags_of_def FlagField_ClearAll_def)

lemma flags_of_inject: "flags_of v = flags_of w \<longleftrightarrow> v = w"
  by (auto simp: flags_of_def bit_eq_iff dest: bit_imp_le_length)

lemma IsSet_iff_subset: "FlagField_IsSet v f \<longleftrightarrow> flags_of f \<subseteq> flags_of v"
  by (auto simp: FlagField_IsSet_def flags_of_def bit_eq_iff bit_simps dest: bit_imp_le_length)

lemma flags_of_init: "flags_of (FlagField_init v fs) = flags_of v \<union> (\<Union>f \<in> set fs. flags_of f)"
  by (induction fs arbitrary: v) (auto simp: flags_of_def bit_simps)

subsection \<open>UnalignedInt\<close>

text \<open>\<^verbatim>\<open>Set\<close> stores the low byte first and shifts the value down; \<open>n\<close> is \<^verbatim>\<open>sizeof(T)\<close>.\<close>

primrec UnalignedInt_Set :: "nat \<Rightarrow> 'a::len word \<Rightarrow> bytes" where
  "UnalignedInt_Set 0 value = []"
| "UnalignedInt_Set (Suc n) value =
     ucast (value AND 255) # UnalignedInt_Set n (drop_bit 8 value)"

text \<open>
  \<^verbatim>\<open>Read\<close> ors \<^verbatim>\<open>x << (8 * i)\<close> into the result, where \<^verbatim>\<open>x\<close> is promoted to a 32 bit \<^verbatim>\<open>int\<close>. A
  shift of an \<^verbatim>\<open>int\<close> by 32 or more has no value in the language: what the compiled code leaves
  there is the parameter \<open>wide\<close>. The \<^verbatim>\<open>int\<close> is then converted to \<^verbatim>\<open>T\<close>, with sign extension when
  \<^verbatim>\<open>T\<close> is wider.
\<close>

definition int_shl :: "(u32 \<Rightarrow> nat \<Rightarrow> u32) \<Rightarrow> u32 \<Rightarrow> nat \<Rightarrow> u32" where
  "int_shl wide x n = (if n < 32 then push_bit n x else wide x n)"

fun UnalignedInt_Read_loop ::
  "(u32 \<Rightarrow> nat \<Rightarrow> u32) \<Rightarrow> nat \<Rightarrow> 'a::len word \<Rightarrow> bytes \<Rightarrow> 'a word" where
  "UnalignedInt_Read_loop wide i out [] = out"
| "UnalignedInt_Read_loop wide i out (x # raw) =
     UnalignedInt_Read_loop wide (Suc i) (out OR scast (int_shl wide (ucast x) (8 * i))) raw"

text \<open>The instances the program uses. Up to four bytes, no shift reaches 32.\<close>

definition UnalignedInt_Read16 :: "bytes \<Rightarrow> u16" where
  "UnalignedInt_Read16 raw = UnalignedInt_Read_loop (\<lambda>_ _. 0) 0 0 raw"

definition UnalignedInt_Read32 :: "bytes \<Rightarrow> u32" where
  "UnalignedInt_Read32 raw = UnalignedInt_Read_loop (\<lambda>_ _. 0) 0 0 raw"

definition UnalignedInt_Read64 :: "(u32 \<Rightarrow> nat \<Rightarrow> u32) \<Rightarrow> bytes \<Rightarrow> u64" where
  "UnalignedInt_Read64 wide raw = UnalignedInt_Read_loop wide 0 0 raw"

lemma UnalignedInt_Read_loop_wide:
  "length raw + i \<le> 4 \<Longrightarrow>
   UnalignedInt_Read_loop wide i out raw = UnalignedInt_Read_loop wide' i out raw"
  by (induction wide i out raw rule: UnalignedInt_Read_loop.induct) (auto simp: int_shl_def)

lemma bit_u8: "bit (w :: u8) n \<Longrightarrow> n < 8"
  using bit_imp_le_length [of w n] by simp

lemma length_UnalignedInt_Set [simp]: "length (UnalignedInt_Set n v) = n"
  by (induction n arbitrary: v) auto

lemma length2_conv: "length xs = 2 \<longleftrightarrow> (\<exists>a b. xs = [a, b])"
  by (auto simp: numeral_eq_Suc length_Suc_conv)

lemma length4_conv: "length xs = 4 \<longleftrightarrow> (\<exists>a b c d. xs = [a, b, c, d])"
  by (auto simp: numeral_eq_Suc length_Suc_conv)

lemma scast_u32_u16 [simp]: "(scast (w :: u32) :: u16) = ucast w"
  by (rule bit_word_eqI) (auto simp: bit_simps)

lemma Read16_eq:
  "UnalignedInt_Read16 [a, b] = ucast a OR push_bit 8 (ucast b)"
  unfolding UnalignedInt_Read16_def
  by (rule bit_word_eqI) (auto simp: int_shl_def bit_simps)

lemma Read32_eq: "UnalignedInt_Read32 [a, b, c, d] = le32 a b c d"
  unfolding UnalignedInt_Read32_def le32_def
  by (rule bit_word_eqI) (auto simp: int_shl_def bit_simps)

lemma Set16_eq: "UnalignedInt_Set 2 (v :: u16) = [ucast v, ucast (drop_bit 8 v)]"
  by (simp add: numeral_eq_Suc)

lemma Set32_eq:
  "UnalignedInt_Set 4 (v :: u32) =
    [ucast v, ucast (drop_bit 8 v), ucast (drop_bit 16 v), ucast (drop_bit 24 v)]"
  by (simp add: numeral_eq_Suc)

lemma Read16_Set [simp]: "UnalignedInt_Read16 (UnalignedInt_Set 2 v) = v"
  by (simp add: Set16_eq Read16_eq word16_of_bytes)

lemma Read32_Set [simp]: "UnalignedInt_Read32 (UnalignedInt_Set 4 v) = v"
  by (simp add: Set32_eq Read32_eq)

lemma Set_Read16:
  assumes "length raw = 2"
  shows "UnalignedInt_Set 2 (UnalignedInt_Read16 raw) = raw"
proof -
  obtain a b where "raw = [a, b]" using assms by (auto simp: length2_conv)
  moreover have "ucast (ucast a OR push_bit 8 (ucast b) :: u16) = a"
    by (rule bit_word_eqI) (auto simp: bit_simps)
  moreover have "ucast (drop_bit 8 (ucast a OR push_bit 8 (ucast b) :: u16)) = b"
    by (rule bit_word_eqI) (auto simp: bit_simps dest: bit_u8)
  ultimately show ?thesis by (simp add: Set16_eq Read16_eq)
qed

lemma Set_le32:
  "ucast (le32 a b c d) = a" "ucast (drop_bit 8 (le32 a b c d)) = b"
  "ucast (drop_bit 16 (le32 a b c d)) = c" "ucast (drop_bit 24 (le32 a b c d)) = d"
  unfolding le32_def by (rule bit_word_eqI, auto simp: bit_simps dest: bit_u8)+

lemma Set_Read32:
  assumes "length raw = 4"
  shows "UnalignedInt_Set 4 (UnalignedInt_Read32 raw) = raw"
  using assms by (auto simp: length4_conv Set32_eq Read32_eq Set_le32)

text \<open>Reading a 32 bit word of memory is reading the four raw bytes stored there.\<close>

lemma load32_Read32: "load32 m a = UnalignedInt_Read32 [m a, m (a + 1), m (a + 2), m (a + 3)]"
  by (simp add: load32_def Read32_eq)

subsection \<open>FixedLengthString and ByteBlob\<close>

definition ByteBlob :: "nat \<Rightarrow> u8 \<Rightarrow> bytes" where
  "ByteBlob count init = replicate count init"

definition FixedLengthString :: "nat \<Rightarrow> u8 \<Rightarrow> bytes" where
  "FixedLengthString count fill = replicate count fill"

fun FixedLengthString_Set :: "nat \<Rightarrow> u8 \<Rightarrow> bytes \<Rightarrow> bytes" where
  "FixedLengthString_Set 0 fill value = []"
| "FixedLengthString_Set (Suc n) fill [] = fill # FixedLengthString_Set n fill []"
| "FixedLengthString_Set (Suc n) fill (c # cs) =
     (if c = 0 then fill # FixedLengthString_Set n fill []
      else c # FixedLengthString_Set n fill cs)"

definition FixedLengthString_At :: "nat \<Rightarrow> u8 \<Rightarrow> bytes \<Rightarrow> nat \<Rightarrow> u8" where
  "FixedLengthString_At count fill raw i = (if i < count then raw ! i else fill)"

lemma length_FixedLengthString_Set [simp]: "length (FixedLengthString_Set n fill s) = n"
  by (induction n fill s rule: FixedLengthString_Set.induct) auto

lemma FixedLengthString_Set_Nil [simp]: "FixedLengthString_Set n fill [] = replicate n fill"
  by (induction n) auto

lemma FixedLengthString_Set_eq:
  "FixedLengthString_Set n fill s =
    take n (cstr s) @ replicate (n - length (cstr s)) fill"
proof (induction n fill s rule: FixedLengthString_Set.induct)
  case (3 n fill c cs)
  then show ?case by (cases "c = 0") auto
qed auto

lemma FixedLengthString_Set_cstr:
  "FixedLengthString_Set n fill (cstr s) = FixedLengthString_Set n fill s"
  by (simp add: FixedLengthString_Set_eq)

lemma ByteBlob_length [simp]: "length (ByteBlob n x) = n"
  by (simp add: ByteBlob_def)

end
