(* ===== verification/Allocator.thy ===== *)
theory Allocator
  imports Prelude
begin

text \<open>
  The interface between the allocator of the second stage and the code that allocates: the
  declarations of \<^verbatim>\<open>include/Memory.h\<close> (\<^verbatim>\<open>malloc\<close>, \<^verbatim>\<open>free\<close>, with \<^verbatim>\<open>operator new\<close> and
  \<^verbatim>\<open>operator delete\<close> forwarding to them) with the laws a client relies on. The state is abstract;
  \<open>live\<close> is the set of regions (address, size) handed out and not yet given back.
\<close>

text \<open>What a client may do between two points in time, other than touching the region \<open>keep\<close>.\<close>

inductive client_run ::
  "('h \<Rightarrow> u32 \<Rightarrow> (u32 \<times> 'h) option) \<Rightarrow> ('h \<Rightarrow> u32 \<Rightarrow> 'h option) \<Rightarrow> ('h \<Rightarrow> nat \<Rightarrow> u8 \<Rightarrow> 'h) \<Rightarrow>
   ('h \<Rightarrow> (nat \<times> nat) set) \<Rightarrow> nat \<times> nat \<Rightarrow> 'h \<Rightarrow> 'h \<Rightarrow> bool"
  for alloc dealloc poke live keep h where
  run_refl: "client_run alloc dealloc poke live keep h h"
| run_alloc: "client_run alloc dealloc poke live keep h h1 \<Longrightarrow> unat c + 3 < 2 ^ 32 \<Longrightarrow>
     alloc h1 c = Some (p, h2) \<Longrightarrow> client_run alloc dealloc poke live keep h h2"
| run_free: "client_run alloc dealloc poke live keep h h1 \<Longrightarrow> (unat p, n) \<in> live h1 \<Longrightarrow>
     (unat p, n) \<noteq> keep \<Longrightarrow> dealloc h1 p = Some h2 \<Longrightarrow>
     client_run alloc dealloc poke live keep h h2"
| run_poke: "client_run alloc dealloc poke live keep h h1 \<Longrightarrow> (q, n) \<in> live h1 \<Longrightarrow>
     (q, n) \<noteq> keep \<Longrightarrow> q \<le> x \<Longrightarrow> x < q + n \<Longrightarrow>
     client_run alloc dealloc poke live keep h (poke h1 x v)"

locale allocator =
  fixes inv :: "'h \<Rightarrow> bool"
    and live :: "'h \<Rightarrow> (nat \<times> nat) set"
    and peek :: "'h \<Rightarrow> nat \<Rightarrow> u8"
    and poke :: "'h \<Rightarrow> nat \<Rightarrow> u8 \<Rightarrow> 'h"
    and alloc :: "'h \<Rightarrow> u32 \<Rightarrow> (u32 \<times> 'h) option"
    and dealloc :: "'h \<Rightarrow> u32 \<Rightarrow> 'h option"
  assumes alloc_total: "inv h \<Longrightarrow> unat c + 3 < 2 ^ 32 \<Longrightarrow> \<exists>p h'. alloc h c = Some (p, h')"
    and alloc_inv: "inv h \<Longrightarrow> unat c + 3 < 2 ^ 32 \<Longrightarrow> alloc h c = Some (p, h') \<Longrightarrow> inv h'"
    and alloc_live: "inv h \<Longrightarrow> unat c + 3 < 2 ^ 32 \<Longrightarrow> alloc h c = Some (p, h') \<Longrightarrow>
      (p = 0 \<and> h' = h) \<or>
      (\<exists>n \<ge> unat c. (unat p, n) \<notin> live h \<and> live h' = insert (unat p, n) (live h))"
    and alloc_peek: "inv h \<Longrightarrow> unat c + 3 < 2 ^ 32 \<Longrightarrow> alloc h c = Some (p, h') \<Longrightarrow>
      (q, n) \<in> live h \<Longrightarrow> q \<le> x \<Longrightarrow> x < q + n \<Longrightarrow> peek h' x = peek h x"
    and free_total: "inv h \<Longrightarrow> (unat p, n) \<in> live h \<Longrightarrow> \<exists>h'. dealloc h p = Some h'"
    and free_inv: "inv h \<Longrightarrow> (unat p, n) \<in> live h \<Longrightarrow> dealloc h p = Some h' \<Longrightarrow> inv h'"
    and free_live: "inv h \<Longrightarrow> (unat p, n) \<in> live h \<Longrightarrow> dealloc h p = Some h' \<Longrightarrow>
      live h' = live h - {(unat p, n)}"
    and free_peek: "inv h \<Longrightarrow> (unat p, n) \<in> live h \<Longrightarrow> dealloc h p = Some h' \<Longrightarrow>
      (q, k) \<in> live h \<Longrightarrow> q \<le> x \<Longrightarrow> x < q + k \<Longrightarrow> peek h' x = peek h x"
    and live_apart: "inv h \<Longrightarrow> (a, n) \<in> live h \<Longrightarrow> (q, k) \<in> live h \<Longrightarrow> (a, n) \<noteq> (q, k) \<Longrightarrow>
      a + n \<le> q \<or> q + k \<le> a"
    and poke_inv: "inv h \<Longrightarrow> (q, n) \<in> live h \<Longrightarrow> q \<le> x \<Longrightarrow> x < q + n \<Longrightarrow> inv (poke h x v)"
    and poke_live: "inv h \<Longrightarrow> (q, n) \<in> live h \<Longrightarrow> q \<le> x \<Longrightarrow> x < q + n \<Longrightarrow>
      live (poke h x v) = live h"
    and poke_peek: "inv h \<Longrightarrow> (q, n) \<in> live h \<Longrightarrow> q \<le> x \<Longrightarrow> x < q + n \<Longrightarrow>
      (a, k) \<in> live h \<Longrightarrow> a \<le> y \<Longrightarrow> y < a + k \<Longrightarrow>
      peek (poke h x v) y = (if y = x then v else peek h y)"
begin

text \<open>Nothing a client does elsewhere disturbs a region it keeps.\<close>

lemma kept_region:
  assumes "client_run alloc dealloc poke live (p, n) h h'" "inv h" "(p, n) \<in> live h"
  shows "inv h' \<and> (p, n) \<in> live h' \<and> (\<forall>x. p \<le> x \<and> x < p + n \<longrightarrow> peek h' x = peek h x)"
  using assms
proof (induction rule: client_run.induct)
  case (run_alloc h1 c a h2)
  then have "inv h1" "(p, n) \<in> live h1" by auto
  with run_alloc alloc_inv [of h1 c a h2] alloc_live [of h1 c a h2] alloc_peek [of h1 c a h2 p n]
  show ?case by auto
next
  case (run_free h1 a k h2)
  then have "inv h1" "(p, n) \<in> live h1" by auto
  with run_free free_inv [of h1 a k h2] free_live [of h1 a k h2] free_peek [of h1 a k h2 p n]
  show ?case by auto
next
  case (run_poke h1 q k x v)
  then have i: "inv h1" and l: "(p, n) \<in> live h1" by auto
  from live_apart [OF i l run_poke.hyps(2)] run_poke.hyps(3)
  have "p + n \<le> q \<or> q + k \<le> p" by auto
  with run_poke i l poke_inv [OF i run_poke.hyps(2)] poke_live [OF i run_poke.hyps(2)]
    poke_peek [OF i run_poke.hyps(2) run_poke.hyps(4,5) l]
  show ?case by auto
qed simp

text \<open>Giving back what was just handed out restores the live regions.\<close>

lemma alloc_free_live:
  assumes "inv h" "unat c + 3 < 2 ^ 32" "alloc h c = Some (p, h1)" "p \<noteq> 0"
  shows "\<exists>h2. dealloc h1 p = Some h2 \<and> inv h2 \<and> live h2 = live h"
proof -
  obtain n where n: "(unat p, n) \<notin> live h" "live h1 = insert (unat p, n) (live h)"
    using alloc_live [OF assms(1-3)] assms(4) by auto
  have i: "inv h1" using assms(1-3) by (rule alloc_inv)
  have l: "(unat p, n) \<in> live h1" using n by simp
  obtain h2 where h2: "dealloc h1 p = Some h2" using free_total [OF i l] by auto
  with free_inv [OF i l h2] free_live [OF i l h2] n show ?thesis by auto
qed

end

end
