(* ===== verification/Stage2_Heap.thy ===== *)
theory Stage2_Heap
  imports Basic_Types Allocator
begin

text \<open>
  The second stage's allocator (\<^verbatim>\<open>stage2/heap.cpp\<close>): a chain of \<^verbatim>\<open>HeapEntry\<close> headers laid out in
  memory, walked through their \<^verbatim>\<open>_next\<close> pointers. \<^verbatim>\<open>malloc\<close> takes the smallest free entry that
  fits and splits it, \<^verbatim>\<open>free\<close> releases an entry and merges free neighbours until none is left.
  The model works on the same byte memory as the code; loops that a damaged chain could keep
  running forever are partial functions, and the theorems show that they return.
\<close>

subsection \<open>HeapEntry\<close>

text \<open>Offset 0 of an entry holds \<^verbatim>\<open>_next\<close>, offset 4 holds \<^verbatim>\<open>_flags\<close>; the entry has 8 bytes.\<close>

definition HeapFlags_Reserved :: u32 where
  "HeapFlags_Reserved = 1"

definition HeapEntry_Next :: "mem \<Rightarrow> u32 \<Rightarrow> u32" where
  "HeapEntry_Next m ent = load32 m ent"

definition HeapEntry_flags :: "mem \<Rightarrow> u32 \<Rightarrow> u32" where
  "HeapEntry_flags m ent = load32 m (ent + 4)"

definition HeapEntry_DataPtr :: "u32 \<Rightarrow> u32" where
  "HeapEntry_DataPtr ent = ent + 8"

definition HeapEntry_IsFree :: "mem \<Rightarrow> u32 \<Rightarrow> bool" where
  "HeapEntry_IsFree m ent \<longleftrightarrow> \<not> FlagField_IsSet (HeapEntry_flags m ent) HeapFlags_Reserved"

definition HeapEntry_Size :: "mem \<Rightarrow> u32 \<Rightarrow> u32" where
  "HeapEntry_Size m ent = (HeapEntry_Next m ent - ent) - 8"

definition HeapEntry_Init :: "mem \<Rightarrow> u32 \<Rightarrow> u32 \<Rightarrow> mem" where
  "HeapEntry_Init m ent next =
     (let m1 = store32 m ent next
      in store32 m1 (ent + 4) (FlagField_ClearAll (HeapEntry_flags m1 ent)))"

text \<open>\<^verbatim>\<open>Reserve\<close> returns the data pointer, or 0 for \<^verbatim>\<open>nullptr\<close>, and the changed memory.\<close>

definition HeapEntry_Reserve :: "mem \<Rightarrow> u32 \<Rightarrow> u32 \<Rightarrow> u32 \<times> mem" where
  "HeapEntry_Reserve m this count =
     (let sz = HeapEntry_Size m this in
      if \<not> HeapEntry_IsFree m this \<or> sz < count then (0, m)
      else
        let m1 = (if 8 + 4 \<le> sz - count then
                    let ent = HeapEntry_DataPtr this + count;
                        m0 = HeapEntry_Init m ent (HeapEntry_Next m this)
                    in store32 m0 this ent
                  else m);
            m2 = store32 m1 (this + 4)
                   (FlagField_Set (HeapEntry_flags m1 this) HeapFlags_Reserved)
        in (HeapEntry_DataPtr this, m2))"

definition HeapEntry_Release :: "mem \<Rightarrow> u32 \<Rightarrow> mem" where
  "HeapEntry_Release m ent =
     store32 m (ent + 4) (FlagField_Clear (HeapEntry_flags m ent) HeapFlags_Reserved)"

definition HeapEntry_TryConsolidate :: "mem \<Rightarrow> u32 \<Rightarrow> bool \<times> mem" where
  "HeapEntry_TryConsolidate m ent =
     (if HeapEntry_IsFree m ent \<and> HeapEntry_IsFree m (HeapEntry_Next m ent)
      then (True, store32 m ent (HeapEntry_Next m (HeapEntry_Next m ent)))
      else (False, m))"

subsection \<open>The allocator\<close>

text \<open>The two global pointers \<^verbatim>\<open>heap\<close> and \<^verbatim>\<open>heapEnd\<close> and the memory they point into.\<close>

record heap_state =
  hmem :: mem
  heap :: u32
  heapEnd :: u32

definition HeapInit :: "mem \<Rightarrow> u32 \<Rightarrow> u32 \<Rightarrow> heap_state" where
  "HeapInit m basePtr maxSize0 =
     (let maxSize = (if maxSize0 mod 4 \<noteq> 0 then maxSize0 - maxSize0 mod 4 else maxSize0);
          e = basePtr + maxSize
      in \<lparr>hmem = HeapEntry_Init m basePtr e, heap = basePtr, heapEnd = e\<rparr>)"

text \<open>The search loop of \<^verbatim>\<open>malloc\<close>; \<open>found = 0\<close> is \<^verbatim>\<open>nullptr\<close>.\<close>

partial_function (option) malloc_find ::
  "mem \<Rightarrow> u32 \<Rightarrow> u32 \<Rightarrow> u32 \<Rightarrow> u32 \<Rightarrow> u32 option" where
  "malloc_find m hEnd count it found =
     (if it = hEnd then Some found
      else malloc_find m hEnd count (HeapEntry_Next m it)
        (if HeapEntry_IsFree m it \<and> count \<le> HeapEntry_Size m it \<and>
            (found = 0 \<or> HeapEntry_Size m it < HeapEntry_Size m found)
         then it else found))"

definition malloc_round :: "u32 \<Rightarrow> u32" where
  "malloc_round count = (if count mod 4 \<noteq> 0 then count + (4 - count mod 4) else count)"

definition malloc :: "heap_state \<Rightarrow> u32 \<Rightarrow> (u32 \<times> heap_state) option" where
  "malloc h count0 =
     (let count = malloc_round count0 in
      case malloc_find (hmem h) (heapEnd h) count (heap h) 0 of
        None \<Rightarrow> None
      | Some found \<Rightarrow>
          (if found \<noteq> 0 then
             let (p, m) = HeapEntry_Reserve (hmem h) found count
             in Some (p, h\<lparr>hmem := m\<rparr>)
           else Some (0, h)))"

text \<open>One pass of \<^verbatim>\<open>free\<close>'s inner loop: stops at the first merge.\<close>

partial_function (option) free_pass :: "mem \<Rightarrow> u32 \<Rightarrow> u32 \<Rightarrow> (bool \<times> mem) option" where
  "free_pass m hEnd ent =
     (if HeapEntry_Next m ent = hEnd then Some (False, m)
      else if fst (HeapEntry_TryConsolidate m ent)
           then Some (True, snd (HeapEntry_TryConsolidate m ent))
           else free_pass m hEnd (HeapEntry_Next m ent))"

partial_function (option) free_loop :: "mem \<Rightarrow> u32 \<Rightarrow> u32 \<Rightarrow> mem option" where
  "free_loop m hBase hEnd =
     Option.bind (free_pass m hEnd hBase)
       (\<lambda>(merged, m'). if merged then free_loop m' hBase hEnd else Some m')"

definition free :: "heap_state \<Rightarrow> u32 \<Rightarrow> heap_state option" where
  "free h ptr =
     (if ptr = 0 then Some h
      else
        let ent = ptr - 8; m = HeapEntry_Release (hmem h) ent
        in map_option (\<lambda>m'. h\<lparr>hmem := m'\<rparr>) (free_loop m (heap h) (heapEnd h)))"

subsection \<open>The abstract heap: a sequence of blocks\<close>

text \<open>A block is its payload size and whether it is reserved; the blocks tile the heap area.\<close>

type_synonym block = "nat \<times> bool"

fun span :: "block list \<Rightarrow> nat" where
  "span [] = 0"
| "span ((n, r) # bs) = 8 + n + span bs"

fun laid_out :: "mem \<Rightarrow> nat \<Rightarrow> block list \<Rightarrow> nat \<Rightarrow> bool" where
  "laid_out m a [] e \<longleftrightarrow> a = e"
| "laid_out m a ((n, r) # bs) e \<longleftrightarrow>
     load32 m (of_nat a) = of_nat (a + 8 + n) \<and>
     load32 m (of_nat (a + 4)) = (if r then 1 else 0) \<and>
     laid_out m (a + 8 + n) bs e"

definition heap_rep :: "heap_state \<Rightarrow> block list \<Rightarrow> bool" where
  "heap_rep h bs \<longleftrightarrow> heap h \<noteq> 0 \<and> bs \<noteq> [] \<and>
     laid_out (hmem h) (unat (heap h)) bs (unat (heapEnd h)) \<and>
     (\<forall>(n, r) \<in> set bs. 4 dvd n)"

text \<open>The addresses the headers occupy.\<close>

fun hdrs :: "nat \<Rightarrow> block list \<Rightarrow> nat set" where
  "hdrs a [] = {}"
| "hdrs a ((n, r) # bs) = {a ..< a + 8} \<union> hdrs (a + 8 + n) bs"

text \<open>What \<^verbatim>\<open>malloc\<close> does to the block it takes, and what \<^verbatim>\<open>free\<close> does to the whole sequence.\<close>

definition reserve_block :: "nat \<Rightarrow> nat \<Rightarrow> block list" where
  "reserve_block c n =
     (if 12 \<le> n - c then [(c, True), (n - c - 8, False)] else [(n, True)])"

fun coalesce :: "block list \<Rightarrow> block list" where
  "coalesce ((n, False) # (k, False) # bs) = coalesce ((n + 8 + k, False) # bs)"
| "coalesce (b # bs) = b # coalesce bs"
| "coalesce [] = []"

fun best_fit :: "nat \<Rightarrow> nat \<Rightarrow> block list \<Rightarrow> (nat \<times> nat) option \<Rightarrow> (nat \<times> nat) option" where
  "best_fit c a [] acc = acc"
| "best_fit c a ((n, r) # bs) acc =
     best_fit c (a + 8 + n) bs
       (if \<not> r \<and> c \<le> n \<and> (case acc of None \<Rightarrow> True | Some (_, k) \<Rightarrow> n < k)
        then Some (a, n) else acc)"

fun merge_first :: "block list \<Rightarrow> block list option" where
  "merge_first ((n, False) # (k, False) # bs) = Some ((n + 8 + k, False) # bs)"
| "merge_first (b # bs) = map_option ((#) b) (merge_first bs)"
| "merge_first [] = None"

lemmas coalesce_induct = coalesce.induct [case_names merge reserved last before_reserved empty]

lemmas merge_first_induct = merge_first.induct [case_names merge reserved last before_reserved empty]

subsection \<open>Layout lemmas\<close>

lemma laid_out_end: "laid_out m a bs e \<Longrightarrow> e = a + span bs"
  by (induction m a bs e rule: laid_out.induct) auto

lemma span_append [simp]: "span (xs @ ys) = span xs + span ys"
  by (induction xs rule: span.induct) auto

lemma laid_out_append:
  "laid_out m a (xs @ ys) e \<longleftrightarrow>
   laid_out m a xs (a + span xs) \<and> laid_out m (a + span xs) ys e"
proof (induction xs arbitrary: a)
  case (Cons b xs)
  show ?case by (cases b) (auto simp: Cons add.assoc dest: laid_out_end)
qed simp

lemma hdrs_bounds: "x \<in> hdrs a bs \<Longrightarrow> a \<le> x \<and> x < a + span bs"
  by (induction a bs rule: hdrs.induct) fastforce+

lemma hdrs_append: "hdrs a (xs @ ys) = hdrs a xs \<union> hdrs (a + span xs) ys"
proof (induction xs arbitrary: a)
  case (Cons b xs)
  show ?case by (cases b) (auto simp: Cons add.assoc)
qed simp

lemma load32_same:
  assumes "\<And>i. i < 4 \<Longrightarrow> m (of_nat (a + i)) = m' (of_nat (a + i))"
  shows "load32 m (of_nat a) = load32 m' (of_nat a)"
  using assms by (intro load32_cong) (auto simp: word_at_of_nat)

lemma laid_out_frame:
  assumes "\<And>x. x \<in> hdrs a bs \<Longrightarrow> m (of_nat x) = m' (of_nat x)"
  shows "laid_out m a bs e \<longleftrightarrow> laid_out m' a bs e"
  using assms
proof (induction m a bs e rule: laid_out.induct)
  case (2 m a n r bs e)
  have "load32 m (of_nat a) = load32 m' (of_nat a)"
    by (rule load32_same) (auto intro!: "2.prems" simp del: of_nat_add)
  moreover have "load32 m (of_nat (a + 4)) = load32 m' (of_nat (a + 4))"
    by (rule load32_same) (auto intro!: "2.prems" simp del: of_nat_add)
  moreover have "laid_out m (a + 8 + n) bs e = laid_out m' (a + 8 + n) bs e"
    by (rule "2.IH") (auto intro!: "2.prems")
  ultimately show ?case by simp
qed simp

text \<open>A write of one word outside a run of blocks leaves the run as it is.\<close>

lemma laid_out_store32:
  assumes "p + 4 \<le> 2 ^ 32" "a + span bs \<le> 2 ^ 32" "p + 4 \<le> a \<or> a + span bs \<le> p"
  shows "laid_out (store32 m (of_nat p) v) a bs e \<longleftrightarrow> laid_out m a bs e"
proof (rule laid_out_frame)
  fix x assume "x \<in> hdrs a bs"
  then have "a \<le> x \<and> x < a + span bs" by (rule hdrs_bounds)
  with assms show "store32 m (of_nat p) v (of_nat x) = m (of_nat x)"
    by (intro store32_apart) auto
qed

text \<open>What the entry operations see of a block that heads a run.\<close>

declare laid_out.simps [simp del]

lemma entry_Next: "laid_out m a ((n, r) # bs) e \<Longrightarrow> HeapEntry_Next m (of_nat a) = of_nat (a + 8 + n)"
  by (simp add: HeapEntry_Next_def laid_out.simps)

lemma entry_flags:
  "laid_out m a ((n, r) # bs) e \<Longrightarrow> HeapEntry_flags m (of_nat a) = (if r then 1 else 0)"
  by (simp add: HeapEntry_flags_def laid_out.simps)

lemma entry_IsFree: "laid_out m a ((n, r) # bs) e \<Longrightarrow> HeapEntry_IsFree m (of_nat a) \<longleftrightarrow> \<not> r"
  by (simp add: HeapEntry_IsFree_def entry_flags FlagField_IsSet_def HeapFlags_Reserved_def)

lemma entry_Size: "laid_out m a ((n, r) # bs) e \<Longrightarrow> HeapEntry_Size m (of_nat a) = of_nat n"
  by (simp add: HeapEntry_Size_def entry_Next)

lemmas entry_simps = entry_Next entry_flags entry_IsFree entry_Size

subsection \<open>malloc finds the best fit\<close>

definition found_ptr :: "(nat \<times> nat) option \<Rightarrow> u32" where
  "found_ptr acc = (case acc of None \<Rightarrow> 0 | Some (p, k) \<Rightarrow> of_nat p)"

definition found_ok :: "mem \<Rightarrow> (nat \<times> nat) option \<Rightarrow> bool" where
  "found_ok m acc \<longleftrightarrow> (case acc of None \<Rightarrow> True
     | Some (p, k) \<Rightarrow> 0 < p \<and> p < 2 ^ 32 \<and> k < 2 ^ 32 \<and> HeapEntry_Size m (of_nat p) = of_nat k)"

lemma found_ptr_eq_0: "found_ok m acc \<Longrightarrow> found_ptr acc = 0 \<longleftrightarrow> acc = None"
  using of_nat_u32_eq_iff [of _ 0]
  by (auto simp: found_ptr_def found_ok_def split: option.splits prod.splits)

lemma malloc_find_best_fit:
  assumes "laid_out m a bs e" "0 < a" "e < 2 ^ 32" "c < 2 ^ 32" "found_ok m acc"
  shows "malloc_find m (of_nat e) (of_nat c) (of_nat a) (found_ptr acc) =
    Some (found_ptr (best_fit c a bs acc))"
  using assms
proof (induction bs arbitrary: a acc)
  case Nil
  then show ?case by (simp add: malloc_find.simps laid_out.simps)
next
  case (Cons b bs)
  obtain n r where b: "b = (n, r)" by (cases b)
  note lo = Cons.prems(1) [unfolded b]
  have e: "e = a + 8 + n + span bs" using laid_out_end [OF lo] by simp
  have rest: "laid_out m (a + 8 + n) bs e" using lo by (simp add: laid_out.simps)
  have ne: "(of_nat a :: u32) \<noteq> of_nat e"
    using e Cons.prems(3) by (subst of_nat_u32_eq_iff) auto
  let ?take = "\<not> r \<and> c \<le> n \<and> (case acc of None \<Rightarrow> True | Some (_, k) \<Rightarrow> n < k)"
  let ?acc = "if ?take then Some (a, n) else acc"
  have n: "n < 2 ^ 32" and a: "a < 2 ^ 32" using e Cons.prems(3) by auto
  have cond: "(HeapEntry_IsFree m (of_nat a) \<and> of_nat c \<le> HeapEntry_Size m (of_nat a) \<and>
      (found_ptr acc = 0 \<or> HeapEntry_Size m (of_nat a) < HeapEntry_Size m (found_ptr acc)))
      \<longleftrightarrow> ?take"
  proof (cases acc)
    case None
    with lo n Cons.prems(4) show ?thesis
      by (simp add: entry_simps of_nat_u32_le_iff found_ptr_def)
  next
    case (Some pk)
    obtain p k where pk: "pk = (p, k)" by (cases pk)
    with Some Cons.prems(5) have "found_ptr acc \<noteq> 0" by (simp add: found_ptr_eq_0)
    moreover have "HeapEntry_Size m (found_ptr acc) = of_nat k" "k < 2 ^ 32"
      using Some pk Cons.prems(5) by (auto simp: found_ptr_def found_ok_def)
    ultimately show ?thesis
      using lo n Cons.prems(4) Some pk by (simp add: entry_simps of_nat_u32_le_iff of_nat_u32_less_iff)
  qed
  have "found_ok m ?acc"
    using Cons.prems(2,5) a n lo by (auto simp: found_ok_def entry_simps)
  then have "malloc_find m (of_nat e) (of_nat c) (of_nat (a + 8 + n)) (found_ptr ?acc) =
      Some (found_ptr (best_fit c (a + 8 + n) bs ?acc))"
    by (intro Cons.IH) (use rest Cons.prems in auto)
  moreover have "found_ptr ?acc = (if ?take then of_nat a else found_ptr acc)"
    by (simp add: found_ptr_def)
  ultimately show ?case
    using ne lo by (subst malloc_find.simps) (simp only: cond if_False entry_Next b best_fit.simps)
qed

text \<open>\<open>best_fit\<close> picks the first of the smallest free blocks that are large enough.\<close>

definition fits :: "nat \<Rightarrow> block list \<Rightarrow> nat set" where
  "fits c bs = {n. (n, False) \<in> set bs \<and> c \<le> n}"

lemma best_fit_None: "best_fit c a bs acc = None \<longleftrightarrow> acc = None \<and> fits c bs = {}"
proof (induction c a bs acc rule: best_fit.induct)
  case (2 c a n r bs acc)
  then show ?case by (auto simp: fits_def split: if_splits option.splits)
qed (auto simp: fits_def)

lemma best_fit_Some:
  assumes "best_fit c a bs acc = Some (p, n)"
  shows "(acc = Some (p, n) \<and> (\<forall>k \<in> fits c bs. n \<le> k)) \<or>
    (\<exists>pre post. bs = pre @ (n, False) # post \<and> p = a + span pre \<and> c \<le> n \<and>
       (\<forall>k \<in> fits c pre. n < k) \<and> (\<forall>k \<in> fits c post. n \<le> k) \<and>
       (\<forall>q k. acc = Some (q, k) \<longrightarrow> n < k))"
  using assms
proof (induction bs arbitrary: a acc)
  case Nil
  then show ?case by (simp add: fits_def)
next
  case (Cons b bs)
  obtain k r where b: "b = (k, r)" by (cases b)
  let ?take = "\<not> r \<and> c \<le> k \<and> (case acc of None \<Rightarrow> True | Some (_, j) \<Rightarrow> k < j)"
  from Cons.prems b
  have "best_fit c (a + 8 + k) bs (if ?take then Some (a, k) else acc) = Some (p, n)" by simp
  from Cons.IH [OF this] show ?case
  proof (elim disjE exE conjE)
    assume acc: "(if ?take then Some (a, k) else acc) = Some (p, n)"
      and min: "\<forall>j \<in> fits c bs. n \<le> j"
    show ?thesis
    proof (cases ?take)
      case True
      with acc have "p = a" "n = k" by auto
      with True min b have "b # bs = [] @ (n, False) # bs \<and> p = a + span [] \<and> c \<le> n \<and>
          (\<forall>k \<in> fits c []. n < k) \<and> (\<forall>k \<in> fits c bs. n \<le> k) \<and>
          (\<forall>q k. acc = Some (q, k) \<longrightarrow> n < k)"
        by (auto simp: fits_def)
      then show ?thesis by blast
    next
      case False
      with acc have "acc = Some (p, n)" by argo
      moreover with False min b have "\<forall>j \<in> fits c (b # bs). n \<le> j"
        by (auto simp: fits_def)
      ultimately show ?thesis by blast
    qed
  next
    fix pre post
    assume bs: "bs = pre @ (n, False) # post" and p: "p = a + 8 + k + span pre" and "c \<le> n"
      and pre: "\<forall>j \<in> fits c pre. n < j" and post: "\<forall>j \<in> fits c post. n \<le> j"
      and lt: "\<forall>q j. (if ?take then Some (a, k) else acc) = Some (q, j) \<longrightarrow> n < j"
    have "\<forall>j \<in> fits c (b # pre). n < j"
    proof
      fix j assume "j \<in> fits c (b # pre)"
      then consider "j \<in> fits c pre" | "j = k" "\<not> r" "c \<le> k"
        by (auto simp: fits_def b)
      then show "n < j"
      proof cases
        case 2
        with lt show ?thesis by (cases ?take) (auto split: option.splits)
      qed (use pre in blast)
    qed
    moreover have "\<forall>q j. acc = Some (q, j) \<longrightarrow> n < j"
      using lt by (cases ?take) auto
    ultimately have "b # bs = (b # pre) @ (n, False) # post \<and> p = a + span (b # pre) \<and> c \<le> n \<and>
        (\<forall>k \<in> fits c (b # pre). n < k) \<and> (\<forall>k \<in> fits c post. n \<le> k) \<and>
        (\<forall>q k. acc = Some (q, k) \<longrightarrow> n < k)"
      using bs p \<open>c \<le> n\<close> post b by simp
    then show ?thesis by blast
  qed
qed

subsection \<open>Reserve splits the block it takes\<close>

text \<open>Address arithmetic folded into \<open>of_nat\<close>, the form in which \<open>heap_simps\<close> applies.\<close>

lemma of_nat_plus_numeral: "(of_nat a :: u32) + numeral k = of_nat (a + numeral k)"
  by simp

lemmas addr_fold = of_nat_plus_numeral of_nat_add [symmetric]

lemma HeapEntry_Init_eq:
  "HeapEntry_Init m (of_nat a) v = store32 (store32 m (of_nat a) v) (of_nat (a + 4)) 0"
  by (simp add: HeapEntry_Init_def FlagField_ClearAll_def)

lemma reserve_split:
  assumes lo: "laid_out m a (pre @ (n, False) # post) e" and e: "e < 2 ^ 32"
    and c: "c \<le> n" "12 \<le> n - c" and p: "p = a + span pre" and q: "q = p + 8 + c"
    and m': "m' = store32 (store32 (store32 (store32 m (of_nat q) (of_nat (p + 8 + n)))
      (of_nat (q + 4)) 0) (of_nat p) (of_nat q)) (of_nat (p + 4)) 1"
  shows "laid_out m' a (pre @ [(c, True), (n - c - 8, False)] @ post) e"
proof -
  have E: "e = p + 8 + n + span post" using laid_out_end [OF lo] p by simp
  have room: "c + 12 \<le> n" using c by simp
  from lo p have pre: "laid_out m a pre p" and blk: "laid_out m p ((n, False) # post) e"
    by (simp_all add: laid_out_append)
  have post: "laid_out m (p + 8 + n) post e" using blk by (simp add: laid_out.simps)
  have pre': "laid_out m' a pre p"
    unfolding m' using pre p q room e E by (simp add: laid_out_store32 del: of_nat_add)
  have post': "laid_out m' (p + 8 + n) post e"
    unfolding m' using post q room e E by (simp add: laid_out_store32 del: of_nat_add)
  have ld: "load32 m' (of_nat p) = of_nat q" "load32 m' (of_nat (p + 4)) = 1"
    "load32 m' (of_nat q) = of_nat (p + 8 + n)" "load32 m' (of_nat (q + 4)) = 0"
    unfolding m' using q c e E by (simp_all add: heap_simps del: of_nat_add)
  have "q + 8 + (n - c - 8) = p + 8 + n" using q c by simp
  then have "laid_out m' p [(c, True), (n - c - 8, False)] (p + 8 + n)"
    using ld q by (simp add: laid_out.simps ac_simps del: of_nat_add)
  moreover have "p + span [(c, True), (n - c - 8, False)] = p + 8 + n" using c by simp
  ultimately show ?thesis
    using pre' post' p by (simp only: laid_out_append)
qed

lemma HeapEntry_Reserve_refines:
  assumes lo: "laid_out m a (pre @ (n, False) # post) e" and e: "e < 2 ^ 32"
    and c: "c \<le> n" and p: "p = a + span pre"
  shows "\<exists>m'. HeapEntry_Reserve m (of_nat p) (of_nat c) = (of_nat (p + 8), m') \<and>
    laid_out m' a (pre @ reserve_block c n @ post) e \<and>
    (\<forall>x < 2 ^ 32. x < p \<or> p + 8 + n \<le> x \<longrightarrow> m' (of_nat x) = m (of_nat x))"
proof -
  have E: "e = p + 8 + n + span post" using laid_out_end [OF lo] p by simp
  from lo p have pre: "laid_out m a pre p" and blk: "laid_out m p ((n, False) # post) e"
    by (simp_all add: laid_out_append)
  note ent = entry_simps [OF blk]
  have cmp: "\<not> (of_nat n :: u32) < of_nat c" "(12 :: u32) \<le> of_nat n - of_nat c \<longleftrightarrow> 12 \<le> n - c"
    using c e E of_nat_u32_le_iff [of 12 "n - c"]
    by (simp_all add: of_nat_u32_less_iff of_nat_u32_diff del: of_nat_diff)
  show ?thesis
  proof (cases "12 \<le> n - c")
    case True
    then have room: "c + 12 \<le> n" by simp
    define q where "q = p + 8 + c"
    define m' where "m' = store32 (store32 (store32 (store32 m (of_nat q) (of_nat (p + 8 + n)))
      (of_nat (q + 4)) 0) (of_nat p) (of_nat q)) (of_nat (p + 4)) 1"
    have fl: "load32 (store32 (store32 (store32 m (of_nat q) (of_nat (p + 8 + n)))
      (of_nat (q + 4)) 0) (of_nat p) (of_nat q)) (of_nat (p + 4)) = 0"
      using blk e E True q_def by (simp add: heap_simps laid_out.simps del: of_nat_add)
    have "HeapEntry_Reserve m (of_nat p) (of_nat c) = (of_nat (p + 8), m')"
      using True fl
      by (simp add: HeapEntry_Reserve_def ent cmp HeapEntry_DataPtr_def addr_fold q_def [symmetric]
          HeapEntry_Init_eq HeapEntry_flags_def FlagField_Set_def HeapFlags_Reserved_def m'_def
          Let_def del: of_nat_add)
    moreover have "laid_out m' a (pre @ reserve_block c n @ post) e"
      using reserve_split [OF lo e c True p q_def m'_def] True by (simp add: reserve_block_def)
    moreover have "m' (of_nat x) = m (of_nat x)" if "x < 2 ^ 32" "x < p \<or> p + 8 + n \<le> x" for x
      unfolding m'_def using that e E room q_def
      by (cases "x < p") (simp_all add: heap_simps del: of_nat_add)
    ultimately show ?thesis by blast
  next
    case False
    define m' where "m' = store32 m (of_nat (p + 4)) 1"
    have "HeapEntry_Reserve m (of_nat p) (of_nat c) = (of_nat (p + 8), m')"
      using False ent
      by (simp add: HeapEntry_Reserve_def cmp HeapEntry_DataPtr_def addr_fold
          FlagField_Set_def HeapFlags_Reserved_def m'_def del: of_nat_add)
    moreover have "laid_out m' a (pre @ reserve_block c n @ post) e"
      using False pre blk e E p
      by (simp add: reserve_block_def laid_out_append laid_out.simps m'_def laid_out_store32
          heap_simps del: of_nat_add)
    moreover have "m' (of_nat x) = m (of_nat x)" if "x < 2 ^ 32" "x < p \<or> p + 8 + n \<le> x" for x
      unfolding m'_def using that e E
      by (cases "x < p") (simp_all add: heap_simps del: of_nat_add)
    ultimately show ?thesis by blast
  qed
qed

subsection \<open>malloc refines best-fit allocation\<close>

text \<open>The size \<^verbatim>\<open>malloc\<close> really reserves: the request rounded up to a multiple of four.\<close>

definition round4 :: "nat \<Rightarrow> nat" where
  "round4 c = (c + 3) div 4 * 4"

lemma round4_bounds: "c \<le> round4 c" "round4 c < c + 4" "4 dvd round4 c"
  by (simp_all add: round4_def)

lemma malloc_round_eq:
  assumes "unat count + 3 < 2 ^ 32"
  shows "malloc_round count = of_nat (round4 (unat count))"
proof -
  define c where "c = unat count"
  have w: "count = of_nat c" by (simp add: c_def)
  have lt: "c mod 4 \<le> 4" by simp
  have um: "unat (count mod 4) = c mod 4" by (simp add: unat_mod c_def)
  have md: "count mod 4 = of_nat (c mod 4)" unfolding um [symmetric] by simp
  have nz: "count mod 4 = 0 \<longleftrightarrow> c mod 4 = 0" unfolding um [symmetric] by (simp add: unat_eq_0)
  show ?thesis
  proof (cases "c mod 4 = 0")
    case True
    then have "round4 c = c" unfolding round4_def by presburger
    with True nz show ?thesis
      by (simp only: malloc_round_def c_def [symmetric] w [symmetric] simp_thms if_False)
  next
    case False
    then have "c + (4 - c mod 4) = round4 c" unfolding round4_def by presburger
    moreover have "of_nat (c + (4 - c mod 4)) = (of_nat c :: u32) + (of_nat 4 - of_nat (c mod 4))"
      by (simp only: of_nat_add of_nat_diff [OF lt])
    ultimately show ?thesis
      using False nz by (simp only: malloc_round_def c_def [symmetric] md [symmetric] w [symmetric]
          of_nat_numeral if_True simp_thms)
  qed
qed

text \<open>
  The contract of \<^verbatim>\<open>malloc\<close> on a heap that represents \<open>bs\<close>: it always returns; with no block
  large enough it returns \<^verbatim>\<open>nullptr\<close> and changes nothing; otherwise it takes the first of the
  smallest ones, splits it, and touches no byte outside that block.
\<close>

definition outside_same :: "nat \<Rightarrow> nat \<Rightarrow> mem \<Rightarrow> mem \<Rightarrow> bool" where
  "outside_same lo hi m m' \<longleftrightarrow> (\<forall>x < 2 ^ 32. x < lo \<or> hi \<le> x \<longrightarrow> m' (of_nat x) = m (of_nat x))"

lemma malloc_null:
  assumes "heap_rep h bs" "unat count + 3 < 2 ^ 32" "fits (round4 (unat count)) bs = {}"
  shows "malloc h count = Some (0, h)"
proof -
  have c: "round4 (unat count) < 2 ^ 32" using assms(2) round4_bounds(2) [of "unat count"] by simp
  have "malloc_find (hmem h) (of_nat (unat (heapEnd h))) (of_nat (round4 (unat count)))
      (of_nat (unat (heap h))) (found_ptr None) = Some (found_ptr None)"
    using assms c best_fit_None [of "round4 (unat count)" "unat (heap h)" bs None]
    by (subst malloc_find_best_fit) (auto simp: heap_rep_def found_ok_def unat_gt_0)
  with assms(2) show ?thesis by (simp add: malloc_def malloc_round_eq found_ptr_def)
qed

lemma malloc_best_fit:
  assumes rep: "heap_rep h bs" and count: "unat count + 3 < 2 ^ 32"
    and c: "c = round4 (unat count)" and fit: "fits c bs \<noteq> {}"
  shows "\<exists>pre n post p h'. bs = pre @ (n, False) # post \<and> c \<le> n \<and>
    (\<forall>k \<in> fits c pre. n < k) \<and> (\<forall>k \<in> fits c post. n \<le> k) \<and>
    unat p = unat (heap h) + span pre + 8 \<and> unat p + n < 2 ^ 32 \<and>
    malloc h count = Some (p, h') \<and>
    heap h' = heap h \<and> heapEnd h' = heapEnd h \<and> heap_rep h' (pre @ reserve_block c n @ post) \<and>
    outside_same (unat p - 8) (unat p + n) (hmem h) (hmem h')"
proof -
  let ?a = "unat (heap h)" and ?e = "unat (heapEnd h)"
  have lo: "laid_out (hmem h) ?a bs ?e" and al: "\<forall>(n, r) \<in> set bs. 4 dvd n" and a: "0 < ?a"
    using rep by (auto simp: heap_rep_def unat_gt_0)
  have c32: "c < 2 ^ 32" using count c round4_bounds(2) [of "unat count"] by simp
  obtain q n where q: "best_fit c ?a bs None = Some (q, n)"
    using fit best_fit_None [of c ?a bs None] by fastforce
  from best_fit_Some [OF this] obtain pre post where bs: "bs = pre @ (n, False) # post"
    and qe: "q = ?a + span pre" and cn: "c \<le> n"
    and pre: "\<forall>k \<in> fits c pre. n < k" and post: "\<forall>k \<in> fits c post. n \<le> k" by auto
  have find: "malloc_find (hmem h) (heapEnd h) (of_nat c) (heap h) 0 = Some (of_nat q)"
    using malloc_find_best_fit [OF lo a _ c32, of None] q by (simp add: found_ok_def found_ptr_def)
  obtain m' where res: "HeapEntry_Reserve (hmem h) (of_nat q) (of_nat c) = (of_nat (q + 8), m')"
    and lo': "laid_out m' ?a (pre @ reserve_block c n @ post) ?e"
    and fr: "\<forall>x < 2 ^ 32. x < q \<or> q + 8 + n \<le> x \<longrightarrow> m' (of_nat x) = hmem h (of_nat x)"
    using HeapEntry_Reserve_refines [OF lo [unfolded bs] _ cn qe] by auto
  have E: "?e = q + 8 + n + span post" using laid_out_end [OF lo] bs qe by simp
  have e32: "?e < 2 ^ 32" by simp
  have q0: "(of_nat q :: u32) \<noteq> 0"
    using of_nat_u32_eq_iff [of q 0] E e32 a qe by simp
  have "malloc h count = Some (of_nat (q + 8), h\<lparr>hmem := m'\<rparr>)"
    using count find q0 res by (simp add: malloc_def malloc_round_eq c [symmetric])
  moreover have "heap_rep (h\<lparr>hmem := m'\<rparr>) (pre @ reserve_block c n @ post)"
    using rep lo' al bs round4_bounds(3) [of "unat count"] c cn
    by (auto simp: heap_rep_def reserve_block_def dvd_diff_nat)
  moreover have "unat (of_nat (q + 8) :: u32) = q + 8" using E e32 by (intro unat_of_nat_u32) simp
  ultimately show ?thesis
    using bs cn pre post qe fr E e32
    by (intro exI [of _ pre] exI [of _ n] exI [of _ post] exI [of _ "of_nat (q + 8)"]
        exI [of _ "h\<lparr>hmem := m'\<rparr>"]) (simp add: outside_same_def del: of_nat_add)
qed

subsection \<open>free releases and merges\<close>

lemma merge_first_None: "merge_first bs = None \<Longrightarrow> coalesce bs = bs"
  by (induction bs rule: merge_first_induct) auto

lemma merge_first_Some:
  "merge_first bs = Some bs' \<Longrightarrow>
   coalesce bs' = coalesce bs \<and> length bs = Suc (length bs') \<and> span bs' = span bs \<and> bs' \<noteq> []"
proof (induction bs arbitrary: bs' rule: merge_first_induct)
  case (before_reserved b k bs)
  then obtain ds where ds: "merge_first bs = Some ds" "bs' = b # (k, True) # ds" by auto
  with before_reserved.IH [of "(k, True) # ds"] show ?case by (cases b) auto
qed auto

lemma merge_first_hdrs: "merge_first bs = Some bs' \<Longrightarrow> hdrs a bs' \<subseteq> hdrs a bs"
proof (induction bs arbitrary: a bs' rule: merge_first_induct)
  case (merge n k bs)
  then show ?case by (auto simp: add.assoc)
next
  case (reserved n bs)
  then obtain cs where "merge_first bs = Some cs" "bs' = (n, True) # cs" by auto
  with reserved.IH [of cs "a + 8 + n"] show ?case by auto
next
  case (before_reserved b k bs)
  obtain n r where b: "b = (n, r)" by (cases b)
  from before_reserved.prems obtain cs where "merge_first ((k, True) # bs) = Some cs" "bs' = b # cs" by auto
  with before_reserved.IH [of cs "a + 8 + n"] b show ?case by auto
qed auto

lemma free_pass_refines:
  assumes "laid_out m a bs e" "e < 2 ^ 32" "bs \<noteq> []"
  shows "case merge_first bs of
      None \<Rightarrow> free_pass m (of_nat e) (of_nat a) = Some (False, m)
    | Some bs' \<Rightarrow> (\<exists>m'. free_pass m (of_nat e) (of_nat a) = Some (True, m') \<and>
        laid_out m' a bs' e \<and> (\<forall>x < 2 ^ 32. x \<notin> hdrs a bs \<longrightarrow> m' (of_nat x) = m (of_nat x)))"
  using assms
proof (induction bs arbitrary: a)
  case Nil
  then show ?case by simp
next
  case (Cons b bs)
  obtain n r where b: "b = (n, r)" by (cases b)
  note lo = Cons.prems(1) [unfolded b]
  have rest: "laid_out m (a + 8 + n) bs e" using lo by (simp add: laid_out.simps)
  have E: "e = a + 8 + n + span bs" using laid_out_end [OF rest] .
  show ?case
  proof (cases bs)
    case Nil
    with lo b E show ?thesis by (subst free_pass.simps) (cases r; simp add: entry_Next)
  next
    case (Cons b2 cs)
    obtain k r2 where b2: "b2 = (k, r2)" by (cases b2)
    note rest2 = rest [unfolded Cons b2]
    have E2: "e = a + 8 + n + 8 + k + span cs" using E Cons b2 by simp
    have ne: "(of_nat (a + 8 + n) :: u32) \<noteq> of_nat e"
      using E2 Cons.prems(2) by (subst of_nat_u32_eq_iff) auto
    show ?thesis
    proof (cases "r \<or> r2")
      case False
      define m' where "m' = store32 m (of_nat a) (of_nat (a + 8 + n + 8 + k))"
      have "free_pass m (of_nat e) (of_nat a) = Some (True, m')"
        using False ne
        by (subst free_pass.simps)
           (simp add: HeapEntry_TryConsolidate_def entry_simps [OF lo] entry_simps [OF rest2]
             m'_def del: of_nat_add)
      moreover have "laid_out m' a ((n + 8 + k, False) # cs) e"
        using rest2 lo False E2 Cons.prems(2)
        by (simp add: laid_out.simps m'_def laid_out_store32 heap_simps ac_simps del: of_nat_add)
      moreover have "m' (of_nat x) = m (of_nat x)" if "x < 2 ^ 32" "x \<notin> hdrs a (b # bs)" for x
        unfolding m'_def using that b E2 Cons.prems(2) by (intro store32_apart) auto
      ultimately show ?thesis using False b b2 Cons by auto
    next
      case True
      have step: "free_pass m (of_nat e) (of_nat a) = free_pass m (of_nat e) (of_nat (a + 8 + n))"
        using True ne
        by (subst free_pass.simps)
           (auto simp: HeapEntry_TryConsolidate_def entry_simps [OF lo] entry_simps [OF rest2]
             simp del: of_nat_add)
      have mf: "merge_first (b # bs) = map_option ((#) b) (merge_first bs)"
        using True b b2 Cons by (cases r; cases r2) auto
      have IH: "case merge_first bs of
          None \<Rightarrow> free_pass m (of_nat e) (of_nat (a + 8 + n)) = Some (False, m)
        | Some bs' \<Rightarrow> (\<exists>m'. free_pass m (of_nat e) (of_nat (a + 8 + n)) = Some (True, m') \<and>
            laid_out m' (a + 8 + n) bs' e \<and>
            (\<forall>x < 2 ^ 32. x \<notin> hdrs (a + 8 + n) bs \<longrightarrow> m' (of_nat x) = m (of_nat x)))"
        by (rule Cons.IH [OF rest Cons.prems(2)]) (simp add: Cons)
      show ?thesis
      proof (cases "merge_first bs")
        case None
        with IH mf step show ?thesis by simp
      next
        case (Some bs')
        with IH obtain m' where m': "free_pass m (of_nat e) (of_nat (a + 8 + n)) = Some (True, m')"
          "laid_out m' (a + 8 + n) bs' e"
          "\<forall>x < 2 ^ 32. x \<notin> hdrs (a + 8 + n) bs \<longrightarrow> m' (of_nat x) = m (of_nat x)" by auto
        have "laid_out m' a [(n, r)] (a + 8 + n) \<longleftrightarrow> laid_out m a [(n, r)] (a + 8 + n)"
        proof (rule laid_out_frame)
          fix x assume "x \<in> hdrs a [(n, r)]"
          then have "x < a + 8" by simp
          moreover from this have "x \<notin> hdrs (a + 8 + n) bs"
            using hdrs_bounds [of x "a + 8 + n" bs] by auto
          ultimately show "m' (of_nat x) = m (of_nat x)"
            using m'(3) E Cons.prems(2) by simp
        qed
        then have "laid_out m' a (b # bs') e"
          using lo m'(2) b by (simp add: laid_out.simps)
        with m' step mf Some b show ?thesis by auto
      qed
    qed
  qed
qed

lemma free_loop_refines:
  assumes "laid_out m a bs e" "e < 2 ^ 32" "bs \<noteq> []"
  shows "\<exists>m'. free_loop m (of_nat a) (of_nat e) = Some m' \<and> laid_out m' a (coalesce bs) e \<and>
    (\<forall>x < 2 ^ 32. x \<notin> hdrs a bs \<longrightarrow> m' (of_nat x) = m (of_nat x))"
  using assms
proof (induction "length bs" arbitrary: bs m rule: less_induct)
  case less
  show ?case
  proof (cases "merge_first bs")
    case None
    with free_pass_refines [OF less.prems] have "free_pass m (of_nat e) (of_nat a) = Some (False, m)"
      by simp
    then have "free_loop m (of_nat a) (of_nat e) = Some m" by (subst free_loop.simps) simp
    with less.prems None show ?thesis by (simp add: merge_first_None)
  next
    case (Some bs')
    with free_pass_refines [OF less.prems] obtain m1
      where pass: "free_pass m (of_nat e) (of_nat a) = Some (True, m1)" "laid_out m1 a bs' e"
        and fr: "\<forall>x < 2 ^ 32. x \<notin> hdrs a bs \<longrightarrow> m1 (of_nat x) = m (of_nat x)" by auto
    have sub: "hdrs a bs' \<subseteq> hdrs a bs" using Some by (rule merge_first_hdrs)
    from merge_first_Some [OF Some] obtain m2
      where m2: "free_loop m1 (of_nat a) (of_nat e) = Some m2" "laid_out m2 a (coalesce bs) e"
        "\<forall>x < 2 ^ 32. x \<notin> hdrs a bs' \<longrightarrow> m2 (of_nat x) = m1 (of_nat x)"
      using less.hyps [of bs' m1] pass(2) less.prems(2) by auto
    have "free_loop m (of_nat a) (of_nat e) = Some m2"
      using pass(1) m2(1) by (subst free_loop.simps) simp
    with m2 fr sub show ?thesis by auto
  qed
qed

text \<open>After merging, no two neighbours are both free.\<close>

fun no_adjacent_free :: "block list \<Rightarrow> bool" where
  "no_adjacent_free (b # c # bs) \<longleftrightarrow> (snd b \<or> snd c) \<and> no_adjacent_free (c # bs)"
| "no_adjacent_free bs \<longleftrightarrow> True"

lemma coalesce_head: "coalesce ((n, False) # bs) = c # cs \<Longrightarrow> \<not> snd c"
  by (induction "(n, False) # bs" arbitrary: n bs rule: coalesce_induct) auto

lemma coalesce_no_adjacent_free: "no_adjacent_free (coalesce bs)"
proof (induction bs rule: coalesce_induct)
  case (reserved n bs)
  then show ?case by (cases "coalesce bs") auto
next
  case (before_reserved b k bs)
  then show ?case by auto
qed auto

lemma coalesce_reserved: "(n, True) \<in> set bs \<Longrightarrow> (n, True) \<in> set (coalesce bs)"
  by (induction bs rule: coalesce_induct) auto

lemma coalesce_span [simp]: "span (coalesce bs) = span bs"
proof (induction bs rule: coalesce_induct)
  case (before_reserved b k bs)
  then show ?case by (cases b) auto
qed auto

lemma coalesce_dvd:
  "\<forall>(n, r) \<in> set bs. 4 dvd n \<Longrightarrow> \<forall>(n, r) \<in> set (coalesce bs). 4 dvd n"
  by (induction bs rule: coalesce_induct) auto

lemma coalesce_Nil_iff [simp]: "coalesce bs = [] \<longleftrightarrow> bs = []"
  by (induction bs rule: coalesce_induct) auto

subsection \<open>Live regions\<close>

text \<open>The payloads of the reserved blocks: address and size.\<close>

fun regions :: "nat \<Rightarrow> block list \<Rightarrow> (nat \<times> nat) set" where
  "regions a [] = {}"
| "regions a ((n, r) # bs) = (if r then {(a + 8, n)} else {}) \<union> regions (a + 8 + n) bs"

definition heap_inv :: "heap_state \<Rightarrow> bool" where
  "heap_inv h \<longleftrightarrow> (\<exists>bs. heap_rep h bs)"

definition heap_live :: "heap_state \<Rightarrow> (nat \<times> nat) set" where
  "heap_live h = {r. \<exists>bs. heap_rep h bs \<and> r \<in> regions (unat (heap h)) bs}"

definition heap_peek :: "heap_state \<Rightarrow> nat \<Rightarrow> u8" where
  "heap_peek h x = hmem h (of_nat x)"

definition heap_poke :: "heap_state \<Rightarrow> nat \<Rightarrow> u8 \<Rightarrow> heap_state" where
  "heap_poke h x v = h\<lparr>hmem := (hmem h)(of_nat x := v)\<rparr>"

lemma laid_out_unique:
  assumes "laid_out m a bs e" "laid_out m a bs' e" "e < 2 ^ 32"
  shows "bs = bs'"
  using assms
proof (induction bs arbitrary: a bs')
  case Nil
  then show ?case by (cases bs') (auto simp: laid_out.simps dest: laid_out_end)
next
  case (Cons b bs)
  obtain n r where b: "b = (n, r)" by (cases b)
  have E: "e = a + span ((n, r) # bs)" using Cons.prems(1) b laid_out_end by blast
  show ?case
  proof (cases bs')
    case Nil
    with Cons.prems(2) E show ?thesis by (simp add: laid_out.simps)
  next
    case (Cons b' cs)
    obtain n' r' where b': "b' = (n', r')" by (cases b')
    have E': "e = a + span ((n', r') # cs)"
      using Cons.prems(2) Cons b' laid_out_end by blast
    have "(of_nat (a + 8 + n) :: u32) = of_nat (a + 8 + n')"
      using Cons.prems(1,2) b b' Cons by (simp add: laid_out.simps)
    then have n: "n = n'"
      using E E' Cons.prems(3) by (subst (asm) of_nat_u32_eq_iff) auto
    have "r = r'"
      using Cons.prems(1,2) b b' Cons by (auto simp: laid_out.simps split: if_splits)
    moreover have "bs = cs"
      by (rule Cons.IH [of "a + 8 + n"]) (use Cons.prems b b' Cons n in \<open>auto simp: laid_out.simps\<close>)
    ultimately show ?thesis using b b' Cons n by simp
  qed
qed

lemma heap_rep_unique: "heap_rep h bs \<Longrightarrow> heap_rep h bs' \<Longrightarrow> bs = bs'"
  unfolding heap_rep_def by (rule laid_out_unique [of "hmem h" "unat (heap h)"]) auto

lemma heap_live_eq: "heap_rep h bs \<Longrightarrow> heap_live h = regions (unat (heap h)) bs"
  using heap_rep_unique by (auto simp: heap_live_def)

lemma regions_append: "regions a (xs @ ys) = regions a xs \<union> regions (a + span xs) ys"
proof (induction xs arbitrary: a)
  case (Cons b xs)
  show ?case by (cases b) (auto simp: Cons add.assoc)
qed simp

lemma regions_bounds: "(p, n) \<in> regions a bs \<Longrightarrow> a + 8 \<le> p \<and> p + n \<le> a + span bs"
  by (induction a bs rule: regions.induct) (auto split: if_splits)

lemma regions_split:
  "(p, n) \<in> regions a bs \<Longrightarrow> \<exists>pre post. bs = pre @ (n, True) # post \<and> p = a + span pre + 8"
proof (induction a bs rule: regions.induct)
  case (2 a k r bs)
  then consider "p = a + 8" "n = k" r | "(p, n) \<in> regions (a + 8 + k) bs"
    by (auto split: if_splits)
  then show ?case
  proof cases
    case 1
    then have "(k, r) # bs = [] @ (n, True) # bs \<and> p = a + span [] + 8" by simp
    then show ?thesis by blast
  next
    case 2
    with "2.IH" obtain pre post where "bs = pre @ (n, True) # post" "p = a + 8 + k + span pre + 8"
      by auto
    then have "(k, r) # bs = ((k, r) # pre) @ (n, True) # post \<and> p = a + span ((k, r) # pre) + 8"
      by simp
    then show ?thesis by blast
  qed
qed simp

lemma regions_apart:
  assumes "(p, n) \<in> regions a bs" "(q, k) \<in> regions a bs" "(p, n) \<noteq> (q, k)"
  shows "p + n \<le> q \<or> q + k \<le> p"
  using assms
  by (induction a bs rule: regions.induct) (auto split: if_splits dest: regions_bounds)

lemma regions_no_hdrs:
  assumes "(p, n) \<in> regions a bs" "p \<le> x" "x < p + n"
  shows "x \<notin> hdrs a bs"
  using assms
  by (induction a bs rule: regions.induct) (auto split: if_splits dest: regions_bounds hdrs_bounds)

lemma regions_coalesce [simp]: "regions a (coalesce bs) = regions a bs"
proof (induction bs arbitrary: a rule: coalesce_induct)
  case (before_reserved b k bs)
  obtain n r where b: "b = (n, r)" by (cases b)
  have c: "coalesce ((n, r) # (k, True) # bs) = (n, r) # coalesce ((k, True) # bs)" by simp
  show ?case unfolding b c regions.simps(2) [of a] before_reserved.IH ..
qed (auto simp: add.assoc)

lemma regions_reserve:
  assumes "c \<le> n"
  shows "regions a (pre @ reserve_block c n @ post) =
    insert (a + span pre + 8, if 12 \<le> n - c then c else n) (regions a (pre @ (n, False) # post))"
  using assms by (auto simp: regions_append reserve_block_def add.assoc)

subsection \<open>The allocator laws\<close>

lemma malloc_cases:
  assumes rep: "heap_rep h bs" and count: "unat count + 3 < 2 ^ 32"
    and call: "malloc h count = Some (p, h')"
  shows "(p = 0 \<and> h' = h) \<or>
    (\<exists>pre n post. bs = pre @ (n, False) # post \<and> round4 (unat count) \<le> n \<and>
      unat p = unat (heap h) + span pre + 8 \<and> heap h' = heap h \<and>
      heap_rep h' (pre @ reserve_block (round4 (unat count)) n @ post) \<and>
      outside_same (unat p - 8) (unat p + n) (hmem h) (hmem h'))"
proof (cases "fits (round4 (unat count)) bs = {}")
  case True
  with malloc_null [OF rep count] call show ?thesis by simp
next
  case False
  from malloc_best_fit [OF rep count refl False] call show ?thesis by auto
qed

lemma malloc_total:
  assumes "unat c + 3 < 2 ^ 32" "heap_rep h bs"
  shows "\<exists>p h'. malloc h c = Some (p, h')"
proof (cases "fits (round4 (unat c)) bs = {}")
  case True
  with malloc_null [OF assms(2,1)] show ?thesis by blast
next
  case False
  from malloc_best_fit [OF assms(2,1) refl False] show ?thesis by blast
qed

lemma heap_rep_free:
  assumes rep: "heap_rep h (pre @ (n, r) # post)"
    and p: "unat p = unat (heap h) + span pre + 8"
  shows "\<exists>h'. free h p = Some h' \<and> heap h' = heap h \<and>
    heap_rep h' (coalesce (pre @ (n, False) # post)) \<and>
    (\<forall>x < 2 ^ 32. x \<notin> hdrs (unat (heap h)) (pre @ (n, r) # post) \<longrightarrow>
       hmem h' (of_nat x) = hmem h (of_nat x))"
proof -
  let ?a = "unat (heap h)" and ?e = "unat (heapEnd h)"
  define q where "q = ?a + span pre"
  have lo: "laid_out (hmem h) ?a (pre @ (n, r) # post) ?e"
    using rep by (simp add: heap_rep_def)
  have E: "?e = q + 8 + n + span post" using laid_out_end [OF lo] q_def by simp
  have e32: "?e < 2 ^ 32" by simp
  have pw: "p = of_nat (q + 8)" using p q_def by (metis unat_eq_of_nat_u32)
  have p0: "p \<noteq> 0" using p by auto
  have ent: "p - 8 = of_nat q" using pw by simp
  from lo have pre: "laid_out (hmem h) ?a pre q" and blk: "laid_out (hmem h) q ((n, r) # post) ?e"
    by (simp_all add: laid_out_append q_def)
  define m where "m = store32 (hmem h) (of_nat (q + 4)) 0"
  have rel: "HeapEntry_Release (hmem h) (p - 8) = m"
    using entry_flags [OF blk]
    by (simp add: HeapEntry_Release_def ent m_def FlagField_Clear_def HeapFlags_Reserved_def)
  have "laid_out m ?a (pre @ (n, False) # post) ?e"
    using pre blk E e32 q_def
    by (simp add: laid_out_append laid_out.simps m_def laid_out_store32 heap_simps del: of_nat_add)
  from free_loop_refines [OF this e32] obtain m'
    where m': "free_loop m (heap h) (heapEnd h) = Some m'"
      "laid_out m' ?a (coalesce (pre @ (n, False) # post)) ?e"
      "\<forall>x < 2 ^ 32. x \<notin> hdrs ?a (pre @ (n, False) # post) \<longrightarrow> m' (of_nat x) = m (of_nat x)"
    by auto
  have "m (of_nat x) = hmem h (of_nat x)"
    if "x < 2 ^ 32" "x \<notin> hdrs ?a (pre @ (n, r) # post)" for x
    unfolding m_def using that E e32 q_def by (intro store32_apart) (auto simp: hdrs_append)
  moreover have "hdrs ?a (pre @ (n, False) # post) = hdrs ?a (pre @ (n, r) # post)"
    by (simp add: hdrs_append)
  moreover have "heap_rep (h\<lparr>hmem := m'\<rparr>) (coalesce (pre @ (n, False) # post))"
  proof -
    have "\<forall>(k, s) \<in> set (pre @ (n, False) # post). 4 dvd k"
      using rep by (auto simp: heap_rep_def)
    from coalesce_dvd [OF this] rep m'(2) show ?thesis by (simp add: heap_rep_def)
  qed
  ultimately show ?thesis
    using m' p0 rel
    by (intro exI [of _ "h\<lparr>hmem := m'\<rparr>"]) (simp add: free_def Let_def)
qed

lemma heap_poke_rep:
  assumes rep: "heap_rep h bs" and q: "(q, n) \<in> regions (unat (heap h)) bs" "q \<le> x" "x < q + n"
  shows "heap_rep (heap_poke h x v) bs" "heap (heap_poke h x v) = heap h"
proof -
  let ?a = "unat (heap h)" and ?e = "unat (heapEnd h)"
  have lo: "laid_out (hmem h) ?a bs ?e" using rep by (simp add: heap_rep_def)
  have x32: "x < 2 ^ 32" "?a + span bs < 2 ^ 32"
    using regions_bounds [OF q(1)] q(3) laid_out_end [OF lo] unat_lt_u32 [of "heapEnd h"]
    by auto
  have "laid_out ((hmem h)(of_nat x := v)) ?a bs ?e \<longleftrightarrow> laid_out (hmem h) ?a bs ?e"
  proof (rule laid_out_frame)
    fix y assume y: "y \<in> hdrs ?a bs"
    then have "y \<noteq> x" using regions_no_hdrs [OF q] by auto
    moreover have "y < 2 ^ 32" using hdrs_bounds [OF y] x32 by simp
    ultimately have "(of_nat y :: u32) \<noteq> of_nat x" using x32 by (simp add: of_nat_u32_eq_iff)
    then show "((hmem h)(of_nat x := v)) (of_nat y) = hmem h (of_nat y)" by simp
  qed
  with lo rep show "heap_rep (heap_poke h x v) bs" by (simp add: heap_rep_def heap_poke_def)
  show "heap (heap_poke h x v) = heap h" by (simp add: heap_poke_def)
qed

text \<open>The bytes of a live region are addressable and lie apart from every header.\<close>

lemma live_in_range:
  assumes "heap_rep h bs" "(q, n) \<in> regions (unat (heap h)) bs" "q \<le> x" "x < q + n"
  shows "x < 2 ^ 32" "x \<notin> hdrs (unat (heap h)) bs"
proof -
  have "laid_out (hmem h) (unat (heap h)) bs (unat (heapEnd h))"
    using assms(1) by (simp add: heap_rep_def)
  from laid_out_end [OF this] regions_bounds [OF assms(2)] assms(4) unat_lt_u32 [of "heapEnd h"]
  show "x < 2 ^ 32" by simp
  show "x \<notin> hdrs (unat (heap h)) bs" using assms(2-4) by (rule regions_no_hdrs)
qed

lemma malloc_live:
  assumes rep: "heap_rep h bs" and count: "unat c + 3 < 2 ^ 32" and call: "malloc h c = Some (p, h')"
  shows "heap_inv h' \<and> ((p = 0 \<and> h' = h) \<or>
    (\<exists>n \<ge> unat c. (unat p, n) \<notin> heap_live h \<and> heap_live h' = insert (unat p, n) (heap_live h)))"
  using malloc_cases [OF assms]
proof (elim disjE exE conjE)
  assume "p = 0" "h' = h"
  with rep show ?thesis by (auto simp: heap_inv_def)
next
  fix pre n post
  let ?c = "round4 (unat c)"
  assume bs: "bs = pre @ (n, False) # post" and n: "?c \<le> n"
    and p: "unat p = unat (heap h) + span pre + 8" and hp: "heap h' = heap h"
    and rep': "heap_rep h' (pre @ reserve_block ?c n @ post)"
  let ?n = "if 12 \<le> n - ?c then ?c else n"
  have "heap_live h' = insert (unat p, ?n) (heap_live h)"
    using heap_live_eq [OF rep'] heap_live_eq [OF rep] regions_reserve [OF n] bs p hp by simp
  moreover have "(unat p, ?n) \<notin> heap_live h"
    using heap_live_eq [OF rep] bs p regions_bounds [of "unat p" ?n]
    by (fastforce simp: regions_append)
  moreover have "unat c \<le> ?n" using n round4_bounds(1) [of "unat c"] by auto
  ultimately show ?thesis using rep' by (auto simp: heap_inv_def)
qed

lemma malloc_peek:
  assumes rep: "heap_rep h bs" and count: "unat c + 3 < 2 ^ 32" and call: "malloc h c = Some (p, h')"
    and q: "(q, k) \<in> regions (unat (heap h)) bs" "q \<le> x" "x < q + k"
  shows "heap_peek h' x = heap_peek h x"
  using malloc_cases [OF rep count call]
proof (elim disjE exE conjE)
  fix pre n post
  assume bs: "bs = pre @ (n, False) # post"
    and p: "unat p = unat (heap h) + span pre + 8"
    and fr: "outside_same (unat p - 8) (unat p + n) (hmem h) (hmem h')"
  from q(1) bs p have "q + k \<le> unat p - 8 \<or> unat p + n \<le> q"
    by (auto simp: regions_append dest: regions_bounds)
  with q live_in_range [OF rep q] fr show ?thesis
    by (auto simp: outside_same_def heap_peek_def)
qed simp

lemma free_live:
  assumes rep: "heap_rep h bs" and p: "(unat p, n) \<in> regions (unat (heap h)) bs"
  shows "\<exists>h'. free h p = Some h' \<and> heap_inv h' \<and> heap_live h' = heap_live h - {(unat p, n)} \<and>
    (\<forall>q k x. (q, k) \<in> heap_live h \<longrightarrow> q \<le> x \<longrightarrow> x < q + k \<longrightarrow> heap_peek h' x = heap_peek h x)"
proof -
  obtain pre post where bs: "bs = pre @ (n, True) # post" and pe: "unat p = unat (heap h) + span pre + 8"
    using regions_split [OF p] by auto
  obtain h' where h': "free h p = Some h'" "heap h' = heap h"
      "heap_rep h' (coalesce (pre @ (n, False) # post))"
    and fr: "\<forall>x < 2 ^ 32. x \<notin> hdrs (unat (heap h)) bs \<longrightarrow> hmem h' (of_nat x) = hmem h (of_nat x)"
    using heap_rep_free [OF rep [unfolded bs] pe] bs by auto
  have "heap_live h' = heap_live h - {(unat p, n)}"
    using heap_live_eq [OF h'(3)] heap_live_eq [OF rep] h'(2) bs pe
    by (auto simp: regions_append add.assoc dest: regions_bounds)
  moreover have "heap_peek h' x = heap_peek h x"
    if "(q, k) \<in> heap_live h" "q \<le> x" "x < q + k" for q k x
    using fr live_in_range [OF rep that(1) [unfolded heap_live_eq [OF rep]] that(2,3)]
    by (simp add: heap_peek_def)
  ultimately show ?thesis using h' by (auto simp: heap_inv_def)
qed

interpretation stage2_heap: allocator heap_inv heap_live heap_peek heap_poke malloc free
proof (unfold_locales, goal_cases)
  case (1 h c)
  then obtain bs where "heap_rep h bs" by (auto simp: heap_inv_def)
  with 1(2) show ?case by (rule malloc_total)
next
  case (2 h c p h')
  then show ?case by (auto simp: heap_inv_def dest: malloc_live)
next
  case (3 h c p h')
  then obtain bs where "heap_rep h bs" by (auto simp: heap_inv_def)
  from malloc_live [OF this 3(2,3)] show ?case by simp
next
  case (4 h c p h' q n x)
  then obtain bs where "heap_rep h bs" by (auto simp: heap_inv_def)
  with 4 show ?case by (auto simp: heap_live_eq intro: malloc_peek)
next
  case (5 h p n)
  then obtain bs where "heap_rep h bs" by (auto simp: heap_inv_def)
  with 5 free_live [of h bs p n] show ?case by (auto simp: heap_live_eq)
next
  case (6 h p n h')
  then obtain bs where "heap_rep h bs" by (auto simp: heap_inv_def)
  with 6 free_live [of h bs p n] show ?case by (auto simp: heap_live_eq)
next
  case (7 h p n h')
  then obtain bs where "heap_rep h bs" by (auto simp: heap_inv_def)
  with 7 free_live [of h bs p n] show ?case by (auto simp: heap_live_eq)
next
  case (8 h p n h' q k x)
  then obtain bs where "heap_rep h bs" by (auto simp: heap_inv_def)
  with 8 free_live [of h bs p n] show ?case by (auto simp: heap_live_eq)
next
  case (9 h a n q k)
  then obtain bs where "heap_rep h bs" by (auto simp: heap_inv_def)
  with 9 show ?case by (intro regions_apart) (auto simp: heap_live_eq)
next
  case (10 h q n x v)
  then obtain bs where "heap_rep h bs" by (auto simp: heap_inv_def)
  with 10 heap_poke_rep [of h bs q n x v] show ?case by (auto simp: heap_live_eq heap_inv_def)
next
  case (11 h q n x v)
  then obtain bs where "heap_rep h bs" by (auto simp: heap_inv_def)
  with 11 heap_poke_rep [of h bs q n x v] show ?case by (auto simp: heap_live_eq)
next
  case (12 h q n x a k y v)
  then obtain bs where rep: "heap_rep h bs" by (auto simp: heap_inv_def)
  have "x < 2 ^ 32" "y < 2 ^ 32"
    using 12 live_in_range(1) [OF rep] heap_live_eq [OF rep] by blast+
  then show ?case by (auto simp: heap_peek_def heap_poke_def of_nat_u32_eq_iff)
qed

subsection \<open>HeapInit\<close>

lemma HeapInit_rep_lemma:
  assumes "basePtr \<noteq> 0" "unat basePtr + unat maxSize < 2 ^ 32" "8 \<le> unat maxSize"
  shows "heap_rep (HeapInit m basePtr maxSize) [(unat maxSize div 4 * 4 - 8, False)]"
proof -
  define a where "a = unat basePtr"
  define n where "n = unat maxSize div 4 * 4"
  have aw: "basePtr = of_nat a" by (simp add: a_def)
  have n: "8 \<le> n" "n \<le> unat maxSize" using assms(3) by (simp_all add: n_def)
  have "unat (maxSize - maxSize mod 4) = unat maxSize - unat maxSize mod 4"
    by (subst unat_sub) (simp_all add: unat_mod word_le_nat_alt)
  also have "\<dots> = n" unfolding n_def by (simp add: minus_mod_eq_div_mult)
  finally have nw: "maxSize - maxSize mod 4 = of_nat n" by (rule unat_eq_of_nat_u32)
  have size: "(if maxSize mod 4 \<noteq> 0 then maxSize - maxSize mod 4 else maxSize) = of_nat n"
    using nw by (cases "maxSize mod 4 = 0") auto
  have e32: "a + n < 2 ^ 32" using assms(2) n a_def by simp
  have e: "unat (basePtr + of_nat n) = a + n"
    using e32 aw by (metis of_nat_add unat_of_nat_u32)
  have ua: "unat (of_nat a :: u32) = a" using aw a_def by simp
  let ?m = "store32 (store32 m (of_nat a) (of_nat (a + n))) (of_nat (a + 4)) 0"
  have "laid_out ?m a [(n - 8, False)] (a + n)"
    using e32 n by (simp add: laid_out.simps heap_simps del: of_nat_add)
  then show ?thesis
    using assms(1) n e aw ua
    by (simp add: heap_rep_def HeapInit_def size Let_def HeapEntry_Init_eq a_def [symmetric]
        n_def [symmetric]) (simp add: n_def dvd_diff_nat)
qed

text \<open>A small heap with one reserved block, and what \<^verbatim>\<open>malloc\<close> does to it.\<close>

lemma two_block_split:
  assumes "[(a, True), (b, False)] = pre @ (n, False) # post"
  shows "pre = [(a, True)] \<and> n = b \<and> post = []"
  using assms by (cases pre) (auto simp: Cons_eq_append_conv)

lemma first_malloc:
  "\<exists>h. malloc (HeapInit (\<lambda>_. 0) 4096 64) 10 = Some (4104, h) \<and> heap h = 4096 \<and>
     heap_rep h [(12, True), (36, False)]"
proof -
  have rep: "heap_rep (HeapInit (\<lambda>_. 0) 4096 64) [(56, False)]"
    using HeapInit_rep_lemma [of 4096 64 "\<lambda>_. 0"] by simp
  have hp: "heap (HeapInit (\<lambda>_. 0) 4096 64) = 4096" by (simp add: HeapInit_def Let_def)
  have "fits 12 [(56, False)] = {56}" by (auto simp: fits_def)
  moreover have "round4 10 = 12" by (simp add: round4_def)
  ultimately obtain p h where h: "malloc (HeapInit (\<lambda>_. 0) 4096 64) 10 = Some (p, h)"
      "unat p = 4104" "heap h = 4096" "heap_rep h [(12, True), (36, False)]"
    using malloc_best_fit [OF rep, of 10 12] hp
    by (auto simp: reserve_block_def Cons_eq_append_conv)
  moreover have "p = 4104" using unat_eq_of_nat_u32 [OF h(2)] by simp
  ultimately show ?thesis by blast
qed

lemma small_heap:
  obtains h where "heap h = 4096" "heap_rep h [(12, True), (36, False)]"
  using first_malloc by blast

lemma malloc_second_block:
  assumes "heap h = 4096" "heap_rep h [(12, True), (36, False)]"
  shows "\<exists>q h1. malloc h 8 = Some (q, h1) \<and> heap h1 = 4096 \<and>
    heap_rep h1 [(12, True), (8, True), (20, False)]"
proof -
  have fit: "fits 8 [(12, True), (36, False)] \<noteq> {}" by (auto simp: fits_def)
  have r: "8 = round4 (unat (8 :: u32))" by (simp add: round4_def)
  have "unat (8 :: u32) + 3 < 2 ^ 32" by simp
  from malloc_best_fit [OF assms(2) this r fit] obtain pre n post q h1
    where split: "[(12, True), (36, False)] = pre @ (n, False) # post"
      and h1: "malloc h 8 = Some (q, h1)" "heap h1 = heap h"
        "heap_rep h1 (pre @ reserve_block 8 n @ post)"
    by blast
  from two_block_split [OF split] h1(3) have "heap_rep h1 [(12, True), (8, True), (20, False)]"
    by (simp add: reserve_block_def)
  with h1 assms(1) show ?thesis by auto
qed

subsection \<open>Properties\<close>

text \<open>
  C2. \<^verbatim>\<open>malloc\<close> refines best-fit allocation: on every heap that represents a block sequence it
  returns; if no free block can hold the rounded request it returns \<^verbatim>\<open>nullptr\<close> and changes
  nothing, otherwise it takes the first of the smallest free blocks that fit, splits off what
  is left when that is at least 12 bytes, returns the address of the block's data, and writes
  no byte outside that block.
\<close>

theorem malloc_refines_best_fit:
  assumes "heap_rep h bs" and "unat count + 3 < 2 ^ 32"
  shows "(fits (round4 (unat count)) bs = {} \<and> malloc h count = Some (0, h)) \<or>
    (\<exists>pre n post p h'. bs = pre @ (n, False) # post \<and> round4 (unat count) \<le> n \<and>
      (\<forall>k. k \<in> fits (round4 (unat count)) pre \<longrightarrow> n < k) \<and>
      (\<forall>k. k \<in> fits (round4 (unat count)) post \<longrightarrow> n \<le> k) \<and>
      malloc h count = Some (p, h') \<and> unat p = unat (heap h) + span pre + 8 \<and>
      heap_rep h' (pre @ reserve_block (round4 (unat count)) n @ post) \<and>
      outside_same (unat p - 8) (unat p + n) (hmem h) (hmem h'))"
proof (cases "fits (round4 (unat count)) bs = {}")
  case True
  with malloc_null [OF assms] show ?thesis by simp
next
  case False
  from malloc_best_fit [OF assms refl False] show ?thesis by blast
qed

theorem malloc_refines_best_fit_witness:
  "\<exists>p h'. malloc (HeapInit (\<lambda>_. 0) 4096 64) 10 = Some (p, h') \<and> unat p = 4104 \<and>
     heap_rep h' [(12, True), (36, False)]"
proof -
  have rep: "heap_rep (HeapInit (\<lambda>_. 0) 4096 64) [(56, False)]"
    using HeapInit_rep_lemma [of 4096 64 "\<lambda>_. 0"] by simp
  have "heap (HeapInit (\<lambda>_. 0) 4096 64) = 4096" by (simp add: HeapInit_def Let_def)
  moreover have "fits 12 [(56, False)] = {56}" by (auto simp: fits_def)
  moreover have "round4 10 = 12" by (simp add: round4_def)
  ultimately show ?thesis
    using malloc_refines_best_fit [OF rep, of 10]
    by (auto simp: reserve_block_def Cons_eq_append_conv)
qed

text \<open>
  C3. \<^verbatim>\<open>free\<close> on a pointer that \<^verbatim>\<open>malloc\<close> handed out terminates, marks the block free and merges
  all neighbouring free blocks: afterwards no two adjacent blocks are free, every other
  reserved block is still there, and only header bytes have changed.
\<close>

theorem free_refines_coalesce:
  assumes "heap_rep h (pre @ (n, True) # post)" and "unat p = unat (heap h) + span pre + 8"
  shows "\<exists>h'. free h p = Some h' \<and> heap_rep h' (coalesce (pre @ (n, False) # post)) \<and>
    no_adjacent_free (coalesce (pre @ (n, False) # post)) \<and>
    heap_live h' = heap_live h - {(unat p, n)} \<and>
    (\<forall>x. x < 2 ^ 32 \<and> x \<notin> hdrs (unat (heap h)) (pre @ (n, True) # post) \<longrightarrow>
       hmem h' (of_nat x) = hmem h (of_nat x))"
proof -
  have "(unat p, n) \<in> regions (unat (heap h)) (pre @ (n, True) # post)"
    using assms(2) by (simp add: regions_append)
  from free_live [OF assms(1) this] heap_rep_free [OF assms] show ?thesis
    by (auto simp: coalesce_no_adjacent_free)
qed

theorem free_refines_coalesce_witness:
  "\<exists>h1 h2. malloc (HeapInit (\<lambda>_. 0) 4096 64) 10 = Some (4104, h1) \<and> free h1 4104 = Some h2 \<and>
     heap_rep h2 [(56, False)]"
proof -
  obtain h1 where h1: "malloc (HeapInit (\<lambda>_. 0) 4096 64) 10 = Some (4104, h1)" "heap h1 = 4096"
      "heap_rep h1 [(12, True), (36, False)]"
    using first_malloc by blast
  with free_refines_coalesce [of h1 "[]" 12 "[(36, False)]" 4104] show ?thesis by auto
qed

text \<open>
  C4. Allocated memory is never disturbed: while a client keeps a region, any sequence of
  further \<^verbatim>\<open>malloc\<close> calls, \<^verbatim>\<open>free\<close> calls on other regions and writes into other regions leaves
  the heap well-formed, the region allocated and every byte of it unchanged.
\<close>

theorem heap_region_kept:
  assumes "client_run malloc free heap_poke heap_live (p, n) h h'"
    and "heap_inv h" and "(p, n) \<in> heap_live h"
  shows "heap_inv h' \<and> (p, n) \<in> heap_live h' \<and>
    (\<forall>x. p \<le> x \<and> x < p + n \<longrightarrow> heap_peek h' x = heap_peek h x)"
  using assms by (rule stage2_heap.kept_region)

theorem heap_region_kept_witness:
  "\<exists>h h1. client_run malloc free heap_poke heap_live (4104, 12) h h1 \<and> h \<noteq> h1 \<and>
     (4104, 12) \<in> heap_live h \<and> (4104, 12) \<in> heap_live h1 \<and> (4124, 8) \<in> heap_live h1"
proof -
  obtain h where h: "heap h = 4096" "heap_rep h [(12, True), (36, False)]"
    by (rule small_heap)
  obtain q h1 where h1: "malloc h 8 = Some (q, h1)" "heap h1 = 4096"
      "heap_rep h1 [(12, True), (8, True), (20, False)]"
    using malloc_second_block [OF h] by blast
  have run: "client_run malloc free heap_poke heap_live (4104, 12) h h1"
  proof (rule run_alloc)
    show "client_run malloc free heap_poke heap_live (4104, 12) h h" by (rule run_refl)
    show "malloc h 8 = Some (q, h1)" by (rule h1(1))
  qed simp
  have live: "(4104, 12) \<in> heap_live h" "(4124, 8) \<in> heap_live h1"
    using heap_live_eq [OF h(2)] heap_live_eq [OF h1(3)] h(1) h1(2) by simp_all
  have "h \<noteq> h1" using heap_rep_unique [OF h(2)] h1(3) by auto
  moreover have "heap_inv h" using h(2) by (auto simp: heap_inv_def)
  then have "(4104, 12) \<in> heap_live h1" using heap_region_kept [OF run _ live(1)] by blast
  ultimately show ?thesis using run live by blast
qed

text \<open>
  \<^verbatim>\<open>HeapInit\<close> establishes the heap invariant on any memory: one free block that spans the
  area, its size rounded down to a multiple of four, with no region live.
\<close>

theorem HeapInit_establishes:
  assumes "basePtr \<noteq> 0" and "unat basePtr + unat maxSize < 2 ^ 32" and "8 \<le> unat maxSize"
  shows "heap_rep (HeapInit m basePtr maxSize) [(unat maxSize div 4 * 4 - 8, False)] \<and>
    heap_live (HeapInit m basePtr maxSize) = {}"
  using HeapInit_rep_lemma [OF assms] heap_live_eq [OF HeapInit_rep_lemma [OF assms]] by simp

theorem HeapInit_establishes_witness:
  "heap_rep (HeapInit (\<lambda>_. 255) 4096 8192) [(8184, False)]"
  using HeapInit_establishes [of 4096 8192 "\<lambda>_. 255"] by simp

text \<open>
  The rounding of \<^verbatim>\<open>malloc\<close> wraps: a request for one of the three largest sizes is treated as
  a request for nothing, so it can succeed with a block that holds no byte.
\<close>

theorem malloc_huge_is_zero:
  "malloc h 0xFFFFFFFD = malloc h 0 \<and> malloc h 0xFFFFFFFE = malloc h 0 \<and>
   malloc h 0xFFFFFFFF = malloc h 0"
proof -
  have "malloc_round 0xFFFFFFFD = 0" "malloc_round 0xFFFFFFFE = 0" "malloc_round 0xFFFFFFFF = 0"
    by (simp_all add: malloc_round_def)
  moreover have "malloc_round 0 = 0" by (simp add: malloc_round_def)
  ultimately show ?thesis by (simp add: malloc_def)
qed

end
