(* ===== verification/Block_Device.thy ===== *)
theory Block_Device
  imports Prelude
begin

text \<open>
  The block device interface (\<^verbatim>\<open>include/device/IBlockDevice.h\<close>): the virtual functions as a
  record of operations over the device's state, and the contract its clients rely on as a
  locale.
\<close>

record 'd IBlockDevice =
  LoadSector_op :: "'d \<Rightarrow> u32 \<Rightarrow> bytes \<Rightarrow> bool \<times> bytes \<times> 'd"
  SectorSize_op :: "'d \<Rightarrow> u16"

text \<open>
  A load takes the bytes the buffer holds and returns whether it worked, what the buffer holds
  afterwards, and the device. The contract: a load keeps the device valid, its contents and
  its sector size; it never writes past the sector; and when it reports success the buffer
  holds the sector. Nothing is promised about the buffer of a failed load.
\<close>

locale block_device =
  fixes dev :: "'d IBlockDevice"
    and valid :: "'d \<Rightarrow> bool"
    and content :: "'d \<Rightarrow> u32 \<Rightarrow> bytes"
  assumes load_step: "\<And>d i buf ok buf' d'. valid d \<Longrightarrow> LoadSector_op dev d i buf = (ok, buf', d') \<Longrightarrow>
      valid d' \<and> content d' = content d \<and> SectorSize_op dev d' = SectorSize_op dev d \<and>
      length buf' = length buf"
    and load_ok: "\<And>d i buf buf' d'. valid d \<Longrightarrow> length buf = unat (SectorSize_op dev d) \<Longrightarrow>
      LoadSector_op dev d i buf = (True, buf', d') \<Longrightarrow> buf' = content d i"
    and size_ok: "\<And>d. valid d \<Longrightarrow> 0 < unat (SectorSize_op dev d) \<and> 4 dvd unat (SectorSize_op dev d)"
    and content_length: "\<And>d i. valid d \<Longrightarrow> length (content d i) = unat (SectorSize_op dev d)"
begin

text \<open>Two states of the same device, and whether some load on it can fail.\<close>

definition same_device :: "'d \<Rightarrow> 'd \<Rightarrow> bool" where
  "same_device d d' \<longleftrightarrow> valid d \<and> valid d' \<and> content d' = content d \<and>
     SectorSize_op dev d' = SectorSize_op dev d"

definition may_fail :: "'d \<Rightarrow> bool" where
  "may_fail d \<longleftrightarrow> (\<exists>d' i buf. same_device d d' \<and> length buf = unat (SectorSize_op dev d') \<and>
     \<not> fst (LoadSector_op dev d' i buf))"

lemma same_device_refl [simp]: "same_device d d \<longleftrightarrow> valid d"
  by (simp add: same_device_def)

lemma same_device_trans [trans]: "same_device a b \<Longrightarrow> same_device b c \<Longrightarrow> same_device a c"
  by (simp add: same_device_def)

lemma load_same_device: "valid d \<Longrightarrow> LoadSector_op dev d i buf = (ok, buf', d') \<Longrightarrow> same_device d d'"
  using load_step by (simp add: same_device_def)

lemma may_fail_same: "same_device a b \<Longrightarrow> may_fail b \<Longrightarrow> may_fail a"
  unfolding may_fail_def using same_device_trans by blast

lemma load_fails:
  "\<lbrakk>valid d; length buf = unat (SectorSize_op dev d); LoadSector_op dev d i buf = (False, buf', d')\<rbrakk> \<Longrightarrow>
   may_fail d"
  unfolding may_fail_def by (metis fst_conv same_device_refl)

end

text \<open>A device on which every load of a whole sector succeeds.\<close>

locale reliable_device = block_device +
  assumes load_works: "\<And>d i buf. valid d \<Longrightarrow> length buf = unat (SectorSize_op dev d) \<Longrightarrow>
    fst (LoadSector_op dev d i buf)"
begin

lemma never_fails: "\<not> may_fail d"
  using load_works by (auto simp: may_fail_def same_device_def)

end

end
