(* ===== verification/Fat_Name.thy ===== *)
theory Fat_Name
  imports Basic_Types
begin

text \<open>
  String helpers of the loader (\<^verbatim>\<open>include/StringUtil.h\<close>) and the test for FAT short names
  (\<^verbatim>\<open>include/fs/FatName.h\<close>), with the 8.3 grammar they implement.
\<close>

subsection \<open>Characters\<close>

text \<open>\<^verbatim>\<open>char\<close> is signed on the targets; a character argument of type \<^verbatim>\<open>int\<close> is its signed value.\<close>

definition char_int :: "u8 \<Rightarrow> int" where
  "char_int c = sint c"

definition IsSpace :: "int \<Rightarrow> bool" where
  "IsSpace x \<longleftrightarrow> x = 32 \<or> x = 9"

definition IsAlnum :: "int \<Rightarrow> bool" where
  "IsAlnum x \<longleftrightarrow> (65 \<le> x \<and> x \<le> 90) \<or> (97 \<le> x \<and> x \<le> 122) \<or> (48 \<le> x \<and> x \<le> 57)"

text \<open>\<^verbatim>\<open>StrEqual\<close> walks both strings; a list that ends stands for its terminating zero.\<close>

fun StrEqual :: "bytes \<Rightarrow> bytes \<Rightarrow> bool" where
  "StrEqual (x # xs) (y # ys) =
     (if x \<noteq> y then False else if x = 0 then True else StrEqual xs ys)"
| "StrEqual [] (y # ys) = (y = 0)"
| "StrEqual (x # xs) [] = (x = 0)"
| "StrEqual [] [] = True"

lemma StrEqual_iff: "StrEqual a b \<longleftrightarrow> cstr a = cstr b"
  by (induction a b rule: StrEqual.induct) auto

subsection \<open>Short names\<close>

definition IsValidFatChar :: "int \<Rightarrow> bool" where
  "IsValidFatChar c =
     (if c < 0x20 \<or> c > 0x7E then False
      else if c \<ge> 0x61 \<and> c \<le> 0x7A then False
      else if c \<ge> 0x3A \<and> c \<le> 0x3F then False
      else if c = 124 \<or> c = 92 \<or> c = 47 \<or> c = 34 \<or> c = 42 then False
      else if c = 43 \<or> c = 44 \<or> c = 91 \<or> c = 93 then False
      else True)"

text \<open>The scan returns the position of the dot (or -1), or nothing when the name is refused.\<close>

fun IsShortName_scan :: "nat \<Rightarrow> int \<Rightarrow> bytes \<Rightarrow> int option" where
  "IsShortName_scan i dotPos [] = Some dotPos"
| "IsShortName_scan i dotPos (c # cs) =
     (if \<not> IsValidFatChar (char_int c) then None
      else if c = 46 then
        (if dotPos \<ge> 0 then None else IsShortName_scan (Suc i) (int i) cs)
      else IsShortName_scan (Suc i) dotPos cs)"

definition IsShortName :: "bytes \<Rightarrow> bool" where
  "IsShortName entry =
     (let len = length (cstr entry) in
      if len = 0 \<or> len > 8 + 1 + 3 then False
      else
        (case IsShortName_scan 0 (-1) (cstr entry) of
           None \<Rightarrow> False
         | Some dotPos \<Rightarrow>
             if dotPos < 0 then len \<le> 8
             else if dotPos = 0 \<or> dotPos = int len - 1 then False
             else if dotPos > 8 \<or> int len - dotPos > 4 then False
             else True))"

subsection \<open>The 8.3 grammar\<close>

definition valid_chars :: "bytes \<Rightarrow> bool" where
  "valid_chars s \<longleftrightarrow> (\<forall>c \<in> set s. IsValidFatChar (char_int c))"

text \<open>A base of one to eight characters, and an optional extension of one to three.\<close>

definition short_name :: "bytes \<Rightarrow> bytes option \<Rightarrow> bytes" where
  "short_name base ext = base @ (case ext of None \<Rightarrow> [] | Some e \<Rightarrow> 46 # e)"

definition grammar_8_3 :: "bytes \<Rightarrow> bytes option \<Rightarrow> bool" where
  "grammar_8_3 base ext \<longleftrightarrow> valid_chars base \<and> 46 \<notin> set base \<and> 1 \<le> length base \<and> length base \<le> 8 \<and>
     (case ext of None \<Rightarrow> True
      | Some e \<Rightarrow> valid_chars e \<and> 46 \<notin> set e \<and> 1 \<le> length e \<and> length e \<le> 3)"

lemma dot_valid: "IsValidFatChar (char_int 46)"
  by (simp add: IsValidFatChar_def char_int_def)

lemma scan_after_dot:
  "0 \<le> d \<Longrightarrow> IsShortName_scan i d s = (if valid_chars s \<and> 46 \<notin> set s then Some d else None)"
  by (induction i d s rule: IsShortName_scan.induct) (auto simp: valid_chars_def)

lemma scan_no_dot:
  "46 \<notin> set s \<Longrightarrow> IsShortName_scan i d s = (if valid_chars s then Some d else None)"
  by (induction i d s rule: IsShortName_scan.induct) (auto simp: valid_chars_def)

lemma scan_first_dot:
  assumes "46 \<notin> set base"
  shows "IsShortName_scan i (-1) (base @ 46 # e) =
    (if valid_chars base \<and> valid_chars e \<and> 46 \<notin> set e then Some (int (i + length base)) else None)"
  using assms
proof (induction base arbitrary: i)
  case Nil
  then show ?case by (simp add: scan_after_dot dot_valid valid_chars_def)
next
  case (Cons c base)
  then show ?case by (auto simp: valid_chars_def)
qed

lemma IsShortName_no_dot:
  assumes "46 \<notin> set (cstr s)"
  shows "IsShortName s \<longleftrightarrow> grammar_8_3 (cstr s) None"
  using assms by (auto simp: IsShortName_def grammar_8_3_def scan_no_dot Let_def Suc_le_eq)

lemma IsShortName_dot:
  assumes "cstr s = base @ 46 # e" "46 \<notin> set base"
  shows "IsShortName s \<longleftrightarrow> grammar_8_3 base (Some e)"
  using assms by (auto simp: IsShortName_def grammar_8_3_def scan_first_dot Let_def Suc_le_eq)

lemma valid_char_nonzero: "valid_chars s \<Longrightarrow> 0 \<notin> set s"
  by (auto simp: valid_chars_def IsValidFatChar_def char_int_def)

lemma grammar_8_3_nonzero: "grammar_8_3 base ext \<Longrightarrow> 0 \<notin> set (short_name base ext)"
  using valid_char_nonzero by (auto simp: grammar_8_3_def short_name_def split: option.splits)

lemma IsShortName_iff_grammar:
  "IsShortName s \<longleftrightarrow> (\<exists>base ext. cstr s = short_name base ext \<and> grammar_8_3 base ext)"
proof (cases "46 \<in> set (cstr s)")
  case False
  then have "(\<exists>base ext. cstr s = short_name base ext \<and> grammar_8_3 base ext) \<longleftrightarrow>
      grammar_8_3 (cstr s) None"
    by (auto simp: short_name_def split: option.splits)
  with False show ?thesis by (simp add: IsShortName_no_dot)
next
  case True
  then obtain b e where s: "cstr s = b @ 46 # e" "46 \<notin> set b"
    by (meson split_list_first)
  have "grammar_8_3 b (Some e)"
    if eq: "cstr s = short_name base ext" and g: "grammar_8_3 base ext" for base ext
  proof -
    obtain e' where e': "ext = Some e'" "cstr s = base @ 46 # e'"
      using eq g True by (cases ext) (auto simp: short_name_def grammar_8_3_def)
    with s g have "base = b \<and> e' = e"
      by (intro append_Cons_eq_iff [THEN iffD1]) (auto simp: grammar_8_3_def)
    with g e' show ?thesis by simp
  qed
  moreover have "cstr s = short_name b (Some e)" using s by (simp add: short_name_def)
  ultimately show ?thesis using IsShortName_dot [OF s] by blast
qed

text \<open>
  C5. \<^verbatim>\<open>IsShortName\<close> accepts exactly the 8.3 names: one to eight valid characters without a dot,
  optionally followed by a dot and one to three valid characters without a dot.
\<close>

theorem IsShortName_is_8_3:
  "IsShortName s = (\<exists>base ext. cstr s = short_name base ext \<and> grammar_8_3 base ext)"
  by (rule IsShortName_iff_grammar)

end
