(* ===== verification/Fat_Dirent.thy ===== *)
theory Fat_Dirent
  imports Fat_Name "HOL-Library.Monad_Syntax"
begin

text \<open>
  Directory entries (\<^verbatim>\<open>include/fs/FatDirent.h\<close>, \<^verbatim>\<open>include/fs/FatDirentLong.h\<close>): the packed 32 byte
  records, kept as the raw bytes of their fields, their accessors, the short name checksum and
  the conversion of the padded name fields into a C string. Writing past a caller's buffer is
  undefined behaviour and is the value \<open>None\<close>.
\<close>

subsection \<open>The packed records\<close>

record FatDirent =
  de_name :: bytes
  de_extension :: bytes
  de_flags :: u8
  de_unused :: bytes
  de_ctimeHMS :: bytes
  de_ctimeYMD :: bytes
  de_atimeYMD :: bytes
  de_clusterIndexHigh :: bytes
  de_mtimeHMS :: bytes
  de_mtimeYMD :: bytes
  de_clusterIndexLow :: bytes
  de_size :: bytes

text \<open>The default constructor: names padded with blanks, everything else zero.\<close>

definition FatDirent_new :: FatDirent where
  "FatDirent_new = \<lparr>de_name = FixedLengthString 8 32, de_extension = FixedLengthString 3 32,
     de_flags = 0, de_unused = ByteBlob 2 0,
     de_ctimeHMS = UnalignedInt_Set 2 (0 :: u16), de_ctimeYMD = UnalignedInt_Set 2 (0 :: u16),
     de_atimeYMD = UnalignedInt_Set 2 (0 :: u16),
     de_clusterIndexHigh = UnalignedInt_Set 2 (0 :: u16),
     de_mtimeHMS = UnalignedInt_Set 2 (0 :: u16), de_mtimeYMD = UnalignedInt_Set 2 (0 :: u16),
     de_clusterIndexLow = UnalignedInt_Set 2 (0 :: u16), de_size = UnalignedInt_Set 4 (0 :: u32)\<rparr>"

text \<open>The object representation, and the object a cast finds in 32 bytes of memory.\<close>

definition FatDirent_bytes :: "FatDirent \<Rightarrow> bytes" where
  "FatDirent_bytes d = de_name d @ de_extension d @ [de_flags d] @ de_unused d @ de_ctimeHMS d @
     de_ctimeYMD d @ de_atimeYMD d @ de_clusterIndexHigh d @ de_mtimeHMS d @ de_mtimeYMD d @
     de_clusterIndexLow d @ de_size d"

definition FatDirent_of_bytes :: "bytes \<Rightarrow> FatDirent" where
  "FatDirent_of_bytes b = \<lparr>de_name = subbytes 0 8 b, de_extension = subbytes 8 3 b,
     de_flags = b ! 11, de_unused = subbytes 12 2 b, de_ctimeHMS = subbytes 14 2 b,
     de_ctimeYMD = subbytes 16 2 b, de_atimeYMD = subbytes 18 2 b,
     de_clusterIndexHigh = subbytes 20 2 b, de_mtimeHMS = subbytes 22 2 b,
     de_mtimeYMD = subbytes 24 2 b, de_clusterIndexLow = subbytes 26 2 b,
     de_size = subbytes 28 4 b\<rparr>"

text \<open>The type invariant: every field has its declared width.\<close>

definition FatDirent_wf :: "FatDirent \<Rightarrow> bool" where
  "FatDirent_wf d \<longleftrightarrow> length (de_name d) = 8 \<and> length (de_extension d) = 3 \<and>
     length (de_unused d) = 2 \<and> length (de_ctimeHMS d) = 2 \<and> length (de_ctimeYMD d) = 2 \<and>
     length (de_atimeYMD d) = 2 \<and> length (de_clusterIndexHigh d) = 2 \<and>
     length (de_mtimeHMS d) = 2 \<and> length (de_mtimeYMD d) = 2 \<and>
     length (de_clusterIndexLow d) = 2 \<and> length (de_size d) = 4"

subsection \<open>Accessors\<close>

definition FatDirent_ClusterIndex :: "FatDirent \<Rightarrow> u32" where
  "FatDirent_ClusterIndex d =
     (let out = (ucast (UnalignedInt_Read16 (de_clusterIndexHigh d)) :: u32);
          out = push_bit 16 out
      in out OR ucast (UnalignedInt_Read16 (de_clusterIndexLow d)))"

definition FatDirent_SetClusterIndex :: "FatDirent \<Rightarrow> u32 \<Rightarrow> FatDirent" where
  "FatDirent_SetClusterIndex d index =
     d\<lparr>de_clusterIndexLow := UnalignedInt_Set 2 (ucast (index AND 0xFFFF) :: u16),
       de_clusterIndexHigh := UnalignedInt_Set 2 (ucast (drop_bit 16 index AND 0xFFFF) :: u16)\<rparr>"

definition FatDirent_Size :: "FatDirent \<Rightarrow> u32" where
  "FatDirent_Size d = UnalignedInt_Read32 (de_size d)"

definition FatDirent_SetSize :: "FatDirent \<Rightarrow> u32 \<Rightarrow> FatDirent" where
  "FatDirent_SetSize d sz = d\<lparr>de_size := UnalignedInt_Set 4 sz\<rparr>"

definition FatDirent_EntryFlags :: "FatDirent \<Rightarrow> u8" where
  "FatDirent_EntryFlags d = de_flags d"

definition FatDirent_SetEntryFlags :: "FatDirent \<Rightarrow> u8 \<Rightarrow> FatDirent" where
  "FatDirent_SetEntryFlags d flags = d\<lparr>de_flags := flags\<rparr>"

text \<open>The entry flags.\<close>

definition Flags_VolumeID :: u8 where "Flags_VolumeID = 0x08"
definition Flags_Directory :: u8 where "Flags_Directory = 0x10"
definition Flags_LongFileName :: u8 where "Flags_LongFileName = 0x0F"

definition name_At :: "FatDirent \<Rightarrow> nat \<Rightarrow> u8" where
  "name_At d i = FixedLengthString_At 8 32 (de_name d) i"

definition extension_At :: "FatDirent \<Rightarrow> nat \<Rightarrow> u8" where
  "extension_At d i = FixedLengthString_At 3 32 (de_extension d) i"

definition checksum_step :: "u8 \<Rightarrow> u8 \<Rightarrow> u8" where
  "checksum_step s c = push_bit 7 (s AND 1) + drop_bit 1 s + c"

fun checksum_loop :: "(nat \<Rightarrow> u8) \<Rightarrow> nat \<Rightarrow> nat \<Rightarrow> u8 \<Rightarrow> u8" where
  "checksum_loop f i 0 s = s"
| "checksum_loop f i (Suc n) s = checksum_loop f (Suc i) n (checksum_step s (f i))"

definition FatDirent_Checksum :: "FatDirent \<Rightarrow> u8" where
  "FatDirent_Checksum d =
     (let s = checksum_loop (name_At d) 0 8 0 in checksum_loop (extension_At d) 0 3 s)"

definition FatDirent_IsDummiedOut :: "FatDirent \<Rightarrow> bool" where
  "FatDirent_IsDummiedOut d \<longleftrightarrow> name_At d 0 = 0xE5"

definition FatDirent_IsLastInList :: "FatDirent \<Rightarrow> bool" where
  "FatDirent_IsLastInList d \<longleftrightarrow> name_At d 0 = 0x00"

definition FatDirent_SetName :: "FatDirent \<Rightarrow> bytes \<Rightarrow> FatDirent" where
  "FatDirent_SetName d name = d\<lparr>de_name := FixedLengthString_Set 8 32 name\<rparr>"

definition FatDirent_SetExtension :: "FatDirent \<Rightarrow> bytes \<Rightarrow> FatDirent" where
  "FatDirent_SetExtension d ext = d\<lparr>de_extension := FixedLengthString_Set 3 32 ext\<rparr>"

subsection \<open>NameToString\<close>

text \<open>A store into a caller's character array, checked against its size.\<close>

definition put :: "bytes \<Rightarrow> nat \<Rightarrow> u8 \<Rightarrow> bytes option" where
  "put buffer i c = (if i < length buffer then Some (buffer[i := c]) else None)"

text \<open>\<^verbatim>\<open>buffer[idx++] = f(i)\<close> for \<open>n\<close> values of \<^verbatim>\<open>i\<close>.\<close>

fun put_chars :: "(nat \<Rightarrow> u8) \<Rightarrow> nat \<Rightarrow> nat \<Rightarrow> bytes \<Rightarrow> nat \<Rightarrow> (bytes \<times> nat) option" where
  "put_chars f i 0 buffer idx = Some (buffer, idx)"
| "put_chars f i (Suc n) buffer idx =
     do { b \<leftarrow> put buffer idx (f i); put_chars f (Suc i) n b (Suc idx) }"

text \<open>\<^verbatim>\<open>while (idx > 0 && buffer[idx - 1] == ' ') --idx\<close>.\<close>

fun trim_blanks :: "bytes \<Rightarrow> nat \<Rightarrow> nat" where
  "trim_blanks buffer 0 = 0"
| "trim_blanks buffer (Suc idx) =
     (if buffer ! idx = 32 then trim_blanks buffer idx else Suc idx)"

text \<open>The result is the return value and the buffer; \<open>None\<close> is a store past the buffer.\<close>

definition FatDirent_NameToString :: "FatDirent \<Rightarrow> bytes \<Rightarrow> (bool \<times> bytes) option" where
  "FatDirent_NameToString d buffer =
     (if name_At d 0 = 32 then Some (False, buffer)
      else do {
        (b1, i1) \<leftarrow> put_chars (name_At d) 0 8 buffer 0;
        let i2 = trim_blanks b1 i1;
        (b3, i3) \<leftarrow>
          (if extension_At d 0 \<noteq> 32 then do {
             b \<leftarrow> put b1 i2 46;
             (b', i') \<leftarrow> put_chars (extension_At d) 0 3 b (Suc i2);
             Some (b', trim_blanks b' i') }
           else Some (b1, i2));
        b4 \<leftarrow> put b3 i3 0;
        Some (True, b4) })"

subsection \<open>Long name entries\<close>

record FatDirentLong =
  dl_seqNumber :: u8
  dl_namePart :: "bytes list"
  dl_attrib :: u8
  dl_entryType :: u8
  dl_shortChecksum :: u8
  dl_namePart2 :: "bytes list"
  dl_unused :: bytes
  dl_namePart3 :: "bytes list"

fun chunks2 :: "nat \<Rightarrow> bytes \<Rightarrow> bytes list" where
  "chunks2 0 b = []"
| "chunks2 (Suc n) b = take 2 b # chunks2 n (drop 2 b)"

definition FatDirentLong_of_bytes :: "bytes \<Rightarrow> FatDirentLong" where
  "FatDirentLong_of_bytes b = \<lparr>dl_seqNumber = b ! 0, dl_namePart = chunks2 5 (subbytes 1 10 b),
     dl_attrib = b ! 11, dl_entryType = b ! 12, dl_shortChecksum = b ! 13,
     dl_namePart2 = chunks2 6 (subbytes 14 12 b), dl_unused = subbytes 26 2 b,
     dl_namePart3 = chunks2 2 (subbytes 28 4 b)\<rparr>"

definition FatDirentLong_IsLast :: "FatDirentLong \<Rightarrow> bool" where
  "FatDirentLong_IsLast d \<longleftrightarrow> dl_seqNumber d AND 0x40 \<noteq> 0"

definition FatDirentLong_SequenceNumber :: "FatDirentLong \<Rightarrow> u8" where
  "FatDirentLong_SequenceNumber d = dl_seqNumber d AND 0x3F"

definition FatDirentLong_EntryFlags :: "FatDirentLong \<Rightarrow> u8" where
  "FatDirentLong_EntryFlags d = dl_attrib d"

definition FatDirentLong_ShortNameChecksum :: "FatDirentLong \<Rightarrow> u8" where
  "FatDirentLong_ShortNameChecksum d = dl_shortChecksum d"

text \<open>\<^verbatim>\<open>Stringify\<close> maps each UTF-16 unit to a character, unprintable ones to a question mark.\<close>

fun Stringify :: "bytes list \<Rightarrow> bytes" where
  "Stringify [] = []"
| "Stringify (raw # rest) =
     (let x = UnalignedInt_Read16 raw in
      (if (x > 0 \<and> x < 0x20) \<or> x \<ge> 0x7F then 63 else ucast x) # Stringify rest)"

text \<open>The characters stored before the final terminator.\<close>

definition FatDirentLong_NameToString :: "FatDirentLong \<Rightarrow> bytes" where
  "FatDirentLong_NameToString d =
     Stringify (dl_namePart d) @ Stringify (dl_namePart2 d) @ Stringify (dl_namePart3 d) @ [0]"

subsection \<open>Layout round trips\<close>

lemma length_FatDirent_bytes [simp]: "FatDirent_wf d \<Longrightarrow> length (FatDirent_bytes d) = 32"
  by (simp add: FatDirent_wf_def FatDirent_bytes_def)

lemma FatDirent_of_bytes_wf: "length b = 32 \<Longrightarrow> FatDirent_wf (FatDirent_of_bytes b)"
  by (simp add: FatDirent_wf_def FatDirent_of_bytes_def)

lemma FatDirent_of_bytes_bytes:
  assumes "FatDirent_wf d"
  shows "FatDirent_of_bytes (FatDirent_bytes d) = d"
  using assms
  by (simp add: FatDirent_of_bytes_def FatDirent_bytes_def FatDirent_wf_def subbytes_def nth_append)

lemma FatDirent_bytes_of_bytes:
  assumes "length b = 32"
  shows "FatDirent_bytes (FatDirent_of_bytes b) = b"
proof -
  have "FatDirent_bytes (FatDirent_of_bytes b) = pieces 0 [8, 3, 1, 2, 2, 2, 2, 2, 2, 2, 2, 4] b"
    using assms subbytes_single [of 11 b] by (simp add: FatDirent_bytes_def FatDirent_of_bytes_def)
  also have "\<dots> = b" using assms by (intro pieces_all) simp
  finally show ?thesis .
qed

lemmas FatDirent_setters = FatDirent_SetClusterIndex_def FatDirent_SetSize_def
  FatDirent_SetEntryFlags_def FatDirent_SetName_def FatDirent_SetExtension_def

lemma FatDirent_setters_wf:
  assumes "FatDirent_wf d"
  shows "FatDirent_wf (FatDirent_SetClusterIndex d i)" "FatDirent_wf (FatDirent_SetSize d n)"
    "FatDirent_wf (FatDirent_SetEntryFlags d f)" "FatDirent_wf (FatDirent_SetName d s)"
    "FatDirent_wf (FatDirent_SetExtension d s)"
  using assms by (simp_all add: FatDirent_setters FatDirent_wf_def)

lemma FatDirent_new_wf: "FatDirent_wf FatDirent_new"
  by (simp add: FatDirent_wf_def FatDirent_new_def FixedLengthString_def)

lemma ClusterIndex_Set: "FatDirent_ClusterIndex (FatDirent_SetClusterIndex d i) = i"
proof -
  have "push_bit 16 (ucast (ucast (drop_bit 16 i AND 0xFFFF) :: u16)) OR
      ucast (ucast (i AND 0xFFFF) :: u16) = i"
    by (rule bit_word_eqI) (auto simp: and_mask_16 bit_simps)
  then show ?thesis
    by (simp add: FatDirent_ClusterIndex_def FatDirent_SetClusterIndex_def)
qed

lemma Size_Set: "FatDirent_Size (FatDirent_SetSize d n) = n"
  by (simp add: FatDirent_Size_def FatDirent_SetSize_def)

subsection \<open>What NameToString writes\<close>

definition rtrim :: "bytes \<Rightarrow> bytes" where
  "rtrim s = rev (dropWhile (\<lambda>c. c = 32) (rev s))"

definition dirent_name :: "FatDirent \<Rightarrow> bytes" where
  "dirent_name d = rtrim (de_name d) @
     (if de_extension d ! 0 \<noteq> 32 then 46 # rtrim (de_extension d) else [])"

lemma rtrim_snoc: "rtrim (s @ [c]) = (if c = 32 then rtrim s else s @ [c])"
  by (simp add: rtrim_def)

lemma rtrim_Nil [simp]: "rtrim [] = []"
  by (simp add: rtrim_def)

lemma length_rtrim: "length (rtrim s) \<le> length s"
  unfolding rtrim_def by (metis length_dropWhile_le length_rev)

lemma take_rtrim: "take (length (rtrim s)) s = rtrim s"
  by (induction s rule: rev_induct) (auto simp: rtrim_snoc length_rtrim)

lemma rtrim_append: "rtrim e \<noteq> [] \<Longrightarrow> rtrim (s @ e) = s @ rtrim e"
  by (induction e rule: rev_induct) (auto simp: rtrim_snoc simp flip: append_assoc)

lemma rtrim_Nil_iff: "rtrim s = [] \<longleftrightarrow> (\<forall>c \<in> set s. c = 32)"
  by (induction s rule: rev_induct) (auto simp: rtrim_snoc)

lemma rtrim_hd: "s \<noteq> [] \<Longrightarrow> s ! 0 \<noteq> 32 \<Longrightarrow> rtrim s \<noteq> []"
  by (auto simp: rtrim_Nil_iff)

lemma rtrim_pad: "(s = [] \<or> last s \<noteq> 32) \<Longrightarrow> rtrim (s @ replicate n 32) = s"
proof (induction n)
  case 0
  then show ?case by (cases s rule: rev_cases) (auto simp: rtrim_snoc)
next
  case (Suc n)
  have "s @ replicate (Suc n) 32 = (s @ replicate n 32) @ [32]" by (simp add: replicate_append_same)
  then show ?case using Suc by (simp only: rtrim_snoc) simp
qed

lemma trim_blanks_eq:
  "idx \<le> length buffer \<Longrightarrow> trim_blanks buffer idx = length (rtrim (take idx buffer))"
  by (induction idx) (auto simp: take_Suc_conv_app_nth rtrim_snoc)

lemma put_chars_eq:
  assumes "idx + n \<le> length buffer"
  shows "put_chars f i n buffer idx =
    Some (take idx buffer @ map f [i ..< i + n] @ drop (idx + n) buffer, idx + n)"
  using assms
proof (induction f i n buffer idx rule: put_chars.induct)
  case (2 f i n buffer idx)
  then have "idx < length buffer" by simp
  with 2 show ?case
    by (simp add: put_def upd_conv_take_nth_drop upt_rec [of i "Suc (i + n)"] add.commute
        del: upt_Suc)
qed simp

lemma name_At_map: "length (de_name d) = 8 \<Longrightarrow> map (name_At d) [0 ..< 8] = de_name d"
  by (rule nth_equalityI) (simp_all add: name_At_def FixedLengthString_At_def)

lemma extension_At_map: "length (de_extension d) = 3 \<Longrightarrow> map (extension_At d) [0 ..< 3] = de_extension d"
  by (rule nth_equalityI) (simp_all add: extension_At_def FixedLengthString_At_def)

lemma put_append:
  "i = length xs \<Longrightarrow> ys \<noteq> [] \<Longrightarrow> put (xs @ ys) i c = Some (xs @ c # tl ys)"
  by (cases ys) (auto simp: put_def)

lemma NameToString_put_name:
  assumes "FatDirent_wf d" "12 \<le> length buffer"
  shows "put_chars (name_At d) 0 8 buffer 0 = Some (de_name d @ drop 8 buffer, 8)"
    "trim_blanks (de_name d @ drop 8 buffer) 8 = length (rtrim (de_name d))"
  using assms by (simp_all add: put_chars_eq name_At_map FatDirent_wf_def trim_blanks_eq)

lemma NameToString_put_extension:
  fixes d :: FatDirent and k :: nat
  assumes wf: "FatDirent_wf d" and len: "12 \<le> length buffer" and ext: "extension_At d 0 \<noteq> 32"
    and k: "k = length (rtrim (de_name d))"
  shows "\<exists>b b'. put (de_name d @ drop 8 buffer) k 46 = Some b \<and>
    put_chars (extension_At d) 0 3 b (Suc k) = Some (b', k + 4) \<and>
    trim_blanks b' (k + 4) = length (dirent_name d) \<and> length b' = length buffer \<and>
    take (length (dirent_name d)) b' = dirent_name d"
proof -
  let ?b1 = "de_name d @ drop 8 buffer"
  have k8: "k \<le> 8" using wf k length_rtrim [of "de_name d"] by (simp add: FatDirent_wf_def)
  have tk: "take k ?b1 = rtrim (de_name d)"
    using wf k k8 by (simp add: FatDirent_wf_def take_rtrim)
  define b where "b = ?b1[k := 46]"
  have lb: "length b = length buffer" using wf len by (simp add: b_def FatDirent_wf_def)
  have putb: "put ?b1 k 46 = Some b" using wf len k8 by (simp add: put_def b_def FatDirent_wf_def)
  have tb: "take (Suc k) b = rtrim (de_name d) @ [46]"
    using wf len k8 tk by (simp add: b_def take_Suc_conv_app_nth FatDirent_wf_def)
  define b' where "b' = take (Suc k) b @ de_extension d @ drop (Suc k + 3) b"
  have pc: "put_chars (extension_At d) 0 3 b (Suc k) = Some (b', k + 4)"
    using wf k8 len lb
    by (simp add: put_chars_eq b'_def extension_At_map FatDirent_wf_def)
  have lb': "length b' = length buffer"
    using wf k8 len lb by (simp add: b'_def FatDirent_wf_def)
  have e0: "de_extension d ! 0 \<noteq> 32"
    using ext by (simp add: extension_At_def FixedLengthString_At_def)
  have e3: "length (de_extension d) = 3" using wf by (simp add: FatDirent_wf_def)
  have "rtrim (de_extension d) \<noteq> []" using e0 e3 by (intro rtrim_hd) auto
  then have rt: "rtrim ((rtrim (de_name d) @ [46]) @ de_extension d) = dirent_name d"
    using e0 by (subst rtrim_append) (auto simp: dirent_name_def)
  have tk4: "take (k + 4) b' = (rtrim (de_name d) @ [46]) @ de_extension d"
    using tb e3 k by (simp add: b'_def)
  have tr: "trim_blanks b' (k + 4) = length (dirent_name d)"
    using k8 len lb' trim_blanks_eq [of "k + 4" b', unfolded tk4 rt] by simp
  have "length (dirent_name d) \<le> k + 4"
    using rt length_rtrim [of "(rtrim (de_name d) @ [46]) @ de_extension d"] e3 k by simp
  then have "take (length (dirent_name d)) b' = take (length (dirent_name d)) (take (k + 4) b')"
    by simp
  also have "\<dots> = dirent_name d"
    unfolding tk4 using take_rtrim [of "(rtrim (de_name d) @ [46]) @ de_extension d"] rt by simp
  finally show ?thesis using putb pc tr lb' by blast
qed

lemma put_terminator:
  assumes "length b = n" "take k b = s" "k = length s"
  shows "put b k 0 = (if k < n then Some (s @ 0 # drop (Suc k) b) else None)"
  using assms by (auto simp: put_def upd_conv_take_nth_drop)

lemma NameToString_eq:
  assumes wf: "FatDirent_wf d" and len: "12 \<le> length buffer" and name: "name_At d 0 \<noteq> 32"
  shows "\<exists>rest. FatDirent_NameToString d buffer =
    (if length (dirent_name d) < length buffer
     then Some (True, dirent_name d @ 0 # rest) else None)"
proof (cases "extension_At d 0 = 32")
  case True
  let ?b1 = "de_name d @ drop 8 buffer" and ?k = "length (rtrim (de_name d))"
  have dn: "dirent_name d = rtrim (de_name d)"
    using True by (simp add: dirent_name_def extension_At_def FixedLengthString_At_def)
  have k8: "?k \<le> 8" using wf length_rtrim [of "de_name d"] by (simp add: FatDirent_wf_def)
  have "take ?k ?b1 = rtrim (de_name d)" using wf k8 by (simp add: FatDirent_wf_def take_rtrim)
  with put_terminator [of ?b1 "length buffer" ?k "rtrim (de_name d)"] wf len k8
  have "put ?b1 ?k 0 = Some (dirent_name d @ 0 # drop (Suc ?k) ?b1)"
    using dn by (simp add: FatDirent_wf_def)
  then have "FatDirent_NameToString d buffer = Some (True, dirent_name d @ 0 # drop (Suc ?k) ?b1)"
    using True name NameToString_put_name [OF wf len]
    by (simp add: FatDirent_NameToString_def)
  moreover have "length (dirent_name d) < length buffer" using dn k8 len by simp
  ultimately show ?thesis by auto
next
  case False
  from NameToString_put_extension [OF wf len False refl] obtain b b' where
    b: "put (de_name d @ drop 8 buffer) (length (rtrim (de_name d))) 46 = Some b"
    and b': "put_chars (extension_At d) 0 3 b (Suc (length (rtrim (de_name d)))) =
        Some (b', length (rtrim (de_name d)) + 4)"
      "trim_blanks b' (length (rtrim (de_name d)) + 4) = length (dirent_name d)"
      "length b' = length buffer" "take (length (dirent_name d)) b' = dirent_name d" by blast
  have "FatDirent_NameToString d buffer =
      Option.bind (put b' (length (dirent_name d)) 0) (\<lambda>b4. Some (True, b4))"
    using False name NameToString_put_name [OF wf len] b b'
    by (simp add: FatDirent_NameToString_def)
  with put_terminator [OF b'(3,4) refl] show ?thesis by simp
qed

lemma length_dirent_name:
  assumes "FatDirent_wf d"
  shows "length (dirent_name d) \<le> 12"
    "length (dirent_name d) = 12 \<longleftrightarrow>
      length (rtrim (de_name d)) = 8 \<and> length (rtrim (de_extension d)) = 3 \<and> extension_At d 0 \<noteq> 32"
proof -
  have "length (rtrim (de_name d)) \<le> 8" "length (rtrim (de_extension d)) \<le> 3"
    using assms length_rtrim [of "de_name d"] length_rtrim [of "de_extension d"]
    by (simp_all add: FatDirent_wf_def)
  then show "length (dirent_name d) \<le> 12" "length (dirent_name d) = 12 \<longleftrightarrow>
      length (rtrim (de_name d)) = 8 \<and> length (rtrim (de_extension d)) = 3 \<and> extension_At d 0 \<noteq> 32"
    by (auto simp: dirent_name_def extension_At_def FixedLengthString_At_def)
qed

text \<open>With the 13 bytes its signature asks for, \<^verbatim>\<open>NameToString\<close> stays inside the buffer.\<close>

lemma NameToString_13:
  assumes "FatDirent_wf d" "13 \<le> length buffer" "name_At d 0 \<noteq> 32"
  shows "\<exists>rest. FatDirent_NameToString d buffer = Some (True, dirent_name d @ 0 # rest)"
  using NameToString_eq [OF assms(1) _ assms(3), of buffer] length_dirent_name(1) [OF assms(1)] assms(2)
  by auto

subsection \<open>Storing a short name\<close>

text \<open>A name field filled from an 8.3 name reads back as that name, unless a part ends in a blank
  (the padding character), or the name starts with one.\<close>

definition no_blank_end :: "bytes \<Rightarrow> bool" where
  "no_blank_end s \<longleftrightarrow> s \<noteq> [] \<and> last s \<noteq> 32"

lemma FixedLengthString_Set_short:
  "0 \<notin> set s \<Longrightarrow> length s \<le> n \<Longrightarrow> FixedLengthString_Set n fill s = s @ replicate (n - length s) fill"
  by (simp add: FixedLengthString_Set_eq cstr_id)

definition set_short_name :: "FatDirent \<Rightarrow> bytes \<Rightarrow> bytes option \<Rightarrow> FatDirent" where
  "set_short_name d base ext =
     (case ext of None \<Rightarrow> FatDirent_SetName d base
      | Some e \<Rightarrow> FatDirent_SetExtension (FatDirent_SetName d base) e)"

lemma dirent_name_set_short_name:
  assumes g: "grammar_8_3 base ext" and b: "no_blank_end base"
    and e: "\<And>x. ext = Some x \<Longrightarrow> no_blank_end x \<and> x ! 0 \<noteq> 32"
  shows "dirent_name (set_short_name FatDirent_new base ext) = short_name base ext"
proof -
  have base: "0 \<notin> set base" "length base \<le> 8"
    using g valid_char_nonzero by (auto simp: grammar_8_3_def)
  have nm: "rtrim (FixedLengthString_Set 8 32 base) = base"
    using base b by (simp add: FixedLengthString_Set_short rtrim_pad no_blank_end_def)
  show ?thesis
  proof (cases ext)
    case None
    with nm show ?thesis
      by (simp add: dirent_name_def set_short_name_def FatDirent_setters FatDirent_new_def
          FixedLengthString_def short_name_def)
  next
    case (Some x)
    have x: "0 \<notin> set x" "length x \<le> 3" "x \<noteq> []"
      using g Some valid_char_nonzero by (auto simp: grammar_8_3_def)
    have ex: "rtrim (FixedLengthString_Set 3 32 x) = x"
      using x e [OF Some] by (simp add: FixedLengthString_Set_short rtrim_pad no_blank_end_def)
    have "FixedLengthString_Set 3 32 x ! 0 \<noteq> 32"
      using x e [OF Some] by (simp add: FixedLengthString_Set_short nth_append)
    with nm ex Some show ?thesis
      by (simp add: dirent_name_def set_short_name_def FatDirent_setters short_name_def)
  qed
qed

lemma set_short_name_wf: "FatDirent_wf (set_short_name FatDirent_new base ext)"
  by (simp add: set_short_name_def FatDirent_setters_wf FatDirent_new_wf split: option.splits)

subsection \<open>Properties\<close>

text \<open>
  In a buffer of at least 13 bytes \<^verbatim>\<open>NameToString\<close> never stores out of bounds; it reports a
  nameless entry by returning false without touching the buffer, and otherwise leaves the name
  without its padding, the extension after a dot, and a terminator.
\<close>

theorem NameToString_in_bounds:
  assumes "FatDirent_wf d" and "13 \<le> length buffer"
  shows "(name_At d 0 = 32 \<and> FatDirent_NameToString d buffer = Some (False, buffer)) \<or>
    (\<exists>rest. name_At d 0 \<noteq> 32 \<and>
      FatDirent_NameToString d buffer = Some (True, dirent_name d @ 0 # rest))"
  using NameToString_13 [OF assms] by (auto simp: FatDirent_NameToString_def)

theorem NameToString_in_bounds_witness:
  "\<exists>rest. FatDirent_NameToString
     (set_short_name FatDirent_new [66, 79, 79, 84] (Some [67, 70, 71])) (replicate 13 0) =
     Some (True, [66, 79, 79, 84, 46, 67, 70, 71] @ 0 # rest)"
proof -
  let ?d = "set_short_name FatDirent_new [66, 79, 79, 84] (Some [67, 70, 71])"
  have "name_At ?d 0 \<noteq> 32" "dirent_name ?d = [66, 79, 79, 84, 46, 67, 70, 71]"
    by code_simp+
  with NameToString_in_bounds [of ?d "replicate 13 0"] show ?thesis
    by (auto simp: set_short_name_wf)
qed

text \<open>
  With a buffer of only 12 bytes (as \<^verbatim>\<open>fatedit\<close> passes) \<^verbatim>\<open>NameToString\<close> writes past its end
  exactly when the entry uses all eight characters of the name and all three of the extension.
\<close>

theorem NameToString_12_overflow:
  assumes "FatDirent_wf d" and "length buffer = 12"
  shows "FatDirent_NameToString d buffer = None \<longleftrightarrow>
    name_At d 0 \<noteq> 32 \<and> length (rtrim (de_name d)) = 8 \<and> length (rtrim (de_extension d)) = 3 \<and>
    extension_At d 0 \<noteq> 32"
proof (cases "name_At d 0 = 32")
  case True
  then show ?thesis by (simp add: FatDirent_NameToString_def)
next
  case False
  with NameToString_eq [OF assms(1) _ False, of buffer] length_dirent_name [OF assms(1)] assms(2)
  show ?thesis by auto
qed

theorem NameToString_12_overflow_witness:
  "FatDirent_NameToString (set_short_name FatDirent_new [75, 69, 82, 78, 69, 76, 51, 50]
     (Some [66, 73, 78])) (replicate 12 0) = None"
proof -
  let ?d = "set_short_name FatDirent_new [75, 69, 82, 78, 69, 76, 51, 50] (Some [66, 73, 78])"
  have "name_At ?d 0 \<noteq> 32" "length (rtrim (de_name ?d)) = 8"
    "length (rtrim (de_extension ?d)) = 3" "extension_At ?d 0 \<noteq> 32"
    by code_simp+
  with NameToString_12_overflow [of ?d "replicate 12 0"] show ?thesis
    by (simp add: set_short_name_wf)
qed

text \<open>
  Short names round-trip through a directory entry: an 8.3 name stored with \<^verbatim>\<open>SetName\<close> and
  \<^verbatim>\<open>SetExtension\<close> is what \<^verbatim>\<open>NameToString\<close> gives back, when neither part ends in a blank and
  neither starts with one.
\<close>

theorem short_name_roundtrip:
  assumes "grammar_8_3 base ext" and "no_blank_end base" and "base ! 0 \<noteq> 32"
    and "\<forall>x. ext = Some x \<longrightarrow> no_blank_end x \<and> x ! 0 \<noteq> 32" and "13 \<le> length buffer"
  shows "\<exists>b. FatDirent_NameToString (set_short_name FatDirent_new base ext) buffer = Some (True, b) \<and>
    cstr b = short_name base ext"
proof -
  let ?d = "set_short_name FatDirent_new base ext"
  have "base \<noteq> []" "0 \<notin> set base" "length base \<le> 8"
    using assms(1) valid_char_nonzero by (auto simp: grammar_8_3_def)
  then have n0: "name_At ?d 0 \<noteq> 32"
    using assms(3)
    by (simp add: name_At_def FixedLengthString_At_def set_short_name_def FatDirent_setters
        FixedLengthString_Set_short nth_append split: option.splits)
  from NameToString_13 [OF set_short_name_wf assms(5) n0] obtain rest where
    r: "FatDirent_NameToString ?d buffer = Some (True, dirent_name ?d @ 0 # rest)" by blast
  have nm: "dirent_name ?d = short_name base ext"
    using assms(4) by (intro dirent_name_set_short_name [OF assms(1,2)]) auto
  have "cstr (short_name base ext @ 0 # rest) = short_name base ext"
    using grammar_8_3_nonzero [OF assms(1)] by (simp add: cstr_def takeWhile_append)
  with r nm show ?thesis by simp
qed

theorem short_name_roundtrip_witness:
  "\<exists>b. FatDirent_NameToString (set_short_name FatDirent_new [66, 79, 79, 84] (Some [67, 70, 71]))
     (replicate 13 0) = Some (True, b) \<and> cstr b = [66, 79, 79, 84, 46, 67, 70, 71]"
proof -
  have "grammar_8_3 [66, 79, 79, 84] (Some [67, 70, 71])" "no_blank_end [66, 79, 79, 84]"
    "no_blank_end [67, 70, 71]"
    by code_simp+
  with short_name_roundtrip [of "[66, 79, 79, 84]" "Some [67, 70, 71]" "replicate 13 0"]
  show ?thesis by (simp add: short_name_def)
qed

end
