(* ===== verification/Fat_Super.thy ===== *)
theory Fat_Super
  imports Basic_Types
begin

text \<open>
  The FAT32 super block (\<^verbatim>\<open>include/fs/FatSuper.h\<close>) and the file system information sector
  (\<^verbatim>\<open>include/fs/FatFsInfo.h\<close>): packed 512 byte records, their accessors, and the arithmetic that
  turns a cluster index into a sector number.
\<close>

subsection \<open>FatSuper\<close>

record FatSuper =
  fs_jump :: u8
  fs_codeOffset :: u8
  fs_nop :: u8
  fs_oemName :: bytes
  fs_bytesPerSector :: bytes
  fs_sectorsPerCluster :: u8
  fs_numReservedSectors :: bytes
  fs_numFats :: u8
  fs_unused0 :: bytes
  fs_mediaDescriptor :: u8
  fs_unused1 :: bytes
  fs_sectorsPerTrack :: bytes
  fs_headsPerDisk :: bytes
  fs_unused2 :: bytes
  fs_totalSectorCount :: bytes
  fs_sectorsPerFat :: bytes
  fs_mirrorFlags :: bytes
  fs_version :: bytes
  fs_rootDirIndex :: bytes
  fs_fsInfoIndex :: bytes
  fs_bootSecCopyIndex :: bytes
  fs_unused3 :: bytes
  fs_physDriveNum :: u8
  fs_wtf1 :: bytes
  fs_extBootSignature :: u8
  fs_volumeId :: bytes
  fs_label :: bytes
  fs_fsName :: bytes
  fs_bootCode :: bytes
  fs_bootSignature :: bytes

definition FatSuper_bytes :: "FatSuper \<Rightarrow> bytes" where
  "FatSuper_bytes s = [fs_jump s] @ [fs_codeOffset s] @ [fs_nop s] @ fs_oemName s @
     fs_bytesPerSector s @ [fs_sectorsPerCluster s] @ fs_numReservedSectors s @ [fs_numFats s] @
     fs_unused0 s @ [fs_mediaDescriptor s] @ fs_unused1 s @ fs_sectorsPerTrack s @
     fs_headsPerDisk s @ fs_unused2 s @ fs_totalSectorCount s @ fs_sectorsPerFat s @
     fs_mirrorFlags s @ fs_version s @ fs_rootDirIndex s @ fs_fsInfoIndex s @
     fs_bootSecCopyIndex s @ fs_unused3 s @ [fs_physDriveNum s] @ fs_wtf1 s @
     [fs_extBootSignature s] @ fs_volumeId s @ fs_label s @ fs_fsName s @ fs_bootCode s @
     fs_bootSignature s"

definition FatSuper_of_bytes :: "bytes \<Rightarrow> FatSuper" where
  "FatSuper_of_bytes b = \<lparr>fs_jump = b ! 0, fs_codeOffset = b ! 1, fs_nop = b ! 2,
     fs_oemName = subbytes 3 8 b, fs_bytesPerSector = subbytes 11 2 b,
     fs_sectorsPerCluster = b ! 13, fs_numReservedSectors = subbytes 14 2 b, fs_numFats = b ! 16,
     fs_unused0 = subbytes 17 4 b, fs_mediaDescriptor = b ! 21, fs_unused1 = subbytes 22 2 b,
     fs_sectorsPerTrack = subbytes 24 2 b, fs_headsPerDisk = subbytes 26 2 b,
     fs_unused2 = subbytes 28 4 b, fs_totalSectorCount = subbytes 32 4 b,
     fs_sectorsPerFat = subbytes 36 4 b, fs_mirrorFlags = subbytes 40 2 b,
     fs_version = subbytes 42 2 b, fs_rootDirIndex = subbytes 44 4 b,
     fs_fsInfoIndex = subbytes 48 2 b, fs_bootSecCopyIndex = subbytes 50 2 b,
     fs_unused3 = subbytes 52 12 b, fs_physDriveNum = b ! 64, fs_wtf1 = subbytes 65 1 b,
     fs_extBootSignature = b ! 66, fs_volumeId = subbytes 67 4 b, fs_label = subbytes 71 11 b,
     fs_fsName = subbytes 82 8 b, fs_bootCode = subbytes 90 420 b,
     fs_bootSignature = subbytes 510 2 b\<rparr>"

definition FatSuper_wf :: "FatSuper \<Rightarrow> bool" where
  "FatSuper_wf s \<longleftrightarrow> length (fs_oemName s) = 8 \<and> length (fs_bytesPerSector s) = 2 \<and>
     length (fs_numReservedSectors s) = 2 \<and> length (fs_unused0 s) = 4 \<and> length (fs_unused1 s) = 2 \<and>
     length (fs_sectorsPerTrack s) = 2 \<and> length (fs_headsPerDisk s) = 2 \<and>
     length (fs_unused2 s) = 4 \<and> length (fs_totalSectorCount s) = 4 \<and>
     length (fs_sectorsPerFat s) = 4 \<and> length (fs_mirrorFlags s) = 2 \<and> length (fs_version s) = 2 \<and>
     length (fs_rootDirIndex s) = 4 \<and> length (fs_fsInfoIndex s) = 2 \<and>
     length (fs_bootSecCopyIndex s) = 2 \<and> length (fs_unused3 s) = 12 \<and> length (fs_wtf1 s) = 1 \<and>
     length (fs_volumeId s) = 4 \<and> length (fs_label s) = 11 \<and> length (fs_fsName s) = 8 \<and>
     length (fs_bootCode s) = 420 \<and> length (fs_bootSignature s) = 2"

subsection \<open>Accessors\<close>

definition FatSuper_SetTotalSectorCount :: "FatSuper \<Rightarrow> u32 \<Rightarrow> FatSuper" where
  "FatSuper_SetTotalSectorCount s count = s\<lparr>fs_totalSectorCount := UnalignedInt_Set 4 count\<rparr>"

definition FatSuper_SetSectorsPerFat :: "FatSuper \<Rightarrow> u32 \<Rightarrow> FatSuper" where
  "FatSuper_SetSectorsPerFat s count = s\<lparr>fs_sectorsPerFat := UnalignedInt_Set 4 count\<rparr>"

text \<open>\<^verbatim>\<open>_bootCode\<close> sits at offset 90 and has 420 bytes; \<^verbatim>\<open>_codeOffset\<close> is an 8 bit field.\<close>

definition introJump_SetEntryPoint :: "FatSuper \<Rightarrow> nat \<Rightarrow> FatSuper" where
  "introJump_SetEntryPoint s entry0 =
     (let entry = min entry0 420
      in s\<lparr>fs_jump := 0xEB, fs_codeOffset := of_nat (90 - 2 + entry), fs_nop := 0x90\<rparr>)"

definition FatSuper_SetBootCode :: "FatSuper \<Rightarrow> bytes \<Rightarrow> nat \<Rightarrow> nat \<Rightarrow> FatSuper" where
  "FatSuper_SetBootCode s data size0 entryPoint =
     (let sz = min size0 420;
          s1 = s\<lparr>fs_bootCode := overwrite 0 (take sz data) (fs_bootCode s)\<rparr>
      in introJump_SetEntryPoint s1 entryPoint)"

definition FatSuper_SetOEMName :: "FatSuper \<Rightarrow> bytes \<Rightarrow> FatSuper" where
  "FatSuper_SetOEMName s name = s\<lparr>fs_oemName := FixedLengthString_Set 8 32 name\<rparr>"

definition FatSuper_BytesPerSector :: "FatSuper \<Rightarrow> u16" where
  "FatSuper_BytesPerSector s = UnalignedInt_Read16 (fs_bytesPerSector s)"

definition FatSuper_ReservedSectors :: "FatSuper \<Rightarrow> u16" where
  "FatSuper_ReservedSectors s = UnalignedInt_Read16 (fs_numReservedSectors s)"

definition FatSuper_FsInfoIndex :: "FatSuper \<Rightarrow> u16" where
  "FatSuper_FsInfoIndex s = UnalignedInt_Read16 (fs_fsInfoIndex s)"

definition FatSuper_SetFsInfoIndex :: "FatSuper \<Rightarrow> u16 \<Rightarrow> FatSuper" where
  "FatSuper_SetFsInfoIndex s v = s\<lparr>fs_fsInfoIndex := UnalignedInt_Set 2 v\<rparr>"

definition FatSuper_BackupIndex :: "FatSuper \<Rightarrow> u16" where
  "FatSuper_BackupIndex s = UnalignedInt_Read16 (fs_bootSecCopyIndex s)"

definition FatSuper_SetBackupIndex :: "FatSuper \<Rightarrow> u16 \<Rightarrow> FatSuper" where
  "FatSuper_SetBackupIndex s v = s\<lparr>fs_bootSecCopyIndex := UnalignedInt_Set 2 v\<rparr>"

definition FatSuper_SectorsPerCluster :: "FatSuper \<Rightarrow> u32" where
  "FatSuper_SectorsPerCluster s = ucast (fs_sectorsPerCluster s)"

definition FatSuper_NumFats :: "FatSuper \<Rightarrow> u32" where
  "FatSuper_NumFats s = ucast (fs_numFats s)"

definition FatSuper_SectorCount :: "FatSuper \<Rightarrow> u32" where
  "FatSuper_SectorCount s = UnalignedInt_Read32 (fs_totalSectorCount s)"

definition FatSuper_SectorsPerFat :: "FatSuper \<Rightarrow> u32" where
  "FatSuper_SectorsPerFat s = UnalignedInt_Read32 (fs_sectorsPerFat s)"

definition FatSuper_RootDirIndex :: "FatSuper \<Rightarrow> u32" where
  "FatSuper_RootDirIndex s = UnalignedInt_Read32 (fs_rootDirIndex s)"

definition FatSuper_ClusterIndex2Sector :: "FatSuper \<Rightarrow> u32 \<Rightarrow> u32" where
  "FatSuper_ClusterIndex2Sector s N =
     (let first = ucast (FatSuper_ReservedSectors s) + FatSuper_NumFats s * FatSuper_SectorsPerFat s
      in if N \<le> 2 then first else (N - 2) * FatSuper_SectorsPerCluster s + first)"

subsection \<open>FatFsInfo\<close>

definition FatFsInfoMagic1 :: u32 where "FatFsInfoMagic1 = 0x41615252"
definition FatFsInfoMagic2 :: u32 where "FatFsInfoMagic2 = 0x61417272"
definition FatFsInfoMagic3 :: u32 where "FatFsInfoMagic3 = 0xAA550000"

record FatFsInfo =
  fi_magic1 :: u32
  fi_reserved0 :: bytes
  fi_magic2 :: u32
  fi_freeClusters :: u32
  fi_nextFreeCluster :: u32
  fi_reserved1 :: bytes
  fi_magic3 :: u32

definition FatFsInfo_of_bytes :: "bytes \<Rightarrow> FatFsInfo" where
  "FatFsInfo_of_bytes b = \<lparr>fi_magic1 = UnalignedInt_Read32 (subbytes 0 4 b),
     fi_reserved0 = subbytes 4 480 b, fi_magic2 = UnalignedInt_Read32 (subbytes 484 4 b),
     fi_freeClusters = UnalignedInt_Read32 (subbytes 488 4 b),
     fi_nextFreeCluster = UnalignedInt_Read32 (subbytes 492 4 b),
     fi_reserved1 = subbytes 496 12 b, fi_magic3 = UnalignedInt_Read32 (subbytes 508 4 b)\<rparr>"

definition FatFsInfo_bytes :: "FatFsInfo \<Rightarrow> bytes" where
  "FatFsInfo_bytes f = UnalignedInt_Set 4 (fi_magic1 f) @ fi_reserved0 f @
     UnalignedInt_Set 4 (fi_magic2 f) @ UnalignedInt_Set 4 (fi_freeClusters f) @
     UnalignedInt_Set 4 (fi_nextFreeCluster f) @ fi_reserved1 f @ UnalignedInt_Set 4 (fi_magic3 f)"

definition FatFsInfo_IsValid :: "FatFsInfo \<Rightarrow> bool" where
  "FatFsInfo_IsValid f \<longleftrightarrow> fi_magic1 f = FatFsInfoMagic1 \<and> fi_magic2 f = FatFsInfoMagic2 \<and>
     fi_magic3 f = FatFsInfoMagic3"

definition FatFsInfo_SetNextFreeCluster :: "FatFsInfo \<Rightarrow> u32 \<Rightarrow> FatFsInfo" where
  "FatFsInfo_SetNextFreeCluster f index = f\<lparr>fi_nextFreeCluster := index\<rparr>"

definition FatFsInfo_SetNumFreeCluster :: "FatFsInfo \<Rightarrow> u32 \<Rightarrow> FatFsInfo" where
  "FatFsInfo_SetNumFreeCluster f count = f\<lparr>fi_freeClusters := count\<rparr>"

subsection \<open>Layout\<close>

lemma length_FatSuper_bytes [simp]: "FatSuper_wf s \<Longrightarrow> length (FatSuper_bytes s) = 512"
  by (simp add: FatSuper_wf_def FatSuper_bytes_def)

lemma FatSuper_of_bytes_wf: "length b = 512 \<Longrightarrow> FatSuper_wf (FatSuper_of_bytes b)"
  by (simp add: FatSuper_wf_def FatSuper_of_bytes_def)

lemma FatSuper_bytes_of_bytes:
  assumes "length b = 512"
  shows "FatSuper_bytes (FatSuper_of_bytes b) = b"
proof -
  have "FatSuper_bytes (FatSuper_of_bytes b) = pieces 0 [1, 1, 1, 8, 2, 1, 2, 1, 4, 1, 2, 2, 2, 4,
      4, 4, 2, 2, 4, 2, 2, 12, 1, 1, 1, 4, 11, 8, 420, 2] b"
    using assms subbytes_single [of _ b]
    by (simp add: FatSuper_bytes_def FatSuper_of_bytes_def numeral_2_eq_2 numeral_3_eq_3)
  also have "\<dots> = b" using assms by (intro pieces_all) simp
  finally show ?thesis .
qed

lemma FatSuper_of_bytes_bytes:
  assumes "FatSuper_wf s"
  shows "FatSuper_of_bytes (FatSuper_bytes s) = s"
  using assms
  by (simp add: FatSuper_of_bytes_def FatSuper_bytes_def FatSuper_wf_def subbytes_def nth_append)

lemma FatFsInfo_bytes_of_bytes:
  assumes "length b = 512"
  shows "FatFsInfo_bytes (FatFsInfo_of_bytes b) = b"
proof -
  have "FatFsInfo_bytes (FatFsInfo_of_bytes b) = pieces 0 [4, 480, 4, 4, 4, 12, 4] b"
    using assms by (simp add: FatFsInfo_bytes_def FatFsInfo_of_bytes_def Set_Read32)
  also have "\<dots> = b" using assms by (intro pieces_all) simp
  finally show ?thesis .
qed

lemmas FatSuper_setters = FatSuper_SetTotalSectorCount_def FatSuper_SetSectorsPerFat_def
  FatSuper_SetFsInfoIndex_def FatSuper_SetBackupIndex_def FatSuper_SetOEMName_def

lemma FatSuper_setters_wf:
  assumes "FatSuper_wf s"
  shows "FatSuper_wf (FatSuper_SetTotalSectorCount s n)" "FatSuper_wf (FatSuper_SetSectorsPerFat s n)"
    "FatSuper_wf (FatSuper_SetFsInfoIndex s i)" "FatSuper_wf (FatSuper_SetBackupIndex s i)"
    "FatSuper_wf (FatSuper_SetOEMName s name)"
  using assms by (simp_all add: FatSuper_setters FatSuper_wf_def)

lemma FatSuper_SetBootCode_wf:
  assumes "FatSuper_wf s" "n \<le> length data"
  shows "FatSuper_wf (FatSuper_SetBootCode s data n entry)"
  using assms
  by (simp add: FatSuper_SetBootCode_def introJump_SetEntryPoint_def FatSuper_wf_def Let_def)

subsection \<open>Clusters and sectors\<close>

text \<open>The first data sector, and the sector of a cluster, in unbounded arithmetic.\<close>

definition first_data_sector :: "FatSuper \<Rightarrow> nat" where
  "first_data_sector s = unat (FatSuper_ReservedSectors s) +
     unat (FatSuper_NumFats s) * unat (FatSuper_SectorsPerFat s)"

definition cluster_sector :: "FatSuper \<Rightarrow> nat \<Rightarrow> nat" where
  "cluster_sector s N = first_data_sector s + (N - 2) * unat (FatSuper_SectorsPerCluster s)"

lemma ClusterIndex2Sector_unat:
  assumes "cluster_sector s (unat N) < 2 ^ 32"
  shows "unat (FatSuper_ClusterIndex2Sector s N) = cluster_sector s (unat N)"
proof -
  let ?first = "ucast (FatSuper_ReservedSectors s) + FatSuper_NumFats s * FatSuper_SectorsPerFat s :: u32"
  have first: "?first = of_nat (first_data_sector s)"
    by (simp add: first_data_sector_def)
  show ?thesis
  proof (cases "N \<le> 2")
    case True
    then have "unat N - 2 = 0" by (simp add: word_le_nat_alt)
    with True first assms show ?thesis
      by (simp add: FatSuper_ClusterIndex2Sector_def Let_def cluster_sector_def)
  next
    case False
    then have N: "2 \<le> unat N" "N - 2 = of_nat (unat N - 2)" by (simp_all add: word_le_nat_alt)
    have "FatSuper_ClusterIndex2Sector s N = of_nat (cluster_sector s (unat N))"
      unfolding FatSuper_ClusterIndex2Sector_def Let_def first cluster_sector_def
      using False N by simp
    with assms show ?thesis by simp
  qed
qed

text \<open>
  Distinct clusters occupy disjoint sector ranges behind the reserved sectors and the FATs:
  where the sector numbers fit in 32 bits, \<^verbatim>\<open>ClusterIndex2Sector\<close> puts a later cluster at least
  one whole cluster behind an earlier one, and no cluster before the first data sector.
\<close>

theorem ClusterIndex2Sector_disjoint:
  assumes "2 \<le> M" and "M < N"
    and "first_data_sector s + (unat N - 2) * unat (FatSuper_SectorsPerCluster s) < 2 ^ 32"
  shows "first_data_sector s \<le> unat (FatSuper_ClusterIndex2Sector s M) \<and>
    unat (FatSuper_ClusterIndex2Sector s M) + unat (FatSuper_SectorsPerCluster s)
      \<le> unat (FatSuper_ClusterIndex2Sector s N)"
proof -
  let ?k = "unat (FatSuper_SectorsPerCluster s)"
  have lt: "2 \<le> unat M" "unat M < unat N" using assms(1,2) by (simp_all add: word_le_nat_alt word_less_nat_alt)
  have "(unat M - 2 + 1) * ?k \<le> (unat N - 2) * ?k" using lt by (intro mult_le_mono1) simp
  then have le: "cluster_sector s (unat M) + ?k \<le> cluster_sector s (unat N)"
    by (simp add: cluster_sector_def)
  have N: "cluster_sector s (unat N) < 2 ^ 32" using assms(3) by (simp add: cluster_sector_def)
  then have M: "cluster_sector s (unat M) < 2 ^ 32" using le by simp
  show ?thesis
    using le unfolding ClusterIndex2Sector_unat [OF N] ClusterIndex2Sector_unat [OF M]
    by (simp add: cluster_sector_def)
qed

definition example_super :: FatSuper where
  "example_super = \<lparr>fs_jump = 0xEB, fs_codeOffset = 0x58, fs_nop = 0x90,
     fs_oemName = replicate 8 32, fs_bytesPerSector = [0, 2], fs_sectorsPerCluster = 1,
     fs_numReservedSectors = [32, 0], fs_numFats = 2, fs_unused0 = [0, 0, 0, 0],
     fs_mediaDescriptor = 0xF8, fs_unused1 = [0, 0], fs_sectorsPerTrack = [63, 0],
     fs_headsPerDisk = [255, 0], fs_unused2 = [0, 0, 0, 0], fs_totalSectorCount = [0, 8, 0, 0],
     fs_sectorsPerFat = [9, 0, 0, 0], fs_mirrorFlags = [0, 0], fs_version = [0, 0],
     fs_rootDirIndex = [2, 0, 0, 0], fs_fsInfoIndex = [1, 0], fs_bootSecCopyIndex = [6, 0],
     fs_unused3 = replicate 12 0, fs_physDriveNum = 0x80, fs_wtf1 = [0],
     fs_extBootSignature = 0x29, fs_volumeId = [0, 0, 0, 0], fs_label = replicate 11 32,
     fs_fsName = replicate 8 32, fs_bootCode = replicate 420 0, fs_bootSignature = [0x55, 0xAA]\<rparr>"

lemma example_super_wf: "FatSuper_wf example_super"
  by (simp add: FatSuper_wf_def example_super_def)

lemma example_super_geometry:
  "FatSuper_SectorsPerCluster example_super = 1" "FatSuper_NumFats example_super = 2"
  "FatSuper_ReservedSectors example_super = 32" "FatSuper_SectorsPerFat example_super = 9"
  "FatSuper_BytesPerSector example_super = 512" "FatSuper_RootDirIndex example_super = 2"
  by (simp_all add: example_super_def FatSuper_SectorsPerCluster_def FatSuper_NumFats_def
      FatSuper_ReservedSectors_def FatSuper_SectorsPerFat_def FatSuper_BytesPerSector_def
      FatSuper_RootDirIndex_def) code_simp+

theorem ClusterIndex2Sector_disjoint_witness:
  "first_data_sector example_super \<le> unat (FatSuper_ClusterIndex2Sector example_super 5) \<and>
   unat (FatSuper_ClusterIndex2Sector example_super 5) + unat (FatSuper_SectorsPerCluster example_super)
     \<le> unat (FatSuper_ClusterIndex2Sector example_super 9)"
proof -
  have "first_data_sector example_super + (unat (9 :: u32) - 2) *
      unat (FatSuper_SectorsPerCluster example_super) < 2 ^ 32"
    by (simp add: first_data_sector_def example_super_geometry)
  then show ?thesis by (intro ClusterIndex2Sector_disjoint) simp_all
qed

text \<open>
  Installing boot code rewrites the super block's code area and the jump in front, and
  nothing else: the sector keeps its size, bytes 3 to 89 (all of the BPB) and the boot
  signature keep their values, the code starts at offset 90, and for entry points below 40 the
  short jump at offset 0 leads to the entry point inside that code.
\<close>

theorem SetBootCode_installs:
  assumes "FatSuper_wf s" and "n \<le> length data" and "entry < 40"
  shows "FatSuper_wf (FatSuper_SetBootCode s data n entry) \<and>
    subbytes 3 87 (FatSuper_bytes (FatSuper_SetBootCode s data n entry)) =
      subbytes 3 87 (FatSuper_bytes s) \<and>
    fs_bootSignature (FatSuper_SetBootCode s data n entry) = fs_bootSignature s \<and>
    subbytes 90 (min n 420) (FatSuper_bytes (FatSuper_SetBootCode s data n entry)) =
      take (min n 420) data \<and>
    fs_jump (FatSuper_SetBootCode s data n entry) = 0xEB \<and>
    2 + sint (fs_codeOffset (FatSuper_SetBootCode s data n entry)) = 90 + int entry"
proof -
  let ?t = "FatSuper_SetBootCode s data n entry"
  have wf: "FatSuper_wf ?t" using assms(1,2) by (rule FatSuper_SetBootCode_wf)
  have "subbytes 3 87 (FatSuper_bytes ?t) = subbytes 3 87 (FatSuper_bytes s)"
    using assms(1)
    by (simp add: FatSuper_SetBootCode_def introJump_SetEntryPoint_def FatSuper_bytes_def Let_def
        FatSuper_wf_def subbytes_def)
  moreover have "subbytes 90 (min n 420) (FatSuper_bytes ?t) = take (min n 420) data"
    using assms
    by (simp add: FatSuper_SetBootCode_def introJump_SetEntryPoint_def FatSuper_bytes_def Let_def
        FatSuper_wf_def subbytes_def overwrite_def)
  moreover have "sint (of_nat (88 + entry) :: u8) = 88 + int entry"
    using assms(3) by (simp add: signed_of_nat signed_take_bit_int_eq_self del: of_nat_add)
  then have "2 + sint (fs_codeOffset ?t) = 90 + int entry"
    using assms(3) by (simp add: FatSuper_SetBootCode_def introJump_SetEntryPoint_def Let_def min_def)
  ultimately show ?thesis
    using wf by (simp add: FatSuper_SetBootCode_def introJump_SetEntryPoint_def Let_def)
qed

theorem SetBootCode_installs_witness:
  "subbytes 90 2 (FatSuper_bytes (FatSuper_SetBootCode example_super [0x31, 0xC0] 2 0)) = [0x31, 0xC0] \<and>
   2 + sint (fs_codeOffset (FatSuper_SetBootCode example_super [0x31, 0xC0] 2 0)) = 90"
proof -
  show ?thesis using SetBootCode_installs [of example_super 2 "[0x31, 0xC0]" 0] example_super_wf by simp
qed

end
