(* ===== verification/Fat_Fs.thy ===== *)
theory Fat_Fs
  imports Block_Device Fat_Name Fat_Dirent Fat_Super
begin

text \<open>
  The read-only FAT32 driver of the second stage (\<^verbatim>\<open>include/fs/FatFs.h\<close>): one cached FAT
  sector, one cached data cluster, reading from files, searching directories and walking
  paths. The driver calls its block device through the operations of \<^verbatim>\<open>IBlockDevice\<close>, which
  are an argument of every function here; the lemmas about it are proved once for every block
  device that keeps the contract.
\<close>

subsection \<open>State\<close>

record FatFile =
  ff_cluster :: u32
  ff_size :: u32
  ff_flags :: u8

text \<open>The two windows are the heap blocks that the constructor allocates.\<close>

record 'd FatFs =
  blk :: 'd
  fatWindow :: bytes
  dataWindow :: bytes
  super :: FatSuper
  currentFatSector :: u32
  currentDataCluster :: u32

definition BytesPerCluster :: "'d IBlockDevice \<Rightarrow> 'd FatFs \<Rightarrow> u32" where
  "BytesPerCluster dev fs = FatSuper_SectorsPerCluster (super fs) * ucast (SectorSize_op dev (blk fs))"

text \<open>The constructor; \<^verbatim>\<open>window1\<close> and \<^verbatim>\<open>window2\<close> are the blocks the allocator hands out.\<close>

definition FatFs_new :: "'d \<Rightarrow> FatSuper \<Rightarrow> bytes \<Rightarrow> bytes \<Rightarrow> 'd FatFs" where
  "FatFs_new d fsSuper window1 window2 = \<lparr>blk = d, fatWindow = window1, dataWindow = window2,
     super = fsSuper, currentFatSector = 0xFFFFFFFF, currentDataCluster = 0xFFFFFFFF\<rparr>"

definition RootDir :: "'d FatFs \<Rightarrow> FatFile" where
  "RootDir fs = \<lparr>ff_cluster = FatSuper_RootDirIndex (super fs), ff_size = 0,
     ff_flags = FlagField_Set (FlagField_ClearAll (0 :: u8)) Flags_Directory\<rparr>"

subsection \<open>Windows\<close>

fun LoadDataCluster_loop ::
    "'d IBlockDevice \<Rightarrow> u32 \<Rightarrow> nat \<Rightarrow> nat \<Rightarrow> 'd FatFs \<Rightarrow> bool \<times> 'd FatFs" where
  "LoadDataCluster_loop dev lba i 0 fs = (True, fs)"
| "LoadDataCluster_loop dev lba i (Suc n) fs =
     (let ss = unat (SectorSize_op dev (blk fs));
          (ok, buf, d) = LoadSector_op dev (blk fs) (lba + of_nat i) (subbytes (i * ss) ss (dataWindow fs));
          fs' = fs\<lparr>blk := d, dataWindow := overwrite (i * ss) buf (dataWindow fs)\<rparr>
      in if \<not> ok then (False, fs') else LoadDataCluster_loop dev lba (Suc i) n fs')"

definition LoadDataCluster :: "'d IBlockDevice \<Rightarrow> 'd FatFs \<Rightarrow> u32 \<Rightarrow> bool \<times> 'd FatFs" where
  "LoadDataCluster dev fs index =
     (if index < 2 then (False, fs)
      else if index = currentDataCluster fs then (True, fs)
      else
        let lba = FatSuper_ClusterIndex2Sector (super fs) index;
            (ok, fs') = LoadDataCluster_loop dev lba 0 (unat (FatSuper_SectorsPerCluster (super fs))) fs
        in if \<not> ok then (False, fs') else (True, fs'\<lparr>currentDataCluster := index\<rparr>))"

definition LoadFatSector :: "'d IBlockDevice \<Rightarrow> 'd FatFs \<Rightarrow> u32 \<Rightarrow> bool \<times> 'd FatFs" where
  "LoadFatSector dev fs index =
     (if index \<ge> FatSuper_SectorsPerFat (super fs) then (False, fs)
      else if index \<noteq> currentFatSector fs then
        let lba = ucast (FatSuper_ReservedSectors (super fs)) + index;
            (ok, buf, d) = LoadSector_op dev (blk fs) lba (fatWindow fs);
            fs' = fs\<lparr>blk := d, fatWindow := buf\<rparr>
        in if \<not> ok then (False, fs') else (True, fs'\<lparr>currentFatSector := index\<rparr>)
      else (True, fs))"

text \<open>The entry is read as a 32 bit little endian word of the window; \<^verbatim>\<open>None\<close> reports failure.\<close>

definition word_in :: "bytes \<Rightarrow> nat \<Rightarrow> u32" where
  "word_in w off = le32 (w ! off) (w ! (off + 1)) (w ! (off + 2)) (w ! (off + 3))"

definition ReadFatIndex :: "'d IBlockDevice \<Rightarrow> 'd FatFs \<Rightarrow> u32 \<Rightarrow> u32 option \<times> 'd FatFs" where
  "ReadFatIndex dev fs index =
     (let ss = ucast (SectorSize_op dev (blk fs));
          sector = (index * 4) div ss;
          offset = (index * 4) mod ss;
          (ok, fs') = LoadFatSector dev fs sector
      in if \<not> ok then (None, fs') else (Some (word_in (fatWindow fs') (unat offset)), fs'))"

subsection \<open>Reading a file\<close>

text \<open>
  One round of the loop of \<^verbatim>\<open>ReadAt\<close> up to the step along the chain. The caller's buffer is the
  list of bytes stored so far; the state of the loop is the offset, the remaining size, the
  count and the bytes.
\<close>

definition ReadAt_round ::
    "'d IBlockDevice \<Rightarrow> 'd FatFs \<Rightarrow> u32 \<Rightarrow> u32 \<Rightarrow> u32 \<Rightarrow> u32 \<Rightarrow> bytes \<Rightarrow>
     bool \<times> 'd FatFs \<times> u32 \<times> u32 \<times> u32 \<times> bytes" where
  "ReadAt_round dev fs cluster offset sz ret out =
     (if offset < BytesPerCluster dev fs then
        let (ok, fs1) = LoadDataCluster dev fs cluster
        in if \<not> ok then (False, fs1, offset, sz, ret, out)
           else
             let diff0 = BytesPerCluster dev fs1 - offset;
                 diff = (if diff0 > sz then sz else diff0)
             in (True, fs1, 0, sz - diff, ret + diff,
                 out @ map (\<lambda>i. dataWindow fs1 ! (unat offset + i)) [0 ..< unat diff])
      else (True, fs, offset - BytesPerCluster dev fs, sz, ret, out))"

partial_function (option) ReadAt_loop ::
    "'d IBlockDevice \<Rightarrow> 'd FatFs \<Rightarrow> u32 \<Rightarrow> u32 \<Rightarrow> u32 \<Rightarrow> u32 \<Rightarrow> bytes \<Rightarrow>
     (u32 \<times> bytes \<times> 'd FatFs) option" where
  "ReadAt_loop dev fs cluster offset sz ret out =
     (if 0 < sz \<and> cluster < 0x0FFFFFF0 then
        (case ReadAt_round dev fs cluster offset sz ret out of
           (ok, fs1, offset1, sz1, ret1, out1) \<Rightarrow>
             if \<not> ok then Some (-1, out1, fs1)
             else if 0 < sz1 then
               (case ReadFatIndex dev fs1 cluster of
                  (None, fs2) \<Rightarrow> Some (-1, out1, fs2)
                | (Some next, fs2) \<Rightarrow> ReadAt_loop dev fs2 next offset1 sz1 ret1 out1)
             else ReadAt_loop dev fs1 cluster offset1 sz1 ret1 out1)
      else Some (ret, out, fs))"

definition ReadAt ::
    "'d IBlockDevice \<Rightarrow> 'd FatFs \<Rightarrow> FatFile \<Rightarrow> u32 \<Rightarrow> u32 \<Rightarrow> (u32 \<times> bytes \<times> 'd FatFs) option" where
  "ReadAt dev fs finfo offset sz =
     (if ff_size finfo > 0 \<and> offset \<ge> ff_size finfo then Some (0, [], fs)
      else
        let sz1 = (if ff_size finfo > 0 \<and> sz > ff_size finfo - offset
                     then ff_size finfo - offset else sz)
        in ReadAt_loop dev fs (ff_cluster finfo) offset sz1 0 [])"

subsection \<open>Directories\<close>

datatype FindResult = Ok | NameInvalid | IOError | NoEntry | NotDir

text \<open>
  The scan over the entries of one cluster: \<^verbatim>\<open>None\<close> goes on to the next cluster, \<^verbatim>\<open>Some None\<close>
  is the end-of-list mark, \<^verbatim>\<open>Some (Some e)\<close> a hit. The name buffer is a local array that
  \<^verbatim>\<open>NameToString\<close> leaves alone when it returns false, and whose initial contents, \<^verbatim>\<open>junk\<close>, are
  then compared.
\<close>

definition entry_name :: "bytes \<Rightarrow> FatDirent \<Rightarrow> bytes" where
  "entry_name junk e = (case FatDirent_NameToString e junk of None \<Rightarrow> junk | Some (_, buffer) \<Rightarrow> buffer)"

definition entS :: "bytes \<Rightarrow> nat \<Rightarrow> FatDirent" where
  "entS window i = FatDirent_of_bytes (subbytes (32 * i) 32 window)"

fun FindInDirectory_scan ::
    "bytes \<Rightarrow> bytes \<Rightarrow> bytes \<Rightarrow> nat \<Rightarrow> nat \<Rightarrow> FatDirent option option" where
  "FindInDirectory_scan junk name window i 0 = None"
| "FindInDirectory_scan junk name window i (Suc n) =
     (let e = entS window i in
      if FatDirent_IsLastInList e then Some None
      else if FlagField_IsSet (FatDirent_EntryFlags e) Flags_LongFileName
      then FindInDirectory_scan junk name window (Suc i) n
      else if FatDirent_IsDummiedOut e then FindInDirectory_scan junk name window (Suc i) n
      else if StrEqual (entry_name junk e) name then Some (Some e)
      else FindInDirectory_scan junk name window (Suc i) n)"

definition file_of_entry :: "FatDirent \<Rightarrow> FatFile" where
  "file_of_entry e = \<lparr>ff_cluster = FatDirent_ClusterIndex e, ff_size = FatDirent_Size e,
     ff_flags = FatDirent_EntryFlags e\<rparr>"

partial_function (option) FindInDirectory_loop ::
    "'d IBlockDevice \<Rightarrow> bytes \<Rightarrow> 'd FatFs \<Rightarrow> bytes \<Rightarrow> u32 \<Rightarrow> FatFile \<Rightarrow>
     (FindResult \<times> FatFile \<times> 'd FatFs) option" where
  "FindInDirectory_loop dev junk fs name index out =
     (if index < 0x0FFFFFF0 then
        (case LoadDataCluster dev fs index of
           (ok, fs1) \<Rightarrow> if \<not> ok then Some (IOError, out, fs1)
           else
             (case ReadFatIndex dev fs1 index of
                (None, fs2) \<Rightarrow> Some (IOError, out, fs2)
              | (Some next, fs2) \<Rightarrow>
                  (case FindInDirectory_scan junk name (dataWindow fs2) 0
                          (unat (BytesPerCluster dev fs2) div 32) of
                     None \<Rightarrow> FindInDirectory_loop dev junk fs2 name next out
                   | Some None \<Rightarrow> Some (NoEntry, out, fs2)
                   | Some (Some e) \<Rightarrow> Some (Ok, file_of_entry e, fs2))))
      else Some (NoEntry, out, fs))"

definition FindInDirectory ::
    "'d IBlockDevice \<Rightarrow> bytes \<Rightarrow> 'd FatFs \<Rightarrow> FatFile \<Rightarrow> bytes \<Rightarrow> FatFile \<Rightarrow>
     (FindResult \<times> FatFile \<times> 'd FatFs) option" where
  "FindInDirectory dev junk fs dir name out =
     (if \<not> IsShortName name then Some (NameInvalid, out, fs)
      else if \<not> FlagField_IsSet (ff_flags dir) Flags_Directory then Some (NotDir, out, fs)
      else FindInDirectory_loop dev junk fs name (ff_cluster dir) out)"

subsection \<open>Paths\<close>

definition is_sep :: "u8 \<Rightarrow> bool" where
  "is_sep c \<longleftrightarrow> c = 47 \<or> c = 92"

text \<open>Copying one component: at most 12 characters, else the name is refused.\<close>

fun path_component :: "nat \<Rightarrow> bytes \<Rightarrow> (bytes \<times> bytes) option" where
  "path_component count [] = Some ([], [])"
| "path_component count (c # cs) =
     (if c \<noteq> 0 \<and> \<not> is_sep c then
        (if count \<ge> 8 + 1 + 3 then None
         else map_option (\<lambda>(comp, rest). (c # comp, rest)) (path_component (Suc count) cs))
      else Some ([], c # cs))"

partial_function (option) FindByPath_loop ::
    "'d IBlockDevice \<Rightarrow> bytes \<Rightarrow> 'd FatFs \<Rightarrow> bytes \<Rightarrow> FatFile \<Rightarrow>
     (FindResult \<times> FatFile \<times> 'd FatFs) option" where
  "FindByPath_loop dev junk fs name out =
     (if name = [] \<or> hd name = 0 then Some (Ok, out, fs)
      else if is_sep (hd name) then FindByPath_loop dev junk fs (dropWhile is_sep name) out
      else
        (case path_component 0 name of
           None \<Rightarrow> Some (NameInvalid, out, fs)
         | Some (name8_3, rest) \<Rightarrow>
             (case FindInDirectory dev junk fs out name8_3 out of
                None \<Rightarrow> None
              | Some (ret, out1, fs1) \<Rightarrow>
                  if ret \<noteq> Ok then Some (ret, out1, fs1)
                  else FindByPath_loop dev junk fs1 rest out1)))"

definition FindByPath ::
    "'d IBlockDevice \<Rightarrow> bytes \<Rightarrow> 'd FatFs \<Rightarrow> bytes \<Rightarrow> (FindResult \<times> FatFile \<times> 'd FatFs) option" where
  "FindByPath dev junk fs name = FindByPath_loop dev junk fs name (RootDir fs)"

end
