(* ===== verification/Partition.thy ===== *)
theory Partition
  imports Basic_Types
begin

text \<open>
  Packed cylinder/head/sector addresses, MBR partition entries and the partition table
  (\<^verbatim>\<open>include/part/CHSPacked.h\<close>, \<^verbatim>\<open>MBREntry.h\<close>, \<^verbatim>\<open>MBRTable.h\<close>).
\<close>

subsection \<open>CHSPacked\<close>

record CHSPacked =
  chs_lo :: u8
  chs_mid :: u8
  chs_hi :: u8

definition CHSPacked_new :: CHSPacked where
  "CHSPacked_new = \<lparr>chs_lo = 0, chs_mid = 0, chs_hi = 0\<rparr>"

definition CHSPacked_Head :: "CHSPacked \<Rightarrow> u8" where
  "CHSPacked_Head c = chs_lo c"

definition CHSPacked_SetHead :: "CHSPacked \<Rightarrow> u8 \<Rightarrow> CHSPacked" where
  "CHSPacked_SetHead c v = c\<lparr>chs_lo := v\<rparr>"

definition CHSPacked_Sector :: "CHSPacked \<Rightarrow> u8" where
  "CHSPacked_Sector c = chs_mid c AND 0x3F"

definition CHSPacked_SetSector :: "CHSPacked \<Rightarrow> u8 \<Rightarrow> CHSPacked" where
  "CHSPacked_SetSector c v = c\<lparr>chs_mid := (chs_mid c AND 0xC0) OR (v AND 0x3F)\<rparr>"

definition CHSPacked_Cylinder :: "CHSPacked \<Rightarrow> u16" where
  "CHSPacked_Cylinder c = push_bit 2 (ucast (chs_mid c AND 0xC0)) OR ucast (chs_hi c)"

definition CHSPacked_SetCylinder :: "CHSPacked \<Rightarrow> u16 \<Rightarrow> CHSPacked" where
  "CHSPacked_SetCylinder c v = c\<lparr>chs_mid := (chs_mid c AND 0x3F) OR ucast (drop_bit 2 v AND 0xC0),
     chs_hi := ucast (v AND 0xFF)\<rparr>"

definition CHSPacked_of_bytes :: "bytes \<Rightarrow> CHSPacked" where
  "CHSPacked_of_bytes b = \<lparr>chs_lo = b ! 0, chs_mid = b ! 1, chs_hi = b ! 2\<rparr>"

lemmas CHSPacked_defs = CHSPacked_Head_def CHSPacked_SetHead_def CHSPacked_Sector_def
  CHSPacked_SetSector_def CHSPacked_Cylinder_def CHSPacked_SetCylinder_def

text \<open>Six bits of sector, ten of cylinder: what the setters store the getters return.\<close>

lemma numeral_masks:
  "bit (0x3F :: int) i \<longleftrightarrow> i < 6" "bit (0xC0 :: int) i \<longleftrightarrow> i = 6 \<or> i = 7"
  "bit (0xFF :: int) i \<longleftrightarrow> i < 8" "bit (0x300 :: int) i \<longleftrightarrow> i = 8 \<or> i = 9"
  "bit (0x80 :: int) i \<longleftrightarrow> i = 7" "bit (0x200 :: int) i \<longleftrightarrow> i = 9"
proof -
  have n: "(0x3F :: int) = mask 6" "(0xFF :: int) = mask 8" "(0xC0 :: int) = push_bit 6 (mask 2)"
    "(0x300 :: int) = push_bit 8 (mask 2)" "(0x80 :: int) = push_bit 7 (mask 1)"
    "(0x200 :: int) = push_bit 9 (mask 1)"
    by (simp_all add: mask_eq_exp_minus_1 push_bit_eq_mult)
  show "bit (0x3F :: int) i \<longleftrightarrow> i < 6" unfolding n by (simp add: bit_mask_iff)
  show "bit (0xFF :: int) i \<longleftrightarrow> i < 8" unfolding n by (simp add: bit_mask_iff)
  show "bit (0xC0 :: int) i \<longleftrightarrow> i = 6 \<or> i = 7"
    unfolding n by (simp only: bit_push_bit_iff_int bit_mask_iff) auto
  show "bit (0x300 :: int) i \<longleftrightarrow> i = 8 \<or> i = 9"
    unfolding n by (simp only: bit_push_bit_iff_int bit_mask_iff) auto
  show "bit (0x80 :: int) i \<longleftrightarrow> i = 7"
    unfolding n by (simp only: bit_push_bit_iff_int bit_mask_iff) auto
  show "bit (0x200 :: int) i \<longleftrightarrow> i = 9"
    unfolding n by (simp only: bit_push_bit_iff_int bit_mask_iff) auto
qed

lemma CHSPacked_Sector_SetSector [simp]:
  "CHSPacked_Sector (CHSPacked_SetSector c v) = v AND 0x3F"
  by (rule bit_word_eqI) (auto simp: CHSPacked_defs bit_simps numeral_masks)

lemma CHSPacked_Sector_SetCylinder [simp]:
  "CHSPacked_Sector (CHSPacked_SetCylinder c v) = CHSPacked_Sector c"
  by (rule bit_word_eqI) (auto simp: CHSPacked_defs bit_simps numeral_masks)

lemma CHSPacked_Cylinder_SetCylinder [simp]:
  "CHSPacked_Cylinder (CHSPacked_SetCylinder c v) = take_bit 10 v"
  apply (rule bit_word_eqI)
  subgoal for n
    by (cases "n < 8"; cases "n = 8"; cases "n = 9")
      (auto simp: CHSPacked_defs bit_simps numeral_masks)
  done

lemma CHSPacked_Cylinder_SetSector [simp]:
  "CHSPacked_Cylinder (CHSPacked_SetSector c v) = CHSPacked_Cylinder c"
  by (rule bit_word_eqI) (auto simp: CHSPacked_defs bit_simps numeral_masks)

lemma CHSPacked_Head_simps [simp]:
  "CHSPacked_Head (CHSPacked_SetHead c v) = v"
  "CHSPacked_Head (CHSPacked_SetSector c w) = CHSPacked_Head c"
  "CHSPacked_Head (CHSPacked_SetCylinder c x) = CHSPacked_Head c"
  "CHSPacked_Sector (CHSPacked_SetHead c v) = CHSPacked_Sector c"
  "CHSPacked_Cylinder (CHSPacked_SetHead c v) = CHSPacked_Cylinder c"
  by (simp_all add: CHSPacked_defs)

text \<open>Head, cylinder and sector are all there is to an address.\<close>

lemma CHSPacked_eqI:
  assumes "CHSPacked_Head a = CHSPacked_Head b" "CHSPacked_Sector a = CHSPacked_Sector b"
    "CHSPacked_Cylinder a = CHSPacked_Cylinder b"
  shows "a = (b :: CHSPacked)"
proof -
  have cyl: "bit (CHSPacked_Cylinder c) n \<longleftrightarrow> (n = 8 \<and> bit (chs_mid c) 6) \<or>
      (n = 9 \<and> bit (chs_mid c) 7) \<or> (n < 8 \<and> bit (chs_hi c) n)" for c n
    by (auto simp: CHSPacked_Cylinder_def bit_simps numeral_masks dest: bit_u8)
  have "bit (chs_hi a) n = bit (chs_hi b) n" if "n < 8" for n
    using assms(3) cyl [of a n] cyl [of b n] that by auto
  then have hi: "chs_hi a = chs_hi b" by (intro bit_word_eqI) simp
  have sec: "bit (CHSPacked_Sector c) n \<longleftrightarrow> n < 6 \<and> bit (chs_mid c) n" for c n
    by (auto simp: CHSPacked_Sector_def bit_simps numeral_masks)
  have "bit (chs_mid a) n = bit (chs_mid b) n" if n8: "n < 8" for n
  proof -
    consider "n < 6" | "n = 6" | "n = 7" using n8 by linarith
    then show ?thesis
      using assms(2,3) cyl [of a 8] cyl [of b 8] cyl [of a 9] cyl [of b 9] sec [of a n] sec [of b n]
      by cases auto
  qed
  then have "chs_mid a = chs_mid b" by (intro bit_word_eqI) simp
  with assms(1) hi show ?thesis by (simp add: CHSPacked_Head_def)
qed

subsection \<open>MBREntry and MBRTable\<close>

definition Attribute_Bootable :: u8 where
  "Attribute_Bootable = 0x80"

record MBREntry =
  mbr_attrib :: u8
  mbr_chsStart :: CHSPacked
  mbr_type :: u8
  mbr_chsEnd :: CHSPacked
  mbr_lbaStart :: bytes
  mbr_sectorCount :: bytes

definition MBREntry_of_bytes :: "bytes \<Rightarrow> MBREntry" where
  "MBREntry_of_bytes b = \<lparr>mbr_attrib = b ! 0, mbr_chsStart = CHSPacked_of_bytes (subbytes 1 3 b),
     mbr_type = b ! 4, mbr_chsEnd = CHSPacked_of_bytes (subbytes 5 3 b),
     mbr_lbaStart = subbytes 8 4 b, mbr_sectorCount = subbytes 12 4 b\<rparr>"

definition CHSPacked_bytes :: "CHSPacked \<Rightarrow> bytes" where
  "CHSPacked_bytes c = [chs_lo c, chs_mid c, chs_hi c]"

definition MBREntry_bytes :: "MBREntry \<Rightarrow> bytes" where
  "MBREntry_bytes e = [mbr_attrib e] @ CHSPacked_bytes (mbr_chsStart e) @ [mbr_type e] @
     CHSPacked_bytes (mbr_chsEnd e) @ mbr_lbaStart e @ mbr_sectorCount e"

definition MBREntry_wf :: "MBREntry \<Rightarrow> bool" where
  "MBREntry_wf e \<longleftrightarrow> length (mbr_lbaStart e) = 4 \<and> length (mbr_sectorCount e) = 4"

definition MBREntry_IsBootable :: "MBREntry \<Rightarrow> bool" where
  "MBREntry_IsBootable e = FlagField_IsSet (mbr_attrib e) Attribute_Bootable"

definition MBREntry_StartAddressCHS :: "MBREntry \<Rightarrow> CHSPacked" where
  "MBREntry_StartAddressCHS e = mbr_chsStart e"

definition MBREntry_StartAddressLBA :: "MBREntry \<Rightarrow> u32" where
  "MBREntry_StartAddressLBA e = UnalignedInt_Read32 (mbr_lbaStart e)"

text \<open>The table at the end of the boot sector: four entries of 16 bytes and the magic number.\<close>

record MBRTable =
  entries :: "MBREntry list"
  magic :: u16

definition MBRTable_of_bytes :: "bytes \<Rightarrow> MBRTable" where
  "MBRTable_of_bytes b = \<lparr>entries = map (\<lambda>i. MBREntry_of_bytes (subbytes (16 * i) 16 b)) [0 ..< 4],
     magic = UnalignedInt_Read16 (subbytes 64 2 b)\<rparr>"

lemma length_entries_of_bytes [simp]: "length (entries (MBRTable_of_bytes b)) = 4"
  by (simp add: MBRTable_of_bytes_def)

lemma IsBootable_iff_top_bit: "MBREntry_IsBootable e \<longleftrightarrow> bit (mbr_attrib e) 7"
proof -
  have "flags_of Attribute_Bootable = {7}"
    by (auto simp: flags_of_def Attribute_Bootable_def bit_simps numeral_masks)
  then show ?thesis
    by (simp add: MBREntry_IsBootable_def IsSet_iff_subset flags_of_def)
qed

lemma length_MBREntry_bytes [simp]: "MBREntry_wf e \<Longrightarrow> length (MBREntry_bytes e) = 16"
  by (simp add: MBREntry_bytes_def MBREntry_wf_def CHSPacked_bytes_def)

lemma MBREntry_of_bytes_bytes: "MBREntry_wf e \<Longrightarrow> MBREntry_of_bytes (MBREntry_bytes e) = e"
  by (simp add: MBREntry_of_bytes_def MBREntry_bytes_def CHSPacked_bytes_def CHSPacked_of_bytes_def
      MBREntry_wf_def subbytes_def nth_append)

lemma MBREntry_of_bytes_wf: "length b = 16 \<Longrightarrow> MBREntry_wf (MBREntry_of_bytes b)"
  by (simp add: MBREntry_wf_def MBREntry_of_bytes_def)

end
