(* ===== verification/Bios_Disk.thy ===== *)
theory Bios_Disk
  imports Partition Block_Device
begin

text \<open>
  The BIOS disk services (\<^verbatim>\<open>include/BIOS/BiosDisk.h\<close>) and the block device on top of them
  (\<^verbatim>\<open>include/BIOS/BIOSBlockDevice.h\<close>). INT 13h is firmware: it is a function of the time of
  the call, the registers AX, CX and DX and the buffer, kept in a record with the geometry and the
  medium of every drive, and what its documentation promises is the predicate \<^verbatim>\<open>int13_documented\<close>.
\<close>

subsection \<open>The firmware\<close>

record Bios =
  bios_now :: nat
  bios_int13 :: "nat \<Rightarrow> u16 \<Rightarrow> u16 \<Rightarrow> u16 \<Rightarrow> bytes \<Rightarrow> bool \<times> u16 \<times> u16 \<times> bytes"
  bios_cylinders :: "u8 \<Rightarrow> nat"
  bios_heads :: "u8 \<Rightarrow> nat"
  bios_sectors :: "u8 \<Rightarrow> nat"
  bios_medium :: "u8 \<Rightarrow> nat \<Rightarrow> nat \<Rightarrow> nat \<Rightarrow> bytes"

definition int13 :: "Bios \<Rightarrow> u16 \<Rightarrow> u16 \<Rightarrow> u16 \<Rightarrow> bytes \<Rightarrow> (bool \<times> u16 \<times> u16 \<times> bytes) \<times> Bios" where
  "int13 b ax cx dx buf = (bios_int13 b (bios_now b) ax cx dx buf, b\<lparr>bios_now := Suc (bios_now b)\<rparr>)"

text \<open>How the registers encode an address: CH and the top of CL the cylinder, DH the head, DL the drive.\<close>

definition reg_drive :: "u16 \<Rightarrow> u8" where
  "reg_drive dx = ucast dx"

definition reg_cylinder :: "u16 \<Rightarrow> nat" where
  "reg_cylinder cx = unat (drop_bit 8 cx OR push_bit 2 (cx AND 0xC0))"

definition reg_sector :: "u16 \<Rightarrow> nat" where
  "reg_sector cx = unat (cx AND 0x3F)"

definition reg_head :: "u16 \<Rightarrow> nat" where
  "reg_head dx = unat (drop_bit 8 dx)"

text \<open>
  Function 02h: never writes past the buffer, and with the carry flag clear the buffer holds
  the sectors of one track of the drive in DL starting at the address in CX and DH. Function 08h: with
  the carry flag clear CX and DH hold the last cylinder, the sectors per track and the last head of
  the drive in DL.
\<close>

definition int13_in_buffer :: "Bios \<Rightarrow> bool" where
  "int13_in_buffer b \<longleftrightarrow>
     (\<forall>t ax cx dx buf. length (snd (snd (snd (bios_int13 b t ax cx dx buf)))) = length buf)"

definition int13_reads :: "Bios \<Rightarrow> bool" where
  "int13_reads b \<longleftrightarrow> (\<forall>t count cx dx buf.
     \<not> fst (bios_int13 b t (0x0200 OR ucast (count :: u8)) cx dx buf) \<longrightarrow>
     length buf = 512 * unat count \<longrightarrow>
     snd (snd (snd (bios_int13 b t (0x0200 OR ucast count) cx dx buf))) =
       concat (map (\<lambda>k. bios_medium b (reg_drive dx) (reg_cylinder cx) (reg_head dx) (reg_sector cx + k))
         [0 ..< unat count]))"

definition int13_reports :: "Bios \<Rightarrow> bool" where
  "int13_reports b \<longleftrightarrow> (\<forall>t cx dx. \<not> fst (bios_int13 b t 0x0800 cx dx []) \<longrightarrow>
     (let (_, cx', dx', _) = bios_int13 b t 0x0800 cx dx []
      in reg_cylinder cx' = bios_cylinders b (reg_drive dx) - 1 \<and> reg_sector cx' = bios_sectors b (reg_drive dx) \<and>
         reg_head dx' = bios_heads b (reg_drive dx) - 1))"

definition medium_ok :: "Bios \<Rightarrow> bool" where
  "medium_ok b \<longleftrightarrow> (\<forall>drive.
     0 < bios_cylinders b drive \<and> bios_cylinders b drive \<le> 1024 \<and> 0 < bios_heads b drive \<and> bios_heads b drive \<le> 256 \<and>
     0 < bios_sectors b drive \<and> bios_sectors b drive \<le> 63 \<and>
     (\<forall>c h s. length (bios_medium b drive c h s) = 512))"

definition int13_documented :: "Bios \<Rightarrow> bool" where
  "int13_documented b \<longleftrightarrow> medium_ok b \<and> int13_in_buffer b \<and> int13_reads b \<and> int13_reports b"

subsection \<open>BiosDisk\<close>

text \<open>\<^verbatim>\<open>sbb error,error\<close> turns the carry flag into 0 or -1.\<close>

definition BiosDisk_Reset :: "u8 \<Rightarrow> Bios \<Rightarrow> bool \<times> Bios" where
  "BiosDisk_Reset driveNum b =
     (let ((cf, _, _, _), b') = int13 b 0 0 (ucast driveNum) [] in (\<not> cf, b'))"

definition BiosDisk_LoadSectors :: "u8 \<Rightarrow> Bios \<Rightarrow> CHSPacked \<Rightarrow> bytes \<Rightarrow> u8 \<Rightarrow> bool \<times> bytes \<times> Bios" where
  "BiosDisk_LoadSectors driveNum b source out count =
     (let dx = push_bit 8 (ucast (CHSPacked_Head source)) OR ucast driveNum;
          cx = push_bit 8 (CHSPacked_Cylinder source) OR
               drop_bit 2 (CHSPacked_Cylinder source AND 0x0300) OR
               ucast (CHSPacked_Sector source);
          ((cf, _, _, out'), b') = int13 b (0x0200 OR ucast count) cx dx out
      in (\<not> cf, out', b'))"

record DriveGeometry =
  cylinders :: u16
  headsPerCylinder :: u16
  sectorsPerTrack :: u16

text \<open>
  The divisions trap on the machine for a geometry with a zero; here they return 0, and what
  is proved about them assumes a geometry without one.
\<close>

definition LBA2CHS :: "DriveGeometry \<Rightarrow> u32 \<Rightarrow> CHSPacked" where
  "LBA2CHS g lba =
     (let out0 = CHSPacked_new;
          out1 = CHSPacked_SetCylinder out0
            (ucast (lba div (ucast (headsPerCylinder g) * ucast (sectorsPerTrack g))));
          out2 = CHSPacked_SetHead out1
            (ucast ((lba div ucast (sectorsPerTrack g)) mod ucast (headsPerCylinder g)));
          out3 = CHSPacked_SetSector out2 (ucast (lba mod ucast (sectorsPerTrack g) + 1))
      in out3)"

definition BiosDisk_ReadDriveParameters ::
    "u8 \<Rightarrow> Bios \<Rightarrow> DriveGeometry \<Rightarrow> bool \<times> DriveGeometry \<times> Bios" where
  "BiosDisk_ReadDriveParameters driveNum b out =
     (let ((cf, cxOut, dxOut, _), b') = int13 b 0x0800 0 (ucast driveNum) []
      in if cf then (False, out, b')
         else (True,
           out\<lparr>cylinders := (push_bit 2 (cxOut AND 0x0C0) OR (drop_bit 8 cxOut AND 0x0FF)) + 1,
               sectorsPerTrack := cxOut AND 0x3F,
               headsPerCylinder := (drop_bit 8 dxOut AND 0x0FF) + 1\<rparr>, b'))"

subsection \<open>BIOSBlockDevice\<close>

record BIOSBlockDevice =
  bb_isInitialized :: bool
  bb_geometry :: DriveGeometry
  bb_partStart :: u32
  bb_disk :: u8
  bb_bios :: Bios

text \<open>The constructor; \<^verbatim>\<open>geometry0\<close> and \<^verbatim>\<open>partStart0\<close> are what the uninitialised members hold.\<close>

definition BIOSBlockDevice_new ::
    "DriveGeometry \<Rightarrow> u32 \<Rightarrow> Bios \<Rightarrow> u8 \<Rightarrow> u32 \<Rightarrow> BIOSBlockDevice" where
  "BIOSBlockDevice_new geometry0 partStart0 b disk offset =
     (let (ok, geo, b') = BiosDisk_ReadDriveParameters disk b geometry0
      in if \<not> ok
         then \<lparr>bb_isInitialized = False, bb_geometry = geo, bb_partStart = partStart0,
               bb_disk = 0, bb_bios = b'\<rparr>
         else \<lparr>bb_isInitialized = True, bb_geometry = geo, bb_partStart = offset,
               bb_disk = disk, bb_bios = b'\<rparr>)"

definition BIOSBlockDevice_LoadSector ::
    "BIOSBlockDevice \<Rightarrow> u32 \<Rightarrow> bytes \<Rightarrow> bool \<times> bytes \<times> BIOSBlockDevice" where
  "BIOSBlockDevice_LoadSector d index buffer =
     (let chs = LBA2CHS (bb_geometry d) (bb_partStart d + index);
          (ok, buffer', b') = BiosDisk_LoadSectors (bb_disk d) (bb_bios d) chs buffer 1
      in (ok, buffer', d\<lparr>bb_bios := b'\<rparr>))"

definition BIOSBlockDevice_SectorSize :: "BIOSBlockDevice \<Rightarrow> u16" where
  "BIOSBlockDevice_SectorSize d = 512"

definition BIOSBlockDevice_DriveGeometry :: "BIOSBlockDevice \<Rightarrow> DriveGeometry" where
  "BIOSBlockDevice_DriveGeometry d = bb_geometry d"

definition BIOSBlockDevice_IsInitialized :: "BIOSBlockDevice \<Rightarrow> bool" where
  "BIOSBlockDevice_IsInitialized d = bb_isInitialized d"

definition BIOS_ops :: "BIOSBlockDevice IBlockDevice" where
  "BIOS_ops = \<lparr>LoadSector_op = BIOSBlockDevice_LoadSector,
               SectorSize_op = BIOSBlockDevice_SectorSize\<rparr>"

subsection \<open>Register packing\<close>

text \<open>What \<^verbatim>\<open>LoadSectors\<close> puts into CX and DX is the address that was asked for.\<close>

lemma Cylinder_bit_high: "bit (CHSPacked_Cylinder c) n \<Longrightarrow> n < 10"
  by (auto simp: CHSPacked_Cylinder_def bit_simps numeral_masks dest: bit_u8)

lemma reg_cylinder_packed:
  "reg_cylinder (push_bit 8 (CHSPacked_Cylinder c) OR drop_bit 2 (CHSPacked_Cylinder c AND 0x0300) OR
     ucast (CHSPacked_Sector c)) = unat (CHSPacked_Cylinder c)"
proof -
  let ?y = "CHSPacked_Cylinder c"
  let ?cx = "push_bit 8 ?y OR drop_bit 2 (?y AND 0x0300) OR ucast (CHSPacked_Sector c)"
  have "drop_bit 8 ?cx OR push_bit 2 (?cx AND 0xC0) = ?y"
  proof (rule bit_word_eqI)
    fix n assume "n < LENGTH(16)"
    then consider "n < 8" | "n = 8" | "n = 9" | "10 \<le> n" "n < 16" by force
    then show "bit (drop_bit 8 ?cx OR push_bit 2 (?cx AND 0xC0)) n \<longleftrightarrow> bit ?y n"
      by cases (auto simp: bit_simps numeral_masks CHSPacked_Sector_def dest: Cylinder_bit_high)
  qed
  then show ?thesis by (simp add: reg_cylinder_def)
qed

lemma reg_sector_packed:
  "reg_sector (push_bit 8 (CHSPacked_Cylinder c) OR drop_bit 2 (CHSPacked_Cylinder c AND 0x0300) OR
     ucast (CHSPacked_Sector c)) = unat (CHSPacked_Sector c)"
proof -
  let ?y = "CHSPacked_Cylinder c"
  have "(push_bit 8 ?y OR drop_bit 2 (?y AND 0x0300) OR ucast (CHSPacked_Sector c)) AND 0x3F =
      (ucast (CHSPacked_Sector c) :: u16)"
    by (rule bit_word_eqI) (auto simp: bit_simps numeral_masks CHSPacked_Sector_def)
  then show ?thesis by (simp add: reg_sector_def)
qed

lemma reg_head_packed:
  "reg_head (push_bit 8 (ucast (CHSPacked_Head c)) OR ucast (drive :: u8)) = unat (CHSPacked_Head c)"
proof -
  have "drop_bit 8 (push_bit 8 (ucast (CHSPacked_Head c)) OR ucast drive :: u16) = ucast (CHSPacked_Head c)"
    by (rule bit_word_eqI) (auto simp: bit_simps dest: bit_u8)
  then show ?thesis by (simp add: reg_head_def)
qed

lemma reg_drive_packed: "reg_drive (push_bit 8 h OR ucast drive) = drive"
  unfolding reg_drive_def by (rule bit_word_eqI) (auto simp: bit_simps)

lemma reg_drive_ucast [simp]: "reg_drive (ucast drive) = drive"
  unfolding reg_drive_def by (rule bit_word_eqI) (auto simp: bit_simps)

lemmas reg_packed = reg_cylinder_packed reg_sector_packed reg_head_packed

subsection \<open>Linear addresses\<close>

text \<open>A geometry the BIOS can report.\<close>

definition geometry_ok :: "DriveGeometry \<Rightarrow> bool" where
  "geometry_ok g \<longleftrightarrow> 0 < unat (headsPerCylinder g) \<and> unat (headsPerCylinder g) \<le> 256 \<and>
     0 < unat (sectorsPerTrack g) \<and> unat (sectorsPerTrack g) \<le> 63"

text \<open>The linear number of a sector, counted from 1 within its track.\<close>

definition chs_linear :: "DriveGeometry \<Rightarrow> nat \<Rightarrow> nat \<Rightarrow> nat \<Rightarrow> nat" where
  "chs_linear g c h s = (c * unat (headsPerCylinder g) + h) * unat (sectorsPerTrack g) + s - 1"

lemma LBA2CHS_unat:
  fixes g :: DriveGeometry and lba :: u32
  defines "H \<equiv> unat (headsPerCylinder g)" and "S \<equiv> unat (sectorsPerTrack g)"
  assumes "geometry_ok g"
  shows "unat (CHSPacked_Cylinder (LBA2CHS g lba)) = unat lba div (H * S) mod 1024"
    and "unat (CHSPacked_Head (LBA2CHS g lba)) = unat lba div S mod H"
    and "unat (CHSPacked_Sector (LBA2CHS g lba)) = unat lba mod S + 1"
proof -
  have HS: "0 < H" "H \<le> 256" "0 < S" "S \<le> 63" using assms by (simp_all add: geometry_ok_def)
  have "H * S \<le> 256 * 63" using HS by (intro mult_le_mono) simp_all
  then have prod: "unat (ucast (headsPerCylinder g) * ucast (sectorsPerTrack g) :: u32) = H * S"
    by (simp add: H_def S_def unat_word_ariths)
  show "unat (CHSPacked_Cylinder (LBA2CHS g lba)) = unat lba div (H * S) mod 1024"
    by (simp add: LBA2CHS_def unsigned_take_bit_eq unsigned_ucast_eq unat_div prod)
      (simp add: take_bit_eq_mod)
  have "unat lba div S mod H < 256" using HS by (metis mod_less_divisor order_less_le_trans)
  then show "unat (CHSPacked_Head (LBA2CHS g lba)) = unat lba div S mod H"
    by (simp add: LBA2CHS_def unat_ucast_u32_u8 unat_div unat_mod H_def S_def)
  have "unat lba mod S < S" using HS by simp
  then have small: "unat lba mod S + 1 < 64" using HS by linarith
  have "unat (lba mod ucast (sectorsPerTrack g) + 1) = unat lba mod S + 1"
    using small by (simp add: unat_word_ariths unat_mod S_def)
  moreover have "v AND 0x3F = take_bit 6 v" for v :: u8
    by (rule bit_word_eqI) (auto simp: bit_simps numeral_masks)
  ultimately show "unat (CHSPacked_Sector (LBA2CHS g lba)) = unat lba mod S + 1"
    using small
    by (simp add: LBA2CHS_def unsigned_take_bit_eq unat_ucast_u32_u8 take_bit_nat_eq_self)
qed

lemma chs_linear_LBA2CHS:
  assumes "0 < H" "0 < S" "n div (H * S) < 1024"
  shows "((n div (H * S) mod 1024) * H + n div S mod H) * S + (n mod S + 1) - 1 = (n :: nat)"
proof -
  have "n div (H * S) = n div S div H" by (metis div_mult2_eq mult.commute)
  with assms show ?thesis by simp
qed

subsection \<open>The block device contract\<close>

definition bios_valid :: "BIOSBlockDevice \<Rightarrow> bool" where
  "bios_valid d \<longleftrightarrow> int13_documented (bb_bios d)"

definition bios_content :: "BIOSBlockDevice \<Rightarrow> u32 \<Rightarrow> bytes" where
  "bios_content d i = (let chs = LBA2CHS (bb_geometry d) (bb_partStart d + i)
     in bios_medium (bb_bios d) (bb_disk d) (unat (CHSPacked_Cylinder chs)) (unat (CHSPacked_Head chs))
          (unat (CHSPacked_Sector chs)))"

lemma int13_documented_now [simp]: "int13_documented (b\<lparr>bios_now := t\<rparr>) = int13_documented b"
  by (simp add: int13_documented_def medium_ok_def int13_in_buffer_def int13_reads_def int13_reports_def)

lemma int13_length:
  "\<lbrakk>int13_documented b; bios_int13 b t ax cx dx buf = (cf, cx', dx', buf')\<rbrakk> \<Longrightarrow> length buf' = length buf"
  unfolding int13_documented_def int13_in_buffer_def by (metis snd_conv)

lemma int13_read:
  "\<lbrakk>int13_documented b; length buf = 512 * unat count;
    bios_int13 b t (0x0200 OR ucast (count :: u8)) cx dx buf = (False, cx', dx', buf')\<rbrakk> \<Longrightarrow>
   buf' = concat (map (\<lambda>k. bios_medium b (reg_drive dx) (reg_cylinder cx) (reg_head dx) (reg_sector cx + k))
     [0 ..< unat count])"
  unfolding int13_documented_def int13_reads_def by (metis fst_conv snd_conv)

lemma int13_parameters:
  "\<lbrakk>int13_documented b; bios_int13 b t 0x0800 cx dx [] = (False, cx', dx', buf')\<rbrakk> \<Longrightarrow>
   reg_cylinder cx' = bios_cylinders b (reg_drive dx) - 1 \<and> reg_sector cx' = bios_sectors b (reg_drive dx) \<and>
   reg_head dx' = bios_heads b (reg_drive dx) - 1"
proof -
  assume "int13_documented b" and call: "bios_int13 b t 0x0800 cx dx [] = (False, cx', dx', buf')"
  then have "\<forall>t cx dx. \<not> fst (bios_int13 b t 0x0800 cx dx []) \<longrightarrow>
      (let (_, cx', dx', _) = bios_int13 b t 0x0800 cx dx []
       in reg_cylinder cx' = bios_cylinders b (reg_drive dx) - 1 \<and> reg_sector cx' = bios_sectors b (reg_drive dx) \<and>
          reg_head dx' = bios_heads b (reg_drive dx) - 1)"
    by (simp add: int13_documented_def int13_reports_def)
  from this [rule_format, of t cx dx] call show ?thesis by simp
qed

lemma BiosDisk_LoadSectors_step:
  assumes "BiosDisk_LoadSectors drive b source out count = (ok, out', b')"
  obtains cx dx cx' dx' where "reg_cylinder cx = unat (CHSPacked_Cylinder source)"
    "reg_head dx = unat (CHSPacked_Head source)" "reg_sector cx = unat (CHSPacked_Sector source)" "reg_drive dx = drive"
    "bios_int13 b (bios_now b) (0x0200 OR ucast count) cx dx out = (\<not> ok, cx', dx', out')"
    "b' = b\<lparr>bios_now := Suc (bios_now b)\<rparr>"
  using assms that [OF reg_cylinder_packed [of source] reg_head_packed [of source drive] reg_sector_packed [of source] reg_drive_packed]
  by (auto simp: BiosDisk_LoadSectors_def int13_def Let_def split: prod.splits)

lemma BiosDisk_LoadSectors_reads:
  assumes "int13_documented b" "length out = 512 * unat count"
    and "BiosDisk_LoadSectors drive b source out count = (True, out', b')"
  shows "out' = concat (map (\<lambda>k. bios_medium b drive (unat (CHSPacked_Cylinder source))
      (unat (CHSPacked_Head source)) (unat (CHSPacked_Sector source) + k)) [0 ..< unat count])"
  using assms(3)
  by (rule BiosDisk_LoadSectors_step) (use int13_read [OF assms(1,2)] in fastforce)

lemma BiosDisk_LoadSectors_frame:
  assumes "int13_documented b" "BiosDisk_LoadSectors drive b source out count = (ok, out', b')"
  shows "length out' = length out \<and> b' = b\<lparr>bios_now := Suc (bios_now b)\<rparr>"
  using assms(2) by (rule BiosDisk_LoadSectors_step) (use int13_length [OF assms(1)] in blast)

interpretation bios_disk: block_device BIOS_ops bios_valid bios_content
proof
  fix d i buf ok buf' d'
  assume valid: "bios_valid d" and load: "LoadSector_op BIOS_ops d i buf = (ok, buf', d')"
  obtain b' where b': "BiosDisk_LoadSectors (bb_disk d) (bb_bios d)
      (LBA2CHS (bb_geometry d) (bb_partStart d + i)) buf 1 = (ok, buf', b')" and d': "d' = d\<lparr>bb_bios := b'\<rparr>"
    using load by (auto simp: BIOS_ops_def BIOSBlockDevice_LoadSector_def Let_def split: prod.splits)
  have frame: "length buf' = length buf" "b' = (bb_bios d)\<lparr>bios_now := Suc (bios_now (bb_bios d))\<rparr>"
    using BiosDisk_LoadSectors_frame [OF _ b'] valid by (simp_all add: bios_valid_def)
  show "bios_valid d' \<and> bios_content d' = bios_content d \<and>
      SectorSize_op BIOS_ops d' = SectorSize_op BIOS_ops d \<and> length buf' = length buf"
    using valid frame d'
    by (simp add: bios_valid_def bios_content_def fun_eq_iff BIOS_ops_def BIOSBlockDevice_SectorSize_def)
next
  fix d i buf buf' d'
  assume valid: "bios_valid d" and len: "length buf = unat (SectorSize_op BIOS_ops d)"
    and load: "LoadSector_op BIOS_ops d i buf = (True, buf', d')"
  have "length buf = 512 * unat (1 :: u8)"
    using len by (simp add: BIOS_ops_def BIOSBlockDevice_SectorSize_def)
  moreover obtain b' where "BiosDisk_LoadSectors (bb_disk d) (bb_bios d)
      (LBA2CHS (bb_geometry d) (bb_partStart d + i)) buf 1 = (True, buf', b')"
    using load by (auto simp: BIOS_ops_def BIOSBlockDevice_LoadSector_def Let_def split: prod.splits)
  ultimately show "buf' = bios_content d i"
    using BiosDisk_LoadSectors_reads valid by (fastforce simp: bios_valid_def bios_content_def Let_def)
next
  fix d i assume "bios_valid d"
  then show "length (bios_content d i) = unat (SectorSize_op BIOS_ops d)"
    by (simp add: bios_valid_def int13_documented_def medium_ok_def bios_content_def Let_def BIOS_ops_def
        BIOSBlockDevice_SectorSize_def)
qed (simp add: BIOS_ops_def BIOSBlockDevice_SectorSize_def)

text \<open>With firmware that never reports an error for its drive the device is a reliable one.\<close>

definition bios_reliable :: "BIOSBlockDevice \<Rightarrow> bool" where
  "bios_reliable d \<longleftrightarrow> bios_valid d \<and>
     (\<forall>t cx dx buf. length buf = 512 \<longrightarrow> reg_drive dx = bb_disk d \<longrightarrow> \<not> fst (bios_int13 (bb_bios d) t 0x0201 cx dx buf))"

lemma BIOSBlockDevice_LoadSector_bios:
  assumes "bios_valid d" "BIOSBlockDevice_LoadSector d i buf = (ok, buf', d')"
  shows "bb_bios d' = (bb_bios d)\<lparr>bios_now := Suc (bios_now (bb_bios d))\<rparr>"
proof -
  obtain b' where b': "BiosDisk_LoadSectors (bb_disk d) (bb_bios d)
      (LBA2CHS (bb_geometry d) (bb_partStart d + i)) buf 1 = (ok, buf', b')" "d' = d\<lparr>bb_bios := b'\<rparr>"
    using assms(2) by (auto simp: BIOSBlockDevice_LoadSector_def Let_def split: prod.splits)
  with BiosDisk_LoadSectors_frame [OF _ b'(1)] assms(1) show ?thesis by (simp add: bios_valid_def)
qed

interpretation reliable_bios: reliable_device BIOS_ops bios_reliable bios_content
proof
  fix d i buf ok buf' d'
  assume rel: "bios_reliable d" and load: "LoadSector_op BIOS_ops d i buf = (ok, buf', d')"
  have valid: "bios_valid d" using rel by (simp add: bios_reliable_def)
  have "bb_bios d' = (bb_bios d)\<lparr>bios_now := Suc (bios_now (bb_bios d))\<rparr>"
    using BIOSBlockDevice_LoadSector_bios [OF valid] load by (simp add: BIOS_ops_def)
  moreover have "bb_disk d' = bb_disk d"
    using load by (auto simp: BIOS_ops_def BIOSBlockDevice_LoadSector_def Let_def split: prod.splits)
  ultimately have "bios_reliable d'" using rel by (simp add: bios_reliable_def bios_valid_def)
  with bios_disk.load_step [OF valid load]
  show "bios_reliable d' \<and> bios_content d' = bios_content d \<and>
      SectorSize_op BIOS_ops d' = SectorSize_op BIOS_ops d \<and> length buf' = length buf"
    by simp
next
  fix d i and buf :: bytes
  assume rel: "bios_reliable d" and len: "length buf = unat (SectorSize_op BIOS_ops d)"
  have "length buf = 512" using len by (simp add: BIOS_ops_def BIOSBlockDevice_SectorSize_def)
  moreover have "(0x0200 OR ucast (1 :: u8) :: u16) = 0x0201" by simp
  ultimately show "fst (LoadSector_op BIOS_ops d i buf)"
    using rel by (simp add: BIOS_ops_def BIOSBlockDevice_LoadSector_def BiosDisk_LoadSectors_def
        int13_def Let_def bios_reliable_def split_beta reg_drive_packed)
qed (use bios_disk.load_ok bios_disk.size_ok bios_disk.content_length in \<open>auto simp: bios_reliable_def\<close>)

subsection \<open>Reading a linear sector\<close>

lemma reg_cylinder_decoded:
  "push_bit 2 (cx AND 0x0C0) OR (drop_bit 8 cx AND 0x0FF) = drop_bit 8 cx OR push_bit 2 (cx AND 0xC0)"
  for cx :: u16
  by (rule bit_word_eqI) (auto simp: bit_simps numeral_masks dest: bit_imp_le_length)

lemma reg_head_decoded: "drop_bit 8 dx AND 0x0FF = drop_bit 8 dx" for dx :: u16
  by (rule bit_word_eqI) (auto simp: bit_simps numeral_masks dest: bit_imp_le_length)

lemma unat_plus_one_u16: "unat (w :: u16) + 1 < 65536 \<Longrightarrow> unat (w + 1) = unat w + 1"
  by (simp add: unat_word_ariths)

lemma ReadDriveParameters_geometry:
  assumes "int13_documented b" "BiosDisk_ReadDriveParameters drive b g0 = (True, g, b')"
  shows "unat (cylinders g) = bios_cylinders b drive \<and> unat (headsPerCylinder g) = bios_heads b drive \<and>
    unat (sectorsPerTrack g) = bios_sectors b drive \<and> b' = b\<lparr>bios_now := Suc (bios_now b)\<rparr>"
proof -
  obtain cx dx out where call:
    "bios_int13 b (bios_now b) 0x0800 0 (ucast drive) [] = (False, cx, dx, out)"
    and g: "g = g0\<lparr>cylinders := (push_bit 2 (cx AND 0xC0) OR (drop_bit 8 cx AND 0xFF)) + 1,
      sectorsPerTrack := cx AND 0x3F, headsPerCylinder := (drop_bit 8 dx AND 0xFF) + 1\<rparr>"
    and b': "b' = b\<lparr>bios_now := Suc (bios_now b)\<rparr>"
    using assms(2)
    by (auto simp: BiosDisk_ReadDriveParameters_def int13_def Let_def split: prod.splits if_splits)
  note regs = int13_parameters [OF assms(1) call, unfolded reg_cylinder_def reg_sector_def reg_head_def reg_drive_ucast]
  have "medium_ok b" using assms(1) by (simp add: int13_documented_def)
  then have "0 < bios_cylinders b drive \<and> bios_cylinders b drive \<le> 1024 \<and> 0 < bios_heads b drive \<and> bios_heads b drive \<le> 256 \<and>
      0 < bios_sectors b drive \<and> bios_sectors b drive \<le> 63" by (simp add: medium_ok_def)
  with regs show ?thesis
    unfolding g b' reg_cylinder_decoded reg_head_decoded by (simp add: unat_plus_one_u16 or.commute)
qed

text \<open>
  Linear addressing: for every geometry a BIOS can report and every linear sector number up
  to the 1024 cylinders the packed form can hold, \<^verbatim>\<open>LBA2CHS\<close> gives the cylinder, head and
  sector (counted from 1, within the track and the cylinder) of exactly that sector.
\<close>

theorem LBA2CHS_linear:
  assumes "geometry_ok g"
    and "unat lba < 1024 * (unat (headsPerCylinder g) * unat (sectorsPerTrack g))"
  shows "chs_linear g (unat (CHSPacked_Cylinder (LBA2CHS g lba))) (unat (CHSPacked_Head (LBA2CHS g lba)))
      (unat (CHSPacked_Sector (LBA2CHS g lba))) = unat lba \<and>
    unat (CHSPacked_Head (LBA2CHS g lba)) < unat (headsPerCylinder g) \<and>
    1 \<le> unat (CHSPacked_Sector (LBA2CHS g lba)) \<and>
    unat (CHSPacked_Sector (LBA2CHS g lba)) \<le> unat (sectorsPerTrack g)"
proof -
  let ?H = "unat (headsPerCylinder g)" and ?S = "unat (sectorsPerTrack g)"
  have pos: "0 < ?H" "0 < ?S" using assms(1) by (simp_all add: geometry_ok_def)
  have "unat lba div (?H * ?S) < 1024" using assms(2) by (rule less_mult_imp_div_less)
  from chs_linear_LBA2CHS [OF pos this] pos show ?thesis
    unfolding chs_linear_def LBA2CHS_unat [OF assms(1)] by (simp add: Suc_leI)
qed

theorem LBA2CHS_linear_witness:
  "chs_linear \<lparr>cylinders = 1024, headsPerCylinder = 16, sectorsPerTrack = 63\<rparr>
     (unat (CHSPacked_Cylinder (LBA2CHS \<lparr>cylinders = 1024, headsPerCylinder = 16, sectorsPerTrack = 63\<rparr> 1032191)))
     (unat (CHSPacked_Head (LBA2CHS \<lparr>cylinders = 1024, headsPerCylinder = 16, sectorsPerTrack = 63\<rparr> 1032191)))
     (unat (CHSPacked_Sector (LBA2CHS \<lparr>cylinders = 1024, headsPerCylinder = 16, sectorsPerTrack = 63\<rparr> 1032191)))
   = 1032191"
  using LBA2CHS_linear [of "\<lparr>cylinders = 1024, headsPerCylinder = 16, sectorsPerTrack = 63\<rparr>" 1032191]
  by (simp add: geometry_ok_def)

text \<open>
  Past the last addressable cylinder the packed form drops the high cylinder bits: the
  address of a sector is also the address of the sector 1024 cylinders further on, so a block
  device on a larger disk silently reads the wrong sector there.
\<close>

theorem LBA2CHS_wraps:
  assumes "geometry_ok g"
    and "unat lba + 1024 * (unat (headsPerCylinder g) * unat (sectorsPerTrack g)) < 2 ^ 32"
  shows "LBA2CHS g (lba + 1024 * (ucast (headsPerCylinder g) * ucast (sectorsPerTrack g))) = LBA2CHS g lba"
proof -
  let ?H = "unat (headsPerCylinder g)" and ?S = "unat (sectorsPerTrack g)"
  let ?lba' = "lba + 1024 * (ucast (headsPerCylinder g) * ucast (sectorsPerTrack g))"
  have pos: "0 < ?H" "0 < ?S" using assms(1) by (simp_all add: geometry_ok_def)
  have "?lba' = of_nat (unat lba + 1024 * (?H * ?S))" by simp
  then have n: "unat ?lba' = unat lba + 1024 * (?H * ?S)"
    using assms(2) by (simp del: of_nat_add of_nat_mult)
  have cyl: "(unat lba + 1024 * (?H * ?S)) div (?H * ?S) mod 1024 = unat lba div (?H * ?S) mod 1024"
    using pos by simp
  have head: "(unat lba + 1024 * (?H * ?S)) div ?S mod ?H = unat lba div ?S mod ?H"
  proof -
    have "unat lba + 1024 * (?H * ?S) = unat lba + (1024 * ?H) * ?S" by simp
    then have "(unat lba + 1024 * (?H * ?S)) div ?S = unat lba div ?S + 1024 * ?H"
      using pos by (metis div_mult_self1 add.commute less_not_refl2)
    then show ?thesis by simp
  qed
  have sec: "(unat lba + 1024 * (?H * ?S)) mod ?S = unat lba mod ?S"
    by (simp flip: mult.assoc)
  show ?thesis
    by (rule CHSPacked_eqI; subst word_unat_eq_iff)
      (simp_all only: LBA2CHS_unat [OF assms(1)] n cyl head sec)
qed

theorem LBA2CHS_wraps_witness:
  "LBA2CHS \<lparr>cylinders = 1024, headsPerCylinder = 16, sectorsPerTrack = 63\<rparr> (5 + 1024 * (16 * 63)) =
   LBA2CHS \<lparr>cylinders = 1024, headsPerCylinder = 16, sectorsPerTrack = 63\<rparr> 5"
  using LBA2CHS_wraps [of "\<lparr>cylinders = 1024, headsPerCylinder = 16, sectorsPerTrack = 63\<rparr>" 5]
  by (simp add: geometry_ok_def)

lemma geometry_ok_reported:
  assumes "int13_documented b" "BiosDisk_ReadDriveParameters drive b g0 = (True, g, b')"
  shows "geometry_ok g"
  using ReadDriveParameters_geometry [OF assms] assms(1)
  by (simp add: geometry_ok_def int13_documented_def medium_ok_def)

lemma BIOSBlockDevice_new_ok:
  assumes "BIOSBlockDevice_IsInitialized (BIOSBlockDevice_new g0 p0 b drive offset)"
  obtains g b' where "BiosDisk_ReadDriveParameters drive b g0 = (True, g, b')"
    "BIOSBlockDevice_new g0 p0 b drive offset =
      \<lparr>bb_isInitialized = True, bb_geometry = g, bb_partStart = offset, bb_disk = drive, bb_bios = b'\<rparr>"
  using assms that
  by (auto simp: BIOSBlockDevice_new_def BIOSBlockDevice_IsInitialized_def split: prod.splits if_splits)

lemma BIOSBlockDevice_new_valid:
  assumes "int13_documented b" "BIOSBlockDevice_IsInitialized (BIOSBlockDevice_new g0 p0 b drive offset)"
  shows "bios_valid (BIOSBlockDevice_new g0 p0 b drive offset)"
proof -
  obtain g b' where g: "BiosDisk_ReadDriveParameters drive b g0 = (True, g, b')"
    "bb_bios (BIOSBlockDevice_new g0 p0 b drive offset) = b'"
    using assms(2) by (elim BIOSBlockDevice_new_ok) simp
  then show ?thesis
    using ReadDriveParameters_geometry [OF assms(1) g(1)] assms(1) by (simp add: bios_valid_def)
qed

text \<open>
  C8. A block device that was set up for a drive of a documented BIOS reads the sector it is asked for:
  when \<^verbatim>\<open>LoadSector\<close> reports success for a sector of the partition that lies on the disk, the buffer
  holds the sector of the medium in this drive, and not in another one, whose linear number is the
  start of the partition plus the index, at an address within the geometry of the drive.
\<close>

theorem BIOSBlockDevice_reads_linear:
  assumes d_def: "d = BIOSBlockDevice_new g0 p0 b drive offset"
    and "int13_documented b" and "BIOSBlockDevice_IsInitialized d"
    and "BIOSBlockDevice_LoadSector d index buf = (True, buf', d')" and "length buf = 512"
    and "unat (offset + index) < bios_cylinders b drive * (bios_heads b drive * bios_sectors b drive)"
  shows "\<exists>c h s. c < bios_cylinders b drive \<and> h < bios_heads b drive \<and> 1 \<le> s \<and> s \<le> bios_sectors b drive \<and>
    (c * bios_heads b drive + h) * bios_sectors b drive + s - 1 = unat (offset + index) \<and>
    buf' = bios_medium b drive c h s"
proof -
  obtain g b' where g: "BiosDisk_ReadDriveParameters drive b g0 = (True, g, b')"
    and d: "d = \<lparr>bb_isInitialized = True, bb_geometry = g, bb_partStart = offset, bb_disk = drive,
      bb_bios = b'\<rparr>"
    using BIOSBlockDevice_new_ok assms(3) unfolding d_def by blast
  note geo = ReadDriveParameters_geometry [OF assms(2) g]
  have ok: "geometry_ok g" using geometry_ok_reported [OF assms(2) g] .
  have valid: "bios_valid d" using BIOSBlockDevice_new_valid assms(2,3) unfolding d_def by blast
  have buf: "buf' = bios_content d index"
    using bios_disk.load_ok [OF valid, of buf index buf' d'] assms(4,5)
    by (simp add: BIOS_ops_def BIOSBlockDevice_SectorSize_def)
  have cyl: "unat (offset + index) div (bios_heads b drive * bios_sectors b drive) < bios_cylinders b drive"
    using assms(6) by (rule less_mult_imp_div_less)
  have lim: "bios_cylinders b drive \<le> 1024" and pos: "0 < bios_heads b drive" "0 < bios_sectors b drive"
    using assms(2) by (simp_all add: int13_documented_def medium_ok_def)
  let ?c = "unat (offset + index) div (bios_heads b drive * bios_sectors b drive) mod 1024"
  let ?h = "unat (offset + index) div bios_sectors b drive mod bios_heads b drive"
  let ?s = "unat (offset + index) mod bios_sectors b drive + 1"
  have "buf' = bios_medium b drive ?c ?h ?s"
    using buf LBA2CHS_unat [OF ok, of "offset + index"] geo by (simp add: bios_content_def d Let_def)
  moreover have "(?c * bios_heads b drive + ?h) * bios_sectors b drive + ?s - 1 = unat (offset + index)"
    using chs_linear_LBA2CHS [OF pos] cyl lim by simp
  moreover have "?c < bios_cylinders b drive" using cyl by (rule order_le_less_trans [OF mod_less_eq_dividend])
  ultimately show ?thesis using pos by (intro exI [of _ ?c] exI [of _ ?h] exI [of _ ?s]) (simp add: Suc_leI)
qed

subsection \<open>A BIOS that behaves as documented\<close>

definition reference_bios :: "(u8 \<Rightarrow> nat \<Rightarrow> nat \<Rightarrow> nat \<Rightarrow> bytes) \<Rightarrow> Bios" where
  "reference_bios medium = \<lparr>bios_now = 0,
     bios_int13 = (\<lambda>t ax cx dx buf.
       if ax = 0x0800 then (False, 0xFFFF, 0x0F00, buf)
       else if length buf = 512 * unat (ucast ax :: u8)
       then (False, cx, dx, concat (map (\<lambda>k. medium (reg_drive dx) (reg_cylinder cx) (reg_head dx) (reg_sector cx + k))
              [0 ..< unat (ucast ax :: u8)]))
       else (True, cx, dx, buf)),
     bios_cylinders = \<lambda>_. 1024, bios_heads = \<lambda>_. 16, bios_sectors = \<lambda>_. 63, bios_medium = medium\<rparr>"

text \<open>One drive with a medium, the others with empty ones.\<close>

definition on_drive :: "u8 \<Rightarrow> (nat \<Rightarrow> nat \<Rightarrow> nat \<Rightarrow> bytes) \<Rightarrow> u8 \<Rightarrow> nat \<Rightarrow> nat \<Rightarrow> nat \<Rightarrow> bytes" where
  "on_drive n medium drive c h s = (if drive = n then medium c h s else replicate 512 0)"

lemma on_drive_self [simp]: "on_drive n medium n = medium"
  by (simp add: on_drive_def fun_eq_iff)

lemma reference_bios_documented:
  assumes "\<And>drive c h s. length (medium drive c h s) = 512"
  shows "int13_documented (reference_bios medium)"
proof -
  have ax: "ucast (0x0200 OR ucast count :: u16) = count" "(0x0200 OR ucast count :: u16) \<noteq> 0x0800" for count :: u8
  proof -
    show "ucast (0x0200 OR ucast count :: u16) = count"
      by (rule bit_word_eqI) (auto simp: bit_simps numeral_masks)
    have "bit (0x0200 OR ucast count :: u16) 9" by (simp add: bit_simps numeral_masks)
    moreover have "\<not> bit (0x0800 :: u16) 9" by code_simp
    ultimately show "(0x0200 OR ucast count :: u16) \<noteq> 0x0800" by metis
  qed
  have "reg_cylinder 0xFFFF = 1023" "reg_sector 0xFFFF = 63" "reg_head 0x0F00 = 15"
    by code_simp+
  moreover have "length (concat (map (\<lambda>k. medium drive c h (s + k)) [0 ..< n])) = 512 * n" for drive c h s n
    using assms by (induction n) simp_all
  ultimately show ?thesis
    using assms ax
    by (simp add: int13_documented_def medium_ok_def int13_in_buffer_def int13_reads_def
        int13_reports_def reference_bios_def)
qed

lemma reference_bios_reads:
  assumes "d = BIOSBlockDevice_new g0 p0 (reference_bios medium) drive offset"
  shows "BIOSBlockDevice_IsInitialized d"
    and "length buf = 512 \<Longrightarrow> \<exists>buf' d'. BIOSBlockDevice_LoadSector d i buf = (True, buf', d')"
proof -
  have "ucast (0x0201 :: u16) = (1 :: u8)" by simp
  then show "BIOSBlockDevice_IsInitialized d"
    "length buf = 512 \<Longrightarrow> \<exists>buf' d'. BIOSBlockDevice_LoadSector d i buf = (True, buf', d')"
    unfolding assms
    by (auto simp: BIOSBlockDevice_new_def BIOSBlockDevice_IsInitialized_def BIOSBlockDevice_LoadSector_def
        BiosDisk_ReadDriveParameters_def BiosDisk_LoadSectors_def int13_def reference_bios_def Let_def)
qed

definition example_medium :: "nat \<Rightarrow> nat \<Rightarrow> nat \<Rightarrow> bytes" where
  "example_medium c h s = replicate 512 (of_nat (c + h + s))"

definition example_disk :: BIOSBlockDevice where
  "example_disk = BIOSBlockDevice_new \<lparr>cylinders = 0, headsPerCylinder = 0, sectorsPerTrack = 0\<rparr> 0
     (reference_bios (on_drive 0x80 example_medium)) 0x80 2048"

theorem BIOSBlockDevice_reads_linear_witness:
  "\<exists>buf' d'. BIOSBlockDevice_LoadSector example_disk 7 (replicate 512 0) = (True, buf', d') \<and>
     (\<exists>c h s. (c * 16 + h) * 63 + s - 1 = 2055 \<and> buf' = example_medium c h s)"
proof -
  have doc: "int13_documented (reference_bios (on_drive 0x80 example_medium))"
    by (rule reference_bios_documented) (simp add: example_medium_def on_drive_def)
  note ok = reference_bios_reads [OF example_disk_def]
  obtain buf' d' where load: "BIOSBlockDevice_LoadSector example_disk 7 (replicate 512 0) = (True, buf', d')"
    using ok(2) [of "replicate 512 0" 7] by auto
  have "unat (2048 + 7 :: u32) < bios_cylinders (reference_bios (on_drive 0x80 example_medium)) 0x80 *
      (bios_heads (reference_bios (on_drive 0x80 example_medium)) 0x80 * bios_sectors (reference_bios (on_drive 0x80 example_medium)) 0x80)"
    by (simp add: reference_bios_def)
  from BIOSBlockDevice_reads_linear [OF example_disk_def doc ok(1) load _ this] load
  show ?thesis by (auto simp: reference_bios_def)
qed

text \<open>A disk given by its linear sectors.\<close>

definition linear_medium :: "(nat \<Rightarrow> bytes) \<Rightarrow> nat \<Rightarrow> nat \<Rightarrow> nat \<Rightarrow> bytes" where
  "linear_medium vol c h s = vol ((c * 16 + h) * 63 + s - 1)"

definition linear_disk :: "(nat \<Rightarrow> bytes) \<Rightarrow> BIOSBlockDevice" where
  "linear_disk vol = BIOSBlockDevice_new \<lparr>cylinders = 0, headsPerCylinder = 0, sectorsPerTrack = 0\<rparr> 0
     (reference_bios (on_drive 0x80 (linear_medium vol))) 0x80 0"

lemma linear_disk_fields:
  "bb_geometry (linear_disk vol) = \<lparr>cylinders = 1024, headsPerCylinder = 16, sectorsPerTrack = 63\<rparr>"
  "bb_partStart (linear_disk vol) = 0"
  "bios_medium (bb_bios (linear_disk vol)) = on_drive 0x80 (linear_medium vol)" "bb_disk (linear_disk vol) = 0x80"
  "bios_int13 (bb_bios (linear_disk vol)) = bios_int13 (reference_bios (on_drive 0x80 (linear_medium vol)))"
  by (simp_all add: linear_disk_def BIOSBlockDevice_new_def BiosDisk_ReadDriveParameters_def
      int13_def reference_bios_def Let_def)

lemma linear_disk_content:
  assumes "unat i < 1032192"
  shows "bios_content (linear_disk vol) i = vol (unat i)"
proof -
  let ?g = "\<lparr>cylinders = 1024, headsPerCylinder = 16, sectorsPerTrack = 63\<rparr> :: DriveGeometry"
  have ok: "geometry_ok ?g" by (simp add: geometry_ok_def)
  have small: "unat i div (16 * 63) < 1024" using assms by (intro less_mult_imp_div_less) simp
  have "((unat i div (16 * 63) mod 1024) * 16 + unat i div 63 mod 16) * 63 + (unat i mod 63 + 1) - 1 = unat i"
    using small by (intro chs_linear_LBA2CHS) simp_all
  with LBA2CHS_unat [OF ok, of i] small show ?thesis
    by (simp add: bios_content_def linear_disk_fields Let_def linear_medium_def)
qed

lemma linear_disk_reliable:
  assumes "\<And>n. length (vol n) = 512"
  shows "bios_reliable (linear_disk vol)" "bios_valid (linear_disk vol)"
proof -
  have doc: "int13_documented (reference_bios (on_drive 0x80 (linear_medium vol)))"
    by (rule reference_bios_documented) (simp add: linear_medium_def on_drive_def assms)
  have "BIOSBlockDevice_IsInitialized (linear_disk vol)"
    by (rule reference_bios_reads(1)) (rule linear_disk_def)
  then show "bios_valid (linear_disk vol)"
    using BIOSBlockDevice_new_valid [OF doc] unfolding linear_disk_def by blast
  then show "bios_reliable (linear_disk vol)"
    by (simp add: bios_reliable_def linear_disk_fields reference_bios_def)
qed

end
