(* ===== verification/Fat_Fs_Correct.thy ===== *)
theory Fat_Fs_Correct
  imports Fat_Fs Bios_Disk
begin

text \<open>
  Correctness of the FAT32 driver: what a file and a directory are in terms of the sectors of
  the device, and that the driver with its cached windows reads exactly that. The lemmas are
  proved in the locale of block devices and used for the BIOS device.
\<close>

subsection \<open>The volume as it is on the device\<close>

definition cluster_bytes :: "(u32 \<Rightarrow> bytes) \<Rightarrow> FatSuper \<Rightarrow> u32 \<Rightarrow> bytes" where
  "cluster_bytes sec s c = concat (map (\<lambda>i. sec (FatSuper_ClusterIndex2Sector s c + of_nat i))
     [0 ..< unat (FatSuper_SectorsPerCluster s)])"

definition fat_sector :: "(u32 \<Rightarrow> bytes) \<Rightarrow> FatSuper \<Rightarrow> u32 \<Rightarrow> bytes" where
  "fat_sector sec s i = sec (ucast (FatSuper_ReservedSectors s) + i)"

definition fat_entry :: "(u32 \<Rightarrow> bytes) \<Rightarrow> nat \<Rightarrow> FatSuper \<Rightarrow> u32 \<Rightarrow> u32" where
  "fat_entry sec ss s c = word_in (fat_sector sec s (of_nat (4 * unat c div ss))) (4 * unat c mod ss)"

text \<open>The chain from a cluster, up to an end mark, with all its clusters covered by the FAT.\<close>

fun fat_chain :: "(u32 \<Rightarrow> u32) \<Rightarrow> nat \<Rightarrow> u32 \<Rightarrow> u32 list \<Rightarrow> bool" where
  "fat_chain nxt lim c [] \<longleftrightarrow> 0x0FFFFFF0 \<le> c"
| "fat_chain nxt lim c (x # xs) \<longleftrightarrow>
     x = c \<and> 2 \<le> c \<and> c < 0x0FFFFFF0 \<and> 4 * unat c < lim \<and> fat_chain nxt lim (nxt c) xs"

definition volume_chain :: "(u32 \<Rightarrow> bytes) \<Rightarrow> nat \<Rightarrow> FatSuper \<Rightarrow> u32 \<Rightarrow> u32 list \<Rightarrow> bool" where
  "volume_chain sec ss s = fat_chain (fat_entry sec ss s) (ss * unat (FatSuper_SectorsPerFat s))"

definition chain_bytes :: "(u32 \<Rightarrow> bytes) \<Rightarrow> FatSuper \<Rightarrow> u32 list \<Rightarrow> bytes" where
  "chain_bytes sec s cs = concat (map (cluster_bytes sec s) cs)"

text \<open>The driver's invariant: windows of the right size that hold what their tags say.\<close>

definition fatfs_inv :: "'d IBlockDevice \<Rightarrow> ('d \<Rightarrow> bool) \<Rightarrow> ('d \<Rightarrow> u32 \<Rightarrow> bytes) \<Rightarrow> 'd FatFs \<Rightarrow> bool" where
  "fatfs_inv dev valid content fs \<longleftrightarrow>
     valid (blk fs) \<and>
     length (fatWindow fs) = unat (SectorSize_op dev (blk fs)) \<and>
     length (dataWindow fs) =
       unat (FatSuper_SectorsPerCluster (super fs)) * unat (SectorSize_op dev (blk fs)) \<and>
     (currentFatSector fs = 0xFFFFFFFF \<or>
      fatWindow fs = fat_sector (content (blk fs)) (super fs) (currentFatSector fs)) \<and>
     (currentDataCluster fs = 0xFFFFFFFF \<or>
      dataWindow fs = cluster_bytes (content (blk fs)) (super fs) (currentDataCluster fs))"

lemma SectorsPerCluster_small: "unat (FatSuper_SectorsPerCluster s) < 256"
proof -
  have "unat (fs_sectorsPerCluster s) < 2 ^ LENGTH(8)" by (rule unsigned_less)
  then show ?thesis by (simp add: FatSuper_SectorsPerCluster_def)
qed

lemma BytesPerCluster_unat:
  "unat (BytesPerCluster dev fs) =
   unat (FatSuper_SectorsPerCluster (super fs)) * unat (SectorSize_op dev (blk fs))"
proof -
  have "unat (SectorSize_op dev (blk fs)) < 2 ^ LENGTH(16)" by (rule unsigned_less)
  then have "unat (FatSuper_SectorsPerCluster (super fs)) * unat (SectorSize_op dev (blk fs)) < 256 * 65536"
    using SectorsPerCluster_small [of "super fs"] by (intro mult_strict_mono) simp_all
  then show ?thesis by (simp add: BytesPerCluster_def unat_word_ariths)
qed

lemma FatFs_new_inv:
  assumes "valid d" "length w1 = unat (SectorSize_op dev d)"
    "length w2 = unat (FatSuper_SectorsPerCluster s) * unat (SectorSize_op dev d)"
  shows "fatfs_inv dev valid content (FatFs_new d s w1 w2)"
  using assms by (simp add: fatfs_inv_def FatFs_new_def)

subsection \<open>The windows\<close>

context block_device
begin

lemma LoadDataCluster_loop_correct:
  assumes "LoadDataCluster_loop dev lba i n fs = (ok, fs')" "valid (blk fs)"
    and "length (dataWindow fs) = (i + n) * unat (SectorSize_op dev (blk fs))"
  shows "same_device (blk fs) (blk fs') \<and> length (dataWindow fs') = length (dataWindow fs) \<and>
    fs' = fs\<lparr>blk := blk fs', dataWindow := dataWindow fs'\<rparr> \<and>
    (if ok then dataWindow fs' = take (i * unat (SectorSize_op dev (blk fs))) (dataWindow fs) @
       concat (map (\<lambda>k. content (blk fs) (lba + of_nat k)) [i ..< i + n])
     else may_fail (blk fs))"
  using assms
proof (induction n arbitrary: i fs)
  case 0
  then show ?case by auto
next
  case (Suc n)
  let ?ss = "unat (SectorSize_op dev (blk fs))"
  let ?w = "subbytes (i * ?ss) ?ss (dataWindow fs)"
  obtain r buf d where load: "LoadSector_op dev (blk fs) (lba + of_nat i) ?w = (r, buf, d)"
    by (metis prod_cases3)
  define fs1 where "fs1 = fs\<lparr>blk := d, dataWindow := overwrite (i * ?ss) buf (dataWindow fs)\<rparr>"
  have len: "length ?w = ?ss" using Suc.prems(3) by simp
  have same: "same_device (blk fs) d" using load_same_device [OF Suc.prems(2) load] .
  have lbuf: "length buf = ?ss" using load_step [OF Suc.prems(2) load] len by simp
  have lwin: "length (dataWindow fs1) = length (dataWindow fs)"
    using lbuf Suc.prems(3) by (simp add: fs1_def)
  show ?case
  proof (cases r)
    case False
    then have "ok = False" "fs' = fs1" using Suc.prems(1) load by (simp_all add: Let_def fs1_def)
    moreover have "may_fail (blk fs)" using load_fails [OF Suc.prems(2) len] load False by simp
    ultimately show ?thesis using same lwin by (simp add: fs1_def)
  next
    case True
    have rec: "LoadDataCluster_loop dev lba (Suc i) n fs1 = (ok, fs')"
      using Suc.prems(1) load True by (simp add: Let_def fs1_def)
    have buf: "buf = content (blk fs) (lba + of_nat i)"
      using load_ok [OF Suc.prems(2) len] load True by simp
    have d: "blk fs1 = d" "valid d" "SectorSize_op dev d = SectorSize_op dev (blk fs)"
      "content d = content (blk fs)"
      using same by (simp_all add: same_device_def fs1_def)
    have "valid (blk fs1)" "length (dataWindow fs1) = (Suc i + n) * unat (SectorSize_op dev (blk fs1))"
      using d lwin Suc.prems(3) by simp_all
    note ih = Suc.IH [OF rec this, unfolded d lwin]
    have win: "take (Suc i * ?ss) (dataWindow fs1) = take (i * ?ss) (dataWindow fs) @ buf"
    proof -
      have "i * ?ss \<le> length (dataWindow fs)" using Suc.prems(3) by (simp add: algebra_simps)
      then show ?thesis using lbuf by (simp add: overwrite_def fs1_def min_def)
    qed
    have upt: "[i ..< i + Suc n] = i # [Suc i ..< Suc i + n]" by (simp add: upt_rec)
    have rec_eq: "fs1\<lparr>blk := b, dataWindow := w\<rparr> = fs\<lparr>blk := b, dataWindow := w\<rparr>" for b w
      by (simp add: fs1_def)
    show ?thesis
      using ih same_device_trans [OF same] may_fail_same [OF same]
      unfolding win upt rec_eq buf list.map concat.simps append_assoc if_bool_eq_conj by blast
  qed
qed

lemma LoadDataCluster_correct:
  assumes inv: "fatfs_inv dev valid content fs" and load: "LoadDataCluster dev fs c = (ok, fs')"
    and c: "2 \<le> c" "c \<noteq> 0xFFFFFFFF"
  shows "same_device (blk fs) (blk fs') \<and> super fs' = super fs \<and>
    (if ok then fatfs_inv dev valid content fs' \<and>
       dataWindow fs' = cluster_bytes (content (blk fs)) (super fs) c
     else may_fail (blk fs))"
proof (cases "c = currentDataCluster fs")
  case True
  have "\<not> c < 2" using c by (simp add: not_less)
  then have "ok" "fs' = fs" using load True by (simp_all add: LoadDataCluster_def)
  moreover have "dataWindow fs = cluster_bytes (content (blk fs)) (super fs) c" "valid (blk fs)"
    using inv True c by (auto simp: fatfs_inv_def)
  ultimately show ?thesis using inv by simp
next
  case False
  let ?lba = "FatSuper_ClusterIndex2Sector (super fs) c"
  obtain r fs1 where loop:
    "LoadDataCluster_loop dev ?lba 0 (unat (FatSuper_SectorsPerCluster (super fs))) fs = (r, fs1)"
    by fastforce
  have fs': "ok = r" "fs' = (if r then fs1\<lparr>currentDataCluster := c\<rparr> else fs1)"
    using load False c loop by (auto simp: LoadDataCluster_def Let_def not_less [symmetric] split: if_splits)
  have "valid (blk fs)" "length (dataWindow fs) =
      (0 + unat (FatSuper_SectorsPerCluster (super fs))) * unat (SectorSize_op dev (blk fs))"
    using inv by (simp_all add: fatfs_inv_def)
  note r = LoadDataCluster_loop_correct [OF loop this]
  have keep: "super fs1 = super fs" "fatWindow fs1 = fatWindow fs" "currentFatSector fs1 = currentFatSector fs"
  proof -
    have e: "fs1 = fs\<lparr>blk := blk fs1, dataWindow := dataWindow fs1\<rparr>" using r by blast
    show "super fs1 = super fs" by (subst e) simp
    show "fatWindow fs1 = fatWindow fs" by (subst e) simp
    show "currentFatSector fs1 = currentFatSector fs" by (subst e) simp
  qed
  show ?thesis
    using r keep inv fs' by (auto simp: fatfs_inv_def same_device_def cluster_bytes_def)
qed

lemma LoadFatSector_correct:
  assumes inv: "fatfs_inv dev valid content fs" and load: "LoadFatSector dev fs i = (ok, fs')"
    and i: "i < FatSuper_SectorsPerFat (super fs)"
  shows "same_device (blk fs) (blk fs') \<and> super fs' = super fs \<and> dataWindow fs' = dataWindow fs \<and>
    (if ok then fatfs_inv dev valid content fs' \<and>
       fatWindow fs' = fat_sector (content (blk fs)) (super fs) i
     else may_fail (blk fs))"
proof (cases "i = currentFatSector fs")
  case True
  have "i \<noteq> 0xFFFFFFFF"
  proof
    assume "i = 0xFFFFFFFF"
    then have "unat (FatSuper_SectorsPerFat (super fs)) > 4294967295" using i by (simp add: word_less_nat_alt)
    then show False using unat_lt_u32 [of "FatSuper_SectorsPerFat (super fs)"] by linarith
  qed
  then have "fatWindow fs = fat_sector (content (blk fs)) (super fs) i" "valid (blk fs)"
    using inv True by (auto simp: fatfs_inv_def)
  moreover have "ok" "fs' = fs" using load True i by (simp_all add: LoadFatSector_def not_le [symmetric])
  ultimately show ?thesis using inv by simp
next
  case False
  let ?lba = "ucast (FatSuper_ReservedSectors (super fs)) + i"
  obtain r buf d where sec: "LoadSector_op dev (blk fs) ?lba (fatWindow fs) = (r, buf, d)"
    by (metis prod_cases3)
  have v: "valid (blk fs)" "length (fatWindow fs) = unat (SectorSize_op dev (blk fs))"
    using inv by (simp_all add: fatfs_inv_def)
  have same: "same_device (blk fs) d" "length buf = length (fatWindow fs)"
    using load_same_device [OF v(1) sec] load_step [OF v(1) sec] by simp_all
  have fs': "ok = r" "fs' = (if r then fs\<lparr>blk := d, fatWindow := buf, currentFatSector := i\<rparr>
      else fs\<lparr>blk := d, fatWindow := buf\<rparr>)"
    using load False i sec by (auto simp: LoadFatSector_def Let_def not_le [symmetric] split: if_splits)
  show ?thesis
  proof (cases r)
    case True
    then have "buf = content (blk fs) ?lba" using load_ok [OF v] sec by simp
    then show ?thesis using True fs' same inv
      by (auto simp: fatfs_inv_def same_device_def fat_sector_def)
  next
    case False
    then show ?thesis using load_fails [OF v] sec fs' same by auto
  qed
qed

end

context block_device
begin

lemma fat_sector_index:
  assumes "valid d" "c < 0x0FFFFFF0"
    and "4 * unat c < unat (SectorSize_op dev d) * unat (FatSuper_SectorsPerFat s)"
  shows "(c * 4) div ucast (SectorSize_op dev d) = of_nat (4 * unat c div unat (SectorSize_op dev d))"
    and "unat ((c * 4) mod ucast (SectorSize_op dev d)) = 4 * unat c mod unat (SectorSize_op dev d)"
    and "(c * 4) div ucast (SectorSize_op dev d) < FatSuper_SectorsPerFat s"
proof -
  have "unat c < 0x0FFFFFF0" using assms(2) by (simp add: word_less_nat_alt)
  then have c4: "unat (c * 4) = 4 * unat c" by (simp add: unat_word_ariths)
  then have div: "unat ((c * 4) div ucast (SectorSize_op dev d)) = 4 * unat c div unat (SectorSize_op dev d)"
    by (simp add: unat_div)
  then show "(c * 4) div ucast (SectorSize_op dev d) = of_nat (4 * unat c div unat (SectorSize_op dev d))"
    by (rule unat_eq_of_nat_u32)
  show "unat ((c * 4) mod ucast (SectorSize_op dev d)) = 4 * unat c mod unat (SectorSize_op dev d)"
    using c4 by (simp add: unat_mod)
  show "(c * 4) div ucast (SectorSize_op dev d) < FatSuper_SectorsPerFat s"
    using assms(3) unfolding word_less_nat_alt div
    by (intro less_mult_imp_div_less) (simp add: mult.commute)
qed

lemma ReadFatIndex_correct:
  assumes inv: "fatfs_inv dev valid content fs" and read: "ReadFatIndex dev fs c = (r, fs')"
    and c: "c < 0x0FFFFFF0"
      "4 * unat c < unat (SectorSize_op dev (blk fs)) * unat (FatSuper_SectorsPerFat (super fs))"
  shows "same_device (blk fs) (blk fs') \<and> super fs' = super fs \<and> dataWindow fs' = dataWindow fs \<and>
    (case r of Some n \<Rightarrow> fatfs_inv dev valid content fs' \<and>
        n = fat_entry (content (blk fs)) (unat (SectorSize_op dev (blk fs))) (super fs) c
     | None \<Rightarrow> may_fail (blk fs))"
proof -
  have v: "valid (blk fs)" using inv by (simp add: fatfs_inv_def)
  note idx = fat_sector_index [OF v c]
  obtain ok fs1 where load:
    "LoadFatSector dev fs ((c * 4) div ucast (SectorSize_op dev (blk fs))) = (ok, fs1)" by fastforce
  have "fs' = fs1" "r = (if ok then Some (word_in (fatWindow fs1)
      (4 * unat c mod unat (SectorSize_op dev (blk fs)))) else None)"
    using read load idx(2) by (auto simp: ReadFatIndex_def Let_def split: if_splits)
  then show ?thesis
    using LoadFatSector_correct [OF inv load idx(3)] idx(1) by (cases ok) (simp_all add: fat_entry_def)
qed

text \<open>The outcome of a read: all the bytes wanted, or -1 after some of them because a load failed.\<close>

definition read_result :: "'d FatFs \<Rightarrow> bytes \<Rightarrow> u32 \<Rightarrow> bytes \<Rightarrow> u32 \<Rightarrow> bytes \<Rightarrow> 'd FatFs \<Rightarrow> bool" where
  "read_result fs want ret out r out' fs' \<longleftrightarrow>
     same_device (blk fs) (blk fs') \<and> super fs' = super fs \<and>
     (fatfs_inv dev valid content fs' \<and> out' = out @ want \<and> r = ret + of_nat (length want) \<or>
      r = -1 \<and> may_fail (blk fs) \<and> (\<exists>n. out' = out @ take n want))"

lemma read_result_more:
  assumes "read_result fs2 want ret2 (out @ w) r out' fs'"
    and "same_device (blk fs) (blk fs2)" "super fs2 = super fs" "ret2 = ret + of_nat (length w)"
  shows "read_result fs (w @ want) ret out r out' fs'"
proof -
  have "\<exists>m. w @ take n want = take m (w @ want)" for n
    by (rule exI [of _ "length w + n"]) simp
  then show ?thesis
    using assms same_device_trans [OF assms(2)] may_fail_same [OF assms(2)]
    unfolding read_result_def by (auto simp: add.assoc simp del: take_append)
qed

lemma length_cluster_bytes:
  "valid d \<Longrightarrow> length (cluster_bytes (content d) s c) =
     unat (FatSuper_SectorsPerCluster s) * unat (SectorSize_op dev d)"
  by (simp add: cluster_bytes_def length_concat content_length comp_def sum_list_triv)

lemma take_drop_nth: "off + n \<le> length xs \<Longrightarrow> map (\<lambda>i. xs ! (off + i)) [0 ..< n] = take n (drop off xs)"
  by (rule nth_equalityI) simp_all

lemma ReadAt_round_correct:
  assumes inv: "fatfs_inv dev valid content fs" and c: "2 \<le> c" "c < 0x0FFFFFF0"
    and round: "ReadAt_round dev fs c offset sz ret out = (ok, fs1, offset1, sz1, ret1, out1)"
  defines "data \<equiv> cluster_bytes (content (blk fs)) (super fs) c"
  shows "same_device (blk fs) (blk fs1) \<and> super fs1 = super fs \<and>
    (if ok then fatfs_inv dev valid content fs1 \<and>
       (let w = take (unat sz) (drop (unat offset) data)
        in out1 = out @ w \<and> ret1 = ret + of_nat (length w) \<and> unat sz1 = unat sz - length w \<and>
           (0 < sz1 \<longrightarrow> unat offset1 = unat offset - length data))
     else may_fail (blk fs) \<and> out1 = out)"
proof (cases "offset < BytesPerCluster dev fs")
  case False
  have v: "valid (blk fs)" using inv by (simp add: fatfs_inv_def)
  have len: "length data = unat (BytesPerCluster dev fs)"
    by (simp add: data_def length_cluster_bytes [OF v] BytesPerCluster_unat)
  have le: "BytesPerCluster dev fs \<le> offset" using False by simp
  have "ok" "fs1 = fs" "offset1 = offset - BytesPerCluster dev fs" "sz1 = sz" "ret1 = ret" "out1 = out"
    using round False by (auto simp: ReadAt_round_def)
  moreover have "unat (offset - BytesPerCluster dev fs) = unat offset - unat (BytesPerCluster dev fs)"
    using le by (rule unat_sub)
  ultimately show ?thesis
    using inv v len le by (simp add: word_le_nat_alt)
next
  case True
  obtain r fs2 where load: "LoadDataCluster dev fs c = (r, fs2)" by fastforce
  have "c \<noteq> 0xFFFFFFFF" using c(2) by auto
  note L = LoadDataCluster_correct [OF inv load c(1) this]
  show ?thesis
  proof (cases r)
    case False
    then have "ok = False" "fs1 = fs2" "out1 = out"
      using round True load by (simp_all add: ReadAt_round_def)
    then show ?thesis using L False by simp
  next
    case r: True
    have bpc: "BytesPerCluster dev fs2 = BytesPerCluster dev fs"
      using L by (simp add: BytesPerCluster_def same_device_def)
    define diff where "diff = (if BytesPerCluster dev fs - offset > sz then sz
      else BytesPerCluster dev fs - offset)"
    have step: "ok" "fs1 = fs2" "offset1 = 0" "sz1 = sz - diff" "ret1 = ret + diff"
      "out1 = out @ map (\<lambda>i. dataWindow fs2 ! (unat offset + i)) [0 ..< unat diff]"
      using round True load r by (auto simp: ReadAt_round_def bpc Let_def diff_def cong: if_cong)
    have v: "valid (blk fs)" using inv by (simp add: fatfs_inv_def)
    have len: "length data = unat (BytesPerCluster dev fs)"
      by (simp add: data_def length_cluster_bytes [OF v] BytesPerCluster_unat)
    have off: "unat offset < length data" using True len by (simp add: word_less_nat_alt)
    have win: "dataWindow fs2 = data" using L r by (simp add: data_def)
    have diff: "unat diff = min (length data - unat offset) (unat sz)"
      using True len by (auto simp: diff_def unat_sub word_less_nat_alt word_le_nat_alt min_def)
    let ?w = "take (unat sz) (drop (unat offset) data)"
    have w: "out1 = out @ ?w" using step(6) win diff off by (simp add: take_drop_nth min_def)
    have lw: "length ?w = unat diff" using diff by simp
    have "diff \<le> sz" using diff by (simp add: word_le_nat_alt)
    then have sz1: "unat sz1 = unat sz - length ?w" using lw step(4) by (simp only: unat_sub)
    have ret1: "ret1 = ret + of_nat (length ?w)" unfolding lw step(5) by simp
    show ?thesis
      using L r step(1-3) w sz1 ret1 off by (simp only: if_True Let_def) simp
  qed
qed

end

subsection \<open>Reading a file\<close>

lemma take_drop_append:
  assumes "w = take n (drop off d)"
  shows "take n (drop off (d @ rest)) = w @ take (n - length w) (drop (off - length d) rest)"
  using assms by (simp add: min_def)

context block_device
begin

lemma ReadAt_loop_correct:
  assumes "fatfs_inv dev valid content fs"
    and "volume_chain (content (blk fs)) (unat (SectorSize_op dev (blk fs))) (super fs) c cs"
  shows "\<exists>r out' fs'. ReadAt_loop dev fs c offset sz ret out = Some (r, out', fs') \<and>
    read_result fs (take (unat sz) (drop (unat offset) (chain_bytes (content (blk fs)) (super fs) cs)))
      ret out r out' fs'"
  using assms
proof (induction cs arbitrary: fs c offset sz ret out)
  case Nil
  then show ?case
    by (simp add: ReadAt_loop.simps volume_chain_def chain_bytes_def read_result_def fatfs_inv_def
        flip: not_less)
next
  case (Cons x cs)
  let ?sec = "content (blk fs)" and ?ss = "unat (SectorSize_op dev (blk fs))"
  let ?d = "cluster_bytes ?sec (super fs) c" and ?rest = "chain_bytes ?sec (super fs) cs"
  have inv: "fatfs_inv dev valid content fs" by fact
  have c: "x = c" "2 \<le> c" "c < 0x0FFFFFF0" "4 * unat c < ?ss * unat (FatSuper_SectorsPerFat (super fs))"
    "volume_chain ?sec ?ss (super fs) (fat_entry ?sec ?ss (super fs) c) cs"
    using Cons.prems(2) by (simp_all add: volume_chain_def)
  have v: "valid (blk fs)" using inv by (simp add: fatfs_inv_def)
  define w where "w = take (unat sz) (drop (unat offset) ?d)"
  have bytes: "take (unat sz) (drop (unat offset) (chain_bytes ?sec (super fs) (x # cs))) =
      w @ take (unat sz - length w) (drop (unat offset - length ?d) ?rest)"
    using take_drop_append [OF w_def] c(1) by (simp add: chain_bytes_def)
  show ?case
  proof (cases "sz = 0")
    case True
    then show ?thesis using v inv by (simp add: ReadAt_loop.simps read_result_def)
  next
    case False
    obtain ok fs1 offset1 sz1 ret1 out1 where
      round: "ReadAt_round dev fs c offset sz ret out = (ok, fs1, offset1, sz1, ret1, out1)"
      by (metis prod_cases6)
    note R = ReadAt_round_correct [OF inv c(2,3) round, folded w_def, unfolded Let_def]
    have unfold: "ReadAt_loop dev fs c offset sz ret out =
        (if \<not> ok then Some (-1, out1, fs1)
         else if 0 < sz1 then
           (case ReadFatIndex dev fs1 c of (None, fs2) \<Rightarrow> Some (-1, out1, fs2)
            | (Some next, fs2) \<Rightarrow> ReadAt_loop dev fs2 next offset1 sz1 ret1 out1)
         else Some (ret1, out1, fs1))"
      using False c(3) round
      by (simp add: ReadAt_loop.simps [of dev fs c offset sz] ReadAt_loop.simps [of dev fs1 c]
          word_neq_0_conv)
    consider "\<not> ok" | "ok" "sz1 = 0" | "ok" "0 < sz1" by (cases ok; cases "sz1 = 0") (auto simp: word_neq_0_conv)
    then show ?thesis
    proof cases
      case 1
      have "\<exists>n. out1 = out @ take n X" for X using R 1 by (intro exI [of _ 0]) simp
      then have "read_result fs X ret out (-1) out1 fs1" for X using R 1 by (simp add: read_result_def)
      then show ?thesis using 1 unfold by simp
    next
      case 2
      have "take (unat sz - length w) X = []" for X :: bytes using R 2 by simp
      then show ?thesis using R 2 unfold unfolding bytes by (simp add: read_result_def)
    next
      case 3
      have same: "same_device (blk fs) (blk fs1)" "super fs1 = super fs" and inv1: "fatfs_inv dev valid content fs1"
        using R 3 by simp_all
      have dev1: "content (blk fs1) = ?sec" "SectorSize_op dev (blk fs1) = SectorSize_op dev (blk fs)"
        using same by (simp_all add: same_device_def)
      obtain nx fs2 where read: "ReadFatIndex dev fs1 c = (nx, fs2)" by fastforce
      note N = ReadFatIndex_correct [OF inv1 read c(3), unfolded same(2) dev1, OF c(4)]
      have same2: "same_device (blk fs) (blk fs2)" using N same(1) same_device_trans by blast
      show ?thesis
      proof (cases nx)
        case None
        then have "may_fail (blk fs)" using N may_fail_same [OF same(1)] by simp
        moreover have "\<exists>n. out1 = out @ take n (w @ X)" for X
          using R 3 by (intro exI [of _ "length w"]) simp
        ultimately have "read_result fs (w @ X) ret out (-1) out1 fs2" for X
          using N same2 unfolding read_result_def by blast
        then show ?thesis using None 3 unfold read unfolding bytes by simp
      next
        case (Some nxt)
        have chain: "volume_chain (content (blk fs2)) (unat (SectorSize_op dev (blk fs2))) (super fs2) nxt cs"
          "fatfs_inv dev valid content fs2"
          using N Some c(5) same2 by (simp_all add: same_device_def)
        have dev2: "content (blk fs2) = ?sec" "super fs2 = super fs"
          using N same2 by (simp_all add: same_device_def)
        have num: "unat sz1 = unat sz - length w" "unat offset1 = unat offset - length ?d"
          "ret1 = ret + of_nat (length w)" "out1 = out @ w"
          using R 3 by simp_all
        obtain r out' fs' where rec: "ReadAt_loop dev fs2 nxt offset1 sz1 ret1 out1 = Some (r, out', fs')"
          "read_result fs2 (take (unat sz1) (drop (unat offset1) ?rest)) ret1 out1 r out' fs'"
          using Cons.IH [OF chain(2,1), of offset1 sz1 ret1 out1] unfolding dev2 by blast
        have "read_result fs (w @ take (unat sz1) (drop (unat offset1) ?rest)) ret out r out' fs'"
          using read_result_more [OF _ same2 dev2(2)] rec(2) num(3,4) by blast
        then show ?thesis
          using unfold 3 read Some rec(1) unfolding bytes num by simp
      qed
    qed
  qed
qed

end

text \<open>The bytes of a file: those of its chain, cut at its size (a size of 0 stands for no limit).\<close>

definition file_bytes :: "(u32 \<Rightarrow> bytes) \<Rightarrow> FatSuper \<Rightarrow> FatFile \<Rightarrow> u32 list \<Rightarrow> bytes" where
  "file_bytes sec s f cs = (if ff_size f = 0 then chain_bytes sec s cs
     else take (unat (ff_size f)) (chain_bytes sec s cs))"

context block_device
begin

lemma ReadAt_correct:
  assumes inv: "fatfs_inv dev valid content fs"
    and chain: "volume_chain (content (blk fs)) (unat (SectorSize_op dev (blk fs))) (super fs)
      (ff_cluster f) cs"
  shows "\<exists>r out fs'. ReadAt dev fs f offset sz = Some (r, out, fs') \<and>
    read_result fs (take (unat sz) (drop (unat offset) (file_bytes (content (blk fs)) (super fs) f cs)))
      0 [] r out fs'"
proof -
  let ?data = "chain_bytes (content (blk fs)) (super fs) cs"
  have v: "valid (blk fs)" using inv by (simp add: fatfs_inv_def)
  consider "ff_size f = 0" | "ff_size f \<le> offset" "0 < ff_size f" | "offset < ff_size f"
    by (metis not_le word_neq_0_conv)
  then show ?thesis
  proof cases
    case 1
    then show ?thesis using ReadAt_loop_correct [OF inv chain] by (simp add: ReadAt_def file_bytes_def)
  next
    case 2
    then have "drop (unat offset) (take (unat (ff_size f)) ?data) = []" "ff_size f \<noteq> 0"
      by (auto simp: word_le_nat_alt)
    then show ?thesis using 2 inv v
      by (simp add: ReadAt_def file_bytes_def read_result_def)
  next
    case 3
    define sz1 where "sz1 = (if sz > ff_size f - offset then ff_size f - offset else sz)"
    have pos: "0 < ff_size f" "ff_size f \<noteq> 0" using 3 word_not_simps(1) by (auto simp: word_neq_0_conv intro: order_le_less_trans)
    have "unat (ff_size f - offset) = unat (ff_size f) - unat offset" using 3 by (simp add: unat_sub)
    then have "unat sz1 = min (unat sz) (unat (ff_size f) - unat offset)"
      by (auto simp: sz1_def word_less_nat_alt min_def)
    then have "take (unat sz) (drop (unat offset) (file_bytes (content (blk fs)) (super fs) f cs)) =
        take (unat sz1) (drop (unat offset) ?data)"
      using pos by (simp add: file_bytes_def drop_take)
    moreover have "ReadAt dev fs f offset sz = ReadAt_loop dev fs (ff_cluster f) offset sz1 0 []"
      using 3 pos by (auto simp: ReadAt_def sz1_def)
    ultimately show ?thesis using ReadAt_loop_correct [OF inv chain] by simp
  qed
qed

end

context reliable_device
begin

lemma read_result_reliable:
  "read_result fs want 0 [] r out fs' \<longleftrightarrow> same_device (blk fs) (blk fs') \<and> super fs' = super fs \<and>
     fatfs_inv dev valid content fs' \<and> out = want \<and> r = of_nat (length want)"
  by (auto simp: read_result_def never_fails)

end

lemma ReadAt_bios:
  assumes "fatfs_inv BIOS_ops bios_reliable bios_content fs"
    and "volume_chain (bios_content (blk fs)) 512 (super fs) (ff_cluster f) cs"
  shows "\<exists>fs'. ReadAt BIOS_ops fs f offset sz =
      Some (of_nat (length (take (unat sz) (drop (unat offset)
              (file_bytes (bios_content (blk fs)) (super fs) f cs)))),
            take (unat sz) (drop (unat offset) (file_bytes (bios_content (blk fs)) (super fs) f cs)), fs') \<and>
    fatfs_inv BIOS_ops bios_reliable bios_content fs' \<and> super fs' = super fs \<and>
    bios_content (blk fs') = bios_content (blk fs)"
proof -
  have "unat (SectorSize_op BIOS_ops (blk fs)) = 512"
    by (simp add: BIOS_ops_def BIOSBlockDevice_SectorSize_def)
  then show ?thesis
    using reliable_bios.ReadAt_correct [OF assms(1), of f cs offset sz] assms(2)
    unfolding reliable_bios.read_result_reliable
    by (auto simp: reliable_bios.same_device_def)
qed

text \<open>
  C6. Reading a file from a disk whose loads succeed: whatever the two windows hold when the
  invariant is kept, \<^verbatim>\<open>ReadAt\<close> returns (the loop ends), stores exactly the bytes of the file from
  the offset on, at most as many as asked for and none past the end of the file, returns their
  number, and keeps the invariant. The file is what its FAT chain and its clusters hold.
\<close>

theorem ReadAt_exact:
  assumes "fatfs_inv BIOS_ops bios_reliable bios_content fs"
    and "volume_chain (bios_content (blk fs)) 512 (super fs) (ff_cluster f) cs"
  shows "\<exists>fs'. ReadAt BIOS_ops fs f offset sz =
      Some (of_nat (length (take (unat sz) (drop (unat offset)
              (file_bytes (bios_content (blk fs)) (super fs) f cs)))),
            take (unat sz) (drop (unat offset) (file_bytes (bios_content (blk fs)) (super fs) f cs)), fs') \<and>
    fatfs_inv BIOS_ops bios_reliable bios_content fs' \<and> super fs' = super fs \<and>
    bios_content (blk fs') = bios_content (blk fs)"
  using assms by (rule ReadAt_bios)

text \<open>
  C26. On a disk whose loads may fail \<^verbatim>\<open>ReadAt\<close> still always returns, and it never passes wrong
  data off as a success: either it stores exactly the bytes asked for and returns their number,
  or it returns -1 and what it stored is a beginning of them.
\<close>

theorem ReadAt_error_safe:
  assumes "fatfs_inv BIOS_ops bios_valid bios_content fs"
    and "volume_chain (bios_content (blk fs)) 512 (super fs) (ff_cluster f) cs"
    and "want = take (unat sz) (drop (unat offset) (file_bytes (bios_content (blk fs)) (super fs) f cs))"
  shows "\<exists>r out fs'. ReadAt BIOS_ops fs f offset sz = Some (r, out, fs') \<and>
    (fatfs_inv BIOS_ops bios_valid bios_content fs' \<and> out = want \<and> r = of_nat (length want) \<or>
     r = -1 \<and> (\<exists>n. out = take n want))"
proof -
  have "unat (SectorSize_op BIOS_ops (blk fs)) = 512"
    by (simp add: BIOS_ops_def BIOSBlockDevice_SectorSize_def)
  then show ?thesis
    using bios_disk.ReadAt_correct [OF assms(1), of f cs offset sz] assms(2)
    unfolding assms(3) bios_disk.read_result_def by auto
qed

subsection \<open>An example volume\<close>

text \<open>
  With the geometry of \<^verbatim>\<open>example_super\<close>: the FAT in sector 32, the root directory (cluster 2) in
  sector 50 with one file HELLO.TXT, and its data (cluster 3, 5 bytes) in sector 51.
\<close>

definition hello_entry :: bytes where
  "hello_entry = [72, 69, 76, 76, 79, 32, 32, 32, 84, 88, 84, 0x20, 0, 0, 0, 0, 0, 0, 0, 0,
     0, 0, 0, 0, 0, 0, 3, 0, 5, 0, 0, 0]"

definition example_sector :: "nat \<Rightarrow> bytes" where
  "example_sector n =
     (if n = 32 then [0xF8, 0xFF, 0xFF, 0x0F, 0xFF, 0xFF, 0xFF, 0x0F, 0xFF, 0xFF, 0xFF, 0x0F,
                      0xFF, 0xFF, 0xFF, 0x0F] @ replicate 496 0
      else if n = 50 then hello_entry @ replicate 480 0
      else if n = 51 then [72, 101, 108, 108, 111] @ replicate 507 0
      else replicate 512 0)"

definition example_fs :: "BIOSBlockDevice FatFs" where
  "example_fs = FatFs_new (linear_disk example_sector) example_super (replicate 512 0) (replicate 512 0)"

definition example_file :: FatFile where
  "example_file = \<lparr>ff_cluster = 3, ff_size = 5, ff_flags = 0x20\<rparr>"

lemma example_fs_fields [simp]:
  "super example_fs = example_super" "blk example_fs = linear_disk example_sector"
  by (simp_all add: example_fs_def FatFs_new_def)

lemma example_fs_inv:
  "fatfs_inv BIOS_ops bios_reliable bios_content example_fs"
  "fatfs_inv BIOS_ops bios_valid bios_content example_fs"
proof -
  have "length (example_sector n) = 512" for n by (simp add: example_sector_def hello_entry_def)
  note ok = linear_disk_reliable [OF this]
  show "fatfs_inv BIOS_ops bios_reliable bios_content example_fs"
    "fatfs_inv BIOS_ops bios_valid bios_content example_fs"
    unfolding example_fs_def
    by (rule FatFs_new_inv; simp add: ok BIOS_ops_def BIOSBlockDevice_SectorSize_def example_super_geometry)+
qed

lemma example_clusters:
  "cluster_bytes (bios_content (linear_disk example_sector)) example_super 2 = example_sector 50"
  "cluster_bytes (bios_content (linear_disk example_sector)) example_super 3 = example_sector 51"
  by (simp_all add: cluster_bytes_def example_super_geometry FatSuper_ClusterIndex2Sector_def
      linear_disk_content)

lemma example_chains:
  "volume_chain (bios_content (linear_disk example_sector)) 512 example_super 2 [2]"
  "volume_chain (bios_content (linear_disk example_sector)) 512 example_super 3 [3]"
proof -
  have "fat_entry (bios_content (linear_disk example_sector)) 512 example_super c = 0x0FFFFFFF"
    if "c = 2 \<or> c = 3" for c
    using that
    by (auto simp: fat_entry_def fat_sector_def example_super_geometry linear_disk_content
        example_sector_def word_in_def le32_def)
  then show "volume_chain (bios_content (linear_disk example_sector)) 512 example_super 2 [2]"
    "volume_chain (bios_content (linear_disk example_sector)) 512 example_super 3 [3]"
    by (simp_all add: volume_chain_def example_super_geometry)
qed

theorem ReadAt_exact_witness:
  "\<exists>fs'. ReadAt BIOS_ops example_fs example_file 1 3 = Some (3, [101, 108, 108], fs')"
  using ReadAt_exact [OF example_fs_inv(1), of example_file "[3]" 1 3] example_chains
  by (auto simp: example_file_def file_bytes_def chain_bytes_def example_clusters example_sector_def)

theorem ReadAt_error_safe_witness:
  "\<exists>r out fs'. ReadAt BIOS_ops example_fs example_file 1 3 = Some (r, out, fs') \<and>
     (out = [101, 108, 108] \<and> r = 3 \<or> r = -1 \<and> (\<exists>n. out = take n [101, 108, 108]))"
  using ReadAt_error_safe [OF example_fs_inv(2), of example_file "[3]" "[101, 108, 108]" 3 1] example_chains
  by (auto simp: example_file_def file_bytes_def chain_bytes_def example_clusters example_sector_def)

end
