(* ===== verification/Fat_Path.thy ===== *)
theory Fat_Path
  imports Fat_Fs_Correct
begin

text \<open>
  Directories and paths: the abstract search in the entries of a directory's chain and the
  abstract walk along the components of a path, and that \<^verbatim>\<open>FindInDirectory\<close> and \<^verbatim>\<open>FindByPath\<close>
  compute them.
\<close>

subsection \<open>Searching a directory\<close>

text \<open>The entries of a directory, and the search: up to the end mark, without the entries that
  are deleted or part of a long name.\<close>

definition dir_entries :: "bytes \<Rightarrow> FatDirent list" where
  "dir_entries w = map (entS w) [0 ..< length w div 32]"

definition chain_entries :: "(u32 \<Rightarrow> bytes) \<Rightarrow> FatSuper \<Rightarrow> u32 list \<Rightarrow> FatDirent list" where
  "chain_entries sec s cs = concat (map (\<lambda>c. dir_entries (cluster_bytes sec s c)) cs)"

definition skipped :: "FatDirent \<Rightarrow> bool" where
  "skipped e \<longleftrightarrow> FlagField_IsSet (FatDirent_EntryFlags e) Flags_LongFileName \<or> FatDirent_IsDummiedOut e"

definition named :: "bytes \<Rightarrow> FatDirent \<Rightarrow> bool" where
  "named name e \<longleftrightarrow> \<not> skipped e \<and> cstr (dirent_name e) = cstr name"

definition dir_lookup :: "bytes \<Rightarrow> FatDirent list \<Rightarrow> FatDirent option" where
  "dir_lookup name es = find (named name) (takeWhile (\<lambda>e. \<not> FatDirent_IsLastInList e) es)"

text \<open>FAT forbids short names that start with a blank; entries behind the end mark do not count.\<close>

definition no_blank_names :: "FatDirent list \<Rightarrow> bool" where
  "no_blank_names es \<longleftrightarrow>
     (\<forall>e \<in> set (takeWhile (\<lambda>e. \<not> FatDirent_IsLastInList e) es). \<not> skipped e \<longrightarrow> name_At e 0 \<noteq> 32)"

lemma no_blank_names_Cons:
  "no_blank_names (e # es) \<longleftrightarrow> FatDirent_IsLastInList e \<or> (skipped e \<or> name_At e 0 \<noteq> 32) \<and> no_blank_names es"
  by (auto simp: no_blank_names_def)

lemma no_blank_names_append:
  "no_blank_names (es @ es') \<longleftrightarrow> no_blank_names es \<and> (list_ex FatDirent_IsLastInList es \<or> no_blank_names es')"
proof (induction es)
  case (Cons e es)
  then show ?case by (auto simp: no_blank_names_Cons)
qed (simp add: no_blank_names_def)

lemma entS_wf: "32 * Suc i \<le> length w \<Longrightarrow> FatDirent_wf (entS w i)"
  unfolding entS_def by (rule FatDirent_of_bytes_wf) simp

lemma cstr_append_zero: "cstr (s @ 0 # rest) = cstr s"
  by (induction s) auto

lemma StrEqual_entry_name:
  assumes "FatDirent_wf e" "length junk = 13" "name_At e 0 \<noteq> 32"
  shows "StrEqual (entry_name junk e) name \<longleftrightarrow> cstr (dirent_name e) = cstr name"
  using NameToString_13 [OF assms(1) _ assms(3), of junk] assms(2)
  by (auto simp: entry_name_def StrEqual_iff cstr_append_zero)

text \<open>The scan of one cluster against the search of a list.\<close>

lemma FindInDirectory_scan_eq:
  assumes "32 * (i + n) \<le> length w" "length junk = 13" "no_blank_names (map (entS w) [i ..< i + n])"
  shows "FindInDirectory_scan junk name w i n =
    (case dir_lookup name (map (entS w) [i ..< i + n]) of
       Some e \<Rightarrow> Some (Some e)
     | None \<Rightarrow> if list_ex FatDirent_IsLastInList (map (entS w) [i ..< i + n]) then Some None else None)"
  using assms
proof (induction n arbitrary: i)
  case 0
  then show ?case by (simp add: dir_lookup_def)
next
  case (Suc n)
  have upt: "[i ..< i + Suc n] = i # [Suc i ..< Suc i + n]" by (simp add: upt_rec)
  have ih: "FindInDirectory_scan junk name w (Suc i) n =
    (case dir_lookup name (map (entS w) [Suc i ..< Suc i + n]) of
       Some e \<Rightarrow> Some (Some e)
     | None \<Rightarrow> if list_ex FatDirent_IsLastInList (map (entS w) [Suc i ..< Suc i + n]) then Some None else None)"
    if "\<not> FatDirent_IsLastInList (entS w i)"
    using Suc.prems that unfolding upt by (intro Suc.IH) (auto simp: no_blank_names_Cons)
  have "StrEqual (entry_name junk (entS w i)) name \<longleftrightarrow> cstr (dirent_name (entS w i)) = cstr name"
    if "\<not> FatDirent_IsLastInList (entS w i)" "\<not> skipped (entS w i)"
    using Suc.prems that unfolding upt
    by (intro StrEqual_entry_name entS_wf) (simp_all add: no_blank_names_Cons)
  then show ?case using ih
    unfolding upt FindInDirectory_scan.simps Let_def
    by (auto simp: dir_lookup_def named_def skipped_def simp del: upt_Suc)
qed

lemma dir_lookup_append:
  "dir_lookup name (es @ es') =
    (case dir_lookup name es of Some e \<Rightarrow> Some e
     | None \<Rightarrow> if list_ex FatDirent_IsLastInList es then None else dir_lookup name es')"
  by (induction es) (auto simp: dir_lookup_def split: option.splits)

context block_device
begin

text \<open>The outcome of a search: the expected one with the invariant kept, or an I/O error.\<close>

definition find_result ::
    "'d FatFs \<Rightarrow> FindResult \<times> FatFile \<Rightarrow> (FindResult \<times> FatFile \<times> 'd FatFs) option \<Rightarrow> bool" where
  "find_result fs want r \<longleftrightarrow> (\<exists>res out fs'. r = Some (res, out, fs') \<and>
     same_device (blk fs) (blk fs') \<and> super fs' = super fs \<and>
     (fatfs_inv dev valid content fs' \<and> (res, out) = want \<or> res = IOError \<and> may_fail (blk fs)))"

lemma find_result_later:
  assumes "find_result fs1 want r" "same_device (blk fs) (blk fs1)" "super fs1 = super fs"
  shows "find_result fs want r"
  using assms same_device_trans [OF assms(2)] may_fail_same [OF assms(2)]
  unfolding find_result_def by metis

lemma FindInDirectory_loop_correct:
  assumes "fatfs_inv dev valid content fs"
    and "volume_chain (content (blk fs)) (unat (SectorSize_op dev (blk fs))) (super fs) c cs"
    and "length junk = 13" and "no_blank_names (chain_entries (content (blk fs)) (super fs) cs)"
  shows "find_result fs
    (case dir_lookup name (chain_entries (content (blk fs)) (super fs) cs) of
       Some e \<Rightarrow> (Ok, file_of_entry e) | None \<Rightarrow> (NoEntry, out))
    (FindInDirectory_loop dev junk fs name c out)"
  using assms
proof (induction cs arbitrary: fs c)
  case Nil
  then show ?case
    by (simp add: FindInDirectory_loop.simps volume_chain_def chain_entries_def find_result_def
        dir_lookup_def fatfs_inv_def flip: not_less)
next
  case (Cons x cs)
  let ?sec = "content (blk fs)" and ?ss = "unat (SectorSize_op dev (blk fs))"
  let ?d = "cluster_bytes ?sec (super fs) c"
  have inv: "fatfs_inv dev valid content fs" by fact
  have c: "x = c" "2 \<le> c" "c < 0x0FFFFFF0" "4 * unat c < ?ss * unat (FatSuper_SectorsPerFat (super fs))"
    "volume_chain ?sec ?ss (super fs) (fat_entry ?sec ?ss (super fs) c) cs"
    using Cons.prems(2) by (simp_all add: volume_chain_def)
  have v: "valid (blk fs)" using inv by (simp add: fatfs_inv_def)
  have entries: "chain_entries ?sec (super fs) (x # cs) = dir_entries ?d @ chain_entries ?sec (super fs) cs"
    using c(1) by (simp add: chain_entries_def)
  have blank: "no_blank_names (dir_entries ?d)"
    "\<not> list_ex FatDirent_IsLastInList (dir_entries ?d) \<Longrightarrow> no_blank_names (chain_entries ?sec (super fs) cs)"
    using Cons.prems(4) unfolding entries by (simp_all add: no_blank_names_append)
  obtain ok fs1 where load: "LoadDataCluster dev fs c = (ok, fs1)" by fastforce
  have "c \<noteq> 0xFFFFFFFF" using c(3) by auto
  note L = LoadDataCluster_correct [OF inv load c(2) this]
  show ?case
  proof (cases ok)
    case False
    then show ?thesis using L load c(3)
      by (simp add: FindInDirectory_loop.simps [of dev junk fs] find_result_def)
  next
    case True
    have same: "same_device (blk fs) (blk fs1)" "super fs1 = super fs" "dataWindow fs1 = ?d"
      and inv1: "fatfs_inv dev valid content fs1"
      using L True by simp_all
    have dev1: "content (blk fs1) = ?sec" "SectorSize_op dev (blk fs1) = SectorSize_op dev (blk fs)"
      using same by (simp_all add: same_device_def)
    obtain nx fs2 where read: "ReadFatIndex dev fs1 c = (nx, fs2)" by fastforce
    note N = ReadFatIndex_correct [OF inv1 read c(3), unfolded same(2) dev1, OF c(4)]
    have same2: "same_device (blk fs) (blk fs2)" using N same(1) same_device_trans by blast
    show ?thesis
    proof (cases nx)
      case None
      then have "may_fail (blk fs)" using N may_fail_same [OF same(1)] by simp
      then show ?thesis using None True load read c(3) N same2
        by (simp add: FindInDirectory_loop.simps [of dev junk fs] find_result_def)
    next
      case (Some nxt)
      have dev2: "content (blk fs2) = ?sec" "super fs2 = super fs" "dataWindow fs2 = ?d"
        "SectorSize_op dev (blk fs2) = SectorSize_op dev (blk fs)"
        and inv2: "fatfs_inv dev valid content fs2"
        using N same same2 Some by (simp_all add: same_device_def)
      have chain2: "volume_chain (content (blk fs2)) (unat (SectorSize_op dev (blk fs2))) (super fs2) nxt cs"
        using N Some c(5) dev2 by simp
      have n: "unat (BytesPerCluster dev fs2) = length ?d"
        by (simp add: BytesPerCluster_unat length_cluster_bytes [OF v] dev2)
      have scan: "FindInDirectory_scan junk name ?d 0 (length ?d div 32) =
        (case dir_lookup name (dir_entries ?d) of Some e \<Rightarrow> Some (Some e)
         | None \<Rightarrow> if list_ex FatDirent_IsLastInList (dir_entries ?d) then Some None else None)"
        using FindInDirectory_scan_eq [of 0 "length ?d div 32" ?d junk name] blank(1) Cons.prems(3)
        by (simp add: dir_entries_def)
      have ih: "find_result fs2 (case dir_lookup name (chain_entries ?sec (super fs) cs) of
          Some e \<Rightarrow> (Ok, file_of_entry e) | None \<Rightarrow> (NoEntry, out))
          (FindInDirectory_loop dev junk fs2 name nxt out)"
        if "\<not> list_ex FatDirent_IsLastInList (dir_entries ?d)"
        using that Cons.IH [OF inv2 chain2 Cons.prems(3)] blank(2) unfolding dev2 by blast
      have unfold: "FindInDirectory_loop dev junk fs name c out =
        (case FindInDirectory_scan junk name ?d 0 (length ?d div 32) of
           None \<Rightarrow> FindInDirectory_loop dev junk fs2 name nxt out
         | Some None \<Rightarrow> Some (NoEntry, out, fs2)
         | Some (Some e) \<Rightarrow> Some (Ok, file_of_entry e, fs2))"
        using True load read Some c(3) n dev2(3)
        by (simp add: FindInDirectory_loop.simps [of dev junk fs])
      show ?thesis
        using find_result_later [OF ih same2 dev2(2)] same2 dev2(2) inv2
        unfolding entries dir_lookup_append unfold scan
        by (auto simp: find_result_def split: option.splits)
    qed
  qed
qed

end

subsection \<open>Walking a path\<close>

definition name_char :: "u8 \<Rightarrow> bool" where
  "name_char c \<longleftrightarrow> c \<noteq> 0 \<and> \<not> is_sep c"

text \<open>The components of a path: the runs between separators, up to the end of the string.\<close>

function path_components :: "bytes \<Rightarrow> bytes list" where
  "path_components name =
     (if name = [] \<or> hd name = 0 then []
      else if is_sep (hd name) then path_components (dropWhile is_sep name)
      else takeWhile name_char name # path_components (dropWhile name_char name))"
  by pat_completeness auto

lemma dropWhile_shorter: "xs \<noteq> [] \<Longrightarrow> P (hd xs) \<Longrightarrow> length (dropWhile P xs) < length xs"
  by (cases xs) (auto simp: le_imp_less_Suc length_dropWhile_le)

termination path_components
  by (relation "measure length") (auto simp: dropWhile_shorter name_char_def)

declare path_components.simps [simp del]

lemma path_component_eq:
  assumes "k \<le> 12"
  shows "path_component k name =
    (if k + length (takeWhile name_char name) \<le> 12
     then Some (takeWhile name_char name, dropWhile name_char name) else None)"
  using assms
proof (induction name arbitrary: k)
  case (Cons c cs)
  show ?case
  proof (cases "name_char c")
    case False
    then show ?thesis using Cons.prems by (auto simp: name_char_def)
  next
    case True
    show ?thesis
    proof (cases "k = 12")
      case False
      moreover have "c \<noteq> 0" "\<not> is_sep c" using True by (simp_all add: name_char_def)
      ultimately show ?thesis using True Cons.prems Cons.IH [of "Suc k"] by simp
    qed (use True in \<open>simp add: name_char_def\<close>)
  qed
qed simp

text \<open>The abstract walk from a file along components, with the file it ends at.\<close>

inductive walks ::
    "(u32 \<Rightarrow> bytes) \<Rightarrow> nat \<Rightarrow> FatSuper \<Rightarrow> FatFile \<Rightarrow> bytes list \<Rightarrow> FindResult \<times> FatFile \<Rightarrow> bool"
  for sec ss s where
  walk_done: "walks sec ss s f [] (Ok, f)"
| walk_invalid: "\<not> IsShortName n \<Longrightarrow> walks sec ss s f (n # ns) (NameInvalid, f)"
| walk_notdir: "\<lbrakk>IsShortName n; \<not> FlagField_IsSet (ff_flags f) Flags_Directory\<rbrakk> \<Longrightarrow>
    walks sec ss s f (n # ns) (NotDir, f)"
| walk_noentry: "\<lbrakk>IsShortName n; FlagField_IsSet (ff_flags f) Flags_Directory;
    volume_chain sec ss s (ff_cluster f) cs; no_blank_names (chain_entries sec s cs);
    dir_lookup n (chain_entries sec s cs) = None\<rbrakk> \<Longrightarrow>
    walks sec ss s f (n # ns) (NoEntry, f)"
| walk_into: "\<lbrakk>IsShortName n; FlagField_IsSet (ff_flags f) Flags_Directory;
    volume_chain sec ss s (ff_cluster f) cs; no_blank_names (chain_entries sec s cs);
    dir_lookup n (chain_entries sec s cs) = Some e;
    walks sec ss s (file_of_entry e) ns r\<rbrakk> \<Longrightarrow>
    walks sec ss s f (n # ns) r"

inductive_cases walks_NilE: "walks sec ss s f [] r"

lemma IsShortName_short: "IsShortName n \<Longrightarrow> length (cstr n) \<le> 12"
  by (simp add: IsShortName_def Let_def split: if_splits)

lemma cstr_component: "cstr (takeWhile name_char name) = takeWhile name_char name"
  by (rule cstr_id) (auto simp: name_char_def dest: set_takeWhileD)

context block_device
begin

lemma FindInDirectory_correct:
  assumes "fatfs_inv dev valid content fs" and "IsShortName n"
    and "FlagField_IsSet (ff_flags f) Flags_Directory"
    and "volume_chain (content (blk fs)) (unat (SectorSize_op dev (blk fs))) (super fs) (ff_cluster f) cs"
    and "length junk = 13" and "no_blank_names (chain_entries (content (blk fs)) (super fs) cs)"
  shows "find_result fs
    (case dir_lookup n (chain_entries (content (blk fs)) (super fs) cs) of
       Some e \<Rightarrow> (Ok, file_of_entry e) | None \<Rightarrow> (NoEntry, out))
    (FindInDirectory dev junk fs f n out)"
  using FindInDirectory_loop_correct [OF assms(1,4-6)] assms(2,3) by (simp add: FindInDirectory_def)

lemma find_result_IOError:
  "find_result fs want r \<Longrightarrow> (\<exists>res out fs'. r = Some (res, out, fs'))"
  by (auto simp: find_result_def)

lemma FindByPath_loop_correct:
  assumes "fatfs_inv dev valid content fs" and "length junk = 13"
    and "walks (content (blk fs)) (unat (SectorSize_op dev (blk fs))) (super fs) f (path_components name) r"
  shows "find_result fs r (FindByPath_loop dev junk fs name f)"
  using assms(1,3)
proof (induction name arbitrary: fs f rule: path_components.induct)
  case (1 name)
  note inv = "1.prems"(1) and walk0 = "1.prems"(2)
  note ih_sep = "1.IH"(1) and ih_rest = "1.IH"(2)
  have v: "valid (blk fs)" using inv by (simp add: fatfs_inv_def)
  let ?sec = "content (blk fs)" and ?ss = "unat (SectorSize_op dev (blk fs))"
  consider "name = [] \<or> hd name = 0" | "name \<noteq> []" "hd name \<noteq> 0" "is_sep (hd name)"
    | "name \<noteq> []" "hd name \<noteq> 0" "\<not> is_sep (hd name)" by blast
  then show ?case
  proof cases
    case a: 1
    then have "path_components name = []" by (subst path_components.simps) auto
    then have "r = (Ok, f)" using walk0 by (auto elim: walks_NilE)
    then show ?thesis using a v inv by (auto simp: FindByPath_loop.simps find_result_def)
  next
    case a: 2
    then have "path_components name = path_components (dropWhile is_sep name)"
      by (subst path_components.simps) auto
    then show ?thesis using ih_sep [OF _ a(3) inv] walk0 a
      by (auto simp: FindByPath_loop.simps [of dev junk fs name])
  next
    case a: 3
    let ?n = "takeWhile name_char name" and ?rest = "dropWhile name_char name"
    have comps: "path_components name = ?n # path_components ?rest"
      using a by (subst path_components.simps) auto
    note walk = walk0 [unfolded comps]
    have unfold: "FindByPath_loop dev junk fs name f =
      (if 12 < length ?n then Some (NameInvalid, f, fs)
       else (case FindInDirectory dev junk fs f ?n f of None \<Rightarrow> None
             | Some (ret, out1, fs1) \<Rightarrow> if ret \<noteq> Ok then Some (ret, out1, fs1)
                 else FindByPath_loop dev junk fs1 ?rest out1))"
      using a by (simp add: FindByPath_loop.simps [of dev junk fs name] path_component_eq)
    from walk show ?thesis
    proof cases
      case walk_invalid
      then show ?thesis using v inv
        by (auto simp: unfold find_result_def FindInDirectory_def)
    next
      case walk_notdir
      then show ?thesis using v inv IsShortName_short [of ?n]
        by (auto simp: unfold find_result_def FindInDirectory_def cstr_component)
    next
      case w: (walk_noentry cs)
      have "find_result fs (NoEntry, f) (FindInDirectory dev junk fs f ?n f)"
        using FindInDirectory_correct [OF inv w(2,3,4) assms(2) w(5), of f] w(6)
        by simp
      then show ?thesis using w(1) IsShortName_short [OF w(2)]
        by (auto simp: unfold find_result_def cstr_component)
    next
      case w: (walk_into cs e)
      have fd: "find_result fs (Ok, file_of_entry e) (FindInDirectory dev junk fs f ?n f)"
        using FindInDirectory_correct [OF inv w(1,2,3) assms(2) w(4), of f] w(5)
        by simp
      then obtain res out fs1 where fd: "FindInDirectory dev junk fs f ?n f = Some (res, out, fs1)"
        and same: "same_device (blk fs) (blk fs1)" "super fs1 = super fs"
        and res: "fatfs_inv dev valid content fs1 \<and> res = Ok \<and> out = file_of_entry e \<or>
          res = IOError \<and> may_fail (blk fs)"
        by (auto simp: find_result_def)
      have short: "\<not> 12 < length ?n" using IsShortName_short [OF w(1)] by (simp add: cstr_component)
      from res show ?thesis
      proof
        assume ok: "fatfs_inv dev valid content fs1 \<and> res = Ok \<and> out = file_of_entry e"
        have "walks (content (blk fs1)) (unat (SectorSize_op dev (blk fs1))) (super fs1)
            (file_of_entry e) (path_components ?rest) r"
          using w(6) same by (simp add: same_device_def)
        from ih_rest [OF _ a(3) _ this] ok a(1,2)
        have "find_result fs1 r (FindByPath_loop dev junk fs1 ?rest (file_of_entry e))" by simp
        from find_result_later [OF this same] show ?thesis
          using ok fd short by (simp add: unfold)
      next
        assume "res = IOError \<and> may_fail (blk fs)"
        then show ?thesis using fd short same by (simp add: unfold find_result_def)
      qed
    qed
  qed
qed

end

context reliable_device
begin

lemma find_result_reliable:
  "find_result fs (res, out) r \<longleftrightarrow> (\<exists>fs'. r = Some (res, out, fs') \<and>
     same_device (blk fs) (blk fs') \<and> super fs' = super fs \<and> fatfs_inv dev valid content fs')"
  by (auto simp: find_result_def never_fails)

end

lemma BIOS_sector_size: "unat (SectorSize_op BIOS_ops d) = 512"
  by (simp add: BIOS_ops_def BIOSBlockDevice_SectorSize_def)

text \<open>
  C7. Path lookup refines the abstract walk: on a disk whose loads succeed \<^verbatim>\<open>FindByPath\<close> returns,
  and with exactly the result of walking the components of the path from the root directory:
  the file found, or that a component is not a short name, is not a directory, or is not
  there. The walk looks each name up among the live entries of the directory's whole chain.
\<close>

theorem FindByPath_refines_walk:
  assumes "fatfs_inv BIOS_ops bios_reliable bios_content fs" and "length junk = 13"
    and "walks (bios_content (blk fs)) 512 (super fs) (RootDir fs) (path_components name) (res, file)"
  shows "\<exists>fs'. FindByPath BIOS_ops junk fs name = Some (res, file, fs') \<and>
    fatfs_inv BIOS_ops bios_reliable bios_content fs'"
  using reliable_bios.FindByPath_loop_correct [OF assms(1,2), of "RootDir fs" name "(res, file)"] assms(3)
  by (auto simp: FindByPath_def BIOS_sector_size reliable_bios.find_result_reliable)

text \<open>
  C27. On a disk whose loads may fail the lookup still returns, with the result of the walk or
  with the I/O error, and never with another answer.
\<close>

theorem FindByPath_error_safe:
  assumes "fatfs_inv BIOS_ops bios_valid bios_content fs" and "length junk = 13"
    and "walks (bios_content (blk fs)) 512 (super fs) (RootDir fs) (path_components name) (res, file)"
  shows "\<exists>res' file' fs'. FindByPath BIOS_ops junk fs name = Some (res', file', fs') \<and>
    (res' = res \<and> file' = file \<or> res' = IOError)"
  using bios_disk.FindByPath_loop_correct [OF assms(1,2), of "RootDir fs" name "(res, file)"] assms(3)
  by (auto simp: FindByPath_def BIOS_sector_size bios_disk.find_result_def)

text \<open>
  Directory search: with a short name and a directory whose chain ends, \<^verbatim>\<open>FindInDirectory\<close>
  returns the first live entry of that name before the end mark, as the cluster, size and
  flags stored in it, or that there is none.
\<close>

theorem FindInDirectory_is_lookup:
  assumes "fatfs_inv BIOS_ops bios_reliable bios_content fs" and "length junk = 13"
    and "IsShortName name" and "FlagField_IsSet (ff_flags dir) Flags_Directory"
    and "volume_chain (bios_content (blk fs)) 512 (super fs) (ff_cluster dir) cs"
    and "no_blank_names (chain_entries (bios_content (blk fs)) (super fs) cs)"
  shows "\<exists>fs'. FindInDirectory BIOS_ops junk fs dir name out =
    (case dir_lookup name (chain_entries (bios_content (blk fs)) (super fs) cs) of
       Some e \<Rightarrow> Some (Ok, file_of_entry e, fs') | None \<Rightarrow> Some (NoEntry, out, fs'))"
  using reliable_bios.FindInDirectory_correct [OF assms(1,3,4) _ assms(2) assms(6), of out] assms(5)
  by (auto simp: BIOS_sector_size reliable_bios.find_result_reliable split: option.splits)

lemma example_entries: "dir_entries (example_sector 50) =
    FatDirent_of_bytes hello_entry # replicate 15 (FatDirent_of_bytes (replicate 32 0))"
proof -
  have len: "length hello_entry = 32" by (simp add: hello_entry_def)
  then have "entS (hello_entry @ replicate 480 0) 0 = FatDirent_of_bytes hello_entry"
    by (simp add: entS_def subbytes_def)
  moreover have "entS (hello_entry @ replicate 480 0) (Suc i) = FatDirent_of_bytes (replicate 32 0)"
    if "i < 15" for i
    using that len by (simp add: entS_def subbytes_def min_def)
  moreover have "[0 ..< 16] = 0 # map Suc [0 ..< 15]" by (simp add: upt_rec)
  moreover have "map (\<lambda>i. f i) [0 ..< 15] = replicate 15 c" if "\<And>i. i < 15 \<Longrightarrow> f i = c"
    for f and c :: FatDirent
    using that by (intro nth_equalityI) simp_all
  ultimately show ?thesis
    using len by (simp add: dir_entries_def example_sector_def comp_def del: upt_Suc)
qed

lemma example_root_entries:
  "no_blank_names (dir_entries (example_sector 50))"
  "dir_lookup [72, 69, 76, 76, 79, 46, 84, 88, 84] (dir_entries (example_sector 50)) =
     Some (FatDirent_of_bytes hello_entry)"
  unfolding example_entries by code_simp+

lemma example_hello:
  "file_of_entry (FatDirent_of_bytes hello_entry) = example_file"
  "IsShortName [72, 69, 76, 76, 79, 46, 84, 88, 84]"
  "path_components [47, 72, 69, 76, 76, 79, 46, 84, 88, 84] = [[72, 69, 76, 76, 79, 46, 84, 88, 84]]"
  by code_simp+

lemma example_root:
  "FlagField_IsSet (ff_flags (RootDir example_fs)) Flags_Directory" "ff_cluster (RootDir example_fs) = 2"
  by (simp_all add: RootDir_def example_super_geometry FlagField_defs Flags_Directory_def)

lemma example_root_chain: "chain_entries (bios_content (linear_disk example_sector)) example_super [2] =
    dir_entries (example_sector 50)"
  by (simp add: chain_entries_def example_clusters)

lemma example_walk:
  "walks (bios_content (blk example_fs)) 512 (super example_fs) (RootDir example_fs)
     (path_components [47, 72, 69, 76, 76, 79, 46, 84, 88, 84]) (Ok, example_file)"
  unfolding example_hello(3)
  by (rule walk_into [where cs = "[2]" and e = "FatDirent_of_bytes hello_entry"])
    (simp_all add: example_hello example_root example_chains example_root_chain example_root_entries walk_done)

theorem FindByPath_refines_walk_witness:
  "\<exists>fs'. FindByPath BIOS_ops (replicate 13 0) example_fs [47, 72, 69, 76, 76, 79, 46, 84, 88, 84] =
     Some (Ok, example_file, fs')"
  using FindByPath_refines_walk [OF example_fs_inv(1) _ example_walk, of "replicate 13 0"] by auto

theorem FindByPath_error_safe_witness:
  "\<exists>res' file' fs'. FindByPath BIOS_ops (replicate 13 0) example_fs
     [47, 72, 69, 76, 76, 79, 46, 84, 88, 84] = Some (res', file', fs') \<and>
     (res' = Ok \<and> file' = example_file \<or> res' = IOError)"
  using FindByPath_error_safe [OF example_fs_inv(2) _ example_walk, of "replicate 13 0"] by auto

theorem FindInDirectory_is_lookup_witness:
  "\<exists>fs'. FindInDirectory BIOS_ops (replicate 13 0) example_fs (RootDir example_fs)
     [72, 69, 76, 76, 79, 46, 84, 88, 84] (RootDir example_fs) = Some (Ok, example_file, fs')"
  using FindInDirectory_is_lookup [OF example_fs_inv(1), of "replicate 13 0"
      "[72, 69, 76, 76, 79, 46, 84, 88, 84]" "RootDir example_fs" "[2]" "RootDir example_fs"]
  by (simp add: example_hello example_root example_chains example_root_chain example_root_entries)

text \<open>
  The data window goes stale: when a load fails in the middle of a cluster the window holds
  part of the new cluster, but its tag still names the old one, so asking for the old cluster
  again reports success without loading anything, whatever the window holds.
\<close>

theorem LoadDataCluster_stale:
  assumes "LoadDataCluster dev fs c = (False, fs')" and "2 \<le> currentDataCluster fs"
  shows "currentDataCluster fs' = currentDataCluster fs \<and>
    LoadDataCluster dev fs' (currentDataCluster fs) = (True, fs')"
proof -
  have "currentDataCluster fs2 = currentDataCluster fs1"
    if "LoadDataCluster_loop dev lba i n fs1 = (ok, fs2)" for lba i n fs1 ok fs2
    using that
    by (induction n arbitrary: i fs1) (auto simp: Let_def split: prod.splits if_splits)
  then have "currentDataCluster fs' = currentDataCluster fs"
    using assms(1) by (auto simp: LoadDataCluster_def Let_def split: prod.splits if_splits)
  moreover have "\<not> currentDataCluster fs < 2" using assms(2) by (simp add: not_less)
  ultimately show ?thesis by (simp add: LoadDataCluster_def)
qed

text \<open>A device that can read nothing but sector 50, and overwrites the buffer when it fails.\<close>

definition broken_ops :: "unit IBlockDevice" where
  "broken_ops = \<lparr>LoadSector_op = (\<lambda>d i buf. if i = 50 then (True, map (\<lambda>_. 1) buf, d)
     else (False, map (\<lambda>_. 2) buf, d)), SectorSize_op = (\<lambda>d. 4)\<rparr>"

definition stale_fs :: "unit FatFs" where
  "stale_fs = snd (LoadDataCluster broken_ops
     (FatFs_new () example_super [0, 0, 0, 0] [0, 0, 0, 0]) 2)"

theorem LoadDataCluster_stale_witness:
  "dataWindow stale_fs = [1, 1, 1, 1] \<and> currentDataCluster stale_fs = 2 \<and>
   (\<exists>fs'. LoadDataCluster broken_ops stale_fs 3 = (False, fs') \<and>
     dataWindow fs' = [2, 2, 2, 2] \<and> LoadDataCluster broken_ops fs' 2 = (True, fs'))"
proof -
  have st: "stale_fs = \<lparr>blk = (), fatWindow = [0, 0, 0, 0], dataWindow = [1, 1, 1, 1],
      super = example_super, currentFatSector = 0xFFFFFFFF, currentDataCluster = 2\<rparr>"
    by (simp add: stale_fs_def LoadDataCluster_def FatFs_new_def broken_ops_def Let_def
        FatSuper_ClusterIndex2Sector_def example_super_geometry subbytes_def overwrite_def)
  have fail: "LoadDataCluster broken_ops stale_fs 3 = (False, stale_fs\<lparr>dataWindow := [2, 2, 2, 2]\<rparr>)"
    unfolding st
    by (simp add: LoadDataCluster_def broken_ops_def Let_def
        FatSuper_ClusterIndex2Sector_def example_super_geometry subbytes_def overwrite_def)
  from LoadDataCluster_stale [OF fail] show ?thesis by (simp add: st fail [unfolded st])
qed

text \<open>
  Reading from an empty regular file fails: FAT stores size 0 and cluster 0 for it, size 0
  switches the size check off, and cluster 0 cannot be loaded, so any read of at least one byte
  at an offset inside a cluster returns -1 instead of 0.
\<close>

theorem ReadAt_empty_file:
  assumes "ff_size f = 0" and "ff_cluster f = 0" and "0 < sz" and "offset < BytesPerCluster dev fs"
  shows "ReadAt dev fs f offset sz = Some (-1, [], fs)"
  using assms
  by (simp add: ReadAt_def ReadAt_loop.simps [of dev fs 0] ReadAt_round_def LoadDataCluster_def)

theorem ReadAt_empty_file_witness:
  "ReadAt BIOS_ops example_fs \<lparr>ff_cluster = 0, ff_size = 0, ff_flags = 0x20\<rparr> 0 16 = Some (-1, [], example_fs)"
  by (rule ReadAt_empty_file)
    (simp_all add: BytesPerCluster_def example_super_geometry BIOS_ops_def BIOSBlockDevice_SectorSize_def)

end
