(* ===== verification/Stage2_Header.thy ===== *)
theory Stage2_Header
  imports Partition
begin

text \<open>
  The header in front of the second stage (\<^verbatim>\<open>include/Stage2Header.h\<close>): 28 packed bytes at the
  start of the image, with a checksum over the whole image. The image is a byte list; reading
  a word past its end is \<^verbatim>\<open>None\<close>.
\<close>

subsection \<open>Operations\<close>

definition Stage2Magic :: u32 where "Stage2Magic = 0xD0D0CACA"
definition Stage2Location :: u16 where "Stage2Location = 0x1000"

text \<open>Offsets of the fields: magic 0, checksum 4, sector count 8, boot drive 10, MBR entry 12.\<close>

definition Stage2Header_new :: bytes where
  "Stage2Header_new = UnalignedInt_Set 4 Stage2Magic @ replicate 24 0"

definition hdr_magic :: "bytes \<Rightarrow> u32" where
  "hdr_magic img = UnalignedInt_Read32 (subbytes 0 4 img)"

definition hdr_checksum :: "bytes \<Rightarrow> u32" where
  "hdr_checksum img = UnalignedInt_Read32 (subbytes 4 4 img)"

definition hdr_sectorCount :: "bytes \<Rightarrow> u16" where
  "hdr_sectorCount img = UnalignedInt_Read16 (subbytes 8 2 img)"

definition Stage2Header_SetSectorCount :: "bytes \<Rightarrow> u32 \<Rightarrow> bytes" where
  "Stage2Header_SetSectorCount img size0 =
     (let c = ucast (size0 div 512) :: u16;
          c' = (if size0 mod 512 \<noteq> 0 then c + 1 else c)
      in overwrite 8 (UnalignedInt_Set 2 c') img)"

definition Stage2Header_SectorCount :: "bytes \<Rightarrow> nat" where
  "Stage2Header_SectorCount img = unat (hdr_sectorCount img)"

definition image_word :: "bytes \<Rightarrow> nat \<Rightarrow> u32 option" where
  "image_word img k = (if 4 * k + 4 \<le> length img then Some (UnalignedInt_Read32 (subbytes (4 * k) 4 img)) else None)"

fun ComputeChecksum_loop :: "bytes \<Rightarrow> nat \<Rightarrow> nat \<Rightarrow> u32 \<Rightarrow> u32 option" where
  "ComputeChecksum_loop img k 0 acc = Some acc"
| "ComputeChecksum_loop img k (Suc count) acc =
     (case image_word img k of None \<Rightarrow> None
      | Some w \<Rightarrow> ComputeChecksum_loop img (Suc k) count (acc + w))"

definition Stage2Header_ComputeChecksum :: "bytes \<Rightarrow> u32 option" where
  "Stage2Header_ComputeChecksum img =
     ComputeChecksum_loop img 0 (unat (hdr_sectorCount img) * 128) 0"

definition Stage2Header_UpdateChecksum :: "bytes \<Rightarrow> bytes option" where
  "Stage2Header_UpdateChecksum img =
     (let img0 = overwrite 4 (UnalignedInt_Set 4 (0 :: u32)) img
      in case Stage2Header_ComputeChecksum img0 of None \<Rightarrow> None
         | Some acc \<Rightarrow> Some (overwrite 4 (UnalignedInt_Set 4 (NOT acc + 1)) img0))"

definition Stage2Header_Verify :: "bytes \<Rightarrow> u32 \<Rightarrow> bool option" where
  "Stage2Header_Verify img maxSectors =
     (if hdr_magic img \<noteq> Stage2Magic then Some False
      else if hdr_sectorCount img = 0 \<or> ucast (hdr_sectorCount img) > maxSectors then Some False
      else if hdr_checksum img = 0 then Some False
      else map_option (\<lambda>acc. acc = 0) (Stage2Header_ComputeChecksum img))"

definition Stage2Header_SetBiosBootDrive :: "bytes \<Rightarrow> u8 \<Rightarrow> bytes" where
  "Stage2Header_SetBiosBootDrive img drive = overwrite 10 [drive] img"

definition Stage2Header_BiosBootDrive :: "bytes \<Rightarrow> u8" where
  "Stage2Header_BiosBootDrive img = img ! 10"

definition Stage2Header_SetBootMBREntry :: "bytes \<Rightarrow> MBREntry \<Rightarrow> bytes" where
  "Stage2Header_SetBootMBREntry img ent = overwrite 12 (MBREntry_bytes ent) img"

definition Stage2Header_BootMBREntry :: "bytes \<Rightarrow> MBREntry" where
  "Stage2Header_BootMBREntry img = MBREntry_of_bytes (subbytes 12 16 img)"

subsection \<open>The checksum as a sum\<close>

definition word_of :: "bytes \<Rightarrow> nat \<Rightarrow> u32" where
  "word_of img k = UnalignedInt_Read32 (subbytes (4 * k) 4 img)"

lemma ComputeChecksum_loop_eq:
  assumes "4 * (k + n) \<le> length img"
  shows "ComputeChecksum_loop img k n acc = Some (acc + (\<Sum>i = k ..< k + n. word_of img i))"
  using assms
proof (induction n arbitrary: k acc)
  case (Suc n)
  have "(\<Sum>i = k ..< k + Suc n. word_of img i) = word_of img k + (\<Sum>i = Suc k ..< Suc k + n. word_of img i)"
    by (simp add: sum.atLeast_Suc_lessThan)
  moreover have "image_word img k = Some (word_of img k)"
    using Suc.prems by (simp add: image_word_def word_of_def)
  ultimately show ?case using Suc.IH [of "Suc k" "acc + word_of img k"] Suc.prems by (simp add: add.assoc)
qed simp

definition image_ok :: "bytes \<Rightarrow> bool" where
  "image_ok img \<longleftrightarrow> 0 < hdr_sectorCount img \<and> 512 * unat (hdr_sectorCount img) \<le> length img"

lemma image_ok_length: "image_ok img \<Longrightarrow> 512 \<le> length img"
  unfolding image_ok_def word_less_nat_alt by simp

lemma ComputeChecksum_eq:
  assumes "image_ok img"
  shows "Stage2Header_ComputeChecksum img = Some (\<Sum>i < unat (hdr_sectorCount img) * 128. word_of img i)"
  using assms ComputeChecksum_loop_eq [of 0 "unat (hdr_sectorCount img) * 128" img 0]
  by (simp add: Stage2Header_ComputeChecksum_def image_ok_def atLeast0LessThan)

text \<open>Overwriting the checksum field changes word 1 and nothing else of the image.\<close>

lemma set_checksum:
  fixes v :: u32
  assumes "8 \<le> length img"
  shows "word_of (overwrite 4 (UnalignedInt_Set 4 v) img) k = (if k = 1 then v else word_of img k)"
proof -
  consider "k = 0" | "k = 1" | "2 \<le> k" by linarith
  then show ?thesis
  proof cases
    case 3
    then show ?thesis using assms
      by (simp add: word_of_def subbytes_overwrite_after)
  qed (use assms in \<open>simp_all add: word_of_def subbytes_overwrite_before Read32_Set\<close>)
qed

lemma set_checksum_fields:
  fixes v :: u32
  assumes "10 \<le> length img"
  shows "hdr_sectorCount (overwrite 4 (UnalignedInt_Set 4 v) img) = hdr_sectorCount img"
    "hdr_magic (overwrite 4 (UnalignedInt_Set 4 v) img) = hdr_magic img"
    "hdr_checksum (overwrite 4 (UnalignedInt_Set 4 v) img) = v"
  using assms
  by (simp_all add: hdr_sectorCount_def hdr_magic_def hdr_checksum_def subbytes_overwrite_after
      subbytes_overwrite_before Read32_Set)

lemma sum_word_update:
  fixes f g :: "nat \<Rightarrow> u32"
  assumes "j < n" "\<And>i. i \<noteq> j \<Longrightarrow> g i = f i"
  shows "(\<Sum>i < n. g i) = (\<Sum>i < n. f i) - f j + g j"
proof -
  have "(\<Sum>i < n. g i) = g j + (\<Sum>i \<in> {..<n} - {j}. g i)" "(\<Sum>i < n. f i) = f j + (\<Sum>i \<in> {..<n} - {j}. f i)"
    using assms(1) by (simp_all add: sum.remove)
  moreover have "(\<Sum>i \<in> {..<n} - {j}. g i) = (\<Sum>i \<in> {..<n} - {j}. f i)"
    using assms(2) by (intro sum.cong) auto
  ultimately show ?thesis by simp
qed

subsection \<open>What the checksum guarantees\<close>

lemma mod_512_eq_0: "(w :: u32) mod 512 = 0 \<longleftrightarrow> unat w mod 512 = 0"
  by (simp add: word_unat_eq_iff unat_mod)

lemma div_512_up: "(n + 511) div 512 = (if n mod 512 = 0 then n div 512 else n div 512 + 1)" for n :: nat
proof -
  obtain q r where n: "n = 512 * q + r" "r < 512"
    by (metis mult_div_mod_eq mod_less_divisor zero_less_numeral)
  show ?thesis
  proof (cases "r = 0")
    case False
    then obtain r' where "r = Suc r'" by (cases r) auto
    then have "n + 511 = 512 * (q + 1) + r'" "r' < 512" using n by simp_all
    then have "(n + 511) div 512 = q + 1" by (metis div_mult_self4 div_less add_0_right zero_neq_numeral)
    then show ?thesis using n False by simp
  qed (use n in simp)
qed

text \<open>The sum over the image with the checksum field taken as zero.\<close>

definition payload_sum :: "bytes \<Rightarrow> u32" where
  "payload_sum img = (\<Sum>i < unat (hdr_sectorCount img) * 128. if i = 1 then 0 else word_of img i)"

lemma image_ok_words: "image_ok img \<Longrightarrow> 1 < unat (hdr_sectorCount img) * 128"
  unfolding image_ok_def word_less_nat_alt by simp

lemma image_ok_set_checksum:
  fixes v :: u32
  assumes "image_ok img"
  shows "image_ok (overwrite 4 (UnalignedInt_Set 4 v) img)"
  using assms image_ok_length [OF assms] by (simp add: image_ok_def set_checksum_fields)

lemma ComputeChecksum_set_checksum:
  fixes v :: u32
  assumes "image_ok img"
  shows "Stage2Header_ComputeChecksum (overwrite 4 (UnalignedInt_Set 4 v) img) = Some (payload_sum img + v)"
proof -
  let ?n = "unat (hdr_sectorCount img) * 128"
  have len: "8 \<le> length img" "10 \<le> length img" using image_ok_length [OF assms] by simp_all
  have "(\<Sum>i < ?n. if i = 1 then v else word_of img i) =
      (\<Sum>i < ?n. if i = 1 then 0 else word_of img i) - 0 + v"
    using sum_word_update [OF image_ok_words [OF assms],
        of "\<lambda>i. if i = 1 then v else word_of img i" "\<lambda>i. if i = 1 then 0 else word_of img i"] by simp
  then show ?thesis
    using ComputeChecksum_eq [OF image_ok_set_checksum [OF assms]]
    by (simp add: set_checksum [OF len(1)] set_checksum_fields [OF len(2)] payload_sum_def)
qed

lemma UpdateChecksum_eq:
  assumes "image_ok img"
  shows "Stage2Header_UpdateChecksum img =
    Some (overwrite 4 (UnalignedInt_Set 4 (- payload_sum img)) img)"
proof -
  have len: "8 \<le> length img" using image_ok_length [OF assms] by simp
  have twice: "overwrite 4 (UnalignedInt_Set 4 a) (overwrite 4 (UnalignedInt_Set 4 b) img) =
      overwrite 4 (UnalignedInt_Set 4 a) img" for a b :: u32
    using len by (simp add: overwrite_def)
  show ?thesis
    using ComputeChecksum_set_checksum [OF assms, of 0]
    by (simp add: Stage2Header_UpdateChecksum_def Let_def twice minus_eq_not_plus_1)
qed

lemma Verify_UpdateChecksum:
  assumes "image_ok img" and "hdr_magic img = Stage2Magic" and "ucast (hdr_sectorCount img) \<le> limit"
  shows "\<exists>img'. Stage2Header_UpdateChecksum img = Some img' \<and> length img' = length img \<and>
    Stage2Header_ComputeChecksum img' = Some 0 \<and>
    Stage2Header_Verify img' limit = Some (payload_sum img \<noteq> 0)"
proof -
  have len: "8 \<le> length img" "10 \<le> length img" using image_ok_length [OF assms(1)] by simp_all
  have "hdr_sectorCount img \<noteq> 0" using assms(1) by (auto simp: image_ok_def)
  with assms(2,3) show ?thesis
    using len UpdateChecksum_eq [OF assms(1)] ComputeChecksum_set_checksum [OF assms(1)]
    by (simp add: Stage2Header_Verify_def set_checksum_fields not_less [symmetric])
qed

text \<open>
  C32. An image prepared by the installer is accepted by the boot sector: after
  \<^verbatim>\<open>UpdateChecksum\<close> the words of the image add up to zero, and \<^verbatim>\<open>Verify\<close> accepts it for every
  limit that admits its sectors, except when the payload itself adds up to zero: the checksum
  is then zero, which \<^verbatim>\<open>Verify\<close> refuses.
\<close>

theorem UpdateChecksum_verifies:
  assumes "image_ok img" and "hdr_magic img = Stage2Magic" and "ucast (hdr_sectorCount img) \<le> limit"
  shows "\<exists>img'. Stage2Header_UpdateChecksum img = Some img' \<and> length img' = length img \<and>
    Stage2Header_ComputeChecksum img' = Some 0 \<and>
    Stage2Header_Verify img' limit = Some (payload_sum img \<noteq> 0)"
  using Verify_UpdateChecksum [OF assms] .

text \<open>
  The checksum detects every change confined to one word: an accepted image in which one of
  the checked words after the first three (the magic number, the checksum and the sector count)
  or the checksum itself is replaced by a different value is no longer accepted.
\<close>

theorem checksum_detects_word:
  assumes "image_ok img" and "Stage2Header_Verify img limit = Some True"
    and "j < unat (hdr_sectorCount img) * 128" and "j = 1 \<or> 3 \<le> j" and "v \<noteq> word_of img j"
  shows "Stage2Header_Verify (overwrite (4 * j) (UnalignedInt_Set 4 v) img) limit = Some False"
proof -
  let ?img = "overwrite (4 * j) (UnalignedInt_Set 4 v) img"
  have fit: "4 * j + 4 \<le> length img"
    using assms(1,3) by (simp add: image_ok_def)
  have len: "12 \<le> length img" using image_ok_length [OF assms(1)] by simp
  have words: "word_of ?img i = (if i = j then v else word_of img i)" for i
  proof -
    consider "i = j" | "i < j" | "j < i" by linarith
    then show ?thesis
      using fit by cases (simp_all add: word_of_def subbytes_overwrite_before subbytes_overwrite_after Read32_Set)
  qed
  have fields: "hdr_sectorCount ?img = hdr_sectorCount img" "hdr_magic ?img = hdr_magic img"
    using assms(4) fit len
    by (auto simp: hdr_sectorCount_def hdr_magic_def subbytes_overwrite_before subbytes_overwrite_after)
  have ok: "image_ok ?img" using assms(1) fields fit by (simp add: image_ok_def)
  have zero: "(\<Sum>i < unat (hdr_sectorCount img) * 128. word_of img i) = 0"
    using assms(2) ComputeChecksum_eq [OF assms(1)] by (auto simp: Stage2Header_Verify_def split: if_splits)
  have "(\<Sum>i < unat (hdr_sectorCount img) * 128. word_of ?img i) = v - word_of img j"
    using sum_word_update [OF assms(3), of "word_of ?img" "word_of img"] words zero by simp
  then have "Stage2Header_ComputeChecksum ?img = Some (v - word_of img j)"
    using ComputeChecksum_eq [OF ok] fields by simp
  with assms(5) show ?thesis
    using ComputeChecksum_eq [OF ok] by (auto simp: Stage2Header_Verify_def)
qed

text \<open>
  \<^verbatim>\<open>SetSectorCount\<close> rounds the size of the image up to whole sectors, for every size the 16
  bit field can hold, and touches no other byte of the header.
\<close>

theorem SetSectorCount_rounds_up:
  assumes "10 \<le> length img" and "unat size0 \<le> 512 * 65535"
  shows "Stage2Header_SectorCount (Stage2Header_SetSectorCount img size0) = (unat size0 + 511) div 512 \<and>
    take 8 (Stage2Header_SetSectorCount img size0) = take 8 img \<and>
    drop 10 (Stage2Header_SetSectorCount img size0) = drop 10 img"
proof -
  let ?c = "ucast (size0 div 512) :: u16"
  have c: "unat ?c = unat size0 div 512"
    using assms(2) by (simp add: unsigned_ucast_eq take_bit_nat_eq_self unat_div)
  have "unat (if size0 mod 512 \<noteq> 0 then ?c + 1 else ?c) = (unat size0 + 511) div 512"
  proof (cases "size0 mod 512 = 0")
    case True
    then show ?thesis using c by (simp add: div_512_up mod_512_eq_0)
  next
    case False
    have "unat size0 div 512 * 512 + unat size0 mod 512 = unat size0" by simp
    moreover have "unat size0 mod 512 \<noteq> 0" using False by (simp add: mod_512_eq_0)
    ultimately have "unat size0 div 512 < 65535" using assms(2) by linarith
    then show ?thesis using False c by (simp add: unat_word_ariths div_512_up mod_512_eq_0)
  qed
  then show ?thesis
    using assms(1)
    by (simp add: Stage2Header_SectorCount_def Stage2Header_SetSectorCount_def hdr_sectorCount_def
        Let_def Read16_Set) (simp add: overwrite_def)
qed

theorem SetSectorCount_rounds_up_witness:
  "Stage2Header_SectorCount (Stage2Header_SetSectorCount Stage2Header_new 1025) = 3"
  using SetSectorCount_rounds_up [of Stage2Header_new 1025] by (simp add: Stage2Header_new_def)

text \<open>A one sector image.\<close>

definition example_image :: bytes where
  "example_image = Stage2Header_SetSectorCount (Stage2Header_new @ replicate 484 0) 512"

lemma example_image_ok:
  "image_ok example_image" "hdr_magic example_image = Stage2Magic" "hdr_sectorCount example_image = 1"
proof -
  have len: "length (Stage2Header_new @ replicate 484 0) = 512" by (simp add: Stage2Header_new_def)
  have "length example_image = 512"
    using len by (simp add: example_image_def Stage2Header_SetSectorCount_def Let_def)
  moreover show cnt: "hdr_sectorCount example_image = 1"
    using len by (simp add: example_image_def Stage2Header_SetSectorCount_def Let_def hdr_sectorCount_def Read16_Set)
  ultimately show "image_ok example_image" by (simp add: image_ok_def)
  have "subbytes 0 4 example_image = subbytes 0 4 (Stage2Header_new @ replicate 484 0)"
    using len by (simp add: example_image_def Stage2Header_SetSectorCount_def Let_def subbytes_overwrite_before)
  then show "hdr_magic example_image = Stage2Magic"
    by (simp add: hdr_magic_def Stage2Header_new_def subbytes_def Read32_Set)
qed

lemma example_payload_sum: "payload_sum example_image = 0xD0D0CACB"
proof -
  let ?p = "UnalignedInt_Set 4 Stage2Magic @ [0, 0, 0, 0, 1, 0]"
  have img: "example_image = ?p @ replicate 502 0"
  proof -
    have "UnalignedInt_Set 2 (1 :: u16) = [1, 0]" "replicate 4 (0 :: u8) = [0, 0, 0, 0]" by code_simp+
    moreover have "replicate 18 (0 :: u8) @ replicate 484 0 = replicate 502 0" by (simp flip: replicate_add)
    ultimately show ?thesis
      by (simp add: example_image_def Stage2Header_SetSectorCount_def Stage2Header_new_def overwrite_def Let_def)
  qed
  have zero: "word_of example_image i = 0" if "3 \<le> i" "i < 128" for i
  proof -
    have "subbytes (4 * i) 4 (q @ replicate 502 0) = replicate 4 (0 :: u8)" if "length q = 10" for q
      using \<open>3 \<le> i\<close> \<open>i < 128\<close> that by (simp add: subbytes_def min_def)
    from this [of ?p] have "subbytes (4 * i) 4 example_image = replicate 4 0"
      unfolding img by (simp del: append_assoc append_Cons append_Nil)
    then show ?thesis by (simp add: word_of_def) code_simp
  qed
  have first: "word_of example_image 0 = Stage2Magic" "word_of example_image 2 = 1"
    unfolding img by (simp_all add: word_of_def subbytes_def Read32_Set) code_simp
  have "payload_sum example_image = (\<Sum>i \<in> {0, 2}. if i = 1 then 0 else word_of example_image i)"
    unfolding payload_sum_def example_image_ok(3)
    by (rule sum.mono_neutral_right) (auto simp: zero)
  then show ?thesis by (simp add: first Stage2Magic_def)
qed

theorem UpdateChecksum_verifies_witness:
  "\<exists>img'. Stage2Header_UpdateChecksum example_image = Some img' \<and> Stage2Header_Verify img' 30 = Some True"
  using UpdateChecksum_verifies [OF example_image_ok(1,2), of 30]
  by (auto simp: example_image_ok(3) example_payload_sum)

definition signed_image :: bytes where
  "signed_image = overwrite 4 (UnalignedInt_Set 4 (- 0xD0D0CACB :: u32)) example_image"

lemma signed_image_ok:
  "image_ok signed_image" "hdr_sectorCount signed_image = 1" "Stage2Header_Verify signed_image 30 = Some True"
proof -
  have len: "10 \<le> length example_image" using image_ok_length [OF example_image_ok(1)] by simp
  show "image_ok signed_image" unfolding signed_image_def by (rule image_ok_set_checksum [OF example_image_ok(1)])
  show "hdr_sectorCount signed_image = 1"
    using set_checksum_fields(1) [OF len] by (simp add: signed_image_def example_image_ok(3))
  show "Stage2Header_Verify signed_image 30 = Some True"
    unfolding signed_image_def
    using ComputeChecksum_set_checksum [OF example_image_ok(1), of "- 0xD0D0CACB"] set_checksum_fields [OF len]
    by (simp add: Stage2Header_Verify_def example_payload_sum example_image_ok)
qed

theorem checksum_detects_word_witness:
  "Stage2Header_Verify (overwrite 400 (UnalignedInt_Set 4 (word_of signed_image 100 + 1)) signed_image) 30 = Some False"
  using checksum_detects_word [OF signed_image_ok(1,3), of 100 "word_of signed_image 100 + 1"]
  by (simp add: signed_image_ok(2))

end
