(* ===== verification/Boot_Sectors.thy ===== *)
theory Boot_Sectors
  imports Bios_Disk Fat_Super Stage2_Header
begin

text \<open>
  The two boot sectors: the master boot record (\<^verbatim>\<open>mbr/mbr.cpp\<close>), which loads the boot sector of
  the first bootable partition, and the volume boot record (\<^verbatim>\<open>vbr/vbr.cpp\<close>), which loads and
  checks the second stage. They work on the byte addressed memory and the BIOS; the way out is
  a value: a jump to the next stage, or the message on the screen of a machine that halts.
\<close>

subsection \<open>Text output\<close>

text \<open>INT 10h calls, by the value of AX (\<^verbatim>\<open>include/BIOS/BIOSTextMode.h\<close>).\<close>

definition BIOSTextMode_Reset :: u16 where
  "BIOSTextMode_Reset = 0x0003"

definition BIOSTextMode_PutChar :: "u8 \<Rightarrow> u16" where
  "BIOSTextMode_PutChar c = 0x0e00 OR ucast c"

datatype boot_result =
    Hang "u16 list"
  | CallVbr u8 u32 mem
  | EnterStage2 u32 mem

fun dump_chars :: "bytes \<Rightarrow> u16 list" where
  "dump_chars [] = []"
| "dump_chars (c # msg) = (if c \<noteq> 0 then BIOSTextMode_PutChar c # dump_chars msg else [])"

definition DumpMessageAndHang :: "bytes \<Rightarrow> boot_result" where
  "DumpMessageAndHang msg = Hang (BIOSTextMode_Reset # dump_chars msg)"

subsection \<open>The master boot record\<close>

definition msgResetDrv :: bytes where "msgResetDrv = text_bytes ''Drive reset failed!''"
definition msgNoBootPart :: bytes where "msgNoBootPart = text_bytes ''No boot partition found!''"
definition msgFailLoad :: bytes where "msgFailLoad = text_bytes ''Failed to load VBR boot sector!''"
definition msgNoMagic :: bytes where "msgNoMagic = text_bytes ''VBR boot sector has no magic number!''"

definition bootSector :: u32 where "bootSector = 0x7C00"
definition partTable :: u32 where "partTable = 0x0600 + 446"

fun mbr_scan :: "u8 \<Rightarrow> Bios \<Rightarrow> mem \<Rightarrow> nat \<Rightarrow> MBREntry list \<Rightarrow> boot_result" where
  "mbr_scan disk b m i [] = DumpMessageAndHang msgNoBootPart"
| "mbr_scan disk b m i (it # its) =
     (if \<not> MBREntry_IsBootable it then mbr_scan disk b m (Suc i) its
      else
        let (ok1, b1) = BiosDisk_Reset disk b in
        if \<not> ok1 then DumpMessageAndHang msgResetDrv
        else
          let (ok2, buf, b2) = BiosDisk_LoadSectors disk b1 (MBREntry_StartAddressCHS it)
                                 (mem_read m bootSector 512) 1;
              m2 = mem_write m bootSector buf
          in if \<not> ok2 then DumpMessageAndHang msgFailLoad
             else if UnalignedInt_Read16 (mem_read m2 (bootSector + 510) 2) \<noteq> 0xAA55
             then DumpMessageAndHang msgNoMagic
             else CallVbr disk (partTable + of_nat (16 * i)) m2)"

definition mbr_main :: "u8 \<Rightarrow> Bios \<Rightarrow> mem \<Rightarrow> boot_result" where
  "mbr_main disk b m = mbr_scan disk b m 0 (entries (MBRTable_of_bytes (mem_read m partTable 66)))"

subsection \<open>The volume boot record\<close>

definition msgErrLoad :: bytes where "msgErrLoad = text_bytes ''Error loading stage 2!''"
definition msgErrBroken :: bytes where "msgErrBroken = text_bytes ''Stage 2 corrupted!''"

text \<open>
  The header is read from the sectors that were loaded: \<^verbatim>\<open>Verify\<close> sums no more sectors than
  its argument, which is their number.
\<close>

definition vbr_main :: "u8 \<Rightarrow> Bios \<Rightarrow> mem \<Rightarrow> MBREntry \<Rightarrow> boot_result" where
  "vbr_main disk b m ent =
     (let super = FatSuper_of_bytes (mem_read m 0x7c00 512);
          part = ent;
          count0 = FatSuper_ReservedSectors super
      in if count0 < 3 then DumpMessageAndHang msgErrLoad
         else
           let count1 = count0 - 2;
               count = (if count1 > 30 then 30 else count1);
               src0 = MBREntry_StartAddressCHS part;
               src = CHSPacked_SetSector src0 (CHSPacked_Sector src0 + 2);
               dst = ucast Stage2Location;
               (ok, buf, b1) = BiosDisk_LoadSectors disk b src
                 (mem_read m dst (512 * unat count)) (ucast count);
               m1 = mem_write m dst buf
           in if \<not> ok then DumpMessageAndHang msgErrLoad
              else
                let hdr = mem_read m1 dst (512 * unat count)
                in if Stage2Header_Verify hdr (ucast count) \<noteq> Some True
                   then DumpMessageAndHang msgErrBroken
                   else
                     let hdr' = Stage2Header_SetBootMBREntry (Stage2Header_SetBiosBootDrive hdr disk) part
                     in EnterStage2 (dst + 28) (mem_write m1 dst hdr'))"

subsection \<open>What the master boot record loads\<close>

lemma mbr_scan_CallVbr:
  assumes "mbr_scan disk b m i its = CallVbr d a m'" "int13_documented b"
  shows "\<exists>j < length its. MBREntry_IsBootable (its ! j) \<and> (\<forall>k < j. \<not> MBREntry_IsBootable (its ! k)) \<and>
    d = disk \<and> a = partTable + of_nat (16 * (i + j)) \<and>
    (let chs = MBREntry_StartAddressCHS (its ! j);
         sector = bios_medium b disk (unat (CHSPacked_Cylinder chs)) (unat (CHSPacked_Head chs))
                    (unat (CHSPacked_Sector chs))
     in m' = mem_write m bootSector sector \<and>
        UnalignedInt_Read16 (mem_read m' (bootSector + 510) 2) = 0xAA55)"
  using assms
proof (induction its arbitrary: i)
  case Nil
  then show ?case by (simp add: DumpMessageAndHang_def)
next
  case (Cons it its)
  show ?case
  proof (cases "MBREntry_IsBootable it")
    case False
    then obtain j where j: "j < length its" "MBREntry_IsBootable (its ! j)"
      "\<forall>k < j. \<not> MBREntry_IsBootable (its ! k)" "d = disk" "a = partTable + of_nat (16 * (Suc i + j))"
      "let chs = MBREntry_StartAddressCHS (its ! j);
         sector = bios_medium b disk (unat (CHSPacked_Cylinder chs)) (unat (CHSPacked_Head chs))
                    (unat (CHSPacked_Sector chs))
       in m' = mem_write m bootSector sector \<and>
          UnalignedInt_Read16 (mem_read m' (bootSector + 510) 2) = 0xAA55"
      using Cons.IH [of "Suc i"] Cons.prems by auto
    then show ?thesis
      using False by (intro exI [of _ "Suc j"]) (auto simp: less_Suc_eq_0_disj)
  next
    case True
    obtain ok1 b1 where r1: "BiosDisk_Reset disk b = (ok1, b1)" by fastforce
    let ?chs = "MBREntry_StartAddressCHS it"
    obtain ok2 buf b2 where r2: "BiosDisk_LoadSectors disk b1 ?chs (mem_read m bootSector 512) 1 = (ok2, buf, b2)"
      by (metis prod_cases3)
    have steps: "ok1" "ok2" "d = disk" "a = partTable + of_nat (16 * i)" "m' = mem_write m bootSector buf"
      "UnalignedInt_Read16 (mem_read m' (bootSector + 510) 2) = 0xAA55"
      using Cons.prems(1) True r1 r2 by (auto simp: DumpMessageAndHang_def Let_def split: if_splits)
    have b1: "int13_documented b1" "bios_medium b1 = bios_medium b"
      using r1 Cons.prems(2) by (auto simp: BiosDisk_Reset_def int13_def Let_def split: prod.splits)
    have "buf = bios_medium b disk (unat (CHSPacked_Cylinder ?chs)) (unat (CHSPacked_Head ?chs))
        (unat (CHSPacked_Sector ?chs))"
      using BiosDisk_LoadSectors_reads [OF b1(1) _ r2 [unfolded eqTrueI [OF steps(2)]]] b1(2) by simp
    then show ?thesis using steps True by (intro exI [of _ 0]) (simp add: Let_def)
  qed
qed

text \<open>
  C31. The master boot record hands over only to a boot sector that it has loaded: on a
  documented BIOS, when it calls the volume boot record the entry passed on is the first
  bootable one of the table at 0x7BE, memory differs only by the boot sector at 0x7C00, which
  is the medium's sector at the start address of that entry, and it ends in the signature.
\<close>

theorem mbr_loads_bootable:
  assumes "int13_documented b" and "mbr_main disk b m = CallVbr d a m'"
    and "table = entries (MBRTable_of_bytes (mem_read m (0x0600 + 446) 66))"
  shows "\<exists>j < 4. MBREntry_IsBootable (table ! j) \<and> (\<forall>k < j. \<not> MBREntry_IsBootable (table ! k)) \<and>
    d = disk \<and> a = 0x0600 + 446 + of_nat (16 * j) \<and>
    (\<exists>sector. sector = bios_medium b disk (unat (CHSPacked_Cylinder (MBREntry_StartAddressCHS (table ! j))))
         (unat (CHSPacked_Head (MBREntry_StartAddressCHS (table ! j))))
         (unat (CHSPacked_Sector (MBREntry_StartAddressCHS (table ! j)))) \<and>
       m' = mem_write m 0x7C00 sector \<and>
       UnalignedInt_Read16 (mem_read m' (0x7C00 + 510) 2) = 0xAA55)"
  using mbr_scan_CallVbr [OF assms(2) [unfolded mbr_main_def] assms(1)] unfolding assms(3)
  by (simp add: Let_def partTable_def bootSector_def)

subsection \<open>What the volume boot record loads\<close>

definition vbr_count :: "mem \<Rightarrow> u16" where
  "vbr_count m = (let n = FatSuper_ReservedSectors (FatSuper_of_bytes (mem_read m 0x7c00 512)) - 2
     in if n > 30 then 30 else n)"

text \<open>The sectors behind the first two of the partition, on one track.\<close>

definition stage2_on_disk :: "Bios \<Rightarrow> u8 \<Rightarrow> MBREntry \<Rightarrow> nat \<Rightarrow> bytes" where
  "stage2_on_disk b disk ent n =
     (let chs = MBREntry_StartAddressCHS ent
      in concat (map (\<lambda>k. bios_medium b disk (unat (CHSPacked_Cylinder chs)) (unat (CHSPacked_Head chs))
           (unat ((CHSPacked_Sector chs + 2) AND 0x3F) + k)) [0 ..< n]))"

lemma vbr_count_small: "unat (vbr_count m) \<le> 30"
  by (auto simp: vbr_count_def Let_def word_le_nat_alt not_less)

definition int13_reads_succeed :: "Bios \<Rightarrow> u8 \<Rightarrow> bool" where
  "int13_reads_succeed b drive \<longleftrightarrow> (\<forall>t count cx dx buf. length buf = 512 * unat (count :: u8) \<longrightarrow> reg_drive dx = drive \<longrightarrow>
     \<not> fst (bios_int13 b t (0x0200 OR ucast count) cx dx buf))"

lemma LoadSectors_succeeds:
  assumes "int13_reads_succeed b drive" "length out = 512 * unat count"
  shows "fst (BiosDisk_LoadSectors drive b source out count)"
  using assms by (simp add: BiosDisk_LoadSectors_def int13_def Let_def int13_reads_succeed_def split_beta reg_drive_packed)

lemma vbr_main_cases:
  assumes "int13_documented b"
  shows "\<exists>ok. (int13_reads_succeed b disk \<longrightarrow> ok) \<and> vbr_main disk b m ent =
    (if FatSuper_ReservedSectors (FatSuper_of_bytes (mem_read m 0x7c00 512)) < 3 \<or> \<not> ok
     then DumpMessageAndHang msgErrLoad
     else
       let img = stage2_on_disk b disk ent (unat (vbr_count m))
       in if Stage2Header_Verify img (ucast (vbr_count m)) \<noteq> Some True then DumpMessageAndHang msgErrBroken
          else EnterStage2 0x101C (mem_write (mem_write m 0x1000 img) 0x1000
            (Stage2Header_SetBootMBREntry (Stage2Header_SetBiosBootDrive img disk) ent)))"
proof -
  let ?src0 = "MBREntry_StartAddressCHS ent"
  let ?src = "CHSPacked_SetSector ?src0 (CHSPacked_Sector ?src0 + 2)"
  let ?n = "512 * unat (vbr_count m)"
  obtain ok buf b1 where load: "BiosDisk_LoadSectors disk b ?src (mem_read m 0x1000 ?n) (ucast (vbr_count m)) = (ok, buf, b1)"
    by (metis prod_cases3)
  have cnt: "unat (ucast (vbr_count m) :: u8) = unat (vbr_count m)"
    using vbr_count_small [of m] by (simp add: unsigned_ucast_eq take_bit_nat_eq_self)
  have len: "length buf = ?n" using BiosDisk_LoadSectors_frame [OF assms load] by simp
  have buf: "buf = stage2_on_disk b disk ent (unat (vbr_count m))" if ok
    using BiosDisk_LoadSectors_reads [OF assms _ load [unfolded eqTrueI [OF that]]] cnt
    by (simp add: stage2_on_disk_def Let_def)
  have rd: "mem_read (mem_write m 0x1000 buf) 0x1000 ?n = buf" using len vbr_count_small [of m] by simp
  have "int13_reads_succeed b disk \<longrightarrow> ok" using LoadSectors_succeeds load cnt by (metis fst_conv length_mem_read)
  moreover have "vbr_main disk b m ent =
    (if FatSuper_ReservedSectors (FatSuper_of_bytes (mem_read m 0x7c00 512)) < 3 \<or> \<not> ok
     then DumpMessageAndHang msgErrLoad
     else
       let img = stage2_on_disk b disk ent (unat (vbr_count m))
       in if Stage2Header_Verify img (ucast (vbr_count m)) \<noteq> Some True then DumpMessageAndHang msgErrBroken
          else EnterStage2 0x101C (mem_write (mem_write m 0x1000 img) 0x1000
            (Stage2Header_SetBootMBREntry (Stage2Header_SetBiosBootDrive img disk) ent)))"
  proof (cases "FatSuper_ReservedSectors (FatSuper_of_bytes (mem_read m 0x7c00 512)) < 3 \<or> \<not> ok")
    case True
    then show ?thesis
      using load by (auto simp: vbr_main_def Let_def vbr_count_def Stage2Location_def)
  next
    case False
    then show ?thesis
      using load rd buf by (simp add: vbr_main_def Let_def vbr_count_def Stage2Location_def)
  qed
  ultimately show ?thesis by blast
qed

lemma length_stage2_on_disk: "int13_documented b \<Longrightarrow> length (stage2_on_disk b disk ent n) = 512 * n"
proof -
  assume "int13_documented b"
  then have "length (bios_medium b disk c h s) = 512" for c h s
    by (simp add: int13_documented_def medium_ok_def)
  then show ?thesis by (simp add: stage2_on_disk_def Let_def length_concat comp_def sum_list_triv)
qed

lemma Verify_sectors: "Stage2Header_Verify img n = Some True \<Longrightarrow> 1 \<le> n"
  by (auto simp: Stage2Header_Verify_def word_le_nat_alt word_less_nat_alt not_less unat_eq_zero split: if_splits)
    (metis One_nat_def Suc_leI le_trans unat_gt_0)

lemma header_update:
  assumes "28 \<le> length img" "MBREntry_wf ent"
    and "hdr = Stage2Header_SetBootMBREntry (Stage2Header_SetBiosBootDrive img disk) ent"
  shows "length hdr = length img" "Stage2Header_BiosBootDrive hdr = disk"
    "Stage2Header_BootMBREntry hdr = ent" "take 10 hdr = take 10 img" "drop 28 hdr = drop 28 img"
proof -
  have len: "length (MBREntry_bytes ent) = 16" using assms(2) by simp
  show "length hdr = length img"
    unfolding assms(3) using assms(1) len
    by (simp add: Stage2Header_SetBootMBREntry_def Stage2Header_SetBiosBootDrive_def)
  show "take 10 hdr = take 10 img" "drop 28 hdr = drop 28 img" "Stage2Header_BiosBootDrive hdr = disk"
    unfolding assms(3) using assms(1) len
    by (simp_all add: Stage2Header_SetBootMBREntry_def Stage2Header_SetBiosBootDrive_def overwrite_def
        Stage2Header_BiosBootDrive_def nth_append min_def)
  show "Stage2Header_BootMBREntry hdr = ent"
    unfolding assms(3) using assms len
    by (simp add: Stage2Header_SetBootMBREntry_def Stage2Header_SetBiosBootDrive_def
        Stage2Header_BootMBREntry_def MBREntry_of_bytes_bytes)
qed

text \<open>
  C30. The volume boot record enters only a second stage that it has verified: on a documented
  BIOS, when it jumps, it jumps to the first byte behind the header at 0x1000; the sectors it
  loaded (at most 30, from the third of the partition on) passed \<^verbatim>\<open>Verify\<close>; they are in memory
  unchanged but for the boot drive and the partition entry stored in the header; and no other
  memory changed.
\<close>

theorem vbr_enters_verified:
  assumes "int13_documented b" and "MBREntry_wf ent" and "vbr_main disk b m ent = EnterStage2 a m'"
  shows "a = 0x1000 + 28 \<and> (\<exists>n img hdr. 1 \<le> n \<and> n \<le> 30 \<and> img = stage2_on_disk b disk ent n \<and>
    Stage2Header_Verify img (of_nat n) = Some True \<and>
    hdr = mem_read m' 0x1000 (512 * n) \<and> Stage2Header_BiosBootDrive hdr = disk \<and>
    Stage2Header_BootMBREntry hdr = ent \<and> take 10 hdr = take 10 img \<and> drop 28 hdr = drop 28 img \<and>
    (\<forall>x. 512 * n \<le> unat (x - 0x1000) \<longrightarrow> m' x = m x))"
proof -
  let ?n = "unat (vbr_count m)"
  define img where "img = stage2_on_disk b disk ent ?n"
  define hdr where "hdr = Stage2Header_SetBootMBREntry (Stage2Header_SetBiosBootDrive img disk) ent"
  have ver: "Stage2Header_Verify img (of_nat ?n) = Some True" "a = 0x101C"
    and m': "m' = mem_write (mem_write m 0x1000 img) 0x1000 hdr"
    using vbr_main_cases [OF assms(1), of disk m ent] assms(3)
    by (auto simp: DumpMessageAndHang_def Let_def img_def hdr_def split: if_splits)
  have n: "1 \<le> ?n" "?n \<le> 30"
    using Verify_sectors [OF ver(1)] vbr_count_small [of m] by (simp_all add: word_le_nat_alt)
  have len: "length img = 512 * ?n" unfolding img_def by (rule length_stage2_on_disk [OF assms(1)])
  have "28 \<le> length img" using len n by simp
  note h = header_update [OF this assms(2) hdr_def]
  have "mem_read m' 0x1000 (512 * ?n) = hdr" unfolding m' using h(1) len n by simp
  moreover have "\<forall>x. 512 * ?n \<le> unat (x - 0x1000) \<longrightarrow> m' x = m x"
    unfolding m' using h(1) len by (simp add: mem_write_outside)
  ultimately have "1 \<le> ?n \<and> ?n \<le> 30 \<and> img = stage2_on_disk b disk ent ?n \<and>
    Stage2Header_Verify img (of_nat ?n) = Some True \<and>
    hdr = mem_read m' 0x1000 (512 * ?n) \<and> Stage2Header_BiosBootDrive hdr = disk \<and>
    Stage2Header_BootMBREntry hdr = ent \<and> take 10 hdr = take 10 img \<and> drop 28 hdr = drop 28 img \<and>
    (\<forall>x. 512 * ?n \<le> unat (x - 0x1000) \<longrightarrow> m' x = m x)"
    using n ver(1) h img_def by simp
  then show ?thesis using ver(2) by auto
qed

lemma Verify_append:
  assumes "image_ok img" "ucast (hdr_sectorCount img) \<le> limit"
  shows "Stage2Header_Verify (img @ rest) limit = Stage2Header_Verify img limit"
proof -
  have len: "512 \<le> length img" using image_ok_length [OF assms(1)] .
  have words: "word_of (img @ rest) i = word_of img i" if "4 * i + 4 \<le> length img" for i
    using that by (simp add: word_of_def subbytes_append_left)
  have fields: "hdr_sectorCount (img @ rest) = hdr_sectorCount img" "hdr_magic (img @ rest) = hdr_magic img"
    "hdr_checksum (img @ rest) = hdr_checksum img"
    using len by (simp_all add: hdr_sectorCount_def hdr_magic_def hdr_checksum_def subbytes_append_left)
  have "image_ok (img @ rest)" using assms(1) fields by (simp add: image_ok_def)
  then have "Stage2Header_ComputeChecksum (img @ rest) = Stage2Header_ComputeChecksum img"
    using assms(1) words unfolding ComputeChecksum_eq [OF assms(1)]
    by (simp add: ComputeChecksum_eq fields image_ok_def)
  then show ?thesis by (simp add: Stage2Header_Verify_def fields)
qed

text \<open>
  C29. What the installer writes the boot sector starts: an image whose header was completed with
  \<^verbatim>\<open>UpdateChecksum\<close>, stored from the third sector of the partition on within the reserved
  sectors, is entered by the volume boot record when the reads succeed (unless its payload adds
  up to zero).
\<close>

theorem installed_image_boots:
  assumes "int13_documented b" and "int13_reads_succeed b disk"
    and "3 \<le> FatSuper_ReservedSectors (FatSuper_of_bytes (mem_read m 0x7c00 512))"
    and "image_ok img" and "hdr_magic img = Stage2Magic" and "payload_sum img \<noteq> 0"
    and "hdr_sectorCount img \<le> vbr_count m"
    and "Stage2Header_UpdateChecksum img = Some img'"
    and "stage2_on_disk b disk ent (unat (vbr_count m)) = img' @ rest"
  shows "\<exists>m'. vbr_main disk b m ent = EnterStage2 0x101C m'"
proof -
  have img': "img' = overwrite 4 (UnalignedInt_Set 4 (- payload_sum img)) img"
    using UpdateChecksum_eq [OF assms(4)] assms(8) by simp
  have len: "10 \<le> length img" using image_ok_length [OF assms(4)] by simp
  have ok: "image_ok img'" unfolding img' by (rule image_ok_set_checksum [OF assms(4)])
  have le: "ucast (hdr_sectorCount img) \<le> (ucast (vbr_count m) :: u32)"
    using assms(7) by (simp add: word_le_nat_alt)
  have cnt: "hdr_sectorCount img' = hdr_sectorCount img" using set_checksum_fields [OF len] by (simp add: img')
  have "Stage2Header_Verify img' (ucast (vbr_count m)) = Some True"
    using Verify_UpdateChecksum [OF assms(4,5) le] assms(6,8) by auto
  then have "Stage2Header_Verify (stage2_on_disk b disk ent (unat (vbr_count m))) (ucast (vbr_count m)) = Some True"
    unfolding assms(9) using Verify_append [OF ok] le cnt by simp
  then show ?thesis
    using vbr_main_cases [OF assms(1), of disk m ent] assms(2,3) by (auto simp: Let_def not_le [symmetric])
qed

subsection \<open>An example boot\<close>

text \<open>
  A disk with the one sector image of \<^verbatim>\<open>Stage2_Header\<close> in the third sector of every track, and
  a boot sector everywhere else; the super block in memory, and a bootable partition starting
  at the first sector of the disk.
\<close>

definition boot_medium :: "nat \<Rightarrow> nat \<Rightarrow> nat \<Rightarrow> bytes" where
  "boot_medium c h s = (if s = 3 then signed_image else replicate 510 0 @ [0x55, 0xAA])"

definition boot_entry :: MBREntry where
  "boot_entry = \<lparr>mbr_attrib = 0x80, mbr_chsStart = \<lparr>chs_lo = 0, chs_mid = 1, chs_hi = 0\<rparr>, mbr_type = 0x0C,
     mbr_chsEnd = \<lparr>chs_lo = 0, chs_mid = 63, chs_hi = 9\<rparr>, mbr_lbaStart = [0, 0, 0, 0],
     mbr_sectorCount = [0, 8, 0, 0]\<rparr>"

definition vbr_mem :: mem where
  "vbr_mem = mem_write (\<lambda>_. 0) 0x7c00 (FatSuper_bytes example_super)"

lemma boot_bios_ok:
  "int13_documented (reference_bios (on_drive 0x80 boot_medium))" "int13_reads_succeed (reference_bios (on_drive 0x80 boot_medium)) 0x80"
proof -
  have "length signed_image = 512"
    by (simp add: signed_image_def example_image_def Stage2Header_SetSectorCount_def Stage2Header_new_def Let_def)
  then show "int13_documented (reference_bios (on_drive 0x80 boot_medium))"
    by (intro reference_bios_documented) (simp add: boot_medium_def on_drive_def)
  have "ucast (0x0200 OR ucast count :: u16) = count" for count :: u8
    by (rule bit_word_eqI) (auto simp: bit_simps numeral_masks)
  then show "int13_reads_succeed (reference_bios (on_drive 0x80 boot_medium)) 0x80"
    by (simp add: int13_reads_succeed_def reference_bios_def)
qed

lemma vbr_mem_super:
  "FatSuper_ReservedSectors (FatSuper_of_bytes (mem_read vbr_mem 0x7c00 512)) = 32" "vbr_count vbr_mem = 30"
proof -
  have "mem_read vbr_mem 0x7c00 512 = FatSuper_bytes example_super"
    unfolding vbr_mem_def using example_super_wf by simp
  then show r: "FatSuper_ReservedSectors (FatSuper_of_bytes (mem_read vbr_mem 0x7c00 512)) = 32"
    by (simp add: FatSuper_of_bytes_bytes [OF example_super_wf] example_super_geometry)
  show "vbr_count vbr_mem = 30" unfolding vbr_count_def r by simp
qed

lemma boot_stage2: "\<exists>rest. stage2_on_disk (reference_bios (on_drive 0x80 boot_medium)) 0x80 boot_entry 30 = signed_image @ rest"
proof -
  have "unat ((CHSPacked_Sector (MBREntry_StartAddressCHS boot_entry) + 2) AND 0x3F) = 3"
    by code_simp
  moreover have "[0 ..< 30] = 0 # [1 ..< 30]" by (simp add: upt_rec)
  ultimately have "stage2_on_disk (reference_bios (on_drive 0x80 boot_medium)) 0x80 boot_entry 30 = signed_image @
      concat (map (\<lambda>k. boot_medium (unat (CHSPacked_Cylinder (MBREntry_StartAddressCHS boot_entry)))
        (unat (CHSPacked_Head (MBREntry_StartAddressCHS boot_entry))) (3 + k)) [1 ..< 30])"
    by (simp add: stage2_on_disk_def reference_bios_def boot_medium_def Let_def del: upt_Suc)
  then show ?thesis by blast
qed

lemma example_installed: "Stage2Header_UpdateChecksum example_image = Some signed_image"
  using UpdateChecksum_eq [OF example_image_ok(1)] by (simp add: signed_image_def example_payload_sum)

theorem installed_image_boots_witness:
  "\<exists>m'. vbr_main 0x80 (reference_bios (on_drive 0x80 boot_medium)) vbr_mem boot_entry = EnterStage2 0x101C m'"
proof -
  obtain rest where rest: "stage2_on_disk (reference_bios (on_drive 0x80 boot_medium)) 0x80 boot_entry 30 = signed_image @ rest"
    using boot_stage2 by blast
  show ?thesis
    by (rule installed_image_boots [OF boot_bios_ok _ example_image_ok(1,2) _ _ example_installed])
      (simp_all add: vbr_mem_super example_payload_sum example_image_ok rest)
qed

lemma boot_enters: "\<exists>m'. vbr_main 0x80 (reference_bios (on_drive 0x80 boot_medium)) vbr_mem boot_entry = EnterStage2 0x101C m'"
proof -
  obtain rest where rest: "stage2_on_disk (reference_bios (on_drive 0x80 boot_medium)) 0x80 boot_entry 30 = signed_image @ rest"
    using boot_stage2 by blast
  have "Stage2Header_Verify (signed_image @ rest) 30 = Some True"
    using Verify_append [OF signed_image_ok(1)] signed_image_ok(2,3) by simp
  then show ?thesis
    using vbr_main_cases [OF boot_bios_ok(1), of "0x80" vbr_mem boot_entry] boot_bios_ok(2)
    by (auto simp: vbr_mem_super rest Let_def)
qed

theorem vbr_enters_verified_witness:
  "\<exists>m'. vbr_main 0x80 (reference_bios (on_drive 0x80 boot_medium)) vbr_mem boot_entry = EnterStage2 0x101C m' \<and>
     (\<exists>n hdr. hdr = mem_read m' 0x1000 (512 * n) \<and> Stage2Header_BiosBootDrive hdr = 0x80 \<and>
       Stage2Header_BootMBREntry hdr = boot_entry)"
proof -
  obtain m' where m': "vbr_main 0x80 (reference_bios (on_drive 0x80 boot_medium)) vbr_mem boot_entry = EnterStage2 0x101C m'"
    using boot_enters by blast
  have "MBREntry_wf boot_entry" by (simp add: MBREntry_wf_def boot_entry_def)
  from vbr_enters_verified [OF boot_bios_ok(1) this m'] m' show ?thesis by blast
qed

definition mbr_mem :: mem where
  "mbr_mem = mem_write (\<lambda>_. 0) 0x7BE (replicate 16 0 @ MBREntry_bytes boot_entry @ replicate 32 0 @ [0x55, 0xAA])"

lemma mbr_example: "\<exists>m'. mbr_main 0x80 (reference_bios (on_drive 0x80 boot_medium)) mbr_mem = CallVbr 0x80 0x7CE m'"
proof -
  have tab: "mem_read mbr_mem 0x7BE 66 = replicate 16 0 @ MBREntry_bytes boot_entry @ replicate 32 0 @ [0x55, 0xAA]"
    unfolding mbr_mem_def by (rule mem_read_write) (simp_all add: MBREntry_wf_def boot_entry_def)
  have ent: "\<exists>e2 e3. entries (MBRTable_of_bytes (mem_read mbr_mem 0x7BE 66)) =
      [MBREntry_of_bytes (replicate 16 0), boot_entry, e2, e3]"
  proof -
    have wf: "MBREntry_wf boot_entry" by (simp add: MBREntry_wf_def boot_entry_def)
    have "subbytes 16 16 (mem_read mbr_mem 0x7BE 66) = MBREntry_bytes boot_entry"
      "subbytes 0 16 (mem_read mbr_mem 0x7BE 66) = replicate 16 0"
      unfolding tab using wf by (simp_all add: subbytes_def)
    moreover have "[0 ..< 4] = [0, 1, 2, 3 :: nat]" by (simp add: upt_rec)
    ultimately show ?thesis using MBREntry_of_bytes_bytes [OF wf]
      by (simp add: MBRTable_of_bytes_def)
  qed
  have flags: "\<not> MBREntry_IsBootable (MBREntry_of_bytes (replicate 16 0))" "MBREntry_IsBootable boot_entry"
    by code_simp+
  let ?b = "reference_bios (on_drive 0x80 boot_medium)" and ?chs = "MBREntry_StartAddressCHS boot_entry"
  have reset: "BiosDisk_Reset 0x80 ?b = (True, ?b\<lparr>bios_now := 1\<rparr>)"
    by (simp add: BiosDisk_Reset_def int13_def reference_bios_def)
  have b1: "int13_documented (?b\<lparr>bios_now := 1\<rparr>)" "int13_reads_succeed (?b\<lparr>bios_now := 1\<rparr>) 0x80"
    using boot_bios_ok by (simp_all add: int13_reads_succeed_def)
  obtain buf b2 where load: "BiosDisk_LoadSectors 0x80 (?b\<lparr>bios_now := 1\<rparr>) ?chs
      (mem_read mbr_mem bootSector 512) 1 = (True, buf, b2)"
    using LoadSectors_succeeds [OF b1(2), of "mem_read mbr_mem bootSector 512" 1 ?chs]
    by (auto simp: prod_eq_iff)
  have "unat (CHSPacked_Sector ?chs) = 1" by code_simp
  then have buf: "buf = replicate 510 0 @ [0x55, 0xAA]"
    using BiosDisk_LoadSectors_reads [OF b1(1) _ load] by (simp add: reference_bios_def boot_medium_def)
  have "mem_read (mem_write mbr_mem bootSector buf) (bootSector + 510) 2 = [0x55, 0xAA]"
    using mem_read_write_part [of 510 2 buf mbr_mem bootSector] by (simp add: buf subbytes_def)
  moreover have "UnalignedInt_Read16 [0x55, 0xAA] = 0xAA55" by code_simp
  ultimately show ?thesis
    using ent flags reset load by (auto simp: mbr_main_def partTable_def Let_def)
qed

theorem mbr_loads_bootable_witness:
  "\<exists>m'. mbr_main 0x80 (reference_bios (on_drive 0x80 boot_medium)) mbr_mem = CallVbr 0x80 0x7CE m' \<and>
     UnalignedInt_Read16 (mem_read m' (0x7C00 + 510) 2) = 0xAA55"
proof -
  obtain m' where m': "mbr_main 0x80 (reference_bios (on_drive 0x80 boot_medium)) mbr_mem = CallVbr 0x80 0x7CE m'"
    using mbr_example by blast
  from mbr_loads_bootable [OF boot_bios_ok(1) m' refl] m' show ?thesis by blast
qed

end
