(* ===== verification/Pm_Copy.thy ===== *)
theory Pm_Copy
  imports Prelude
begin

text \<open>
  The protected mode memory routines (\<^verbatim>\<open>lib/pm86/copy.cpp\<close>): a byte-wise copy that chooses its
  direction so that overlapping ranges work, and clearing a range. The pointers are 32 bit
  words and wrap.
\<close>

subsection \<open>Operations\<close>

fun copy_up :: "mem \<Rightarrow> u32 \<Rightarrow> u32 \<Rightarrow> nat \<Rightarrow> mem" where
  "copy_up m d s 0 = m"
| "copy_up m d s (Suc count) = copy_up (m(d := m s)) (d + 1) (s + 1) count"

fun copy_down :: "mem \<Rightarrow> u32 \<Rightarrow> u32 \<Rightarrow> nat \<Rightarrow> mem" where
  "copy_down m d s 0 = m"
| "copy_down m d s (Suc count) = copy_down (m(d := m s)) (d - 1) (s - 1) count"

definition CopyMemory32 :: "mem \<Rightarrow> u32 \<Rightarrow> u32 \<Rightarrow> u32 \<Rightarrow> mem" where
  "CopyMemory32 m dst src count =
     (if dst = src \<or> count = 0 then m
      else if dst < src then copy_up m dst src (unat count)
      else copy_down m (dst + count - 1) (src + count - 1) (unat count))"

fun clear_loop :: "mem \<Rightarrow> u32 \<Rightarrow> nat \<Rightarrow> mem" where
  "clear_loop m ptr 0 = m"
| "clear_loop m ptr (Suc n) = clear_loop (m(ptr := 0)) (ptr + 1) n"

definition ClearMemory32 :: "mem \<Rightarrow> u32 \<Rightarrow> u32 \<Rightarrow> mem" where
  "ClearMemory32 m dst sz = clear_loop m dst (unat sz)"

subsection \<open>The loops on addresses as numbers\<close>

lemma copy_up_nat:
  assumes "d \<le> s" "s + n \<le> 2 ^ 32" "x < 2 ^ 32"
  shows "copy_up m (of_nat d) (of_nat s) n (of_nat x) =
    (if d \<le> x \<and> x < d + n then m (of_nat (s + (x - d))) else m (of_nat x))"
  using assms
proof (induction n arbitrary: m d s)
  case (Suc n)
  let ?m = "m(of_nat d := m (of_nat s))"
  have succ: "of_nat d + 1 = (of_nat (Suc d) :: u32)" "of_nat s + 1 = (of_nat (Suc s) :: u32)" by simp_all
  have ih: "copy_up ?m (of_nat (Suc d)) (of_nat (Suc s)) n (of_nat x) =
      (if Suc d \<le> x \<and> x < Suc d + n then ?m (of_nat (Suc s + (x - Suc d))) else ?m (of_nat x))"
    using Suc.prems by (intro Suc.IH) simp_all
  have "(of_nat x :: u32) = of_nat d \<longleftrightarrow> x = d"
    using Suc.prems by (intro of_nat_u32_eq_iff) simp_all
  moreover have "(of_nat (Suc s + (x - Suc d)) :: u32) \<noteq> of_nat d" if "Suc d \<le> x" "x < Suc d + n"
    using Suc.prems that by (subst of_nat_u32_eq_iff) simp_all
  moreover have eq: "Suc (s + (x - Suc d)) = s + (x - d)" if "Suc d \<le> x" using that by simp
  ultimately show ?case
    unfolding copy_up.simps succ ih by (auto simp: eq not_less_eq_eq simp del: of_nat_Suc of_nat_add of_nat_diff Nat.add_diff_assoc)
qed auto

lemma copy_down_nat:
  assumes "s \<le> d" "d + n \<le> 2 ^ 32" "x < 2 ^ 32"
  shows "copy_down m (of_nat (d + n) - 1) (of_nat (s + n) - 1) n (of_nat x) =
    (if d \<le> x \<and> x < d + n then m (of_nat (s + (x - d))) else m (of_nat x))"
  using assms
proof (induction n arbitrary: m)
  case (Suc n)
  let ?m = "m(of_nat (d + n) := m (of_nat (s + n)))"
  have pred: "of_nat (d + Suc n) - 1 = (of_nat (d + n) :: u32)" "of_nat (s + Suc n) - 1 = (of_nat (s + n) :: u32)"
    by simp_all
  have ih: "copy_down ?m (of_nat (d + n) - 1) (of_nat (s + n) - 1) n (of_nat x) =
      (if d \<le> x \<and> x < d + n then ?m (of_nat (s + (x - d))) else ?m (of_nat x))"
    using Suc.prems by (intro Suc.IH) simp_all
  have "(of_nat x :: u32) = of_nat (d + n) \<longleftrightarrow> x = d + n"
    using Suc.prems by (intro of_nat_u32_eq_iff) simp_all
  moreover have "(of_nat (s + (x - d)) :: u32) \<noteq> of_nat (d + n)" if "d \<le> x" "x < d + n"
    using Suc.prems that by (subst of_nat_u32_eq_iff) simp_all
  ultimately show ?case
    unfolding copy_down.simps pred ih by (auto simp del: of_nat_Suc of_nat_add of_nat_diff Nat.add_diff_assoc)
qed auto

lemma clear_loop_nat:
  assumes "d + n \<le> 2 ^ 32" "x < 2 ^ 32"
  shows "clear_loop m (of_nat d) n (of_nat x) = (if d \<le> x \<and> x < d + n then 0 else m (of_nat x))"
  using assms
proof (induction n arbitrary: m d)
  case (Suc n)
  have succ: "of_nat d + 1 = (of_nat (Suc d) :: u32)" by simp
  have "(of_nat x :: u32) = of_nat d \<longleftrightarrow> x = d"
    using Suc.prems by (intro of_nat_u32_eq_iff) simp_all
  then show ?case
    unfolding clear_loop.simps succ using Suc.IH [of "Suc d"] Suc.prems by (auto simp del: of_nat_Suc)
qed auto

subsection \<open>Copying and clearing\<close>

lemma CopyMemory32_eq:
  assumes "unat dst + unat count \<le> 2 ^ 32" and "unat src + unat count \<le> 2 ^ 32"
  shows "CopyMemory32 m dst src count x =
    (if unat dst \<le> unat x \<and> unat x < unat dst + unat count then m (src + (x - dst)) else m x)"
proof -
  have addr: "src + (x - dst) = of_nat (unat src + (unat x - unat dst))" if "unat dst \<le> unat x"
    using that by simp
  consider "dst = src \<or> count = 0" | "dst < src" "count \<noteq> 0" | "src < dst" "count \<noteq> 0"
    by fastforce
  then show ?thesis
  proof cases
    case 1
    then show ?thesis by (auto simp: CopyMemory32_def)
  next
    case 2
    then have "CopyMemory32 m dst src count x = copy_up m (of_nat (unat dst)) (of_nat (unat src)) (unat count) (of_nat (unat x))"
      by (auto simp: CopyMemory32_def)
    then show ?thesis
      using copy_up_nat [of "unat dst" "unat src" "unat count" "unat x" m] 2 assms addr
      by (simp add: word_less_nat_alt del: of_nat_add of_nat_diff Nat.add_diff_assoc)
  next
    case 3
    then have "CopyMemory32 m dst src count x = copy_down m (of_nat (unat dst + unat count) - 1)
        (of_nat (unat src + unat count) - 1) (unat count) (of_nat (unat x))"
      by (auto simp: CopyMemory32_def)
    then show ?thesis
      using copy_down_nat [of "unat src" "unat dst" "unat count" "unat x" m] 3 assms addr
      by (simp add: word_less_nat_alt del: of_nat_add of_nat_diff Nat.add_diff_assoc)
  qed
qed

text \<open>
  C37. \<^verbatim>\<open>CopyMemory32\<close> moves memory also when the ranges overlap: afterwards every byte of the
  destination holds what the corresponding byte of the source held before the call, and no
  other byte has changed, for ranges that do not run past the end of the address space.
\<close>

theorem CopyMemory32_moves:
  assumes "unat dst + unat count \<le> 2 ^ 32" and "unat src + unat count \<le> 2 ^ 32"
  shows "CopyMemory32 m dst src count x =
    (if unat dst \<le> unat x \<and> unat x < unat dst + unat count then m (src + (x - dst)) else m x)"
  using assms by (rule CopyMemory32_eq)

theorem CopyMemory32_moves_witness:
  "CopyMemory32 (\<lambda>a. ucast a) 0x102 0x100 4 0x104 = 0x02 \<and> CopyMemory32 (\<lambda>a. ucast a) 0x100 0x102 4 0x101 = 0x03"
  using CopyMemory32_moves [of "0x102" 4 "0x100" "\<lambda>a. ucast a" "0x104"]
    CopyMemory32_moves [of "0x100" 4 "0x102" "\<lambda>a. ucast a" "0x101"]
  by simp

lemma ClearMemory32_clears:
  assumes "unat dst + unat sz \<le> 2 ^ 32"
  shows "ClearMemory32 m dst sz x = (if unat dst \<le> unat x \<and> unat x < unat dst + unat sz then 0 else m x)"
  using clear_loop_nat [OF assms, of "unat x" m] by (simp add: ClearMemory32_def)

end
