(* ===== verification/Memory_Map.thy ===== *)
theory Memory_Map
  imports Basic_Types
begin

text \<open>
  The BIOS memory map (\<^verbatim>\<open>include/BIOS/MemoryMap.h\<close>). The INT 15h call itself is assembly code
  around firmware: it is a function \<^verbatim>\<open>e820\<close> of the state of the world, the continuation value
  in EBX and the 20 byte buffer, returning its status, the new EBX, the buffer and the world.
  64 bit fields are read with shifts of a 32 bit \<^verbatim>\<open>int\<close>; what a shift by 32 or more leaves is
  the parameter \<^verbatim>\<open>wide\<close>.
\<close>

subsection \<open>Entries\<close>

datatype MemType = Usable | Reserved | ACPI | Preserve | Broken

record MemoryMapEntry =
  mme_base :: bytes
  mme_size :: bytes
  mme_type :: bytes

definition MemoryMapEntry_of_bytes :: "bytes \<Rightarrow> MemoryMapEntry" where
  "MemoryMapEntry_of_bytes b = \<lparr>mme_base = subbytes 0 8 b, mme_size = subbytes 8 8 b, mme_type = subbytes 16 4 b\<rparr>"

definition MemoryMapEntry_bytes :: "MemoryMapEntry \<Rightarrow> bytes" where
  "MemoryMapEntry_bytes e = mme_base e @ mme_size e @ mme_type e"

type_synonym 'w e820 = "'w \<Rightarrow> u32 \<Rightarrow> bytes \<Rightarrow> int \<times> u32 \<times> bytes \<times> 'w"

text \<open>\<^verbatim>\<open>temp\<close> is the static scratch buffer: it keeps its contents from call to call.\<close>

definition MemoryMapEntry_Load ::
    "'w e820 \<Rightarrow> 'w \<Rightarrow> u32 \<Rightarrow> bytes \<Rightarrow> int \<times> MemoryMapEntry \<times> u32 \<times> bytes \<times> 'w" where
  "MemoryMapEntry_Load e820 w ebx temp =
     (let (ret, ebx', temp', w') = e820 w ebx temp
      in (ret, MemoryMapEntry_of_bytes temp', ebx', temp', w'))"

definition MemoryMapEntry_BaseAddress :: "(u32 \<Rightarrow> nat \<Rightarrow> u32) \<Rightarrow> MemoryMapEntry \<Rightarrow> u64" where
  "MemoryMapEntry_BaseAddress wide e = UnalignedInt_Read64 wide (mme_base e)"

definition MemoryMapEntry_Size :: "(u32 \<Rightarrow> nat \<Rightarrow> u32) \<Rightarrow> MemoryMapEntry \<Rightarrow> u64" where
  "MemoryMapEntry_Size wide e = UnalignedInt_Read64 wide (mme_size e)"

definition MemType_of :: "u32 \<Rightarrow> MemType" where
  "MemType_of v = (if v = 1 then Usable else if v = 2 then Reserved else if v = 3 then ACPI
     else if v = 4 then Preserve else Broken)"

definition MemoryMapEntry_Type :: "MemoryMapEntry \<Rightarrow> MemType" where
  "MemoryMapEntry_Type e =
     (let value = UnalignedInt_Read32 (mme_type e)
      in if value < 1 \<or> value > 5 then Broken else MemType_of value)"

definition MemoryMapEntry_TypeAsString :: "MemoryMapEntry \<Rightarrow> string" where
  "MemoryMapEntry_TypeAsString e =
     (case MemoryMapEntry_Type e of Usable \<Rightarrow> ''free'' | Reserved \<Rightarrow> ''reserved'' | ACPI \<Rightarrow> ''ACPI''
      | Preserve \<Rightarrow> ''preserve'' | Broken \<Rightarrow> ''unknown'')"

subsection \<open>The map\<close>

text \<open>The array has \<^verbatim>\<open>MAX_COUNT\<close> entries, the length of the list.\<close>

record MemoryMap =
  mm_ent :: "MemoryMapEntry list"
  mm_count :: nat

function MemoryMap_Load_loop ::
    "'w e820 \<Rightarrow> 'w \<Rightarrow> u32 \<Rightarrow> bytes \<Rightarrow> MemoryMap \<Rightarrow> bool \<times> MemoryMap \<times> bytes \<times> 'w" where
  "MemoryMap_Load_loop e820 w ebx temp mm =
     (let (ret, e, ebx', temp', w') = MemoryMapEntry_Load e820 w ebx temp;
          mm1 = mm\<lparr>mm_ent := (mm_ent mm)[mm_count mm := e]\<rparr>
      in if ret < 0 then (False, mm1\<lparr>mm_count := 0\<rparr>, temp', w')
         else if ret > 0 then (True, mm1, temp', w')
         else
           let mm2 = mm1\<lparr>mm_count := Suc (mm_count mm1)\<rparr>
           in if mm_count mm2 < length (mm_ent mm2) \<and> ebx' \<noteq> 0
              then MemoryMap_Load_loop e820 w' ebx' temp' mm2
              else (True, mm2, temp', w'))"
  by pat_completeness auto

termination
  by (relation "measure (\<lambda>(_, _, _, _, mm). length (mm_ent mm) - mm_count mm)") (auto simp: less_diff_conv2)

declare MemoryMap_Load_loop.simps [simp del]

definition MemoryMap_Load :: "'w e820 \<Rightarrow> 'w \<Rightarrow> bytes \<Rightarrow> MemoryMap \<Rightarrow> bool \<times> MemoryMap \<times> bytes \<times> 'w" where
  "MemoryMap_Load e820 w temp mm = MemoryMap_Load_loop e820 w 0 temp (mm\<lparr>mm_count := 0\<rparr>)"

text \<open>\<^verbatim>\<open>At\<close> falls back to the last entry; on an empty map that lies in front of the array.\<close>

definition MemoryMap_At :: "MemoryMap \<Rightarrow> nat \<Rightarrow> MemoryMapEntry option" where
  "MemoryMap_At mm i = (if i < mm_count mm then Some (mm_ent mm ! i)
     else if mm_count mm = 0 then None else Some (mm_ent mm ! (mm_count mm - 1)))"

definition MemoryMap_Count :: "MemoryMap \<Rightarrow> nat" where
  "MemoryMap_Count mm = mm_count mm"

definition MemoryMap_items :: "MemoryMap \<Rightarrow> MemoryMapEntry list" where
  "MemoryMap_items mm = take (mm_count mm) (mm_ent mm)"

subsection \<open>Loading\<close>

text \<open>What the firmware reports: its answers in order, up to a limit, \<^verbatim>\<open>None\<close> when it fails.\<close>

fun e820_answers :: "'w e820 \<Rightarrow> nat \<Rightarrow> 'w \<Rightarrow> u32 \<Rightarrow> bytes \<Rightarrow> MemoryMapEntry list option" where
  "e820_answers e820 0 w ebx temp = Some []"
| "e820_answers e820 (Suc n) w ebx temp =
     (case e820 w ebx temp of (ret, ebx', temp', w') \<Rightarrow>
        if ret < 0 then None else if ret > 0 then Some []
        else if ebx' = 0 then Some [MemoryMapEntry_of_bytes temp']
        else map_option ((#) (MemoryMapEntry_of_bytes temp')) (e820_answers e820 n w' ebx' temp'))"

definition mm_wf :: "MemoryMap \<Rightarrow> bool" where
  "mm_wf mm \<longleftrightarrow> mm_count mm \<le> length (mm_ent mm)"

lemma take_Suc_update: "c < length xs \<Longrightarrow> take (Suc c) (xs[c := e]) = take c xs @ [e]"
  by (simp add: take_Suc_conv_app_nth)

lemma MemoryMap_Load_loop_answers:
  assumes "MemoryMap_Load_loop e820 w ebx temp mm = (ok, mm', temp', w')" "mm_count mm < length (mm_ent mm)"
  shows "length (mm_ent mm') = length (mm_ent mm) \<and> mm_wf mm' \<and>
    (case e820_answers e820 (length (mm_ent mm) - mm_count mm) w ebx temp of
       None \<Rightarrow> \<not> ok \<and> mm_count mm' = 0
     | Some es \<Rightarrow> ok \<and> MemoryMap_items mm' = MemoryMap_items mm @ es)"
  using assms
proof (induction "length (mm_ent mm) - mm_count mm" arbitrary: w ebx temp mm rule: less_induct)
  case less
  note prems = less.prems
  obtain ret ebx1 temp1 w1 where call: "e820 w ebx temp = (ret, ebx1, temp1, w1)" by (metis prod_cases4)
  let ?e = "MemoryMapEntry_of_bytes temp1"
  define mm2 where "mm2 = mm\<lparr>mm_ent := (mm_ent mm)[mm_count mm := ?e], mm_count := Suc (mm_count mm)\<rparr>"
  have load: "MemoryMapEntry_Load e820 w ebx temp = (ret, ?e, ebx1, temp1, w1)"
    using call by (simp add: MemoryMapEntry_Load_def)
  obtain n where n: "length (mm_ent mm) - mm_count mm = Suc n"
    using prems(2) by (metis Suc_diff_Suc)
  have items: "MemoryMap_items mm2 = MemoryMap_items mm @ [?e]"
    using prems(2) by (simp add: MemoryMap_items_def mm2_def take_Suc_update)
  have wf2: "mm_wf mm2" "length (mm_ent mm2) = length (mm_ent mm)" "length (mm_ent mm2) - mm_count mm2 = n"
    using prems(2) n by (auto simp: mm_wf_def mm2_def)
  consider "ret \<noteq> 0" | "ret = 0" "mm_count mm2 < length (mm_ent mm2)" "ebx1 \<noteq> 0"
    | "ret = 0" "\<not> (mm_count mm2 < length (mm_ent mm2) \<and> ebx1 \<noteq> 0)" by blast
  then show ?case
  proof cases
    case a: 1
    then show ?thesis
      using prems load n call
      by (auto simp: MemoryMap_Load_loop.simps [of e820 w] Let_def mm_wf_def MemoryMap_items_def split: if_splits)
  next
    case a: 2
    have rec: "MemoryMap_Load_loop e820 w1 ebx1 temp1 mm2 = (ok, mm', temp', w')"
      using prems(1) a load
      by (simp add: MemoryMap_Load_loop.simps [of e820 w] Let_def mm2_def)
    have "length (mm_ent mm2) - mm_count mm2 < length (mm_ent mm) - mm_count mm" using n wf2 by simp
    from less.hyps [OF this rec a(2)] show ?thesis
      using a call n items wf2 by (auto split: option.splits)
  next
    case a: 3
    then have "ok" "mm' = mm2"
      using prems(1) load by (auto simp: MemoryMap_Load_loop.simps [of e820 w] Let_def mm2_def)
    moreover have "e820_answers e820 (Suc n) w ebx temp = Some [?e]"
      using a(1) a(2) wf2 call by (cases n) auto
    ultimately show ?thesis using n wf2 items by simp
  qed
qed

text \<open>
  C38. Loading the memory map collects the answers of the firmware: on an array with room for at
  least one entry \<^verbatim>\<open>Load\<close> never counts past the array, and holds the firmware's answers in order
  (as many as fit), or reports failure with an empty map exactly when the firmware failed.
\<close>

theorem MemoryMap_Load_collects:
  assumes "0 < length (mm_ent mm)" and "MemoryMap_Load e820 w temp mm = (ok, mm', temp', w')"
  shows "mm_count mm' \<le> length (mm_ent mm') \<and> length (mm_ent mm') = length (mm_ent mm) \<and>
    (case e820_answers e820 (length (mm_ent mm)) w 0 temp of
       None \<Rightarrow> \<not> ok \<and> MemoryMap_items mm' = []
     | Some es \<Rightarrow> ok \<and> MemoryMap_items mm' = es)"
proof -
  let ?mm = "mm\<lparr>mm_count := 0\<rparr>"
  have "MemoryMap_items ?mm = []" by (simp add: MemoryMap_items_def)
  then show ?thesis
    using MemoryMap_Load_loop_answers [of e820 w 0 temp ?mm] assms
    by (auto simp: MemoryMap_Load_def mm_wf_def MemoryMap_items_def split: option.splits)
qed

text \<open>A firmware with two entries.\<close>

definition two_entries :: "unit e820" where
  "two_entries w ebx temp = (if ebx = 0 then (0, 1, replicate 16 0 @ [1, 0, 0, 0], ())
     else (0, 0, replicate 16 1 @ [2, 0, 0, 0], ()))"

theorem MemoryMap_Load_collects_witness:
  "let (ok, mm', _, _) = MemoryMap_Load two_entries () (replicate 20 0)
         \<lparr>mm_ent = replicate 32 (MemoryMapEntry_of_bytes (replicate 20 0)), mm_count = 7\<rparr>
   in ok \<and> map MemoryMapEntry_Type (MemoryMap_items mm') = [Usable, Reserved]"
proof -
  let ?mm = "\<lparr>mm_ent = replicate 32 (MemoryMapEntry_of_bytes (replicate 20 0)), mm_count = 7\<rparr>"
  obtain ok mm' temp' w' where load:
    "MemoryMap_Load two_entries () (replicate 20 0) ?mm = (ok, mm', temp', w')" by (metis prod_cases4)
  have ans: "e820_answers two_entries 32 () 0 (replicate 20 0) =
      Some [MemoryMapEntry_of_bytes (replicate 16 0 @ [1, 0, 0, 0]),
            MemoryMapEntry_of_bytes (replicate 16 1 @ [2, 0, 0, 0])]"
    by (simp add: two_entries_def numeral_eq_Suc)
  have "map MemoryMapEntry_Type [MemoryMapEntry_of_bytes (replicate 16 0 @ [1, 0, 0, 0]),
      MemoryMapEntry_of_bytes (replicate 16 1 @ [2, 0, 0, 0])] = [Usable, Reserved]" by code_simp
  then show ?thesis using MemoryMap_Load_collects [OF _ load] ans load by simp
qed

subsection \<open>64 bit fields\<close>

text \<open>How x86 shifts a 32 bit register: by the count modulo 32.\<close>

definition x86_shl :: "u32 \<Rightarrow> nat \<Rightarrow> u32" where
  "x86_shl x n = push_bit (n mod 32) x"

text \<open>
  The 64 bit fields of the memory map are read wrongly on such a machine: the base address of
  a region at 4 GiB reads as 1, and an address of 2 GiB is sign extended to the top of the
  address space, because \<^verbatim>\<open>Read\<close> shifts an \<^verbatim>\<open>int\<close> instead of the field's type.
\<close>

theorem BaseAddress_64_wrong:
  "MemoryMapEntry_BaseAddress x86_shl
     \<lparr>mme_base = UnalignedInt_Set 8 (0x100000000 :: u64), mme_size = [], mme_type = []\<rparr> = 1 \<and>
   MemoryMapEntry_BaseAddress x86_shl
     \<lparr>mme_base = UnalignedInt_Set 8 (0x80000000 :: u64), mme_size = [], mme_type = []\<rparr> = 0xFFFFFFFF80000000"
  by code_simp

end
