(* ===== verification/Multiboot.thy ===== *)
theory Multiboot
  imports Memory_Map
begin

text \<open>
  The multiboot structures: the header in a kernel file (\<^verbatim>\<open>include/kernel/MultiBootHeader.h\<close>),
  the memory map entries (\<^verbatim>\<open>MultiBootMmap.h\<close>) and the information block (\<^verbatim>\<open>MultiBootInfo.h\<close>)
  that the loader passes to the kernel, with the loader's \<^verbatim>\<open>MBGenInfo\<close> that builds them and the
  kernel's walk along them.
\<close>

subsection \<open>MultiBootHeader\<close>

definition KernelFlags_WantVidmode :: u32 where "KernelFlags_WantVidmode = 0x00000004"
definition KernelFlags_HaveLayoutInfo :: u32 where "KernelFlags_HaveLayoutInfo = 0x00010000"

definition MultiBoot_Magic :: u32 where "MultiBoot_Magic = 0x1BADB002"

record MultiBootHeader =
  mb_magic :: u32
  mb_flags :: u32
  mb_checksum :: u32
  mb_hdrAddr :: u32
  mb_loadAddr :: u32
  mb_loadEndAddr :: u32
  mb_bssEndAddr :: u32
  mb_entryAddr :: u32

definition MultiBootHeader_of_bytes :: "bytes \<Rightarrow> MultiBootHeader" where
  "MultiBootHeader_of_bytes b =
     (let w = (\<lambda>i. UnalignedInt_Read32 (subbytes (4 * i) 4 b))
      in \<lparr>mb_magic = w 0, mb_flags = w 1, mb_checksum = w 2, mb_hdrAddr = w 3, mb_loadAddr = w 4,
          mb_loadEndAddr = w 5, mb_bssEndAddr = w 6, mb_entryAddr = w 7\<rparr>)"

definition MultiBootHeader_IsValid :: "MultiBootHeader \<Rightarrow> bool" where
  "MultiBootHeader_IsValid h \<longleftrightarrow> mb_magic h = MultiBoot_Magic \<and>
     mb_checksum h = NOT (mb_magic h + mb_flags h) + 1"

definition MultiBootHeader_Flags :: "MultiBootHeader \<Rightarrow> u32" where
  "MultiBootHeader_Flags h = mb_flags h"

text \<open>The three reference arguments come back with their values, whatever the result.\<close>

definition ExtractMemLayout ::
    "MultiBootHeader \<Rightarrow> u32 \<Rightarrow> u32 \<Rightarrow> u32 \<times> u32 \<times> u32 \<Rightarrow> bool \<times> u32 \<times> u32 \<times> u32" where
  "ExtractMemLayout h hdrFileOffset filesize outs =
     (if mb_loadEndAddr h \<le> mb_loadAddr h then (False, outs)
      else
        let fileStart = 0;
            memStart = mb_loadAddr h;
            count = mb_loadEndAddr h - mb_loadAddr h
        in if mb_bssEndAddr h < mb_loadAddr h then (False, fileStart, memStart, count)
           else if mb_hdrAddr h < mb_loadAddr h \<or> mb_hdrAddr h \<ge> mb_loadEndAddr h
           then (False, fileStart, memStart, count)
           else if mb_entryAddr h < mb_loadAddr h \<or> mb_entryAddr h \<ge> mb_loadEndAddr h
           then (False, fileStart, memStart, count)
           else
             let hdrMemOffset = mb_hdrAddr h - mb_loadAddr h
             in if hdrMemOffset > hdrFileOffset then (False, fileStart, memStart, count)
                else
                  let fileStart1 = (if hdrFileOffset > hdrMemOffset then hdrFileOffset - hdrMemOffset
                                    else fileStart)
                  in (count \<le> filesize - fileStart1, fileStart1, memStart, count))"

definition MultiBootHeader_EntryPoint :: "MultiBootHeader \<Rightarrow> u32" where
  "MultiBootHeader_EntryPoint h = mb_entryAddr h"

definition BSSSize :: "MultiBootHeader \<Rightarrow> u32" where
  "BSSSize h = (if mb_bssEndAddr h > mb_loadEndAddr h then mb_bssEndAddr h - mb_loadEndAddr h else 0)"

subsection \<open>MultiBootMmap\<close>

text \<open>24 bytes in memory: the size field and the wrapped BIOS entry.\<close>

definition MultiBootMmap_wrapped :: "mem \<Rightarrow> u32 \<Rightarrow> MemoryMapEntry" where
  "MultiBootMmap_wrapped m a = MemoryMapEntry_of_bytes (mem_read m (a + 4) 20)"

definition MultiBootMmap_Next :: "mem \<Rightarrow> u32 \<Rightarrow> u32" where
  "MultiBootMmap_Next m a = a + UnalignedInt_Read32 (mem_read m a 4) + 4"

definition MultiBootMmap_assign :: "mem \<Rightarrow> u32 \<Rightarrow> MemoryMapEntry \<Rightarrow> mem" where
  "MultiBootMmap_assign m a e820 = mem_write m (a + 4) (MemoryMapEntry_bytes e820)"

definition MultiBootMmap_SetNext :: "mem \<Rightarrow> u32 \<Rightarrow> u32 \<Rightarrow> mem" where
  "MultiBootMmap_SetNext m a nxt = mem_write m a (UnalignedInt_Set 4 (nxt - a - 4))"

subsection \<open>MultiBootInfo\<close>

definition InfoFlag_CmdLine :: u32 where "InfoFlag_CmdLine = 0x00000004"
definition InfoFlag_MemMap :: u32 where "InfoFlag_MemMap = 0x00000040"
definition InfoFlag_BootLoaderName :: u32 where "InfoFlag_BootLoaderName = 0x00000200"

record MultiBootInfo =
  mbi_flags :: u32
  mbi_memLower :: u32
  mbi_memUpper :: u32
  mbi_bootDevice :: u32
  mbi_cmdline :: u32
  mbi_modsCount :: u32
  mbi_modsAddr :: u32
  mbi_syms :: "u32 list"
  mbi_mmap_length :: u32
  mbi_mmap_base :: u32
  mbi_drivesLength :: u32
  mbi_drivesAddr :: u32
  mbi_configTable :: u32
  mbi_bootLoaderName :: u32
  mbi_apmTable :: u32
  mbi_vbe :: "u32 list"
  mbi_framebuffer :: "u32 list"
  mbi_color_info :: bytes

definition MultiBootInfo_new :: "u32 list \<Rightarrow> bytes \<Rightarrow> MultiBootInfo" where
  "MultiBootInfo_new syms colors = \<lparr>mbi_flags = 0, mbi_memLower = 0, mbi_memUpper = 0,
     mbi_bootDevice = 0, mbi_cmdline = 0, mbi_modsCount = 0, mbi_modsAddr = 0, mbi_syms = syms,
     mbi_mmap_length = 0, mbi_mmap_base = 0, mbi_drivesLength = 0, mbi_drivesAddr = 0,
     mbi_configTable = 0, mbi_bootLoaderName = 0, mbi_apmTable = 0, mbi_vbe = replicate 6 0,
     mbi_framebuffer = replicate 6 0, mbi_color_info = colors\<rparr>"

definition MultiBootInfo_BootLoaderName :: "MultiBootInfo \<Rightarrow> u32" where
  "MultiBootInfo_BootLoaderName i =
     (if \<not> FlagField_IsSet (mbi_flags i) InfoFlag_BootLoaderName then 0 else mbi_bootLoaderName i)"

definition MultiBootInfo_SetLoadName :: "MultiBootInfo \<Rightarrow> u32 \<Rightarrow> MultiBootInfo" where
  "MultiBootInfo_SetLoadName i name =
     i\<lparr>mbi_bootLoaderName := name, mbi_flags := FlagField_Set (mbi_flags i) InfoFlag_BootLoaderName\<rparr>"

definition MultiBootInfo_CommandLine :: "MultiBootInfo \<Rightarrow> u32" where
  "MultiBootInfo_CommandLine i =
     (if \<not> FlagField_IsSet (mbi_flags i) InfoFlag_CmdLine then 0 else mbi_cmdline i)"

definition MemoryMapBegin :: "MultiBootInfo \<Rightarrow> u32" where
  "MemoryMapBegin i = (if \<not> FlagField_IsSet (mbi_flags i) InfoFlag_MemMap then 0 else mbi_mmap_base i)"

definition MemoryMapEnd :: "MultiBootInfo \<Rightarrow> u32" where
  "MemoryMapEnd i = (if \<not> FlagField_IsSet (mbi_flags i) InfoFlag_MemMap then 0
     else mbi_mmap_base i + mbi_mmap_length i)"

fun SetMemoryMap_loop ::
    "(u32 \<Rightarrow> nat \<Rightarrow> u32) \<Rightarrow> mem \<Rightarrow> u32 \<Rightarrow> nat \<Rightarrow> MultiBootInfo \<Rightarrow> MultiBootInfo" where
  "SetMemoryMap_loop wide m ent 0 i = i"
| "SetMemoryMap_loop wide m ent (Suc n) i =
     (let e = MultiBootMmap_wrapped m ent;
          base = MemoryMapEntry_BaseAddress wide e;
          kib = ucast (MemoryMapEntry_Size wide e div 1024);
          i' = (if MemoryMapEntry_Type e \<noteq> Usable then i
                else if base > 0xFFFFFFFF then i
                else if base < 0x00100000 then i\<lparr>mbi_memLower := kib\<rparr>
                else i\<lparr>mbi_memUpper := kib\<rparr>)
      in SetMemoryMap_loop wide m (ent + 24) n i')"

definition SetMemoryMap ::
    "(u32 \<Rightarrow> nat \<Rightarrow> u32) \<Rightarrow> mem \<Rightarrow> MultiBootInfo \<Rightarrow> u32 \<Rightarrow> nat \<Rightarrow> MultiBootInfo" where
  "SetMemoryMap wide m i array count =
     SetMemoryMap_loop wide m array count
       (i\<lparr>mbi_mmap_base := array, mbi_mmap_length := of_nat (count * 24),
          mbi_flags := FlagField_Set (mbi_flags i) InfoFlag_MemMap\<rparr>)"

definition LowMemoryCount :: "MultiBootInfo \<Rightarrow> u32" where
  "LowMemoryCount i = mbi_memLower i"

definition HighMemoryCount :: "MultiBootInfo \<Rightarrow> u32" where
  "HighMemoryCount i = mbi_memUpper i"

subsection \<open>Handing the memory map over\<close>

text \<open>
  \<^verbatim>\<open>MBGenInfo\<close> of the loader: \<^verbatim>\<open>mbMmap\<close> is the address of the new array, whose constructors
  store zeroes, \<^verbatim>\<open>name\<close> the address of the loader's name.
\<close>

fun MBGenInfo_loop :: "mem \<Rightarrow> u32 \<Rightarrow> MemoryMap \<Rightarrow> nat \<Rightarrow> nat \<Rightarrow> mem option" where
  "MBGenInfo_loop m mbMmap mm i 0 = Some m"
| "MBGenInfo_loop m mbMmap mm i (Suc n) =
     (case MemoryMap_At mm i of None \<Rightarrow> None
      | Some e \<Rightarrow>
          let ent = mbMmap + of_nat (24 * i);
              m1 = MultiBootMmap_assign m ent e;
              m2 = MultiBootMmap_SetNext m1 ent (mbMmap + of_nat (24 * Suc i))
          in MBGenInfo_loop m2 mbMmap mm (Suc i) n)"

definition MBGenInfo ::
    "(u32 \<Rightarrow> nat \<Rightarrow> u32) \<Rightarrow> mem \<Rightarrow> MemoryMap \<Rightarrow> u32 \<Rightarrow> u32 \<Rightarrow> u32 list \<Rightarrow> bytes \<Rightarrow> (MultiBootInfo \<times> mem) option" where
  "MBGenInfo wide m mm name mbMmap syms colors =
     (let info1 = MultiBootInfo_SetLoadName (MultiBootInfo_new syms colors) name;
          count = MemoryMap_Count mm;
          m0 = mem_write m mbMmap (replicate (24 * count) 0)
      in case MBGenInfo_loop m0 mbMmap mm 0 count of None \<Rightarrow> None
         | Some m1 \<Rightarrow> Some (SetMemoryMap wide m1 info1 mbMmap count, m1))"

text \<open>The kernel's loop over the entries: which ones it visits.\<close>

partial_function (option) mmap_walk :: "mem \<Rightarrow> u32 \<Rightarrow> u32 \<Rightarrow> u32 list option" where
  "mmap_walk m mmap mmapEnd =
     (if mmap < mmapEnd
      then Option.bind (mmap_walk m (MultiBootMmap_Next m mmap) mmapEnd) (\<lambda>visited. Some (mmap # visited))
      else Some [])"

subsection \<open>The load layout\<close>

text \<open>
  C34. A layout that is accepted is sound: for a header found inside the file, the bytes to load
  lie within the file, are as many as the load region has, the header of the loaded image ends
  up at the address it names, and both the header and the entry point lie in the loaded region.
\<close>

theorem ExtractMemLayout_sound:
  assumes "ExtractMemLayout h hdrFileOffset filesize outs = (True, fileStart, memStart, count)"
    and "hdrFileOffset \<le> filesize"
  shows "memStart = mb_loadAddr h \<and> 0 < unat count \<and>
    unat memStart + unat count = unat (mb_loadEndAddr h) \<and>
    unat fileStart + unat count \<le> unat filesize \<and>
    unat hdrFileOffset = unat fileStart + (unat (mb_hdrAddr h) - unat memStart) \<and>
    memStart \<le> mb_hdrAddr h \<and> mb_hdrAddr h < mb_loadEndAddr h \<and>
    memStart \<le> mb_entryAddr h \<and> mb_entryAddr h < mb_loadEndAddr h"
proof -
  let ?off = "mb_hdrAddr h - mb_loadAddr h"
  have c: "mb_loadAddr h < mb_loadEndAddr h" "mb_loadAddr h \<le> mb_hdrAddr h" "mb_hdrAddr h < mb_loadEndAddr h"
    "mb_loadAddr h \<le> mb_entryAddr h" "mb_entryAddr h < mb_loadEndAddr h" "?off \<le> hdrFileOffset"
    "memStart = mb_loadAddr h" "count = mb_loadEndAddr h - mb_loadAddr h"
    "fileStart = hdrFileOffset - ?off" "count \<le> filesize - fileStart"
    using assms(1) by (auto simp: ExtractMemLayout_def Let_def not_less not_le split: if_splits)
  have off: "unat ?off = unat (mb_hdrAddr h) - unat (mb_loadAddr h)" using c(2) by (rule unat_sub)
  have fs: "unat fileStart = unat hdrFileOffset - unat ?off" unfolding c(9) using c(6) by (rule unat_sub)
  have cnt: "unat count = unat (mb_loadEndAddr h) - unat (mb_loadAddr h)"
    unfolding c(8) using c(1) by (intro unat_sub) simp
  have "fileStart \<le> filesize" using fs assms(2) by (simp add: word_le_nat_alt)
  then have "unat (filesize - fileStart) = unat filesize - unat fileStart" by (rule unat_sub)
  then have "unat fileStart + unat count \<le> unat filesize"
    using c(10) \<open>fileStart \<le> filesize\<close> by (simp add: word_le_nat_alt)
  then show ?thesis
    using c off fs cnt by (simp add: word_less_nat_alt word_le_nat_alt)
qed

definition example_mb_header :: MultiBootHeader where
  "example_mb_header = \<lparr>mb_magic = 0x1BADB002, mb_flags = 0x00010000, mb_checksum = 0xE4514FFE,
     mb_hdrAddr = 0x100010, mb_loadAddr = 0x100000, mb_loadEndAddr = 0x102000,
     mb_bssEndAddr = 0x103000, mb_entryAddr = 0x100030\<rparr>"

theorem ExtractMemLayout_sound_witness:
  "ExtractMemLayout example_mb_header 0x1010 0x4000 (0, 0, 0) = (True, 0x1000, 0x100000, 0x2000) \<and>
   unat (0x1000 :: u32) + unat (0x2000 :: u32) \<le> unat (0x4000 :: u32)"
proof -
  have l: "ExtractMemLayout example_mb_header 0x1010 0x4000 (0, 0, 0) = (True, 0x1000, 0x100000, 0x2000)"
    by (simp add: ExtractMemLayout_def example_mb_header_def)
  with ExtractMemLayout_sound [OF l] show ?thesis by simp
qed

subsection \<open>The memory map survives the handover\<close>

definition entry_wf :: "MemoryMapEntry \<Rightarrow> bool" where
  "entry_wf e \<longleftrightarrow> length (mme_base e) = 8 \<and> length (mme_size e) = 8 \<and> length (mme_type e) = 4"

lemma length_entry_bytes [simp]: "entry_wf e \<Longrightarrow> length (MemoryMapEntry_bytes e) = 20"
  by (simp add: entry_wf_def MemoryMapEntry_bytes_def)

lemma entry_of_bytes_bytes: "entry_wf e \<Longrightarrow> MemoryMapEntry_of_bytes (MemoryMapEntry_bytes e) = e"
  by (simp add: entry_wf_def MemoryMapEntry_bytes_def MemoryMapEntry_of_bytes_def subbytes_def)

text \<open>One entry of the array in memory.\<close>

definition mmap_cell :: "MemoryMapEntry \<Rightarrow> bytes" where
  "mmap_cell e = UnalignedInt_Set 4 (20 :: u32) @ MemoryMapEntry_bytes e"

lemma length_mmap_cell [simp]: "entry_wf e \<Longrightarrow> length (mmap_cell e) = 24"
  by (simp add: mmap_cell_def)

lemma store_cell:
  assumes "entry_wf e" "k + 24 \<le> 2 ^ 32"
    and m'_def: "m' = MultiBootMmap_SetNext (MultiBootMmap_assign m (a + of_nat k) e) (a + of_nat k) (a + of_nat (k + 24))"
  shows "mem_read m' (a + of_nat k) 24 = mmap_cell e" "mem_read m' a k = mem_read m a k"
proof -
  let ?m1 = "MultiBootMmap_assign m (a + of_nat k) e" and ?e = "MemoryMapEntry_bytes e"
  have k4: "a + of_nat k + 4 = a + of_nat (k + 4)" by simp
  have m': "m' = mem_write ?m1 (a + of_nat k) (UnalignedInt_Set 4 (20 :: u32))"
    by (simp add: m'_def MultiBootMmap_SetNext_def)
  have e: "mem_read ?m1 (a + of_nat (k + 4)) 20 = ?e"
    unfolding MultiBootMmap_assign_def k4 using assms(1) by simp
  have "mem_read m' (a + of_nat (k + 4)) 20 = ?e"
    unfolding m' using assms(2) e
    by (subst mem_read_write_other) simp_all
  moreover have "mem_read m' (a + of_nat k) 4 = UnalignedInt_Set 4 (20 :: u32)" unfolding m' by simp
  moreover have "mem_read m' (a + of_nat k) (4 + 20) =
      mem_read m' (a + of_nat k) 4 @ mem_read m' (a + of_nat k + of_nat 4) 20"
    by (rule mem_read_append)
  moreover have "a + of_nat k + of_nat 4 = a + of_nat (k + 4)" by simp
  ultimately show "mem_read m' (a + of_nat k) 24 = mmap_cell e" by (simp add: mmap_cell_def add.assoc)
  have "mem_read m' (a + of_nat 0) k = mem_read ?m1 (a + of_nat 0) k"
    unfolding m' using assms(2) by (intro mem_read_write_other) simp_all
  also have "\<dots> = mem_read m (a + of_nat 0) k"
    unfolding MultiBootMmap_assign_def k4 using assms(1,2) by (intro mem_read_write_other) simp_all
  finally show "mem_read m' a k = mem_read m a k" by simp
qed

lemma MBGenInfo_loop_cells:
  assumes "i + n = mm_count mm" "mm_count mm \<le> length (mm_ent mm)" "\<forall>e \<in> set (mm_ent mm). entry_wf e"
    and "24 * mm_count mm \<le> 2 ^ 32" "mem_read m a (24 * i) = concat (map mmap_cell (take i (mm_ent mm)))"
  shows "\<exists>m'. MBGenInfo_loop m a mm i n = Some m' \<and>
    mem_read m' a (24 * mm_count mm) = concat (map mmap_cell (MemoryMap_items mm))"
  using assms
proof (induction n arbitrary: i m)
  case 0
  then show ?case by (simp add: MemoryMap_items_def)
next
  case (Suc n)
  let ?e = "mm_ent mm ! i" and ?k = "24 * i"
  let ?m = "MultiBootMmap_SetNext (MultiBootMmap_assign m (a + of_nat ?k) ?e) (a + of_nat ?k) (a + of_nat (?k + 24))"
  have i: "i < mm_count mm" "i < length (mm_ent mm)" using Suc.prems by simp_all
  have wf: "entry_wf ?e" using Suc.prems(3) i by simp
  have k: "?k + 24 \<le> 2 ^ 32" using Suc.prems(4) i by simp
  have "mem_read ?m a (24 * Suc i) = mem_read ?m a ?k @ mem_read ?m (a + of_nat ?k) 24"
    using mem_read_append [of ?m a ?k 24] by (simp only: mult_Suc_right add.commute)
  also have "\<dots> = concat (map mmap_cell (take (Suc i) (mm_ent mm)))"
    unfolding store_cell [OF wf k refl] Suc.prems(5) using i by (simp add: take_Suc_conv_app_nth)
  finally have "\<exists>m'. MBGenInfo_loop ?m a mm (Suc i) n = Some m' \<and>
      mem_read m' a (24 * mm_count mm) = concat (map mmap_cell (MemoryMap_items mm))"
    using Suc.prems by (intro Suc.IH) simp_all
  moreover have "24 * Suc i = ?k + 24" by simp
  ultimately show ?case using i by (simp add: MemoryMap_At_def Let_def del: mult_Suc_right of_nat_add)
qed

lemma cells_at:
  assumes "mem_read m a (24 * length es) = concat (map mmap_cell es)" "i < length es"
    and "\<forall>e \<in> set es. entry_wf e"
  shows "mem_read m (a + of_nat (24 * i)) 24 = mmap_cell (es ! i)"
  using assms
proof (induction es arbitrary: a i)
  case (Cons e es)
  have "mem_read m a (24 + 24 * length es) = mem_read m a 24 @ mem_read m (a + of_nat 24) (24 * length es)"
    by (rule mem_read_append)
  then have split: "mem_read m a 24 = mmap_cell e" "mem_read m (a + of_nat 24) (24 * length es) = concat (map mmap_cell es)"
    using Cons.prems by (simp_all add: append_eq_append_conv)
  show ?case
  proof (cases i)
    case 0
    then show ?thesis using split(1) by simp
  next
    case (Suc j)
    have "mem_read m (a + of_nat 24 + of_nat (24 * j)) 24 = mmap_cell (es ! j)"
      using Cons.IH [OF split(2), of j] Cons.prems Suc by simp
    moreover have "a + of_nat 24 + of_nat (24 * j) = a + of_nat (24 * i)" using Suc by simp
    ultimately show ?thesis using Suc by (simp add: add.assoc)
  qed
qed simp

lemma mmap_walk_cells:
  assumes "\<forall>i < n. mem_read m (a + of_nat (24 * i)) 24 = mmap_cell (es ! i)" "\<forall>i < n. entry_wf (es ! i)"
    and "unat a + 24 * n < 2 ^ 32" "i \<le> n"
  shows "mmap_walk m (a + of_nat (24 * i)) (a + of_nat (24 * n)) =
    Some (map (\<lambda>j. a + of_nat (24 * j)) [i ..< n])"
  using assms(4)
proof (induction "n - i" arbitrary: i)
  case 0
  then show ?case by (simp add: mmap_walk.simps)
next
  case (Suc d)
  have i: "i < n" using Suc.hyps(2) by simp
  have addr: "unat (a + of_nat (24 * j)) = unat a + 24 * j" if "j \<le> n" for j
  proof -
    have "a + of_nat (24 * j) = of_nat (unat a + 24 * j)" by simp
    then show ?thesis using that assms(3) by (simp only:) (intro unat_of_nat_u32, simp)
  qed
  have lt: "a + of_nat (24 * i) < a + of_nat (24 * n)"
    unfolding word_less_nat_alt using addr i by simp
  have cell: "mem_read m (a + of_nat (24 * i)) (4 + 20) = UnalignedInt_Set 4 (20 :: u32) @ MemoryMapEntry_bytes (es ! i)"
    using assms(1) i by (simp add: mmap_cell_def)
  then have "mem_read m (a + of_nat (24 * i)) 4 = UnalignedInt_Set 4 (20 :: u32)"
    unfolding mem_read_append by simp
  then have nxt: "MultiBootMmap_Next m (a + of_nat (24 * i)) = a + of_nat (24 * Suc i)"
    by (simp add: MultiBootMmap_Next_def Read32_Set)
  have "mmap_walk m (a + of_nat (24 * Suc i)) (a + of_nat (24 * n)) =
      Some (map (\<lambda>j. a + of_nat (24 * j)) [Suc i ..< n])"
    using Suc.hyps i by (intro Suc.hyps(1)) simp_all
  moreover have "[i ..< n] = i # [Suc i ..< n]" using i by (rule upt_conv_Cons)
  ultimately show ?case
    using lt nxt by (simp add: mmap_walk.simps [of m "a + of_nat (24 * i)"] del: of_nat_mult mult_Suc_right upt_Suc)
qed

lemma SetMemoryMap_loop_keeps:
  "mbi_flags (SetMemoryMap_loop wide m ent n i) = mbi_flags i"
  "mbi_mmap_base (SetMemoryMap_loop wide m ent n i) = mbi_mmap_base i"
  "mbi_mmap_length (SetMemoryMap_loop wide m ent n i) = mbi_mmap_length i"
  "mbi_bootLoaderName (SetMemoryMap_loop wide m ent n i) = mbi_bootLoaderName i"
  by (induction n arbitrary: ent i) (simp_all add: Let_def)

lemma memory_map_passed:
  assumes "mm_count mm \<le> length (mm_ent mm)" and "\<forall>e \<in> set (mm_ent mm). entry_wf e"
    and "unat a + 24 * mm_count mm < 2 ^ 32"
  shows "\<exists>info m' visited. MBGenInfo wide m mm name a syms colors = Some (info, m') \<and>
    mmap_walk m' (MemoryMapBegin info) (MemoryMapEnd info) = Some visited \<and>
    map (MultiBootMmap_wrapped m') visited = MemoryMap_items mm \<and>
    MultiBootInfo_BootLoaderName info = name"
proof -
  let ?n = "mm_count mm" and ?es = "MemoryMap_items mm"
  let ?m0 = "mem_write m a (replicate (24 * ?n) 0)"
  obtain m' where m': "MBGenInfo_loop ?m0 a mm 0 ?n = Some m'"
    "mem_read m' a (24 * ?n) = concat (map mmap_cell ?es)"
    using MBGenInfo_loop_cells [of 0 ?n mm ?m0 a] assms by (auto simp: mem_read_def)
  have len: "length ?es = ?n" using assms(1) by (simp add: MemoryMap_items_def)
  have wf: "\<forall>e \<in> set ?es. entry_wf e" using assms(2) by (auto simp: MemoryMap_items_def dest: in_set_takeD)
  have cells: "\<forall>i < ?n. mem_read m' (a + of_nat (24 * i)) 24 = mmap_cell (?es ! i)"
    using cells_at [of m' a ?es] m'(2) len wf by auto
  have walk: "mmap_walk m' a (a + of_nat (24 * ?n)) = Some (map (\<lambda>j. a + of_nat (24 * j)) [0 ..< ?n])"
    using mmap_walk_cells [OF cells _ assms(3), of 0] wf len by (auto simp: set_conv_nth)
  have wrapped: "MultiBootMmap_wrapped m' (a + of_nat (24 * j)) = ?es ! j" if "j < ?n" for j
  proof -
    have "mem_read m' (a + of_nat (24 * j)) (4 + 20) = UnalignedInt_Set 4 (20 :: u32) @ MemoryMapEntry_bytes (?es ! j)"
      using cells that by (simp add: mmap_cell_def)
    then have "mem_read m' (a + of_nat (24 * j) + 4) 20 = MemoryMapEntry_bytes (?es ! j)"
      unfolding mem_read_append by simp
    then show ?thesis using wf len that by (simp add: MultiBootMmap_wrapped_def entry_of_bytes_bytes)
  qed
  define info where "info = SetMemoryMap wide m' (MultiBootInfo_SetLoadName (MultiBootInfo_new syms colors) name) a ?n"
  have info: "MemoryMapBegin info = a" "MemoryMapEnd info = a + of_nat (24 * ?n)"
    "MultiBootInfo_BootLoaderName info = name"
    by (simp_all add: info_def SetMemoryMap_def MemoryMapBegin_def MemoryMapEnd_def SetMemoryMap_loop_keeps
        MultiBootInfo_BootLoaderName_def MultiBootInfo_SetLoadName_def MultiBootInfo_new_def FlagField_defs
        InfoFlag_MemMap_def InfoFlag_BootLoaderName_def mult.commute)
  have "map (MultiBootMmap_wrapped m') (map (\<lambda>j. a + of_nat (24 * j)) [0 ..< ?n]) = ?es"
    using wrapped len by (intro nth_equalityI) simp_all
  then show ?thesis
    using m'(1) walk info by (simp add: MBGenInfo_def MemoryMap_Count_def info_def [symmetric])
qed

text \<open>
  C33. The kernel sees the memory map that the BIOS reported: the array that \<^verbatim>\<open>MBGenInfo\<close> builds is
  linked so that the kernel's walk, from the beginning to the end that the information block
  announces, ends, and visits exactly the entries of the loader's memory map, in order; and the
  information block names the loader.
\<close>

theorem mmap_handover:
  assumes "mm_count mm \<le> length (mm_ent mm)" and "\<forall>e \<in> set (mm_ent mm). entry_wf e"
    and "unat a + 24 * mm_count mm < 2 ^ 32"
  shows "\<exists>info m' visited. MBGenInfo wide m mm name a syms colors = Some (info, m') \<and>
    mmap_walk m' (MemoryMapBegin info) (MemoryMapEnd info) = Some visited \<and>
    map (MultiBootMmap_wrapped m') visited = MemoryMap_items mm \<and>
    MultiBootInfo_BootLoaderName info = name"
  using assms by (rule memory_map_passed)

definition example_map :: MemoryMap where
  "example_map = \<lparr>mm_ent = replicate 32 (MemoryMapEntry_of_bytes (replicate 16 0 @ [1, 0, 0, 0])), mm_count = 3\<rparr>"

theorem mmap_handover_witness:
  "\<exists>info m' visited. MBGenInfo x86_shl (\<lambda>_. 0) example_map 0x5000 0x6000 [] [] = Some (info, m') \<and>
     mmap_walk m' (MemoryMapBegin info) (MemoryMapEnd info) = Some visited \<and> length visited = 3"
proof -
  have "length (MemoryMap_items example_map) = 3" by (simp add: MemoryMap_items_def example_map_def)
  moreover have "\<exists>info m' visited. MBGenInfo x86_shl (\<lambda>_. 0) example_map 0x5000 0x6000 [] [] = Some (info, m') \<and>
     mmap_walk m' (MemoryMapBegin info) (MemoryMapEnd info) = Some visited \<and>
     map (MultiBootMmap_wrapped m') visited = MemoryMap_items example_map \<and>
     MultiBootInfo_BootLoaderName info = 0x5000"
    by (rule mmap_handover)
      (simp_all add: example_map_def entry_wf_def MemoryMapEntry_of_bytes_def subbytes_def)
  ultimately show ?thesis by (metis length_map)
qed

end
