(* ===== verification/Text_Screen.thy ===== *)
theory Text_Screen
  imports Basic_Types
begin

text \<open>
  Formatted output (\<^verbatim>\<open>include/device/TextScreen.h\<close>): which characters the class hands to its
  driver. A local buffer is a list with an index into it that counts down; a store in front of
  the buffer is \<^verbatim>\<open>None\<close>.
\<close>

subsection \<open>Operations\<close>

definition WriteString :: "bytes \<Rightarrow> bytes" where
  "WriteString str = cstr str"

definition WriteStringN :: "bytes \<Rightarrow> nat \<Rightarrow> bytes" where
  "WriteStringN str count = take count str"

definition hex_digit :: "u64 \<Rightarrow> u8" where
  "hex_digit x = (let digit = x AND 0x0F
     in if digit < 10 then ucast (digit + 48) else ucast (digit - 10 + 65))"

text \<open>\<^verbatim>\<open>ptr\<close> is the index of the next store; the loop runs 16 times from index 15 down to 0.\<close>

fun WriteHex_loop :: "nat \<Rightarrow> u64 \<Rightarrow> int \<Rightarrow> bytes \<Rightarrow> (int \<times> bytes) option" where
  "WriteHex_loop 0 x ptr buffer = Some (ptr, buffer)"
| "WriteHex_loop (Suc n) x ptr buffer =
     (if ptr < 0 then None
      else WriteHex_loop n (drop_bit 4 x) (ptr - 1) (buffer[nat ptr := hex_digit x]))"

definition WriteHex :: "bytes \<Rightarrow> u64 \<Rightarrow> bytes option" where
  "WriteHex buffer x =
     (case WriteHex_loop 16 x 15 (buffer[16 := 0]) of None \<Rightarrow> None
      | Some (ptr, buffer') \<Rightarrow> Some (cstr (drop (nat (ptr + 1)) buffer')))"

lemma div_10_less: "0 < x \<Longrightarrow> unat (x div 10) < unat (x :: u32)"
  by (simp add: unat_div word_less_nat_alt)

function WriteDecimal_loop :: "u32 \<Rightarrow> int \<Rightarrow> bytes \<Rightarrow> (int \<times> bytes) option" where
  "WriteDecimal_loop x ptr buffer =
     (if x > 0 then
        (if ptr < 0 then None
         else WriteDecimal_loop (x div 10) (ptr - 1) (buffer[nat ptr := ucast (x mod 10) + 48]))
      else Some (ptr, buffer))"
  by pat_completeness auto

termination
  by (relation "measure (\<lambda>(x, _, _). unat x)") (simp_all add: div_10_less)

declare WriteDecimal_loop.simps [simp del]

text \<open>The buffer has 10 bytes: the terminator at index 9, the digits from index 8 down.\<close>

definition WriteDecimal :: "bytes \<Rightarrow> u32 \<Rightarrow> bytes option" where
  "WriteDecimal buffer x =
     (if x > 0 then
        (case WriteDecimal_loop x 8 (buffer[9 := 0]) of None \<Rightarrow> None
         | Some (ptr, buffer') \<Rightarrow> Some (cstr (drop (nat (ptr + 1)) buffer')))
      else Some [48])"

definition WriteInt32 :: "bytes \<Rightarrow> u32 \<Rightarrow> bytes option" where
  "WriteInt32 buffer x =
     (if sint x < 0 then map_option ((#) 45) (WriteDecimal buffer (- x)) else WriteDecimal buffer x)"

subsection \<open>Digits\<close>

fun decimal_digits :: "nat \<Rightarrow> bytes" where
  "decimal_digits n = (if n = 0 then [] else decimal_digits (n div 10) @ [of_nat (n mod 10) + 48])"

declare decimal_digits.simps [simp del]

lemma decimal_digits_0 [simp]: "decimal_digits 0 = []"
  by (simp add: decimal_digits.simps)

lemma length_decimal_digits: "length (decimal_digits n) \<le> k \<longleftrightarrow> n < 10 ^ k"
proof (induction k arbitrary: n)
  case 0
  then show ?case by (subst decimal_digits.simps) simp
next
  case (Suc k)
  show ?case
  proof (cases "n = 0")
    case False
    then have "length (decimal_digits n) = Suc (length (decimal_digits (n div 10)))"
      by (subst decimal_digits.simps) simp
    then show ?thesis using Suc.IH [of "n div 10"] by (simp add: div_less_iff_less_mult mult.commute)
  qed simp
qed

lemma decimal_digits_nonzero: "0 \<notin> set (decimal_digits n)"
proof (induction n rule: decimal_digits.induct)
  case (1 n)
  have "of_nat (n mod 10) + 48 \<noteq> (0 :: u8)"
  proof -
    have "n mod 10 + 48 < 256" "0 < n mod 10 + 48" by (simp_all add: add.commute less_diff_conv2 trans_less_add2)
    then have "(of_nat (n mod 10 + 48) :: u8) \<noteq> of_nat 0"
      by (subst word_of_nat_eq_iff) (simp add: take_bit_nat_eq_self)
    then show ?thesis by simp
  qed
  with 1 show ?case by (subst decimal_digits.simps) auto
qed

definition number_text :: "nat \<Rightarrow> bytes" where
  "number_text n = (if n = 0 then [48] else decimal_digits n)"

text \<open>The value that a string of digits denotes.\<close>

definition digits_value :: "bytes \<Rightarrow> nat" where
  "digits_value ds = foldl (\<lambda>v d. 10 * v + unat (d - 48)) 0 ds"

lemma digits_value_decimal: "digits_value (decimal_digits n) = n"
proof (induction n rule: decimal_digits.induct)
  case (1 n)
  have "n mod 10 < 256" by (rule less_trans [of _ 10]) simp_all
  then have "unat (of_nat (n mod 10) :: u8) = n mod 10" by (simp add: unat_of_nat take_bit_nat_eq_self)
  with 1 show ?case by (cases "n = 0") (simp_all add: digits_value_def decimal_digits.simps [of n])
qed

subsection \<open>Decimal output\<close>

lemma WriteDecimal_loop_eq:
  assumes "-1 \<le> ptr" "ptr < int (length buffer)"
  shows "WriteDecimal_loop x ptr buffer =
    (let ds = decimal_digits (unat x); k = nat (ptr + 1)
     in if length ds \<le> k then Some (ptr - int (length ds), take (k - length ds) buffer @ ds @ drop k buffer)
        else None)"
  using assms
proof (induction x ptr buffer rule: WriteDecimal_loop.induct)
  case (1 x ptr buffer)
  show ?case
  proof (cases "x = 0")
    case True
    then show ?thesis by (simp add: WriteDecimal_loop.simps Let_def)
  next
    case False
    then have pos: "0 < x" by (simp add: word_neq_0_conv)
    let ?ds = "decimal_digits (unat x div 10)" and ?c = "ucast (x mod 10) + 48 :: u8"
    have "(of_nat (unat x mod 10) :: u8) = ucast (x mod 10)"
    proof -
      have "unat (x mod 10) = unat x mod 10" by (simp add: unat_mod)
      then show ?thesis by (metis of_nat_unat)
    qed
    then have ds: "decimal_digits (unat x) = ?ds @ [?c]"
      using pos by (subst decimal_digits.simps) (simp add: word_less_nat_alt)
    show ?thesis
    proof (cases "ptr < 0")
      case True
      then show ?thesis using 1(2) pos ds by (simp add: WriteDecimal_loop.simps Let_def)
    next
      case False
      let ?k = "nat ptr" and ?b = "buffer[nat ptr := ?c]"
      have k: "?k < length buffer" "nat (ptr + 1) = Suc ?k" using 1(3) False by linarith+
      have win: "drop ?k ?b = ?c # drop (Suc ?k) buffer"
        using k(1) by (simp add: Cons_nth_drop_Suc [symmetric] drop_update_cancel)
      have ih: "WriteDecimal_loop (x div 10) (ptr - 1) ?b =
        (if length ?ds \<le> ?k then Some (ptr - 1 - int (length ?ds), take (?k - length ?ds) ?b @ ?ds @ drop ?k ?b)
         else None)"
        using 1(1) [OF pos False] 1(2,3) False by (simp add: unat_div Let_def)
      show ?thesis
        unfolding WriteDecimal_loop.simps [of x] using pos False ih k win
        by (simp add: ds Let_def)
    qed
  qed
qed

lemma WriteDecimal_eq:
  assumes "length buffer = 10"
  shows "WriteDecimal buffer x =
    (if unat x < 10 ^ 9 then Some (if x = 0 then [48] else decimal_digits (unat x)) else None)"
proof (cases "x = 0")
  case False
  let ?ds = "decimal_digits (unat x)"
  have fit: "length ?ds \<le> 9 \<longleftrightarrow> unat x < 10 ^ 9" by (rule length_decimal_digits)
  have stop: "cstr (?ds @ 0 # rest) = ?ds" for rest
    unfolding cstr_def using decimal_digits_nonzero [of "unat x"]
    by (subst takeWhile_append2) auto
  have d9: "drop 9 (buffer[9 := 0]) = [0]"
    using assms by (intro nth_equalityI) simp_all
  show ?thesis
    using False WriteDecimal_loop_eq [of 8 "buffer[9 := 0]" x] assms fit d9 stop
    by (simp add: WriteDecimal_def Let_def word_neq_0_conv)
qed (simp add: WriteDecimal_def)

text \<open>
  C40. \<^verbatim>\<open>WriteDecimal\<close> prints the decimal digits of its argument, without leading zeros, exactly for
  the numbers below 10 to the power of 9: its buffer has room for nine digits, and a larger
  32 bit number makes it store in front of the buffer.
\<close>

theorem WriteDecimal_exact:
  assumes "length buffer = 10"
  shows "WriteDecimal buffer x =
    (if unat x < 10 ^ 9 then Some (if x = 0 then [48] else decimal_digits (unat x)) else None)"
  using assms by (rule WriteDecimal_eq)

theorem WriteDecimal_exact_witness:
  "WriteDecimal (replicate 10 0xAA) 4096 = Some [52, 48, 57, 54] \<and>
   WriteDecimal (replicate 10 0xAA) 1000000000 = None"
proof -
  have "decimal_digits 4096 = [52, 48, 57, 54]" by (simp add: decimal_digits.simps)
  then show ?thesis
    using WriteDecimal_exact [of "replicate 10 0xAA" 4096] WriteDecimal_exact [of "replicate 10 0xAA" 1000000000]
    by simp
qed

subsection \<open>Hexadecimal output\<close>

fun hex_digits :: "nat \<Rightarrow> u64 \<Rightarrow> bytes" where
  "hex_digits 0 x = []"
| "hex_digits (Suc n) x = hex_digits n (drop_bit 4 x) @ [hex_digit x]"

lemma length_hex_digits [simp]: "length (hex_digits n x) = n"
  by (induction n arbitrary: x) simp_all

lemma WriteHex_loop_eq:
  assumes "n \<le> nat (ptr + 1)" "-1 \<le> ptr" "ptr < int (length buffer)"
  shows "WriteHex_loop n x ptr buffer =
    Some (ptr - int n, take (nat (ptr + 1) - n) buffer @ hex_digits n x @ drop (nat (ptr + 1)) buffer)"
  using assms
proof (induction n arbitrary: x ptr buffer)
  case (Suc n)
  let ?k = "nat ptr" and ?b = "buffer[nat ptr := hex_digit x]"
  have p: "0 \<le> ptr" "?k < length buffer" "nat (ptr + 1) = Suc ?k" using Suc.prems by linarith+
  have win: "drop ?k ?b = hex_digit x # drop (Suc ?k) buffer"
    using p(2) by (simp add: Cons_nth_drop_Suc [symmetric] drop_update_cancel)
  show ?case
    using Suc.IH [of "ptr - 1" ?b "drop_bit 4 x"] Suc.prems p win by simp
qed simp

lemma and_mask_nibble: "(x :: u64) AND 0x0F = take_bit 4 x"
  by (simp add: take_bit_eq_mask mask_eq_exp_minus_1)

definition hex_value :: "u8 \<Rightarrow> u64" where
  "hex_value c = (if c < 58 then ucast c - 48 else ucast c - 55)"

lemma nibble: "\<exists>k < 16. x AND 0x0F = (of_nat k :: u64)"
proof -
  have "unat (x AND 0x0F) = unat x mod 16"
    by (simp only: and_mask_nibble unsigned_take_bit_eq) (simp add: take_bit_eq_mod)
  then have "unat (x AND 0x0F) < 16" by simp
  moreover have "x AND 0x0F = of_nat (unat (x AND 0x0F))" by simp
  ultimately show ?thesis by blast
qed

lemma hex_digit_value: "hex_value (hex_digit x) = x AND 0x0F" "hex_digit x \<noteq> 0"
  "0x20 \<le> hex_digit x \<and> hex_digit x \<le> 0x7E"
proof -
  obtain k where k: "k < 16" "x AND 0x0F = (of_nat k :: u64)" using nibble by blast
  have "list_all (\<lambda>k. hex_value (if (of_nat k :: u64) < 10 then ucast (of_nat k + 48 :: u64)
      else ucast (of_nat k - 10 + 65 :: u64)) = of_nat k \<and>
      (if (of_nat k :: u64) < 10 then ucast (of_nat k + 48 :: u64) else ucast (of_nat k - 10 + 65 :: u64)) \<noteq> (0 :: u8) \<and>
      0x20 \<le> (if (of_nat k :: u64) < 10 then ucast (of_nat k + 48 :: u64) else ucast (of_nat k - 10 + 65 :: u64) :: u8) \<and>
      (if (of_nat k :: u64) < 10 then ucast (of_nat k + 48 :: u64) else ucast (of_nat k - 10 + 65 :: u64) :: u8) \<le> 0x7E)
      [0 ..< 16]"
    by code_simp
  then show "hex_value (hex_digit x) = x AND 0x0F" "hex_digit x \<noteq> 0"
    "0x20 \<le> hex_digit x \<and> hex_digit x \<le> 0x7E"
    using k by (simp_all add: list_all_iff hex_digit_def Let_def)
qed

lemma hex_digits_nonzero: "0 \<notin> set (hex_digits n x)"
  by (induction n arbitrary: x) (simp_all add: hex_digit_value(2) [symmetric] hex_digit_value)

lemma hex_digits_value: "foldl (\<lambda>v d. push_bit 4 v OR hex_value d) 0 (hex_digits n x) = take_bit (4 * n) x"
proof (induction n arbitrary: x)
  case (Suc n)
  have "push_bit 4 (take_bit (4 * n) (drop_bit 4 x)) OR (x AND 0x0F) = take_bit (4 * Suc n) x"
    unfolding and_mask_nibble by (rule bit_word_eqI) (auto simp: bit_simps)
  then show ?case by (simp add: Suc.IH hex_digit_value)
qed simp

lemma WriteHex_exact:
  assumes "length buffer = 17"
  shows "WriteHex buffer x = Some (hex_digits 16 x)"
proof -
  have "drop 16 (buffer[16 := 0]) = [0]" using assms by (intro nth_equalityI) simp_all
  moreover have "cstr (hex_digits 16 x @ [0]) = hex_digits 16 x"
    unfolding cstr_def using hex_digits_nonzero [of 16 x] by (subst takeWhile_append2) auto
  ultimately show ?thesis
    using WriteHex_loop_eq [of 16 15 "buffer[16 := 0]" x] assms by (simp add: WriteHex_def)
qed

end
