(* ===== verification/Video_Memory.thy ===== *)
theory Video_Memory
  imports Basic_Types "HOL-Library.Monad_Syntax"
begin

text \<open>
  The text mode frame buffer driver (\<^verbatim>\<open>include/device/VideoMemory.h\<close>): 80 by 25 cells, the
  cursor and the two colours. Writes to I/O ports (\<^verbatim>\<open>include/device/io.h\<close>) are collected in a
  list. \<^verbatim>\<open>None\<close> stands for a call that does not return.
\<close>

subsection \<open>State\<close>

datatype Color = Black | Blue | Green | Cyan | Red | Magenta | Brown | LightGray | DarkGray
  | LightBlue | LightGreen | LightCyan | LightRed | LightMagenta | Yellow | White

fun Color_code :: "Color \<Rightarrow> u8" where
  "Color_code Black = 0" | "Color_code Blue = 1" | "Color_code Green = 2" | "Color_code Cyan = 3"
| "Color_code Red = 4" | "Color_code Magenta = 5" | "Color_code Brown = 6" | "Color_code LightGray = 7"
| "Color_code DarkGray = 8" | "Color_code LightBlue = 9" | "Color_code LightGreen = 10"
| "Color_code LightCyan = 11" | "Color_code LightRed = 12" | "Color_code LightMagenta = 13"
| "Color_code Yellow = 14" | "Color_code White = 15"

record VideoMemory =
  vm_cells :: "u16 list"
  vm_x :: u8
  vm_y :: u8
  vm_fg :: Color
  vm_bg :: Color
  vm_ports :: "(u16 \<times> u8) list"

abbreviation vm_width :: nat where "vm_width \<equiv> 80"
abbreviation vm_height :: nat where "vm_height \<equiv> 25"

subsection \<open>Cells and cursor\<close>

definition VidMemCell_SetColor :: "u16 \<Rightarrow> Color \<Rightarrow> Color \<Rightarrow> u16" where
  "VidMemCell_SetColor raw fg bg =
     (let attrib = push_bit 4 (ucast (Color_code bg)) OR ucast (Color_code fg) :: u16
      in (raw AND 0x00FF) OR push_bit 8 attrib)"

definition VidMemCell_SetChar :: "u16 \<Rightarrow> u8 \<Rightarrow> u16" where
  "VidMemCell_SetChar raw c = (raw AND 0xFF00) OR ucast c"

definition IoWriteByte :: "VideoMemory \<Rightarrow> u16 \<Rightarrow> u8 \<Rightarrow> VideoMemory" where
  "IoWriteByte vm port val = vm\<lparr>vm_ports := vm_ports vm @ [(port, val)]\<rparr>"

definition SyncCursor :: "VideoMemory \<Rightarrow> VideoMemory" where
  "SyncCursor vm =
     (let pos = ucast (vm_y vm) * 80 + ucast (vm_x vm) :: u16;
          vm1 = IoWriteByte vm 0x3D4 14;
          vm2 = IoWriteByte vm1 0x3D5 (ucast (drop_bit 8 pos AND 0xFF));
          vm3 = IoWriteByte vm2 0x3D4 15
      in IoWriteByte vm3 0x3D5 (ucast (pos AND 0xFF)))"

definition VideoMemory_SetColor :: "VideoMemory \<Rightarrow> Color \<Rightarrow> Color \<Rightarrow> VideoMemory" where
  "VideoMemory_SetColor vm foreground background = vm\<lparr>vm_fg := foreground, vm_bg := background\<rparr>"

definition VideoMemory_Reset :: "VideoMemory \<Rightarrow> VideoMemory" where
  "VideoMemory_Reset vm = vm\<lparr>vm_cells :=
       map (\<lambda>raw. VidMemCell_SetChar (VidMemCell_SetColor raw (vm_fg vm) (vm_bg vm)) 32)
         (take (80 * 25) (vm_cells vm)) @ drop (80 * 25) (vm_cells vm),
     vm_x := 0, vm_y := 0\<rparr>"

subsection \<open>Scrolling\<close>

fun scroll_copy :: "u16 list \<Rightarrow> nat \<Rightarrow> nat \<Rightarrow> nat \<Rightarrow> u16 list \<times> nat" where
  "scroll_copy cells dst src 0 = (cells, dst)"
| "scroll_copy cells dst src (Suc n) = scroll_copy (cells[dst := cells ! src]) (Suc dst) (Suc src) n"

partial_function (option) scroll_fill :: "Color \<Rightarrow> Color \<Rightarrow> u16 list \<Rightarrow> nat \<Rightarrow> nat \<Rightarrow> u16 list option" where
  "scroll_fill fg bg cells dst stop =
     (if dst \<noteq> stop
      then scroll_fill fg bg
        (cells[dst := VidMemCell_SetColor (VidMemCell_SetChar (cells ! dst) 32) fg bg]) dst stop
      else Some cells)"

definition ScrollUp :: "VideoMemory \<Rightarrow> VideoMemory option" where
  "ScrollUp vm =
     (let (cells1, dst) = scroll_copy (vm_cells vm) 0 vm_width (vm_width * vm_height - vm_width)
      in do {
        cells2 \<leftarrow> scroll_fill (vm_fg vm) (vm_bg vm) cells1 dst (vm_width * vm_height);
        let vm1 = vm\<lparr>vm_cells := cells2\<rparr>;
        let vm2 = (if vm_y vm1 > 0 then vm1\<lparr>vm_y := vm_y vm1 - 1\<rparr> else vm1);
        Some (SyncCursor vm2) })"

subsection \<open>Output\<close>

definition PutChar_print :: "VideoMemory \<Rightarrow> u8 \<Rightarrow> VideoMemory option" where
  "PutChar_print vm c =
     (let pos = unat (vm_y vm) * vm_width + unat (vm_x vm);
          vm1 = vm\<lparr>vm_cells := (vm_cells vm)[pos := VidMemCell_SetChar (vm_cells vm ! pos) c],
                   vm_x := vm_x vm + 1\<rparr>
      in if vm_x vm1 \<ge> 80 then
           let vm2 = vm1\<lparr>vm_x := 0, vm_y := vm_y vm1 + 1\<rparr>
           in if vm_y vm2 \<ge> 25 then ScrollUp vm2 else Some (SyncCursor vm2)
         else Some (SyncCursor vm1))"

fun PutChar_spaces :: "nat \<Rightarrow> VideoMemory \<Rightarrow> VideoMemory option" where
  "PutChar_spaces 0 vm = Some vm"
| "PutChar_spaces (Suc diff) vm = (case PutChar_print vm 32 of None \<Rightarrow> None | Some vm1 \<Rightarrow> PutChar_spaces diff vm1)"

definition VideoMemory_PutChar :: "VideoMemory \<Rightarrow> u8 \<Rightarrow> VideoMemory option" where
  "VideoMemory_PutChar vm c =
     (if c = 13 then Some (SyncCursor (vm\<lparr>vm_x := 0\<rparr>))
      else if c = 10 then
        let vm1 = vm\<lparr>vm_y := vm_y vm + 1\<rparr>
        in if vm_y vm1 \<ge> 25 then ScrollUp vm1 else Some (SyncCursor vm1)
      else if c = 9 then PutChar_spaces (8 - unat (vm_x vm) mod 8) vm
      else if c \<ge> 0x20 \<and> c \<le> 0x7E then PutChar_print vm c
      else Some vm)"

subsection \<open>Scrolling does not return\<close>

lemma scroll_fill_Some: "scroll_fill fg bg cells dst stop = Some r \<Longrightarrow> dst = stop"
  by (rule scroll_fill.raw_induct [where P = "\<lambda>fg bg cells dst stop r. dst = stop"])
    (auto split: if_splits)

lemma scroll_copy_dst: "snd (scroll_copy cells dst src n) = dst + n"
  by (induction n arbitrary: cells dst src) simp_all

lemma ScrollUp_None: "ScrollUp vm = None"
proof -
  obtain cells1 dst where c: "scroll_copy (vm_cells vm) 0 vm_width (vm_width * vm_height - vm_width) = (cells1, dst)"
    by fastforce
  then have "dst = 1920" using scroll_copy_dst [of "vm_cells vm" 0 vm_width "vm_width * vm_height - vm_width"] by simp
  then have "scroll_fill (vm_fg vm) (vm_bg vm) cells1 dst (vm_width * vm_height) = None"
    using scroll_fill_Some [of "vm_fg vm" "vm_bg vm" cells1 dst 2000] by (cases "scroll_fill (vm_fg vm) (vm_bg vm) cells1 dst 2000") auto
  then show ?thesis using c by (simp add: ScrollUp_def)
qed

subsection \<open>The cursor\<close>

definition vm_inv :: "VideoMemory \<Rightarrow> bool" where
  "vm_inv vm \<longleftrightarrow> length (vm_cells vm) = 2000 \<and> unat (vm_x vm) < 80 \<and> unat (vm_y vm) < 25"

lemma SyncCursor_simps [simp]:
  "vm_cells (SyncCursor vm) = vm_cells vm" "vm_x (SyncCursor vm) = vm_x vm" "vm_y (SyncCursor vm) = vm_y vm"
  "vm_fg (SyncCursor vm) = vm_fg vm" "vm_bg (SyncCursor vm) = vm_bg vm"
  by (simp_all add: SyncCursor_def IoWriteByte_def Let_def)

lemma unat_u8_plus_1: "unat (x :: u8) < 255 \<Longrightarrow> unat (x + 1) = unat x + 1"
  by (simp add: unat_word_ariths)

text \<open>A printable character advances the cursor in reading order; only leaving the last cell hangs.\<close>

definition cursor :: "VideoMemory \<Rightarrow> nat" where
  "cursor vm = unat (vm_y vm) * 80 + unat (vm_x vm)"

lemma PutChar_print_cases:
  assumes "vm_inv vm"
  shows "case PutChar_print vm c of
      None \<Rightarrow> cursor vm = 1999
    | Some vm' \<Rightarrow> vm_inv vm' \<and> cursor vm' = cursor vm + 1 \<and> cursor vm \<noteq> 1999 \<and>
        vm_cells vm' = (vm_cells vm)[cursor vm := VidMemCell_SetChar (vm_cells vm ! cursor vm) c] \<and>
        vm_fg vm' = vm_fg vm \<and> vm_bg vm' = vm_bg vm"
proof -
  let ?x = "unat (vm_x vm)" and ?y = "unat (vm_y vm)"
  have inv: "?x < 80" "?y < 25" "length (vm_cells vm) = 2000" using assms by (simp_all add: vm_inv_def)
  have x1: "unat (vm_x vm + 1) = ?x + 1" using inv by (intro unat_u8_plus_1) simp
  have y1: "unat (vm_y vm + 1) = ?y + 1" using inv by (intro unat_u8_plus_1) simp
  have le: "80 \<le> vm_x vm + 1 \<longleftrightarrow> ?x = 79" "25 \<le> vm_y vm + 1 \<longleftrightarrow> ?y = 24"
    using inv by (auto simp: word_le_nat_alt x1 y1)
  consider "?x < 79" | "?x = 79" "?y < 24" | "?x = 79" "?y = 24" using inv by linarith
  then show ?thesis
    using inv x1 y1 le by cases (auto simp: PutChar_print_def Let_def ScrollUp_None vm_inv_def cursor_def)
qed

lemma PutChar_spaces_cases:
  assumes "vm_inv vm" "cursor vm + n \<le> 2000"
  shows "case PutChar_spaces n vm of
      None \<Rightarrow> cursor vm + n = 2000
    | Some vm' \<Rightarrow> vm_inv vm' \<and> cursor vm' = cursor vm + n \<and> cursor vm + n < 2000"
  using assms
proof (induction n arbitrary: vm)
  case 0
  then show ?case by (auto simp: vm_inv_def cursor_def)
next
  case (Suc n)
  show ?case
  proof (cases "PutChar_print vm 32")
    case None
    then show ?thesis using PutChar_print_cases [OF Suc.prems(1), of 32] Suc.prems(2) by simp
  next
    case (Some vm1)
    then show ?thesis
      using PutChar_print_cases [OF Suc.prems(1), of 32] Suc.prems(2) Suc.IH [of vm1]
      by (auto split: option.splits)
  qed
qed

lemma cursor_last: "x < 80 \<Longrightarrow> y < 25 \<Longrightarrow> y * 80 + x = 1999 \<longleftrightarrow> y = 24 \<and> x = (79 :: nat)"
  by (cases "y = 24") auto

lemma cursor_tab:
  assumes "x < 80" "y < (25 :: nat)"
  shows "y * 80 + x + (8 - x mod 8) \<le> 2000"
    "y * 80 + x + (8 - x mod 8) = 2000 \<longleftrightarrow> y = 24 \<and> 72 \<le> x"
proof -
  have "x + (8 - x mod 8) = 8 * (x div 8) + 8"
    using mult_div_mod_eq [of 8 x] mod_less_divisor [of 8 x] by linarith
  moreover have "x div 8 \<le> 9" "x div 8 = 9 \<longleftrightarrow> 72 \<le> x" using assms(1) by auto
  ultimately show "y * 80 + x + (8 - x mod 8) \<le> 2000"
    "y * 80 + x + (8 - x mod 8) = 2000 \<longleftrightarrow> y = 24 \<and> 72 \<le> x"
    using assms by linarith+
qed

lemma PutChar_cases:
  assumes "vm_inv vm"
  shows "(case VideoMemory_PutChar vm c of Some vm' \<Rightarrow> vm_inv vm' | None \<Rightarrow> True) \<and>
    (VideoMemory_PutChar vm c = None \<longleftrightarrow>
       vm_y vm = 24 \<and> (c = 10 \<or> c = 9 \<and> 72 \<le> vm_x vm \<or> 0x20 \<le> c \<and> c \<le> 0x7E \<and> vm_x vm = 79))"
proof -
  have inv: "unat (vm_x vm) < 80" "unat (vm_y vm) < 25" using assms by (simp_all add: vm_inv_def)
  have y1: "unat (vm_y vm + 1) = unat (vm_y vm) + 1" using inv by (intro unat_u8_plus_1) simp
  have y24: "vm_y vm = 24 \<longleftrightarrow> unat (vm_y vm) = 24" "vm_x vm = 79 \<longleftrightarrow> unat (vm_x vm) = 79"
    by (simp_all add: word_unat_eq_iff)
  have le: "25 \<le> vm_y vm + 1 \<longleftrightarrow> unat (vm_y vm) = 24" "72 \<le> vm_x vm \<longleftrightarrow> 72 \<le> unat (vm_x vm)"
    using inv by (auto simp: word_le_nat_alt y1)
  consider "c = 13" | "c = 10" | "c = 9" | "c \<noteq> 13" "c \<noteq> 10" "c \<noteq> 9" by blast
  then show ?thesis
  proof cases
    case 1
    then show ?thesis using assms by (simp add: VideoMemory_PutChar_def vm_inv_def)
  next
    case 2
    then show ?thesis using assms le y24 y1
      by (auto simp: VideoMemory_PutChar_def vm_inv_def Let_def ScrollUp_None)
  next
    case 3
    have put: "VideoMemory_PutChar vm c = PutChar_spaces (8 - unat (vm_x vm) mod 8) vm"
      using 3 by (simp add: VideoMemory_PutChar_def)
    from 3 show ?thesis
      using PutChar_spaces_cases [OF assms, of "8 - unat (vm_x vm) mod 8"] cursor_tab [OF inv] le y24
      unfolding put cursor_def by (auto split: option.splits)
  next
    case 4
    have "cursor vm = 1999 \<longleftrightarrow> unat (vm_y vm) = 24 \<and> unat (vm_x vm) = 79"
      unfolding cursor_def by (rule cursor_last [OF inv])
    then show ?thesis using 4 PutChar_print_cases [OF assms, of c] assms y24
      by (auto simp: VideoMemory_PutChar_def split: option.splits)
  qed
qed

text \<open>
  C39. Where output to the screen hangs: with the cursor on the screen, \<^verbatim>\<open>PutChar\<close> returns, and
  keeps the cursor on the screen, for every character except those that would need a new line
  below the last one (a line feed there, a printable character in the last cell, or a tab in
  its last eight columns); on those it never returns, because clearing the last line while
  scrolling does not advance.
\<close>

theorem PutChar_hangs_iff:
  assumes "vm_inv vm"
  shows "(case VideoMemory_PutChar vm c of Some vm' \<Rightarrow> vm_inv vm' | None \<Rightarrow> True) \<and>
    (VideoMemory_PutChar vm c = None \<longleftrightarrow>
       vm_y vm = 24 \<and> (c = 10 \<or> c = 9 \<and> 72 \<le> vm_x vm \<or> 0x20 \<le> c \<and> c \<le> 0x7E \<and> vm_x vm = 79))"
  using PutChar_cases [OF assms] .

definition example_screen :: VideoMemory where
  "example_screen = \<lparr>vm_cells = replicate 2000 0, vm_x = 0, vm_y = 24, vm_fg = White, vm_bg = Blue, vm_ports = []\<rparr>"

theorem PutChar_hangs_iff_witness:
  "VideoMemory_PutChar example_screen 10 = None \<and> VideoMemory_PutChar example_screen 65 \<noteq> None"
proof -
  have "vm_inv example_screen" by (simp add: vm_inv_def example_screen_def)
  from PutChar_hangs_iff [OF this, of 10] PutChar_hangs_iff [OF this, of 65] show ?thesis
    by (simp add: example_screen_def)
qed

end
