(* ===== verification/Kernel.thy ===== *)
theory Kernel
  imports Multiboot Text_Screen Video_Memory
begin

text \<open>
  The test kernel (\<^verbatim>\<open>kernel/kernel.cpp\<close>), which prints what the loader told it. Output goes
  through \<^verbatim>\<open>TextScreen\<close> to the frame buffer. \<^verbatim>\<open>None\<close> stands for a run that does not reach the
  final halt: output that never returns, a name without an end, or a number that overruns the
  buffer of \<^verbatim>\<open>WriteDecimal\<close>.
\<close>

subsection \<open>Output\<close>

fun put_text :: "VideoMemory \<Rightarrow> bytes \<Rightarrow> VideoMemory option" where
  "put_text vm [] = Some vm"
| "put_text vm (c # cs) = (case VideoMemory_PutChar vm c of None \<Rightarrow> None | Some vm' \<Rightarrow> put_text vm' cs)"

definition put_string :: "VideoMemory \<Rightarrow> string \<Rightarrow> VideoMemory option" where
  "put_string vm s = put_text vm (map of_char s)"

definition CRLF :: string where
  "CRLF = [CHR 0x0D, CHR 0x0A]"

definition put_hex :: "VideoMemory \<Rightarrow> u64 \<Rightarrow> VideoMemory option" where
  "put_hex vm x = Option.bind (WriteHex (replicate 17 0) x) (put_text vm)"

definition put_decimal :: "VideoMemory \<Rightarrow> u32 \<Rightarrow> VideoMemory option" where
  "put_decimal vm x = Option.bind (WriteDecimal (replicate 10 0) x) (put_text vm)"

partial_function (option) put_cstring :: "mem \<Rightarrow> VideoMemory \<Rightarrow> u32 \<Rightarrow> VideoMemory option" where
  "put_cstring m vm str =
     (if m str \<noteq> 0
      then Option.bind (VideoMemory_PutChar vm (m str)) (\<lambda>vm'. put_cstring m vm' (str + 1))
      else Some vm)"

subsection \<open>The memory map\<close>

definition range_end :: "u64 \<Rightarrow> u64 \<Rightarrow> u64" where
  "range_end start sz =
     (if sz > 0 then
        let e = start + sz
        in if e < start then 0xFFFFFFFFFFFFFFFF else e - 1
      else start)"

definition PrintMemoryMap_line :: "(u32 \<Rightarrow> nat \<Rightarrow> u32) \<Rightarrow> VideoMemory \<Rightarrow> MemoryMapEntry \<Rightarrow> VideoMemory option" where
  "PrintMemoryMap_line wide vm e =
     (let start = MemoryMapEntry_BaseAddress wide e;
          last = range_end start (MemoryMapEntry_Size wide e)
      in do {
        vm1 \<leftarrow> put_hex vm start;
        vm2 \<leftarrow> put_string vm1 '' | '';
        vm3 \<leftarrow> put_hex vm2 last;
        vm4 \<leftarrow> put_string vm3 '' | '';
        vm5 \<leftarrow> put_string vm4 (MemoryMapEntry_TypeAsString e);
        put_string vm5 CRLF })"

partial_function (option) PrintMemoryMap_loop ::
    "(u32 \<Rightarrow> nat \<Rightarrow> u32) \<Rightarrow> mem \<Rightarrow> VideoMemory \<Rightarrow> u32 \<Rightarrow> u32 \<Rightarrow> VideoMemory option" where
  "PrintMemoryMap_loop wide m vm mmap mmapEnd =
     (if mmap < mmapEnd
      then Option.bind (PrintMemoryMap_line wide vm (MultiBootMmap_wrapped m mmap))
        (\<lambda>vm'. PrintMemoryMap_loop wide m vm' (MultiBootMmap_Next m mmap) mmapEnd)
      else Some vm)"

definition PrintMemoryMap ::
    "(u32 \<Rightarrow> nat \<Rightarrow> u32) \<Rightarrow> mem \<Rightarrow> VideoMemory \<Rightarrow> MultiBootInfo \<Rightarrow> VideoMemory option" where
  "PrintMemoryMap wide m vm info =
     (let mmap = MemoryMapBegin info;
          mmapEnd = MemoryMapEnd info
      in if mmap = 0 \<or> mmapEnd = 0
         then do { vm1 \<leftarrow> put_string vm ''Boot loader did not provide a memory map!''; put_string vm1 CRLF }
         else do {
           vm1 \<leftarrow> put_string vm ''Multiboot memory map:'';
           vm2 \<leftarrow> put_string vm1 CRLF;
           PrintMemoryMap_loop wide m vm2 mmap mmapEnd })"

subsection \<open>The entry point\<close>

definition multiboot_main ::
    "(u32 \<Rightarrow> nat \<Rightarrow> u32) \<Rightarrow> mem \<Rightarrow> VideoMemory \<Rightarrow> MultiBootInfo \<Rightarrow> u32 \<Rightarrow> VideoMemory option" where
  "multiboot_main wide m vm info signature =
     do {
       let vm0 = VideoMemory_Reset (VideoMemory_SetColor vm White Blue);
       vm1 \<leftarrow> put_string vm0 ''Hello 32 bit world!'';
       vm2 \<leftarrow> put_string vm1 CRLF;
       if signature \<noteq> 0x2BADB002
       then do { vm3 \<leftarrow> put_string vm2 ''Multi boot signature is broken!''; put_string vm3 CRLF }
       else do {
         vm3 \<leftarrow> put_string vm2 ''Boot loader name: '';
         vm4 \<leftarrow> put_cstring m vm3 (MultiBootInfo_BootLoaderName info);
         vm5 \<leftarrow> put_string vm4 CRLF;
         vm6 \<leftarrow> put_string vm5 ''Low memory: '';
         vm7 \<leftarrow> put_decimal vm6 (LowMemoryCount info);
         vm8 \<leftarrow> put_string vm7 ''k'';
         vm9 \<leftarrow> put_string vm8 CRLF;
         vm10 \<leftarrow> put_string vm9 ''High memory: '';
         vm11 \<leftarrow> put_decimal vm10 (HighMemoryCount info);
         vm12 \<leftarrow> put_string vm11 ''k'';
         vm13 \<leftarrow> put_string vm12 CRLF;
         PrintMemoryMap wide m vm13 info }
     }"

subsection \<open>Ranges\<close>

text \<open>The last address of a region, cut off at the top of the address space.\<close>

lemma range_end_unat:
  "unat (range_end start sz) =
    (if sz = 0 then unat start else min (unat start + unat sz - 1) (2 ^ 64 - 1))"
proof (cases "sz = 0")
  case False
  then have pos: "0 < sz" "0 < unat sz" by (simp_all add: word_neq_0_conv unat_gt_0)
  have lim: "unat start < 2 ^ 64" "unat sz < 2 ^ 64" using unsigned_less [of start] unsigned_less [of sz] by simp_all
  show ?thesis
  proof (cases "unat start + unat sz < 2 ^ 64")
    case True
    then have e: "unat (start + sz) = unat start + unat sz" by (simp add: unat_word_ariths)
    then have "1 \<le> start + sz" using pos by (simp add: word_le_nat_alt)
    then have "unat (start + sz - 1) = unat start + unat sz - 1" using e by (simp add: unat_sub)
    moreover have "\<not> start + sz < start" using e by (simp add: word_less_nat_alt)
    ultimately show ?thesis using True False pos by (simp add: range_end_def)
  next
    case wrap: False
    then have "unat (start + sz) = unat start + unat sz - 2 ^ 64"
      using lim by (simp add: unat_word_ariths mod_if)
    then have "start + sz < start" using wrap lim unfolding word_less_nat_alt by linarith
    then show ?thesis using wrap False pos by (simp add: range_end_def)
  qed
qed (simp add: range_end_def)

subsection \<open>Lines on the screen\<close>

definition printable :: "bytes \<Rightarrow> bool" where
  "printable s \<longleftrightarrow> (\<forall>c \<in> set s. 0x20 \<le> c \<and> c \<le> 0x7E)"

definition at_cell :: "nat \<Rightarrow> nat \<Rightarrow> VideoMemory \<Rightarrow> bool" where
  "at_cell x y vm \<longleftrightarrow> vm_inv vm \<and> unat (vm_x vm) = x \<and> unat (vm_y vm) = y"

lemma put_text_append: "put_text vm (s @ t) = Option.bind (put_text vm s) (\<lambda>vm'. put_text vm' t)"
  by (induction s arbitrary: vm) (simp_all split: option.splits)

lemma PutChar_printable:
  assumes "at_cell x y vm" "x < 79" "0x20 \<le> c \<and> c \<le> 0x7E"
  shows "\<exists>vm'. VideoMemory_PutChar vm c = Some vm' \<and> at_cell (Suc x) y vm'"
proof -
  have inv: "vm_inv vm" "unat (vm_x vm) = x" "unat (vm_y vm) = y" "y < 25"
    using assms(1) by (auto simp: at_cell_def vm_inv_def)
  have put: "VideoMemory_PutChar vm c = PutChar_print vm c"
    using assms(3) by (auto simp: VideoMemory_PutChar_def)
  have x1: "unat (vm_x vm + 1) = x + 1" using inv assms(2) by (subst unat_u8_plus_1) simp_all
  then have "\<not> 80 \<le> vm_x vm + 1" using assms(2) by (simp add: word_le_nat_alt)
  then show ?thesis using inv x1 assms(2) unfolding put
    by (auto simp: PutChar_print_def Let_def at_cell_def vm_inv_def)
qed

lemma put_text_printable:
  assumes "at_cell x y vm" "x + length s \<le> 79" "printable s"
  shows "\<exists>vm'. put_text vm s = Some vm' \<and> at_cell (x + length s) y vm'"
  using assms
proof (induction s arbitrary: x vm)
  case (Cons c s)
  obtain vm1 where "VideoMemory_PutChar vm c = Some vm1" "at_cell (Suc x) y vm1"
    using PutChar_printable [OF Cons.prems(1), of c] Cons.prems(2,3) by (auto simp: printable_def)
  then show ?case using Cons.IH [of "Suc x" vm1] Cons.prems by (auto simp: printable_def)
qed simp

lemma put_CRLF:
  assumes "at_cell x y vm"
  shows "if y < 24 then \<exists>vm'. put_string vm CRLF = Some vm' \<and> at_cell 0 (Suc y) vm'
    else put_string vm CRLF = None"
proof -
  have inv: "vm_inv vm" "unat (vm_y vm) = y" "y < 25" using assms by (auto simp: at_cell_def vm_inv_def)
  have y1: "unat (vm_y vm + 1) = y + 1" using inv by (subst unat_u8_plus_1) simp_all
  have le: "25 \<le> vm_y vm + 1 \<longleftrightarrow> \<not> y < 24" using y1 inv by (auto simp: word_le_nat_alt)
  have "map of_char CRLF = [13, 10 :: u8]" by (simp add: CRLF_def)
  then show ?thesis
    using inv le y1
    by (auto simp: put_string_def VideoMemory_PutChar_def Let_def ScrollUp_None at_cell_def vm_inv_def)
qed

lemma printable_hex: "printable (hex_digits n x)"
  unfolding printable_def by (induction n arbitrary: x) (use hex_digit_value(3) in auto)

lemma printable_type:
  "printable (map of_char (MemoryMapEntry_TypeAsString e))" "length (MemoryMapEntry_TypeAsString e) \<le> 8"
proof -
  show "printable (map of_char (MemoryMapEntry_TypeAsString e))"
    unfolding MemoryMapEntry_TypeAsString_def by (cases "MemoryMapEntry_Type e") (simp_all add: printable_def)
  show "length (MemoryMapEntry_TypeAsString e) \<le> 8"
    unfolding MemoryMapEntry_TypeAsString_def by (cases "MemoryMapEntry_Type e") simp_all
qed

lemma PrintMemoryMap_line_cases:
  assumes "at_cell 0 y vm"
  shows "if y < 24 then \<exists>vm'. PrintMemoryMap_line wide vm e = Some vm' \<and> at_cell 0 (Suc y) vm'
    else PrintMemoryMap_line wide vm e = None"
proof -
  let ?s = "MemoryMapEntry_BaseAddress wide e"
  let ?e = "range_end ?s (MemoryMapEntry_Size wide e)"
  define bar :: bytes where "bar = map of_char '' | ''"
  let ?t = "hex_digits 16 ?s @ bar @ hex_digits 16 ?e @ bar @ map of_char (MemoryMapEntry_TypeAsString e)"
  have line: "PrintMemoryMap_line wide vm e = Option.bind (put_text vm ?t) (\<lambda>vm'. put_string vm' CRLF)"
    unfolding PrintMemoryMap_line_def put_hex_def put_string_def Let_def bar_def [symmetric]
    by (simp add: WriteHex_exact put_text_append)
  have "printable bar" by (simp add: printable_def bar_def)
  then have "printable ?t" using printable_hex printable_type(1) by (auto simp: printable_def)
  moreover have "length ?t \<le> 79" using printable_type(2) [of e] by (simp add: bar_def)
  ultimately obtain vm1 where "put_text vm ?t = Some vm1" "at_cell (0 + length ?t) y vm1"
    using put_text_printable [OF assms, of ?t] by auto
  then show ?thesis using put_CRLF [of _ y vm1] line by auto
qed

text \<open>
  The kernel hangs on a long memory map: from the beginning of a line, printing the entries
  of the map returns exactly when they all fit above the last line of the screen; with one more
  entry the kernel never returns from scrolling. The loader passes up to 32 entries.
\<close>

theorem PrintMemoryMap_hangs_iff:
  assumes "mmap_walk m mmap mmapEnd = Some visited" and "vm_inv vm" and "vm_x vm = 0"
  shows "PrintMemoryMap_loop wide m vm mmap mmapEnd = None \<longleftrightarrow> 24 < unat (vm_y vm) + length visited"
proof -
  have "PrintMemoryMap_loop wide m vm mmap mmapEnd = None \<longleftrightarrow> 24 < y + length visited"
    if "at_cell 0 y vm" for y vm
    using assms(1) that
  proof (induction visited arbitrary: mmap vm y)
    case Nil
    then have "\<not> mmap < mmapEnd" by (auto simp: mmap_walk.simps [of m mmap] split: if_splits bind_splits)
    then show ?case using Nil.prems(2) by (auto simp: PrintMemoryMap_loop.simps at_cell_def vm_inv_def)
  next
    case (Cons v visited)
    have lt: "mmap < mmapEnd" and rest: "mmap_walk m (MultiBootMmap_Next m mmap) mmapEnd = Some visited"
      using Cons.prems(1) by (auto simp: mmap_walk.simps [of m mmap] split: if_splits bind_splits)
    show ?case
    proof (cases "y < 24")
      case False
      then have "PrintMemoryMap_line wide vm (MultiBootMmap_wrapped m mmap) = None"
        using PrintMemoryMap_line_cases [OF Cons.prems(2)] by simp
      then show ?thesis using lt False by (simp add: PrintMemoryMap_loop.simps [of wide m vm])
    next
      case True
      then obtain vm' where vm': "PrintMemoryMap_line wide vm (MultiBootMmap_wrapped m mmap) = Some vm'"
        "at_cell 0 (Suc y) vm'"
        using PrintMemoryMap_line_cases [OF Cons.prems(2), of wide "MultiBootMmap_wrapped m mmap"] by auto
      show ?thesis
        using Cons.IH [OF rest vm'(2)] vm'(1) lt by (simp add: PrintMemoryMap_loop.simps [of wide m vm])
    qed
  qed
  then show ?thesis using assms(2,3) by (simp add: at_cell_def)
qed

lemma short_walk: "mmap_walk (\<lambda>_. 0) 0 8 = Some [0, 4]"
proof -
  have "MultiBootMmap_Next (\<lambda>_. 0) 0 = 4" "MultiBootMmap_Next (\<lambda>_. 0) 4 = 8" by code_simp+
  then show ?thesis
    by (simp add: mmap_walk.simps [of _ 0] mmap_walk.simps [of _ 4] mmap_walk.simps [of _ 8])
qed

theorem PrintMemoryMap_hangs_iff_witness:
  "PrintMemoryMap_loop x86_shl (\<lambda>_. 0) (example_screen\<lparr>vm_y := 23\<rparr>) 0 8 = None \<and>
   PrintMemoryMap_loop x86_shl (\<lambda>_. 0) (example_screen\<lparr>vm_y := 22\<rparr>) 0 8 \<noteq> None"
proof -
  have "vm_inv (example_screen\<lparr>vm_y := 23\<rparr>)" "vm_inv (example_screen\<lparr>vm_y := 22\<rparr>)"
    by (simp_all add: vm_inv_def example_screen_def)
  from PrintMemoryMap_hangs_iff [OF short_walk this(1)] PrintMemoryMap_hangs_iff [OF short_walk this(2)]
  show ?thesis by (simp add: example_screen_def)
qed

end
