(* ===== verification/A20_Gate.thy ===== *)
theory A20_Gate
  imports Basic_Types
begin

text \<open>
  Enabling address line 20 (\<^verbatim>\<open>lib/pm86/a20.cpp\<close>) with the port and segment accesses of
  \<^verbatim>\<open>include/device/io.h\<close>, the keyboard controller (\<^verbatim>\<open>include/device/PS2Controller.h\<close>) and the
  system control port (\<^verbatim>\<open>include/device/SysCtrl.h\<close>). The processor's port instructions, its
  memory accesses and the INT 15h service are a record of operations on the state of the
  machine; what the code relies on is the hypothesis \<^verbatim>\<open>a20_documented\<close>.
\<close>

subsection \<open>Machine accesses\<close>

text \<open>Memory is addressed by the linear address the processor forms, before the gate.\<close>

record 'h Machine =
  in_op :: "'h \<Rightarrow> u16 \<Rightarrow> u8 \<times> 'h"
  out_op :: "'h \<Rightarrow> u16 \<Rightarrow> u8 \<Rightarrow> 'h"
  int15_op :: "'h \<Rightarrow> u16 \<Rightarrow> 'h"
  load_op :: "'h \<Rightarrow> nat \<Rightarrow> u8"
  store_op :: "'h \<Rightarrow> nat \<Rightarrow> u8 \<Rightarrow> 'h"

definition IoReadByte :: "'h Machine \<Rightarrow> 'h \<Rightarrow> u16 \<Rightarrow> u8 \<times> 'h" where
  "IoReadByte M h port = in_op M h port"

definition IoWait :: "'h Machine \<Rightarrow> 'h \<Rightarrow> 'h" where
  "IoWait M h = out_op M h 0x80 0"

text \<open>\<^verbatim>\<open>SetFs\<close> followed by an access through \<^verbatim>\<open>fs\<close>: real mode adds sixteen times the segment.\<close>

definition SetFs :: "u16 \<Rightarrow> u16 \<Rightarrow> nat" where
  "SetFs seg off = 16 * unat seg + unat off"

definition Peek :: "'h Machine \<Rightarrow> 'h \<Rightarrow> u16 \<Rightarrow> u16 \<Rightarrow> u8" where
  "Peek M h seg off = load_op M h (SetFs seg off)"

definition Poke :: "'h Machine \<Rightarrow> 'h \<Rightarrow> u16 \<Rightarrow> u16 \<Rightarrow> u8 \<Rightarrow> 'h" where
  "Poke M h seg off v = store_op M h (SetFs seg off) v"

subsection \<open>Keyboard controller\<close>

definition PS2Status_OutputBufferFull :: u8 where "PS2Status_OutputBufferFull = 0x01"
definition PS2Status_InputBufferFull :: u8 where "PS2Status_InputBufferFull = 0x02"

definition PS2Controller_Status :: "'h Machine \<Rightarrow> 'h \<Rightarrow> u8 \<times> 'h" where
  "PS2Controller_Status M h = IoReadByte M (IoWait M h) 0x64"

definition PS2Controller_ReadData :: "'h Machine \<Rightarrow> 'h \<Rightarrow> u8 \<times> 'h" where
  "PS2Controller_ReadData M h = IoReadByte M (IoWait M h) 0x60"

definition PS2Controller_SendCommand :: "'h Machine \<Rightarrow> 'h \<Rightarrow> u8 \<Rightarrow> 'h" where
  "PS2Controller_SendCommand M h cmd = out_op M h 0x64 cmd"

definition PS2Controller_WriteData :: "'h Machine \<Rightarrow> 'h \<Rightarrow> u8 \<Rightarrow> 'h" where
  "PS2Controller_WriteData M h cmd = out_op M h 0x60 cmd"

text \<open>The loop of \<^verbatim>\<open>DrainBuffers\<close> with the number of rounds left.\<close>

fun DrainBuffers_loop :: "'h Machine \<Rightarrow> nat \<Rightarrow> nat \<Rightarrow> 'h \<Rightarrow> bool \<times> 'h" where
  "DrainBuffers_loop M 0 ffCount h = (False, h)"
| "DrainBuffers_loop M (Suc n) ffCount h =
     (let (status, h1) = PS2Controller_Status M h
      in if status = 0xFF then
           (if ffCount > 32 then (False, h1) else DrainBuffers_loop M n (Suc ffCount) h1)
         else if FlagField_IsSet status PS2Status_OutputBufferFull then
           DrainBuffers_loop M n 0 (snd (PS2Controller_ReadData M h1))
         else if \<not> FlagField_IsSet status PS2Status_InputBufferFull then (True, h1)
         else DrainBuffers_loop M n 0 h1)"

definition PS2Controller_DrainBuffers :: "'h Machine \<Rightarrow> 'h \<Rightarrow> bool \<times> 'h" where
  "PS2Controller_DrainBuffers M h = DrainBuffers_loop M 100000 0 h"

definition PS2Controller_EnableA20Gate :: "'h Machine \<Rightarrow> 'h \<Rightarrow> bool \<times> 'h" where
  "PS2Controller_EnableA20Gate M h =
     (let (ok, h1) = PS2Controller_DrainBuffers M h
      in if \<not> ok then (False, h1)
         else
           let h2 = PS2Controller_SendCommand M h1 0xD1;
               (_, h3) = PS2Controller_DrainBuffers M h2;
               h4 = PS2Controller_WriteData M h3 0xDF;
               (_, h5) = PS2Controller_DrainBuffers M h4;
               h6 = PS2Controller_SendCommand M h5 0xFF;
               (_, h7) = PS2Controller_DrainBuffers M h6
           in (True, h7))"

subsection \<open>System control port\<close>

definition PortA_FastReset :: u8 where "PortA_FastReset = 0x01"
definition PortA_EnableA20 :: u8 where "PortA_EnableA20 = 0x02"

definition SystemCtrlPort_ReadPortA :: "'h Machine \<Rightarrow> 'h \<Rightarrow> u8 \<times> 'h" where
  "SystemCtrlPort_ReadPortA M h = IoReadByte M h 0x92"

definition SystemCtrlPort_SetPortA :: "'h Machine \<Rightarrow> 'h \<Rightarrow> u8 \<Rightarrow> 'h" where
  "SystemCtrlPort_SetPortA M h flags = out_op M h 0x92 flags"

definition SystemCtrlPort_ReadPortB :: "'h Machine \<Rightarrow> 'h \<Rightarrow> u8 \<times> 'h" where
  "SystemCtrlPort_ReadPortB M h = IoReadByte M h 0x61"

definition SystemCtrlPort_SetPortB :: "'h Machine \<Rightarrow> 'h \<Rightarrow> u8 \<Rightarrow> 'h" where
  "SystemCtrlPort_SetPortB M h flags = out_op M h 0x61 flags"

definition SystemCtrlPort_EnableFastA20 :: "'h Machine \<Rightarrow> 'h \<Rightarrow> 'h" where
  "SystemCtrlPort_EnableFastA20 M h =
     (let (ctrlA, h1) = SystemCtrlPort_ReadPortA M h;
          ctrlA1 = FlagField_Set ctrlA PortA_EnableA20;
          ctrlA2 = FlagField_Clear ctrlA1 PortA_FastReset
      in SystemCtrlPort_SetPortA M h1 ctrlA2)"

subsection \<open>Testing and enabling\<close>

text \<open>\<^verbatim>\<open>i\<close> is the round, \<^verbatim>\<open>n\<close> the number of rounds left.\<close>

fun TestA20_loop :: "'h Machine \<Rightarrow> nat \<Rightarrow> nat \<Rightarrow> 'h \<Rightarrow> bool \<times> 'h" where
  "TestA20_loop M i 0 h = (False, h)"
| "TestA20_loop M i (Suc n) h =
     (let h1 = Poke M h 0x0000 0x0500 (0xAA XOR of_nat i);
          h2 = Poke M h1 0xFFFF 0x0510 (0x55 XOR of_nat i);
          h3 = IoWait M h2;
          success = (Peek M h3 0x0000 0x0500 = 0xAA XOR of_nat i \<and>
                     Peek M h3 0xFFFF 0x0510 = 0x55 XOR of_nat i)
      in if success then (True, h3) else TestA20_loop M (Suc i) n h3)"

definition TestA20 :: "'h Machine \<Rightarrow> 'h \<Rightarrow> bool \<times> 'h" where
  "TestA20 M h =
     (let old = Peek M h 0x0000 0x0500;
          (ok, h1) = TestA20_loop M 0 100 h
      in (ok, Poke M h1 0x0000 0x0500 old))"

fun EnableA20_loop :: "'h Machine \<Rightarrow> nat \<Rightarrow> 'h \<Rightarrow> bool \<times> 'h" where
  "EnableA20_loop M 0 h = (False, h)"
| "EnableA20_loop M (Suc n) h =
     (let (ok1, h1) = TestA20 M h
      in if ok1 then (True, h1)
         else
           let (ok2, h2) = TestA20 M (int15_op M h1 0x2401)
           in if ok2 then (True, h2)
              else
                let (gate, h3) = PS2Controller_EnableA20Gate M h2;
                    (ok3, h4) = (if gate then TestA20 M h3 else (False, h3))
                in if ok3 then (True, h4)
                   else
                     let (ok5, h5) = TestA20 M (SystemCtrlPort_EnableFastA20 M h4)
                     in if ok5 then (True, h5) else EnableA20_loop M n h5)"

definition EnableA20 :: "'h Machine \<Rightarrow> 'h \<Rightarrow> bool \<times> 'h" where
  "EnableA20 M h = EnableA20_loop M 256 h"

subsection \<open>The gate\<close>

text \<open>
  With the gate closed, address bit 20 is forced to zero. What the code relies on: memory
  accesses go through the gate, and they, like writes to the unused port 0x80, leave the gate
  as it is.
\<close>

definition gated :: "bool \<Rightarrow> nat \<Rightarrow> nat" where
  "gated g a = (if g then a else a div 2 ^ 21 * 2 ^ 21 + a mod 2 ^ 20)"

definition a20_documented :: "'h Machine \<Rightarrow> ('h \<Rightarrow> bool) \<Rightarrow> ('h \<Rightarrow> nat \<Rightarrow> u8) \<Rightarrow> bool" where
  "a20_documented M gate ram \<longleftrightarrow>
     (\<forall>h a. load_op M h a = ram h (gated (gate h) a)) \<and>
     (\<forall>h a v. ram (store_op M h a v) = (ram h)(gated (gate h) a := v) \<and>
        gate (store_op M h a v) = gate h) \<and>
     (\<forall>h v. ram (out_op M h 0x80 v) = ram h \<and> gate (out_op M h 0x80 v) = gate h)"

lemma a20_accesses:
  assumes "a20_documented M gate ram"
  shows "Peek M h seg off = ram h (gated (gate h) (SetFs seg off))"
    "ram (Poke M h seg off v) = (ram h)(gated (gate h) (SetFs seg off) := v)"
    "gate (Poke M h seg off v) = gate h"
    "ram (IoWait M h) = ram h" "gate (IoWait M h) = gate h"
  using assms by (simp_all add: a20_documented_def Peek_def Poke_def IoWait_def)

lemma probe_addresses:
  "gated True (SetFs 0xFFFF 0x0510) = 0x100500" "gated False (SetFs 0xFFFF 0x0510) = 0x500"
  "gated g (SetFs 0 0x0500) = 0x500"
  by (simp_all add: gated_def SetFs_def)

lemma probe_values_differ: "(0x55 XOR x :: u8) \<noteq> 0xAA XOR x"
proof
  assume "0x55 XOR x = 0xAA XOR x"
  then have "(0x55 XOR x) XOR x = (0xAA XOR x) XOR x" by simp
  then show False by (simp add: xor.assoc)
qed

lemma TestA20_loop_closed:
  assumes "a20_documented M gate ram" "\<not> gate h" "TestA20_loop M i n h = (ok, h')"
  shows "\<not> ok \<and> \<not> gate h' \<and> (\<forall>a. a \<noteq> 0x500 \<longrightarrow> ram h' a = ram h a)"
  using assms(2,3)
proof (induction n arbitrary: i h)
  case (Suc n)
  let ?h3 = "IoWait M (Poke M (Poke M h 0 0x500 (0xAA XOR of_nat i)) 0xFFFF 0x510 (0x55 XOR of_nat i))"
  have "\<not> gate ?h3" "\<forall>a. a \<noteq> 0x500 \<longrightarrow> ram ?h3 a = ram h a" "Peek M ?h3 0 0x500 = 0x55 XOR of_nat i"
    using Suc.prems(1) by (simp_all add: a20_accesses [OF assms(1)] probe_addresses)
  then show ?case using Suc.IH [of ?h3 "Suc i"] Suc.prems(2)
    by (auto simp: Let_def probe_values_differ)
qed simp

lemma TestA20_loop_open:
  assumes "a20_documented M gate ram" "gate h" "TestA20_loop M i (Suc n) h = (ok, h')"
  shows "ok \<and> gate h' \<and> (\<forall>a. a \<noteq> 0x500 \<longrightarrow> ram h' a = (if a = 0x100500 then 0x55 XOR of_nat i else ram h a))"
  using assms(2,3) by (auto simp: Let_def a20_accesses [OF assms(1)] probe_addresses split: if_splits)

lemma TestA20_cases:
  assumes doc: "a20_documented M gate ram" and test: "TestA20 M h = (ok, h')"
  shows "ok = gate h" "gate h' = gate h"
    "ram h' = (if gate h then (ram h)(0x100500 := 0x55) else ram h)"
proof -
  obtain h1 where loop: "TestA20_loop M 0 100 h = (ok, h1)"
    and h': "h' = Poke M h1 0 0x500 (Peek M h 0 0x500)"
    using test by (auto simp: TestA20_def Let_def split: prod.splits)
  have "ok = gate h \<and> gate h1 = gate h \<and>
    (\<forall>a. a \<noteq> 0x500 \<longrightarrow> ram h1 a = (if gate h \<and> a = 0x100500 then 0x55 else ram h a))"
  proof (cases "gate h")
    case True
    have "(100 :: nat) = Suc 99" by simp
    then show ?thesis using TestA20_loop_open [OF doc True, of 0 99] loop True by simp
  next
    case False
    then show ?thesis using TestA20_loop_closed [OF doc False loop] by simp
  qed
  then show "ok = gate h" "gate h' = gate h"
    "ram h' = (if gate h then (ram h)(0x100500 := 0x55) else ram h)"
    by (auto simp: h' fun_eq_iff a20_accesses [OF doc] probe_addresses)
qed

lemma EnableA20_loop_gate:
  assumes doc: "a20_documented M gate ram" and "EnableA20_loop M n h = (r, h')" "0 < n"
  shows "r = gate h' \<and> ((gate h \<or> (\<forall>h. gate (int15_op M h 0x2401)) \<or>
    (\<forall>h v. bit v 1 \<longrightarrow> gate (out_op M h 0x92 v))) \<longrightarrow> r)"
  using assms(2,3)
proof (induction n arbitrary: h)
  case (Suc n)
  obtain ok1 h1 where t1: "TestA20 M h = (ok1, h1)" by fastforce
  obtain ok2 h2 where t2: "TestA20 M (int15_op M h1 0x2401) = (ok2, h2)" by fastforce
  obtain g h3 where t3: "PS2Controller_EnableA20Gate M h2 = (g, h3)" by fastforce
  obtain ok3 h4 where t4: "(if g then TestA20 M h3 else (False, h3)) = (ok3, h4)" by fastforce
  obtain ok5 h5 where t5: "TestA20 M (SystemCtrlPort_EnableFastA20 M h4) = (ok5, h5)" by fastforce
  note tests = TestA20_cases(1,2) [OF doc t1] TestA20_cases(1,2) [OF doc t2] TestA20_cases(1,2) [OF doc t5]
  have ok3: "ok3 \<Longrightarrow> gate h4" using t4 TestA20_cases(1,2) [OF doc, of h3] by (auto split: if_splits)
  have fast: "gate (SystemCtrlPort_EnableFastA20 M h4)" if "\<forall>h v. bit v 1 \<longrightarrow> gate (out_op M h 0x92 v)"
    using that by (auto simp: SystemCtrlPort_EnableFastA20_def SystemCtrlPort_SetPortA_def
        FlagField_defs PortA_EnableA20_def PortA_FastReset_def bit_simps split: prod.splits)
  have step: "(r, h') = (if ok1 then (True, h1) else if ok2 then (True, h2) else if ok3 then (True, h4)
      else if ok5 then (True, h5) else EnableA20_loop M n h5)"
    using Suc.prems(1) t1 t2 t3 t4 t5 by (simp add: Let_def cong: if_cong)
  show ?case
  proof (cases "ok1 \<or> ok2 \<or> ok3 \<or> ok5")
    case True
    then show ?thesis using step tests ok3 by (auto split: if_splits)
  next
    case False
    then have rest: "EnableA20_loop M n h5 = (r, h')" using step by simp
    have r: "r = gate h'"
    proof (cases n)
      case 0
      then show ?thesis using rest tests False by simp
    next
      case (Suc k)
      then show ?thesis using Suc.IH [OF rest] by simp
    qed
    show ?thesis using r False tests fast by auto
  qed
qed simp

text \<open>
  C36. \<^verbatim>\<open>TestA20\<close> answers whether the gate is open, leaves the gate as it is, and restores the
  memory it probes, except that with an open gate the byte at 0x100500 keeps the probe value.
\<close>

theorem TestA20_exact:
  assumes "a20_documented M gate ram"
  shows "\<exists>h'. TestA20 M h = (gate h, h') \<and> gate h' = gate h \<and>
    ram h' = (if gate h then (ram h)(0x100500 := 0x55) else ram h)"
  using TestA20_cases [OF assms] by (cases "TestA20 M h") simp

text \<open>
  C35. \<^verbatim>\<open>EnableA20\<close> tells the truth: its result is whether the gate is open when it returns. It
  returns true when the gate was open to begin with, when the BIOS service opens it, or when
  setting bit 1 of port 0x92 opens it, whatever the keyboard controller does.
\<close>

theorem EnableA20_truthful:
  assumes "a20_documented M gate ram" "EnableA20 M h = (r, h')"
  shows "r = gate h' \<and> ((gate h \<or> (\<forall>h. gate (int15_op M h 0x2401)) \<or>
    (\<forall>h v. bit v 1 \<longrightarrow> gate (out_op M h 0x92 v))) \<longrightarrow> r)"
  using EnableA20_loop_gate [OF assms(1) assms(2) [unfolded EnableA20_def]] by auto

subsection \<open>A machine\<close>

text \<open>
  A machine without a keyboard controller (reads of its ports float high) and without the BIOS
  service, whose gate is bit 1 of port 0x92.
\<close>

record board =
  board_ctrl :: u8
  board_ram :: "nat \<Rightarrow> u8"

definition board_gate :: "board \<Rightarrow> bool" where
  "board_gate h \<longleftrightarrow> bit (board_ctrl h) 1"

definition board_machine :: "board Machine" where
  "board_machine = \<lparr>in_op = (\<lambda>h port. (if port = 0x92 then board_ctrl h else 0xFF, h)),
     out_op = (\<lambda>h port v. if port = 0x92 then h\<lparr>board_ctrl := v\<rparr> else h),
     int15_op = (\<lambda>h ax. h),
     load_op = (\<lambda>h a. board_ram h (gated (board_gate h) a)),
     store_op = (\<lambda>h a v. h\<lparr>board_ram := (board_ram h)(gated (board_gate h) a := v)\<rparr>)\<rparr>"

lemma board_documented: "a20_documented board_machine board_gate board_ram"
  by (simp add: a20_documented_def board_machine_def board_gate_def)

theorem TestA20_exact_witness:
  "\<exists>h'. TestA20 board_machine \<lparr>board_ctrl = 2, board_ram = \<lambda>_. 7\<rparr> = (True, h') \<and>
    board_ram h' 0x500 = 7 \<and> board_ram h' 0x100500 = 0x55"
  using TestA20_exact [OF board_documented, of "\<lparr>board_ctrl = 2, board_ram = \<lambda>_. 7\<rparr>"]
  by (auto simp: board_gate_def bit_iff_odd)

theorem EnableA20_truthful_witness:
  "fst (EnableA20 board_machine \<lparr>board_ctrl = 0, board_ram = \<lambda>_. 7\<rparr>)"
proof -
  have "\<forall>h v. bit v 1 \<longrightarrow> board_gate (out_op board_machine h 0x92 v)"
    by (simp add: board_machine_def board_gate_def)
  then show ?thesis
    using EnableA20_truthful [OF board_documented, of "\<lparr>board_ctrl = 0, board_ram = \<lambda>_. 7\<rparr>"
        "fst (EnableA20 board_machine \<lparr>board_ctrl = 0, board_ram = \<lambda>_. 7\<rparr>)"
        "snd (EnableA20 board_machine \<lparr>board_ctrl = 0, board_ram = \<lambda>_. 7\<rparr>)"]
    by (metis prod.collapse)
qed

text \<open>Without a controller, draining gives up after 34 reads of 0xFF.\<close>

lemma DrainBuffers_absent:
  assumes "\<And>h. fst (PS2Controller_Status M h) = 0xFF" "ffCount \<le> 33" "34 - ffCount \<le> n"
  shows "fst (DrainBuffers_loop M n ffCount h) = False"
  using assms(2,3)
proof (induction n arbitrary: ffCount h)
  case (Suc n)
  then show ?case using assms(1) [of h] by (auto simp: Let_def split: prod.splits)
qed simp

text \<open>Draining succeeds only on a status with both buffers empty, the one read last.\<close>

lemma DrainBuffers_empty:
  assumes "DrainBuffers_loop M n ffCount h = (True, h')"
  shows "\<exists>h0 status. PS2Controller_Status M h0 = (status, h') \<and>
    \<not> FlagField_IsSet status PS2Status_OutputBufferFull \<and> \<not> FlagField_IsSet status PS2Status_InputBufferFull"
  using assms
proof (induction n arbitrary: ffCount h)
  case (Suc n)
  then show ?case by (auto simp: Let_def split: prod.splits if_splits)
qed simp

end
