(* ===== verification/Io_Monad.thy ===== *)
theory Io_Monad
  imports Basic_Types
begin

text \<open>
  Computations of the tools and of the loader on a state of their own. C++ exceptions are values: a
  computation returns an exception or a result, with the state it leaves; \<^verbatim>\<open>None\<close> is a computation
  that does not end.
\<close>

subsection \<open>Computations with exceptions\<close>

text \<open>
  \<^verbatim>\<open>Fault\<close> ends the program where the language gives no meaning to an operation (a division by
  zero, an overflow of a signed integer, a store past an array).
\<close>

datatype exn = System_error nat | Runtime_error bytes | Out_of_range | Fault

type_synonym ('s, 'a) io = "'s \<Rightarrow> ((exn + 'a) \<times> 's) option"

definition io_return :: "'a \<Rightarrow> ('s, 'a) io" where
  "io_return a s = Some (Inr a, s)"

definition io_throw :: "exn \<Rightarrow> ('s, 'a) io" where
  "io_throw e s = Some (Inl e, s)"

definition io_bind :: "('s, 'a) io \<Rightarrow> ('a \<Rightarrow> ('s, 'b) io) \<Rightarrow> ('s, 'b) io" where
  "io_bind m f s = Option.bind (m s) (\<lambda>(r, s'). case r of Inl e \<Rightarrow> Some (Inl e, s') | Inr a \<Rightarrow> f a s')"

definition io_get :: "('s \<Rightarrow> 'a) \<Rightarrow> ('s, 'a) io" where
  "io_get g s = Some (Inr (g s), s)"

definition io_put :: "('s \<Rightarrow> 's) \<Rightarrow> ('s, unit) io" where
  "io_put u s = Some (Inr (), u s)"

definition io_lift :: "exn + 'a \<Rightarrow> ('s, 'a) io" where
  "io_lift r s = Some (r, s)"

named_theorems io_simps \<open>evaluation of computations\<close>

lemma io_return_simps [io_simps]: "io_return a s = Some (Inr a, s)" "io_throw e s = Some (Inl e, s)"
  "io_get g s = Some (Inr (g s), s)" "io_put u s = Some (Inr (), u s)" "io_lift r s = Some (r, s)"
  by (simp_all add: io_return_def io_throw_def io_get_def io_put_def io_lift_def)

lemma io_bind_simps [io_simps]:
  "m s = Some (Inr a, s') \<Longrightarrow> io_bind m f s = f a s'"
  "m s = Some (Inl e, s') \<Longrightarrow> io_bind m f s = Some (Inl e, s')"
  "m s = None \<Longrightarrow> io_bind m f s = None"
  by (simp_all add: io_bind_def)

lemma io_bind_assoc: "io_bind (io_bind m f) g = io_bind m (\<lambda>a. io_bind (f a) g)"
  by (rule ext) (auto simp: io_bind_def split: bind_split sum.splits)

lemma io_bind_cases:
  assumes "io_bind m f s = Some (r, s')"
  obtains (throws) e where "m s = Some (Inl e, s')" "r = Inl e"
    | (goes_on) a s1 where "m s = Some (Inr a, s1)" "f a s1 = Some (r, s')"
proof -
  obtain x s1 where m: "m s = Some (x, s1)" using assms by (auto simp: io_bind_def bind_eq_Some_conv)
  show thesis using assms m that by (cases x) (auto simp: io_bind_def)
qed

lemma io_bind_mono [partial_function_mono]:
  assumes "\<And>s. mono_option (\<lambda>f. B f s)" "\<And>y s. mono_option (\<lambda>f. C y f s)"
  shows "mono_option (\<lambda>f. io_bind (B f) (\<lambda>y. C y f) s)"
  unfolding io_bind_def
proof (intro bind_mono assms(1))
  show "mono_option (\<lambda>f. (\<lambda>(r, s'). case r of Inl e \<Rightarrow> Some (Inl e, s') | Inr a \<Rightarrow> C a f s') y)" for y
    by (cases y; cases "fst y") (simp_all add: assms(2) option.const_mono)
qed

subsection \<open>Partial correctness\<close>

text \<open>What holds after a computation that returns normally.\<close>

definition io_valid :: "('s \<Rightarrow> bool) \<Rightarrow> ('s, 'a) io \<Rightarrow> ('a \<Rightarrow> 's \<Rightarrow> bool) \<Rightarrow> bool" where
  "io_valid Pre m Post \<longleftrightarrow> (\<forall>s a s'. Pre s \<longrightarrow> m s = Some (Inr a, s') \<longrightarrow> Post a s')"

lemma io_validD: "io_valid Pre m Post \<Longrightarrow> Pre s \<Longrightarrow> m s = Some (Inr a, s') \<Longrightarrow> Post a s'"
  unfolding io_valid_def by blast

lemma io_valid_bind:
  assumes "io_valid Pre m Mid" "\<And>a. io_valid (Mid a) (f a) Post"
  shows "io_valid Pre (io_bind m f) Post"
  unfolding io_valid_def
proof (intro allI impI)
  fix s b s' assume pre: "Pre s" and run: "io_bind m f s = Some (Inr b, s')"
  from run show "Post b s'"
  proof (cases rule: io_bind_cases)
    case (goes_on a s1)
    then show ?thesis using io_validD [OF assms(1) pre] io_validD [OF assms(2)] by blast
  qed simp
qed

lemma io_valid_seq:
  assumes "io_valid Pre m (\<lambda>_. Pre)" "\<And>a. io_valid Pre (f a) Post"
  shows "io_valid Pre (io_bind m f) Post"
  using assms by (rule io_valid_bind)

lemma io_valid_simple:
  "(\<And>s. Pre s \<Longrightarrow> Post a s) \<Longrightarrow> io_valid Pre (io_return a) Post"
  "(\<And>s. Pre s \<Longrightarrow> Post (g s) s) \<Longrightarrow> io_valid Pre (io_get g) Post"
  "(\<And>s. Pre s \<Longrightarrow> Post' () (u s)) \<Longrightarrow> io_valid Pre (io_put u) Post'"
  "io_valid Pre (io_throw e) Post"
  by (simp_all add: io_valid_def io_simps)

lemma io_valid_weaken:
  "io_valid Pre m Post' \<Longrightarrow> (\<And>a s. Post' a s \<Longrightarrow> Post a s) \<Longrightarrow> io_valid Pre m Post"
  unfolding io_valid_def by blast

lemma io_valid_if:
  "(c \<Longrightarrow> io_valid Pre A Post) \<Longrightarrow> (\<not> c \<Longrightarrow> io_valid Pre B Post) \<Longrightarrow> io_valid Pre (\<lambda>s. if c then A s else B s) Post"
  "(c \<Longrightarrow> io_valid Pre A Post) \<Longrightarrow> (\<not> c \<Longrightarrow> io_valid Pre B Post) \<Longrightarrow> io_valid Pre (if c then A else B) Post"
  by (cases c; simp)+

text \<open>The product of two 16 bit values is an \<^verbatim>\<open>int\<close>.\<close>

definition int_mul :: "u16 \<Rightarrow> u16 \<Rightarrow> exn + u32" where
  "int_mul a b = (if unat a * unat b < 2 ^ 31 then Inr (ucast a * ucast b) else Inl Fault)"

lemma io_bind_go: "m st = Some (Inr a, st') \<Longrightarrow> io_bind m f st = f a st'"
  by (simp add: io_bind_def)

end
