(* ===== verification/Stage2_Loader.thy ===== *)
theory Stage2_Loader
  imports Io_Monad Stage2_Heap Fat_Fs_Correct Multiboot Pm_Copy Boot_Sectors A20_Gate Text_Screen
begin

text \<open>
  The second stage (\<^verbatim>\<open>stage2/stage2.cpp\<close>): it interprets the script \<^verbatim>\<open>BOOT.CFG\<close>, loads a multiboot
  kernel and enters it. Its globals are a record. The memory with the heap in it is the one the
  kernel is loaded to; the file system object with its windows, and the script once it is read,
  are values. \<^verbatim>\<open>Fault\<close> is an access through a null pointer or a store past an array; \<^verbatim>\<open>None\<close> is a
  loop that does not end.
\<close>

subsection \<open>State\<close>

text \<open>
  What the code runs on: devices and firmware, the sizes the compiler gives the two classes, the
  address of the loader's name, and what uninitialised variables hold.
\<close>

record 'h Board =
  bd_machine :: "'h Machine"
  bd_e820 :: "'h e820"
  bd_wide :: "u32 \<Rightarrow> nat \<Rightarrow> u32"
  bd_sizeDevice :: u32
  bd_sizeFs :: u32
  bd_loadName :: u32
  bd_nameBuffer :: bytes
  bd_geometry :: DriveGeometry
  bd_partStart :: u32
  bd_hdr :: bytes
  bd_syms :: "u32 list"
  bd_colors :: bytes

record 'h Loader =
  ld_heap :: heap_state
  ld_hw :: 'h
  ld_bios :: Bios
  ld_header :: bytes
  ld_screen :: "u16 list"
  ld_temp :: bytes
  ld_mmap :: MemoryMap
  ld_fs :: "BIOSBlockDevice FatFs option"
  ld_haveKernel :: bool
  ld_kernelEntry :: u32

definition bootConfigName :: bytes where "bootConfigName = text_bytes ''BOOT.CFG''"
definition bootConfigMaxSize :: u32 where "bootConfigMaxSize = 4096"
definition multiBootMaxSearch :: u32 where "multiBootMaxSearch = 8192"
definition heapMaxSize :: u32 where "heapMaxSize = 8192"

subsection \<open>Calls into the other parts\<close>

definition ld_malloc :: "u32 \<Rightarrow> ('h Loader, u32) io" where
  "ld_malloc count st = Option.bind (malloc (ld_heap st) count) (\<lambda>(p, h). Some (Inr p, st\<lparr>ld_heap := h\<rparr>))"

definition ld_free :: "u32 \<Rightarrow> ('h Loader, unit) io" where
  "ld_free p st = Option.bind (free (ld_heap st) p) (\<lambda>h. Some (Inr (), st\<lparr>ld_heap := h\<rparr>))"

text \<open>The allocating operators are \<^verbatim>\<open>malloc\<close> and \<^verbatim>\<open>free\<close>; a constructor is run at the address.\<close>

definition operator_new :: "u32 \<Rightarrow> ('h Loader, u32) io" where
  "operator_new sz = ld_malloc sz"

definition operator_delete :: "u32 \<Rightarrow> ('h Loader, unit) io" where
  "operator_delete p = ld_free p"

definition ld_mem :: "'h Loader \<Rightarrow> mem" where
  "ld_mem st = hmem (ld_heap st)"

definition ld_update_mem :: "(mem \<Rightarrow> mem) \<Rightarrow> ('h Loader, unit) io" where
  "ld_update_mem f = io_put (\<lambda>st. st\<lparr>ld_heap := (ld_heap st)\<lparr>hmem := f (ld_mem st)\<rparr>\<rparr>)"

definition ld_ReadAt :: "FatFile \<Rightarrow> u32 \<Rightarrow> u32 \<Rightarrow> ('h Loader, u32 \<times> bytes) io" where
  "ld_ReadAt finfo offset sz st =
     (case ld_fs st of None \<Rightarrow> Some (Inl Fault, st)
      | Some fs \<Rightarrow> Option.bind (ReadAt BIOS_ops fs finfo offset sz) (\<lambda>(ret, out, fs').
          Some (Inr (ret, out), st\<lparr>ld_fs := Some fs'\<rparr>)))"

text \<open>Reading into a buffer in memory.\<close>

definition ld_ReadAt_to :: "FatFile \<Rightarrow> u32 \<Rightarrow> u32 \<Rightarrow> u32 \<Rightarrow> ('h Loader, u32) io" where
  "ld_ReadAt_to finfo buffer offset sz =
     io_bind (ld_ReadAt finfo offset sz) (\<lambda>(ret, out).
     io_bind (ld_update_mem (\<lambda>m. mem_write m buffer out)) (\<lambda>_.
     io_return ret))"

definition ld_FindByPath :: "'h Board \<Rightarrow> bytes \<Rightarrow> ('h Loader, FindResult \<times> FatFile) io" where
  "ld_FindByPath B name st =
     (case ld_fs st of None \<Rightarrow> Some (Inl Fault, st)
      | Some fs \<Rightarrow> Option.bind (FindByPath BIOS_ops (bd_nameBuffer B) fs name) (\<lambda>(ret, out, fs').
          Some (Inr (ret, out), st\<lparr>ld_fs := Some fs'\<rparr>)))"

subsection \<open>Printing\<close>

definition ld_put :: "bytes \<Rightarrow> ('h Loader, unit) io" where
  "ld_put cs = io_put (\<lambda>st. st\<lparr>ld_screen := ld_screen st @ map BIOSTextMode_PutChar cs\<rparr>)"

definition ld_print :: "bytes \<Rightarrow> ('h Loader, unit) io" where
  "ld_print str = ld_put (WriteString str)"

definition ld_message :: "string \<Rightarrow> ('h Loader, unit) io" where
  "ld_message msg = ld_print (text_bytes msg)"

definition ld_newline :: "('h Loader, unit) io" where
  "ld_newline = ld_print [13, 10]"

text \<open>The buffers of the number routines are overwritten before they are read.\<close>

definition ld_decimal :: "u32 \<Rightarrow> ('h Loader, unit) io" where
  "ld_decimal x = (case WriteDecimal (replicate 10 0) x of None \<Rightarrow> io_throw Fault | Some ds \<Rightarrow> ld_put ds)"

definition ld_hex :: "u64 \<Rightarrow> ('h Loader, unit) io" where
  "ld_hex x = (case WriteHex (replicate 17 0) x of None \<Rightarrow> io_throw Fault | Some ds \<Rightarrow> ld_put ds)"

definition ld_seq :: "('h Loader, unit) io list \<Rightarrow> ('h Loader, unit) io" where
  "ld_seq ms = foldr (\<lambda>m rest. io_bind m (\<lambda>_. rest)) ms (io_return ())"

definition FindResult_text :: "FindResult \<Rightarrow> string" where
  "FindResult_text r = (case r of Ok \<Rightarrow> ''ok'' | NameInvalid \<Rightarrow> ''name invalid'' | IOError \<Rightarrow> ''I/O error''
     | NotDir \<Rightarrow> ''component is not a directory'' | NoEntry \<Rightarrow> ''no such file or directory'')"

definition ld_chs :: "CHSPacked \<Rightarrow> ('h Loader, unit) io" where
  "ld_chs chs = ld_seq [ld_decimal (ucast (CHSPacked_Cylinder chs)), ld_message ''/'',
     ld_decimal (ucast (CHSPacked_Head chs)), ld_message ''/'', ld_decimal (ucast (CHSPacked_Sector chs))]"

definition ld_geometry :: "DriveGeometry \<Rightarrow> ('h Loader, unit) io" where
  "ld_geometry geom = ld_seq [ld_decimal (ucast (cylinders geom)), ld_message ''/'',
     ld_decimal (ucast (headsPerCylinder geom)), ld_message ''/'', ld_decimal (ucast (sectorsPerTrack geom))]"

subsection \<open>Multiboot kernels\<close>

text \<open>
  The inner loop over the words of the buffer. A read of the header assigns the variable of the
  loop bound. Results: the scan goes on behind \<^verbatim>\<open>ret\<close>, fails, or found the header at word \<^verbatim>\<open>i\<close>. The
  header is the bytes of the variable, of which a short read fills the first ones.
\<close>

datatype scan_result = Scan_next u32 bytes | Scan_fail bytes | Scan_found u32 bytes

definition sdiv4 :: "u32 \<Rightarrow> int" where
  "sdiv4 ret = (if sint ret < 0 then - ((- sint ret) div 4) else sint ret div 4)"

lemma sdiv4_less: "sdiv4 ret < 2 ^ 31"
proof -
  have "(x :: int) div 4 \<le> x" if "0 \<le> x" for x using that by presburger
  moreover have "- (- x div 4) \<le> (0 :: int)" if "x < 0" for x using that by presburger
  moreover have "sint ret < 2 ^ 31" using sint_lt [of ret] by simp
  ultimately show ?thesis unfolding sdiv4_def by (cases "sint ret < 0") (fastforce intro: le_less_trans)+
qed

function MBFindHeader_scan ::
    "FatFile \<Rightarrow> u32 \<Rightarrow> u32 \<Rightarrow> int \<Rightarrow> u32 \<Rightarrow> bytes \<Rightarrow> ('h Loader, scan_result) io" where
  "MBFindHeader_scan finfo buffer offset i ret hdr =
     (if i < sdiv4 ret then
        io_bind (io_get ld_mem) (\<lambda>m.
          if load32 m (buffer + of_int i * 4) \<noteq> MultiBoot_Magic
          then MBFindHeader_scan finfo buffer offset (i + 1) ret hdr
          else
            io_bind (ld_ReadAt finfo (offset + of_int i * 4) 32) (\<lambda>(ret1, out).
              let hdr1 = overwrite 0 out hdr
              in if sint ret1 \<le> 0 then io_return (Scan_fail hdr1)
                 else if MultiBootHeader_IsValid (MultiBootHeader_of_bytes hdr1)
                 then io_return (Scan_found (offset + of_int i * 4) hdr1)
                 else MBFindHeader_scan finfo buffer offset (i + 1) ret1 hdr1))
      else io_return (Scan_next ret hdr))"
  by pat_completeness auto

termination
  by (relation "measure (\<lambda>(_, _, _, i, _, _). nat (2 ^ 31 - i))")
    (use sdiv4_less in \<open>auto intro: less_trans\<close>)

declare MBFindHeader_scan.simps [simp del]

partial_function (option) MBFindHeader_loop ::
    "FatFile \<Rightarrow> u32 \<Rightarrow> u32 \<Rightarrow> u32 \<Rightarrow> bytes \<Rightarrow> 'h Loader \<Rightarrow>
     ((exn + bool \<times> u32 \<times> bytes) \<times> 'h Loader) option" where
  "MBFindHeader_loop finfo buffer scanSize offset hdr st =
     (if offset < scanSize then
        io_bind (ld_ReadAt_to finfo buffer offset 1024) (\<lambda>ret st1.
          if sint ret \<le> 0
          then io_bind (ld_free buffer) (\<lambda>_. io_return (False, offset, hdr)) st1
          else
            io_bind (MBFindHeader_scan finfo buffer offset 0 ret hdr) (\<lambda>r st2.
              case r of
                Scan_fail hdr1 \<Rightarrow> io_bind (ld_free buffer) (\<lambda>_. io_return (False, offset, hdr1)) st2
              | Scan_found offset1 hdr1 \<Rightarrow> io_bind (ld_free buffer) (\<lambda>_. io_return (True, offset1, hdr1)) st2
              | Scan_next ret1 hdr1 \<Rightarrow> MBFindHeader_loop finfo buffer scanSize (offset + ret1) hdr1 st2) st1) st
      else io_bind (ld_free buffer) (\<lambda>_. io_return (False, offset, hdr)) st)"

definition MBFindHeader :: "FatFile \<Rightarrow> bytes \<Rightarrow> ('h Loader, bool \<times> u32 \<times> bytes) io" where
  "MBFindHeader finfo hdr =
     (let scanSize = (if ff_size finfo > multiBootMaxSearch then multiBootMaxSearch else ff_size finfo)
      in io_bind (ld_malloc 1024) (\<lambda>buffer.
         if buffer = 0
         then io_bind (ld_seq [ld_message ''out of memory'', ld_newline]) (\<lambda>_. io_return (False, 0, hdr))
         else MBFindHeader_loop finfo buffer scanSize 0 hdr))"

text \<open>The loop gives the address behind what was loaded, or that a read failed.\<close>

partial_function (option) MBLoadKernel_loop ::
    "FatFile \<Rightarrow> u32 \<Rightarrow> u32 \<Rightarrow> u32 \<Rightarrow> u32 \<Rightarrow> 'h Loader \<Rightarrow>
     ((exn + u32 option) \<times> 'h Loader) option" where
  "MBLoadKernel_loop finfo buffer bound offset memStart st =
     (if offset < bound then
        io_bind (ld_ReadAt_to finfo buffer offset 1024) (\<lambda>ret st1.
          if ret = 0 then Some (Inr (Some memStart), st1)
          else if sint ret < 0 then Some (Inr None, st1)
          else
            io_bind (ld_update_mem (\<lambda>m. CopyMemory32 m memStart buffer ret)) (\<lambda>_ st2.
              MBLoadKernel_loop finfo buffer bound (offset + ret) (memStart + ret) st2) st1) st
      else Some (Inr (Some memStart), st))"

definition MBLoadKernel :: "FatFile \<Rightarrow> MultiBootHeader \<Rightarrow> u32 \<Rightarrow> ('h Loader, bool) io" where
  "MBLoadKernel finfo hdr fileOffset =
     (case ExtractMemLayout hdr fileOffset (ff_size finfo) (0, 0, 0) of
        (False, _) \<Rightarrow>
          io_bind (ld_seq [ld_message ''Error: '', ld_message ''Memory layout is broken!'', ld_newline]) (\<lambda>_.
          io_return False)
      | (True, fileStart, memStart, count) \<Rightarrow>
          io_bind (ld_seq [ld_message ''Loading '', ld_decimal count, ld_message '' bytes to #'',
            ld_hex (ucast memStart), ld_newline]) (\<lambda>_.
          io_bind (ld_malloc 1024) (\<lambda>buffer.
            if buffer = 0
            then io_bind (ld_seq [ld_message ''out of memory'', ld_newline]) (\<lambda>_. io_return False)
            else
              io_bind (MBLoadKernel_loop finfo buffer (count - fileStart) fileStart memStart) (\<lambda>r.
              case r of None \<Rightarrow> io_return False
              | Some memEnd \<Rightarrow>
                  io_bind (ld_free buffer) (\<lambda>_.
                  io_bind (ld_update_mem (\<lambda>m. ClearMemory32 m memEnd (BSSSize hdr))) (\<lambda>_.
                  io_return True))))))"

subsection \<open>Commands\<close>

definition CmdEcho :: "bytes \<Rightarrow> ('h Loader, bool) io" where
  "CmdEcho line = io_bind (ld_seq [ld_print line, ld_newline]) (\<lambda>_. io_return True)"

definition CmdInfo_entry :: "'h Board \<Rightarrow> MemoryMapEntry \<Rightarrow> ('h Loader, unit) io" where
  "CmdInfo_entry B it = ld_seq [ld_message ''    base: '', ld_hex (MemoryMapEntry_BaseAddress (bd_wide B) it),
     ld_message '', size: '', ld_hex (MemoryMapEntry_Size (bd_wide B) it),
     ld_message '', type: '', ld_message (MemoryMapEntry_TypeAsString it), ld_newline]"

text \<open>Converting a sector number divides by the number of sectors and heads.\<close>

definition CmdInfo :: "'h Board \<Rightarrow> bytes \<Rightarrow> ('h Loader, bool) io" where
  "CmdInfo B what =
     (if StrEqual what (text_bytes ''disk'') then
        io_bind (io_get ld_fs) (\<lambda>fs0.
        case fs0 of None \<Rightarrow> io_throw Fault
        | Some fs \<Rightarrow>
            io_bind (io_get ld_header) (\<lambda>header.
            let geom = BIOSBlockDevice_DriveGeometry (blk fs);
                lba = MBREntry_StartAddressLBA (Stage2Header_BootMBREntry header)
            in if headsPerCylinder geom = 0 \<or> sectorsPerTrack geom = 0 then io_throw Fault
               else
                 io_bind (ld_seq [ld_message ''Boot disk: '', ld_newline,
                   ld_message ''    geometry (C/H/S): '', ld_geometry geom, ld_newline,
                   ld_message ''Boot partition: '', ld_newline,
                   ld_message ''    LBA: '', ld_decimal lba, ld_newline,
                   ld_message ''    CHS: '', ld_chs (LBA2CHS geom lba), ld_newline]) (\<lambda>_.
                 io_return True)))
      else if StrEqual what (text_bytes ''memory'') then
        io_bind (ld_seq [ld_message ''Memory:'', ld_newline]) (\<lambda>_.
        io_bind (io_get (MemoryMap_items \<circ> ld_mmap)) (\<lambda>items.
        io_bind (ld_seq (map (CmdInfo_entry B) items)) (\<lambda>_.
        io_return True)))
      else
        io_bind (ld_seq [ld_message ''Unknown info type: '', ld_print what, ld_newline]) (\<lambda>_.
        io_return False))"

text \<open>What is done with the header that was found.\<close>

definition CmdMultiboot_found :: "FatFile \<Rightarrow> bool \<Rightarrow> u32 \<Rightarrow> MultiBootHeader \<Rightarrow> ('h Loader, bool) io" where
  "CmdMultiboot_found finfo found offset hdr =
     (if \<not> found
      then io_bind (ld_seq [ld_message ''Error: '', ld_message ''No multiboot header found!'', ld_newline]) (\<lambda>_.
           io_return False)
      else if FlagField_IsSet (MultiBootHeader_Flags hdr) KernelFlags_WantVidmode
      then io_bind (ld_seq [ld_message ''Error: '', ld_message ''video mode info required (unsupported)!'',
           ld_newline]) (\<lambda>_. io_return False)
      else if \<not> FlagField_IsSet (MultiBootHeader_Flags hdr) KernelFlags_HaveLayoutInfo
      then io_bind (ld_seq [ld_message ''Error: '', ld_message ''No memory layout provided (unsupported)!'',
           ld_newline]) (\<lambda>_. io_return False)
      else
        io_bind (MBLoadKernel finfo hdr offset) (\<lambda>ok.
        if \<not> ok then io_return False
        else io_bind (io_put (\<lambda>st. st\<lparr>ld_haveKernel := True,
               ld_kernelEntry := MultiBootHeader_EntryPoint hdr\<rparr>)) (\<lambda>_.
             io_return True)))"

definition CmdMultiboot :: "'h Board \<Rightarrow> bytes \<Rightarrow> ('h Loader, bool) io" where
  "CmdMultiboot B path =
     io_bind (ld_FindByPath B path) (\<lambda>(ret, finfo).
     if ret \<noteq> Ok
     then io_bind (ld_seq [ld_print path, ld_message '': '', ld_message (FindResult_text ret), ld_newline]) (\<lambda>_.
          io_return False)
     else
       io_bind (MBFindHeader finfo (bd_hdr B)) (\<lambda>(found, offset, hdr).
       CmdMultiboot_found finfo found offset (MultiBootHeader_of_bytes hdr)))"

subsection \<open>The script\<close>

text \<open>\<^verbatim>\<open>None\<close>: no such command.\<close>

definition dispatch :: "'h Board \<Rightarrow> bytes \<Rightarrow> bytes \<Rightarrow> ('h Loader, bool) io option" where
  "dispatch B cmd arg =
     (if StrEqual (text_bytes ''echo'') cmd then Some (CmdEcho arg)
      else if StrEqual (text_bytes ''info'') cmd then Some (CmdInfo B arg)
      else if StrEqual (text_bytes ''multiboot'') cmd then Some (CmdMultiboot B arg)
      else None)"

text \<open>The character a pointer shows; the list ends where the string does.\<close>

definition char_at :: "bytes \<Rightarrow> int" where
  "char_at s = (case s of [] \<Rightarrow> 0 | c # _ \<Rightarrow> sint c)"

definition script_line :: "bytes \<Rightarrow> bytes \<times> bytes" where
  "script_line ptr =
     (let line = takeWhile (\<lambda>c. c \<noteq> 0 \<and> c \<noteq> 10) ptr;
          rest = dropWhile (\<lambda>c. c \<noteq> 0 \<and> c \<noteq> 10) ptr
      in (line, if rest \<noteq> [] \<and> hd rest = 10 then tl rest else rest))"

text \<open>Command and argument of a line; \<^verbatim>\<open>None\<close> is a line that is skipped.\<close>

definition script_command :: "bytes \<Rightarrow> (bytes \<times> bytes) option" where
  "script_command line0 =
     (let line = dropWhile (\<lambda>c. c = 32 \<or> c = 9) line0
      in if \<not> IsAlnum (char_at line) then None
         else
           let cmd = takeWhile (\<lambda>c. IsAlnum (sint c)) line;
               line1 = dropWhile (\<lambda>c. IsAlnum (sint c)) line
           in if \<not> IsSpace (char_at line1) \<or> char_at cmd = 0 \<or> char_at cmd = 35 then None
              else Some (cmd, dropWhile (\<lambda>c. IsSpace (sint c)) (tl line1)))"

lemma script_line_shorter:
  assumes "(line, rest) = script_line ptr" "ptr \<noteq> []" "hd ptr \<noteq> 0"
  shows "length rest < length ptr"
proof (cases "hd ptr = 10")
  case True
  then show ?thesis using assms by (cases ptr) (simp_all add: script_line_def)
next
  case False
  let ?P = "\<lambda>c :: u8. c \<noteq> 0 \<and> c \<noteq> 10"
  obtain c cs where ptr: "ptr = c # cs" using assms(2) by (cases ptr) auto
  then have c: "?P c" using assms False by simp
  have "length rest \<le> length (dropWhile ?P ptr)" using assms(1) by (simp add: script_line_def Let_def)
  also have "\<dots> \<le> length cs" using c ptr by (simp add: length_dropWhile_le)
  finally show ?thesis using ptr by simp
qed

function RunScript :: "'h Board \<Rightarrow> bytes \<Rightarrow> ('h Loader, unit) io" where
  "RunScript B ptr =
     (if ptr = [] \<or> hd ptr = 0 then io_return ()
      else
        let (line, rest) = script_line ptr
        in case script_command line of
             None \<Rightarrow> RunScript B rest
           | Some (cmd, arg) \<Rightarrow>
               (case dispatch B cmd arg of
                  None \<Rightarrow> ld_seq [ld_message ''Error, unknown command: '', ld_print cmd, ld_newline]
                | Some run \<Rightarrow> io_bind run (\<lambda>ok. if \<not> ok then io_return () else RunScript B rest)))"
  by pat_completeness auto

termination
  by (relation "measure (\<lambda>(_, ptr). length ptr)") (auto dest: script_line_shorter)

declare RunScript.simps [simp del]

subsection \<open>The program\<close>

datatype loader_result =
    Halted
  | EnterKernel u32 u32 MultiBootInfo

text \<open>
  \<^verbatim>\<open>MakeUnique\<close> allocates without a check and runs the constructor at the address, and so does the
  constructor of the file system for its two windows: a failed allocation is a fault.
\<close>

definition ld_new :: "u32 \<Rightarrow> ('h Loader, u32) io" where
  "ld_new sz = io_bind (operator_new sz) (\<lambda>p. if p = 0 then io_throw Fault else io_return p)"

definition ld_make_device :: "'h Board \<Rightarrow> ('h Loader, BIOSBlockDevice) io" where
  "ld_make_device B =
     io_bind (ld_new (bd_sizeDevice B)) (\<lambda>_.
     io_bind (io_get (\<lambda>st. BIOSBlockDevice_new (bd_geometry B) (bd_partStart B) (ld_bios st)
       (Stage2Header_BiosBootDrive (ld_header st))
       (MBREntry_StartAddressLBA (Stage2Header_BootMBREntry (ld_header st))))) (\<lambda>part.
     io_bind (io_put (\<lambda>st. st\<lparr>ld_bios := bb_bios part\<rparr>)) (\<lambda>_.
     io_return part)))"

definition ld_make_fs :: "'h Board \<Rightarrow> BIOSBlockDevice \<Rightarrow> ('h Loader, unit) io" where
  "ld_make_fs B part =
     io_bind (io_get (\<lambda>st. FatSuper_of_bytes (mem_read (ld_mem st) 0x7C00 512))) (\<lambda>fsSuper.
     io_bind (ld_new (bd_sizeFs B)) (\<lambda>_.
     io_bind (ld_new (ucast (SectorSize_op BIOS_ops part))) (\<lambda>window1.
     io_bind (ld_new (BytesPerCluster BIOS_ops (FatFs_new part fsSuper [] []))) (\<lambda>window2.
     io_put (\<lambda>st. st\<lparr>ld_fs := Some (FatFs_new part fsSuper
       (mem_read (ld_mem st) window1 (unat (SectorSize_op BIOS_ops part)))
       (mem_read (ld_mem st) window2 (unat (BytesPerCluster BIOS_ops (FatFs_new part fsSuper [] [])))))\<rparr>)))))"

definition ld_enable_a20 :: "'h Board \<Rightarrow> ('h Loader, bool) io" where
  "ld_enable_a20 B st = (case EnableA20 (bd_machine B) (ld_hw st) of (ok, hw) \<Rightarrow> Some (Inr ok, st\<lparr>ld_hw := hw\<rparr>))"

definition ld_load_mmap :: "'h Board \<Rightarrow> ('h Loader, bool) io" where
  "ld_load_mmap B st =
     (case MemoryMap_Load (bd_e820 B) (ld_hw st) (ld_temp st) (ld_mmap st) of
        (ok, mm, temp, hw) \<Rightarrow> Some (Inr ok, st\<lparr>ld_mmap := mm, ld_temp := temp, ld_hw := hw\<rparr>))"

definition ld_MBGenInfo :: "'h Board \<Rightarrow> ('h Loader, u32 \<times> MultiBootInfo) io" where
  "ld_MBGenInfo B =
     io_bind (ld_new 128) (\<lambda>info.
     io_bind (io_get (MemoryMap_Count \<circ> ld_mmap)) (\<lambda>count.
     io_bind (ld_new (of_nat (24 * count))) (\<lambda>mbMmap.
     io_bind (io_get (\<lambda>st. MBGenInfo (bd_wide B) (ld_mem st) (ld_mmap st) (bd_loadName B) mbMmap
       (bd_syms B) (bd_colors B))) (\<lambda>r.
     case r of None \<Rightarrow> io_throw Fault
     | Some (mbi, m) \<Rightarrow>
         io_bind (ld_update_mem (\<lambda>_. m)) (\<lambda>_.
         io_return (info, mbi))))))"

definition ld_fail :: "('h Loader, unit) io list \<Rightarrow> ('h Loader, loader_result) io" where
  "ld_fail msgs = io_bind (ld_seq (msgs @ [ld_newline])) (\<lambda>_. io_return Halted)"

definition run_config :: "'h Board \<Rightarrow> ('h Loader, loader_result option) io" where
  "run_config B =
     io_bind (ld_FindByPath B bootConfigName) (\<lambda>(ret, finfo).
     if ret \<noteq> Ok
     then io_bind (ld_fail [ld_print bootConfigName, ld_message '': '', ld_message (FindResult_text ret)]) (\<lambda>r.
          io_return (Some r))
     else if ff_size finfo > bootConfigMaxSize
     then io_bind (ld_fail [ld_print bootConfigName, ld_message '': too big (max size: '',
            ld_decimal bootConfigMaxSize, ld_message '')'']) (\<lambda>r. io_return (Some r))
     else
       io_bind (ld_new (ff_size finfo + 1)) (\<lambda>fileBuffer.
       io_bind (ld_ReadAt_to finfo fileBuffer 0 (ff_size finfo)) (\<lambda>rdRet.
       if sint rdRet < 0
       then io_bind (ld_fail [ld_message ''Error loading config file '']) (\<lambda>r. io_return (Some r))
       else
         io_bind (ld_update_mem (\<lambda>m. m(fileBuffer + rdRet := 0))) (\<lambda>_.
         io_bind (io_get (\<lambda>st. mem_read (ld_mem st) fileBuffer (Suc (unat rdRet)))) (\<lambda>text.
         io_bind (RunScript B text) (\<lambda>_.
         io_bind (ld_free fileBuffer) (\<lambda>_.
         io_return None)))))))"

definition loader_main :: "'h Board \<Rightarrow> u32 \<Rightarrow> ('h Loader, loader_result) io" where
  "loader_main B heapPtr =
     io_bind (io_put (\<lambda>st. st\<lparr>ld_heap := HeapInit (ld_mem st) heapPtr heapMaxSize\<rparr>)) (\<lambda>_.
     io_bind (io_put (\<lambda>st. st\<lparr>ld_screen := ld_screen st @ [BIOSTextMode_Reset]\<rparr>)) (\<lambda>_.
     io_bind (ld_make_device B) (\<lambda>part.
     if \<not> BIOSBlockDevice_IsInitialized part
     then ld_fail [ld_message ''Error initializing FAT partition wrapper!'']
     else
       io_bind (ld_enable_a20 B) (\<lambda>a20.
       if \<not> a20 then ld_fail [ld_message ''Error enabling A20 line!'']
       else
         io_bind (ld_load_mmap B) (\<lambda>loaded.
         if \<not> loaded then ld_fail [ld_message ''Error loading BIOS memory map!'']
         else
           io_bind (ld_make_fs B part) (\<lambda>_.
           io_bind (run_config B) (\<lambda>r.
           case r of Some failed \<Rightarrow> io_return failed
           | None \<Rightarrow>
               io_bind (io_get ld_haveKernel) (\<lambda>haveKernel.
               if haveKernel
               then io_bind (ld_MBGenInfo B) (\<lambda>(info, mbi).
                    io_bind (io_get ld_kernelEntry) (\<lambda>kernelEntry.
                    io_return (EnterKernel kernelEntry info mbi)))
               else ld_fail [ld_message ''No kernel loaded!'']))))))))"

end
