(* ===== verification/Stage2_Loader_Correct.thy ===== *)
theory Stage2_Loader_Correct
  imports Stage2_Loader
begin

text \<open>
  The loader at work: what loading a kernel leaves in memory, which header is accepted, and how
  a script is run.
\<close>

subsection \<open>Memory next to the heap\<close>

lemma sint_of_nat_u32: "k < 2 ^ 31 \<Longrightarrow> sint (of_nat k :: u32) = int k"
  by (simp add: signed_of_nat signed_take_bit_int_eq_self)

lemma unat_of_sint:
  assumes "0 \<le> sint (w :: u32)"
  shows "int (unat w) = sint w"
proof -
  have "sint w < 2 ^ 31" using sint_lt [of w] by simp
  then have "take_bit 32 (sint w) = sint w" using assms by (intro take_bit_int_eq_self) simp_all
  then show ?thesis using uint_sint [of w] by simp
qed

lemma heap_rep_frame:
  assumes "heap_rep h bs" "\<And>x. x \<in> hdrs (unat (heap h)) bs \<Longrightarrow> m' (of_nat x) = hmem h (of_nat x)"
  shows "heap_rep (h\<lparr>hmem := m'\<rparr>) bs"
proof -
  have "laid_out (hmem h) (unat (heap h)) bs (unat (heapEnd h)) = laid_out m' (unat (heap h)) bs (unat (heapEnd h))"
    using assms(2) by (intro laid_out_frame) simp
  then show ?thesis using assms(1) by (simp add: heap_rep_def)
qed

lemma heap_rep_end: "heap_rep h bs \<Longrightarrow> unat (heapEnd h) = unat (heap h) + span bs"
  unfolding heap_rep_def using laid_out_end by blast

text \<open>Storing into a live region, and storing behind the heap, keep the heap as it is.\<close>

lemma heap_rep_store_region:
  assumes "heap_rep h bs" "(unat p, n) \<in> regions (unat (heap h)) bs" "length d \<le> n"
  shows "heap_rep (h\<lparr>hmem := mem_write (hmem h) p d\<rparr>) bs"
  using assms(1)
proof (rule heap_rep_frame)
  fix x assume x: "x \<in> hdrs (unat (heap h)) bs"
  have e: "unat (heapEnd h) < 2 ^ 32" by simp
  have "x < 2 ^ 32" using hdrs_bounds [OF x] heap_rep_end [OF assms(1)] e by linarith
  moreover have "\<not> (unat p \<le> x \<and> x < unat p + n)" using regions_no_hdrs [OF assms(2)] x by blast
  moreover have "unat p + n < 2 ^ 32"
    using regions_bounds [OF assms(2)] heap_rep_end [OF assms(1)] e by linarith
  ultimately have "n \<le> unat (of_nat x - p)"
  proof (cases "unat p \<le> x")
    case True
    then have "unat (of_nat x - p) = x - unat p" using \<open>x < 2 ^ 32\<close> by (simp add: unat_sub word_le_nat_alt)
    then show ?thesis using True \<open>\<not> (unat p \<le> x \<and> x < unat p + n)\<close> by linarith
  next
    case False
    have "unat (of_nat x - p) = 2 ^ 32 + x - unat p"
      using False \<open>x < 2 ^ 32\<close> by (simp add: unat_sub_if_size word_size word_le_nat_alt)
    then show ?thesis using False \<open>unat p + n < 2 ^ 32\<close> by linarith
  qed
  then show "mem_write (hmem h) p d (of_nat x) = hmem h (of_nat x)"
    using assms(3) by (intro mem_write_outside) linarith
qed

lemma heap_rep_store_behind:
  assumes "heap_rep h bs" "\<And>y. y < 2 ^ 32 \<Longrightarrow> y < unat (heapEnd h) \<Longrightarrow> m' (of_nat y) = hmem h (of_nat y)"
  shows "heap_rep (h\<lparr>hmem := m'\<rparr>) bs"
  using assms(1)
proof (rule heap_rep_frame)
  fix x assume x: "x \<in> hdrs (unat (heap h)) bs"
  then have "x < unat (heapEnd h)" using hdrs_bounds [OF x] heap_rep_end [OF assms(1)] by simp
  then show "m' (of_nat x) = hmem h (of_nat x)" using assms(2) unat_lt_u32 [of "heapEnd h"] by simp
qed

lemma mem_read_cong:
  assumes "\<And>i. i < n \<Longrightarrow> m' (a + of_nat i) = m (a + of_nat i)"
  shows "mem_read m' a n = mem_read m a n"
  using assms by (simp add: mem_read_def)

subsection \<open>What a part of the loader may change\<close>

text \<open>Heap, file system and screen change, and the heap stays where it is.\<close>

definition ld_frame :: "'h Loader \<Rightarrow> 'h Loader \<Rightarrow> bool" where
  "ld_frame st st' \<longleftrightarrow> heap (ld_heap st') = heap (ld_heap st) \<and> heapEnd (ld_heap st') = heapEnd (ld_heap st) \<and>
     ld_hw st' = ld_hw st \<and> ld_bios st' = ld_bios st \<and> ld_header st' = ld_header st \<and> ld_temp st' = ld_temp st \<and>
     ld_mmap st' = ld_mmap st \<and> ld_haveKernel st' = ld_haveKernel st \<and> ld_kernelEntry st' = ld_kernelEntry st"

lemma ld_frame_refl [simp]: "ld_frame st st"
  by (simp add: ld_frame_def)

lemma ld_frame_update:
  "heap h = heap (ld_heap st) \<Longrightarrow> heapEnd h = heapEnd (ld_heap st) \<Longrightarrow> ld_frame st (st\<lparr>ld_heap := h, ld_fs := fs\<rparr>)"
  by (simp add: ld_frame_def)

lemma ld_frame_trans: "ld_frame a b \<Longrightarrow> ld_frame b c \<Longrightarrow> ld_frame a c"
  by (simp add: ld_frame_def)

subsection \<open>Reading a file into memory\<close>

text \<open>The file that the loader reads, on a disk whose loads succeed.\<close>

definition file_on_disk :: "'h Loader \<Rightarrow> FatFile \<Rightarrow> bytes \<Rightarrow> bool" where
  "file_on_disk st finfo file \<longleftrightarrow> (\<exists>fs cs. ld_fs st = Some fs \<and> fatfs_inv BIOS_ops bios_reliable bios_content fs \<and>
     volume_chain (bios_content (blk fs)) 512 (super fs) (ff_cluster finfo) cs \<and>
     file = file_bytes (bios_content (blk fs)) (super fs) finfo cs)"

lemma file_on_disk_cong: "ld_fs st' = ld_fs st \<Longrightarrow> file_on_disk st' finfo file = file_on_disk st finfo file"
  by (simp add: file_on_disk_def)

lemma ld_ReadAt_file:
  assumes "file_on_disk st finfo file" "d = take (unat sz) (drop (unat off) file)"
  shows "\<exists>fs'. ld_ReadAt finfo off sz st = Some (Inr (of_nat (length d), d), st\<lparr>ld_fs := Some fs'\<rparr>) \<and>
    file_on_disk (st\<lparr>ld_fs := Some fs'\<rparr>) finfo file"
proof -
  obtain fs cs where fs: "ld_fs st = Some fs" "fatfs_inv BIOS_ops bios_reliable bios_content fs"
    "volume_chain (bios_content (blk fs)) 512 (super fs) (ff_cluster finfo) cs"
    "file = file_bytes (bios_content (blk fs)) (super fs) finfo cs"
    using assms(1) by (auto simp: file_on_disk_def)
  obtain fs' where fs': "ReadAt BIOS_ops fs finfo off sz = Some (of_nat (length d), d, fs')"
    "fatfs_inv BIOS_ops bios_reliable bios_content fs'" "super fs' = super fs"
    "bios_content (blk fs') = bios_content (blk fs)"
    using ReadAt_bios [OF fs(2,3), of off sz] unfolding fs(4) [symmetric] assms(2) [symmetric] by blast
  have "file_on_disk (st\<lparr>ld_fs := Some fs'\<rparr>) finfo file"
    unfolding file_on_disk_def using fs fs' by (intro exI [of _ fs'] exI [of _ cs]) simp
  then show ?thesis using fs(1) fs'(1) by (intro exI [of _ fs']) (simp add: ld_ReadAt_def)
qed

text \<open>A buffer: a live region of the heap.\<close>

definition heap_buffer :: "'h Loader \<Rightarrow> block list \<Rightarrow> u32 \<Rightarrow> nat \<Rightarrow> bool" where
  "heap_buffer st bs p n \<longleftrightarrow> heap_rep (ld_heap st) bs \<and> (unat p, n) \<in> regions (unat (heap (ld_heap st))) bs"

lemma ld_ReadAt_to_buffer:
  assumes disk: "file_on_disk st finfo file" and buf: "heap_buffer st bs p n"
    and d: "d = take (unat sz) (drop (unat off) file)" "unat sz \<le> n"
  shows "\<exists>st'. ld_ReadAt_to finfo p off sz st = Some (Inr (of_nat (length d)), st') \<and>
    file_on_disk st' finfo file \<and> heap_buffer st' bs p n \<and>
    ld_mem st' = mem_write (ld_mem st) p d \<and> heap (ld_heap st') = heap (ld_heap st) \<and>
    heapEnd (ld_heap st') = heapEnd (ld_heap st) \<and>
    st' = st\<lparr>ld_heap := ld_heap st', ld_fs := ld_fs st'\<rparr>"
proof -
  obtain fs' where fs': "ld_ReadAt finfo off sz st = Some (Inr (of_nat (length d), d), st\<lparr>ld_fs := Some fs'\<rparr>)"
    "file_on_disk (st\<lparr>ld_fs := Some fs'\<rparr>) finfo file"
    using ld_ReadAt_file [OF disk d(1)] by blast
  let ?h = "(ld_heap st)\<lparr>hmem := mem_write (ld_mem st) p d\<rparr>"
  let ?st = "st\<lparr>ld_fs := Some fs', ld_heap := ?h\<rparr>"
  have "length d \<le> n" using d by simp
  then have "heap_rep ?h bs" using buf unfolding heap_buffer_def ld_mem_def by (intro heap_rep_store_region) auto
  then have "heap_buffer ?st bs p n" using buf by (simp add: heap_buffer_def)
  moreover have "ld_ReadAt_to finfo p off sz st = Some (Inr (of_nat (length d)), ?st)"
    using fs'(1) by (simp add: ld_ReadAt_to_def io_bind_def ld_update_mem_def io_put_def io_return_def ld_mem_def)
  moreover have "file_on_disk ?st finfo file" using fs'(2) by (simp add: file_on_disk_def)
  ultimately show ?thesis by (intro exI [of _ ?st]) (simp add: ld_mem_def)
qed

text \<open>Copying from the buffer to an area behind the heap.\<close>

lemma copy_behind_heap:
  assumes buf: "heap_buffer st bs p n" and k: "k \<le> n"
    and dst: "unat (heapEnd (ld_heap st)) \<le> unat base" "unat base + q + k \<le> 2 ^ 32" "unat base + q < 2 ^ 32"
    and m': "m' = CopyMemory32 (ld_mem st) (base + of_nat q) p (of_nat k)"
  shows "mem_read m' base (q + k) = mem_read (ld_mem st) base q @ mem_read (ld_mem st) p k"
    and "heap_buffer (st\<lparr>ld_heap := (ld_heap st)\<lparr>hmem := m'\<rparr>\<rparr>) bs p n"
proof -
  let ?m = "ld_mem st" and ?e = "unat (heapEnd (ld_heap st))"
  have rep: "heap_rep (ld_heap st) bs" and reg: "(unat p, n) \<in> regions (unat (heap (ld_heap st))) bs"
    using buf by (simp_all add: heap_buffer_def)
  have pn: "unat p + n \<le> ?e" using regions_bounds [OF reg] heap_rep_end [OF rep] by simp
  have e: "?e < 2 ^ 32" by simp
  have k32: "unat (of_nat k :: u32) = k" using pn k e by (intro unat_of_nat_u32) linarith
  have pk: "unat p + k \<le> 2 ^ 32" using pn k e by linarith
  have bo: "unat (base + of_nat q) = unat base + q"
    using dst(3) by (simp add: unat_word_ariths unat_of_nat)
  have eq: "m' x = (if unat base + q \<le> unat x \<and> unat x < unat base + q + k then ?m (p + (x - (base + of_nat q))) else ?m x)" for x
    unfolding m' using dst(2) pk k32 by (subst CopyMemory32_eq) (simp_all add: bo)
  have low: "m' (of_nat y) = ?m (of_nat y)" if "y < 2 ^ 32" "y < ?e" for y
    using that dst(1) by (simp add: eq)
  then show "heap_buffer (st\<lparr>ld_heap := (ld_heap st)\<lparr>hmem := m'\<rparr>\<rparr>) bs p n"
    using buf heap_rep_store_behind [OF rep, of m'] by (simp add: heap_buffer_def ld_mem_def)
  have "mem_read m' base q = mem_read ?m base q"
  proof (rule mem_read_cong)
    fix i assume i: "i < q"
    then have "unat (base + of_nat i) = unat base + i" using dst(3) by (simp add: unat_word_ariths unat_of_nat)
    then show "m' (base + of_nat i) = ?m (base + of_nat i)" using i by (simp add: eq)
  qed
  moreover have "mem_read m' (base + of_nat q) k = mem_read ?m p k"
  proof (rule nth_equalityI)
    fix i assume "i < length (mem_read m' (base + of_nat q) k)"
    then have i: "i < k" by simp
    then have "unat (base + of_nat q + of_nat i) = unat base + q + i"
      using dst(2,3) by (simp add: unat_word_ariths unat_of_nat add.assoc)
    then show "mem_read m' (base + of_nat q) k ! i = mem_read ?m p k ! i"
      using i by (simp add: mem_read_def eq)
  qed simp
  ultimately show "mem_read m' base (q + k) = mem_read ?m base q @ mem_read ?m p k"
    by (simp add: mem_read_append)
qed

subsection \<open>Loading the kernel\<close>

text \<open>The state in the loop: a beginning of the file has been copied to the load address.\<close>

definition loading :: "'h Loader \<Rightarrow> FatFile \<Rightarrow> bytes \<Rightarrow> block list \<Rightarrow> u32 \<Rightarrow> nat \<Rightarrow> u32 \<Rightarrow> nat \<Rightarrow> bool" where
  "loading st finfo file bs p n base q \<longleftrightarrow> file_on_disk st finfo file \<and> heap_buffer st bs p n \<and> 1024 \<le> n \<and>
     unat (heapEnd (ld_heap st)) \<le> unat base \<and> unat base + length file < 2 ^ 32 \<and>
     q \<le> length file \<and> mem_read (ld_mem st) base q = take q file"

lemma load_round:
  assumes ld: "loading st finfo file bs p n base q" and d: "d = take 1024 (drop q file)"
  shows "\<exists>st1. ld_ReadAt_to finfo p (of_nat q) 1024 st = Some (Inr (of_nat (length d)), st1) \<and>
    ld_frame st st1 \<and> loading st1 finfo file bs p n base q \<and>
    (\<forall>m'. m' = CopyMemory32 (ld_mem st1) (base + of_nat q) p (of_nat (length d)) \<longrightarrow>
      loading (st1\<lparr>ld_heap := (ld_heap st1)\<lparr>hmem := m'\<rparr>\<rparr>) finfo file bs p n base (q + length d))"
proof -
  have l: "file_on_disk st finfo file" "heap_buffer st bs p n" "1024 \<le> n" "unat (heapEnd (ld_heap st)) \<le> unat base"
    "unat base + length file < 2 ^ 32" "q \<le> length file" "mem_read (ld_mem st) base q = take q file"
    using ld by (simp_all add: loading_def)
  have q: "unat (of_nat q :: u32) = q" using l(5,6) by (intro unat_of_nat_u32) linarith
  have "d = take (unat (1024 :: u32)) (drop (unat (of_nat q :: u32)) file)" unfolding q d by simp
  from ld_ReadAt_to_buffer [OF l(1,2) this] obtain st1 where
    st1: "ld_ReadAt_to finfo p (of_nat q) 1024 st = Some (Inr (of_nat (length d)), st1)"
    "file_on_disk st1 finfo file" "heap_buffer st1 bs p n" "ld_mem st1 = mem_write (ld_mem st) p d"
    "heapEnd (ld_heap st1) = heapEnd (ld_heap st)"
    "st1 = st\<lparr>ld_heap := ld_heap st1, ld_fs := ld_fs st1\<rparr>" "heap (ld_heap st1) = heap (ld_heap st)"
    using l(3) by auto
  have scr: "ld_frame st st1" using ld_frame_update [OF st1(7,5)] st1(6) by metis
  have rep: "heap_rep (ld_heap st) bs" and reg: "(unat p, n) \<in> regions (unat (heap (ld_heap st))) bs"
    using l(2) by (simp_all add: heap_buffer_def)
  have pn: "unat p + n \<le> unat base" using regions_bounds [OF reg] heap_rep_end [OF rep] l(4) by simp
  have dl: "length d \<le> 1024" "q + length d \<le> length file" using d l(6) by simp_all
  have "mem_read (ld_mem st1) base q = mem_read (ld_mem st) base q"
  proof (rule mem_read_cong)
    fix i assume "i < q"
    then have "unat (base + of_nat i) = unat base + i" using l(5,6) by (simp add: unat_word_ariths unat_of_nat)
    then have "unat (base + of_nat i - p) = unat base + i - unat p"
      using pn by (subst unat_sub) (simp_all add: word_le_nat_alt)
    then show "ld_mem st1 (base + of_nat i) = ld_mem st (base + of_nat i)"
      unfolding st1(4) using pn dl(1) l(3) by (intro mem_write_outside) linarith
  qed
  then have read: "mem_read (ld_mem st1) base q = take q file" using l(7) by simp
  then have ld1: "loading st1 finfo file bs p n base q" using st1 l by (simp add: loading_def)
  have buf: "mem_read (ld_mem st1) p (length d) = d" unfolding st1(4) using dl(1) by simp
  have "loading (st1\<lparr>ld_heap := (ld_heap st1)\<lparr>hmem := m'\<rparr>\<rparr>) finfo file bs p n base (q + length d)"
    if m': "m' = CopyMemory32 (ld_mem st1) (base + of_nat q) p (of_nat (length d))" for m'
  proof -
    have b: "length d \<le> n" "unat (heapEnd (ld_heap st1)) \<le> unat base" "unat base + q + length d \<le> 2 ^ 32"
      "unat base + q < 2 ^ 32"
      using dl l(3-6) st1(5) by simp_all
    note c = copy_behind_heap [OF st1(3) b m']
    have "take (length d) (drop q file) = d" unfolding d by (simp add: min_def)
    then have "mem_read m' base (q + length d) = take (q + length d) file"
      using c(1) read buf by (simp add: take_add)
    then show ?thesis using c(2) st1(2) b dl(2) l(3,5) by (simp add: loading_def ld_mem_def file_on_disk_def)
  qed
  then show ?thesis using st1(1) ld1 scr by blast
qed

lemma MBLoadKernel_loop_loads:
  assumes "loading st finfo file bs p n base q" "unat bound \<le> length file"
  shows "\<exists>st' L. MBLoadKernel_loop finfo p bound (of_nat q) (base + of_nat q) st =
      Some (Inr (Some (base + of_nat L)), st') \<and> loading st' finfo file bs p n base L \<and>
    unat bound \<le> L \<and> (L = q \<or> L < unat bound + 1024) \<and> ld_frame st st'"
  using assms
proof (induction "length file - q" arbitrary: st q rule: less_induct)
  case less
  have ql: "q \<le> length file" "unat base + length file < 2 ^ 32" using less.prems(1) by (simp_all add: loading_def)
  then have q: "unat (of_nat q :: u32) = q" by (intro unat_of_nat_u32) linarith
  have cond: "(of_nat q :: u32) < bound \<longleftrightarrow> q < unat bound" by (simp add: word_less_nat_alt q)
  show ?case
  proof (cases "q < unat bound")
    case False
    then show ?thesis using less.prems(1) cond by (subst MBLoadKernel_loop.simps) auto
  next
    case True
    define d where "d = take 1024 (drop q file)"
    have dl: "0 < length d" "length d \<le> 1024" "q + length d \<le> length file"
      using True less.prems(2) by (simp_all add: d_def)
    have ret: "(of_nat (length d) :: u32) \<noteq> 0" "\<not> sint (of_nat (length d) :: u32) < 0"
      using dl(1,2) sint_of_nat_u32 [of "length d"] by (auto simp: of_nat_u32_eq_iff [of _ 0, simplified])
    obtain st1 where st1: "ld_ReadAt_to finfo p (of_nat q) 1024 st = Some (Inr (of_nat (length d)), st1)"
      "ld_frame st st1"
      and next_step: "\<forall>m'. m' = CopyMemory32 (ld_mem st1) (base + of_nat q) p (of_nat (length d)) \<longrightarrow>
        loading (st1\<lparr>ld_heap := (ld_heap st1)\<lparr>hmem := m'\<rparr>\<rparr>) finfo file bs p n base (q + length d)"
      using load_round [OF less.prems(1) d_def] by blast
    let ?m = "CopyMemory32 (ld_mem st1) (base + of_nat q) p (of_nat (length d))"
    let ?st = "st1\<lparr>ld_heap := (ld_heap st1)\<lparr>hmem := ?m\<rparr>\<rparr>"
    have ld2: "loading ?st finfo file bs p n base (q + length d)" using next_step by blast
    have "length file - (q + length d) < length file - q" using dl by linarith
    from less.hyps [OF this ld2 less.prems(2)] obtain st' L where rec:
      "MBLoadKernel_loop finfo p bound (of_nat (q + length d)) (base + of_nat (q + length d)) ?st =
        Some (Inr (Some (base + of_nat L)), st')" "loading st' finfo file bs p n base L" "unat bound \<le> L"
      "L = q + length d \<or> L < unat bound + 1024" "ld_frame ?st st'" by blast
    have "ld_frame st1 ?st" by (simp add: ld_frame_def)
    then have frame: "ld_frame st st'" using st1(2) rec(5) ld_frame_trans by blast
    have "MBLoadKernel_loop finfo p bound (of_nat q) (base + of_nat q) st =
        MBLoadKernel_loop finfo p bound (of_nat (q + length d)) (base + of_nat (q + length d)) ?st"
      using True cond st1(1) ret
      by (subst MBLoadKernel_loop.simps) (simp add: io_bind_def ld_update_mem_def io_put_def add.assoc)
    moreover have "L < unat bound + 1024" using rec(4) dl(2) True by linarith
    ultimately show ?thesis using rec frame by auto
  qed
qed

lemma ld_seq_Nil [simp]: "ld_seq [] = io_return ()"
  by (simp add: ld_seq_def)

lemma ld_seq_Cons: "ld_seq (m # ms) = io_bind m (\<lambda>_. ld_seq ms)"
  by (simp add: ld_seq_def)

text \<open>Printing changes the screen only.\<close>

definition prints :: "('h Loader, unit) io \<Rightarrow> bool" where
  "prints m \<longleftrightarrow> (\<forall>st. \<exists>cs. m st = Some (Inr (), st\<lparr>ld_screen := ld_screen st @ cs\<rparr>))"

lemma prints_put [simp]: "prints (ld_put cs)" "prints (ld_print str)" "prints (ld_message msg)" "prints ld_newline"
  by (auto simp: prints_def ld_put_def ld_print_def ld_message_def ld_newline_def io_put_def)

lemma prints_decimal: "unat x < 10 ^ 9 \<Longrightarrow> prints (ld_decimal x)"
  by (simp add: ld_decimal_def WriteDecimal_eq)

lemma prints_hex [simp]: "prints (ld_hex x)"
  by (simp add: ld_hex_def WriteHex_exact)

lemma prints_seq: "\<forall>m \<in> set ms. prints m \<Longrightarrow> prints (ld_seq ms)"
proof (induction ms)
  case Nil
  have "io_return () st = Some (Inr (), st\<lparr>ld_screen := ld_screen st @ []\<rparr>)" for st :: "'a Loader"
    by (simp add: io_return_def)
  then show ?case unfolding prints_def ld_seq_Nil by blast
next
  case (Cons m ms)
  show ?case unfolding prints_def ld_seq_Cons
  proof
    fix st
    have "prints m" "prints (ld_seq ms)" using Cons by simp_all
    then obtain cs where m: "m st = Some (Inr (), st\<lparr>ld_screen := ld_screen st @ cs\<rparr>)" unfolding prints_def by blast
    obtain cs' where ms: "ld_seq ms (st\<lparr>ld_screen := ld_screen st @ cs\<rparr>) =
        Some (Inr (), (st\<lparr>ld_screen := ld_screen st @ cs\<rparr>)\<lparr>ld_screen := ld_screen (st\<lparr>ld_screen := ld_screen st @ cs\<rparr>) @ cs'\<rparr>)"
      using \<open>prints (ld_seq ms)\<close> unfolding prints_def by blast
    have "io_bind m (\<lambda>_. ld_seq ms) st = Some (Inr (), st\<lparr>ld_screen := ld_screen st @ (cs @ cs')\<rparr>)"
      using m ms by (simp add: io_bind_def)
    then show "\<exists>cs. io_bind m (\<lambda>_. ld_seq ms) st = Some (Inr (), st\<lparr>ld_screen := ld_screen st @ cs\<rparr>)" by blast
  qed
qed

text \<open>The buffer comes from a heap that has room for it.\<close>

lemma coalesce_idem: "coalesce (coalesce bs) = coalesce bs"
proof (induction bs rule: coalesce_induct)
  case (before_reserved b k bs)
  then show ?case by (cases b) simp
qed simp_all

lemma coalesce_Cons: "coalesce (b # coalesce ys) = coalesce (b # ys)"
proof (induction ys arbitrary: b rule: coalesce_induct)
  case (merge n k bs)
  then show ?case by (cases b; cases "snd b") (simp_all add: add.assoc)
next
  case (reserved n bs)
  then show ?case by (cases b) (simp add: coalesce_idem)
next
  case (before_reserved c k bs)
  then show ?case by (cases b; cases "snd b"; cases c; cases "snd c") (simp_all add: coalesce_idem)
qed simp_all

lemma coalesce_append: "coalesce (xs @ coalesce ys) = coalesce (xs @ ys)"
proof (induction xs)
  case (Cons x xs)
  have "coalesce (x # (xs @ coalesce ys)) = coalesce (x # coalesce (xs @ coalesce ys))" by (rule coalesce_Cons [symmetric])
  also have "\<dots> = coalesce (x # (xs @ ys))" unfolding Cons.IH by (rule coalesce_Cons)
  finally show ?case by simp
qed (simp add: coalesce_idem)

text \<open>A region that was taken from a heap: when it is released the free blocks are those of before, merged.\<close>

definition taken :: "nat \<Rightarrow> block list \<Rightarrow> block list \<Rightarrow> u32 \<Rightarrow> nat \<Rightarrow> bool" where
  "taken a bs0 bs p n \<longleftrightarrow> (\<exists>pre post. bs = pre @ (n, True) # post \<and> unat p = a + span pre + 8 \<and>
     coalesce (pre @ (n, False) # post) = coalesce bs0)"

lemma taken_region: "taken a bs0 bs p n \<Longrightarrow> (unat p, n) \<in> regions a bs"
  by (auto simp: taken_def regions_append)

lemma malloc_taken:
  assumes "heap_rep (ld_heap st) bs" "unat k + 3 < 2 ^ 32" "fits (round4 (unat k)) bs \<noteq> {}"
  shows "\<exists>p h bs' n. ld_malloc k st = Some (Inr p, st\<lparr>ld_heap := h\<rparr>) \<and> p \<noteq> 0 \<and> heap h = heap (ld_heap st) \<and>
    heapEnd h = heapEnd (ld_heap st) \<and> round4 (unat k) \<le> n \<and> heap_rep h bs' \<and> taken (unat (heap h)) bs bs' p n \<and>
    (\<forall>x < 2 ^ 32. unat (heapEnd h) \<le> x \<longrightarrow> hmem h (of_nat x) = hmem (ld_heap st) (of_nat x))"
proof -
  let ?c = "round4 (unat k)"
  obtain pre n post p h where m: "bs = pre @ (n, False) # post" "?c \<le> n"
    "unat p = unat (heap (ld_heap st)) + span pre + 8" "malloc (ld_heap st) k = Some (p, h)"
    "heap h = heap (ld_heap st)" "heapEnd h = heapEnd (ld_heap st)" "heap_rep h (pre @ reserve_block ?c n @ post)"
    "outside_same (unat p - 8) (unat p + n) (hmem (ld_heap st)) (hmem h)"
    using malloc_best_fit [OF assms(1,2) refl assms(3)] by blast
  let ?bs = "pre @ reserve_block ?c n @ post" and ?n = "if 12 \<le> n - ?c then ?c else n"
  have "coalesce (pre @ (?c, False) # (n - ?c - 8, False) # post) = coalesce (pre @ (n, False) # post)" if "12 \<le> n - ?c"
  proof -
    have "coalesce ((?c, False) # (n - ?c - 8, False) # post) = coalesce ((n, False) # post)" using that by simp
    then show ?thesis using coalesce_append by metis
  qed
  then have "\<exists>post'. ?bs = pre @ (?n, True) # post' \<and> coalesce (pre @ (?n, False) # post') = coalesce bs"
    using m(1) by (auto simp: reserve_block_def)
  moreover have "unat p = unat (heap h) + span pre + 8" using m(3,5) by simp
  ultimately have "taken (unat (heap h)) bs ?bs p ?n" unfolding taken_def by blast
  moreover have "ld_malloc k st = Some (Inr p, st\<lparr>ld_heap := h\<rparr>)" using m(4) by (simp add: ld_malloc_def)
  moreover have "p \<noteq> 0" using m(3) by auto
  moreover have "?c \<le> ?n" using m(2) by simp
  moreover have "unat p + n \<le> unat (heapEnd h)" using heap_rep_end [OF assms(1)] m(1,3,6) by simp
  then have "\<forall>x < 2 ^ 32. unat (heapEnd h) \<le> x \<longrightarrow> hmem h (of_nat x) = hmem (ld_heap st) (of_nat x)"
    using m(8) unfolding outside_same_def using order_trans by blast
  ultimately show ?thesis using m(5-7) by blast
qed

lemma malloc_buffer:
  assumes "heap_rep (ld_heap st) bs" "fits 1024 bs \<noteq> {}"
  shows "\<exists>p h bs' n. ld_malloc 1024 st = Some (Inr p, st\<lparr>ld_heap := h\<rparr>) \<and> p \<noteq> 0 \<and> heap h = heap (ld_heap st) \<and>
    heapEnd h = heapEnd (ld_heap st) \<and> 1024 \<le> n \<and> heap_buffer (st\<lparr>ld_heap := h\<rparr>) bs' p n \<and> taken (unat (heap h)) bs bs' p n \<and>
    (\<forall>x < 2 ^ 32. unat (heapEnd h) \<le> x \<longrightarrow> hmem h (of_nat x) = hmem (ld_heap st) (of_nat x))"
proof -
  have "round4 (unat (1024 :: u32)) = 1024" "unat (1024 :: u32) + 3 < 2 ^ 32" by (simp_all add: round4_def)
  note k = this
  obtain p h bs' n where p: "ld_malloc 1024 st = Some (Inr p, st\<lparr>ld_heap := h\<rparr>)" "p \<noteq> 0"
    "heap h = heap (ld_heap st)" "heapEnd h = heapEnd (ld_heap st)" "1024 \<le> n" "heap_rep h bs'" "taken (unat (heap h)) bs bs' p n"
    "\<forall>x < 2 ^ 32. unat (heapEnd h) \<le> x \<longrightarrow> hmem h (of_nat x) = hmem (ld_heap st) (of_nat x)"
    using malloc_taken [OF assms(1) k(2), unfolded k(1), OF assms(2)] by blast
  moreover have "heap_buffer (st\<lparr>ld_heap := h\<rparr>) bs' p n" using p(6) taken_region [OF p(7)] by (simp add: heap_buffer_def)
  ultimately show ?thesis by blast
qed

lemma free_taken:
  assumes rep: "heap_rep (ld_heap st) bs" and t: "taken (unat (heap (ld_heap st))) bs0 bs p n"
  shows "\<exists>h. ld_free p st = Some (Inr (), st\<lparr>ld_heap := h\<rparr>) \<and> heap_rep h (coalesce bs0) \<and> heap h = heap (ld_heap st) \<and>
    heapEnd h = heapEnd (ld_heap st) \<and>
    (\<forall>x < 2 ^ 32. unat (heapEnd (ld_heap st)) \<le> x \<longrightarrow> hmem h (of_nat x) = ld_mem st (of_nat x))"
proof -
  obtain pre post where bs: "bs = pre @ (n, True) # post" "unat p = unat (heap (ld_heap st)) + span pre + 8"
    "coalesce (pre @ (n, False) # post) = coalesce bs0"
    using t unfolding taken_def by blast
  obtain h where h: "free (ld_heap st) p = Some h" "heap_rep h (coalesce (pre @ (n, False) # post))"
    "heap h = heap (ld_heap st)"
    "\<forall>x < 2 ^ 32. x \<notin> hdrs (unat (heap (ld_heap st))) bs \<longrightarrow> hmem h (of_nat x) = hmem (ld_heap st) (of_nat x)"
    using heap_rep_free [OF rep [unfolded bs(1)] bs(2)] bs(1) by auto
  have "x \<notin> hdrs (unat (heap (ld_heap st))) bs" if "unat (heapEnd (ld_heap st)) \<le> x" for x
    using that hdrs_bounds heap_rep_end [OF rep] by fastforce
  then have mem: "\<forall>x < 2 ^ 32. unat (heapEnd (ld_heap st)) \<le> x \<longrightarrow> hmem h (of_nat x) = ld_mem st (of_nat x)"
    using h(4) by (simp add: ld_mem_def)
  have "unat (heapEnd h) = unat (heapEnd (ld_heap st))"
    using heap_rep_end [OF h(2)] heap_rep_end [OF rep] h(3) bs(1) by simp
  then have "heapEnd h = heapEnd (ld_heap st)" by (simp only: word_unat_eq_iff)
  then show ?thesis using h(1-3) mem bs(3) by (intro exI [of _ h]) (simp add: ld_free_def)
qed

lemma free_buffer:
  assumes "heap_buffer st bs p n"
  shows "\<exists>h bs'. ld_free p st = Some (Inr (), st\<lparr>ld_heap := h\<rparr>) \<and> heap_rep h bs'"
proof -
  have rep: "heap_rep (ld_heap st) bs" and reg: "(unat p, n) \<in> regions (unat (heap (ld_heap st))) bs"
    using assms by (simp_all add: heap_buffer_def)
  obtain pre post where "bs = pre @ (n, True) # post" "unat p = unat (heap (ld_heap st)) + span pre + 8"
    using regions_split [OF reg] by auto
  then have "taken (unat (heap (ld_heap st))) (pre @ (n, False) # post) bs p n" unfolding taken_def by blast
  from free_taken [OF rep this] show ?thesis by blast
qed

lemma ExtractMemLayout_count: "ExtractMemLayout h off fsz outs = (True, fileStart, base, count) \<Longrightarrow> count \<le> fsz - fileStart"
  by (auto simp: ExtractMemLayout_def Let_def split: if_splits)

lemma clear_behind:
  assumes "unat base + L + unat sz < 2 ^ 32" "m' = ClearMemory32 m (base + of_nat L) sz"
  shows "mem_read m' base L = mem_read m base L" "mem_read m' (base + of_nat L) (unat sz) = replicate (unat sz) 0"
    "\<And>y. y < 2 ^ 32 \<Longrightarrow> y < unat base \<Longrightarrow> m' (of_nat y) = m (of_nat y)"
proof -
  have u: "unat (base + of_nat i) = unat base + i" if "unat base + i < 2 ^ 32" for i
    using that by (simp add: unat_word_ariths unat_of_nat)
  have eq: "m' x = (if unat base + L \<le> unat x \<and> unat x < unat base + L + unat sz then 0 else m x)" for x
    unfolding assms(2) using assms(1) u [of L] by (subst ClearMemory32_clears) simp_all
  show "mem_read m' base L = mem_read m base L"
    using assms(1) by (intro mem_read_cong) (simp add: eq u)
  show "mem_read m' (base + of_nat L) (unat sz) = replicate (unat sz) 0"
  proof (rule nth_equalityI)
    fix i assume "i < length (mem_read m' (base + of_nat L) (unat sz))"
    then have i: "i < unat sz" by simp
    have "unat (base + of_nat (L + i)) = unat base + (L + i)" using assms(1) i by (intro u) linarith
    then have "unat (base + of_nat L + of_nat i) = unat base + (L + i)" by (simp add: add.assoc)
    then show "mem_read m' (base + of_nat L) (unat sz) ! i = replicate (unat sz) 0 ! i"
      using i by (simp add: mem_read_def eq)
  qed simp
  show "m' (of_nat y) = m (of_nat y)" if "y < 2 ^ 32" "y < unat base" for y
    using that by (simp add: eq)
qed

lemma MBLoadKernel_works:
  assumes disk: "file_on_disk st finfo file" "length file = unat (ff_size finfo)"
    and room: "heap_rep (ld_heap st) bs" "fits 1024 bs \<noteq> {}"
    and layout: "ExtractMemLayout hdr fileOffset (ff_size finfo) (0, 0, 0) = (True, 0, base, count)" "unat count < 10 ^ 9"
    and high: "unat (heapEnd (ld_heap st)) \<le> unat base" "unat base + length file + unat (BSSSize hdr) < 2 ^ 32"
  shows "\<exists>st' L. MBLoadKernel finfo hdr fileOffset st = Some (Inr True, st') \<and>
    unat count \<le> L \<and> L < unat count + 1024 \<and> L \<le> length file \<and> mem_read (ld_mem st') base L = take L file \<and>
    mem_read (ld_mem st') (base + of_nat L) (unat (BSSSize hdr)) = replicate (unat (BSSSize hdr)) 0 \<and>
    heap_rep (ld_heap st') (coalesce bs) \<and> ld_frame st st' \<and> file_on_disk st' finfo file"
proof -
  let ?msg = "ld_seq [ld_message ''Loading '', ld_decimal count, ld_message '' bytes to #'', ld_hex (ucast base), ld_newline]"
  have "prints ?msg" using prints_decimal [OF layout(2)] by (intro prints_seq) simp
  then obtain cs where msg: "?msg st = Some (Inr (), st\<lparr>ld_screen := ld_screen st @ cs\<rparr>)" unfolding prints_def by blast
  let ?st0 = "st\<lparr>ld_screen := ld_screen st @ cs\<rparr>"
  have "heap_rep (ld_heap ?st0) bs" using room(1) by simp
  from malloc_buffer [OF this room(2)] obtain p h bs' n where
    p: "ld_malloc 1024 ?st0 = Some (Inr p, ?st0\<lparr>ld_heap := h\<rparr>)" "p \<noteq> 0" "heapEnd h = heapEnd (ld_heap st)"
    "1024 \<le> n" "heap_buffer (?st0\<lparr>ld_heap := h\<rparr>) bs' p n" "heap h = heap (ld_heap st)" "taken (unat (heap h)) bs bs' p n"
    by auto
  let ?st1 = "?st0\<lparr>ld_heap := h\<rparr>"
  have "file_on_disk ?st1 finfo file" using disk(1) by (simp add: file_on_disk_def)
  then have "loading ?st1 finfo file bs' p n base 0"
    using p(3-5) high by (simp add: loading_def mem_read_def)
  moreover have "unat (count - 0) \<le> length file"
    using ExtractMemLayout_count [OF layout(1)] disk(2) by (simp add: word_le_nat_alt)
  ultimately obtain st2 L where L: "MBLoadKernel_loop finfo p (count - 0) (of_nat 0) (base + of_nat 0) ?st1 =
      Some (Inr (Some (base + of_nat L)), st2)" "loading st2 finfo file bs' p n base L" "unat count \<le> L"
    "L = 0 \<or> L < unat count + 1024" "ld_frame ?st1 st2"
    using MBLoadKernel_loop_loads [of ?st1 finfo "file" bs' p n base 0 "count - 0"] by auto
  have f1: "ld_frame st ?st1" using p(3,6) by (simp add: ld_frame_def)
  have f2: "ld_frame st st2" by (rule ld_frame_trans [OF f1 L(5)])
  then have st2: "heap_buffer st2 bs' p n" "L \<le> length file" "mem_read (ld_mem st2) base L = take L file"
    "unat (heapEnd (ld_heap st2)) \<le> unat base" "heap_rep (ld_heap st2) bs'" "taken (unat (heap (ld_heap st2))) bs bs' p n"
    "file_on_disk st2 finfo file"
    using L(2) p(6,7) by (simp_all add: loading_def heap_buffer_def ld_frame_def)
  obtain h3 where h3: "ld_free p st2 = Some (Inr (), st2\<lparr>ld_heap := h3\<rparr>)" "heap_rep h3 (coalesce bs)"
    "heapEnd h3 = heapEnd (ld_heap st2)"
    "\<forall>x < 2 ^ 32. unat (heapEnd (ld_heap st2)) \<le> x \<longrightarrow> hmem h3 (of_nat x) = ld_mem st2 (of_nat x)"
    "heap h3 = heap (ld_heap st2)"
    using free_taken [OF st2(5,6)] by blast
  let ?m = "ClearMemory32 (hmem h3) (base + of_nat L) (BSSSize hdr)"
  let ?st' = "st2\<lparr>ld_heap := h3\<lparr>hmem := ?m\<rparr>\<rparr>"
  have fit: "unat base + L + unat (BSSSize hdr) < 2 ^ 32" using high(2) st2(2) by linarith
  note clear = clear_behind [OF fit refl, where m = "hmem h3"]
  have "mem_read (hmem h3) base L = mem_read (ld_mem st2) base L"
  proof (rule mem_read_cong)
    fix i assume "i < L"
    then have "unat base + i < 2 ^ 32" "unat (heapEnd (ld_heap st2)) \<le> unat base + i" using fit st2(4) by linarith+
    then have "hmem h3 (of_nat (unat base + i)) = ld_mem st2 (of_nat (unat base + i))" using h3(4) by blast
    then show "hmem h3 (base + of_nat i) = ld_mem st2 (base + of_nat i)" by simp
  qed
  then have read: "mem_read ?m base L = take L file" using clear(1) st2(3) by simp
  have run: "MBLoadKernel finfo hdr fileOffset st = Some (Inr True, ?st')"
    using layout(1) msg p(1,2) L(1) h3(1)
    by (simp add: MBLoadKernel_def io_bind_def ld_update_mem_def io_put_def io_return_def ld_mem_def)
  have inv: "heap_rep (h3\<lparr>hmem := ?m\<rparr>) (coalesce bs)"
    using h3(2) by (rule heap_rep_store_behind) (use clear(3) h3(3) st2(4) in simp)
  have "ld_frame st ?st'" using f2 h3(3,5) by (simp add: ld_frame_def)
  moreover have "file_on_disk ?st' finfo file" using st2(7) by (simp add: file_on_disk_def)
  moreover
  have "L < unat count + 1024" using L(3,4) by linarith
  ultimately show ?thesis using run read clear(2) inv L(3) st2(2)
    by (intro exI [of _ ?st'] exI [of _ L]) (simp add: ld_mem_def)
qed

subsection \<open>Finding the header\<close>

text \<open>The variable holds what the file has at the offset, as far as the file goes.\<close>

definition header_at :: "bytes \<Rightarrow> u32 \<Rightarrow> bytes \<Rightarrow> bool" where
  "header_at file off hdr \<longleftrightarrow> (let d = take 32 (drop (unat off) file) in d \<noteq> [] \<and> take (length d) hdr = d)"

definition found_ok_header :: "bytes \<Rightarrow> u32 \<Rightarrow> bytes \<Rightarrow> bool" where
  "found_ok_header file off hdr \<longleftrightarrow> header_at file off hdr \<and> MultiBootHeader_IsValid (MultiBootHeader_of_bytes hdr)"

definition scan_ok :: "bytes \<Rightarrow> scan_result \<Rightarrow> bool" where
  "scan_ok file r \<longleftrightarrow> (case r of
       Scan_next ret hdr \<Rightarrow> 0 < sint ret \<and> sint ret \<le> 1024 \<and> length hdr = 32
     | Scan_fail hdr \<Rightarrow> length hdr = 32
     | Scan_found off hdr \<Rightarrow> length hdr = 32 \<and> found_ok_header file off hdr)"

lemma sdiv4_bound: "0 < sint ret \<Longrightarrow> sint ret \<le> 1024 \<Longrightarrow> sdiv4 ret \<le> 256"
  by (simp add: sdiv4_def)

lemma MBFindHeader_scan_ok:
  assumes "file_on_disk st finfo file" "length hdr = 32" "0 < sint ret" "sint ret \<le> 1024"
  shows "\<exists>r st'. MBFindHeader_scan finfo p off i ret hdr st = Some (Inr r, st') \<and> file_on_disk st' finfo file \<and>
    ld_heap st' = ld_heap st \<and> scan_ok file r"
  using assms
proof (induction "nat (256 - i)" arbitrary: i ret hdr st rule: less_induct)
  case less
  note loop = MBFindHeader_scan.simps [of finfo p off i ret hdr]
  show ?case
  proof (cases "i < sdiv4 ret")
    case False
    then show ?thesis using less.prems by (subst loop) (simp add: io_return_def scan_ok_def)
  next
    case True
    then have "i < 256" using sdiv4_bound [OF less.prems(3,4)] by simp
    then have smaller: "nat (256 - (i + 1)) < nat (256 - i)" by simp
    show ?thesis
    proof (cases "load32 (ld_mem st) (p + of_int i * 4) = MultiBoot_Magic")
      case False
      have "MBFindHeader_scan finfo p off i ret hdr st = MBFindHeader_scan finfo p off (i + 1) ret hdr st"
        using True False by (subst loop) (simp add: io_bind_def io_get_def)
      then show ?thesis using less.hyps [OF smaller less.prems] by simp
    next
      case magic: True
      define x where "x = off + of_int i * 4"
      define d where "d = take (unat (32 :: u32)) (drop (unat x) file)"
      have dl: "length d \<le> 32" by (simp add: d_def)
      obtain fs' where fs': "ld_ReadAt finfo x 32 st = Some (Inr (of_nat (length d), d), st\<lparr>ld_fs := Some fs'\<rparr>)"
        "file_on_disk (st\<lparr>ld_fs := Some fs'\<rparr>) finfo file"
        using ld_ReadAt_file [OF less.prems(1) d_def] by blast
      let ?hdr = "overwrite 0 d hdr" and ?st = "st\<lparr>ld_fs := Some fs'\<rparr>"
      have hl: "length ?hdr = 32" using less.prems(2) dl by simp
      have s: "sint (of_nat (length d) :: u32) = int (length d)" using dl by (intro sint_of_nat_u32) simp
      have step: "MBFindHeader_scan finfo p off i ret hdr st =
          (if length d = 0 then Some (Inr (Scan_fail ?hdr), ?st)
           else if MultiBootHeader_IsValid (MultiBootHeader_of_bytes ?hdr) then Some (Inr (Scan_found x ?hdr), ?st)
           else MBFindHeader_scan finfo p off (i + 1) (of_nat (length d)) ?hdr ?st)"
        using True magic fs'(1) s unfolding x_def
        by (subst loop) (simp add: io_bind_def io_get_def io_return_def Let_def)
      consider "d = []" | "d \<noteq> []" "MultiBootHeader_IsValid (MultiBootHeader_of_bytes ?hdr)"
        | "d \<noteq> []" "\<not> MultiBootHeader_IsValid (MultiBootHeader_of_bytes ?hdr)" by blast
      then show ?thesis
      proof cases
        case 1
        then show ?thesis using step fs'(2) hl by (simp add: scan_ok_def)
      next
        case 2
        have eq: "take 32 (drop (unat x) file) = d" by (simp add: d_def)
        have "header_at file x ?hdr"
          unfolding header_at_def Let_def eq using 2(1) by (simp add: overwrite_def)
        then show ?thesis using 2 step fs'(2) hl by (simp add: scan_ok_def found_ok_header_def)
      next
        case 3
        have "0 < sint (of_nat (length d) :: u32)" "sint (of_nat (length d) :: u32) \<le> 1024" using 3(1) dl s by simp_all
        from less.hyps [OF smaller fs'(2) hl this] show ?thesis using step 3 by simp
      qed
    qed
  qed
qed

definition find_ok :: "'h Loader \<Rightarrow> FatFile \<Rightarrow> bytes \<Rightarrow> bool \<times> u32 \<times> bytes \<Rightarrow> bool" where
  "find_ok st finfo file r \<longleftrightarrow> file_on_disk st finfo file \<and> heap_inv (ld_heap st) \<and>
     (case r of (found, off, hdr) \<Rightarrow> length hdr = 32 \<and> (found \<longrightarrow> found_ok_header file off hdr))"

lemma free_and_return:
  assumes "file_on_disk st finfo file" "heap_buffer st bs p n" "length hdr = 32" "found \<longrightarrow> found_ok_header file off hdr"
  shows "\<exists>st'. io_bind (ld_free p) (\<lambda>_. io_return (found, off, hdr)) st = Some (Inr (found, off, hdr), st') \<and>
    find_ok st' finfo file (found, off, hdr)"
proof -
  obtain h bs' where "ld_free p st = Some (Inr (), st\<lparr>ld_heap := h\<rparr>)" "heap_rep h bs'"
    using free_buffer [OF assms(2)] by blast
  then show ?thesis using assms
    by (auto simp: io_bind_def io_return_def find_ok_def heap_inv_def file_on_disk_def)
qed

lemma MBFindHeader_loop_ok:
  assumes "file_on_disk st finfo file" "heap_buffer st bs p n" "1024 \<le> n" "length hdr = 32"
    and "unat scanSize \<le> 8192" "unat off \<le> 9216"
  shows "\<exists>r st'. MBFindHeader_loop finfo p scanSize off hdr st = Some (Inr r, st') \<and> find_ok st' finfo file r"
  using assms
proof (induction "9216 - unat off" arbitrary: off hdr st rule: less_induct)
  case less
  note loop = MBFindHeader_loop.simps [of finfo p scanSize off hdr st]
  show ?case
  proof (cases "off < scanSize")
    case False
    then show ?thesis using free_and_return [OF less.prems(1,2,4), of False off] by (subst loop) auto
  next
    case True
    then have o: "unat off < 8192" using less.prems(5) by (simp add: word_less_nat_alt)
    define d where "d = take (unat (1024 :: u32)) (drop (unat off) file)"
    have dl: "length d \<le> 1024" by (simp add: d_def)
    have s: "sint (of_nat (length d) :: u32) = int (length d)" using dl by (intro sint_of_nat_u32) simp
    obtain st1 where st1: "ld_ReadAt_to finfo p off 1024 st = Some (Inr (of_nat (length d)), st1)"
      "file_on_disk st1 finfo file" "heap_buffer st1 bs p n"
      using ld_ReadAt_to_buffer [OF less.prems(1,2) d_def] less.prems(3) by auto
    show ?thesis
    proof (cases "d = []")
      case True
      then have "MBFindHeader_loop finfo p scanSize off hdr st =
          io_bind (ld_free p) (\<lambda>_. io_return (False, off, hdr)) st1"
        using \<open>off < scanSize\<close> st1(1) s by (subst loop) (simp add: io_bind_def)
      then show ?thesis using free_and_return [OF st1(2,3) less.prems(4), of False off] by auto
    next
      case False
      have r: "0 < sint (of_nat (length d) :: u32)" "sint (of_nat (length d) :: u32) \<le> 1024" using False dl s by simp_all
      obtain r st2 where sc: "MBFindHeader_scan finfo p off 0 (of_nat (length d)) hdr st1 = Some (Inr r, st2)"
        "file_on_disk st2 finfo file" "ld_heap st2 = ld_heap st1" "scan_ok file r"
        using MBFindHeader_scan_ok [OF st1(2) less.prems(4) r] by blast
      have buf: "heap_buffer st2 bs p n" using st1(3) sc(3) by (simp add: heap_buffer_def)
      have step: "MBFindHeader_loop finfo p scanSize off hdr st = (case r of
            Scan_fail hdr1 \<Rightarrow> io_bind (ld_free p) (\<lambda>_. io_return (False, off, hdr1)) st2
          | Scan_found off1 hdr1 \<Rightarrow> io_bind (ld_free p) (\<lambda>_. io_return (True, off1, hdr1)) st2
          | Scan_next ret1 hdr1 \<Rightarrow> MBFindHeader_loop finfo p scanSize (off + ret1) hdr1 st2)"
        using \<open>off < scanSize\<close> st1(1) s False sc(1) by (subst loop) (simp add: io_bind_def)
      show ?thesis
      proof (cases r)
        case (Scan_fail hdr1)
        then show ?thesis using free_and_return [OF sc(2) buf, of hdr1 False off] sc(4) step by (auto simp: scan_ok_def)
      next
        case (Scan_found off1 hdr1)
        then show ?thesis using free_and_return [OF sc(2) buf, of hdr1 True off1] sc(4) step by (auto simp: scan_ok_def)
      next
        case (Scan_next ret1 hdr1)
        then have n: "0 < sint ret1" "sint ret1 \<le> 1024" "length hdr1 = 32" using sc(4) by (simp_all add: scan_ok_def)
        have ret: "0 < unat ret1" "unat ret1 \<le> 1024" using unat_of_sint [of ret1] n by linarith+
        then have u: "unat (off + ret1) = unat off + unat ret1" using o by (simp add: unat_word_ariths)
        have "9216 - unat (off + ret1) < 9216 - unat off" "unat (off + ret1) \<le> 9216" using u ret o by linarith+
        from less.hyps [OF this(1) sc(2) buf less.prems(3) n(3) less.prems(5) this(2)] show ?thesis
          using step Scan_next by simp
      qed
    qed
  qed
qed

subsection \<open>Properties of the loader\<close>


text \<open>
  C21. The search for the multiboot header always ends, and what it reports is a header: for a file
  on a disk whose loads succeed and with room for the buffer in the heap, \<^verbatim>\<open>MBFindHeader\<close> returns;
  when it returns true, the header variable starts with the bytes of the file at the reported
  offset and is valid. The heap stays well-formed.
\<close>

theorem MBFindHeader_sound:
  assumes "file_on_disk st finfo file" "heap_rep (ld_heap st) bs" "fits 1024 bs \<noteq> {}" "length hdr0 = 32"
  shows "\<exists>found off hdr st'. MBFindHeader finfo hdr0 st = Some (Inr (found, off, hdr), st') \<and>
    heap_inv (ld_heap st') \<and> length hdr = 32 \<and>
    (found \<longrightarrow> MultiBootHeader_IsValid (MultiBootHeader_of_bytes hdr) \<and>
       take (length (take 32 (drop (unat off) file))) hdr = take 32 (drop (unat off) file) \<and>
       unat off < length file)"
proof -
  define n where "n = (if ff_size finfo > multiBootMaxSearch then multiBootMaxSearch else ff_size finfo)"
  have n: "unat n \<le> 8192" unfolding n_def multiBootMaxSearch_def by (simp add: word_less_nat_alt)
  obtain p h bs' k where p: "ld_malloc 1024 st = Some (Inr p, st\<lparr>ld_heap := h\<rparr>)" "p \<noteq> 0" "1024 \<le> k"
    "heap_buffer (st\<lparr>ld_heap := h\<rparr>) bs' p k"
    using malloc_buffer [OF assms(2,3)] by blast
  have disk: "file_on_disk (st\<lparr>ld_heap := h\<rparr>) finfo file" using assms(1) by (simp add: file_on_disk_def)
  obtain r st' where r: "MBFindHeader_loop finfo p n 0 hdr0 (st\<lparr>ld_heap := h\<rparr>) = Some (Inr r, st')"
    "find_ok st' finfo file r"
    using MBFindHeader_loop_ok [OF disk p(4,3) assms(4) n, of 0] by auto
  obtain found off hdr where f: "r = (found, off, hdr)" by (cases r)
  have "MBFindHeader finfo hdr0 st = Some (Inr (found, off, hdr), st')"
    using p(1,2) r(1) f by (simp add: MBFindHeader_def io_bind_def n_def)
  moreover have "unat off < length file" if "header_at file off hdr"
    using that by (auto simp: header_at_def Let_def)
  ultimately show ?thesis using r(2) f by (auto simp: find_ok_def found_ok_header_def header_at_def Let_def)
qed

subsection \<open>Witnesses\<close>

text \<open>The example volume, a heap of 8 KiB at 0x8000, and a header that loads four bytes and clears eight.\<close>

definition example_loader :: "unit Loader" where
  "example_loader = \<lparr>ld_heap = HeapInit (\<lambda>_. 0xAA) 0x8000 heapMaxSize, ld_hw = (), ld_bios = bb_bios (linear_disk example_sector),
     ld_header = replicate 28 0, ld_screen = [], ld_temp = replicate 20 0, ld_mmap = \<lparr>mm_ent = [], mm_count = 0\<rparr>,
     ld_fs = Some example_fs, ld_haveKernel = False, ld_kernelEntry = 0\<rparr>"

definition tiny_header :: MultiBootHeader where
  "tiny_header = \<lparr>mb_magic = 0x1BADB002, mb_flags = 0x00010000, mb_checksum = 0xE4514FFE,
     mb_hdrAddr = 0x100000, mb_loadAddr = 0x100000, mb_loadEndAddr = 0x100004,
     mb_bssEndAddr = 0x10000C, mb_entryAddr = 0x100002\<rparr>"

lemma example_loader_heap:
  "heap_rep (ld_heap example_loader) [(8184, False)]" "heapEnd (ld_heap example_loader) = 0xA000"
  using HeapInit_rep_lemma [of "0x8000" heapMaxSize "\<lambda>_. 0xAA"]
  by (simp_all add: example_loader_def heapMaxSize_def HeapInit_def Let_def)

lemma example_loader_disk: "file_on_disk example_loader example_file [72, 101, 108, 108, 111]"
  unfolding file_on_disk_def
proof (intro exI conjI)
  show "ld_fs example_loader = Some example_fs" by (simp add: example_loader_def)
  show "volume_chain (bios_content (blk example_fs)) 512 (super example_fs) (ff_cluster example_file) [3]"
    using example_chains by (simp add: example_file_def)
  show "[72, 101, 108, 108, 111] = file_bytes (bios_content (blk example_fs)) (super example_fs) example_file [3]"
    by (simp add: example_file_def file_bytes_def chain_bytes_def example_clusters example_sector_def)
qed (rule example_fs_inv)

lemma example_fits: "fits 1024 [(8184, False)] \<noteq> {}"
  by (auto simp: fits_def)


theorem MBFindHeader_sound_witness:
  "\<exists>found off hdr st'. MBFindHeader example_file (replicate 32 0) example_loader = Some (Inr (found, off, hdr), st') \<and>
     heap_inv (ld_heap st') \<and> length hdr = 32"
  using MBFindHeader_sound [OF example_loader_disk example_loader_heap(1) example_fits, of "replicate 32 0"] by auto

end
