(* ===== verification/Fat_Sound.thy ===== *)
theory Fat_Sound
  imports Fat_Path
begin

text \<open>
  What the driver returns on any volume, damaged ones included: a file it reports was found through
  live directory entries, the bytes it reports as read are those along the links of the FAT, and its
  windows stay consistent. Nothing is said about whether it returns.
\<close>

subsection \<open>What a volume holds\<close>

text \<open>
  The bytes from an offset on, along the links from a cluster. The links are followed only as far as
  bytes are wanted, so a loop or a broken link behind them does not matter.
\<close>

inductive chain_reads :: "(u32 \<Rightarrow> bytes) \<Rightarrow> nat \<Rightarrow> FatSuper \<Rightarrow> u32 \<Rightarrow> nat \<Rightarrow> nat \<Rightarrow> bytes \<Rightarrow> bool"
  for sec ss s where
  reads_all: "chain_reads sec ss s c off 0 []"
| reads_end: "0x0FFFFFF0 \<le> c \<Longrightarrow> chain_reads sec ss s c off n []"
| reads_last: "\<lbrakk>c < 0x0FFFFFF0; w = take n (drop off (cluster_bytes sec s c)); length w = n\<rbrakk> \<Longrightarrow> chain_reads sec ss s c off n w"
| reads_on: "\<lbrakk>c < 0x0FFFFFF0; d = cluster_bytes sec s c; w = take n (drop off d);
    4 * unat c < ss * unat (FatSuper_SectorsPerFat s);
    chain_reads sec ss s (fat_entry sec ss s c) (off - length d) (n - length w) w'\<rbrakk> \<Longrightarrow>
    chain_reads sec ss s c off n (w @ w')"

text \<open>Bytes of a file, none behind its size (a size of 0 is no limit).\<close>

definition file_reads :: "(u32 \<Rightarrow> bytes) \<Rightarrow> nat \<Rightarrow> FatSuper \<Rightarrow> FatFile \<Rightarrow> nat \<Rightarrow> nat \<Rightarrow> bytes \<Rightarrow> bool" where
  "file_reads sec ss s f off n w \<longleftrightarrow>
     (if ff_size f = 0 then chain_reads sec ss s (ff_cluster f) off n w
      else if unat (ff_size f) \<le> off then w = []
      else chain_reads sec ss s (ff_cluster f) off (min n (unat (ff_size f) - off)) w)"

text \<open>An entry in one of the clusters along the links from a cluster.\<close>

inductive holds_entry :: "(u32 \<Rightarrow> bytes) \<Rightarrow> nat \<Rightarrow> FatSuper \<Rightarrow> u32 \<Rightarrow> FatDirent \<Rightarrow> bool"
  for sec ss s where
  entry_here: "\<lbrakk>2 \<le> c; c < 0x0FFFFFF0; e \<in> set (dir_entries (cluster_bytes sec s c))\<rbrakk> \<Longrightarrow> holds_entry sec ss s c e"
| entry_on: "\<lbrakk>2 \<le> c; c < 0x0FFFFFF0; 4 * unat c < ss * unat (FatSuper_SectorsPerFat s);
    holds_entry sec ss s (fat_entry sec ss s c) e\<rbrakk> \<Longrightarrow> holds_entry sec ss s c e"

text \<open>
  A live entry goes by a name when it is its short name. FAT forbids short names that begin with a
  blank; the driver compares an uninitialised buffer for such an entry.
\<close>

definition goes_by_name :: "bytes \<Rightarrow> FatDirent \<Rightarrow> bool" where
  "goes_by_name name e \<longleftrightarrow> \<not> FatDirent_IsLastInList e \<and> \<not> skipped e \<and>
     (cstr (dirent_name e) = cstr name \<or> name_At e 0 = 32)"

text \<open>The files that the components of a path lead to.\<close>

inductive leads :: "(u32 \<Rightarrow> bytes) \<Rightarrow> nat \<Rightarrow> FatSuper \<Rightarrow> FatFile \<Rightarrow> bytes list \<Rightarrow> FatFile \<Rightarrow> bool"
  for sec ss s where
  leads_done: "leads sec ss s f [] f"
| leads_into: "\<lbrakk>IsShortName n; FlagField_IsSet (ff_flags f) Flags_Directory; holds_entry sec ss s (ff_cluster f) e;
    goes_by_name n e; leads sec ss s (file_of_entry e) ns g\<rbrakk> \<Longrightarrow> leads sec ss s f (n # ns) g"

text \<open>On a chain without damage these are the bytes of the chain.\<close>

lemma chain_reads_chain:
  assumes "chain_reads sec ss s c off n w" "volume_chain sec ss s c cs"
  shows "w = take n (drop off (chain_bytes sec s cs))"
  using assms
proof (induction arbitrary: cs rule: chain_reads.induct)
  case (reads_end c off n)
  then have "cs = []" by (cases cs) (auto simp: volume_chain_def not_less [symmetric])
  then show ?case by (simp add: chain_bytes_def)
next
  case (reads_last c w n off)
  then obtain cs' where "cs = c # cs'" by (cases cs) (auto simp: volume_chain_def not_less [symmetric])
  then show ?case using reads_last take_drop_append [OF reads_last(2)] by (simp add: chain_bytes_def)
next
  case (reads_on c d w n off w')
  then obtain cs' where cs: "cs = c # cs'" "volume_chain sec ss s (fat_entry sec ss s c) cs'"
    by (cases cs) (auto simp: volume_chain_def not_less [symmetric])
  then show ?case using reads_on.IH [OF cs(2)] take_drop_append [OF reads_on(3)] reads_on(2) by (simp add: chain_bytes_def)
qed simp

lemma chain_reads_length: "chain_reads sec ss s c off n w \<Longrightarrow> length w \<le> n"
  by (induction rule: chain_reads.induct) auto

subsection \<open>The windows\<close>

context reliable_device
begin

definition advances :: "'a FatFs \<Rightarrow> 'a FatFs \<Rightarrow> bool" where
  "advances fs fs' \<longleftrightarrow> same_device (blk fs) (blk fs') \<and> super fs' = super fs \<and> fatfs_inv dev valid content fs'"

lemma advances_refl: "fatfs_inv dev valid content fs \<Longrightarrow> advances fs fs"
  by (simp add: advances_def fatfs_inv_def)

lemma advances_trans: "advances a b \<Longrightarrow> advances b c \<Longrightarrow> advances a c"
  unfolding advances_def using same_device_trans by metis

lemma advances_facts:
  "advances fs fs' \<Longrightarrow> content (blk fs') = content (blk fs)"
  "advances fs fs' \<Longrightarrow> SectorSize_op dev (blk fs') = SectorSize_op dev (blk fs)"
  "advances fs fs' \<Longrightarrow> super fs' = super fs"
  "advances fs fs' \<Longrightarrow> fatfs_inv dev valid content fs'"
  by (simp_all add: advances_def same_device_def)

lemma LoadDataCluster_any:
  assumes "fatfs_inv dev valid content fs" "LoadDataCluster dev fs c = (ok, fs')" "c < 0x0FFFFFF0"
  shows "advances fs fs' \<and> (ok \<longrightarrow> 2 \<le> c \<and> dataWindow fs' = cluster_bytes (content (blk fs)) (super fs) c)"
proof (cases "2 \<le> c")
  case True
  have "c \<noteq> 0xFFFFFFFF" using assms(3) by auto
  from LoadDataCluster_correct [OF assms(1,2) True this] True show ?thesis by (auto simp: advances_def never_fails split: if_splits)
next
  case False
  then show ?thesis using assms by (auto simp: LoadDataCluster_def not_le advances_refl)
qed

lemma ReadFatIndex_any:
  assumes "fatfs_inv dev valid content fs" "ReadFatIndex dev fs c = (r, fs')" "c < 0x0FFFFFF0"
  shows "advances fs fs' \<and> dataWindow fs' = dataWindow fs \<and>
    (\<forall>n. r = Some n \<longrightarrow> n = fat_entry (content (blk fs)) (unat (SectorSize_op dev (blk fs))) (super fs) c \<and>
       4 * unat c < unat (SectorSize_op dev (blk fs)) * unat (FatSuper_SectorsPerFat (super fs)))"
proof (cases "4 * unat c < unat (SectorSize_op dev (blk fs)) * unat (FatSuper_SectorsPerFat (super fs))")
  case True
  from ReadFatIndex_correct [OF assms True] True show ?thesis by (auto simp: advances_def never_fails split: option.splits)
next
  case False
  let ?ss = "unat (SectorSize_op dev (blk fs))" and ?n = "unat (FatSuper_SectorsPerFat (super fs))"
  have v: "valid (blk fs)" using assms(1) by (simp add: fatfs_inv_def)
  have "unat c < 0x0FFFFFF0" using assms(3) by (simp add: word_less_nat_alt)
  then have "unat ((c * 4) div ucast (SectorSize_op dev (blk fs))) = 4 * unat c div ?ss"
    by (simp add: unat_div unat_word_ariths mult.commute)
  moreover have "0 < ?ss" using size_ok [OF v] by simp
  then have "?n \<le> 4 * unat c div ?ss" using False by (simp add: less_eq_div_iff_mult_less_eq mult.commute)
  ultimately have "FatSuper_SectorsPerFat (super fs) \<le> (c * 4) div ucast (SectorSize_op dev (blk fs))"
    by (simp add: word_le_nat_alt)
  then have "r = None" "fs' = fs" using assms(2) by (auto simp: ReadFatIndex_def LoadFatSector_def Let_def)
  then show ?thesis using advances_refl [OF assms(1)] by simp
qed

subsection \<open>Reading\<close>

lemma ReadAt_round_any:
  assumes inv: "fatfs_inv dev valid content fs" and c: "c < 0x0FFFFFF0"
    and round: "ReadAt_round dev fs c offset sz ret out = (ok, fs1, offset1, sz1, ret1, out1)"
  defines "data \<equiv> cluster_bytes (content (blk fs)) (super fs) c"
  defines "w \<equiv> take (unat sz) (drop (unat offset) data)"
  shows "advances fs fs1 \<and> (ok \<longrightarrow> out1 = out @ w \<and> ret1 = ret + of_nat (length w) \<and> unat sz1 = unat sz - length w \<and>
     (0 < sz1 \<longrightarrow> unat offset1 = unat offset - length data))"
proof (cases "2 \<le> c")
  case True
  from ReadAt_round_correct [OF inv True c round] show ?thesis
    by (auto simp: advances_def never_fails data_def w_def Let_def split: if_splits)
next
  case False
  have v: "valid (blk fs)" using inv by (simp add: fatfs_inv_def)
  have len: "length data = unat (BytesPerCluster dev fs)"
    by (simp add: data_def length_cluster_bytes [OF v] BytesPerCluster_unat)
  show ?thesis
  proof (cases "offset < BytesPerCluster dev fs")
    case True
    moreover have "LoadDataCluster dev fs c = (False, fs)" using False by (simp add: LoadDataCluster_def not_le)
    ultimately have "ok = False" "fs1 = fs" using round by (simp_all add: ReadAt_round_def)
    then show ?thesis using advances_refl [OF inv] by simp
  next
    case far: False
    then have le: "BytesPerCluster dev fs \<le> offset" by simp
    have "fs1 = fs" "offset1 = offset - BytesPerCluster dev fs" "sz1 = sz" "ret1 = ret" "out1 = out"
      using round far by (auto simp: ReadAt_round_def)
    moreover have "w = []" using le len by (simp add: w_def word_le_nat_alt)
    moreover have "unat (offset - BytesPerCluster dev fs) = unat offset - unat (BytesPerCluster dev fs)"
      using le by (rule unat_sub)
    ultimately show ?thesis using advances_refl [OF inv] len by simp
  qed
qed

lemma ReadAt_loop_any:
  assumes "ReadAt_loop dev' fs c offset sz ret out = Some y"
  shows "dev' = dev \<longrightarrow> fatfs_inv dev valid content fs \<longrightarrow> (\<forall>r out' fs'. y = (r, out', fs') \<longrightarrow> advances fs fs' \<and>
    (r = -1 \<or> (\<exists>w. out' = out @ w \<and> r = ret + of_nat (length w) \<and>
       chain_reads (content (blk fs)) (unat (SectorSize_op dev (blk fs))) (super fs) c (unat offset) (unat sz) w)))"
proof (rule ReadAt_loop.raw_induct [OF _ assms], goal_cases)
  case (1 loop dev' fs c offset sz ret out y)
  show ?case
  proof (intro impI allI)
    fix r out' fs' assume dev: "dev' = dev" and inv: "fatfs_inv dev valid content fs" and y: "y = (r, out', fs')"
    let ?sec = "content (blk fs)" and ?ss = "unat (SectorSize_op dev (blk fs))" and ?s = "super fs"
    let ?reads = "\<lambda>c off n. chain_reads ?sec ?ss ?s c off n"
    show "advances fs fs' \<and> (r = -1 \<or> (\<exists>w. out' = out @ w \<and> r = ret + of_nat (length w) \<and> ?reads c (unat offset) (unat sz) w))"
    proof (cases "0 < sz \<and> c < 0x0FFFFFF0")
      case False
      then have "?reads c (unat offset) (unat sz) []"
        by (cases "sz = 0") (auto simp: word_neq_0_conv not_less intro: chain_reads.intros)
      moreover have "r = ret" "out' = out" "fs' = fs" using 1(2) False y by auto
      ultimately show ?thesis using advances_refl [OF inv] by auto
    next
      case True
      obtain ok fs1 offset1 sz1 ret1 out1 where
        round: "ReadAt_round dev fs c offset sz ret out = (ok, fs1, offset1, sz1, ret1, out1)" by (metis prod_cases6)
      let ?d = "cluster_bytes ?sec ?s c"
      define w where "w = take (unat sz) (drop (unat offset) ?d)"
      note R = ReadAt_round_any [OF inv _ round, folded w_def]
      have adv1: "advances fs fs1" using R True by blast
      note inv1 = advances_facts(4) [OF adv1]
      consider "\<not> ok" | "ok" "sz1 = 0" | "ok" "0 < sz1" by (cases ok; cases "sz1 = 0") (auto simp: word_neq_0_conv)
      then show ?thesis
      proof cases
        case a: 1
        then have "r = -1" "fs' = fs1" using 1(2) True y round dev by auto
        then show ?thesis using adv1 by simp
      next
        case a: 2
        then have l: "loop dev fs1 c offset1 sz1 ret1 out1 = Some y" using 1(2) True round dev by simp
        have facts: "out1 = out @ w" "ret1 = ret + of_nat (length w)" "unat sz1 = unat sz - length w" using R True a by auto
        have "length w = unat sz" using facts(3) a(2) by (simp add: w_def)
        then have "?reads c (unat offset) (unat sz) w" using True by (intro reads_last) (simp_all add: w_def)
        moreover have rec: "advances fs1 fs' \<and> (r = -1 \<or> (\<exists>w'. out' = out1 @ w' \<and> r = ret1 + of_nat (length w') \<and>
            chain_reads (content (blk fs1)) (unat (SectorSize_op dev (blk fs1))) (super fs1) c (unat offset1) (unat sz1) w'))"
          using 1(1) [OF l] inv1 y by blast
        have "w' = []" if "chain_reads A B C c x (unat sz1) w'" for A B C x w'
          using chain_reads_length [OF that] a(2) by simp
        then have "r = -1 \<or> out' = out1 \<and> r = ret1" using rec by fastforce
        ultimately show ?thesis using facts(1,2) rec advances_trans [OF adv1] by blast
      next
        case a: 3
        obtain nx fs2 where read: "ReadFatIndex dev fs1 c = (nx, fs2)" by fastforce
        note N = ReadFatIndex_any [OF inv1 read, unfolded advances_facts(1-3) [OF adv1]]
        have adv2: "advances fs fs2" using N True advances_trans [OF adv1] by blast
        show ?thesis
        proof (cases nx)
          case None
          then have "r = -1" "fs' = fs2" using 1(2) True y round dev a read by auto
          then show ?thesis using adv2 by simp
        next
          case (Some n)
          then have l: "loop dev fs2 n offset1 sz1 ret1 out1 = Some y" using 1(2) True round dev a read by simp
          have facts: "out1 = out @ w" "ret1 = ret + of_nat (length w)" "unat sz1 = unat sz - length w"
            "unat offset1 = unat offset - length ?d" using R True a by auto
          have n: "n = fat_entry ?sec ?ss ?s c" "4 * unat c < ?ss * unat (FatSuper_SectorsPerFat ?s)" using N Some True by auto
          have rec: "advances fs2 fs' \<and> (r = -1 \<or> (\<exists>w'. out' = out1 @ w' \<and> r = ret1 + of_nat (length w') \<and>
              ?reads n (unat offset1) (unat sz1) w'))"
            using 1(1) [OF l] advances_facts(4) [OF adv2] y unfolding advances_facts(1-3) [OF adv2] by blast
          have "?reads c (unat offset) (unat sz) (w @ w')" if "?reads n (unat offset1) (unat sz1) w'" for w'
            using that True n unfolding facts by (intro reads_on) (simp_all add: w_def)
          moreover have "advances fs fs'" using advances_trans [OF adv2] rec by blast
          ultimately show ?thesis using rec facts(1,2) by (fastforce simp: add.assoc)
        qed
      qed
    qed
  qed
qed

lemma ReadAt_any:
  assumes inv: "fatfs_inv dev valid content fs" and read: "ReadAt dev fs f offset sz = Some (r, out, fs')"
  shows "advances fs fs' \<and> (r = -1 \<or> r = of_nat (length out) \<and>
    file_reads (content (blk fs)) (unat (SectorSize_op dev (blk fs))) (super fs) f (unat offset) (unat sz) out)"
proof -
  consider "ff_size f = 0" | "ff_size f \<noteq> 0" "ff_size f \<le> offset" | "ff_size f \<noteq> 0" "offset < ff_size f" by fastforce
  then show ?thesis
  proof cases
    case 1
    then show ?thesis using read ReadAt_loop_any [of dev fs "ff_cluster f" offset sz 0 "[]"] inv
      by (fastforce simp: ReadAt_def file_reads_def)
  next
    case 2
    then have "r = 0" "out = []" "fs' = fs" using read by (auto simp: ReadAt_def word_neq_0_conv)
    then show ?thesis using 2 advances_refl [OF inv] by (simp add: file_reads_def word_le_nat_alt)
  next
    case 3
    have "\<not> ff_size f \<le> offset" using 3(2) by simp
    define sz1 where "sz1 = (if sz > ff_size f - offset then ff_size f - offset else sz)"
    have "unat (ff_size f - offset) = unat (ff_size f) - unat offset" using 3 by (simp add: unat_sub)
    then have sz1: "unat sz1 = min (unat sz) (unat (ff_size f) - unat offset)"
      by (auto simp: sz1_def word_less_nat_alt min_def)
    have "ReadAt_loop dev fs (ff_cluster f) offset sz1 0 [] = Some (r, out, fs')"
      using 3(1) read \<open>\<not> ff_size f \<le> offset\<close> by (simp add: ReadAt_def sz1_def word_neq_0_conv Let_def)
    from ReadAt_loop_any [OF this] inv show ?thesis using 3 sz1 by (auto simp: file_reads_def word_le_nat_alt word_less_nat_alt)
  qed
qed

subsection \<open>Looking up a path\<close>

lemma scan_hit:
  assumes "FindInDirectory_scan junk name w i n = Some (Some e)" "32 * (i + n) \<le> length w" "length junk = 13"
  shows "e \<in> set (dir_entries w) \<and> goes_by_name name e"
  using assms(1,2)
proof (induction n arbitrary: i)
  case (Suc n)
  let ?e = "entS w i"
  have "i < length w div 32" using Suc.prems(2) by simp
  then have mem: "?e \<in> set (dir_entries w)" by (auto simp: dir_entries_def)
  have wf: "FatDirent_wf ?e" using Suc.prems(2) by (intro entS_wf) simp
  have rec: "FindInDirectory_scan junk name w (Suc i) n = Some (Some e) \<Longrightarrow> ?thesis" using Suc.IH [of "Suc i"] Suc.prems(2) by simp
  have "goes_by_name name ?e" if "\<not> FatDirent_IsLastInList ?e" "\<not> skipped ?e" "StrEqual (entry_name junk ?e) name"
    using that StrEqual_entry_name [OF wf assms(3)] by (auto simp: goes_by_name_def)
  then show ?case using Suc.prems(1) mem rec by (auto simp: Let_def skipped_def split: if_splits)
qed simp

lemma FindInDirectory_loop_any:
  assumes "FindInDirectory_loop dev' junk fs name c out = Some y"
  shows "dev' = dev \<longrightarrow> fatfs_inv dev valid content fs \<longrightarrow> length junk = 13 \<longrightarrow> (\<forall>r f fs'. y = (r, f, fs') \<longrightarrow> advances fs fs' \<and>
    (r = Ok \<longrightarrow> (\<exists>e. f = file_of_entry e \<and> goes_by_name name e \<and>
       holds_entry (content (blk fs)) (unat (SectorSize_op dev (blk fs))) (super fs) c e)))"
proof (rule FindInDirectory_loop.raw_induct [OF _ assms], goal_cases)
  case (1 loop dev' junk fs name c out y)
  show ?case
  proof (intro impI allI)
    fix r f fs' assume dev: "dev' = dev" and inv: "fatfs_inv dev valid content fs" and junk: "length junk = 13" and y: "y = (r, f, fs')"
    let ?sec = "content (blk fs)" and ?ss = "unat (SectorSize_op dev (blk fs))" and ?s = "super fs"
    let ?goal = "advances fs fs' \<and> (r = Ok \<longrightarrow> (\<exists>e. f = file_of_entry e \<and> goes_by_name name e \<and> holds_entry ?sec ?ss ?s c e))"
    show ?goal
    proof (cases "c < 0x0FFFFFF0")
      case False
      then have "r = NoEntry" "fs' = fs" using 1(2) y by auto
      then show ?thesis using advances_refl [OF inv] by simp
    next
      case c: True
      obtain ok fs1 where load: "LoadDataCluster dev fs c = (ok, fs1)" by fastforce
      note L = LoadDataCluster_any [OF inv load c]
      then have adv1: "advances fs fs1" by blast
      obtain nx fs2 where read: "ReadFatIndex dev fs1 c = (nx, fs2)" by fastforce
      note N = ReadFatIndex_any [OF advances_facts(4) [OF adv1] read c, unfolded advances_facts(1-3) [OF adv1]]
      have adv2: "advances fs fs2" using N advances_trans [OF adv1] by blast
      show ?thesis
      proof (cases "ok \<and> nx \<noteq> None")
        case False
        then have "r = IOError \<and> fs' = (if ok then fs2 else fs1)"
          using 1(2) y c load read dev by (auto split: if_splits)
        then show ?thesis using adv1 adv2 by auto
      next
        case True
        then obtain n where n: "nx = Some n" "ok" by blast
        have facts: "2 \<le> c" "dataWindow fs2 = cluster_bytes ?sec ?s c" "n = fat_entry ?sec ?ss ?s c"
          "4 * unat c < ?ss * unat (FatSuper_SectorsPerFat ?s)" using L N n by auto
        have "length (dataWindow fs2) = unat (BytesPerCluster dev fs2)"
          using advances_facts(4) [OF adv2] by (simp add: fatfs_inv_def BytesPerCluster_unat)
        then have size: "32 * (0 + unat (BytesPerCluster dev fs2) div 32) \<le> length (dataWindow fs2)" by simp
        show ?thesis
        proof (cases "FindInDirectory_scan junk name (dataWindow fs2) 0 (unat (BytesPerCluster dev fs2) div 32)")
          case None
          then have l: "loop dev junk fs2 name n out = Some y" using 1(2) c load read n dev by simp
          have rec: "advances fs2 fs' \<and> (r = Ok \<longrightarrow> (\<exists>e. f = file_of_entry e \<and> goes_by_name name e \<and> holds_entry ?sec ?ss ?s n e))"
            using 1(1) [OF l] advances_facts(4) [OF adv2] junk y unfolding advances_facts(1-3) [OF adv2] by blast
          moreover have "holds_entry ?sec ?ss ?s c e" if "holds_entry ?sec ?ss ?s n e" for e
            using entry_on [OF facts(1) c facts(4)] that facts(3) by simp
          ultimately show ?thesis using advances_trans [OF adv2] by blast
        next
          case (Some hit)
          then have res: "y = (case hit of None \<Rightarrow> (NoEntry, out, fs2) | Some e \<Rightarrow> (Ok, file_of_entry e, fs2))"
            using 1(2) c n(2) unfolding dev load prod.case read n(1)
            by (cases hit) (simp_all only: if_True not_True_eq_False if_False option.case prod.case option.inject simp_thms)
          show ?thesis
          proof (cases hit)
            case None
            then show ?thesis using res y adv2 by simp
          next
            case (Some e)
            have "e \<in> set (dir_entries (dataWindow fs2)) \<and> goes_by_name name e"
              using scan_hit [OF _ size junk] \<open>_ = Some hit\<close> Some by simp
            then have "goes_by_name name e \<and> holds_entry ?sec ?ss ?s c e"
              using facts(1,2) c by (auto intro: entry_here)
            then show ?thesis using res y adv2 Some by auto
          qed
        qed
      qed
    qed
  qed
qed

lemma FindInDirectory_any:
  assumes "fatfs_inv dev valid content fs" "length junk = 13" "FindInDirectory dev junk fs dir name out = Some (r, f, fs')"
  shows "advances fs fs' \<and> (r = Ok \<longrightarrow> IsShortName name \<and> FlagField_IsSet (ff_flags dir) Flags_Directory \<and>
    (\<exists>e. f = file_of_entry e \<and> goes_by_name name e \<and>
       holds_entry (content (blk fs)) (unat (SectorSize_op dev (blk fs))) (super fs) (ff_cluster dir) e))"
  using assms advances_refl [OF assms(1)] FindInDirectory_loop_any [of dev junk fs name "ff_cluster dir" out "(r, f, fs')"]
  by (auto simp: FindInDirectory_def split: if_splits)

lemma FindByPath_loop_any:
  assumes "fatfs_inv dev valid content fs" "length junk = 13" "FindByPath_loop dev junk fs name dir = Some (r, f, fs')"
  shows "advances fs fs' \<and> (r = Ok \<longrightarrow>
    leads (content (blk fs)) (unat (SectorSize_op dev (blk fs))) (super fs) dir (path_components name) f)"
  using assms(1,3)
proof (induction name arbitrary: fs dir rule: path_components.induct)
  case (1 name)
  note inv = "1.prems"(1) and run = "1.prems"(2) and ih_sep = "1.IH"(1) and ih_rest = "1.IH"(2)
  consider "name = [] \<or> hd name = 0" | "name \<noteq> []" "hd name \<noteq> 0" "is_sep (hd name)"
    | "name \<noteq> []" "hd name \<noteq> 0" "\<not> is_sep (hd name)" by blast
  then show ?case
  proof cases
    case a: 1
    then have "path_components name = []" by (subst path_components.simps) auto
    moreover have "r = Ok" "f = dir" "fs' = fs" using run a by (auto simp: FindByPath_loop.simps)
    ultimately show ?thesis using advances_refl [OF inv] by (simp add: leads_done)
  next
    case a: 2
    then have "path_components name = path_components (dropWhile is_sep name)" by (subst path_components.simps) auto
    moreover have "FindByPath_loop dev junk fs (dropWhile is_sep name) dir = Some (r, f, fs')"
      using run a by (simp add: FindByPath_loop.simps [of dev junk fs name])
    ultimately show ?thesis using ih_sep [OF _ a(3) inv] a(1,2) by simp
  next
    case a: 3
    let ?n = "takeWhile name_char name" and ?rest = "dropWhile name_char name"
    have comps: "path_components name = ?n # path_components ?rest"
      using a by (subst path_components.simps) auto
    have unfold: "FindByPath_loop dev junk fs name dir =
      (if 12 < length ?n then Some (NameInvalid, dir, fs)
       else (case FindInDirectory dev junk fs dir ?n dir of None \<Rightarrow> None
             | Some (ret, out1, fs1) \<Rightarrow> if ret \<noteq> Ok then Some (ret, out1, fs1)
                 else FindByPath_loop dev junk fs1 ?rest out1))"
      using a by (simp add: FindByPath_loop.simps [of dev junk fs name] path_component_eq)
    show ?thesis
    proof (cases "12 < length ?n")
      case True
      then show ?thesis using run advances_refl [OF inv] by (auto simp: unfold)
    next
      case False
      obtain ret g fs1 where find: "FindInDirectory dev junk fs dir ?n dir = Some (ret, g, fs1)"
        using run False by (auto simp: unfold split: option.splits)
      note F = FindInDirectory_any [OF inv assms(2) find]
      then have adv: "advances fs fs1" by blast
      show ?thesis
      proof (cases "ret = Ok")
        case False
        then show ?thesis using run find adv \<open>\<not> 12 < length ?n\<close> by (auto simp: unfold)
      next
        case True
        then have "FindByPath_loop dev junk fs1 ?rest g = Some (r, f, fs')"
          using run find \<open>\<not> 12 < length ?n\<close> by (simp add: unfold)
        note rec = ih_rest [OF _ a(3) advances_facts(4) [OF adv] this, unfolded advances_facts(1-3) [OF adv]]
        have "leads (content (blk fs)) (unat (SectorSize_op dev (blk fs))) (super fs) dir (?n # path_components ?rest) f"
          if "leads (content (blk fs)) (unat (SectorSize_op dev (blk fs))) (super fs) g (path_components ?rest) f"
          using that F True by (auto intro: leads_into)
        then show ?thesis using rec a(1,2) advances_trans [OF adv] unfolding comps by blast
      qed
    qed
  qed
qed

end

subsection \<open>The disk of the loader\<close>

text \<open>Devices of one geometry: a load does not change it.\<close>

definition bios_fixed :: "DriveGeometry \<Rightarrow> BIOSBlockDevice \<Rightarrow> bool" where
  "bios_fixed g d \<longleftrightarrow> bios_reliable d \<and> bb_geometry d = g"

interpretation fixed_bios: reliable_device BIOS_ops "bios_fixed g" bios_content for g
proof
  fix d i buf ok buf' d'
  assume d: "bios_fixed g d" and load: "LoadSector_op BIOS_ops d i buf = (ok, buf', d')"
  have "bb_geometry d' = bb_geometry d"
    using load by (auto simp: BIOS_ops_def BIOSBlockDevice_LoadSector_def Let_def split: prod.splits)
  with reliable_bios.load_step [OF _ load] d
  show "bios_fixed g d' \<and> bios_content d' = bios_content d \<and>
      SectorSize_op BIOS_ops d' = SectorSize_op BIOS_ops d \<and> length buf' = length buf"
    by (auto simp: bios_fixed_def)
qed (use reliable_bios.load_ok reliable_bios.size_ok reliable_bios.content_length reliable_bios.load_works
     in \<open>auto simp: bios_fixed_def\<close>)

lemma fatfs_inv_fixed:
  "fatfs_inv BIOS_ops (bios_fixed g) bios_content fs \<longleftrightarrow>
   fatfs_inv BIOS_ops bios_reliable bios_content fs \<and> bb_geometry (blk fs) = g"
  by (auto simp: fatfs_inv_def bios_fixed_def)

text \<open>The disk a driver works on, with what is on it and how it is read.\<close>

definition driver_on :: "(u32 \<Rightarrow> bytes) \<Rightarrow> FatSuper \<Rightarrow> DriveGeometry \<Rightarrow> BIOSBlockDevice FatFs \<Rightarrow> bool" where
  "driver_on sec s g fs \<longleftrightarrow> fatfs_inv BIOS_ops (bios_fixed g) bios_content fs \<and> bios_content (blk fs) = sec \<and> super fs = s"

lemma driver_on_advances: "driver_on sec s g fs \<Longrightarrow> fixed_bios.advances g fs fs' \<Longrightarrow> driver_on sec s g fs'"
  unfolding driver_on_def using fixed_bios.advances_facts by metis

lemma ReadAt_driver:
  assumes "driver_on sec s g fs" "ReadAt BIOS_ops fs f offset sz = Some (r, out, fs')"
  shows "driver_on sec s g fs' \<and> (r = -1 \<or> r = of_nat (length out) \<and> file_reads sec 512 s f (unat offset) (unat sz) out)"
proof -
  have d: "fatfs_inv BIOS_ops (bios_fixed g) bios_content fs" "bios_content (blk fs) = sec" "super fs = s"
    using assms(1) by (simp_all add: driver_on_def)
  show ?thesis
    using fixed_bios.ReadAt_any [OF d(1) assms(2)] driver_on_advances [OF assms(1)] unfolding d(2,3) BIOS_sector_size by blast
qed

lemma FindByPath_driver:
  assumes "driver_on sec s g fs" "length junk = 13" "FindByPath BIOS_ops junk fs name = Some (r, f, fs')"
  shows "driver_on sec s g fs' \<and> (r = Ok \<longrightarrow> leads sec 512 s (RootDir fs) (path_components name) f)"
proof -
  have d: "fatfs_inv BIOS_ops (bios_fixed g) bios_content fs" "bios_content (blk fs) = sec" "super fs = s"
    using assms(1) by (simp_all add: driver_on_def)
  show ?thesis
    using fixed_bios.FindByPath_loop_any [OF d(1) assms(2) assms(3) [unfolded FindByPath_def]] driver_on_advances [OF assms(1)]
    unfolding d(2,3) BIOS_sector_size by blast
qed

end
