(* ===== verification/Stage2_Boot.thy ===== *)
theory Stage2_Boot
  imports Stage2_Loader Fat_Sound
begin

text \<open>
  What the loader has checked when it enters a kernel: an invariant of its globals and its driver, kept
  by every command of the script.
\<close>

subsection \<open>The loaded kernel\<close>

definition root_file :: "FatSuper \<Rightarrow> FatFile" where
  "root_file s = \<lparr>ff_cluster = FatSuper_RootDirIndex s, ff_size = 0,
     ff_flags = FlagField_Set (FlagField_ClearAll (0 :: u8)) Flags_Directory\<rparr>"

text \<open>
  A header that passed all checks, in the file behind a path: the first bytes of the 32 are the bytes of
  the file at its offset, all of them unless the file ends there.
\<close>

definition kernel_on :: "(u32 \<Rightarrow> bytes) \<Rightarrow> FatSuper \<Rightarrow> bytes \<Rightarrow> u32 \<Rightarrow> bool" where
  "kernel_on sec s path entry \<longleftrightarrow> (\<exists>f fileOffset w hdr out. leads sec 512 s (root_file s) (path_components path) f \<and>
     file_reads sec 512 s f (unat fileOffset) 32 w \<and> w \<noteq> [] \<and> length hdr = 32 \<and> take (length w) hdr = w \<and>
     MultiBootHeader_IsValid (MultiBootHeader_of_bytes hdr) \<and>
     \<not> FlagField_IsSet (MultiBootHeader_Flags (MultiBootHeader_of_bytes hdr)) KernelFlags_WantVidmode \<and>
     FlagField_IsSet (MultiBootHeader_Flags (MultiBootHeader_of_bytes hdr)) KernelFlags_HaveLayoutInfo \<and>
     ExtractMemLayout (MultiBootHeader_of_bytes hdr) fileOffset (ff_size f) (0, 0, 0) = (True, out) \<and>
     entry = MultiBootHeader_EntryPoint (MultiBootHeader_of_bytes hdr))"

text \<open>The paths that the lines of a script give to \<^verbatim>\<open>multiboot\<close>.\<close>

inductive script_boots :: "bytes \<Rightarrow> bytes \<Rightarrow> bool" where
  boots_here: "\<lbrakk>ptr \<noteq> []; hd ptr \<noteq> 0; (line, rest) = script_line ptr; script_command line = Some (cmd, path);
    StrEqual (text_bytes ''multiboot'') cmd\<rbrakk> \<Longrightarrow> script_boots ptr path"
| boots_later: "\<lbrakk>ptr \<noteq> []; hd ptr \<noteq> 0; (line, rest) = script_line ptr; script_boots rest path\<rbrakk> \<Longrightarrow> script_boots ptr path"

text \<open>A predicate on the two globals with a driver on the disk, and computations that keep both.\<close>

definition globals :: "(u32 \<Rightarrow> bytes) \<Rightarrow> FatSuper \<Rightarrow> DriveGeometry \<Rightarrow> (bool \<Rightarrow> u32 \<Rightarrow> bool) \<Rightarrow> 'h Loader \<Rightarrow> bool" where
  "globals sec s g J st \<longleftrightarrow> J (ld_haveKernel st) (ld_kernelEntry st) \<and> (\<exists>fs. ld_fs st = Some fs \<and> driver_on sec s g fs)"

definition keeps :: "('h Loader, 'a) io \<Rightarrow> bool" where
  "keeps m \<longleftrightarrow> (\<forall>sec s g J. io_valid (globals sec s g J) m (\<lambda>_. globals sec s g J))"

named_theorems keeps_intros \<open>computations that keep the globals of the kernel and the driver\<close>

lemma keepsI:
  assumes "\<And>st a st'. m st = Some (Inr a, st') \<Longrightarrow>
    ld_haveKernel st' = ld_haveKernel st \<and> ld_kernelEntry st' = ld_kernelEntry st \<and> ld_fs st' = ld_fs st"
  shows "keeps m"
  unfolding keeps_def io_valid_def
proof (intro allI impI)
  fix sec s g J st a st' assume "globals sec s g J st" "m st = Some (Inr a, st')"
  then show "globals sec s g J st'" using assms [of st a st'] by (simp add: globals_def)
qed

lemma keeps_bind [keeps_intros]: "keeps m \<Longrightarrow> (\<And>a. keeps (f a)) \<Longrightarrow> keeps (io_bind m f)"
  unfolding keeps_def by (blast intro: io_valid_seq)

lemma keeps_basic [keeps_intros]: "keeps (io_return a)" "keeps (io_get g)" "keeps (io_throw e)"
  by (auto intro!: keepsI simp: io_simps)

lemma keeps_heap [keeps_intros]: "keeps (ld_malloc n)" "keeps (ld_free p)" "keeps (ld_update_mem f)"
  by (auto intro!: keepsI simp: ld_malloc_def ld_free_def ld_update_mem_def io_simps bind_eq_Some_conv)

lemma ld_ReadAt_reads:
  "io_valid (globals sec s g J) (ld_ReadAt finfo off n)
     (\<lambda>(ret, out) st. globals sec s g J st \<and> (ret = -1 \<or> ret = of_nat (length out) \<and> file_reads sec 512 s finfo (unat off) (unat n) out))"
  unfolding io_valid_def
proof (intro allI impI)
  fix st r st' assume "globals sec s g J st" and run: "ld_ReadAt finfo off n st = Some (Inr r, st')"
  then obtain fs where fs: "ld_fs st = Some fs" "driver_on sec s g fs" "J (ld_haveKernel st) (ld_kernelEntry st)"
    by (auto simp: globals_def)
  obtain ret out fs' where read: "ReadAt BIOS_ops fs finfo off n = Some (ret, out, fs')" "r = (ret, out)" "st' = st\<lparr>ld_fs := Some fs'\<rparr>"
    using run fs(1) by (auto simp: ld_ReadAt_def bind_eq_Some_conv)
  from ReadAt_driver [OF fs(2) read(1)] fs(3) show "(case r of (ret, out) \<Rightarrow> \<lambda>st. globals sec s g J st \<and>
      (ret = -1 \<or> ret = of_nat (length out) \<and> file_reads sec 512 s finfo (unat off) (unat n) out)) st'"
    by (simp add: read globals_def)
qed

lemma ld_FindByPath_finds:
  assumes "length (bd_nameBuffer B) = 13"
  shows "io_valid (globals sec s g J) (ld_FindByPath B name)
     (\<lambda>(ret, f) st. globals sec s g J st \<and> (ret = Ok \<longrightarrow> leads sec 512 s (root_file s) (path_components name) f))"
  unfolding io_valid_def
proof (intro allI impI)
  fix st r st' assume "globals sec s g J st" and run: "ld_FindByPath B name st = Some (Inr r, st')"
  then obtain fs where fs: "ld_fs st = Some fs" "driver_on sec s g fs" "J (ld_haveKernel st) (ld_kernelEntry st)"
    by (auto simp: globals_def)
  obtain ret f fs' where find: "FindByPath BIOS_ops (bd_nameBuffer B) fs name = Some (ret, f, fs')" "r = (ret, f)" "st' = st\<lparr>ld_fs := Some fs'\<rparr>"
    using run fs(1) by (auto simp: ld_FindByPath_def bind_eq_Some_conv)
  have "RootDir fs = root_file s" using fs(2) by (simp add: RootDir_def root_file_def driver_on_def)
  with FindByPath_driver [OF fs(2) assms find(1)] fs(3)
  show "(case r of (ret, f) \<Rightarrow> \<lambda>st. globals sec s g J st \<and> (ret = Ok \<longrightarrow> leads sec 512 s (root_file s) (path_components name) f)) st'"
    by (simp add: find globals_def)
qed

lemma keeps_fs [keeps_intros]:
  "keeps (ld_ReadAt finfo off n)" "length (bd_nameBuffer B) = 13 \<Longrightarrow> keeps (ld_FindByPath B name)"
proof -
  show "keeps (ld_ReadAt finfo off n)" unfolding keeps_def
    by (intro allI io_valid_weaken [OF ld_ReadAt_reads]) auto
  assume "length (bd_nameBuffer B) = 13"
  then show "keeps (ld_FindByPath B name)" unfolding keeps_def
    by (intro allI io_valid_weaken [OF ld_FindByPath_finds]) auto
qed

lemma keeps_put [keeps_intros]: "keeps (ld_put cs)" "keeps (ld_print str)" "keeps (ld_message msg)" "keeps ld_newline"
  by (auto intro!: keepsI simp: ld_print_def ld_message_def ld_newline_def ld_put_def io_simps)

lemma keeps_numbers [keeps_intros]: "keeps (ld_decimal x)" "keeps (ld_hex y)"
  by (auto simp: ld_decimal_def ld_hex_def intro: keeps_intros split: option.splits)

lemma keeps_seq [keeps_intros]: "(\<And>m. m \<in> set ms \<Longrightarrow> keeps m) \<Longrightarrow> keeps (ld_seq ms)"
  by (induction ms) (auto simp: ld_seq_def intro: keeps_intros)

lemma keeps_seq_map [keeps_intros]: "(\<And>x. keeps (f x)) \<Longrightarrow> keeps (ld_seq (map f xs))"
  by (rule keeps_seq) auto

lemma keeps_ReadAt_to [keeps_intros]: "keeps (ld_ReadAt_to finfo p off n)"
  unfolding ld_ReadAt_to_def by (auto intro!: keeps_intros)

lemma keeps_chs [keeps_intros]: "keeps (ld_chs c)" "keeps (ld_geometry g)"
  unfolding ld_chs_def ld_geometry_def by (rule keeps_seq; auto intro: keeps_intros)+

subsection \<open>The header that is found\<close>

text \<open>A valid header that starts with what the file has at the offset.\<close>

definition found_in :: "(u32 \<Rightarrow> bytes) \<Rightarrow> FatSuper \<Rightarrow> FatFile \<Rightarrow> bool \<Rightarrow> u32 \<Rightarrow> bytes \<Rightarrow> bool" where
  "found_in sec s f found off hdr \<longleftrightarrow> (found \<longrightarrow> MultiBootHeader_IsValid (MultiBootHeader_of_bytes hdr) \<and> length hdr = 32 \<and>
     (\<exists>w. file_reads sec 512 s f (unat off) 32 w \<and> w \<noteq> [] \<and> take (length w) hdr = w))"

definition scan_in :: "(u32 \<Rightarrow> bytes) \<Rightarrow> FatSuper \<Rightarrow> FatFile \<Rightarrow> scan_result \<Rightarrow> bool" where
  "scan_in sec s f r \<longleftrightarrow> (case r of Scan_found off hdr \<Rightarrow> found_in sec s f True off hdr
     | Scan_next n hdr \<Rightarrow> length hdr = 32 | Scan_fail hdr \<Rightarrow> True)"

lemma scan_in_simps [simp]: "scan_in sec s f (Scan_fail h)" "scan_in sec s f (Scan_next n h) = (length h = 32)"
  "scan_in sec s f (Scan_found x h) = found_in sec s f True x h" "found_in sec s f False x h"
  by (simp_all add: scan_in_def found_in_def)

lemma io_valid_keeps: "keeps m \<Longrightarrow> io_valid (globals sec s g J) m (\<lambda>_. globals sec s g J)"
  by (simp add: keeps_def)

lemma file_reads_length: "file_reads sec ss s f off n w \<Longrightarrow> length w \<le> n"
  using chain_reads_length by (fastforce simp: file_reads_def split: if_splits)

lemma io_valid_pre: "(\<And>st. Pre st \<Longrightarrow> Q) \<Longrightarrow> (Q \<Longrightarrow> io_valid Pre m Post) \<Longrightarrow> io_valid Pre m Post"
  unfolding io_valid_def by blast

lemma io_valid_stronger: "io_valid Pre m Post \<Longrightarrow> (\<And>st. Pre' st \<Longrightarrow> Pre st) \<Longrightarrow> io_valid Pre' m Post"
  unfolding io_valid_def by blast

lemma scan_valid:
  "length hdr = 32 \<Longrightarrow> io_valid (globals sec s g J :: 'h Loader \<Rightarrow> bool) (MBFindHeader_scan finfo p off i ret hdr)
     (\<lambda>r st. globals sec s g J st \<and> scan_in sec s finfo r)"
proof (induction "nat (2 ^ 31 - i)" arbitrary: i ret hdr rule: less_induct)
  case less
  let ?G = "globals sec s g J :: 'h Loader \<Rightarrow> bool"
  show ?case
  proof (cases "i < sdiv4 ret")
    case False
    then show ?thesis
      by (subst MBFindHeader_scan.simps) (auto intro!: io_valid_simple simp: less.prems)
  next
    case True
    have "nat (2 ^ 31 - (i + 1)) < nat (2 ^ 31 - i)" using True sdiv4_less [of ret] by linarith
    note ih = less.hyps [OF this]
    let ?x = "off + of_int i * 4"
    let ?read = "\<lambda>ret1 out. ret1 = -1 \<or> ret1 = of_nat (length out) \<and> file_reads sec 512 s finfo (unat ?x) 32 out"
    let ?rest = "\<lambda>(ret1, out).
              let hdr1 = overwrite 0 out hdr
              in if sint ret1 \<le> 0 then io_return (Scan_fail hdr1)
                 else if MultiBootHeader_IsValid (MultiBootHeader_of_bytes hdr1) then io_return (Scan_found ?x hdr1)
                 else MBFindHeader_scan finfo p off (i + 1) ret1 hdr1"
    have rest: "io_valid ?G (?rest (ret1, out)) (\<lambda>r st. ?G st \<and> scan_in sec s finfo r)" if r: "?read ret1 out" for ret1 out
    proof (cases "sint ret1 \<le> 0")
      case True
      then show ?thesis by (auto intro!: io_valid_simple)
    next
      case False
      then have w: "file_reads sec 512 s finfo (unat ?x) 32 out" "ret1 = of_nat (length out)" using r by auto
      then have "length out \<le> 32" "out \<noteq> []" using file_reads_length [OF w(1)] False by auto
      then have "length (overwrite 0 out hdr) = 32" "take (length out) (overwrite 0 out hdr) = out"
        using less.prems by (simp_all add: overwrite_def)
      then show ?thesis using False w \<open>out \<noteq> []\<close> by (auto simp: Let_def found_in_def intro!: io_valid_simple ih)
    qed
    have bind: "io_valid ?G (io_bind (ld_ReadAt finfo ?x 32) ?rest) (\<lambda>r st. ?G st \<and> scan_in sec s finfo r)"
    proof (rule io_valid_bind [OF ld_ReadAt_reads])
      fix ro :: "u32 \<times> bytes"
      obtain ret1 out where ro: "ro = (ret1, out)" by (cases ro)
      show "io_valid (case ro of (ret, out) \<Rightarrow> \<lambda>st. ?G st \<and> (ret = -1 \<or> ret = of_nat (length out) \<and>
            file_reads sec 512 s finfo (unat ?x) (unat (32 :: u32)) out)) (?rest ro) (\<lambda>r st. ?G st \<and> scan_in sec s finfo r)"
        unfolding ro prod.case
        by (rule io_valid_pre [where Q = "?read ret1 out"]) (auto intro!: io_valid_stronger [OF rest [unfolded prod.case]])
    qed
    have tail: "io_valid ?G (if load32 m (p + of_int i * 4) \<noteq> MultiBoot_Magic
          then MBFindHeader_scan finfo p off (i + 1) ret hdr else io_bind (ld_ReadAt finfo ?x 32) ?rest)
        (\<lambda>r st. ?G st \<and> scan_in sec s finfo r)" for m
      by (intro io_valid_if(2) ih less.prems bind)
    show ?thesis
      unfolding MBFindHeader_scan.simps [of finfo p off i ret hdr] if_P [OF True]
      by (rule io_valid_seq [OF io_valid_keeps [OF keeps_basic(2)] tail])
  qed
qed

lemma return_valid:
  "found_in sec s f found off hdr \<Longrightarrow> io_valid (globals sec s g J) (io_bind (ld_free p) (\<lambda>_. io_return (found, off, hdr)))
     (\<lambda>(found, off, hdr) st. globals sec s g J st \<and> found_in sec s f found off hdr)"
  by (rule io_valid_seq [OF io_valid_keeps [OF keeps_heap(2)]]) (auto intro!: io_valid_simple)

lemma loop_valid_raw:
  assumes "MBFindHeader_loop finfo p scanSize off hdr (st :: 'h Loader) = Some y"
  shows "length hdr = 32 \<longrightarrow> (\<forall>J a st'. y = (Inr a, st') \<longrightarrow> globals sec s g J st \<longrightarrow>
    globals sec s g J st' \<and> found_in sec s finfo (fst a) (fst (snd a)) (snd (snd a)))"
proof (rule MBFindHeader_loop.raw_induct [OF _ assms], goal_cases)
  case (1 loop finfo p scanSize off hdr st y)
  let ?G = "\<lambda>J. globals sec s g J :: 'h Loader \<Rightarrow> bool"
  let ?Post = "\<lambda>J (a :: bool \<times> u32 \<times> bytes) (st' :: 'h Loader). ?G J st' \<and> found_in sec s finfo (fst a) (fst (snd a)) (snd (snd a))"
  have ih: "io_valid (?G J) (loop finfo p scanSize off hdr) (?Post J)" if "length hdr = 32" for J p scanSize off hdr
    unfolding io_valid_def using 1(1) that by blast
  have ret: "io_valid (?G J) (io_bind (ld_free p) (\<lambda>_. io_return (found, off, hdr))) (?Post J)"
    if "found_in sec s finfo found off hdr" for J found off hdr
    using return_valid [OF that, of g J p] by (rule io_valid_weaken) auto
  have no: "found_in sec s finfo False off hdr" for off hdr by simp
  have sc: "io_valid (\<lambda>st. ?G J st \<and> scan_in sec s finfo r) (\<lambda>st2. case r of
                Scan_fail hdr1 \<Rightarrow> io_bind (ld_free p) (\<lambda>_. io_return (False, off, hdr1)) st2
              | Scan_found offset1 hdr1 \<Rightarrow> io_bind (ld_free p) (\<lambda>_. io_return (True, offset1, hdr1)) st2
              | Scan_next ret1 hdr1 \<Rightarrow> loop finfo p scanSize (off + ret1) hdr1 st2) (?Post J)" for J r
  proof (cases r)
    case (Scan_next r1 h1)
    then show ?thesis using ih [of h1 J p scanSize "off + r1"] by (auto simp: io_valid_def)
  next
    case (Scan_fail h1)
    then show ?thesis using ret [OF no, of J off h1] by (simp add: io_valid_def)
  next
    case (Scan_found o1 h1)
    then show ?thesis using ret [of True o1 h1 J] by (auto simp: io_valid_def)
  qed
  have body: "io_valid (?G J) (\<lambda>st. if off < scanSize then
        io_bind (ld_ReadAt_to finfo p off 1024) (\<lambda>ret st1.
          if sint ret \<le> 0 then io_bind (ld_free p) (\<lambda>_. io_return (False, off, hdr)) st1
          else
            io_bind (MBFindHeader_scan finfo p off 0 ret hdr) (\<lambda>r st2.
              case r of
                Scan_fail hdr1 \<Rightarrow> io_bind (ld_free p) (\<lambda>_. io_return (False, off, hdr1)) st2
              | Scan_found offset1 hdr1 \<Rightarrow> io_bind (ld_free p) (\<lambda>_. io_return (True, offset1, hdr1)) st2
              | Scan_next ret1 hdr1 \<Rightarrow> loop finfo p scanSize (off + ret1) hdr1 st2) st1) st
      else io_bind (ld_free p) (\<lambda>_. io_return (False, off, hdr)) st) (?Post J)" if "length hdr = 32" for J
    by (intro io_valid_if io_valid_seq [OF io_valid_keeps [OF keeps_ReadAt_to]] ret no
        io_valid_bind [OF scan_valid [OF that] sc])
  show ?case
  proof (intro allI impI)
    fix J a st' assume "length hdr = 32" and y: "y = (Inr a, st')" and G: "?G J st"
    show "?Post J a st'" using io_validD [OF body [OF \<open>length hdr = 32\<close>] G] 1(2) y by blast
  qed
qed

lemma MBFindHeader_valid:
  assumes "length hdr = 32"
  shows "io_valid (globals sec s g J) (MBFindHeader finfo hdr)
     (\<lambda>(found, off, hdr) st. globals sec s g J st \<and> found_in sec s finfo found off hdr)"
proof -
  let ?Post = "\<lambda>(found, off :: u32, hdr) st. globals sec s g J st \<and> found_in sec s finfo found off hdr"
  have loop: "io_valid (globals sec s g J) (MBFindHeader_loop finfo p n 0 hdr) ?Post" for p n
    unfolding io_valid_def using loop_valid_raw assms by fastforce
  have err: "io_valid (globals sec s g J) (io_bind (ld_seq [ld_message ''out of memory'', ld_newline])
      (\<lambda>_. io_return (False, 0, hdr))) ?Post"
    by (rule io_valid_seq [OF io_valid_keeps]) (auto intro!: keeps_intros io_valid_simple)
  show ?thesis unfolding MBFindHeader_def Let_def
    by (intro io_valid_seq [OF io_valid_keeps [OF keeps_heap(1)]] io_valid_if err loop)
qed

subsection \<open>Commands\<close>

lemma keeps_load_loop:
  assumes "MBLoadKernel_loop finfo p bound off base st = Some y"
  shows "\<forall>J a st'. y = (Inr a, st') \<longrightarrow> globals sec s g J st \<longrightarrow> globals sec s g J st'"
proof (rule MBLoadKernel_loop.raw_induct [OF _ assms], goal_cases)
  case (1 loop finfo p bound off base st y)
  have ih: "io_valid (globals sec s g J) (loop finfo p bound off base) (\<lambda>_. globals sec s g J)" for J finfo p bound off base
    unfolding io_valid_def using 1(1) by blast
  have body: "io_valid (globals sec s g J) (\<lambda>st. if off < bound then
        io_bind (ld_ReadAt_to finfo p off 1024) (\<lambda>ret st1.
          if ret = 0 then Some (Inr (Some base), st1)
          else if sint ret < 0 then Some (Inr None, st1)
          else
            io_bind (ld_update_mem (\<lambda>m. CopyMemory32 m base p ret)) (\<lambda>_ st2.
              loop finfo p bound (off + ret) (base + ret) st2) st1) st
      else Some (Inr (Some base), st)) (\<lambda>_. globals sec s g J)" for J
    by (intro io_valid_if io_valid_seq [OF io_valid_keeps [OF keeps_ReadAt_to]]
        io_valid_seq [OF io_valid_keeps [OF keeps_heap(3)]] ih) (simp_all add: io_valid_def)
  show ?case
  proof (intro allI impI)
    fix J a st' assume y: "y = (Inr a, st')" and G: "globals sec s g J st"
    show "globals sec s g J st'" using io_validD [OF body G] 1(2) y by blast
  qed
qed

lemma keeps_load [keeps_intros]: "keeps (MBLoadKernel_loop finfo p bound off base)"
  unfolding keeps_def io_valid_def using keeps_load_loop by blast

lemma keeps_MBLoadKernel [keeps_intros]: "keeps (MBLoadKernel finfo hdr off)"
  unfolding MBLoadKernel_def
  by (auto split: prod.splits bool.splits option.splits intro!: keeps_intros)

lemma MBLoadKernel_layout:
  assumes "MBLoadKernel finfo hdr off st = Some (Inr True, st')"
  shows "\<exists>out. ExtractMemLayout hdr off (ff_size finfo) (0, 0, 0) = (True, out)"
proof (rule ccontr)
  assume no: "\<not> ?thesis"
  obtain ok out where e: "ExtractMemLayout hdr off (ff_size finfo) (0, 0, 0) = (ok, out)"
    by (rule prod.exhaust)
  have "\<not> ok"
  proof
    assume ok
    then have "ExtractMemLayout hdr off (ff_size finfo) (0, 0, 0) = (True, out)" using e by simp
    then show False using no by blast
  qed
  then show False using assms e by (auto simp: MBLoadKernel_def io_return_def elim!: io_bind_cases)
qed

lemma keeps_simple_commands [keeps_intros]: "keeps (CmdEcho line)" "keeps (CmdInfo B what)"
  unfolding CmdEcho_def CmdInfo_def CmdInfo_entry_def Let_def
  by (auto split: option.splits intro!: keeps_intros)

text \<open>What is known of the two globals: the kernel is behind one of the allowed paths.\<close>

definition kernel_ok :: "(u32 \<Rightarrow> bytes) \<Rightarrow> FatSuper \<Rightarrow> DriveGeometry \<Rightarrow> (bytes \<Rightarrow> bool) \<Rightarrow> 'h Loader \<Rightarrow> bool" where
  "kernel_ok sec s g A = globals sec s g (\<lambda>h e. h \<longrightarrow> (\<exists>path. A path \<and> kernel_on sec s path e))"

lemma keeps_kernel_ok: "keeps m \<Longrightarrow> io_valid (kernel_ok sec s g A) m (\<lambda>_. kernel_ok sec s g A)"
  unfolding kernel_ok_def by (rule io_valid_keeps)

lemma message_ok:
  "(\<And>m. m \<in> set ms \<Longrightarrow> keeps m) \<Longrightarrow> io_valid (kernel_ok sec s g A) (io_bind (ld_seq ms) (\<lambda>_. io_return b)) (\<lambda>_. kernel_ok sec s g A)"
  by (intro keeps_kernel_ok keeps_intros)

lemma MBLoadKernel_ok:
  assumes "leads sec 512 s (root_file s) (path_components path) finfo" "found_in sec s finfo True off hdr"
    "\<not> FlagField_IsSet (MultiBootHeader_Flags (MultiBootHeader_of_bytes hdr)) KernelFlags_WantVidmode"
    "FlagField_IsSet (MultiBootHeader_Flags (MultiBootHeader_of_bytes hdr)) KernelFlags_HaveLayoutInfo"
  shows "io_valid (kernel_ok sec s g A :: 'h Loader \<Rightarrow> bool) (MBLoadKernel finfo (MultiBootHeader_of_bytes hdr) off)
    (\<lambda>ok st. kernel_ok sec s g A st \<and> (ok \<longrightarrow> kernel_on sec s path (MultiBootHeader_EntryPoint (MultiBootHeader_of_bytes hdr))))"
  unfolding io_valid_def
proof (intro allI impI conjI)
  fix st st' :: "'h Loader" and ok
  assume run: "kernel_ok sec s g A st" "MBLoadKernel finfo (MultiBootHeader_of_bytes hdr) off st = Some (Inr ok, st')"
  show "kernel_ok sec s g A st'" using io_validD [OF keeps_kernel_ok [OF keeps_MBLoadKernel] run] .
  assume ok
  then have "MBLoadKernel finfo (MultiBootHeader_of_bytes hdr) off st = Some (Inr True, st')" using run(2) by simp
  from MBLoadKernel_layout [OF this] show "kernel_on sec s path (MultiBootHeader_EntryPoint (MultiBootHeader_of_bytes hdr))"
    using assms unfolding kernel_on_def found_in_def by blast
qed

lemma CmdMultiboot_found_ok:
  assumes "leads sec 512 s (root_file s) (path_components path) finfo" "found_in sec s finfo found off hdr" "A path"
  shows "io_valid (kernel_ok sec s g A :: 'h Loader \<Rightarrow> bool) (CmdMultiboot_found finfo found off (MultiBootHeader_of_bytes hdr))
    (\<lambda>_. kernel_ok sec s g A)"
proof -
  have m: "keeps m" if "m \<in> set [ld_message x, ld_message y, ld_newline :: ('h Loader, unit) io]" for m x y
    using that by (auto intro: keeps_intros)
  have enter: "io_valid (\<lambda>st. kernel_ok sec s g A st \<and> (ok \<longrightarrow> kernel_on sec s path (MultiBootHeader_EntryPoint (MultiBootHeader_of_bytes hdr))))
      (if \<not> ok then io_return False
       else io_bind (io_put (\<lambda>st. st\<lparr>ld_haveKernel := True, ld_kernelEntry := MultiBootHeader_EntryPoint (MultiBootHeader_of_bytes hdr)\<rparr>)) (\<lambda>_.
           io_return True)) (\<lambda>_. kernel_ok sec s g A :: 'h Loader \<Rightarrow> bool)" for ok
    using assms(3) by (cases ok) (auto simp: io_valid_def io_simps io_bind_def kernel_ok_def globals_def)
  show ?thesis
  proof (cases found)
    case True
    then show ?thesis unfolding CmdMultiboot_found_def using assms(2)
      by (intro io_valid_if(2) message_ok [OF m] io_valid_bind [OF MBLoadKernel_ok [OF assms(1)] enter]) simp_all
  next
    case False
    have "io_valid (kernel_ok sec s g A :: 'h Loader \<Rightarrow> bool) (io_bind (ld_seq [ld_message x, ld_message y, ld_newline]) (\<lambda>_. io_return False))
        (\<lambda>_. kernel_ok sec s g A)" for x y by (rule message_ok [OF m])
    then show ?thesis using False unfolding CmdMultiboot_found_def by simp
  qed
qed

lemma CmdMultiboot_ok:
  assumes board: "length (bd_nameBuffer B) = 13" "length (bd_hdr B) = 32" and A: "A path"
  shows "io_valid (kernel_ok sec s g A :: 'h Loader \<Rightarrow> bool) (CmdMultiboot B path) (\<lambda>_. kernel_ok sec s g A)"
proof -
  let ?K = "kernel_ok sec s g A :: 'h Loader \<Rightarrow> bool"
  have found: "io_valid ?K (io_bind (MBFindHeader finfo (bd_hdr B)) (\<lambda>(found, offset, hdr).
      CmdMultiboot_found finfo found offset (MultiBootHeader_of_bytes hdr))) (\<lambda>_. ?K)"
    if f: "leads sec 512 s (root_file s) (path_components path) finfo" for finfo
    unfolding kernel_ok_def
  proof (rule io_valid_bind [OF MBFindHeader_valid [OF board(2)]], fold kernel_ok_def)
    fix a :: "bool \<times> u32 \<times> bytes"
    obtain fo off hdr where a: "a = (fo, off, hdr)" by (cases a)
    show "io_valid (case a of (found, off, hdr) \<Rightarrow> \<lambda>st. ?K st \<and> found_in sec s finfo found off hdr)
        (case a of (found, offset, hdr) \<Rightarrow> CmdMultiboot_found finfo found offset (MultiBootHeader_of_bytes hdr)) (\<lambda>_. ?K)"
      unfolding a prod.case
      by (rule io_valid_pre [where Q = "found_in sec s finfo fo off hdr"])
        (auto intro!: io_valid_stronger [OF CmdMultiboot_found_ok [where A = A and path = path, OF f _ A]])
  qed
  have err: "io_valid ?K (io_bind (ld_seq [ld_print path, ld_message '': '', ld_message t, ld_newline]) (\<lambda>_. io_return False))
      (\<lambda>_. ?K)" for t
    by (rule message_ok) (auto intro: keeps_intros)
  show ?thesis
    unfolding CmdMultiboot_def kernel_ok_def
  proof (rule io_valid_bind [OF ld_FindByPath_finds [OF board(1)]], fold kernel_ok_def)
    fix a :: "FindResult \<times> FatFile"
    obtain ret f where a: "a = (ret, f)" by (cases a)
    show "io_valid (case a of (ret, f) \<Rightarrow> \<lambda>st. ?K st \<and> (ret = Ok \<longrightarrow> leads sec 512 s (root_file s) (path_components path) f))
        (case a of (ret, finfo) \<Rightarrow> if ret \<noteq> Ok
           then io_bind (ld_seq [ld_print path, ld_message '': '', ld_message (FindResult_text ret), ld_newline]) (\<lambda>_. io_return False)
           else io_bind (MBFindHeader finfo (bd_hdr B)) (\<lambda>(found, offset, hdr).
             CmdMultiboot_found finfo found offset (MultiBootHeader_of_bytes hdr))) (\<lambda>_. ?K)"
      unfolding a prod.case
      by (rule io_valid_pre [where Q = "ret = Ok \<longrightarrow> leads sec 512 s (root_file s) (path_components path) f"], simp)
        (auto intro!: io_valid_stronger [OF err] io_valid_stronger [OF found])
  qed
qed

lemma dispatch_ok:
  assumes "length (bd_nameBuffer B) = 13" "length (bd_hdr B) = 32" "dispatch B cmd arg = Some run"
    and "StrEqual (text_bytes ''multiboot'') cmd \<longrightarrow> A arg"
  shows "io_valid (kernel_ok sec s g A :: 'h Loader \<Rightarrow> bool) run (\<lambda>_. kernel_ok sec s g A)"
  using assms(3,4) CmdMultiboot_ok [OF assms(1,2)] keeps_kernel_ok [OF keeps_simple_commands(1)] keeps_kernel_ok [OF keeps_simple_commands(2)]
  by (auto simp: dispatch_def split: if_splits)

lemma RunScript_ok:
  assumes "length (bd_nameBuffer B) = 13" "length (bd_hdr B) = 32"
  shows "\<forall>path. script_boots ptr path \<longrightarrow> A path \<Longrightarrow>
    io_valid (kernel_ok sec s g A :: 'h Loader \<Rightarrow> bool) (RunScript B ptr) (\<lambda>_. kernel_ok sec s g A)"
proof (induction "length ptr" arbitrary: ptr rule: less_induct)
  case less
  let ?K = "kernel_ok sec s g A :: 'h Loader \<Rightarrow> bool"
  obtain line rest where l: "(line, rest) = script_line ptr" by (metis prod.exhaust)
  show ?case
  proof (cases "ptr = [] \<or> hd ptr = 0")
    case True
    then show ?thesis by (subst RunScript.simps) (auto intro!: io_valid_simple)
  next
    case False
    then have p: "ptr \<noteq> []" "hd ptr \<noteq> 0" by simp_all
    have "length rest < length ptr" using script_line_shorter [OF l p] .
    moreover have "\<forall>path. script_boots rest path \<longrightarrow> A path" using less.prems boots_later [OF p l] by blast
    ultimately have ih: "io_valid ?K (RunScript B rest) (\<lambda>_. ?K)" by (rule less.hyps)
    have unknown: "io_valid ?K (ld_seq [ld_message ''Error, unknown command: '', ld_print cmd, ld_newline]) (\<lambda>_. ?K)" for cmd
      by (intro keeps_kernel_ok keeps_seq) (auto intro: keeps_intros)
    have known: "io_valid ?K (io_bind run (\<lambda>ok. if \<not> ok then io_return () else RunScript B rest)) (\<lambda>_. ?K)"
      if "script_command line = Some (cmd, arg)" "dispatch B cmd arg = Some run" for cmd arg run
    proof (rule io_valid_seq [OF dispatch_ok [OF assms that(2)]])
      show "StrEqual (text_bytes ''multiboot'') cmd \<longrightarrow> A arg" using less.prems boots_here [OF p l that(1)] by blast
    qed (auto intro!: io_valid_simple ih)
    show ?thesis
      using False ih unknown known l [symmetric]
      by (subst RunScript.simps) (auto split: option.splits)
  qed
qed

subsection \<open>The boot configuration\<close>

lemma keeps_new [keeps_intros]: "keeps (ld_new n)"
  unfolding ld_new_def operator_new_def by (auto intro!: keeps_intros)

lemma keeps_MBGenInfo [keeps_intros]: "keeps (ld_MBGenInfo B)"
  unfolding ld_MBGenInfo_def by (auto intro!: keeps_intros split: option.splits)

lemma mem_write_snoc: "length d < 2 ^ 32 \<Longrightarrow> (mem_write m a d)(a + of_nat (length d) := v) = mem_write m a (d @ [v])"
proof
  fix x :: u32 assume d: "length d < 2 ^ 32"
  then have u: "unat (of_nat (length d) :: u32) = length d" by (intro unat_of_nat_u32) simp
  show "((mem_write m a d)(a + of_nat (length d) := v)) x = mem_write m a (d @ [v]) x"
  proof (cases "x = a + of_nat (length d)")
    case True
    then show ?thesis using u by (simp add: mem_write_def)
  next
    case False
    then have "x - a \<noteq> of_nat (length d)" by (metis add.commute diff_add_cancel)
    then have "unat (x - a) \<noteq> length d" using u by (metis word_unat_eq_iff)
    then show ?thesis using False by (simp add: mem_write_def nth_append)
  qed
qed

text \<open>A path that \<^verbatim>\<open>BOOT.CFG\<close> gives to \<^verbatim>\<open>multiboot\<close>.\<close>

definition config_boots :: "(u32 \<Rightarrow> bytes) \<Rightarrow> FatSuper \<Rightarrow> bytes \<Rightarrow> bool" where
  "config_boots sec s path \<longleftrightarrow> (\<exists>cfg script. leads sec 512 s (root_file s) (path_components bootConfigName) cfg \<and>
     file_reads sec 512 s cfg 0 (unat (ff_size cfg)) script \<and> script_boots (script @ [0]) path)"

text \<open>The script in its buffer: what was read, and a zero behind it.\<close>

definition script_at :: "(u32 \<Rightarrow> bytes) \<Rightarrow> FatSuper \<Rightarrow> FatFile \<Rightarrow> u32 \<Rightarrow> u32 \<Rightarrow> bytes \<Rightarrow> 'h Loader \<Rightarrow> bool" where
  "script_at sec s f p ret tail st \<longleftrightarrow> (\<exists>out m. ret = of_nat (length out) \<and> file_reads sec 512 s f 0 (unat (ff_size f)) out \<and>
     ld_mem st = mem_write m p (out @ tail))"

lemma ld_ReadAt_to_script:
  "io_valid (kernel_ok sec s g A) (ld_ReadAt_to f p 0 (ff_size f))
     (\<lambda>ret st. kernel_ok sec s g A st \<and> (ret = -1 \<or> script_at sec s f p ret [] st))"
  unfolding ld_ReadAt_to_def
proof (rule io_valid_bind [OF ld_ReadAt_reads [of sec s g "\<lambda>h e. h \<longrightarrow> (\<exists>path. A path \<and> kernel_on sec s path e)", folded kernel_ok_def]])
  fix a :: "u32 \<times> bytes"
  obtain ret out where a: "a = (ret, out)" by (cases a)
  show "io_valid (case a of (ret, out) \<Rightarrow> \<lambda>st. kernel_ok sec s g A st \<and> (ret = -1 \<or> ret = of_nat (length out) \<and>
        file_reads sec 512 s f (unat (0 :: u32)) (unat (ff_size f)) out))
      (case a of (ret, out) \<Rightarrow> io_bind (ld_update_mem (\<lambda>m. mem_write m p out)) (\<lambda>_. io_return ret))
      (\<lambda>ret st. kernel_ok sec s g A st \<and> (ret = -1 \<or> script_at sec s f p ret [] st))"
    unfolding a prod.case
    by (auto simp: io_valid_def io_simps io_bind_def ld_update_mem_def kernel_ok_def globals_def script_at_def ld_mem_def)
qed

lemma script_ends:
  "io_valid (\<lambda>st. kernel_ok sec s g A st \<and> script_at sec s f p ret [] st \<and> unat (ff_size f) \<le> 4096)
     (ld_update_mem (\<lambda>m. m(p + ret := 0))) (\<lambda>_ st. kernel_ok sec s g A st \<and> script_at sec s f p ret [0] st \<and> unat (ff_size f) \<le> 4096)"
  unfolding io_valid_def
proof (intro allI impI)
  fix st a st' assume pre: "kernel_ok sec s g A st \<and> script_at sec s f p ret [] st \<and> unat (ff_size f) \<le> 4096"
    and run: "ld_update_mem (\<lambda>m. m(p + ret := 0)) st = Some (Inr a, st')"
  obtain out m where out: "ret = of_nat (length out)" "file_reads sec 512 s f 0 (unat (ff_size f)) out" "ld_mem st = mem_write m p out"
    using pre by (auto simp: script_at_def)
  have "length out < 2 ^ 32" using file_reads_length [OF out(2)] pre by simp
  then have "(ld_mem st)(p + ret := 0) = mem_write m p (out @ [0])" unfolding out(1,3) by (rule mem_write_snoc)
  moreover have st': "st' = st\<lparr>ld_heap := (ld_heap st)\<lparr>hmem := (ld_mem st)(p + ret := 0)\<rparr>\<rparr>"
    using run by (auto simp: ld_update_mem_def io_simps)
  ultimately have "ld_mem st' = mem_write m p (out @ [0])" by (simp add: ld_mem_def)
  moreover have "kernel_ok sec s g A st'" using pre st' by (simp add: kernel_ok_def globals_def)
  ultimately show "kernel_ok sec s g A st' \<and> script_at sec s f p ret [0] st' \<and> unat (ff_size f) \<le> 4096"
    using pre out(1,2) by (auto simp: script_at_def)
qed

lemma script_read:
  assumes "script_at sec s f p ret [0] st" "unat (ff_size f) \<le> 4096"
  shows "\<exists>out. file_reads sec 512 s f 0 (unat (ff_size f)) out \<and> mem_read (ld_mem st) p (Suc (unat ret)) = out @ [0]"
proof -
  obtain out m where out: "ret = of_nat (length out)" "file_reads sec 512 s f 0 (unat (ff_size f)) out" "ld_mem st = mem_write m p (out @ [0])"
    using assms(1) by (auto simp: script_at_def)
  have len: "length out \<le> 4096" using file_reads_length [OF out(2)] assms(2) by simp
  then have "unat ret = length out" unfolding out(1) by (intro unat_of_nat_u32) simp
  then have "mem_read (ld_mem st) p (Suc (unat ret)) = out @ [0]"
    unfolding out(3) using len by (intro mem_read_write) simp_all
  then show ?thesis using out(2) by blast
qed

lemma keeps_fail: "(\<And>m. m \<in> set ms \<Longrightarrow> keeps m) \<Longrightarrow> keeps (ld_fail ms)"
  unfolding ld_fail_def by (intro keeps_intros) (auto intro: keeps_intros)

lemma fail_ok:
  assumes "\<And>m. m \<in> set ms \<Longrightarrow> keeps m"
  shows "io_valid (kernel_ok sec s g A) (ld_fail ms) (\<lambda>r st. kernel_ok sec s g A st \<and> r = Halted)"
proof -
  have "io_valid (kernel_ok sec s g A) (ld_seq (ms @ [ld_newline])) (\<lambda>_. kernel_ok sec s g A)"
    using assms by (intro keeps_kernel_ok keeps_seq) (auto intro: keeps_intros)
  then show ?thesis unfolding ld_fail_def by (rule io_valid_seq) (auto intro!: io_valid_simple)
qed

lemma run_script_ok:
  assumes board: "length (bd_nameBuffer B) = 13" "length (bd_hdr B) = 32"
    and f: "leads sec 512 s (root_file s) (path_components bootConfigName) f"
  shows "io_valid (\<lambda>st. kernel_ok sec s g (config_boots sec s) st \<and> script_at sec s f p ret [] st \<and> unat (ff_size f) \<le> 4096)
     (io_bind (ld_update_mem (\<lambda>m. m(p + ret := 0))) (\<lambda>_.
         io_bind (io_get (\<lambda>st. mem_read (ld_mem st) p (Suc (unat ret)))) (\<lambda>x.
         io_bind (RunScript B x) (\<lambda>_. io_bind (ld_free p) (\<lambda>_. io_return None)))))
     (\<lambda>r st. kernel_ok sec s g (config_boots sec s) st \<and> (r = None \<or> r = Some Halted))"
proof -
  let ?K = "kernel_ok sec s g (config_boots sec s)"
  have run: "io_valid ?K (io_bind (RunScript B x) (\<lambda>_. io_bind (ld_free p) (\<lambda>_. io_return None))) (\<lambda>r st. ?K st \<and> (r = None \<or> r = Some Halted))"
    if "\<forall>path. script_boots x path \<longrightarrow> config_boots sec s path" for x
    by (intro io_valid_seq [OF RunScript_ok [OF board that]] io_valid_seq [OF keeps_kernel_ok [OF keeps_heap(2)]]) (auto intro!: io_valid_simple)
  have get: "io_valid (\<lambda>st. ?K st \<and> script_at sec s f p ret [0] st \<and> unat (ff_size f) \<le> 4096) (io_get (\<lambda>st. mem_read (ld_mem st) p (Suc (unat ret))))
      (\<lambda>x st. ?K st \<and> (\<forall>path. script_boots x path \<longrightarrow> config_boots sec s path))"
    using script_read f by (fastforce simp: config_boots_def intro!: io_valid_simple)
  have rest: "io_valid (\<lambda>st. ?K st \<and> (\<forall>path. script_boots x path \<longrightarrow> config_boots sec s path))
      (io_bind (RunScript B x) (\<lambda>_. io_bind (ld_free p) (\<lambda>_. io_return None))) (\<lambda>r st. ?K st \<and> (r = None \<or> r = Some Halted))" for x
    by (rule io_valid_pre [where Q = "\<forall>path. script_boots x path \<longrightarrow> config_boots sec s path"]) (auto intro!: io_valid_stronger [OF run])
  show ?thesis by (rule io_valid_bind [OF script_ends io_valid_bind [OF get rest]])
qed

lemma run_config_ok:
  assumes board: "length (bd_nameBuffer B) = 13" "length (bd_hdr B) = 32"
  shows "io_valid (kernel_ok sec s g (config_boots sec s)) (run_config B)
    (\<lambda>r st. kernel_ok sec s g (config_boots sec s) st \<and> (r = None \<or> r = Some Halted))"
proof -
  let ?K = "kernel_ok sec s g (config_boots sec s)" let ?Q = "\<lambda>r st. ?K st \<and> (r = None \<or> r = Some Halted)"
  have fail: "io_valid ?K (io_bind (ld_fail ms) (\<lambda>r. io_return (Some r))) ?Q" if "\<And>m. m \<in> set ms \<Longrightarrow> keeps m" for ms
    by (rule io_valid_bind [OF fail_ok [OF that]]) (auto intro!: io_valid_simple)
  have msgs: "keeps m" if "m \<in> set [ld_print x, ld_message y, ld_message z] \<union> set [ld_message x'] \<union>
      set [ld_print x, ld_message y, ld_decimal d, ld_message z]" for m and x y z x' d
    using that by (auto intro: keeps_intros)
  let ?script = "\<lambda>f p ret. io_bind (ld_update_mem (\<lambda>m. m(p + ret := 0))) (\<lambda>_.
         io_bind (io_get (\<lambda>st. mem_read (ld_mem st) p (Suc (unat ret)))) (\<lambda>x.
         io_bind (RunScript B x) (\<lambda>_. io_bind (ld_free p) (\<lambda>_. io_return None))))"
  have script: "io_valid (\<lambda>st. ?K st \<and> (ret = -1 \<or> script_at sec s f p ret [] st)) (if sint ret < 0
       then io_bind (ld_fail [ld_message ''Error loading config file '']) (\<lambda>r. io_return (Some r)) else ?script f p ret) ?Q"
    if f: "leads sec 512 s (root_file s) (path_components bootConfigName) f" "unat (ff_size f) \<le> 4096" for f p ret
  proof (rule io_valid_if(2))
    assume "sint ret < 0"
    show "io_valid (\<lambda>st. ?K st \<and> (ret = -1 \<or> script_at sec s f p ret [] st))
        (io_bind (ld_fail [ld_message ''Error loading config file '']) (\<lambda>r. io_return (Some r))) ?Q"
      by (rule io_valid_stronger [OF fail]) (auto intro: keeps_intros)
  next
    assume "\<not> sint ret < 0"
    then have "ret \<noteq> -1" by auto
    then show "io_valid (\<lambda>st. ?K st \<and> (ret = -1 \<or> script_at sec s f p ret [] st)) (?script f p ret) ?Q"
      using f(2) by (intro io_valid_stronger [OF run_script_ok [OF board f(1), of g p ret]]) auto
  qed
  let ?body = "\<lambda>ret finfo.
     if ret \<noteq> Ok
     then io_bind (ld_fail [ld_print bootConfigName, ld_message '': '', ld_message (FindResult_text ret)]) (\<lambda>r. io_return (Some r))
     else if ff_size finfo > bootConfigMaxSize
     then io_bind (ld_fail [ld_print bootConfigName, ld_message '': too big (max size: '',
            ld_decimal bootConfigMaxSize, ld_message '')'']) (\<lambda>r. io_return (Some r))
     else
       io_bind (ld_new (ff_size finfo + 1)) (\<lambda>p.
       io_bind (ld_ReadAt_to finfo p 0 (ff_size finfo)) (\<lambda>ret.
       if sint ret < 0
       then io_bind (ld_fail [ld_message ''Error loading config file '']) (\<lambda>r. io_return (Some r)) else ?script finfo p ret))"
  have body: "io_valid ?K (?body ret f) ?Q"
    if f: "ret = Ok \<longrightarrow> leads sec 512 s (root_file s) (path_components bootConfigName) f" for ret f
  proof (cases "ret = Ok \<and> \<not> ff_size f > bootConfigMaxSize")
    case True
    then have "unat (ff_size f) \<le> 4096" by (simp add: bootConfigMaxSize_def word_less_nat_alt)
    with True f have "io_valid ?K (io_bind (ld_new (ff_size f + 1)) (\<lambda>p. io_bind (ld_ReadAt_to f p 0 (ff_size f)) (\<lambda>ret.
       if sint ret < 0
       then io_bind (ld_fail [ld_message ''Error loading config file '']) (\<lambda>r. io_return (Some r)) else ?script f p ret))) ?Q"
      by (intro io_valid_seq [OF keeps_kernel_ok [OF keeps_new]] io_valid_bind [OF ld_ReadAt_to_script script]) simp_all
    then show ?thesis using True by simp
  next
    case False
    then show ?thesis by (intro io_valid_if(2)) (simp, (rule fail, rule msgs, force)+, simp)
  qed
  show ?thesis
    unfolding run_config_def
  proof (rule io_valid_bind [OF ld_FindByPath_finds [OF board(1), of sec s g "\<lambda>h e. h \<longrightarrow> (\<exists>path. config_boots sec s path \<and> kernel_on sec s path e)",
        folded kernel_ok_def]])
    fix a :: "FindResult \<times> FatFile"
    obtain ret f where a: "a = (ret, f)" by (cases a)
    show "io_valid (case a of (ret, f) \<Rightarrow> \<lambda>st. ?K st \<and> (ret = Ok \<longrightarrow> leads sec 512 s (root_file s) (path_components bootConfigName) f))
        (case a of (ret, f) \<Rightarrow> ?body ret f) ?Q"
      unfolding a prod.case
      by (rule io_valid_pre [where Q = "ret = Ok \<longrightarrow> leads sec 512 s (root_file s) (path_components bootConfigName) f"], simp,
          rule io_valid_stronger [OF body]) simp_all
  qed
qed

subsection \<open>Entering the kernel\<close>

text \<open>The program from the point on where the driver is set up.\<close>

definition loader_rest :: "'h Board \<Rightarrow> ('h Loader, loader_result) io" where
  "loader_rest B = io_bind (run_config B) (\<lambda>r. case r of Some failed \<Rightarrow> io_return failed
     | None \<Rightarrow> io_bind (io_get ld_haveKernel) (\<lambda>haveKernel.
         if haveKernel
         then io_bind (ld_MBGenInfo B) (\<lambda>(info, mbi).
              io_bind (io_get ld_kernelEntry) (\<lambda>kernelEntry. io_return (EnterKernel kernelEntry info mbi)))
         else ld_fail [ld_message ''No kernel loaded!'']))"

lemma loader_rest_ok:
  assumes board: "length (bd_nameBuffer B) = 13" "length (bd_hdr B) = 32"
  shows "io_valid (kernel_ok sec s g (config_boots sec s)) (loader_rest B)
     (\<lambda>r st. case r of EnterKernel entry _ _ \<Rightarrow> (\<exists>path. config_boots sec s path \<and> kernel_on sec s path entry) | Halted \<Rightarrow> True)"
proof -
  let ?K = "kernel_ok sec s g (config_boots sec s)" and ?A = "\<lambda>e. \<exists>path. config_boots sec s path \<and> kernel_on sec s path e"
  let ?Q = "\<lambda>r st. case r of EnterKernel entry _ _ \<Rightarrow> ?A entry | Halted \<Rightarrow> True"
  let ?enter = "io_bind (ld_MBGenInfo B) (\<lambda>(info, mbi). io_bind (io_get ld_kernelEntry) (\<lambda>kernelEntry.
      io_return (EnterKernel kernelEntry info mbi)))"
  have gen: "io_valid (globals sec s g (\<lambda>h e. ?A e)) ((\<lambda>(info, mbi).
      io_bind (io_get ld_kernelEntry) (\<lambda>kernelEntry. io_return (EnterKernel kernelEntry info mbi))) a) ?Q" for a
    by (cases a) (auto simp: io_valid_def io_bind_def io_simps globals_def)
  have yes: "io_valid (globals sec s g (\<lambda>h e. ?A e)) ?enter ?Q"
    by (rule io_valid_seq [OF io_valid_keeps [OF keeps_MBGenInfo] gen])
  have no: "io_valid ?K (ld_fail [ld_message ''No kernel loaded!'']) ?Q"
    by (rule io_valid_weaken [OF fail_ok]) (auto intro: keeps_intros)
  have get: "io_valid ?K (io_get ld_haveKernel) (\<lambda>h st. ?K st \<and> (h \<longrightarrow> globals sec s g (\<lambda>h e. ?A e) st))"
    by (auto simp: io_valid_def io_simps kernel_ok_def globals_def)
  have main: "io_valid (\<lambda>st. ?K st \<and> (h \<longrightarrow> globals sec s g (\<lambda>h e. ?A e) st))
      (if h then ?enter else ld_fail [ld_message ''No kernel loaded!'']) ?Q" for h
    using yes no by (cases h) (auto simp: io_valid_def)
  have after: "io_valid (\<lambda>st. ?K st \<and> (r = None \<or> r = Some Halted)) (case r of Some failed \<Rightarrow> io_return failed
     | None \<Rightarrow> io_bind (io_get ld_haveKernel) (\<lambda>haveKernel. if haveKernel then ?enter else ld_fail [ld_message ''No kernel loaded!''])) ?Q" for r
  proof (cases r)
    case None
    then show ?thesis using io_valid_stronger [OF io_valid_bind [OF get main]] by simp
  next
    case (Some failed)
    then show ?thesis by (auto simp: io_valid_def io_simps)
  qed
  show ?thesis unfolding loader_rest_def by (rule io_valid_bind [OF run_config_ok [OF board] after])
qed

end
