(* ===== verification/Host_Util.thy ===== *)
theory Host_Util
  imports Basic_Types
begin

text \<open>
  String helpers of the host tools: \<^verbatim>\<open>trim\<close> and \<^verbatim>\<open>SplitPath\<close> of \<^verbatim>\<open>tools/util.h\<close> and
  \<^verbatim>\<open>MatchCommand\<close> of \<^verbatim>\<open>tools/fatedit.cpp\<close>. A \<^verbatim>\<open>std::string\<close> is a byte list; it may hold zero
  bytes, which end it only where the code goes through \<^verbatim>\<open>c_str\<close>.
\<close>

subsection \<open>Operations\<close>

definition isspace :: "u8 \<Rightarrow> bool" where
  "isspace c \<longleftrightarrow> c = 32 \<or> (9 \<le> c \<and> c \<le> 13)"

text \<open>The counting loops: the first index, from the start, at which the condition fails.\<close>

fun count_while :: "(u8 \<Rightarrow> bool) \<Rightarrow> bytes \<Rightarrow> nat" where
  "count_while P [] = 0"
| "count_while P (c # cs) = (if P c then Suc (count_while P cs) else 0)"

function trim_back :: "bytes \<Rightarrow> bytes" where
  "trim_back line = (if line \<noteq> [] \<and> isspace (last line) then trim_back (butlast line) else line)"
  by pat_completeness auto
termination
  by (relation "measure length") auto

definition trim :: "bytes \<Rightarrow> bytes" where
  "trim line0 =
     (let line = trim_back line0;
          count = count_while isspace line
      in if count > 0 then drop count line else line)"

function SplitPath_loop :: "bytes \<Rightarrow> bytes list \<Rightarrow> bytes list" where
  "SplitPath_loop str out =
     (if str = [] then out
      else
        let i = count_while (\<lambda>c. c = 47 \<or> c = 92) str
        in if i > 0 then SplitPath_loop (drop i str) out
           else
             let j = count_while (\<lambda>c. c \<noteq> 47 \<and> c \<noteq> 92) str
             in if j = length str then out @ [str]
                else SplitPath_loop (drop (j + 1) str) (out @ [take j str]))"
  by pat_completeness auto
termination
  by (relation "measure (\<lambda>(str, _). length str)") auto

definition SplitPath :: "bytes \<Rightarrow> bytes list" where
  "SplitPath str = SplitPath_loop str []"

text \<open>
  \<^verbatim>\<open>MatchCommand\<close> returns whether the line starts with the command, and the line with the command
  and the blanks behind it removed. \<^verbatim>\<open>strncmp\<close> compares up to the first zero byte, but the
  command has none.
\<close>

definition MatchCommand :: "bytes \<Rightarrow> bytes \<Rightarrow> bool \<times> bytes" where
  "MatchCommand str cmd =
     (let len = length cmd
      in if length str < len \<or> take len str \<noteq> cmd then (False, str)
         else if length str > len \<and> \<not> isspace (str ! len) then (False, str)
         else (True, drop (len + count_while isspace (drop len str)) str))"

declare trim_back.simps [simp del] SplitPath_loop.simps [simp del]

subsection \<open>Specifications\<close>

lemma count_while_eq: "count_while P s = length (takeWhile P s)"
  by (induction s) auto

lemma count_while_simps [simp]:
  "drop (count_while P s) s = dropWhile P s" "take (count_while P s) s = takeWhile P s"
  by (simp_all add: count_while_eq dropWhile_eq_drop takeWhile_eq_take [symmetric])

lemma trim_back_eq: "trim_back s = rev (dropWhile isspace (rev s))"
  by (induction s rule: rev_induct) (auto simp: trim_back.simps)

lemma trim_eq: "trim s = dropWhile isspace (rev (dropWhile isspace (rev s)))"
  by (simp add: trim_def trim_back_eq Let_def count_while_eq dropWhile_eq_drop)

text \<open>The reference: the non-empty runs of characters that are not separators.\<close>

fun runs :: "(u8 \<Rightarrow> bool) \<Rightarrow> bytes \<Rightarrow> bytes \<Rightarrow> bytes list" where
  "runs sep cur [] = (if cur = [] then [] else [cur])"
| "runs sep cur (c # cs) =
     (if sep c then (if cur = [] then [] else [cur]) @ runs sep [] cs else runs sep (cur @ [c]) cs)"

definition path_sep :: "u8 \<Rightarrow> bool" where
  "path_sep c \<longleftrightarrow> c = 47 \<or> c = 92"

lemma runs_seps: "\<forall>c \<in> set s. sep c \<Longrightarrow> runs sep [] (s @ t) = runs sep [] t"
  by (induction s) auto

lemma runs_chars: "\<forall>c \<in> set s. \<not> sep c \<Longrightarrow> runs sep cur (s @ t) = runs sep (cur @ s) t"
  by (induction s arbitrary: cur) auto

lemma runs_dropWhile: "runs sep [] (dropWhile sep s) = runs sep [] s"
  using runs_seps [of "takeWhile sep s" sep "dropWhile sep s"] set_takeWhileD [of _ sep s] by auto

lemma runs_takeWhile:
  assumes "takeWhile (\<lambda>c. \<not> sep c) s \<noteq> []"
  shows "runs sep [] s = takeWhile (\<lambda>c. \<not> sep c) s # runs sep [] (dropWhile (\<lambda>c. \<not> sep c) s)"
proof -
  let ?a = "takeWhile (\<lambda>c. \<not> sep c) s" and ?b = "dropWhile (\<lambda>c. \<not> sep c) s"
  have "runs sep [] s = runs sep ?a ?b"
    using runs_chars [of ?a sep "[]" ?b] by (auto dest: set_takeWhileD)
  also have "\<dots> = ?a # runs sep [] ?b"
  proof (cases ?b)
    case (Cons c cs)
    then have "sep c" by (metis dropWhile_eq_Cons_conv)
    then show ?thesis using Cons assms by simp
  next
    case Nil
    then show ?thesis using assms by (simp only: runs.simps) simp
  qed
  finally show ?thesis .
qed

lemma SplitPath_loop_eq: "SplitPath_loop s out = out @ runs path_sep [] s"
proof (induction "length s" arbitrary: s out rule: less_induct)
  case less
  let ?sep = "\<lambda>c :: u8. c = 47 \<or> c = 92" and ?char = "\<lambda>c :: u8. c \<noteq> 47 \<and> c \<noteq> 92"
  have fold: "?sep = path_sep" "?char = (\<lambda>c. \<not> path_sep c)" by (auto simp: path_sep_def)
  consider (empty) "s = []" | (seps) "s \<noteq> []" "takeWhile path_sep s \<noteq> []"
    | (chars) "s \<noteq> []" "takeWhile path_sep s = []" by blast
  then show ?case
  proof cases
    case seps
    then have "length (dropWhile path_sep s) < length s"
      by (cases s) (auto simp: le_imp_less_Suc length_dropWhile_le split: if_splits)
    with less [of "dropWhile path_sep s"] seps show ?thesis
      by (subst SplitPath_loop.simps) (simp add: fold Let_def count_while_eq runs_dropWhile dropWhile_eq_drop [symmetric])
  next
    case chars
    let ?a = "takeWhile (\<lambda>c. \<not> path_sep c) s" and ?b = "dropWhile (\<lambda>c. \<not> path_sep c) s"
    have a: "?a \<noteq> []" using chars by (cases s) auto
    have "length s = length ?a + length ?b" by (metis length_append takeWhile_dropWhile_id)
    then have j: "length ?a = length s \<longleftrightarrow> ?b = []" by auto
    show ?thesis
    proof (cases ?b)
      case Nil
      then have "?a = s" by (metis append_Nil2 takeWhile_dropWhile_id)
      then have "runs path_sep [] s = [s]" using runs_takeWhile [OF a] Nil by (simp only: runs.simps) simp
      moreover have "length ?a = length s" using \<open>?a = s\<close> by (rule arg_cong)
      ultimately show ?thesis using chars
        by (subst SplitPath_loop.simps) (simp add: fold Let_def count_while_eq)
    next
      case (Cons c cs)
      then have "path_sep c" by (metis dropWhile_eq_Cons_conv)
      then have r: "runs path_sep [] ?b = runs path_sep [] cs" using Cons by simp
      have d: "drop (length ?a + 1) s = cs"
        by (metis Cons One_nat_def add.commute drop_drop drop_Suc_Cons drop0 dropWhile_eq_drop plus_1_eq_Suc)
      have "length cs < length s" using \<open>length s = _\<close> Cons by simp
      then show ?thesis using chars less [of cs] runs_takeWhile [OF a] r d Cons j
        by (subst SplitPath_loop.simps)
          (simp add: fold Let_def count_while_eq takeWhile_eq_take [symmetric])
    qed
  qed (simp add: SplitPath_loop.simps)
qed

lemma SplitPath_runs: "SplitPath s = runs path_sep [] s"
  by (simp add: SplitPath_def SplitPath_loop_eq)

end
