(* ===== verification/Host_File.thy ===== *)
theory Host_File
  imports Io_Monad
begin

text \<open>
  File access of the host tools (\<^verbatim>\<open>include/host/File.h\<close>). The system calls are a record of
  operations on the state of the operating system; what the tools rely on is the locale
  \<^verbatim>\<open>posix\<close>.
\<close>

subsection \<open>System calls\<close>

datatype 'a sysret = Sys_err nat | Sys_ok 'a

record 's Posix =
  open_op :: "'s \<Rightarrow> bytes \<Rightarrow> bool \<Rightarrow> int sysret \<times> 's"
  pread_op :: "'s \<Rightarrow> int \<Rightarrow> nat \<Rightarrow> u64 \<Rightarrow> bytes sysret \<times> 's"
  pwrite_op :: "'s \<Rightarrow> int \<Rightarrow> bytes \<Rightarrow> u64 \<Rightarrow> nat sysret \<times> 's"
  read_op :: "'s \<Rightarrow> int \<Rightarrow> nat \<Rightarrow> bytes sysret \<times> 's"

definition EINTR :: nat where "EINTR = 4"

subsection \<open>The class\<close>

text \<open>
  A \<^verbatim>\<open>File\<close> is its descriptor. The member \<^verbatim>\<open>_filename\<close> is never assigned, so the texts of the
  exceptions start with an empty name.
\<close>

definition File_HandleError :: "nat option \<Rightarrow> exn" where
  "File_HandleError errorCode = (case errorCode of Some e \<Rightarrow> System_error e
     | None \<Rightarrow> Runtime_error (text_bytes '': unexpected end-of-file''))"

definition File_open :: "'s Posix \<Rightarrow> bytes \<Rightarrow> bool \<Rightarrow> ('s, int) io" where
  "File_open P path readonly s =
     (case open_op P s path readonly of
        (Sys_ok fd, s') \<Rightarrow> Some (Inr fd, s')
      | (Sys_err e, s') \<Rightarrow> Some (Inl (File_HandleError (Some e)), s'))"

partial_function (option) File_ReadAt_loop ::
    "'s Posix \<Rightarrow> int \<Rightarrow> u64 \<Rightarrow> nat \<Rightarrow> bytes \<Rightarrow> 's \<Rightarrow> ((exn + bytes) \<times> 's) option" where
  "File_ReadAt_loop P fd offset sz data s =
     (if sz > 0 then
        (case pread_op P s fd sz offset of
           (Sys_err e, s') \<Rightarrow>
             if e = EINTR then File_ReadAt_loop P fd offset sz data s'
             else Some (Inl (File_HandleError (Some e)), s')
         | (Sys_ok d, s') \<Rightarrow>
             if length d \<le> 0 then Some (Inl (File_HandleError None), s')
             else File_ReadAt_loop P fd (offset + of_nat (length d)) (sz - length d) (data @ d) s')
      else Some (Inr data, s))"

definition File_ReadAt :: "'s Posix \<Rightarrow> int \<Rightarrow> u64 \<Rightarrow> nat \<Rightarrow> ('s, bytes) io" where
  "File_ReadAt P fd offset sz = File_ReadAt_loop P fd offset sz []"

partial_function (option) File_WriteAt ::
    "'s Posix \<Rightarrow> int \<Rightarrow> u64 \<Rightarrow> bytes \<Rightarrow> 's \<Rightarrow> ((exn + unit) \<times> 's) option" where
  "File_WriteAt P fd offset data s =
     (if length data > 0 then
        (case pwrite_op P s fd data offset of
           (Sys_err e, s') \<Rightarrow>
             if e = EINTR then File_WriteAt P fd offset data s'
             else Some (Inl (File_HandleError (Some e)), s')
         | (Sys_ok ret, s') \<Rightarrow>
             if ret \<le> 0 then Some (Inl (File_HandleError None), s')
             else File_WriteAt P fd (offset + of_nat ret) (drop ret data) s')
      else Some (Inr (), s))"

partial_function (option) File_Read_loop ::
    "'s Posix \<Rightarrow> int \<Rightarrow> nat \<Rightarrow> bytes \<Rightarrow> 's \<Rightarrow> ((exn + bytes) \<times> 's) option" where
  "File_Read_loop P fd sz data s =
     (if sz > 0 then
        (case read_op P s fd sz of
           (Sys_err e, s') \<Rightarrow>
             if e = EINTR then File_Read_loop P fd sz data s'
             else Some (Inl (File_HandleError (Some e)), s')
         | (Sys_ok d, s') \<Rightarrow>
             if length d = 0 then Some (Inr data, s')
             else File_Read_loop P fd (sz - length d) (data @ d) s')
      else Some (Inr data, s))"

definition File_Read :: "'s Posix \<Rightarrow> int \<Rightarrow> nat \<Rightarrow> ('s, bytes) io" where
  "File_Read P fd sz = File_Read_loop P fd sz []"

subsection \<open>Files as the system keeps them\<close>

text \<open>
  \<^verbatim>\<open>inode\<close> is the file a descriptor stands for, \<^verbatim>\<open>bytes_of\<close> its contents, \<^verbatim>\<open>pos\<close> the position of
  a descriptor, \<^verbatim>\<open>names\<close> the file a path leads to. Writing past the end extends the file, with
  zeros in a gap.
\<close>

definition write_bytes :: "nat \<Rightarrow> bytes \<Rightarrow> bytes \<Rightarrow> bytes" where
  "write_bytes off d c =
     (if d = [] then c else overwrite off d (c @ replicate (off + length d - length c) 0))"

lemma length_write_bytes:
  "length (write_bytes off d c) = (if d = [] then length c else max (length c) (off + length d))"
  by (auto simp: write_bytes_def max_def)

lemma nth_write_bytes:
  assumes "i < length (write_bytes off d c)"
  shows "write_bytes off d c ! i =
    (if off \<le> i \<and> i < off + length d then d ! (i - off) else if i < length c then c ! i else 0)"
proof (cases "d = []")
  case False
  let ?z = "c @ replicate (off + length d - length c) 0"
  have i: "i < length ?z" using assms False by (simp add: length_write_bytes less_max_iff_disj) linarith
  have z: "?z ! j = (if j < length c then c ! j else 0)" if "j < length ?z" for j
    using that by (simp add: nth_append)
  have "write_bytes off d c ! i = overwrite off d ?z ! i" using False by (simp add: write_bytes_def)
  also have "\<dots> = (if off \<le> i \<and> i < off + length d then d ! (i - off) else ?z ! i)"
    using i by (auto simp: overwrite_def nth_append min_def)
  also have "\<dots> = (if off \<le> i \<and> i < off + length d then d ! (i - off) else if i < length c then c ! i else 0)"
    using z [OF i] by simp
  finally show ?thesis .
qed (use assms in \<open>auto simp: write_bytes_def\<close>)

lemma write_bytes_Nil [simp]: "write_bytes off [] c = c"
  by (simp add: write_bytes_def)

lemma write_bytes_split:
  "write_bytes (off + length x) y (write_bytes off x c) = write_bytes off (x @ y) c"
proof (rule nth_equalityI)
  show "length (write_bytes (off + length x) y (write_bytes off x c)) = length (write_bytes off (x @ y) c)"
    by (auto simp: length_write_bytes max_def)
  fix i assume i: "i < length (write_bytes (off + length x) y (write_bytes off x c))"
  then have "i < length (write_bytes off (x @ y) c)" by (simp add: length_write_bytes split: if_splits)
  then show "write_bytes (off + length x) y (write_bytes off x c) ! i = write_bytes off (x @ y) c ! i"
    using i by (auto simp: nth_write_bytes length_write_bytes nth_append split: if_splits)
qed

lemma write_bytes_inside:
  "off + length d \<le> length c \<Longrightarrow> write_bytes off d c = overwrite off d c"
  by (simp add: write_bytes_def overwrite_def)

text \<open>
  The contract: a positive result transfers a prefix of what was asked for at the given offset
  and nothing else; reading ends only at the end of the file; errors transfer nothing; a new
  descriptor is not one in use; and a call is not interrupted for ever (\<^verbatim>\<open>patience\<close> bounds the
  number of interruptions still to come).
\<close>

locale posix =
  fixes P :: "'s Posix"
    and inode :: "'s \<Rightarrow> int \<Rightarrow> nat"
    and bytes_of :: "'s \<Rightarrow> nat \<Rightarrow> bytes"
    and pos :: "'s \<Rightarrow> int \<Rightarrow> nat"
    and opened :: "'s \<Rightarrow> int set"
    and names :: "'s \<Rightarrow> bytes \<Rightarrow> nat option"
    and patience :: "'s \<Rightarrow> nat"
  assumes pread_ok: "pread_op P s fd n off = (Sys_ok d, s') \<Longrightarrow>
      inode s' = inode s \<and> opened s' = opened s \<and> names s' = names s \<and> bytes_of s' = bytes_of s \<and> pos s' = pos s \<and>
      patience s' \<le> patience s \<and>
      length d \<le> n \<and> d = take (length d) (drop (unat off) (bytes_of s (inode s fd))) \<and>
      (d = [] \<longrightarrow> n = 0 \<or> length (bytes_of s (inode s fd)) \<le> unat off)"
    and pread_err: "pread_op P s fd n off = (Sys_err e, s') \<Longrightarrow>
      inode s' = inode s \<and> opened s' = opened s \<and> names s' = names s \<and> bytes_of s' = bytes_of s \<and> pos s' = pos s \<and>
      patience s' \<le> patience s \<and> (e = EINTR \<longrightarrow> patience s' < patience s)"
    and pwrite_ok: "pwrite_op P s fd d off = (Sys_ok k, s') \<Longrightarrow>
      inode s' = inode s \<and> opened s' = opened s \<and> names s' = names s \<and> pos s' = pos s \<and>
      patience s' \<le> patience s \<and> k \<le> length d \<and>
      bytes_of s' = (bytes_of s)(inode s fd := write_bytes (unat off) (take k d) (bytes_of s (inode s fd)))"
    and pwrite_err: "pwrite_op P s fd d off = (Sys_err e, s') \<Longrightarrow>
      inode s' = inode s \<and> opened s' = opened s \<and> names s' = names s \<and> bytes_of s' = bytes_of s \<and> pos s' = pos s \<and>
      patience s' \<le> patience s \<and> (e = EINTR \<longrightarrow> patience s' < patience s)"
    and read_ok: "read_op P s fd n = (Sys_ok d, s') \<Longrightarrow>
      inode s' = inode s \<and> opened s' = opened s \<and> names s' = names s \<and> bytes_of s' = bytes_of s \<and>
      patience s' \<le> patience s \<and> length d \<le> n \<and>
      d = take (length d) (drop (pos s fd) (bytes_of s (inode s fd))) \<and>
      (d = [] \<longrightarrow> n = 0 \<or> length (bytes_of s (inode s fd)) \<le> pos s fd) \<and>
      pos s' = (pos s)(fd := pos s fd + length d)"
    and read_err: "read_op P s fd n = (Sys_err e, s') \<Longrightarrow>
      inode s' = inode s \<and> opened s' = opened s \<and> names s' = names s \<and> bytes_of s' = bytes_of s \<and> pos s' = pos s \<and>
      patience s' \<le> patience s \<and> (e = EINTR \<longrightarrow> patience s' < patience s)"
    and open_ok: "open_op P s path readonly = (Sys_ok fd, s') \<Longrightarrow>
      fd \<notin> opened s \<and> opened s' = insert fd (opened s) \<and> (\<forall>f \<in> opened s. inode s' f = inode s f) \<and>
      bytes_of s' = bytes_of s \<and> pos s' fd = 0 \<and> (\<forall>f \<in> opened s. pos s' f = pos s f) \<and>
      names s' = names s \<and> (\<forall>i. names s path = Some i \<longrightarrow> inode s' fd = i) \<and> patience s' \<le> patience s"
    and open_err: "open_op P s path readonly = (Sys_err e, s') \<Longrightarrow>
      inode s' = inode s \<and> opened s' = opened s \<and> names s' = names s \<and> bytes_of s' = bytes_of s \<and> patience s' \<le> patience s"
begin

text \<open>What every transfer keeps: the files behind the descriptors.\<close>

definition same_files :: "'s \<Rightarrow> 's \<Rightarrow> bool" where
  "same_files s s' \<longleftrightarrow> inode s' = inode s \<and> opened s' = opened s \<and> names s' = names s \<and> patience s' \<le> patience s"

definition content :: "'s \<Rightarrow> int \<Rightarrow> bytes" where
  "content s fd = bytes_of s (inode s fd)"

lemma same_files_refl [simp]: "same_files s s"
  by (simp add: same_files_def)

lemma same_files_trans [trans]: "same_files a b \<Longrightarrow> same_files b c \<Longrightarrow> same_files a c"
  by (simp add: same_files_def)

text \<open>Each call either moves on, with a transfer of some bytes or an interruption, or ends the loop.\<close>

lemma pread_cases:
  assumes "pread_op P s fd n off = (q, s')" "0 < n"
  obtains (interrupted) "q = Sys_err EINTR" "same_files s s'" "bytes_of s' = bytes_of s" "pos s' = pos s"
      "patience s' < patience s"
    | (failed) e where "q = Sys_err e" "e \<noteq> EINTR" "same_files s s'" "bytes_of s' = bytes_of s" "pos s' = pos s"
    | (at_end) "q = Sys_ok []" "same_files s s'" "bytes_of s' = bytes_of s" "pos s' = pos s"
      "length (content s fd) \<le> unat off"
    | (some) d where "q = Sys_ok d" "same_files s s'" "bytes_of s' = bytes_of s" "pos s' = pos s"
      "0 < length d" "length d \<le> n" "d = subbytes (unat off) (length d) (content s fd)"
      "unat off + length d \<le> length (content s fd)"
proof (cases q)
  case (Sys_err e)
  with pread_err [of s fd n off e s'] assms that(1,2) show thesis by (auto simp: same_files_def)
next
  case (Sys_ok d)
  note k = pread_ok [OF assms(1) [unfolded Sys_ok]]
  show thesis
  proof (cases "d = []")
    case True
    then show thesis using k assms(2) that(3) Sys_ok by (auto simp: same_files_def content_def)
  next
    case False
    have "d = subbytes (unat off) (length d) (content s fd)" using k by (simp add: subbytes_def content_def)
    moreover from this have "unat off + length d \<le> length (content s fd)"
      using False by (metis subbytes_bound length_0_conv)
    ultimately show thesis using k False that(4) Sys_ok by (auto simp: same_files_def)
  qed
qed

definition read_may_fail :: bool where
  "read_may_fail \<longleftrightarrow> (\<exists>s fd n off e s'. pread_op P s fd n off = (Sys_err e, s') \<and> e \<noteq> EINTR)"

lemma read_may_failI: "pread_op P s fd n off = (Sys_err e, s') \<Longrightarrow> e \<noteq> EINTR \<Longrightarrow> read_may_fail"
  unfolding read_may_fail_def by blast

text \<open>
  \<^verbatim>\<open>ReadAt\<close> returns, and when it returns bytes they are the ones at the offset; it throws the
  end-of-file exception only when the file is too short.
\<close>

lemma ReadAt_loop_correct:
  assumes "unat off + n < 2 ^ 64"
  shows "\<exists>r s'. File_ReadAt_loop P fd off n out s = Some (r, s') \<and> same_files s s' \<and>
    bytes_of s' = bytes_of s \<and> pos s' = pos s \<and>
    (case r of
       Inr d \<Rightarrow> d = out @ subbytes (unat off) n (content s fd) \<and>
         (n = 0 \<or> unat off + n \<le> length (content s fd))
     | Inl e \<Rightarrow> e = File_HandleError None \<and> length (content s fd) < unat off + n \<or>
         read_may_fail \<and> (\<exists>c. e = System_error c))"
  using assms
proof (induction "n + patience s" arbitrary: n s off out rule: less_induct)
  case less
  note loop = File_ReadAt_loop.simps [of P fd off n out s]
  show ?case
  proof (cases "n = 0")
    case True
    then show ?thesis using loop by (simp add: subbytes_def)
  next
    case n: False
    obtain q s1 where call: "pread_op P s fd n off = (q, s1)" by fastforce
    have "0 < n" using n by simp
    with call show ?thesis
    proof (cases rule: pread_cases)
      case interrupted
      then have lt: "n + patience s1 < n + patience s" by simp
      have eq: "File_ReadAt_loop P fd off n out s = File_ReadAt_loop P fd off n out s1"
        using interrupted(1) n call loop by simp
      have c: "content s1 fd = content s fd" using interrupted by (simp add: content_def same_files_def)
      show ?thesis using less.hyps [OF lt less.prems, of out]
        unfolding eq c interrupted(3,4) using same_files_trans [OF interrupted(2)] by blast
    next
      case (some d)
      have off: "unat (off + of_nat (length d)) = unat off + length d"
        using some less.prems by (intro unat_u64_add) simp
      have e: "unat off + length d + (n - length d) = unat off + n" using some(6) by simp
      have lt: "(n - length d) + patience s1 < n + patience s" using some(2,5,6) unfolding same_files_def by linarith
      from less.hyps [OF lt, of "off + of_nat (length d)" "out @ d", unfolded off e, OF less.prems]
      obtain r s' where rec: "same_files s1 s'" "bytes_of s' = bytes_of s1" "pos s' = pos s1"
        "File_ReadAt_loop P fd (off + of_nat (length d)) (n - length d) (out @ d) s1 = Some (r, s')"
        "case r of
           Inr d' \<Rightarrow> d' = (out @ d) @ subbytes (unat off + length d) (n - length d) (content s1 fd) \<and>
             (n - length d = 0 \<or> unat off + n \<le> length (content s1 fd))
         | Inl e \<Rightarrow> e = File_HandleError None \<and> length (content s1 fd) < unat off + n \<or>
             read_may_fail \<and> (\<exists>c. e = System_error c)" by blast
      have "content s1 fd = content s fd" using some by (simp add: content_def same_files_def)
      moreover have "File_ReadAt_loop P fd off n out s = Some (r, s')" using n call some(1,5) rec(4) loop by simp
      moreover have "d @ subbytes (unat off + length d) (n - length d) (content s fd) =
          subbytes (unat off) n (content s fd)"
        using subbytes_split some(6,7) by metis
      moreover have "same_files s s'" using some(2) rec(1) by (rule same_files_trans)
      moreover have "n - length d = 0 \<Longrightarrow> unat off + n \<le> length (content s fd)" using some(5,6,8) by simp
      ultimately show ?thesis using rec(2,3,5) some(3,4) by (auto split: sum.splits)
    next
      case (failed e)
      then have "read_may_fail" using call read_may_failI by blast
      then show ?thesis using n call loop failed by (auto simp: File_HandleError_def)
    qed (use n call loop in \<open>auto simp: File_HandleError_def\<close>)
  qed
qed

end

context posix
begin

lemma pwrite_cases:
  assumes "pwrite_op P s fd d off = (q, s')"
  obtains (interrupted) "q = Sys_err EINTR" "same_files s s'" "bytes_of s' = bytes_of s" "pos s' = pos s"
      "patience s' < patience s"
    | (failed) e where "q = Sys_err e" "e \<noteq> EINTR" "same_files s s'" "bytes_of s' = bytes_of s" "pos s' = pos s"
    | (some) k where "q = Sys_ok k" "same_files s s'" "pos s' = pos s" "k \<le> length d"
      "bytes_of s' = (bytes_of s)(inode s fd := write_bytes (unat off) (take k d) (content s fd))"
proof (cases q)
  case (Sys_err e)
  with pwrite_err [of s fd d off e s'] assms that(1,2) show thesis by (auto simp: same_files_def)
next
  case (Sys_ok k)
  with pwrite_ok [of s fd d off k s'] assms that(3) show thesis by (auto simp: same_files_def content_def)
qed

definition write_may_fail :: bool where
  "write_may_fail \<longleftrightarrow> (\<exists>s fd d off. d \<noteq> [] \<and>
     (case fst (pwrite_op P s fd d off) of Sys_err e \<Rightarrow> e \<noteq> EINTR | Sys_ok k \<Rightarrow> k = 0))"

lemma write_may_failI:
  "pwrite_op P s fd d off = (q, s') \<Longrightarrow> d \<noteq> [] \<Longrightarrow>
   (case q of Sys_err e \<Rightarrow> e \<noteq> EINTR | Sys_ok k \<Rightarrow> k = 0) \<Longrightarrow> write_may_fail"
  unfolding write_may_fail_def by (metis fst_conv)

text \<open>\<^verbatim>\<open>WriteAt\<close> returns; without an exception all bytes are at the offset, with one a prefix of them.\<close>

lemma WriteAt_correct:
  assumes "unat off + length d < 2 ^ 64"
  shows "\<exists>r k s'. File_WriteAt P fd off d s = Some (r, s') \<and> same_files s s' \<and> pos s' = pos s \<and>
    bytes_of s' = (bytes_of s)(inode s fd := write_bytes (unat off) (take k d) (content s fd)) \<and>
    k \<le> length d \<and> (r = Inr () \<and> k = length d \<or> r \<noteq> Inr () \<and> write_may_fail)"
  using assms
proof (induction "length d + patience s" arbitrary: d s off rule: less_induct)
  case less
  note loop = File_WriteAt.simps [of P fd off d s]
  have stop: ?case if "File_WriteAt P fd off d s = Some (r, s1)" "same_files s s1" "pos s1 = pos s"
    "bytes_of s1 = bytes_of s" "r = Inr () \<and> d = [] \<or> r \<noteq> Inr () \<and> write_may_fail" for r s1
    using that by (intro exI [of _ r] exI [of _ 0] exI [of _ s1]) (simp add: content_def)
  show ?case
  proof (cases "d = []")
    case True
    then show ?thesis using stop loop by simp
  next
    case n: False
    obtain q s1 where call: "pwrite_op P s fd d off = (q, s1)" by fastforce
    then show ?thesis
    proof (cases rule: pwrite_cases)
      case interrupted
      then have lt: "length d + patience s1 < length d + patience s" by simp
      have eq: "File_WriteAt P fd off d s = File_WriteAt P fd off d s1"
        using interrupted(1) n call loop by simp
      have c: "content s1 fd = content s fd" "inode s1 fd = inode s fd"
        using interrupted by (simp_all add: content_def same_files_def)
      show ?thesis using less.hyps [OF lt less.prems]
        unfolding eq c interrupted(3,4) using same_files_trans [OF interrupted(2)] by blast
    next
      case (failed e)
      then show ?thesis using stop n call loop write_may_failI [OF call n] by simp
    next
      case (some k)
      show ?thesis
      proof (cases "k = 0")
        case True
        then show ?thesis using stop n call loop some write_may_failI [OF call n] by (simp add: content_def)
      next
        case False
        have off: "unat (off + of_nat k) = unat off + k" using some(4) less.prems by (intro unat_u64_add) simp
        have lt: "length (drop k d) + patience s1 < length d + patience s"
          using some(2,4) False unfolding same_files_def length_drop by linarith
        have "unat off + k + length (drop k d) < 2 ^ 64" using some(4) less.prems by simp
        from less.hyps [OF lt, of "off + of_nat k", unfolded off, OF this] obtain r j s' where rec:
          "File_WriteAt P fd (off + of_nat k) (drop k d) s1 = Some (r, s')" "same_files s1 s'" "pos s' = pos s1"
          "bytes_of s' = (bytes_of s1)(inode s1 fd := write_bytes (unat off + k) (take j (drop k d)) (content s1 fd))"
          "j \<le> length (drop k d)" "r = Inr () \<and> j = length (drop k d) \<or> r \<noteq> Inr () \<and> write_may_fail" by blast
        have i: "inode s1 = inode s" using some(2) by (simp add: same_files_def)
        have "write_bytes (unat off + k) (take j (drop k d)) (write_bytes (unat off) (take k d) (content s fd)) =
            write_bytes (unat off) (take (k + j) d) (content s fd)"
          using write_bytes_split [of "unat off" "take k d" "take j (drop k d)"] some(4)
          by (simp add: take_add)
        then have "bytes_of s' = (bytes_of s)(inode s fd := write_bytes (unat off) (take (k + j) d) (content s fd))"
          using rec(4) some(5) i by (simp add: content_def)
        moreover have "File_WriteAt P fd off d s = Some (r, s')" using n call loop some(1) False rec(1) by simp
        moreover have "same_files s s'" using some(2) rec(2) by (rule same_files_trans)
        ultimately show ?thesis using rec(3,5,6) some(3,4)
          by (intro exI [of _ r] exI [of _ "k + j"] exI [of _ s']) auto
      qed
    qed
  qed
qed

end

context posix
begin

lemma read_cases:
  assumes "read_op P s fd n = (q, s')" "0 < n"
  obtains (interrupted) "q = Sys_err EINTR" "same_files s s'" "bytes_of s' = bytes_of s" "pos s' = pos s"
      "patience s' < patience s"
    | (failed) e where "q = Sys_err e" "e \<noteq> EINTR" "same_files s s'" "bytes_of s' = bytes_of s" "pos s' = pos s"
    | (at_end) "q = Sys_ok []" "same_files s s'" "bytes_of s' = bytes_of s" "pos s' = pos s"
      "subbytes (pos s fd) n (content s fd) = []"
    | (some) d where "q = Sys_ok d" "same_files s s'" "bytes_of s' = bytes_of s"
      "pos s' = (pos s)(fd := pos s fd + length d)"
      "0 < length d" "length d \<le> n" "d = subbytes (pos s fd) (length d) (content s fd)"
proof (cases q)
  case (Sys_err e)
  with read_err [of s fd n e s'] assms that(1,2) show thesis by (auto simp: same_files_def)
next
  case (Sys_ok d)
  note k = read_ok [OF assms(1) [unfolded Sys_ok]]
  show thesis
  proof (cases "d = []")
    case True
    then show thesis using k assms(2) that(3) Sys_ok by (auto simp: same_files_def content_def subbytes_def)
  next
    case False
    then show thesis using k that(4) Sys_ok by (auto simp: same_files_def subbytes_def content_def)
  qed
qed

text \<open>\<^verbatim>\<open>Read\<close> returns what is left of the file, up to the size asked for, and moves the position.\<close>

lemma Read_loop_correct:
  "\<exists>r s'. File_Read_loop P fd n out s = Some (r, s') \<and> same_files s s' \<and> bytes_of s' = bytes_of s \<and>
    (case r of
       Inr d \<Rightarrow> d = out @ subbytes (pos s fd) n (content s fd) \<and>
         pos s' = (pos s)(fd := pos s fd + length (subbytes (pos s fd) n (content s fd)))
     | Inl e \<Rightarrow> \<exists>c s fd n s'. c \<noteq> EINTR \<and> e = System_error c \<and> read_op P s fd n = (Sys_err c, s'))"
proof (induction "n + patience s" arbitrary: n s out rule: less_induct)
  case less
  note loop = File_Read_loop.simps [of P fd n out s]
  show ?case
  proof (cases "n = 0")
    case True
    then show ?thesis using loop by (simp add: subbytes_def)
  next
    case n: False
    obtain q s1 where call: "read_op P s fd n = (q, s1)" by fastforce
    have "0 < n" using n by simp
    with call show ?thesis
    proof (cases rule: read_cases)
      case interrupted
      then have lt: "n + patience s1 < n + patience s" by simp
      have eq: "File_Read_loop P fd n out s = File_Read_loop P fd n out s1"
        using interrupted(1) n call loop by simp
      have c: "content s1 fd = content s fd" using interrupted by (simp add: content_def same_files_def)
      show ?thesis using less.hyps [OF lt, of out]
        unfolding eq c interrupted(3,4) using same_files_trans [OF interrupted(2)] by blast
    next
      case (some d)
      have lt: "(n - length d) + patience s1 < n + patience s" using some(2,5,6) unfolding same_files_def by linarith
      have p: "pos s1 fd = pos s fd + length d" using some(4) by simp
      have c: "content s1 fd = content s fd" using some by (simp add: content_def same_files_def)
      have split: "subbytes (pos s fd) n (content s fd) =
          d @ subbytes (pos s fd + length d) (n - length d) (content s fd)"
        using subbytes_split some(6,7) by metis
      have eq: "File_Read_loop P fd n out s = File_Read_loop P fd (n - length d) (out @ d) s1"
        using n call some(1,5) loop by simp
      show ?thesis using less.hyps [OF lt, of "out @ d"] same_files_trans [OF some(2)]
        unfolding eq c p split some(3,4) fun_upd_upd fun_upd_same append_assoc length_append add.assoc by blast
    next
      case (failed e)
      then show ?thesis using n call loop by (auto simp: File_HandleError_def)
    qed (use n call loop in \<open>auto simp: File_HandleError_def\<close>)
  qed
qed

end

text \<open>A system on which transfers are at most interrupted.\<close>

locale reliable_posix = posix +
  assumes pread_works: "pread_op P s fd n off = (Sys_err e, s') \<Longrightarrow> e = EINTR"
    and pwrite_works: "pwrite_op P s fd d off = (Sys_err e, s') \<Longrightarrow> e = EINTR"
    and pwrite_moves: "pwrite_op P s fd d off = (Sys_ok k, s') \<Longrightarrow> d \<noteq> [] \<Longrightarrow> 0 < k"
    and read_works: "read_op P s fd n = (Sys_err e, s') \<Longrightarrow> e = EINTR"
    and open_works: "names s path = Some i \<Longrightarrow> \<exists>fd s'. open_op P s path readonly = (Sys_ok fd, s')"
begin

lemma writes_succeed: "\<not> write_may_fail"
  unfolding write_may_fail_def
  using pwrite_works pwrite_moves by (auto split: sysret.splits) (metis prod.collapse less_irrefl)+

lemma ReadAt_works:
  assumes "unat off + n \<le> length (content s fd)" "length (content s fd) < 2 ^ 64"
  shows "\<exists>s'. File_ReadAt P fd off n s = Some (Inr (subbytes (unat off) n (content s fd)), s') \<and> same_files s s' \<and>
    bytes_of s' = bytes_of s \<and> pos s' = pos s"
proof -
  have ok: "\<not> read_may_fail" using pread_works by (auto simp: read_may_fail_def)
  have "unat off + n < 2 ^ 64" using assms by linarith
  from ReadAt_loop_correct [OF this, of fd "[]" s] obtain r s' where
    l: "File_ReadAt_loop P fd off n [] s = Some (r, s')" "same_files s s'" "bytes_of s' = bytes_of s" "pos s' = pos s"
    and "case r of
       Inr d \<Rightarrow> d = [] @ subbytes (unat off) n (content s fd) \<and>
         (n = 0 \<or> unat off + n \<le> length (content s fd))
     | Inl e \<Rightarrow> e = File_HandleError None \<and> length (content s fd) < unat off + n \<or>
         read_may_fail \<and> (\<exists>c. e = System_error c)" by blast
  then show ?thesis using assms(1) ok by (cases r) (auto simp: File_ReadAt_def)
qed

lemma Read_works:
  "\<exists>s'. File_Read P fd n s = Some (Inr (subbytes (pos s fd) n (content s fd)), s') \<and> same_files s s' \<and>
    bytes_of s' = bytes_of s \<and> pos s' = (pos s)(fd := pos s fd + length (subbytes (pos s fd) n (content s fd)))"
proof -
  obtain r s' where l: "File_Read_loop P fd n [] s = Some (r, s')" "same_files s s'" "bytes_of s' = bytes_of s"
    and "case r of
       Inr d \<Rightarrow> d = [] @ subbytes (pos s fd) n (content s fd) \<and>
         pos s' = (pos s)(fd := pos s fd + length (subbytes (pos s fd) n (content s fd)))
     | Inl e \<Rightarrow> \<exists>c s fd n s'. c \<noteq> EINTR \<and> e = System_error c \<and> read_op P s fd n = (Sys_err c, s')"
    using Read_loop_correct [of fd n "[]" s] by blast
  then show ?thesis using read_works by (cases r) (auto simp: File_Read_def)
qed

lemma WriteAt_works:
  assumes "unat off + length d < 2 ^ 64"
  shows "\<exists>s'. File_WriteAt P fd off d s = Some (Inr (), s') \<and> same_files s s' \<and> pos s' = pos s \<and>
    bytes_of s' = (bytes_of s)(inode s fd := write_bytes (unat off) d (content s fd))"
  using WriteAt_correct [OF assms, of fd s] writes_succeed by auto

lemma open_named:
  assumes "names s path = Some i"
  shows "\<exists>fd s'. File_open P path readonly s = Some (Inr fd, s') \<and> fd \<notin> opened s \<and> opened s' = insert fd (opened s) \<and>
    inode s' fd = i \<and> pos s' fd = 0 \<and> (\<forall>f \<in> opened s. inode s' f = inode s f \<and> pos s' f = pos s f) \<and>
    bytes_of s' = bytes_of s \<and> names s' = names s"
proof -
  obtain fd s' where o: "open_op P s path readonly = (Sys_ok fd, s')" using open_works [OF assms] by blast
  then have "File_open P path readonly s = Some (Inr fd, s')" by (simp add: File_open_def)
  then show ?thesis using open_ok [OF o] assms by blast
qed

lemma write_then_read:
  assumes "unat off + length d < 2 ^ 64" "length (content s fd) < 2 ^ 64"
  shows "\<exists>s1 s2. File_WriteAt P fd off d s = Some (Inr (), s1) \<and> File_ReadAt P fd off (length d) s1 = Some (Inr d, s2) \<and>
    bytes_of s2 = (bytes_of s)(inode s fd := write_bytes (unat off) d (bytes_of s (inode s fd)))"
proof -
  obtain s1 where s1: "File_WriteAt P fd off d s = Some (Inr (), s1)" "same_files s s1"
    "bytes_of s1 = (bytes_of s)(inode s fd := write_bytes (unat off) d (content s fd))"
    using WriteAt_works [OF assms(1)] by blast
  let ?c = "write_bytes (unat off) d (content s fd)"
  have c: "content s1 fd = ?c" using s1(2,3) by (simp add: content_def same_files_def)
  show ?thesis
  proof (cases "d = []")
    case True
    then have "File_ReadAt P fd off (length d) s1 = Some (Inr d, s1)"
      by (subst File_ReadAt_def, subst File_ReadAt_loop.simps) simp
    then show ?thesis using s1 by (auto simp: content_def)
  next
    case False
    then have len: "length ?c = max (length (content s fd)) (unat off + length d)" by (simp add: length_write_bytes)
    have rd: "unat off + length d \<le> length (content s1 fd)" "length (content s1 fd) < 2 ^ 64"
      unfolding c len using assms by simp_all
    have "subbytes (unat off) (length d) ?c = d"
      using rd(1) unfolding c by (intro nth_equalityI) (simp_all add: subbytes_def nth_write_bytes)
    then show ?thesis using ReadAt_works [OF rd] s1 unfolding c by (auto simp: content_def)
  qed
qed

end

subsection \<open>A reference system\<close>

text \<open>
  Files by descriptor, with the behaviour of the coming calls given in advance: a call is
  interrupted, transfers at most so many bytes, or, when nothing is foreseen, everything. The
  descriptor handed out by an open is the next unused one; it stands for the file whose name is
  the path.
\<close>

datatype event = Interrupt | Short nat

record refsys =
  ref_names :: "bytes \<Rightarrow> nat option"
  ref_data :: "nat \<Rightarrow> bytes"
  ref_inode :: "int \<Rightarrow> nat"
  ref_pos :: "int \<Rightarrow> nat"
  ref_next :: int
  ref_plan :: "event list"

definition ref_limit :: "event list \<Rightarrow> nat \<Rightarrow> nat" where
  "ref_limit plan n = (case plan of Short k # _ \<Rightarrow> min n (Suc k) | _ \<Rightarrow> n)"

definition ref_call :: "(refsys \<Rightarrow> 'a \<times> refsys) \<Rightarrow> refsys \<Rightarrow> 'a sysret \<times> refsys" where
  "ref_call f s = (case ref_plan s of
       Interrupt # plan \<Rightarrow> (Sys_err EINTR, s\<lparr>ref_plan := plan\<rparr>)
     | _ \<Rightarrow> (case f s of (a, s') \<Rightarrow> (Sys_ok a, s'\<lparr>ref_plan := tl (ref_plan s)\<rparr>)))"

definition ref_posix :: "refsys Posix" where
  "ref_posix = \<lparr>
     open_op = (\<lambda>s path readonly. case ref_names s path of
         None \<Rightarrow> (Sys_err 2, s)
       | Some i \<Rightarrow> (Sys_ok (ref_next s), s\<lparr>ref_next := ref_next s + 1,
           ref_inode := (ref_inode s)(ref_next s := i), ref_pos := (ref_pos s)(ref_next s := 0)\<rparr>)),
     pread_op = (\<lambda>s fd n off. ref_call (\<lambda>s.
         (take (ref_limit (ref_plan s) n) (drop (unat off) (ref_data s (ref_inode s fd))), s)) s),
     pwrite_op = (\<lambda>s fd d off. ref_call (\<lambda>s.
         let k = ref_limit (ref_plan s) (length d); i = ref_inode s fd
         in (k, s\<lparr>ref_data := (ref_data s)(i := write_bytes (unat off) (take k d) (ref_data s i))\<rparr>)) s),
     read_op = (\<lambda>s fd n. ref_call (\<lambda>s.
         let d = take (ref_limit (ref_plan s) n) (drop (ref_pos s fd) (ref_data s (ref_inode s fd)))
         in (d, s\<lparr>ref_pos := (ref_pos s)(fd := ref_pos s fd + length d)\<rparr>)) s)\<rparr>"

lemma ref_limit_bounds: "ref_limit plan n \<le> n" "0 < n \<Longrightarrow> 0 < ref_limit plan n"
  by (simp_all add: ref_limit_def split: list.splits event.splits)

lemmas ref_defs = ref_posix_def ref_call_def

lemma ref_transfer:
  assumes "d = take (ref_limit plan n) (drop off c)"
  shows "length d \<le> n \<and> d = take (length d) (drop off c) \<and> (d = [] \<longrightarrow> n = 0 \<or> length c \<le> off)"
  using assms ref_limit_bounds(1) [of plan n] ref_limit_bounds(2) [of n plan] by (cases "n = 0") (auto simp: min_def)

interpretation ref: reliable_posix ref_posix ref_inode ref_data ref_pos "\<lambda>s. {fd. fd < ref_next s}" ref_names
  "\<lambda>s. length (ref_plan s)"
proof unfold_locales
  fix s s' fd n off d
  assume "pread_op ref_posix s fd n off = (Sys_ok d, s')"
  then have d: "d = take (ref_limit (ref_plan s) n) (drop (unat off) (ref_data s (ref_inode s fd)))"
    and s': "s' = s\<lparr>ref_plan := tl (ref_plan s)\<rparr>"
    by (auto simp: ref_defs split: list.splits event.splits)
  show "ref_inode s' = ref_inode s \<and> {fd. fd < ref_next s'} = {fd. fd < ref_next s} \<and> ref_names s' = ref_names s \<and>
      ref_data s' = ref_data s \<and> ref_pos s' = ref_pos s \<and> length (ref_plan s') \<le> length (ref_plan s) \<and>
      length d \<le> n \<and> d = take (length d) (drop (unat off) (ref_data s (ref_inode s fd))) \<and>
      (d = [] \<longrightarrow> n = 0 \<or> length (ref_data s (ref_inode s fd)) \<le> unat off)"
    using ref_transfer [OF d] by (simp add: s')
next
  fix s s' fd n off e
  assume "pread_op ref_posix s fd n off = (Sys_err e, s')"
  then show "ref_inode s' = ref_inode s \<and> {fd. fd < ref_next s'} = {fd. fd < ref_next s} \<and> ref_names s' = ref_names s \<and>
      ref_data s' = ref_data s \<and> ref_pos s' = ref_pos s \<and> length (ref_plan s') \<le> length (ref_plan s) \<and>
      (e = EINTR \<longrightarrow> length (ref_plan s') < length (ref_plan s))"
    by (auto simp: ref_defs split: list.splits event.splits)
next
  fix s s' fd d off k
  assume "pwrite_op ref_posix s fd d off = (Sys_ok k, s')"
  then have "k = ref_limit (ref_plan s) (length d)"
    "s' = s\<lparr>ref_plan := tl (ref_plan s), ref_data := (ref_data s)(ref_inode s fd :=
        write_bytes (unat off) (take k d) (ref_data s (ref_inode s fd)))\<rparr>"
    by (auto simp: ref_defs Let_def split: list.splits event.splits)
  then show "ref_inode s' = ref_inode s \<and> {fd. fd < ref_next s'} = {fd. fd < ref_next s} \<and> ref_names s' = ref_names s \<and>
      ref_pos s' = ref_pos s \<and> length (ref_plan s') \<le> length (ref_plan s) \<and> k \<le> length d \<and>
      ref_data s' = (ref_data s)(ref_inode s fd :=
        write_bytes (unat off) (take k d) (ref_data s (ref_inode s fd)))"
    using ref_limit_bounds by auto
next
  fix s s' fd d off e
  assume "pwrite_op ref_posix s fd d off = (Sys_err e, s')"
  then show "ref_inode s' = ref_inode s \<and> {fd. fd < ref_next s'} = {fd. fd < ref_next s} \<and> ref_names s' = ref_names s \<and>
      ref_data s' = ref_data s \<and> ref_pos s' = ref_pos s \<and> length (ref_plan s') \<le> length (ref_plan s) \<and>
      (e = EINTR \<longrightarrow> length (ref_plan s') < length (ref_plan s))"
    by (auto simp: ref_defs Let_def split: list.splits event.splits)
next
  fix s s' fd n d
  assume "read_op ref_posix s fd n = (Sys_ok d, s')"
  then have d: "d = take (ref_limit (ref_plan s) n) (drop (ref_pos s fd) (ref_data s (ref_inode s fd)))"
    and s': "s' = s\<lparr>ref_plan := tl (ref_plan s), ref_pos := (ref_pos s)(fd := ref_pos s fd + length d)\<rparr>"
    by (auto simp: ref_defs Let_def split: list.splits event.splits)
  show "ref_inode s' = ref_inode s \<and> {fd. fd < ref_next s'} = {fd. fd < ref_next s} \<and> ref_names s' = ref_names s \<and>
      ref_data s' = ref_data s \<and> length (ref_plan s') \<le> length (ref_plan s) \<and> length d \<le> n \<and>
      d = take (length d) (drop (ref_pos s fd) (ref_data s (ref_inode s fd))) \<and>
      (d = [] \<longrightarrow> n = 0 \<or> length (ref_data s (ref_inode s fd)) \<le> ref_pos s fd) \<and>
      ref_pos s' = (ref_pos s)(fd := ref_pos s fd + length d)"
    using ref_transfer [OF d] by (simp add: s')
next
  fix s s' fd n e
  assume "read_op ref_posix s fd n = (Sys_err e, s')"
  then show "ref_inode s' = ref_inode s \<and> {fd. fd < ref_next s'} = {fd. fd < ref_next s} \<and> ref_names s' = ref_names s \<and>
      ref_data s' = ref_data s \<and> ref_pos s' = ref_pos s \<and> length (ref_plan s') \<le> length (ref_plan s) \<and>
      (e = EINTR \<longrightarrow> length (ref_plan s') < length (ref_plan s))"
    by (auto simp: ref_defs Let_def split: list.splits event.splits)
qed (auto simp: ref_defs Let_def ref_limit_bounds split: list.splits event.splits option.splits)

subsection \<open>Writing and reading back\<close>

text \<open>
  C23. What \<^verbatim>\<open>WriteAt\<close> stored \<^verbatim>\<open>ReadAt\<close> returns, also when the system calls are interrupted or
  transfer less than they were asked for: both calls end, the bytes read are the bytes written,
  and nothing but that range of the one file has changed.
\<close>

theorem File_write_read_back:
  assumes "reliable_posix P inode bytes_of pos opened names patience"
    and "unat off + length d < 2 ^ 64" "length (bytes_of s (inode s fd)) < 2 ^ 64"
  shows "\<exists>s1 s2. File_WriteAt P fd off d s = Some (Inr (), s1) \<and> File_ReadAt P fd off (length d) s1 = Some (Inr d, s2) \<and>
    bytes_of s2 = (bytes_of s)(inode s fd := write_bytes (unat off) d (bytes_of s (inode s fd)))"
proof -
  have "posix P inode bytes_of pos opened names patience" using assms(1) by (rule reliable_posix.axioms)
  then have "length (posix.content inode bytes_of s fd) < 2 ^ 64" using assms(3) by (simp add: posix.content_def)
  then show ?thesis by (rule reliable_posix.write_then_read [OF assms(1,2)])
qed

definition short_sys :: refsys where
  "short_sys = \<lparr>ref_names = \<lambda>_. None, ref_data = \<lambda>_. [1, 2], ref_inode = \<lambda>_. 0, ref_pos = \<lambda>_. 0, ref_next = 4,
     ref_plan = [Short 0, Interrupt, Short 0]\<rparr>"

theorem File_write_read_back_witness:
  "\<exists>s1 s2. File_WriteAt ref_posix 3 1 [7, 8, 9] short_sys = Some (Inr (), s1) \<and>
     File_ReadAt ref_posix 3 1 3 s1 = Some (Inr [7, 8, 9], s2) \<and> ref_data s2 0 = [1, 7, 8, 9]"
proof -
  have w: "write_bytes 1 [7, 8, 9] (ref_data short_sys (ref_inode short_sys 3)) = [1, 7, 8, 9 :: u8]"
    by (simp add: write_bytes_def overwrite_def short_sys_def)
  have i: "ref_inode short_sys 3 = 0" "unat (1 :: u64) = 1" "length [7, 8, 9 :: u8] = 3" by (simp_all add: short_sys_def)
  have "unat (1 :: u64) + length [7, 8, 9 :: u8] < 2 ^ 64" "length (ref_data short_sys (ref_inode short_sys 3)) < 2 ^ 64"
    by (simp_all add: short_sys_def)
  from File_write_read_back [OF ref.reliable_posix_axioms this] obtain s1 s2 where
    "File_WriteAt ref_posix 3 1 [7, 8, 9] short_sys = Some (Inr (), s1)"
    "File_ReadAt ref_posix 3 1 3 s1 = Some (Inr [7, 8, 9], s2)"
    "ref_data s2 = (ref_data short_sys)(0 := [1, 7, 8, 9])"
    unfolding i(2) w unfolding i by blast
  then show ?thesis by (intro exI [of _ s1] exI [of _ s2]) simp
qed

end
