(* ===== verification/Fat_Edit.thy ===== *)
theory Fat_Edit
  imports Host_Util Host_File Fat_Dirent Fat_Super Text_Screen
begin

text \<open>
  The volume editor (\<^verbatim>\<open>tools/fatedit.cpp\<close>). Its globals are a record: the descriptor of the image
  file with the state of the system behind it, the super block, the copy of the FAT and the
  information sector kept in memory, and what was printed so far. The program catches no
  exception once the image is open, so an exception ends it, with the image as it is then.
  \<^verbatim>\<open>size_t\<close> has 64 bits; the 32 bit arithmetic of the sources is kept at its width.
\<close>

subsection \<open>State\<close>

record 's Edit =
  ed_sys :: 's
  ed_file :: int
  ed_super :: FatSuper
  ed_fatRaw :: bytes
  ed_fsinfo :: FatFsInfo
  ed_cout :: bytes
  ed_cerr :: bytes

definition ed_call :: "('s, 'a) io \<Rightarrow> ('s Edit, 'a) io" where
  "ed_call m st = Option.bind (m (ed_sys st)) (\<lambda>(r, s'). Some (r, st\<lparr>ed_sys := s'\<rparr>))"

definition ed_ReadAt :: "'s Posix \<Rightarrow> u64 \<Rightarrow> nat \<Rightarrow> ('s Edit, bytes) io" where
  "ed_ReadAt P offset sz st = ed_call (File_ReadAt P (ed_file st) offset sz) st"

definition ed_WriteAt :: "'s Posix \<Rightarrow> u64 \<Rightarrow> bytes \<Rightarrow> ('s Edit, unit) io" where
  "ed_WriteAt P offset data st = ed_call (File_WriteAt P (ed_file st) offset data) st"

definition ed_print :: "bytes \<Rightarrow> ('s Edit, unit) io" where
  "ed_print msg = io_put (\<lambda>st. st\<lparr>ed_cout := ed_cout st @ msg\<rparr>)"

definition ed_error :: "bytes \<Rightarrow> ('s Edit, unit) io" where
  "ed_error msg = io_put (\<lambda>st. st\<lparr>ed_cerr := ed_cerr st @ msg @ [10]\<rparr>)"

subsection \<open>FatReader\<close>

definition vector_at :: "bytes \<Rightarrow> nat \<Rightarrow> exn + u8" where
  "vector_at v i = (if i < length v then Inr (v ! i) else Inl Out_of_range)"

text \<open>The bytes of an entry are read one by one with bounds checks, the index has 32 bits.\<close>

definition NextClusterInFile :: "bytes \<Rightarrow> u32 \<Rightarrow> exn + u32" where
  "NextClusterInFile fatRaw N =
     (let idx = unat (N * 4)
      in case vector_at fatRaw idx of Inl e \<Rightarrow> Inl e | Inr b0 \<Rightarrow>
         (case vector_at fatRaw (idx + 1) of Inl e \<Rightarrow> Inl e | Inr b1 \<Rightarrow>
         (case vector_at fatRaw (idx + 2) of Inl e \<Rightarrow> Inl e | Inr b2 \<Rightarrow>
         (case vector_at fatRaw (idx + 3) of Inl e \<Rightarrow> Inl e | Inr b3 \<Rightarrow>
            Inr ((ucast b0 OR push_bit 8 (ucast b1) OR push_bit 16 (ucast b2) OR push_bit 24 (ucast b3))
              AND 0x0FFFFFFF)))))"

definition FatReader_LoadFromImage :: "'s Posix \<Rightarrow> ('s Edit, unit) io" where
  "FatReader_LoadFromImage P =
     io_bind (io_get ed_super) (\<lambda>s.
       if FatSuper_FsInfoIndex s \<ge> FatSuper_ReservedSectors s
       then io_throw (Runtime_error (text_bytes ''FS Info index is '' @
              number_text (unat (FatSuper_ReservedSectors s)) @
              text_bytes '', which is past reserved sector count ('' @
              number_text (unat (FatSuper_ReservedSectors s)) @ text_bytes '')''))
       else
         io_bind (io_lift (int_mul (FatSuper_FsInfoIndex s) (FatSuper_BytesPerSector s))) (\<lambda>infoOff.
         io_bind (ed_ReadAt P (ucast infoOff) 512) (\<lambda>info.
         io_bind (io_put (\<lambda>st. st\<lparr>ed_fsinfo := FatFsInfo_of_bytes info\<rparr>)) (\<lambda>_.
         if \<not> FatFsInfo_IsValid (FatFsInfo_of_bytes info)
         then io_throw (Runtime_error (text_bytes ''FS info sector is broken!''))
         else
           io_bind (io_lift (int_mul (FatSuper_ReservedSectors s) (FatSuper_BytesPerSector s))) (\<lambda>offset.
           let sz = FatSuper_SectorsPerFat s * ucast (FatSuper_BytesPerSector s)
           in io_bind (io_put (\<lambda>st. st\<lparr>ed_fatRaw := replicate (unat sz) 0\<rparr>)) (\<lambda>_.
              io_bind (ed_ReadAt P (ucast offset) (unat sz)) (\<lambda>raw.
              io_put (\<lambda>st. st\<lparr>ed_fatRaw := raw\<rparr>))))))))"

text \<open>Entries beyond the vector are ignored; the top four bits of an entry are not kept.\<close>

definition FatReader_Set :: "bytes \<Rightarrow> nat \<Rightarrow> u32 \<Rightarrow> bytes" where
  "FatReader_Set fatRaw N value =
     (let idx = N * 4
      in if length fatRaw < 4 \<or> idx \<ge> length fatRaw - 3 then fatRaw
         else fatRaw[idx := ucast (value AND 0xFF), idx + 1 := ucast (drop_bit 8 value AND 0xFF),
           idx + 2 := ucast (drop_bit 16 value AND 0xFF), idx + 3 := ucast (drop_bit 24 value AND 0x0F)])"

fun NumFreeClusters_loop :: "bytes \<Rightarrow> nat \<Rightarrow> nat \<Rightarrow> u32 \<Rightarrow> exn + u32" where
  "NumFreeClusters_loop fatRaw i 0 count = Inr count"
| "NumFreeClusters_loop fatRaw i (Suc n) count =
     (case NextClusterInFile fatRaw (of_nat i) of Inl e \<Rightarrow> Inl e
      | Inr next \<Rightarrow> NumFreeClusters_loop fatRaw (Suc i) n (if next = 0 then count + 1 else count))"

definition FatReader_NumFreeClusters :: "bytes \<Rightarrow> exn + u32" where
  "FatReader_NumFreeClusters fatRaw = NumFreeClusters_loop fatRaw 0 (length fatRaw div 4) 0"

fun FindFreeCluster_loop :: "bytes \<Rightarrow> nat \<Rightarrow> nat \<Rightarrow> exn + u32" where
  "FindFreeCluster_loop fatRaw i 0 = Inr 0xFFFFFFF8"
| "FindFreeCluster_loop fatRaw i (Suc n) =
     (case NextClusterInFile fatRaw (of_nat i) of Inl e \<Rightarrow> Inl e
      | Inr next \<Rightarrow> if next = 0 then Inr (of_nat i) else FindFreeCluster_loop fatRaw (Suc i) n)"

definition FatReader_FindFreeCluster :: "FatSuper \<Rightarrow> bytes \<Rightarrow> exn + u32" where
  "FatReader_FindFreeCluster s fatRaw =
     (let fatSectors = FatSuper_SectorsPerFat s * FatSuper_NumFats s;
          total = FatSuper_SectorCount s
      in if total \<le> fatSectors then Inr 0xFFFFFFF8
         else
           let total = total - fatSectors
           in if total \<le> ucast (FatSuper_ReservedSectors s) then Inr 0xFFFFFFF8
              else
                let total = total - ucast (FatSuper_ReservedSectors s)
                in if FatSuper_SectorsPerCluster s = 0 then Inl Fault
                   else
                     let total = total div FatSuper_SectorsPerCluster s
                     in if total < 1 then Inr 0xFFFFFFF8
                        else FindFreeCluster_loop fatRaw 0 (unat total))"

fun WriteToImage_loop :: "'s Posix \<Rightarrow> nat \<Rightarrow> u32 \<Rightarrow> ('s Edit, unit) io" where
  "WriteToImage_loop P 0 offset = io_return ()"
| "WriteToImage_loop P (Suc n) offset =
     io_bind (io_get ed_fatRaw) (\<lambda>fatRaw.
     io_bind (ed_WriteAt P (scast offset) fatRaw) (\<lambda>_.
     WriteToImage_loop P n (offset + of_nat (length fatRaw))))"

definition FatReader_WriteToImage :: "'s Posix \<Rightarrow> ('s Edit, unit) io" where
  "FatReader_WriteToImage P =
     io_bind (io_get ed_super) (\<lambda>s.
     io_bind (io_lift (int_mul (FatSuper_ReservedSectors s) (FatSuper_BytesPerSector s))) (\<lambda>offset.
     io_bind (WriteToImage_loop P (unat (FatSuper_NumFats s)) offset) (\<lambda>_.
     io_bind (io_get ed_fatRaw) (\<lambda>fatRaw.
     io_bind (io_lift (FatReader_FindFreeCluster s fatRaw)) (\<lambda>next.
     io_bind (io_put (\<lambda>st. st\<lparr>ed_fsinfo := FatFsInfo_SetNextFreeCluster (ed_fsinfo st) next\<rparr>)) (\<lambda>_.
     io_bind (io_lift (FatReader_NumFreeClusters fatRaw)) (\<lambda>free.
     io_bind (io_put (\<lambda>st. st\<lparr>ed_fsinfo := FatFsInfo_SetNumFreeCluster (ed_fsinfo st) free\<rparr>)) (\<lambda>_.
     io_bind (io_lift (int_mul (FatSuper_FsInfoIndex s) (FatSuper_BytesPerSector s))) (\<lambda>infoOff.
     io_bind (io_get ed_fsinfo) (\<lambda>fsinfo.
     ed_WriteAt P (ucast infoOff) (FatFsInfo_bytes fsinfo)))))))))))"

definition FatReader_AllocateCluster :: "('s Edit, u32) io" where
  "FatReader_AllocateCluster =
     io_bind (io_get (\<lambda>st. FatReader_FindFreeCluster (ed_super st) (ed_fatRaw st))) (\<lambda>r.
     io_bind (io_lift r) (\<lambda>out.
       if out \<ge> 0x0FFFFFF8 then io_throw (Runtime_error (text_bytes ''No free cluster available''))
       else io_bind (io_put (\<lambda>st. st\<lparr>ed_fatRaw := FatReader_Set (ed_fatRaw st) (unat out) 0x0FFFFFF8\<rparr>)) (\<lambda>_.
         io_return out)))"

definition FatReader_AllocateCluster_after :: "u32 \<Rightarrow> ('s Edit, u32) io" where
  "FatReader_AllocateCluster_after lastInFile =
     io_bind FatReader_AllocateCluster (\<lambda>out.
     io_bind (io_put (\<lambda>st. st\<lparr>ed_fatRaw := FatReader_Set (ed_fatRaw st) (unat lastInFile) out\<rparr>)) (\<lambda>_.
     io_return out))"

text \<open>The product is formed with 32 bits and widened afterwards.\<close>

definition ClusterFileOffset :: "FatSuper \<Rightarrow> u32 \<Rightarrow> u64" where
  "ClusterFileOffset s index = ucast (FatSuper_ClusterIndex2Sector s index * ucast (FatSuper_BytesPerSector s) :: u32)"

definition FatReader_BytesPerCluster :: "FatSuper \<Rightarrow> nat" where
  "FatReader_BytesPerCluster s = unat (FatSuper_SectorsPerCluster s * ucast (FatSuper_BytesPerSector s) :: u32)"

subsection \<open>FileReader\<close>

record FileReader =
  rd_cluster :: u32
  rd_offset :: u32
  rd_size :: u32
  rd_totalRead :: nat

definition FileReader_new :: "u32 \<Rightarrow> u32 \<Rightarrow> FileReader" where
  "FileReader_new idx sz = \<lparr>rd_cluster = idx, rd_offset = 0, rd_size = sz, rd_totalRead = 0\<rparr>"

definition FileReader_DataLeftInCluster :: "FatSuper \<Rightarrow> FileReader \<Rightarrow> nat" where
  "FileReader_DataLeftInCluster s rd =
     (let max = FatReader_BytesPerCluster s;
          avail = (if unat (rd_offset rd) < max then max - unat (rd_offset rd) else 0)
      in if avail < unat (rd_size rd) then avail else unat (rd_size rd))"

definition FileReader_NextCluster :: "bytes \<Rightarrow> FileReader \<Rightarrow> exn + FileReader" where
  "FileReader_NextCluster fatRaw rd0 =
     (let rd = rd0\<lparr>rd_offset := 0\<rparr>
      in if rd_size rd = 0 then Inr (rd\<lparr>rd_cluster := 0\<rparr>)
         else case NextClusterInFile fatRaw (rd_cluster rd) of Inl e \<Rightarrow> Inl e
           | Inr ent \<Rightarrow> if ent < 2 \<or> ent \<ge> 0x0FFFFFF8 then Inr (rd\<lparr>rd_size := 0, rd_cluster := 0\<rparr>)
               else Inr (rd\<lparr>rd_cluster := ent\<rparr>))"

text \<open>The head of a round: the bytes left in the cluster, stepping to the next one when none are.\<close>

definition FileReader_Read_diff :: "FatSuper \<Rightarrow> bytes \<Rightarrow> FileReader \<Rightarrow> exn + nat \<times> FileReader" where
  "FileReader_Read_diff s fatRaw rd =
     (let diff = FileReader_DataLeftInCluster s rd
      in if diff = 0 then
           (case FileReader_NextCluster fatRaw rd of Inl e \<Rightarrow> Inl e
            | Inr rd1 \<Rightarrow> Inr (FileReader_DataLeftInCluster s rd1, rd1))
         else Inr (diff, rd))"

partial_function (option) FileReader_Read_loop ::
    "'s Posix \<Rightarrow> nat \<Rightarrow> bytes \<Rightarrow> FileReader \<Rightarrow> 's Edit \<Rightarrow> ((exn + bytes \<times> FileReader) \<times> 's Edit) option" where
  "FileReader_Read_loop P sz data rd st =
     (if sz > 0 then
        (case FileReader_Read_diff (ed_super st) (ed_fatRaw st) rd of
           Inl e \<Rightarrow> Some (Inl e, st)
         | Inr (diff0, rd1) \<Rightarrow>
             if diff0 = 0 then Some (Inr (data, rd1), st)
             else
               let offset = ClusterFileOffset (ed_super st) (rd_cluster rd1) + ucast (rd_offset rd1);
                   diff = (if diff0 > sz then sz else diff0)
               in io_bind (ed_ReadAt P offset diff) (\<lambda>d st1.
                    FileReader_Read_loop P (sz - diff) (data @ d)
                      (rd1\<lparr>rd_offset := rd_offset rd1 + of_nat diff, rd_size := rd_size rd1 - of_nat diff\<rparr>) st1) st)
      else Some (Inr (data, rd), st))"

definition FileReader_Read :: "'s Posix \<Rightarrow> FileReader \<Rightarrow> nat \<Rightarrow> ('s Edit, bytes \<times> FileReader) io" where
  "FileReader_Read P rd sz =
     io_bind (FileReader_Read_loop P sz [] rd) (\<lambda>(data, rd').
     io_return (data, rd'\<lparr>rd_totalRead := rd_totalRead rd' + length data\<rparr>))"

subsection \<open>FileWriter\<close>

record FileWriter =
  wr_cluster :: u32
  wr_offset :: u32
  wr_firstCluster :: u32
  wr_totalSize :: u32

definition FileWriter_create :: "('s Edit, FileWriter) io" where
  "FileWriter_create =
     io_bind FatReader_AllocateCluster (\<lambda>c.
     io_return \<lparr>wr_cluster = c, wr_offset = 0, wr_firstCluster = c, wr_totalSize = 0\<rparr>)"

text \<open>The loop of the other constructor: it ends unless clusters have no bytes.\<close>

partial_function (option) FileWriter_seek ::
    "nat \<Rightarrow> u32 \<Rightarrow> u32 \<Rightarrow> 's Edit \<Rightarrow> ((exn + u32 \<times> u32) \<times> 's Edit) option" where
  "FileWriter_seek clusterSize cluster sz st =
     (if unat sz > clusterSize then
        (case NextClusterInFile (ed_fatRaw st) cluster of Inl e \<Rightarrow> Some (Inl e, st)
         | Inr ent \<Rightarrow>
             if ent < 2 \<or> ent \<ge> 0x0FFFFFF8
             then Some (Inl (Runtime_error (text_bytes ''Error following cluster chain'')), st)
             else FileWriter_seek clusterSize ent (sz - of_nat clusterSize) st)
      else Some (Inr (cluster, sz), st))"

definition FileWriter_open :: "u32 \<Rightarrow> u32 \<Rightarrow> ('s Edit, FileWriter) io" where
  "FileWriter_open idx sz =
     io_bind (io_get ed_super) (\<lambda>s.
     io_bind (FileWriter_seek (FatReader_BytesPerCluster s) idx sz) (\<lambda>(cluster, rest).
     io_bind (io_get (\<lambda>st. NextClusterInFile (ed_fatRaw st) cluster)) (\<lambda>r.
     io_bind (io_lift r) (\<lambda>ent.
       if ent < 0x0FFFFFF8
       then io_throw (Runtime_error (text_bytes ''Cluster chain not properly termminated''))
       else io_return \<lparr>wr_cluster = cluster, wr_offset = rest, wr_firstCluster = idx, wr_totalSize = sz\<rparr>))))"

definition FileWriter_SpaceAvailable :: "FatSuper \<Rightarrow> FileWriter \<Rightarrow> nat" where
  "FileWriter_SpaceAvailable s wr = unat (of_nat (FatReader_BytesPerCluster s) - ucast (wr_offset wr) :: u64)"

partial_function (option) FileWriter_Append ::
    "'s Posix \<Rightarrow> bytes \<Rightarrow> FileWriter \<Rightarrow> 's Edit \<Rightarrow> ((exn + FileWriter) \<times> 's Edit) option" where
  "FileWriter_Append P data wr st =
     (if length data > 0 then
        (let diff0 = FileWriter_SpaceAvailable (ed_super st) wr;
             diff = (if diff0 > length data then length data else diff0)
         in if diff = 0 then
              io_bind (FatReader_AllocateCluster_after (wr_cluster wr)) (\<lambda>c st1.
                FileWriter_Append P data (wr\<lparr>wr_cluster := c, wr_offset := 0\<rparr>) st1) st
            else
              io_bind (ed_WriteAt P (ClusterFileOffset (ed_super st) (wr_cluster wr) + ucast (wr_offset wr))
                  (take diff data)) (\<lambda>_ st1.
                FileWriter_Append P (drop diff data)
                  (wr\<lparr>wr_offset := wr_offset wr + of_nat diff, wr_totalSize := wr_totalSize wr + of_nat diff\<rparr>) st1) st)
      else Some (Inr wr, st))"

subsection \<open>ScanDirectory\<close>

record DirEntry =
  en_shortName :: bytes
  en_longName :: bytes
  en_size :: u32
  en_firstCluster :: u32
  en_isDirectory :: bool

text \<open>The further entries of a long name, \<^verbatim>\<open>n\<close> of them; \<^verbatim>\<open>None\<close> is the return value false.\<close>

fun ScanDirectory_more :: "'s Posix \<Rightarrow> nat \<Rightarrow> FatDirentLong list \<Rightarrow> FileReader \<Rightarrow>
    ('s Edit, (FatDirentLong list \<times> FileReader) option) io" where
  "ScanDirectory_more P 0 lEntList rd = io_return (Some (lEntList, rd))"
| "ScanDirectory_more P (Suc n) lEntList rd =
     io_bind (FileReader_Read P rd 32) (\<lambda>(d, rd1).
       if length d < 32
       then io_bind (ed_error (text_bytes ''Not enouth space for long name list!'')) (\<lambda>_. io_return None)
       else
         let lEnt = FatDirentLong_of_bytes d
         in if \<not> FlagField_IsSet (FatDirentLong_EntryFlags lEnt) Flags_LongFileName \<or> FatDirentLong_IsLast lEnt
            then io_bind (ed_error (text_bytes ''Broken long name entry!'')) (\<lambda>_. io_return None)
            else ScanDirectory_more P n (lEntList @ [lEnt]) rd1)"

definition long_sequence_ok :: "u8 \<Rightarrow> FatDirentLong list \<Rightarrow> bool" where
  "long_sequence_ok chksum lEntList \<longleftrightarrow> (\<forall>i \<in> set [0 ..< length lEntList].
     unat (FatDirentLong_SequenceNumber (lEntList ! i)) = i + 1 \<and>
     FatDirentLong_ShortNameChecksum (lEntList ! i) = chksum)"

definition ScanDirectory_long :: "'s Posix \<Rightarrow> bytes \<Rightarrow> FileReader \<Rightarrow>
    ('s Edit, (FatDirentLong list \<times> FatDirent \<times> FileReader) option) io" where
  "ScanDirectory_long P d0 rd =
     (let lEnt = FatDirentLong_of_bytes d0;
          count = FatDirentLong_SequenceNumber lEnt;
          chksum = FatDirentLong_ShortNameChecksum lEnt;
          fail = (\<lambda>msg. io_bind (ed_error msg) (\<lambda>_. io_return None))
      in if \<not> FatDirentLong_IsLast lEnt \<or> count < 1
         then fail (text_bytes ''Long name list needs to begin with last entry!'')
         else
           io_bind (ScanDirectory_more P (unat count - 1) [lEnt] rd) (\<lambda>r.
           case r of None \<Rightarrow> io_return None
           | Some (lEntList0, rd1) \<Rightarrow>
               let lEntList = rev lEntList0
               in if \<not> long_sequence_ok chksum lEntList then fail (text_bytes ''Broken long filename sequence!'')
                  else
                    io_bind (FileReader_Read P rd1 32) (\<lambda>(d, rd2).
                      let sEnt = FatDirent_of_bytes d
                      in if length d < 32 then fail (text_bytes ''Long name entry not followed by short name!'')
                         else if FlagField_IsSet (FatDirent_EntryFlags sEnt) Flags_LongFileName
                         then fail (text_bytes ''Short name entry is broken!'')
                         else if FatDirent_Checksum sEnt \<noteq> chksum
                         then fail (text_bytes ''Short name checksum does not match!'')
                         else io_return (Some (lEntList, sEnt, rd2)))))"

text \<open>The long name is put together from the parts; an empty part is an error (\<^verbatim>\<open>None\<close>).\<close>

fun long_name :: "bytes \<Rightarrow> FatDirentLong list \<Rightarrow> bytes option" where
  "long_name acc [] = Some acc"
| "long_name acc (it # rest) =
     (let buffer = cstr (FatDirentLong_NameToString it)
      in if length buffer = 0 then None else long_name (acc @ buffer) rest)"

text \<open>The name is converted into an array of 12 characters.\<close>

definition ScanDirectory_entry :: "FatDirentLong list \<Rightarrow> FatDirent \<Rightarrow> ('s Edit, DirEntry option) io" where
  "ScanDirectory_entry lEntList sEnt =
     (case FatDirent_NameToString sEnt (replicate 12 0) of
        None \<Rightarrow> io_throw Fault
      | Some (ok, buffer) \<Rightarrow>
          if \<not> ok then io_bind (ed_error (text_bytes ''File with empty short name found!'')) (\<lambda>_. io_return None)
          else
            let shortName = cstr buffer
            in case long_name (if lEntList = [] then shortName else []) lEntList of
                 None \<Rightarrow> io_bind (ed_error (text_bytes ''File with empty long name found!'')) (\<lambda>_. io_return None)
               | Some longName \<Rightarrow> io_return (Some \<lparr>en_shortName = shortName, en_longName = longName,
                   en_size = FatDirent_Size sEnt, en_firstCluster = FatDirent_ClusterIndex sEnt,
                   en_isDirectory = FlagField_IsSet (FatDirent_EntryFlags sEnt) Flags_Directory\<rparr>))"

text \<open>The result is the list with the bytes read up to the end mark, \<^verbatim>\<open>None\<close> for false.\<close>

partial_function (option) ScanDirectory_loop ::
    "'s Posix \<Rightarrow> FileReader \<Rightarrow> DirEntry list \<Rightarrow> 's Edit \<Rightarrow>
     ((exn + (DirEntry list \<times> nat) option) \<times> 's Edit) option" where
  "ScanDirectory_loop P rd out st =
     io_bind (FileReader_Read P rd 32) (\<lambda>(d, rd1) st1.
       if length d < 32 then Some (Inr (Some (out, rd_totalRead rd1 - length d)), st1)
       else
         let sEnt = FatDirent_of_bytes d
         in if FatDirent_IsDummiedOut sEnt then ScanDirectory_loop P rd1 out st1
            else if FatDirent_IsLastInList sEnt then Some (Inr (Some (out, rd_totalRead rd1 - 32)), st1)
            else
              io_bind (if FlagField_IsSet (FatDirent_EntryFlags sEnt) Flags_LongFileName
                       then ScanDirectory_long P d rd1 else io_return (Some ([], sEnt, rd1))) (\<lambda>r st2.
                case r of None \<Rightarrow> Some (Inr None, st2)
                | Some (lEntList, sEnt1, rd2) \<Rightarrow>
                    io_bind (ScanDirectory_entry lEntList sEnt1) (\<lambda>r st3.
                      case r of None \<Rightarrow> Some (Inr None, st3)
                      | Some ent \<Rightarrow> ScanDirectory_loop P rd2 (out @ [ent]) st3) st2) st1) st"

definition ScanDirectory :: "'s Posix \<Rightarrow> FileReader \<Rightarrow> ('s Edit, (DirEntry list \<times> nat) option) io" where
  "ScanDirectory P rd = ScanDirectory_loop P rd []"

subsection \<open>Looking up files\<close>

definition root_entry :: "FatSuper \<Rightarrow> DirEntry" where
  "root_entry s = \<lparr>en_shortName = [], en_longName = [], en_size = 0,
     en_firstCluster = FatSuper_RootDirIndex s, en_isDirectory = True\<rparr>"

text \<open>The first entry whose long or short name is the component.\<close>

definition find_entry :: "bytes \<Rightarrow> DirEntry list \<Rightarrow> DirEntry option" where
  "find_entry name list = List.find (\<lambda>it. en_longName it = name \<or> en_shortName it = name) list"

fun FindFile_loop :: "'s Posix \<Rightarrow> bytes \<Rightarrow> DirEntry \<Rightarrow> bytes list \<Rightarrow> ('s Edit, DirEntry option) io" where
  "FindFile_loop P args ent [] = io_return (Some ent)"
| "FindFile_loop P args ent (name # path) =
     (if \<not> en_isDirectory ent
      then io_bind (ed_error (args @ text_bytes '': component is not a directory'')) (\<lambda>_. io_return None)
      else
        io_bind (ScanDirectory P (FileReader_new (en_firstCluster ent) 0xFFFFFFFF)) (\<lambda>r.
        case r of None \<Rightarrow> io_return None
        | Some (list, sz) \<Rightarrow>
            (case find_entry name list of
               None \<Rightarrow> io_bind (ed_error (name @ text_bytes '': no such file or directory'')) (\<lambda>_. io_return None)
             | Some it \<Rightarrow> FindFile_loop P args it path)))"

definition FindFile :: "'s Posix \<Rightarrow> bytes \<Rightarrow> ('s Edit, DirEntry option) io" where
  "FindFile P args =
     io_bind (io_get ed_super) (\<lambda>s. FindFile_loop P args (root_entry s) (SplitPath args))"

subsection \<open>Commands\<close>

fun ListDirectory_print :: "DirEntry list \<Rightarrow> ('s Edit, unit) io" where
  "ListDirectory_print [] = io_return ()"
| "ListDirectory_print (it # list) =
     io_bind (ed_print (en_longName it @ text_bytes '' ('' @ en_shortName it @ text_bytes ''), '' @
       number_text (unat (en_size it)))) (\<lambda>_.
     io_bind (if en_isDirectory it then ed_print (text_bytes '', directory'') else io_return ()) (\<lambda>_.
     io_bind (ed_print [10]) (\<lambda>_. ListDirectory_print list)))"

definition ListDirectory :: "'s Posix \<Rightarrow> bytes \<Rightarrow> ('s Edit, unit) io" where
  "ListDirectory P args =
     io_bind (FindFile P args) (\<lambda>r.
     case r of None \<Rightarrow> io_return ()
     | Some ent \<Rightarrow>
         if \<not> en_isDirectory ent then ed_error (args @ text_bytes '': not a directory'')
         else
           io_bind (ScanDirectory P (FileReader_new (en_firstCluster ent) 0xFFFFFFFF)) (\<lambda>r.
           case r of None \<Rightarrow> io_return () | Some (list, sz) \<Rightarrow> ListDirectory_print list))"

partial_function (option) DumpFile_loop ::
    "'s Posix \<Rightarrow> FileReader \<Rightarrow> 's Edit \<Rightarrow> ((exn + unit) \<times> 's Edit) option" where
  "DumpFile_loop P rd st =
     io_bind (FileReader_Read P rd 512) (\<lambda>(buffer, rd1) st1.
       if length buffer \<le> 0 then Some (Inr (), st1)
       else io_bind (ed_print buffer) (\<lambda>_ st2. DumpFile_loop P rd1 st2) st1) st"

definition DumpFile :: "'s Posix \<Rightarrow> bytes \<Rightarrow> ('s Edit, unit) io" where
  "DumpFile P args =
     io_bind (FindFile P args) (\<lambda>r.
     case r of None \<Rightarrow> io_return ()
     | Some ent \<Rightarrow>
         if en_isDirectory ent then ed_error (args @ text_bytes '': is a directory'')
         else DumpFile_loop P (FileReader_new (en_firstCluster ent) (en_size ent)))"

definition InitializeEmptyDirectory :: "'s Posix \<Rightarrow> u32 \<Rightarrow> ('s Edit, u32) io" where
  "InitializeEmptyDirectory P parentIdx =
     (let flags = FlagField_Set (0 :: u8) Flags_Directory
      in io_bind FileWriter_create (\<lambda>data.
         let dot = FatDirent_SetClusterIndex (FatDirent_SetEntryFlags
                     (FatDirent_SetName FatDirent_new (text_bytes ''.'')) flags) (wr_firstCluster data);
             dotdot = FatDirent_SetClusterIndex (FatDirent_SetEntryFlags
                     (FatDirent_SetName FatDirent_new (text_bytes ''..'')) flags) parentIdx
         in io_bind (FileWriter_Append P (FatDirent_bytes dot) data) (\<lambda>data1.
            io_bind (FileWriter_Append P (FatDirent_bytes dotdot) data1) (\<lambda>data2.
            io_bind (FileWriter_Append P (replicate 32 0) data2) (\<lambda>_.
            io_return (wr_firstCluster data))))))"

text \<open>All components but the last, joined with slashes.\<close>

fun join_path :: "bytes list \<Rightarrow> bytes" where
  "join_path [] = []"
| "join_path [x] = x"
| "join_path (x # y # rest) = x @ 47 # join_path (y # rest)"

definition FindParent :: "'s Posix \<Rightarrow> bytes list \<Rightarrow> ('s Edit, DirEntry option) io" where
  "FindParent P path =
     (if length path > 1 then
        let prefix = join_path (butlast path)
        in io_bind (FindFile P prefix) (\<lambda>r.
           case r of None \<Rightarrow> io_return None
           | Some parent \<Rightarrow>
               if \<not> en_isDirectory parent
               then io_bind (ed_error (prefix @ text_bytes '': not a directory'')) (\<lambda>_. io_return None)
               else io_return (Some parent))
      else io_bind (io_get ed_super) (\<lambda>s. io_return (Some (root_entry s))))"

text \<open>\<^verbatim>\<open>c_str\<close> hands the name over up to its first zero byte.\<close>

definition dirent_for :: "bool \<Rightarrow> bytes \<Rightarrow> u32 \<Rightarrow> nat \<Rightarrow> FatDirent" where
  "dirent_for isDir name fileCluster fileSize =
     (let ent0 = (if 46 \<notin> set name then FatDirent_SetName FatDirent_new (cstr name)
                  else
                    let pos = count_while (\<lambda>c. c \<noteq> 46) name
                    in FatDirent_SetExtension (FatDirent_SetName FatDirent_new (cstr (take pos name)))
                         (cstr (drop (pos + 1) name)));
          ent1 = FatDirent_SetClusterIndex ent0 fileCluster
      in if isDir then FatDirent_SetEntryFlags ent1 (FlagField_Set (0 :: u8) Flags_Directory)
         else FatDirent_SetSize ent1 (of_nat fileSize))"

definition AppendDirectoryEntry ::
    "'s Posix \<Rightarrow> u32 \<Rightarrow> nat \<Rightarrow> bool \<Rightarrow> bytes \<Rightarrow> u32 \<Rightarrow> nat \<Rightarrow> ('s Edit, unit) io" where
  "AppendDirectoryEntry P cluster sz isDir name fileCluster fileSize =
     (let ent = dirent_for isDir name fileCluster fileSize
      in io_bind (FileWriter_open cluster (of_nat sz)) (\<lambda>parentDir.
         io_bind (FileWriter_Append P (FatDirent_bytes ent) parentDir) (\<lambda>parentDir1.
         io_bind (FileWriter_Append P (replicate 32 0) parentDir1) (\<lambda>_. io_return ()))))"

text \<open>Returns the size of the directory when the name is not in it.\<close>

definition CheckEntryNotInDir :: "'s Posix \<Rightarrow> u32 \<Rightarrow> bytes \<Rightarrow> ('s Edit, nat option) io" where
  "CheckEntryNotInDir P cluster name =
     io_bind (ScanDirectory P (FileReader_new cluster 0xFFFFFFFF)) (\<lambda>r.
     case r of None \<Rightarrow> io_return None
     | Some (entries, actualSize) \<Rightarrow>
         if \<exists>it \<in> set entries. en_shortName it = name \<or> en_longName it = name
         then io_bind (ed_error (name @ text_bytes '': already exists'')) (\<lambda>_. io_return None)
         else io_return (Some actualSize))"

definition CreateDirectory :: "'s Posix \<Rightarrow> bytes \<Rightarrow> ('s Edit, unit) io" where
  "CreateDirectory P args =
     (let path = SplitPath args
      in if path = [] then io_return ()
         else
           let name = last path
           in if \<not> IsShortName (cstr name) then ed_error (name @ text_bytes ('': is not a short name (sor'' @ ''ry)''))
              else if 46 \<in> set name then ed_error (name @ text_bytes '': directory name must not contain `.`'')
              else
                io_bind (FindParent P path) (\<lambda>r.
                case r of None \<Rightarrow> io_return ()
                | Some parent \<Rightarrow>
                    io_bind (CheckEntryNotInDir P (en_firstCluster parent) name) (\<lambda>r.
                    case r of None \<Rightarrow> io_return ()
                    | Some actualSize \<Rightarrow>
                        io_bind (InitializeEmptyDirectory P (en_firstCluster parent)) (\<lambda>index.
                        AppendDirectoryEntry P (en_firstCluster parent) actualSize True name index 0))))"

partial_function (option) PackDirectory_loop ::
    "'s Posix \<Rightarrow> int \<Rightarrow> FileWriter \<Rightarrow> 's Edit \<Rightarrow> ((exn + FileWriter) \<times> 's Edit) option" where
  "PackDirectory_loop P infile wr st =
     io_bind (ed_call (File_Read P infile 512)) (\<lambda>buffer st1.
       if length buffer = 0 then Some (Inr wr, st1)
       else io_bind (FileWriter_Append P buffer wr) (\<lambda>wr1 st2. PackDirectory_loop P infile wr1 st2) st1) st"

definition PackDirectory :: "'s Posix \<Rightarrow> bytes \<Rightarrow> ('s Edit, unit) io" where
  "PackDirectory P args0 =
     (let count = count_while (\<lambda>c. \<not> isspace c) args0
      in if count \<ge> length args0 then io_return ()
         else
           let input = take count args0;
               count1 = count + count_while isspace (drop count args0)
           in if count1 \<ge> length args0 then io_throw Out_of_range
              else
                let path = SplitPath (drop count1 args0)
                in if path = [] then io_return ()
                   else
                     let name = last path
                     in if \<not> IsShortName (cstr name)
                        then ed_error (name @ text_bytes ('': is not a short name (sor'' @ ''ry)''))
                        else
                          io_bind (FindParent P path) (\<lambda>r.
                          case r of None \<Rightarrow> io_return ()
                          | Some parent \<Rightarrow>
                              io_bind (CheckEntryNotInDir P (en_firstCluster parent) name) (\<lambda>r.
                              case r of None \<Rightarrow> io_return ()
                              | Some parentDirSize \<Rightarrow>
                                  io_bind (ed_call (File_open P (cstr input) True)) (\<lambda>infile.
                                  io_bind FileWriter_create (\<lambda>wr.
                                  io_bind (PackDirectory_loop P infile wr) (\<lambda>wr1.
                                  io_bind (ed_print (text_bytes ''Packed `'' @ input @ text_bytes ''`'' @ [10])) (\<lambda>_.
                                  AppendDirectoryEntry P (en_firstCluster parent) parentDirSize False name
                                    (wr_firstCluster wr1) (unat (wr_totalSize wr1)))))))))"

subsection \<open>The program\<close>

definition run_command :: "'s Posix \<Rightarrow> bytes \<Rightarrow> ('s Edit, unit) io" where
  "run_command P line =
     (case MatchCommand line (text_bytes ''dir'') of (True, args) \<Rightarrow> ListDirectory P args
      | (False, line1) \<Rightarrow>
     (case MatchCommand line1 (text_bytes ''type'') of (True, args) \<Rightarrow> DumpFile P args
      | (False, line2) \<Rightarrow>
     (case MatchCommand line2 (text_bytes ''mkdir'') of (True, args) \<Rightarrow> CreateDirectory P args
      | (False, line3) \<Rightarrow>
     (case MatchCommand line3 (text_bytes ''pack'') of (True, args) \<Rightarrow> PackDirectory P args
      | (False, line4) \<Rightarrow> ed_error (text_bytes ''Unknown command `'' @ line4 @ text_bytes ''`'')))))"

fun run_lines :: "'s Posix \<Rightarrow> bool \<Rightarrow> bytes list \<Rightarrow> ('s Edit, unit) io" where
  "run_lines P tty [] = (if tty then ed_print (text_bytes ''C:'' @ [92] @ text_bytes ''> '') else io_return ())"
| "run_lines P tty (input # lines) =
     io_bind (if tty then ed_print (text_bytes ''C:'' @ [92] @ text_bytes ''> '') else io_return ()) (\<lambda>_.
     let line = trim input
     in io_bind (if line = [] \<or> fst (MatchCommand line (text_bytes ''rem'')) then io_return ()
                 else run_command P line) (\<lambda>_.
        run_lines P tty lines))"

definition edit_session :: "'s Posix \<Rightarrow> bool \<Rightarrow> bytes list \<Rightarrow> ('s Edit, int) io" where
  "edit_session P tty lines =
     io_bind (ed_ReadAt P 0 512) (\<lambda>sector.
     io_bind (io_put (\<lambda>st. st\<lparr>ed_super := FatSuper_of_bytes sector\<rparr>)) (\<lambda>_.
     io_bind (FatReader_LoadFromImage P) (\<lambda>_.
     io_bind (run_lines P tty lines) (\<lambda>_.
     io_bind (FatReader_WriteToImage P) (\<lambda>_.
     io_bind (io_get ed_super) (\<lambda>s.
     io_bind (ed_WriteAt P 0 (FatSuper_bytes s)) (\<lambda>_.
     io_bind (if FatSuper_BackupIndex s > 0 \<and> FatSuper_BackupIndex s < FatSuper_ReservedSectors s
              then io_bind (io_lift (int_mul (FatSuper_BackupIndex s) (FatSuper_BytesPerSector s))) (\<lambda>offset.
                     ed_WriteAt P (ucast offset) (FatSuper_bytes s))
              else io_return ()) (\<lambda>_.
     io_return 0))))))))"

text \<open>
  \<^verbatim>\<open>main\<close> with its arguments behind the program name and the lines of the standard input. Failing
  to open the image is the one exception that is caught; the text printed then is the system's.
\<close>

definition fatedit_main :: "'s Posix \<Rightarrow> bool \<Rightarrow> bytes list \<Rightarrow> bytes list \<Rightarrow> ('s Edit, int) io" where
  "fatedit_main P tty argv lines st =
     (if length argv \<noteq> 1 \<or> argv ! 0 = text_bytes ''--help'' \<or> argv ! 0 = text_bytes ''-h''
      then io_bind (ed_error (text_bytes ''Usage: fatedit <image>'' @ [10, 10] @
             text_bytes ''edit commands are read from STDIN'')) (\<lambda>_. io_return 1) st
      else
        (case ed_call (File_open P (argv ! 0) False) st of
           None \<Rightarrow> None
         | Some (Inl e, st1) \<Rightarrow> Some (Inr 1, st1)
         | Some (Inr fd, st1) \<Rightarrow> edit_session P tty lines (st1\<lparr>ed_file := fd\<rparr>)))"

end
