(* ===== verification/Fat_Edit_Correct.thy ===== *)
theory Fat_Edit_Correct
  imports Fat_Edit
begin

text \<open>
  Correctness of the volume editor: the FAT in memory as a function from clusters to entries,
  allocation of free clusters, and files as the bytes of the clusters along a chain, which
  \<^verbatim>\<open>FileReader\<close> reads and \<^verbatim>\<open>FileWriter\<close> extends. The lemmas about files are proved for every
  system that keeps the contract \<^verbatim>\<open>reliable_posix\<close>.
\<close>

subsection \<open>Entries of the FAT\<close>

definition raw_word :: "bytes \<Rightarrow> nat \<Rightarrow> u32" where
  "raw_word raw n = le32 (raw ! (4 * n)) (raw ! (4 * n + 1)) (raw ! (4 * n + 2)) (raw ! (4 * n + 3))"

text \<open>The entry, without its reserved bits.\<close>

definition raw_entry :: "bytes \<Rightarrow> nat \<Rightarrow> u32" where
  "raw_entry raw n = le32 (raw ! (4 * n)) (raw ! (4 * n + 1)) (raw ! (4 * n + 2)) (raw ! (4 * n + 3))
     AND 0x0FFFFFFF"

lemma raw_word_entry: "raw_entry raw n = raw_word raw n AND 0x0FFFFFFF"
  by (simp add: raw_entry_def raw_word_def)

lemma raw_entry_less: "raw_entry raw n < 0x10000000"
proof -
  have "raw_entry raw n \<le> 0x0FFFFFFF" unfolding raw_entry_def by (rule word_and_le1)
  then show ?thesis by (simp add: word_le_nat_alt word_less_nat_alt)
qed

lemma unat_times_4: "unat c < 2 ^ 30 \<Longrightarrow> unat ((c :: u32) * 4) = 4 * unat c"
  by (simp add: unat_word_ariths)

lemma NextClusterInFile_eq:
  assumes "unat c < 2 ^ 30"
  shows "NextClusterInFile raw c = (if 4 * unat c + 4 \<le> length raw then Inr (raw_entry raw (unat c)) else Inl Out_of_range)"
proof -
  have "unat (c * 4) = 4 * unat c" using assms by (rule unat_times_4)
  then show ?thesis
    by (auto simp: NextClusterInFile_def vector_at_def raw_entry_def le32_def Let_def)
qed

lemma length_FatReader_Set [simp]: "length (FatReader_Set raw n v) = length raw"
  by (simp add: FatReader_Set_def Let_def)

lemma le32_mask: "le32 (ucast (v AND 0xFF)) (ucast (drop_bit 8 v AND 0xFF)) (ucast (drop_bit 16 v AND 0xFF))
    (ucast (drop_bit 24 v AND 0x0F)) = v AND 0x0FFFFFFF"
proof -
  have m: "(0x0F :: u32) = mask 4" "(0x0FFFFFFF :: u32) = mask 28" by (simp_all add: mask_eq_exp_minus_1)
  show ?thesis unfolding le32_def m ucast_and_255
    by (rule bit_word_eqI) (auto simp: bit_simps)
qed

lemma raw_word_Set:
  assumes "4 * n + 4 \<le> length raw"
  shows "raw_word (FatReader_Set raw n v) m = (if m = n then v AND 0x0FFFFFFF else raw_word raw m)"
proof (cases "m = n")
  case True
  have "\<not> length raw - 3 \<le> 4 * n" using assms by linarith
  with True show ?thesis using assms
    by (simp add: FatReader_Set_def raw_word_def Let_def le32_mask [simplified] mult.commute [of n 4])
next
  case False
  have "FatReader_Set raw n v ! (4 * m + k) = raw ! (4 * m + k)" if "k < 4" for k
  proof -
    have "4 * m + k \<noteq> 4 * n + j" if "j < 4" for j using False that \<open>k < 4\<close> by presburger
    from this [of 0] this [of 1] this [of 2] this [of 3] show ?thesis
      by (simp add: FatReader_Set_def Let_def mult.commute [of n 4])
  qed
  from this [of 0] this [of 1] this [of 2] this [of 3] False show ?thesis by (simp add: raw_word_def)
qed

lemma raw_entry_Set:
  assumes "4 * n + 4 \<le> length raw"
  shows "raw_entry (FatReader_Set raw n v) m = (if m = n then v AND 0x0FFFFFFF else raw_entry raw m)"
  by (simp add: raw_word_entry raw_word_Set [OF assms] and.assoc)

subsection \<open>Allocation\<close>

text \<open>The number of entries the search looks at, from the geometry of the volume.\<close>

definition cluster_total :: "FatSuper \<Rightarrow> nat" where
  "cluster_total s = (unat (FatSuper_SectorCount s) - unat (FatSuper_NumFats s) * unat (FatSuper_SectorsPerFat s) -
     unat (FatSuper_ReservedSectors s)) div unat (FatSuper_SectorsPerCluster s)"

text \<open>A geometry without overflow, with room for data, whose FAT covers the clusters.\<close>

definition geometry :: "FatSuper \<Rightarrow> bytes \<Rightarrow> bool" where
  "geometry s raw \<longleftrightarrow>
     unat (FatSuper_NumFats s) * unat (FatSuper_SectorsPerFat s) + unat (FatSuper_ReservedSectors s)
       < unat (FatSuper_SectorCount s) \<and>
     0 < unat (FatSuper_SectorsPerCluster s) \<and> 0 < unat (FatSuper_BytesPerSector s) \<and>
     unat (FatSuper_SectorCount s) * unat (FatSuper_BytesPerSector s) < 2 ^ 32 \<and>
     4 * cluster_total s \<le> length raw \<and> cluster_total s < 0x0FFFFFF0"

lemma FindFreeCluster_loop_eq:
  assumes "4 * (i + n) \<le> length raw" "i + n < 2 ^ 28"
  shows "FindFreeCluster_loop raw i n =
    (case List.find (\<lambda>k. raw_entry raw k = 0) [i ..< i + n] of None \<Rightarrow> Inr 0xFFFFFFF8 | Some k \<Rightarrow> Inr (of_nat k))"
  using assms
proof (induction n arbitrary: i)
  case (Suc n)
  have "unat (of_nat i :: u32) = i" using Suc.prems by (intro unat_of_nat_u32) simp
  moreover have "[i ..< i + Suc n] = i # [Suc i ..< Suc i + n]" by (simp add: upt_rec)
  ultimately show ?case using Suc.IH [of "Suc i"] Suc.prems by (simp add: NextClusterInFile_eq)
qed simp

lemma FindFreeCluster_eq:
  assumes "geometry s raw"
  shows "FatReader_FindFreeCluster s raw =
    (case List.find (\<lambda>k. raw_entry raw k = 0) [0 ..< cluster_total s] of
       None \<Rightarrow> Inr 0xFFFFFFF8 | Some k \<Rightarrow> Inr (of_nat k))"
proof -
  let ?nf = "FatSuper_NumFats s" and ?spf = "FatSuper_SectorsPerFat s" and ?n = "FatSuper_SectorCount s"
    and ?res = "ucast (FatSuper_ReservedSectors s) :: u32" and ?spc = "FatSuper_SectorsPerCluster s"
  note g = assms [unfolded geometry_def]
  have n: "unat ?n < 2 ^ 32" by (simp add: unat_lt_u32)
  have fats: "unat (?spf * ?nf) = unat ?nf * unat ?spf"
  proof -
    have "unat ?nf * unat ?spf < 2 ^ 32" using g n by linarith
    then show ?thesis by (simp add: unat_word_ariths mult.commute)
  qed
  have t1: "unat (?n - ?spf * ?nf) = unat ?n - unat ?nf * unat ?spf" "\<not> ?n \<le> ?spf * ?nf"
    using g fats by (simp_all add: unat_sub word_le_nat_alt)
  have res: "unat ?res = unat (FatSuper_ReservedSectors s)" by simp
  have lt: "unat ?res < unat (?n - ?spf * ?nf)" using g unfolding t1(1) res by linarith
  have t2: "unat (?n - ?spf * ?nf - ?res) = unat ?n - unat ?nf * unat ?spf - unat (FatSuper_ReservedSectors s)"
    "\<not> ?n - ?spf * ?nf \<le> ?res"
    using lt t1(1) res by (simp_all add: unat_sub word_le_nat_alt del: diff_diff_left)
  have t3: "unat ((?n - ?spf * ?nf - ?res) div ?spc) = cluster_total s"
    using t2 by (simp add: unat_div cluster_total_def)
  have spc: "?spc \<noteq> 0" using g by auto
  have zero: "(?n - ?spf * ?nf - ?res) div ?spc < 1 \<longleftrightarrow> cluster_total s = 0"
    using t3 by (simp add: word_less_nat_alt)
  show ?thesis
    using t1(2) t2(2) spc zero t3 g FindFreeCluster_loop_eq [of 0 "cluster_total s" raw]
    by (auto simp: FatReader_FindFreeCluster_def Let_def)
qed

definition first_free :: "FatSuper \<Rightarrow> bytes \<Rightarrow> nat option" where
  "first_free s raw = List.find (\<lambda>k. raw_entry raw k = 0) [0 ..< cluster_total s]"

lemma first_free_Some:
  assumes "first_free s raw = Some k"
  shows "k < cluster_total s" "raw_entry raw k = 0" "\<forall>j < k. raw_entry raw j \<noteq> 0"
proof -
  obtain i where i: "i < length [0 ..< cluster_total s]" "raw_entry raw ([0 ..< cluster_total s] ! i) = 0"
    "k = [0 ..< cluster_total s] ! i" "\<forall>j < i. raw_entry raw ([0 ..< cluster_total s] ! j) \<noteq> 0"
    using assms unfolding first_free_def by (auto simp: find_Some_iff)
  then show "k < cluster_total s" "raw_entry raw k = 0" "\<forall>j < k. raw_entry raw j \<noteq> 0" by auto
qed

lemma first_free_None: "first_free s raw = None \<longleftrightarrow> (\<forall>k < cluster_total s. raw_entry raw k \<noteq> 0)"
  by (auto simp: first_free_def find_None_iff)

definition no_space :: exn where
  "no_space = Runtime_error (text_bytes ''No free cluster available'')"

lemma AllocateCluster_eq:
  assumes "geometry (ed_super st) (ed_fatRaw st)"
  shows "FatReader_AllocateCluster st = (case first_free (ed_super st) (ed_fatRaw st) of
      None \<Rightarrow> Some (Inl no_space, st)
    | Some k \<Rightarrow> Some (Inr (of_nat k), st\<lparr>ed_fatRaw := FatReader_Set (ed_fatRaw st) k 0x0FFFFFF8\<rparr>))"
proof (cases "first_free (ed_super st) (ed_fatRaw st)")
  case None
  then show ?thesis using FindFreeCluster_eq [OF assms]
    by (simp add: FatReader_AllocateCluster_def io_simps first_free_def no_space_def)
next
  case (Some k)
  have k: "k < 0x0FFFFFF0" using first_free_Some(1) [OF Some] assms by (simp add: geometry_def)
  then have u: "unat (of_nat k :: u32) = k" by (intro unat_of_nat_u32) simp
  then have "\<not> (of_nat k :: u32) \<ge> 0x0FFFFFF8" using k by (simp add: word_le_nat_alt)
  then show ?thesis using FindFreeCluster_eq [OF assms] Some u
    by (simp add: FatReader_AllocateCluster_def io_simps first_free_def)
qed

text \<open>
  On a volume with a sound geometry, \<^verbatim>\<open>AllocateCluster\<close> either returns the first cluster
  whose entry is zero and marks it as the end of a chain, leaving every other entry as it is, or
  throws when all entries it looks at are in use.
\<close>

theorem AllocateCluster_first_free:
  assumes "geometry (ed_super st) (ed_fatRaw st)"
  shows "(\<forall>k < cluster_total (ed_super st). raw_entry (ed_fatRaw st) k \<noteq> 0) \<and>
       FatReader_AllocateCluster st = Some (Inl no_space, st) \<or>
     (\<exists>k raw'. k < cluster_total (ed_super st) \<and> raw_entry (ed_fatRaw st) k = 0 \<and>
       (\<forall>j < k. raw_entry (ed_fatRaw st) j \<noteq> 0) \<and>
       FatReader_AllocateCluster st = Some (Inr (of_nat k), st\<lparr>ed_fatRaw := raw'\<rparr>) \<and>
       length raw' = length (ed_fatRaw st) \<and> raw_entry raw' k = 0x0FFFFFF8 \<and>
       (\<forall>j. j \<noteq> k \<longrightarrow> raw_entry raw' j = raw_entry (ed_fatRaw st) j))"
proof (cases "first_free (ed_super st) (ed_fatRaw st)")
  case None
  then show ?thesis using AllocateCluster_eq [OF assms] None [unfolded first_free_None] by simp
next
  case (Some k)
  note k = first_free_Some [OF Some]
  have "4 * k + 4 \<le> length (ed_fatRaw st)" using k(1) assms unfolding geometry_def by linarith
  then show ?thesis using AllocateCluster_eq [OF assms] Some k
    by (intro disjI2 exI [of _ k] exI [of _ "FatReader_Set (ed_fatRaw st) k 0x0FFFFFF8"])
      (simp add: raw_entry_Set)
qed

subsection \<open>Clusters and chains\<close>

definition cluster_size :: "FatSuper \<Rightarrow> nat" where
  "cluster_size s = unat (FatSuper_SectorsPerCluster s) * unat (FatSuper_BytesPerSector s)"

definition cluster_pos :: "FatSuper \<Rightarrow> nat \<Rightarrow> nat" where
  "cluster_pos s c = (unat (FatSuper_ReservedSectors s) + unat (FatSuper_NumFats s) * unat (FatSuper_SectorsPerFat s))
     * unat (FatSuper_BytesPerSector s) + (c - 2) * cluster_size s"

definition cluster_data :: "FatSuper \<Rightarrow> bytes \<Rightarrow> nat \<Rightarrow> bytes" where
  "cluster_data s img c = subbytes (cluster_pos s c) (cluster_size s) img"

text \<open>A cluster the editor may touch: a data cluster that the FAT covers.\<close>

definition data_cluster :: "FatSuper \<Rightarrow> nat \<Rightarrow> bool" where
  "data_cluster s c \<longleftrightarrow> 2 \<le> c \<and> c < cluster_total s"

text \<open>A chain of clusters from the first to the one whose entry is an end mark.\<close>

definition is_chain :: "FatSuper \<Rightarrow> bytes \<Rightarrow> nat list \<Rightarrow> bool" where
  "is_chain s raw cs \<longleftrightarrow> cs \<noteq> [] \<and> distinct cs \<and> (\<forall>c \<in> set cs. data_cluster s c) \<and>
     (\<forall>i. Suc i < length cs \<longrightarrow> raw_entry raw (cs ! i) = of_nat (cs ! Suc i)) \<and>
     0x0FFFFFF8 \<le> raw_entry raw (last cs)"

definition chain_data :: "FatSuper \<Rightarrow> bytes \<Rightarrow> nat list \<Rightarrow> bytes" where
  "chain_data s img cs = concat (map (cluster_data s img) cs)"

lemma BytesPerCluster_eq: "FatReader_BytesPerCluster s = cluster_size s"
proof -
  have "unat (FatSuper_SectorsPerCluster s) < 2 ^ 8"
    using unsigned_less [of "fs_sectorsPerCluster s"] by (simp add: FatSuper_SectorsPerCluster_def)
  moreover have "unat (FatSuper_BytesPerSector s) < 2 ^ 16"
    using unsigned_less [of "FatSuper_BytesPerSector s"] by simp
  ultimately have "unat (FatSuper_SectorsPerCluster s) * unat (FatSuper_BytesPerSector s) < 2 ^ 8 * 2 ^ 16"
    by (rule mult_strict_mono) simp_all
  then show ?thesis by (simp add: FatReader_BytesPerCluster_def cluster_size_def unat_word_ariths)
qed

lemma cluster_in_image:
  assumes "geometry s raw" "data_cluster s c"
  shows "cluster_pos s c + cluster_size s \<le> unat (FatSuper_SectorCount s) * unat (FatSuper_BytesPerSector s)"
proof -
  let ?f = "unat (FatSuper_NumFats s) * unat (FatSuper_SectorsPerFat s)" and ?r = "unat (FatSuper_ReservedSectors s)"
    and ?n = "unat (FatSuper_SectorCount s)" and ?p = "unat (FatSuper_SectorsPerCluster s)"
    and ?b = "unat (FatSuper_BytesPerSector s)"
  have "(c - 1) * ?p \<le> cluster_total s * ?p" using assms(2) unfolding data_cluster_def by (intro mult_right_mono) linarith+
  also have "\<dots> \<le> ?n - ?f - ?r" unfolding cluster_total_def by (rule div_times_less_eq_dividend)
  finally have "?r + ?f + (c - 1) * ?p \<le> ?n" using assms(1) unfolding geometry_def by linarith
  then have "(?r + ?f + (c - 1) * ?p) * ?b \<le> ?n * ?b" by (rule mult_right_mono) simp
  moreover have "c - 1 = Suc (c - 2)" using assms(2) unfolding data_cluster_def by linarith
  ultimately have "(?r + ?f) * ?b + (c - 2) * (?p * ?b) + ?p * ?b \<le> ?n * ?b"
    by (simp add: add_mult_distrib mult.assoc add.assoc add.commute [of "?p * ?b"])
  then show ?thesis by (simp add: cluster_pos_def cluster_size_def)
qed

lemma cluster_pos_sector: "cluster_pos s c = cluster_sector s c * unat (FatSuper_BytesPerSector s)"
  by (simp add: cluster_pos_def cluster_sector_def first_data_sector_def cluster_size_def algebra_simps)

lemma data_cluster_small:
  assumes "geometry s raw" "data_cluster s c"
  shows "c < 0x0FFFFFF0" "4 * c + 4 \<le> length raw" "unat (of_nat c :: u32) = c" "2 \<le> (of_nat c :: u32)"
    "(of_nat c :: u32) < 0x0FFFFFF0"
proof -
  show c: "c < 0x0FFFFFF0" "4 * c + 4 \<le> length raw" using assms unfolding geometry_def data_cluster_def by linarith+
  then show u: "unat (of_nat c :: u32) = c" by (intro unat_of_nat_u32) simp
  show "2 \<le> (of_nat c :: u32)" "(of_nat c :: u32) < 0x0FFFFFF0"
    using assms(2) c unfolding word_le_nat_alt word_less_nat_alt u by (simp_all add: data_cluster_def)
qed

lemma ClusterFileOffset_pos:
  assumes "geometry s raw" "data_cluster s c"
  shows "unat (ClusterFileOffset s (of_nat c)) = cluster_pos s c"
proof -
  note u = data_cluster_small(3) [OF assms]
  have "cluster_pos s c + cluster_size s < 2 ^ 32"
    using cluster_in_image [OF assms] assms(1) unfolding geometry_def by linarith
  then have p: "cluster_sector s c * unat (FatSuper_BytesPerSector s) < 2 ^ 32"
    unfolding cluster_pos_sector by linarith
  moreover have "cluster_sector s c \<le> cluster_sector s c * unat (FatSuper_BytesPerSector s)"
    using assms(1) by (simp add: geometry_def)
  ultimately have "cluster_sector s (unat (of_nat c :: u32)) < 2 ^ 32" unfolding u by linarith
  note sec = ClusterIndex2Sector_unat [OF this, unfolded u]
  have "unat (FatSuper_ClusterIndex2Sector s (of_nat c) * ucast (FatSuper_BytesPerSector s) :: u32) =
      cluster_sector s c * unat (FatSuper_BytesPerSector s)"
    using p by (simp add: unat_word_ariths sec)
  then show ?thesis unfolding ClusterFileOffset_def cluster_pos_sector by simp
qed

lemma clusters_apart:
  assumes "data_cluster s c" "data_cluster s d" "c \<noteq> d"
  shows "cluster_pos s c + cluster_size s \<le> cluster_pos s d \<or> cluster_pos s d + cluster_size s \<le> cluster_pos s c"
proof -
  have *: "cluster_pos s a + cluster_size s \<le> cluster_pos s b" if "2 \<le> a" "a < b" for a b
  proof -
    have "(Suc (a - 2)) * cluster_size s \<le> (b - 2) * cluster_size s" using that by (intro mult_right_mono) simp_all
    then show ?thesis by (simp add: cluster_pos_def)
  qed
  show ?thesis using * [of c d] * [of d c] assms unfolding data_cluster_def by (metis linorder_neqE_nat)
qed

lemma length_cluster_data:
  assumes "cluster_pos s c + cluster_size s \<le> length img"
  shows "length (cluster_data s img c) = cluster_size s"
  using assms by (simp add: cluster_data_def)

text \<open>The image is large enough for the sectors the super block announces.\<close>

definition volume :: "FatSuper \<Rightarrow> bytes \<Rightarrow> bytes \<Rightarrow> bool" where
  "volume s raw img \<longleftrightarrow> geometry s raw \<and>
     unat (FatSuper_SectorCount s) * unat (FatSuper_BytesPerSector s) \<le> length img \<and>
     raw_entry raw 0 \<noteq> 0 \<and> raw_entry raw 1 \<noteq> 0"

lemma volume_cluster:
  assumes "volume s raw img" "data_cluster s c"
  shows "cluster_pos s c + cluster_size s \<le> length img" "length (cluster_data s img c) = cluster_size s"
    "cluster_pos s c + cluster_size s < 2 ^ 32"
proof -
  have g: "geometry s raw" and i: "unat (FatSuper_SectorCount s) * unat (FatSuper_BytesPerSector s) \<le> length img"
    using assms(1) by (simp_all add: volume_def)
  note c = cluster_in_image [OF g assms(2)]
  show *: "cluster_pos s c + cluster_size s \<le> length img" using c i by linarith
  show "length (cluster_data s img c) = cluster_size s" using * by (rule length_cluster_data)
  show "cluster_pos s c + cluster_size s < 2 ^ 32" using c g unfolding geometry_def by linarith
qed

lemma cluster_size_pos: "geometry s raw \<Longrightarrow> 0 < cluster_size s"
  by (simp add: geometry_def cluster_size_def)

text \<open>A position in the chain and the bytes from there on.\<close>

lemma length_concat_same: "\<forall>x \<in> set xs. length x = k \<Longrightarrow> length (concat xs) = length xs * k"
  by (induction xs) auto

lemma drop_concat_same:
  assumes "\<forall>x \<in> set xs. length x = k" "i < length xs"
  shows "drop (i * k) (concat xs) = xs ! i @ drop (Suc i * k) (concat xs)"
  using assms
proof (induction xs arbitrary: i)
  case (Cons x xs)
  then show ?case by (cases i) auto
qed simp

lemma chain_data_drop:
  assumes "volume s raw img" "is_chain s raw cs" "i < length cs" "off \<le> cluster_size s"
  shows "drop (i * cluster_size s + off) (chain_data s img cs) =
    drop off (cluster_data s img (cs ! i)) @ drop (Suc i * cluster_size s) (chain_data s img cs)"
proof -
  have len: "\<forall>x \<in> set (map (cluster_data s img) cs). length x = cluster_size s"
    using volume_cluster(2) [OF assms(1)] assms(2) by (auto simp: is_chain_def)
  have "drop (i * cluster_size s + off) (chain_data s img cs) = drop off (drop (i * cluster_size s) (chain_data s img cs))"
    by (simp add: add.commute)
  also have "drop (i * cluster_size s) (chain_data s img cs) =
      cluster_data s img (cs ! i) @ drop (Suc i * cluster_size s) (chain_data s img cs)"
    unfolding chain_data_def using drop_concat_same [OF len] assms(3) by simp
  finally show ?thesis using assms(3,4) len by (simp add: nth_mem)
qed

subsection \<open>Reading\<close>

text \<open>A reader that is inside a cluster of the chain, and one that will deliver given bytes.\<close>

definition reader_in :: "FatSuper \<Rightarrow> bytes \<Rightarrow> nat list \<Rightarrow> nat \<Rightarrow> FileReader \<Rightarrow> bytes \<Rightarrow> bool" where
  "reader_in s img cs i rd rest \<longleftrightarrow> i < length cs \<and> rd_cluster rd = of_nat (cs ! i) \<and>
     unat (rd_offset rd) \<le> cluster_size s \<and>
     rest = take (unat (rd_size rd)) (drop (i * cluster_size s + unat (rd_offset rd)) (chain_data s img cs))"

definition reader_at :: "FatSuper \<Rightarrow> bytes \<Rightarrow> nat list \<Rightarrow> FileReader \<Rightarrow> bytes \<Rightarrow> bool" where
  "reader_at s img cs rd rest \<longleftrightarrow> rd_size rd = 0 \<and> rest = [] \<or> rd_size rd \<noteq> 0 \<and> (\<exists>i. reader_in s img cs i rd rest)"

lemma reader_at_new:
  assumes "is_chain s raw cs"
  shows "reader_at s img cs (FileReader_new (of_nat (hd cs)) n) (take (unat n) (chain_data s img cs))"
proof -
  have "0 < length cs" "hd cs = cs ! 0" using assms by (auto simp: is_chain_def hd_conv_nth)
  then have "reader_in s img cs 0 (FileReader_new (of_nat (hd cs)) n) (take (unat n) (chain_data s img cs))"
    by (simp add: reader_in_def FileReader_new_def)
  then show ?thesis by (cases "n = 0") (auto simp: reader_at_def FileReader_new_def)
qed

lemma DataLeft_eq:
  assumes "unat (rd_offset rd) \<le> cluster_size s"
  shows "FileReader_DataLeftInCluster s rd = min (cluster_size s - unat (rd_offset rd)) (unat (rd_size rd))"
  using assms by (auto simp: FileReader_DataLeftInCluster_def BytesPerCluster_eq Let_def min_def)

text \<open>Stepping to the next cluster of the chain, or to the end of the file.\<close>

lemma chain_step:
  assumes "is_chain s raw cs" "geometry s raw" "i < length cs"
  shows "NextClusterInFile raw (of_nat (cs ! i)) =
    Inr (if Suc i < length cs then of_nat (cs ! Suc i) else raw_entry raw (last cs))"
proof -
  have d: "data_cluster s (cs ! i)" using assms(1,3) by (simp add: is_chain_def)
  note small = data_cluster_small [OF assms(2) d]
  have "unat (of_nat (cs ! i) :: u32) < 2 ^ 30" using small by simp
  moreover have "raw_entry raw (cs ! i) = (if Suc i < length cs then of_nat (cs ! Suc i) else raw_entry raw (last cs))"
  proof (cases "Suc i < length cs")
    case True
    then show ?thesis using assms(1) by (simp add: is_chain_def)
  next
    case False
    then have "i = length cs - 1" using assms(3) by simp
    then show ?thesis using False assms(3) last_conv_nth [of cs] by (cases "cs = []") auto
  qed
  ultimately show ?thesis using small(2,3) NextClusterInFile_eq [of "of_nat (cs ! i)" raw] by simp
qed

lemma NextCluster_step:
  assumes "is_chain s raw cs" "geometry s raw" "i < length cs" "rd_cluster rd = of_nat (cs ! i)" "rd_size rd \<noteq> 0"
  shows "FileReader_NextCluster raw rd = Inr (if Suc i < length cs
     then rd\<lparr>rd_offset := 0, rd_cluster := of_nat (cs ! Suc i)\<rparr> else rd\<lparr>rd_offset := 0, rd_size := 0, rd_cluster := 0\<rparr>)"
proof (cases "Suc i < length cs")
  case True
  then have "data_cluster s (cs ! Suc i)" using assms(1) by (simp add: is_chain_def)
  note small = data_cluster_small [OF assms(2) this]
  have "\<not> (of_nat (cs ! Suc i) :: u32) < 2" "\<not> 0x0FFFFFF8 \<le> (of_nat (cs ! Suc i) :: u32)"
    using small(4,5) unfolding word_le_nat_alt word_less_nat_alt by simp_all
  then show ?thesis using True assms chain_step [OF assms(1-3)]
    by (simp add: FileReader_NextCluster_def Let_def)
next
  case False
  have "0x0FFFFFF8 \<le> raw_entry raw (last cs)" using assms(1) by (simp add: is_chain_def)
  then show ?thesis using False assms chain_step [OF assms(1-3)]
    by (simp add: FileReader_NextCluster_def Let_def)
qed

lemma chain_data_end:
  assumes "volume s raw img" "is_chain s raw cs" "\<not> Suc i < length cs"
  shows "drop (Suc i * cluster_size s) (chain_data s img cs) = []"
proof -
  have "\<forall>x \<in> set (map (cluster_data s img) cs). length x = cluster_size s"
    using volume_cluster(2) [OF assms(1)] assms(2) by (auto simp: is_chain_def)
  from length_concat_same [OF this] have "length (chain_data s img cs) = length cs * cluster_size s"
    by (simp add: chain_data_def)
  moreover have "length cs * cluster_size s \<le> Suc i * cluster_size s" using assms(3) by (intro mult_right_mono) simp_all
  ultimately show ?thesis by simp
qed

lemma Read_diff_correct:
  assumes vol: "volume s raw img" and chain: "is_chain s raw cs" and at: "reader_at s img cs rd rest"
  shows "\<exists>k rd1. FileReader_Read_diff s raw rd = Inr (k, rd1) \<and> rd_totalRead rd1 = rd_totalRead rd \<and>
    (if k = 0 then rest = [] \<and> rd_size rd1 = 0
     else \<exists>i. reader_in s img cs i rd1 rest \<and>
       k = min (cluster_size s - unat (rd_offset rd1)) (unat (rd_size rd1)))"
proof (cases "rd_size rd = 0")
  case True
  then have "rest = []" using at by (simp add: reader_at_def)
  with True show ?thesis
    by (simp add: FileReader_Read_diff_def FileReader_DataLeftInCluster_def FileReader_NextCluster_def Let_def)
next
  case False
  then obtain i where i: "reader_in s img cs i rd rest" using at by (auto simp: reader_at_def)
  have g: "geometry s raw" using vol by (simp add: volume_def)
  have sz: "0 < unat (rd_size rd)" using False by (simp add: unat_gt_0)
  have left: "FileReader_DataLeftInCluster s rd = min (cluster_size s - unat (rd_offset rd)) (unat (rd_size rd))"
    using i by (intro DataLeft_eq) (simp add: reader_in_def)
  show ?thesis
  proof (cases "unat (rd_offset rd) = cluster_size s")
    case inside: False
    then have "0 < cluster_size s - unat (rd_offset rd)" using i by (simp add: reader_in_def)
    then show ?thesis using left sz i by (auto simp: FileReader_Read_diff_def Let_def)
  next
    case True
    have "drop (cluster_size s) (cluster_data s img (cs ! i)) = []"
      using volume_cluster(2) [OF vol, of "cs ! i"] chain i by (simp add: is_chain_def reader_in_def)
    then have rest: "rest = take (unat (rd_size rd)) (drop (Suc i * cluster_size s) (chain_data s img cs))"
      using chain_data_drop [OF vol chain, of i "cluster_size s"] i True by (simp add: reader_in_def)
    have step: "FileReader_NextCluster raw rd = Inr (if Suc i < length cs
       then rd\<lparr>rd_offset := 0, rd_cluster := of_nat (cs ! Suc i)\<rparr> else rd\<lparr>rd_offset := 0, rd_size := 0, rd_cluster := 0\<rparr>)"
      using i False by (intro NextCluster_step [OF chain g]) (simp_all add: reader_in_def)
    show ?thesis
    proof (cases "Suc i < length cs")
      case more: True
      then have "reader_in s img cs (Suc i) (rd\<lparr>rd_offset := 0, rd_cluster := of_nat (cs ! Suc i)\<rparr>) rest"
        using rest by (simp add: reader_in_def)
      moreover have "0 < cluster_size s" using g by (rule cluster_size_pos)
      ultimately show ?thesis using more step left True sz
        by (auto simp: FileReader_Read_diff_def Let_def DataLeft_eq)
    next
      case no_more: False
      have "rest = []" using rest chain_data_end [OF vol chain no_more] by simp
      then show ?thesis using no_more step left True
        by (simp add: FileReader_Read_diff_def Let_def DataLeft_eq)
    qed
  qed
qed

lemma reader_in_take:
  assumes v: "volume s raw img" and chain: "is_chain s raw cs" and rd: "reader_in s img cs i rd rest"
    and k: "k \<le> cluster_size s - unat (rd_offset rd)" "k \<le> unat (rd_size rd)"
  shows "take k rest = subbytes (cluster_pos s (cs ! i) + unat (rd_offset rd)) k img"
    and "unat (ClusterFileOffset s (rd_cluster rd) + ucast (rd_offset rd)) = cluster_pos s (cs ! i) + unat (rd_offset rd)"
    and "k \<le> length rest"
    and "cluster_pos s (cs ! i) + unat (rd_offset rd) + k \<le> length img"
proof -
  let ?c = "cs ! i" and ?o = "unat (rd_offset rd)"
  have i: "i < length cs" "rd_cluster rd = of_nat ?c" "?o \<le> cluster_size s"
    and rest: "rest = take (unat (rd_size rd)) (drop (i * cluster_size s + ?o) (chain_data s img cs))"
    using rd by (simp_all add: reader_in_def)
  have d: "data_cluster s ?c" using chain i(1) by (simp add: is_chain_def)
  note in_image = volume_cluster [OF v d]
  have g: "geometry s raw" using v by (simp add: volume_def)
  have p: "unat (ClusterFileOffset s (rd_cluster rd)) = cluster_pos s ?c"
    unfolding i(2) using ClusterFileOffset_pos [OF g d] .
  have "(2 :: nat) ^ 32 < 2 ^ 64" by simp
  then have "cluster_pos s ?c + ?o < 2 ^ 64" using in_image(3) i(3) by linarith
  then show "unat (ClusterFileOffset s (rd_cluster rd) + ucast (rd_offset rd)) = cluster_pos s ?c + ?o"
    using p by (simp add: unat_word_ariths)
  define tl where "tl = drop (Suc i * cluster_size s) (chain_data s img cs)"
  have rest': "rest = take (unat (rd_size rd)) (drop ?o (cluster_data s img ?c) @ tl)"
    unfolding rest tl_def using chain_data_drop [OF v chain i(1) i(3)] by simp
  have "length (drop ?o (cluster_data s img ?c)) = cluster_size s - ?o" using in_image(2) by simp
  then have "take k rest = take k (drop ?o (cluster_data s img ?c))" and len: "k \<le> length rest"
    unfolding rest' using k by simp_all
  then show "take k rest = subbytes (cluster_pos s ?c + ?o) k img"
    using k(1) by (simp add: cluster_data_def subbytes_def drop_take add.commute min_absorb1)
  show "k \<le> length rest" by (rule len)
  show "cluster_pos s ?c + ?o + k \<le> length img" using k(1) i(3) in_image(1) by linarith
qed

lemma reader_in_advance:
  assumes v: "volume s raw img" and chain: "is_chain s raw cs" and rd: "reader_in s img cs i rd rest"
    and k: "k \<le> cluster_size s - unat (rd_offset rd)" "k \<le> unat (rd_size rd)"
  shows "reader_at s img cs (rd\<lparr>rd_offset := rd_offset rd + of_nat k, rd_size := rd_size rd - of_nat k\<rparr>) (drop k rest)"
    (is "reader_at s img cs ?rd _")
proof -
  let ?o = "unat (rd_offset rd)"
  have i: "i < length cs" "?o \<le> cluster_size s"
    and rest: "rest = take (unat (rd_size rd)) (drop (i * cluster_size s + ?o) (chain_data s img cs))"
    using rd by (simp_all add: reader_in_def)
  have "cluster_size s < 2 ^ 32"
    using volume_cluster(3) [OF v, of "cs ! i"] chain i(1) by (simp add: is_chain_def)
  then have small: "?o + k < 2 ^ 32" using k(1) i(2) by linarith
  then have off: "unat (rd_offset rd + of_nat k) = ?o + k" by (simp add: unat_word_ariths unat_of_nat)
  have uk: "unat (of_nat k :: u32) = k" using small by (intro unat_of_nat_u32) linarith
  have sz: "unat (rd_size rd - of_nat k) = unat (rd_size rd) - k"
    using k(2) uk by (simp add: unat_sub word_le_nat_alt)
  have "drop k rest = take (unat (rd_size rd) - k) (drop (i * cluster_size s + (?o + k)) (chain_data s img cs))"
    unfolding rest by (simp add: drop_take ac_simps)
  then have in_rd: "reader_in s img cs i ?rd (drop k rest)"
    using rd k(1) i off sz by (simp add: reader_in_def)
  show ?thesis
  proof (cases "rd_size ?rd = 0")
    case True
    then have "unat (rd_size rd) \<le> k" using sz by simp
    then show ?thesis using True by (simp add: rest reader_at_def)
  next
    case False
    then show ?thesis using in_rd by (auto simp: reader_at_def)
  qed
qed

context reliable_posix
begin

text \<open>The image file behind a state of the editor, and states that differ in nothing else.\<close>

definition image :: "'a Edit \<Rightarrow> bytes" where
  "image st = content (ed_sys st) (ed_file st)"

definition only_read :: "'a Edit \<Rightarrow> 'a Edit \<Rightarrow> bool" where
  "only_read st st' \<longleftrightarrow> (\<exists>s'. st' = st\<lparr>ed_sys := s'\<rparr> \<and> same_files (ed_sys st) s' \<and>
     bytes_of s' = bytes_of (ed_sys st) \<and> pos s' = pos (ed_sys st))"

lemma only_read_refl [simp]: "only_read st st"
  by (auto simp: only_read_def intro!: exI [of _ "ed_sys st"])

lemma only_read_trans: "only_read a b \<Longrightarrow> only_read b c \<Longrightarrow> only_read a c"
  unfolding only_read_def using same_files_trans by fastforce

lemma only_read_simps:
  assumes "only_read st st'"
  shows "ed_super st' = ed_super st" "ed_fatRaw st' = ed_fatRaw st" "image st' = image st" "ed_file st' = ed_file st"
    "ed_cout st' = ed_cout st" "ed_cerr st' = ed_cerr st" "ed_fsinfo st' = ed_fsinfo st"
  using assms by (auto simp: only_read_def image_def content_def same_files_def)

lemma ed_ReadAt_works:
  assumes "unat off + n \<le> length (image st)" "length (image st) < 2 ^ 64"
  shows "\<exists>st'. ed_ReadAt P off n st = Some (Inr (subbytes (unat off) n (image st)), st') \<and> only_read st st'"
proof -
  obtain s' where "File_ReadAt P (ed_file st) off n (ed_sys st) = Some (Inr (subbytes (unat off) n (image st)), s')"
    "same_files (ed_sys st) s'" "bytes_of s' = bytes_of (ed_sys st)" "pos s' = pos (ed_sys st)"
    using ReadAt_works [of off n "ed_sys st" "ed_file st"] assms unfolding image_def by blast
  then show ?thesis by (auto simp: ed_ReadAt_def ed_call_def only_read_def)
qed

text \<open>The volume in a state of the editor.\<close>

definition ed_volume :: "'a Edit \<Rightarrow> bool" where
  "ed_volume st \<longleftrightarrow> volume (ed_super st) (ed_fatRaw st) (image st) \<and> length (image st) < 2 ^ 64"

definition ed_chain :: "'a Edit \<Rightarrow> nat list \<Rightarrow> bool" where
  "ed_chain st cs \<longleftrightarrow> is_chain (ed_super st) (ed_fatRaw st) cs"

definition ed_bytes :: "'a Edit \<Rightarrow> nat list \<Rightarrow> bytes" where
  "ed_bytes st cs = chain_data (ed_super st) (image st) cs"

definition ed_reader :: "'a Edit \<Rightarrow> nat list \<Rightarrow> FileReader \<Rightarrow> bytes \<Rightarrow> bool" where
  "ed_reader st cs rd rest \<longleftrightarrow> reader_at (ed_super st) (image st) cs rd rest"

lemma only_read_volume:
  assumes "only_read st st'"
  shows "ed_volume st' = ed_volume st" "ed_chain st' cs = ed_chain st cs" "ed_bytes st' cs = ed_bytes st cs"
    "ed_reader st' cs rd rest = ed_reader st cs rd rest"
  by (simp_all add: ed_volume_def ed_chain_def ed_bytes_def ed_reader_def only_read_simps [OF assms])

text \<open>One transfer of a reader inside a cluster.\<close>

lemma cluster_transfer:
  assumes vol: "ed_volume st" and chain: "ed_chain st cs"
    and rd: "reader_in (ed_super st) (image st) cs i rd rest"
    and k: "k \<le> cluster_size (ed_super st) - unat (rd_offset rd)" "k \<le> unat (rd_size rd)"
  shows "\<exists>st'. ed_ReadAt P (ClusterFileOffset (ed_super st) (rd_cluster rd) + ucast (rd_offset rd)) k st =
      Some (Inr (take k rest), st') \<and> only_read st st'"
proof -
  let ?s = "ed_super st" and ?c = "cs ! i" and ?o = "unat (rd_offset rd)"
  have v: "volume ?s (ed_fatRaw st) (image st)" and c: "is_chain ?s (ed_fatRaw st) cs"
    and len: "length (image st) < 2 ^ 64"
    using vol chain by (simp_all add: ed_volume_def ed_chain_def)
  note t = reader_in_take [OF v c rd k]
  have "unat (ClusterFileOffset ?s (rd_cluster rd) + ucast (rd_offset rd)) + k \<le> length (image st)"
    using t(2,4) by simp
  from ed_ReadAt_works [OF this len] show ?thesis unfolding t(1,2) .
qed

end

context reliable_posix
begin

lemma FileReader_Read_loop_correct:
  assumes "ed_volume st" "ed_chain st cs" "ed_reader st cs rd rest"
  shows "\<exists>rd' st'. FileReader_Read_loop P n data rd st = Some (Inr (data @ take n rest, rd'), st') \<and>
    only_read st st' \<and> ed_reader st cs rd' (drop n rest) \<and> rd_totalRead rd' = rd_totalRead rd"
  using assms
proof (induction n arbitrary: data rd rest st rule: less_induct)
  case (less n)
  let ?s = "ed_super st" and ?raw = "ed_fatRaw st"
  note loop = FileReader_Read_loop.simps [of P n data rd st]
  have v: "volume ?s ?raw (image st)" and c: "is_chain ?s ?raw cs" and at: "reader_at ?s (image st) cs rd rest"
    using less.prems by (simp_all add: ed_volume_def ed_chain_def ed_reader_def)
  show ?case
  proof (cases "n = 0")
    case True
    then show ?thesis using loop less.prems by simp
  next
    case n: False
    obtain k rd1 where diff: "FileReader_Read_diff ?s ?raw rd = Inr (k, rd1)"
      "rd_totalRead rd1 = rd_totalRead rd"
      and cases: "if k = 0 then rest = [] \<and> rd_size rd1 = 0
       else \<exists>i. reader_in ?s (image st) cs i rd1 rest \<and>
         k = min (cluster_size ?s - unat (rd_offset rd1)) (unat (rd_size rd1))"
      using Read_diff_correct [OF v c at] by blast
    show ?thesis
    proof (cases "k = 0")
      case True
      then show ?thesis using n loop diff cases by (simp add: ed_reader_def reader_at_def)
    next
      case k: False
      define m where "m = (if k > n then n else k)"
      obtain i where i: "reader_in ?s (image st) cs i rd1 rest"
        and kmin: "k = min (cluster_size ?s - unat (rd_offset rd1)) (unat (rd_size rd1))"
        using cases unfolding if_not_P [OF k] by blast
      have "m = min k n" by (simp add: m_def)
      then have m: "m \<le> cluster_size ?s - unat (rd_offset rd1)" "m \<le> unat (rd_size rd1)" "0 < m" "m \<le> n"
        using kmin k n by linarith+
      obtain st1 where read: "only_read st st1"
        "ed_ReadAt P (ClusterFileOffset ?s (rd_cluster rd1) + ucast (rd_offset rd1)) m st = Some (Inr (take m rest), st1)"
        using cluster_transfer [OF less.prems(1,2) i m(1,2)] by blast
      let ?rd2 = "rd1\<lparr>rd_offset := rd_offset rd1 + of_nat m, rd_size := rd_size rd1 - of_nat m\<rparr>"
      have "ed_reader st cs ?rd2 (drop m rest)"
        using reader_in_advance [OF v c i m(1,2)] by (simp add: ed_reader_def)
      then have st1: "ed_volume st1" "ed_chain st1 cs" "ed_reader st1 cs ?rd2 (drop m rest)"
        using less.prems only_read_volume [OF read(1)] by simp_all
      have "n - m < n" using m by linarith
      from less.IH [OF this st1, of "data @ take m rest"] obtain rd' st' where rec: "only_read st1 st'"
        "FileReader_Read_loop P (n - m) (data @ take m rest) ?rd2 st1 =
          Some (Inr ((data @ take m rest) @ take (n - m) (drop m rest), rd'), st')"
        "ed_reader st1 cs rd' (drop (n - m) (drop m rest))" "rd_totalRead rd' = rd_totalRead ?rd2" by blast
      have "take m rest @ take (n - m) (drop m rest) = take n rest" "drop (n - m) (drop m rest) = drop n rest"
        using m(4) by (metis le_add_diff_inverse take_add, simp)
      moreover have "FileReader_Read_loop P n data rd st = FileReader_Read_loop P (n - m) (data @ take m rest) ?rd2 st1"
      proof -
        have "FileReader_Read_loop P n data rd st =
            io_bind (ed_ReadAt P (ClusterFileOffset ?s (rd_cluster rd1) + ucast (rd_offset rd1)) m)
              (\<lambda>d. FileReader_Read_loop P (n - m) (data @ d) ?rd2) st"
          using n k by (subst loop) (simp add: diff(1) Let_def m_def [symmetric] del: of_nat_diff)
        also have "\<dots> = FileReader_Read_loop P (n - m) (data @ take m rest) ?rd2 st1"
          by (rule io_bind_simps(1)) (rule read(2))
        finally show ?thesis .
      qed
      moreover have "rd_totalRead rd' = rd_totalRead rd" using rec(4) diff(2) by simp
      ultimately show ?thesis
        using rec(2,3) only_read_trans [OF read(1) rec(1)] only_read_volume(4) [OF read(1)] by simp
    qed
  qed
qed

lemma FileReader_Read_correct:
  assumes "ed_volume st" "ed_chain st cs" "ed_reader st cs rd rest"
  shows "\<exists>rd' st'. FileReader_Read P rd n st = Some (Inr (take n rest, rd'), st') \<and> only_read st st' \<and>
    ed_reader st cs rd' (drop n rest) \<and> rd_totalRead rd' = rd_totalRead rd + length (take n rest)"
proof -
  obtain rd' st' where r: "FileReader_Read_loop P n [] rd st = Some (Inr (take n rest, rd'), st')" "only_read st st'"
    "ed_reader st cs rd' (drop n rest)" "rd_totalRead rd' = rd_totalRead rd"
    using FileReader_Read_loop_correct [OF assms, of n "[]"] by auto
  moreover have "ed_reader st cs (rd'\<lparr>rd_totalRead := x\<rparr>) y = ed_reader st cs rd' y" for x y
    by (simp add: ed_reader_def reader_at_def reader_in_def)
  ultimately show ?thesis by (auto simp: FileReader_Read_def io_simps)
qed

end

context reliable_posix
begin

lemma only_read_then_print:
  assumes "only_read st st'"
  shows "only_read (st\<lparr>ed_cout := x\<rparr>) (st'\<lparr>ed_cout := x\<rparr>)"
proof -
  obtain s' where "st' = st\<lparr>ed_sys := s'\<rparr>" "same_files (ed_sys st) s'"
    "bytes_of s' = bytes_of (ed_sys st)" "pos s' = pos (ed_sys st)"
    using assms by (auto simp: only_read_def)
  then show ?thesis by (simp add: only_read_def) (intro exI [of _ s'], simp)
qed

text \<open>\<^verbatim>\<open>type\<close> prints what is left of the file.\<close>

lemma DumpFile_loop_correct:
  assumes "ed_volume st" "ed_chain st cs" "ed_reader st cs rd rest"
  shows "\<exists>st'. DumpFile_loop P rd st = Some (Inr (), st') \<and> only_read (st\<lparr>ed_cout := ed_cout st @ rest\<rparr>) st'"
  using assms
proof (induction "length rest" arbitrary: rd rest st rule: less_induct)
  case less
  note loop = DumpFile_loop.simps [of P rd st]
  obtain rd1 st1 where read: "FileReader_Read P rd 512 st = Some (Inr (take 512 rest, rd1), st1)" "only_read st st1"
    "ed_reader st cs rd1 (drop 512 rest)"
    using FileReader_Read_correct [OF less.prems] by blast
  show ?case
  proof (cases "rest = []")
    case True
    then have "DumpFile_loop P rd st = Some (Inr (), st1)"
      using read(1) by (subst loop) (simp add: io_bind_def)
    then show ?thesis using read(2) True by auto
  next
    case False
    let ?st2 = "st1\<lparr>ed_cout := ed_cout st1 @ take 512 rest\<rparr>"
    have eq: "ed_volume ?st2 = ed_volume st1" "ed_chain ?st2 cs = ed_chain st1 cs"
      "ed_reader ?st2 cs rd1 (drop 512 rest) = ed_reader st1 cs rd1 (drop 512 rest)"
      by (simp_all add: ed_volume_def ed_chain_def ed_reader_def image_def)
    have st2: "ed_volume ?st2" "ed_chain ?st2 cs" "ed_reader ?st2 cs rd1 (drop 512 rest)"
      unfolding eq using less.prems read(3) only_read_volume [OF read(2)] by simp_all
    have "length (drop 512 rest) < length rest" using False by simp
    from less.hyps [OF this st2] obtain st' where rec: "DumpFile_loop P rd1 ?st2 = Some (Inr (), st')"
      "only_read (?st2\<lparr>ed_cout := ed_cout ?st2 @ drop 512 rest\<rparr>) st'" by blast
    have "DumpFile_loop P rd st = DumpFile_loop P rd1 ?st2"
      using False read(1) by (subst loop) (simp add: io_bind_def ed_print_def io_simps)
    moreover have o: "only_read (st\<lparr>ed_cout := ed_cout st @ rest\<rparr>) (?st2\<lparr>ed_cout := ed_cout ?st2 @ drop 512 rest\<rparr>)"
      using only_read_then_print [OF read(2), of "ed_cout st @ rest"] only_read_simps [OF read(2)] by simp
    ultimately show ?thesis using rec(1) only_read_trans [OF o rec(2)] by simp
  qed
qed

end

subsection \<open>Writing\<close>

lemma take_overwrite:
  "off + length x \<le> length xs \<Longrightarrow> take (off + length x) (overwrite off x xs) = take off xs @ x"
  by (simp add: overwrite_def)

lemma cluster_data_overwrite_other:
  assumes "volume s raw img" "data_cluster s c" "data_cluster s d" "c \<noteq> d" "off + length x \<le> cluster_size s"
  shows "cluster_data s (overwrite (cluster_pos s d + off) x img) c = cluster_data s img c"
proof -
  have b: "cluster_pos s d + off + length x \<le> length img" using volume_cluster(1) [OF assms(1,3)] assms(5) by linarith
  from clusters_apart [OF assms(2-4)] show ?thesis
  proof
    assume "cluster_pos s c + cluster_size s \<le> cluster_pos s d"
    then show ?thesis unfolding cluster_data_def using b by (intro subbytes_overwrite_before) linarith+
  next
    assume "cluster_pos s d + cluster_size s \<le> cluster_pos s c"
    then show ?thesis unfolding cluster_data_def using b assms(5) by (intro subbytes_overwrite_after) linarith+
  qed
qed

lemma cluster_data_overwrite_same:
  assumes "volume s raw img" "data_cluster s c" "off + length x \<le> cluster_size s"
  shows "take (off + length x) (cluster_data s (overwrite (cluster_pos s c + off) x img) c) =
    take off (cluster_data s img c) @ x"
proof -
  let ?p = "cluster_pos s c"
  have b: "?p + off + length x \<le> length img" using volume_cluster(1) [OF assms(1,2)] assms(3) by linarith
  have "take (off + length x) (cluster_data s (overwrite (?p + off) x img) c) =
      subbytes ?p (off + length x) (overwrite (?p + off) x img)"
    using assms(3) by (simp add: cluster_data_def subbytes_def min_absorb1)
  also have "\<dots> = drop ?p (take (?p + off + length x) (overwrite (?p + off) x img))"
    by (simp add: subbytes_def take_drop ac_simps)
  also have "\<dots> = drop ?p (take (?p + off) img @ x)" using take_overwrite [OF b] by simp
  also have "\<dots> = subbytes ?p off img @ x" using b by (simp add: subbytes_def take_drop add.commute)
  also have "subbytes ?p off img = take off (cluster_data s img c)"
    using assms(3) by (simp add: cluster_data_def subbytes_def min_absorb1)
  finally show ?thesis .
qed

lemma chain_data_cong:
  "(\<And>c. c \<in> set cs \<Longrightarrow> cluster_data s img' c = cluster_data s img c) \<Longrightarrow> chain_data s img' cs = chain_data s img cs"
  by (simp add: chain_data_def cong: map_cong)

text \<open>A writer at the end of a file: all clusters but the last are full.\<close>

definition writer_at :: "FatSuper \<Rightarrow> bytes \<Rightarrow> nat list \<Rightarrow> FileWriter \<Rightarrow> bytes \<Rightarrow> bool" where
  "writer_at s img cs wr old \<longleftrightarrow> wr_cluster wr = of_nat (last cs) \<and> wr_firstCluster wr = of_nat (hd cs) \<and>
     wr_totalSize wr = of_nat (length old) \<and> unat (wr_offset wr) \<le> cluster_size s \<and>
     old = chain_data s img (butlast cs) @ take (unat (wr_offset wr)) (cluster_data s img (last cs))"

text \<open>
  What appending may do to the volume: lengthen the chain by clusters that were free; other
  entries and clusters, and everything in front of the data area, stay as they are.
\<close>

definition extends :: "FatSuper \<Rightarrow> bytes \<Rightarrow> bytes \<Rightarrow> nat list \<Rightarrow> bytes \<Rightarrow> bytes \<Rightarrow> nat list \<Rightarrow> bool" where
  "extends s raw img cs raw' img' cs' \<longleftrightarrow>
     (\<exists>new. cs' = cs @ new \<and> (\<forall>c \<in> set new. raw_entry raw c = 0)) \<and>
     distinct cs' \<and> length raw' = length raw \<and> length img' = length img \<and>
     (\<forall>c. c \<notin> set cs' \<longrightarrow> raw_entry raw' c = raw_entry raw c) \<and>
     (\<forall>c. data_cluster s c \<longrightarrow> c \<notin> set cs' \<longrightarrow> cluster_data s img' c = cluster_data s img c) \<and>
     take (cluster_pos s 2) img' = take (cluster_pos s 2) img"

lemma extends_refl: "distinct cs \<Longrightarrow> extends s raw img cs raw img cs"
  by (simp add: extends_def)

lemma extends_trans:
  assumes "extends s raw img cs raw1 img1 cs1" "extends s raw1 img1 cs1 raw2 img2 cs2"
  shows "extends s raw img cs raw2 img2 cs2"
proof -
  obtain n1 n2 where n: "cs1 = cs @ n1" "cs2 = cs1 @ n2" "\<forall>c \<in> set n1. raw_entry raw c = 0"
    "\<forall>c \<in> set n2. raw_entry raw1 c = 0"
    using assms by (auto simp: extends_def)
  show ?thesis
    unfolding extends_def
  proof (intro conjI exI [of _ "n1 @ n2"] ballI allI impI)
    fix c assume c: "c \<in> set (n1 @ n2)"
    show "raw_entry raw c = 0"
      using c n assms by (cases "c \<in> set n1") (auto simp: extends_def)
  qed (use assms n in \<open>auto simp: extends_def\<close>)
qed

lemma is_chain_last:
  assumes "is_chain s raw cs"
  shows "cs = butlast cs @ [last cs]" "data_cluster s (last cs)" "last cs \<notin> set (butlast cs)"
    "\<forall>c \<in> set (butlast cs). data_cluster s c"
proof -
  have ne: "cs \<noteq> []" and d: "distinct cs" and all: "\<forall>c \<in> set cs. data_cluster s c"
    using assms by (simp_all add: is_chain_def)
  show split: "cs = butlast cs @ [last cs]" using ne by simp
  show "data_cluster s (last cs)" using all ne by simp
  show "last cs \<notin> set (butlast cs)" using d ne distinct_append [of "butlast cs" "[last cs]"] by simp
  show "\<forall>c \<in> set (butlast cs). data_cluster s c" using all by (auto dest: in_set_butlastD)
qed

text \<open>Storing bytes in the last cluster.\<close>

lemma writer_store:
  assumes v: "volume s raw img" and c: "is_chain s raw cs" and w: "writer_at s img cs wr old"
    and m: "length x \<le> cluster_size s - unat (wr_offset wr)"
    and img': "img' = overwrite (cluster_pos s (last cs) + unat (wr_offset wr)) x img"
  shows "volume s raw img'" "extends s raw img cs raw img' cs"
    "writer_at s img' cs (wr\<lparr>wr_offset := wr_offset wr + of_nat (length x),
       wr_totalSize := wr_totalSize wr + of_nat (length x)\<rparr>) (old @ x)"
proof -
  let ?o = "unat (wr_offset wr)" and ?l = "last cs"
  note l = is_chain_last [OF c]
  have "?o \<le> cluster_size s" using w by (simp add: writer_at_def)
  then have o: "?o + length x \<le> cluster_size s" using m by linarith
  have bound: "cluster_pos s ?l + ?o + length x \<le> length img" using volume_cluster(1) [OF v l(2)] o by linarith
  have len: "length img' = length img" using bound by (simp add: img')
  show "volume s raw img'" using v len by (simp add: volume_def)
  have other: "cluster_data s img' d = cluster_data s img d" if "data_cluster s d" "d \<noteq> ?l" for d
    using cluster_data_overwrite_other [OF v that(1) l(2) that(2) o] by (simp add: img')
  have "cluster_pos s 2 \<le> cluster_pos s ?l" by (simp add: cluster_pos_def)
  then have front: "take (cluster_pos s 2) img' = take (cluster_pos s 2) img"
    using bound by (simp add: img' overwrite_def min_absorb1)
  have "?l \<in> set cs" "distinct cs" using c by (simp_all add: is_chain_def)
  then show "extends s raw img cs raw img' cs"
    using other len front unfolding extends_def by (metis append_Nil2 empty_iff empty_set)
  have "cluster_size s < 2 ^ 32" using volume_cluster(3) [OF v l(2)] by linarith
  then have off: "unat (wr_offset wr + of_nat (length x)) = ?o + length x"
    using o by (simp add: unat_word_ariths unat_of_nat)
  have "chain_data s img' (butlast cs) = chain_data s img (butlast cs)"
    using other l(3,4) by (intro chain_data_cong) metis
  moreover have "take (?o + length x) (cluster_data s img' ?l) = take ?o (cluster_data s img ?l) @ x"
    using cluster_data_overwrite_same [OF v l(2) o] by (simp add: img')
  ultimately show "writer_at s img' cs (wr\<lparr>wr_offset := wr_offset wr + of_nat (length x),
       wr_totalSize := wr_totalSize wr + of_nat (length x)\<rparr>) (old @ x)"
    using w o by (simp add: writer_at_def off)
qed

lemma chain_entry_nonzero:
  assumes "is_chain s raw cs" "geometry s raw" "c \<in> set cs"
  shows "raw_entry raw c \<noteq> 0"
proof -
  obtain i where i: "i < length cs" "c = cs ! i" using assms(3) by (auto simp: in_set_conv_nth)
  show ?thesis
  proof (cases "Suc i < length cs")
    case True
    then have "data_cluster s (cs ! Suc i)" "raw_entry raw c = of_nat (cs ! Suc i)"
      using assms(1) i by (simp_all add: is_chain_def)
    then show ?thesis using data_cluster_small(4) [OF assms(2), of "cs ! Suc i"] by (auto simp: word_le_nat_alt)
  next
    case False
    then have "c = last cs" using i last_conv_nth [of cs] by (cases "cs = []") (auto simp: le_Suc_eq not_less)
    then show ?thesis using assms(1) by (auto simp: is_chain_def)
  qed
qed

text \<open>Linking a fresh cluster to the chain.\<close>

lemma chain_link:
  assumes v: "volume s raw img" and c: "is_chain s raw cs" and k: "first_free s raw = Some k"
    and raw': "raw' = FatReader_Set (FatReader_Set raw k 0x0FFFFFF8) (last cs) (of_nat k)"
  shows "volume s raw' img" "is_chain s raw' (cs @ [k])" "extends s raw img cs raw' img (cs @ [k])"
proof -
  have g: "geometry s raw" and r01: "raw_entry raw 0 \<noteq> 0" "raw_entry raw 1 \<noteq> 0" using v by (simp_all add: volume_def)
  note f = first_free_Some [OF k]
  have "k \<noteq> 0" "k \<noteq> 1" using r01 f(2) by metis+
  then have d: "data_cluster s k" using f(1) by (simp add: data_cluster_def)
  note small = data_cluster_small [OF g d] and l = is_chain_last [OF c]
  have notin: "k \<notin> set cs" using chain_entry_nonzero [OF c g] f(2) by blast
  have last_in: "last cs \<in> set cs" using c by (simp add: is_chain_def)
  have entry: "raw_entry raw' j = (if j = last cs then of_nat k else if j = k then 0x0FFFFFF8 else raw_entry raw j)" for j
  proof -
    have "(of_nat k :: u32) AND 0x0FFFFFFF = of_nat k"
    proof -
      have "k < 2 ^ 28" using small(1) by simp
      then show ?thesis unfolding and_mask_28 by (simp add: take_bit_of_nat take_bit_nat_eq_self)
    qed
    then show ?thesis unfolding raw'
      using data_cluster_small(2) [OF g l(2)] small(2) by (simp add: raw_entry_Set)
  qed
  have len: "length raw' = length raw" by (simp add: raw')
  have "data_cluster s 0 = False" "data_cluster s 1 = False" by (simp_all add: data_cluster_def)
  then have "last cs \<noteq> 0" "last cs \<noteq> 1" using l(2) by metis+
  then show "volume s raw' img" using v \<open>k \<noteq> 0\<close> \<open>k \<noteq> 1\<close>
    unfolding volume_def geometry_def len entry by auto
  show "extends s raw img cs raw' img (cs @ [k])"
    using notin f(2) c entry len last_in by (auto simp: extends_def is_chain_def)
  have "raw_entry raw' ((cs @ [k]) ! i) = of_nat ((cs @ [k]) ! Suc i)" if "Suc i < length (cs @ [k])" for i
  proof (cases "Suc i < length cs")
    case True
    have "i < length cs - 1" using True by simp
    then have "cs ! i \<in> set (butlast cs)" using nth_butlast [of i cs] nth_mem [of i "butlast cs"] by simp
    then have "cs ! i \<noteq> last cs" "cs ! i \<noteq> k" using l(3) notin in_set_butlastD by metis+
    then show ?thesis using True c entry by (simp add: nth_append is_chain_def)
  next
    case False
    then have i: "i = length cs - 1" "cs \<noteq> []" using that c by (auto simp: is_chain_def)
    then have "(cs @ [k]) ! i = last cs" "(cs @ [k]) ! Suc i = k" by (simp_all add: nth_append last_conv_nth)
    then show ?thesis using entry by simp
  qed
  moreover have "k \<noteq> last cs" using notin last_in by auto
  ultimately show "is_chain s raw' (cs @ [k])"
    using c d notin entry unfolding is_chain_def by auto
qed

lemma SpaceAvailable_eq:
  assumes "volume s raw img" "is_chain s raw cs" "writer_at s img cs wr old"
  shows "FileWriter_SpaceAvailable s wr = cluster_size s - unat (wr_offset wr)"
proof -
  have "cluster_size s < 2 ^ 32" using volume_cluster(3) [OF assms(1) is_chain_last(2) [OF assms(2)]] by linarith
  moreover have "(2 :: nat) ^ 32 < 2 ^ 64" by simp
  ultimately have "cluster_size s < 2 ^ 64" by linarith
  then have u: "unat (of_nat (cluster_size s) :: u64) = cluster_size s" by (simp add: unat_of_nat)
  have "unat (wr_offset wr) \<le> cluster_size s" using assms(3) by (simp add: writer_at_def)
  then have "(ucast (wr_offset wr) :: u64) \<le> of_nat (cluster_size s)" using u by (simp add: word_le_nat_alt)
  then show ?thesis using u by (simp add: FileWriter_SpaceAvailable_def BytesPerCluster_eq unat_sub)
qed

context reliable_posix
begin

text \<open>What a write to the image leaves alone.\<close>

definition wrote :: "'a Edit \<Rightarrow> 'a Edit \<Rightarrow> bool" where
  "wrote st st' \<longleftrightarrow> ed_file st' = ed_file st \<and> ed_super st' = ed_super st \<and> ed_fsinfo st' = ed_fsinfo st \<and>
     ed_cout st' = ed_cout st \<and> ed_cerr st' = ed_cerr st \<and> same_files (ed_sys st) (ed_sys st') \<and>
     pos (ed_sys st') = pos (ed_sys st) \<and>
     (\<forall>i. i \<noteq> inode (ed_sys st) (ed_file st) \<longrightarrow> bytes_of (ed_sys st') i = bytes_of (ed_sys st) i)"

lemma wrote_refl [simp]: "wrote st st"
  by (simp add: wrote_def)

lemma wrote_trans: "wrote a b \<Longrightarrow> wrote b c \<Longrightarrow> wrote a c"
  unfolding wrote_def same_files_def by auto

lemma wrote_fatRaw [simp]: "wrote st (st\<lparr>ed_fatRaw := raw\<rparr>)"
  by (simp add: wrote_def)

lemma ed_WriteAt_works:
  assumes "unat off + length d \<le> length (image st)" "length (image st) < 2 ^ 64"
  shows "\<exists>st'. ed_WriteAt P off d st = Some (Inr (), st') \<and> image st' = overwrite (unat off) d (image st) \<and>
    ed_fatRaw st' = ed_fatRaw st \<and> wrote st st'"
proof -
  have "unat off + length d < 2 ^ 64" using assms by linarith
  from WriteAt_works [OF this, of "ed_file st" "ed_sys st"] obtain s' where
    w: "File_WriteAt P (ed_file st) off d (ed_sys st) = Some (Inr (), s')" "same_files (ed_sys st) s'"
    "pos s' = pos (ed_sys st)"
    "bytes_of s' = (bytes_of (ed_sys st))(inode (ed_sys st) (ed_file st) := write_bytes (unat off) d (image st))"
    unfolding image_def by blast
  then have "ed_WriteAt P off d st = Some (Inr (), st\<lparr>ed_sys := s'\<rparr>)"
    by (simp add: ed_WriteAt_def ed_call_def)
  moreover have "image (st\<lparr>ed_sys := s'\<rparr>) = overwrite (unat off) d (image st)"
    using w(2,4) write_bytes_inside [OF assms(1)] by (simp add: image_def content_def same_files_def)
  ultimately show ?thesis using w(2-4) by (auto simp: wrote_def)
qed

definition ed_writer :: "'a Edit \<Rightarrow> nat list \<Rightarrow> FileWriter \<Rightarrow> bytes \<Rightarrow> bool" where
  "ed_writer st cs wr old \<longleftrightarrow> writer_at (ed_super st) (image st) cs wr old"

definition ed_extends :: "'a Edit \<Rightarrow> nat list \<Rightarrow> 'a Edit \<Rightarrow> nat list \<Rightarrow> bool" where
  "ed_extends st cs st' cs' \<longleftrightarrow> wrote st st' \<and> ed_volume st' \<and> ed_chain st' cs' \<and>
     extends (ed_super st) (ed_fatRaw st) (image st) cs (ed_fatRaw st') (image st') cs'"

lemma ed_extends_refl: "ed_volume st \<Longrightarrow> ed_chain st cs \<Longrightarrow> ed_extends st cs st cs"
  by (simp add: ed_extends_def ed_chain_def is_chain_def extends_refl)

lemma ed_extends_trans:
  assumes "ed_extends st cs st1 cs1" "ed_extends st1 cs1 st2 cs2"
  shows "ed_extends st cs st2 cs2"
proof -
  have "ed_super st1 = ed_super st" using assms(1) by (simp add: ed_extends_def wrote_def)
  then show ?thesis using assms wrote_trans [of st st1 st2] extends_trans
    unfolding ed_extends_def by metis
qed

lemma append_store:
  assumes "ed_volume st" "ed_chain st cs" "ed_writer st cs wr old"
    and m: "length x \<le> cluster_size (ed_super st) - unat (wr_offset wr)"
  shows "\<exists>st'. ed_WriteAt P (ClusterFileOffset (ed_super st) (wr_cluster wr) + ucast (wr_offset wr)) x st = Some (Inr (), st') \<and>
    ed_extends st cs st' cs \<and> ed_writer st' cs (wr\<lparr>wr_offset := wr_offset wr + of_nat (length x),
       wr_totalSize := wr_totalSize wr + of_nat (length x)\<rparr>) (old @ x)"
proof -
  let ?s = "ed_super st" and ?l = "last cs" and ?o = "unat (wr_offset wr)"
  have v: "volume ?s (ed_fatRaw st) (image st)" and len: "length (image st) < 2 ^ 64"
    and c: "is_chain ?s (ed_fatRaw st) cs" and w: "writer_at ?s (image st) cs wr old"
    using assms(1-3) by (simp_all add: ed_volume_def ed_chain_def ed_writer_def)
  note l = is_chain_last [OF c]
  have g: "geometry ?s (ed_fatRaw st)" using v by (simp add: volume_def)
  have wr: "wr_cluster wr = of_nat ?l" "?o \<le> cluster_size ?s" using w by (simp_all add: writer_at_def)
  have bound: "cluster_pos ?s ?l + ?o + length x \<le> length (image st)"
    using volume_cluster(1) [OF v l(2)] m wr(2) by linarith
  have "cluster_pos ?s ?l + ?o < 2 ^ 64" using bound len by linarith
  then have p: "unat (ClusterFileOffset ?s (wr_cluster wr) + ucast (wr_offset wr)) = cluster_pos ?s ?l + ?o"
    using ClusterFileOffset_pos [OF g l(2)] wr(1) by (simp add: unat_word_ariths)
  obtain st' where st': "image st' = overwrite (cluster_pos ?s ?l + ?o) x (image st)" "ed_fatRaw st' = ed_fatRaw st"
    "wrote st st'"
    "ed_WriteAt P (ClusterFileOffset ?s (wr_cluster wr) + ucast (wr_offset wr)) x st = Some (Inr (), st')"
    using ed_WriteAt_works [of "ClusterFileOffset ?s (wr_cluster wr) + ucast (wr_offset wr)" x st] bound len
    unfolding p by blast
  note store = writer_store [OF v c w m st'(1)]
  have "ed_super st' = ed_super st" "length (image st') = length (image st)"
    using st'(3) store(2) by (simp_all add: wrote_def extends_def)
  then show ?thesis using st' store len c
    by (auto simp: ed_extends_def ed_volume_def ed_chain_def ed_writer_def)
qed

lemma append_link:
  assumes "ed_volume st" "ed_chain st cs" "ed_writer st cs wr old"
    and full: "unat (wr_offset wr) = cluster_size (ed_super st)"
  shows "(\<forall>k < cluster_total (ed_super st). raw_entry (ed_fatRaw st) k \<noteq> 0) \<and>
       FatReader_AllocateCluster_after (wr_cluster wr) st = Some (Inl no_space, st) \<or>
     (\<exists>k st'. FatReader_AllocateCluster_after (wr_cluster wr) st = Some (Inr (of_nat k), st') \<and>
       ed_extends st cs st' (cs @ [k]) \<and>
       ed_writer st' (cs @ [k]) (wr\<lparr>wr_cluster := of_nat k, wr_offset := 0\<rparr>) old)"
proof -
  let ?s = "ed_super st" and ?raw = "ed_fatRaw st"
  have v: "volume ?s ?raw (image st)" and len: "length (image st) < 2 ^ 64"
    and c: "is_chain ?s ?raw cs" and w: "writer_at ?s (image st) cs wr old"
    using assms(1-3) by (simp_all add: ed_volume_def ed_chain_def ed_writer_def)
  have g: "geometry ?s ?raw" using v by (simp add: volume_def)
  note l = is_chain_last [OF c]
  have wr: "unat (wr_cluster wr) = last cs"
    using w data_cluster_small(3) [OF g l(2)] by (simp add: writer_at_def)
  show ?thesis
  proof (cases "first_free ?s ?raw")
    case None
    then have "FatReader_AllocateCluster_after (wr_cluster wr) st = Some (Inl no_space, st)"
      using AllocateCluster_eq [OF g] by (simp add: FatReader_AllocateCluster_after_def io_bind_def)
    then show ?thesis using None unfolding first_free_None by blast
  next
    case (Some k)
    define raw' where "raw' = FatReader_Set (FatReader_Set ?raw k 0x0FFFFFF8) (last cs) (of_nat k)"
    note link = chain_link [OF v c Some raw'_def]
    have alloc: "FatReader_AllocateCluster_after (wr_cluster wr) st = Some (Inr (of_nat k), st\<lparr>ed_fatRaw := raw'\<rparr>)"
      using AllocateCluster_eq [OF g] Some wr
      by (simp add: FatReader_AllocateCluster_after_def io_bind_def io_put_def io_return_def raw'_def)
    have img: "image (st\<lparr>ed_fatRaw := raw'\<rparr>) = image st" by (simp add: image_def)
    have "ed_extends st cs (st\<lparr>ed_fatRaw := raw'\<rparr>) (cs @ [k])"
      using link len by (simp add: ed_extends_def ed_volume_def ed_chain_def img)
    moreover have "chain_data ?s (image st) cs = old"
    proof -
      have "chain_data ?s (image st) cs = chain_data ?s (image st) (butlast cs) @ cluster_data ?s (image st) (last cs)"
        using l(1) unfolding chain_data_def by (metis concat.simps(1,2) concat_append list.simps(8,9) map_append append_Nil2)
      then show ?thesis using w full volume_cluster(2) [OF v l(2)] by (simp add: writer_at_def)
    qed
    then have "ed_writer (st\<lparr>ed_fatRaw := raw'\<rparr>) (cs @ [k]) (wr\<lparr>wr_cluster := of_nat k, wr_offset := 0\<rparr>) old"
      using w l(1) c by (simp add: ed_writer_def writer_at_def img is_chain_def)
    ultimately show ?thesis using alloc by blast
  qed
qed

end

context reliable_posix
begin

definition append_result :: "'a Edit \<Rightarrow> nat list \<Rightarrow> bytes \<Rightarrow> exn + FileWriter \<Rightarrow> 'a Edit \<Rightarrow> bool" where
  "append_result st cs new r st' \<longleftrightarrow> (\<exists>cs'. ed_extends st cs st' cs' \<and>
     (case r of Inr wr' \<Rightarrow> ed_writer st' cs' wr' new
      | Inl e \<Rightarrow> e = no_space \<and> (\<forall>k < cluster_total (ed_super st'). raw_entry (ed_fatRaw st') k \<noteq> 0)))"

lemma append_result_trans:
  assumes "ed_extends st cs st1 cs1" "append_result st1 cs1 new r st'"
  shows "append_result st cs new r st'"
  using assms ed_extends_trans unfolding append_result_def by blast

lemma Append_correct:
  assumes "ed_volume st" "ed_chain st cs" "ed_writer st cs wr old"
  shows "\<exists>r st'. FileWriter_Append P d wr st = Some (r, st') \<and> append_result st cs (old @ d) r st'"
  using assms
proof (induction "2 * length d + (if unat (wr_offset wr) = cluster_size (ed_super st) then 1 else 0)"
    arbitrary: d wr st cs old rule: less_induct)
  case less
  let ?s = "ed_super st" and ?o = "unat (wr_offset wr)"
  note loop = FileWriter_Append.simps [of P d wr st]
  have v: "volume ?s (ed_fatRaw st) (image st)" and c: "is_chain ?s (ed_fatRaw st) cs"
    and w: "writer_at ?s (image st) cs wr old"
    using less.prems by (simp_all add: ed_volume_def ed_chain_def ed_writer_def)
  note space = SpaceAvailable_eq [OF v c w]
  have o: "?o \<le> cluster_size ?s" using w by (simp add: writer_at_def)
  consider (finished) "d = []" | (full) "d \<noteq> []" "?o = cluster_size ?s" | (room) "d \<noteq> []" "?o < cluster_size ?s"
    using o by linarith
  then show ?case
  proof cases
    case finished
    have "append_result st cs (old @ d) (Inr wr) st"
      using ed_extends_refl less.prems finished by (auto simp: append_result_def)
    then show ?thesis using loop finished by simp
  next
    case full
    have step: "FileWriter_Append P d wr st = io_bind (FatReader_AllocateCluster_after (wr_cluster wr))
        (\<lambda>c. FileWriter_Append P d (wr\<lparr>wr_cluster := c, wr_offset := 0\<rparr>)) st"
      using full by (subst loop) (simp add: space Let_def)
    from append_link [OF less.prems full(2)] show ?thesis
    proof (elim disjE conjE exE)
      assume a: "\<forall>k < cluster_total ?s. raw_entry (ed_fatRaw st) k \<noteq> 0"
        "FatReader_AllocateCluster_after (wr_cluster wr) st = Some (Inl no_space, st)"
      have "append_result st cs (old @ d) (Inl no_space) st"
        using ed_extends_refl [OF less.prems(1,2)] a(1) by (auto simp: append_result_def)
      then show ?thesis using a(2) by (simp add: step io_bind_def)
    next
      fix k st1 assume a: "FatReader_AllocateCluster_after (wr_cluster wr) st = Some (Inr (of_nat k), st1)"
        "ed_extends st cs st1 (cs @ [k])" "ed_writer st1 (cs @ [k]) (wr\<lparr>wr_cluster := of_nat k, wr_offset := 0\<rparr>) old"
      let ?wr = "wr\<lparr>wr_cluster := of_nat k, wr_offset := 0\<rparr>"
      have st1: "ed_volume st1" "ed_chain st1 (cs @ [k])" "ed_super st1 = ?s"
        using a(2) by (simp_all add: ed_extends_def wrote_def)
      have "0 < cluster_size ?s" using v cluster_size_pos unfolding volume_def by blast
      then have "2 * length d + (if unat (wr_offset ?wr) = cluster_size (ed_super st1) then 1 else 0) <
          2 * length d + (if ?o = cluster_size ?s then 1 else 0)"
        using full(2) st1(3) by simp
      from less.hyps [OF this st1(1,2) a(3)] obtain r st' where
        "FileWriter_Append P d ?wr st1 = Some (r, st')" "append_result st1 (cs @ [k]) (old @ d) r st'" by blast
      then show ?thesis using a(1) append_result_trans [OF a(2)] by (auto simp: step io_bind_def)
    qed
  next
    case room
    define m where "m = (if cluster_size ?s - ?o > length d then length d else cluster_size ?s - ?o)"
    have "m = min (cluster_size ?s - ?o) (length d)" "0 < length d" using room(1) by (simp_all add: m_def)
    then have m: "0 < m" "m \<le> length d" "m \<le> cluster_size ?s - ?o" using room(2) by linarith+
    have len: "length (take m d) = m" using m(2) by simp
    let ?wr = "wr\<lparr>wr_offset := wr_offset wr + of_nat m, wr_totalSize := wr_totalSize wr + of_nat m\<rparr>"
    have step: "FileWriter_Append P d wr st =
        io_bind (ed_WriteAt P (ClusterFileOffset ?s (wr_cluster wr) + ucast (wr_offset wr)) (take m d))
          (\<lambda>_. FileWriter_Append P (drop m d) ?wr) st"
      using room m(1) by (subst loop) (simp add: space Let_def m_def [symmetric])
    obtain st1 where st1: "ed_extends st cs st1 cs" "ed_writer st1 cs ?wr (old @ take m d)"
      "ed_WriteAt P (ClusterFileOffset ?s (wr_cluster wr) + ucast (wr_offset wr)) (take m d) st = Some (Inr (), st1)"
      using append_store [OF less.prems, of "take m d"] m(3) unfolding len by blast
    have "ed_volume st1" "ed_chain st1 cs" using st1(1) by (simp_all add: ed_extends_def)
    moreover have "2 * length (drop m d) + (if unat (wr_offset ?wr) = cluster_size (ed_super st1) then 1 else 0) <
        2 * length d + (if ?o = cluster_size ?s then 1 else 0)"
    proof -
      have "2 * length (drop m d) + 2 \<le> 2 * length d" using m(1,2) by simp
      then show ?thesis by (auto split: if_splits)
    qed
    ultimately obtain r st' where "FileWriter_Append P (drop m d) ?wr st1 = Some (r, st')"
      "append_result st1 cs ((old @ take m d) @ drop m d) r st'"
      using less.hyps st1(2) by blast
    then show ?thesis using st1(3) append_result_trans [OF st1(1)] by (auto simp: step io_bind_def)
  qed
qed

end

subsection \<open>An example volume\<close>

text \<open>
  60 sectors with two FATs of 9 sectors behind 32 reserved ones leave ten clusters. Cluster 2 is
  the root directory, 3 and 5 a file of two clusters, the other entries are zero.
\<close>

definition small_super :: FatSuper where
  "small_super = example_super\<lparr>fs_totalSectorCount := [60, 0, 0, 0]\<rparr>"

definition small_fat :: bytes where
  "small_fat = [0xF8, 0xFF, 0xFF, 0x0F, 0xFF, 0xFF, 0xFF, 0x0F, 0xF8, 0xFF, 0xFF, 0x0F, 5, 0, 0, 0,
     0, 0, 0, 0, 0xF8, 0xFF, 0xFF, 0x0F] @ replicate 4584 0"

lemma small_super_geometry:
  "FatSuper_SectorsPerCluster small_super = 1" "FatSuper_NumFats small_super = 2"
  "FatSuper_ReservedSectors small_super = 32" "FatSuper_SectorsPerFat small_super = 9"
  "FatSuper_BytesPerSector small_super = 512" "FatSuper_SectorCount small_super = 60"
  using example_super_geometry
  by (simp_all add: small_super_def FatSuper_SectorsPerCluster_def FatSuper_NumFats_def
      FatSuper_ReservedSectors_def FatSuper_SectorsPerFat_def FatSuper_BytesPerSector_def
      FatSuper_SectorCount_def) code_simp

lemma small_cluster_total: "cluster_total small_super = 10"
  by (simp add: cluster_total_def small_super_geometry)

lemma small_geometry: "geometry small_super small_fat"
  by (simp add: geometry_def small_super_geometry small_cluster_total) (simp add: small_fat_def)

lemma small_fat_entries:
  "raw_entry small_fat 0 = 0x0FFFFFF8" "raw_entry small_fat 1 = 0x0FFFFFFF" "raw_entry small_fat 2 = 0x0FFFFFF8"
  "raw_entry small_fat 3 = 5" "raw_entry small_fat 4 = 0" "raw_entry small_fat 5 = 0x0FFFFFF8"
  by (simp_all add: raw_entry_def small_fat_def) code_simp+

lemma small_volume: "30720 \<le> length img \<Longrightarrow> volume small_super small_fat img"
  using small_geometry by (simp add: volume_def small_super_geometry small_fat_entries del: One_nat_def)

lemma small_chain: "is_chain small_super small_fat [3, 5]"
  by (simp add: is_chain_def data_cluster_def small_cluster_total small_fat_entries less_Suc_eq)

definition small_state :: "'s \<Rightarrow> int \<Rightarrow> 's Edit" where
  "small_state sys fd = \<lparr>ed_sys = sys, ed_file = fd, ed_super = small_super, ed_fatRaw = small_fat,
     ed_fsinfo = FatFsInfo_of_bytes (replicate 512 0), ed_cout = [], ed_cerr = []\<rparr>"

text \<open>The first zero entry of the example is that of cluster 4.\<close>

theorem AllocateCluster_first_free_witness:
  "\<exists>raw'. FatReader_AllocateCluster (small_state () 3) = Some (Inr 4, (small_state () 3)\<lparr>ed_fatRaw := raw'\<rparr>) \<and>
     raw_entry raw' 4 = 0x0FFFFFF8 \<and> raw_entry raw' 3 = 5"
proof -
  have e: "raw_entry small_fat k \<noteq> 0" if "k < 4" for k
  proof -
    have "k = 0 \<or> k = 1 \<or> k = 2 \<or> k = 3" using that by linarith
    then show ?thesis using small_fat_entries by (elim disjE) (simp_all del: One_nat_def)
  qed
  have "geometry (ed_super (small_state () 3)) (ed_fatRaw (small_state () 3))"
    using small_geometry by (simp add: small_state_def)
  from AllocateCluster_first_free [OF this] obtain k raw' where
    k: "k < 10" "raw_entry small_fat k = 0" "\<forall>j < k. raw_entry small_fat j \<noteq> 0"
    "FatReader_AllocateCluster (small_state () 3) = Some (Inr (of_nat k), (small_state () 3)\<lparr>ed_fatRaw := raw'\<rparr>)"
    "raw_entry raw' k = 0x0FFFFFF8" "\<forall>j. j \<noteq> k \<longrightarrow> raw_entry raw' j = raw_entry small_fat j"
    using small_fat_entries(5) by (auto simp: small_state_def small_cluster_total)
  have "k = 4" using k(2,3) e small_fat_entries(5) by (metis linorder_neqE_nat)
  then show ?thesis using k(4-6) small_fat_entries(4) by (intro exI [of _ raw']) simp
qed

end
