(* ===== verification/Fat_Edit_Files.thy ===== *)
theory Fat_Edit_Files
  imports Fat_Edit_Correct
begin

text \<open>
  What the operations of the editor do to whole files: \<^verbatim>\<open>type\<close> prints a file, appending extends
  one, and what \<^verbatim>\<open>pack\<close> copied into the volume is what \<^verbatim>\<open>type\<close> prints later. The file system of
  the host is any system that keeps the contract of \<^verbatim>\<open>Host_File\<close>.
\<close>

subsection \<open>Creating a file and copying into it\<close>

lemma new_chain:
  assumes v: "volume s raw img" and k: "first_free s raw = Some k" and raw': "raw' = FatReader_Set raw k 0x0FFFFFF8"
  shows "is_chain s raw' [k]" "volume s raw' img" "extends s raw img [] raw' img [k]"
proof -
  note f = first_free_Some [OF k]
  have g: "geometry s raw" and e: "raw_entry raw 0 \<noteq> 0" "raw_entry raw 1 \<noteq> 0" using v by (simp_all add: volume_def)
  have "k \<noteq> 0" "k \<noteq> 1" using f(2) e by metis+
  then have d: "data_cluster s k" using f(1) by (simp add: data_cluster_def)
  note len = data_cluster_small(2) [OF g d]
  have ent: "raw_entry raw' j = (if j = k then 0x0FFFFFF8 else raw_entry raw j)" for j
    using len by (simp add: raw' raw_entry_Set)
  show "is_chain s raw' [k]" using d by (simp add: is_chain_def ent)
  have l: "length raw' = length raw" by (simp add: raw')
  have "raw_entry raw' 0 \<noteq> 0" "raw_entry raw' 1 \<noteq> 0" using ent [of 0] ent [of 1] e by auto
  then show "volume s raw' img" using v by (simp add: volume_def geometry_def l)
  show "extends s raw img [] raw' img [k]" using f(2) ent by (simp add: extends_def raw')
qed

text \<open>A chain fits into the volume, so that the size of a file is not larger than 32 bits.\<close>

lemma chain_fits:
  assumes "volume s raw img" "is_chain s raw cs"
  shows "length cs * cluster_size s < 2 ^ 32"
proof -
  have g: "geometry s raw" using assms(1) by (simp add: volume_def)
  have "set cs \<subseteq> {..< cluster_total s}" using assms(2) by (auto simp: is_chain_def data_cluster_def)
  then have "card (set cs) \<le> cluster_total s" using card_mono [of "{..< cluster_total s}"] by fastforce
  then have n: "length cs \<le> cluster_total s" using assms(2) by (simp add: is_chain_def distinct_card)
  let ?d = "unat (FatSuper_SectorCount s) - unat (FatSuper_NumFats s) * unat (FatSuper_SectorsPerFat s) -
     unat (FatSuper_ReservedSectors s)"
  have "length cs * unat (FatSuper_SectorsPerCluster s) \<le> cluster_total s * unat (FatSuper_SectorsPerCluster s)"
    using n by (rule mult_right_mono) simp
  also have "\<dots> \<le> ?d" unfolding cluster_total_def by (rule div_times_less_eq_dividend)
  finally have "length cs * unat (FatSuper_SectorsPerCluster s) \<le> unat (FatSuper_SectorCount s)" by linarith
  then have "length cs * unat (FatSuper_SectorsPerCluster s) * unat (FatSuper_BytesPerSector s) \<le>
      unat (FatSuper_SectorCount s) * unat (FatSuper_BytesPerSector s)"
    by (rule mult_right_mono) simp
  then show ?thesis using g unfolding geometry_def cluster_size_def mult.assoc by linarith
qed

lemma writer_file:
  assumes "volume s raw img" "is_chain s raw cs" "writer_at s img cs wr d"
  shows "unat (wr_totalSize wr) = length d" "take (length d) (chain_data s img cs) = d"
    "wr_firstCluster wr = of_nat (hd cs)"
proof -
  have cs: "cs \<noteq> []" "\<forall>c \<in> set cs. data_cluster s c" using assms(2) by (simp_all add: is_chain_def)
  then have split: "chain_data s img cs = chain_data s img (butlast cs) @ cluster_data s img (last cs)"
    by (cases cs rule: rev_cases) (simp_all add: chain_data_def)
  have d: "d = chain_data s img (butlast cs) @ take (unat (wr_offset wr)) (cluster_data s img (last cs))"
    using assms(3) by (simp add: writer_at_def)
  define n where "n = length (chain_data s img (butlast cs)) + unat (wr_offset wr)"
  have n: "d = take n (chain_data s img cs)" unfolding split d by (simp add: n_def)
  then show "take (length d) (chain_data s img cs) = d" by (simp add: min_def)
  have "length (chain_data s img cs) = length cs * cluster_size s"
    unfolding chain_data_def using volume_cluster(2) [OF assms(1)] cs(2)
    by (subst length_concat_same [of _ "cluster_size s"]) auto
  then have "length d < 2 ^ 32" using chain_fits [OF assms(1,2)] n by simp
  moreover have "wr_totalSize wr = of_nat (length d)" using assms(3) by (simp only: writer_at_def)
  ultimately show "unat (wr_totalSize wr) = length d" by (simp only: unat_of_nat_u32)
  show "wr_firstCluster wr = of_nat (hd cs)" using assms(3) by (simp add: writer_at_def)
qed

context reliable_posix
begin

text \<open>Creating a file is an extension of the empty chain.\<close>

lemma create_correct:
  assumes vol: "ed_volume st"
  shows "\<exists>r st'. FileWriter_create st = Some (r, st') \<and>
    (case r of Inl e \<Rightarrow> e = no_space \<and> st' = st \<and> (\<forall>k < cluster_total (ed_super st). raw_entry (ed_fatRaw st) k \<noteq> 0)
     | Inr wr \<Rightarrow> (\<exists>k. ed_extends st [] st' [k] \<and> ed_writer st' [k] wr []))"
proof -
  let ?s = "ed_super st" and ?raw = "ed_fatRaw st"
  have v: "volume ?s ?raw (image st)" and len: "length (image st) < 2 ^ 64" using vol by (simp_all add: ed_volume_def)
  then have g: "geometry ?s ?raw" by (simp add: volume_def)
  show ?thesis
  proof (cases "first_free ?s ?raw")
    case None
    then have "FileWriter_create st = Some (Inl no_space, st)"
      using AllocateCluster_eq [OF g] by (simp add: FileWriter_create_def io_bind_def)
    then show ?thesis using None unfolding first_free_None by simp
  next
    case (Some k)
    define raw' where "raw' = FatReader_Set ?raw k 0x0FFFFFF8"
    let ?st = "st\<lparr>ed_fatRaw := raw'\<rparr>"
      and ?wr = "\<lparr>wr_cluster = of_nat k, wr_offset = 0, wr_firstCluster = of_nat k, wr_totalSize = 0\<rparr>"
    note new = new_chain [OF v Some raw'_def]
    have img: "image ?st = image st" by (simp add: image_def)
    have "FileWriter_create st = Some (Inr ?wr, ?st)"
      using AllocateCluster_eq [OF g] Some by (simp add: FileWriter_create_def io_bind_def io_return_def raw'_def)
    moreover have "ed_extends st [] ?st [k]"
      using new len by (simp add: ed_extends_def ed_volume_def ed_chain_def img)
    moreover have "ed_writer ?st [k] ?wr []"
      by (simp add: ed_writer_def writer_at_def chain_data_def)
    ultimately show ?thesis by auto
  qed
qed

text \<open>What a copy into a file keeps: all but the image and the position in the input.\<close>

definition kept :: "'a Edit \<Rightarrow> 'a Edit \<Rightarrow> bool" where
  "kept st st' \<longleftrightarrow> ed_file st' = ed_file st \<and> ed_super st' = ed_super st \<and> ed_fsinfo st' = ed_fsinfo st \<and>
     ed_cout st' = ed_cout st \<and> ed_cerr st' = ed_cerr st \<and> same_files (ed_sys st) (ed_sys st') \<and>
     (\<forall>i. i \<noteq> inode (ed_sys st) (ed_file st) \<longrightarrow> bytes_of (ed_sys st') i = bytes_of (ed_sys st) i)"

lemma kept_trans: "kept a b \<Longrightarrow> kept b c \<Longrightarrow> kept a c"
  unfolding kept_def same_files_def by auto

definition copies :: "'a Edit \<Rightarrow> nat list \<Rightarrow> 'a Edit \<Rightarrow> nat list \<Rightarrow> bool" where
  "copies st cs st' cs' \<longleftrightarrow> kept st st' \<and> ed_volume st' \<and> ed_chain st' cs' \<and>
     extends (ed_super st) (ed_fatRaw st) (image st) cs (ed_fatRaw st') (image st') cs'"

lemma extends_copies: "ed_extends st cs st' cs' \<Longrightarrow> copies st cs st' cs'"
  by (auto simp: ed_extends_def copies_def wrote_def kept_def)

lemma copies_trans:
  assumes "copies st cs st1 cs1" "copies st1 cs1 st2 cs2"
  shows "copies st cs st2 cs2"
proof -
  have "ed_super st1 = ed_super st" using assms(1) by (simp add: copies_def kept_def)
  then show ?thesis using assms kept_trans [of st st1 st2] extends_trans unfolding copies_def by metis
qed

definition copy_result :: "'a Edit \<Rightarrow> nat list \<Rightarrow> bytes \<Rightarrow> exn + FileWriter \<Rightarrow> 'a Edit \<Rightarrow> bool" where
  "copy_result st cs new r st' \<longleftrightarrow> (\<exists>cs'. copies st cs st' cs' \<and>
     (case r of Inr wr' \<Rightarrow> ed_writer st' cs' wr' new
      | Inl e \<Rightarrow> e = no_space \<and> (\<forall>k < cluster_total (ed_super st'). raw_entry (ed_fatRaw st') k \<noteq> 0)))"

lemma copy_result_trans: "copies st cs st1 cs1 \<Longrightarrow> copy_result st1 cs1 new r st' \<Longrightarrow> copy_result st cs new r st'"
  using copies_trans unfolding copy_result_def by blast

end

lemma subbytes_rest: "subbytes p n c @ drop (p + length (subbytes p n c)) c = drop p c"
proof -
  have "drop (p + length (subbytes p n c)) c = drop n (drop p c)" by (auto simp: subbytes_def min_def add.commute)
  then show ?thesis by (simp only: subbytes_def append_take_drop_id)
qed

context reliable_posix
begin

lemma infile_read:
  "\<exists>s'. ed_call (File_Read P infile n) st =
      Some (Inr (subbytes (pos (ed_sys st) infile) n (content (ed_sys st) infile)), st\<lparr>ed_sys := s'\<rparr>) \<and>
    same_files (ed_sys st) s' \<and> bytes_of s' = bytes_of (ed_sys st) \<and>
    pos s' infile = pos (ed_sys st) infile + length (subbytes (pos (ed_sys st) infile) n (content (ed_sys st) infile))"
  using Read_works [of infile n "ed_sys st"] by (auto simp: ed_call_def)

lemma after_read:
  assumes "same_files (ed_sys st) s'" "bytes_of s' = bytes_of (ed_sys st)"
  shows "image (st\<lparr>ed_sys := s'\<rparr>) = image st" "ed_volume (st\<lparr>ed_sys := s'\<rparr>) = ed_volume st"
    "ed_chain (st\<lparr>ed_sys := s'\<rparr>) cs = ed_chain st cs" "ed_writer (st\<lparr>ed_sys := s'\<rparr>) cs wr old = ed_writer st cs wr old"
    "kept st (st\<lparr>ed_sys := s'\<rparr>)"
proof -
  show i: "image (st\<lparr>ed_sys := s'\<rparr>) = image st"
    using assms by (simp add: image_def content_def same_files_def)
  show "ed_volume (st\<lparr>ed_sys := s'\<rparr>) = ed_volume st" "ed_chain (st\<lparr>ed_sys := s'\<rparr>) cs = ed_chain st cs"
    "ed_writer (st\<lparr>ed_sys := s'\<rparr>) cs wr old = ed_writer st cs wr old" "kept st (st\<lparr>ed_sys := s'\<rparr>)"
    using i assms by (simp_all add: ed_volume_def ed_chain_def ed_writer_def kept_def)
qed

lemma copies_after_read:
  assumes "ed_volume st" "ed_chain st cs" "same_files (ed_sys st) s'" "bytes_of s' = bytes_of (ed_sys st)"
  shows "copies st cs (st\<lparr>ed_sys := s'\<rparr>) cs"
  using assms after_read [OF assms(3,4)] by (simp add: copies_def ed_chain_def is_chain_def extends_refl)

text \<open>The copy loop of \<^verbatim>\<open>pack\<close> appends what is left of the input, or runs out of clusters.\<close>

lemma PackDirectory_loop_correct:
  assumes "ed_volume st" "ed_chain st cs" "ed_writer st cs wr old"
    and "inode (ed_sys st) infile \<noteq> inode (ed_sys st) (ed_file st)"
  shows "\<exists>r st'. PackDirectory_loop P infile wr st = Some (r, st') \<and>
    copy_result st cs (old @ drop (pos (ed_sys st) infile) (content (ed_sys st) infile)) r st'"
  using assms
proof (induction "length (content (ed_sys st) infile) - pos (ed_sys st) infile" arbitrary: wr st cs old rule: less_induct)
  case less
  let ?p = "pos (ed_sys st) infile" and ?c = "content (ed_sys st) infile"
  let ?b = "subbytes ?p 512 ?c"
  obtain s1 where s1: "ed_call (File_Read P infile 512) st = Some (Inr ?b, st\<lparr>ed_sys := s1\<rparr>)"
    "same_files (ed_sys st) s1" "bytes_of s1 = bytes_of (ed_sys st)" "pos s1 infile = ?p + length ?b"
    using infile_read [of infile 512 st] by blast
  let ?st1 = "st\<lparr>ed_sys := s1\<rparr>"
  note keep = after_read [OF s1(2,3)]
  have st1: "copies st cs ?st1 cs" using less.prems(1,2) s1(2,3) by (rule copies_after_read)
  show ?case
  proof (cases "?b = []")
    case True
    then have "length ?c \<le> ?p" by (auto simp: subbytes_def)
    moreover have "PackDirectory_loop P infile wr st = Some (Inr wr, ?st1)"
      using s1(1) True by (subst PackDirectory_loop.simps) (simp add: io_bind_def)
    ultimately show ?thesis using st1 less.prems(3) keep by (auto simp: copy_result_def)
  next
    case False
    have step: "PackDirectory_loop P infile wr st =
        io_bind (FileWriter_Append P ?b wr) (\<lambda>wr1. PackDirectory_loop P infile wr1) ?st1"
      using s1(1) False by (subst PackDirectory_loop.simps) (simp add: io_bind_def)
    have "ed_volume ?st1" "ed_chain ?st1 cs" "ed_writer ?st1 cs wr old" using keep less.prems by simp_all
    from Append_correct [OF this, of ?b] obtain r1 st2 cs2 where
      a: "FileWriter_Append P ?b wr ?st1 = Some (r1, st2)" "ed_extends ?st1 cs st2 cs2"
      "case r1 of Inr wr' \<Rightarrow> ed_writer st2 cs2 wr' (old @ ?b)
        | Inl e \<Rightarrow> e = no_space \<and> (\<forall>k < cluster_total (ed_super st2). raw_entry (ed_fatRaw st2) k \<noteq> 0)"
      unfolding append_result_def by blast
    have st2: "copies st cs st2 cs2" using copies_trans [OF st1 extends_copies [OF a(2)]] .
    show ?thesis
    proof (cases r1)
      case (Inl e)
      then show ?thesis using a st2 by (auto simp: step io_bind_def copy_result_def)
    next
      case (Inr wr2)
      have w: "wrote ?st1 st2" "ed_volume st2" "ed_chain st2 cs2" using a(2) by (simp_all add: ed_extends_def)
      have f: "inode (ed_sys st2) = inode (ed_sys st)" "ed_file st2 = ed_file st"
        "pos (ed_sys st2) infile = ?p + length ?b" "content (ed_sys st2) infile = ?c"
        using w(1) s1(2-4) less.prems(4) by (simp_all add: wrote_def same_files_def content_def)
      have "?p + length ?b \<le> length ?c" "0 < length ?b" using False by (auto simp: subbytes_def)
      then have "length (content (ed_sys st2) infile) - pos (ed_sys st2) infile < length ?c - ?p"
        unfolding f(3,4) by linarith
      moreover have "ed_writer st2 cs2 wr2 (old @ ?b)" using a(3) Inr by simp
      ultimately obtain r st' where rec: "PackDirectory_loop P infile wr2 st2 = Some (r, st')"
        "copy_result st2 cs2 ((old @ ?b) @ drop (?p + length ?b) ?c) r st'"
        using less.hyps [of st2 cs2 wr2 "old @ ?b"] w(2,3) less.prems(4) unfolding f by blast
      have "?b @ drop (?p + length ?b) ?c = drop ?p ?c"
        by (rule subbytes_rest)
      then have "copy_result st cs (old @ drop ?p ?c) r st'"
        using copy_result_trans [OF st2 rec(2)] by simp
      then show ?thesis using a(1) Inr rec(1) by (auto simp: step io_bind_def)
    qed
  qed
qed

end

subsection \<open>Files of the volume\<close>

text \<open>The contents of the file the editor has open.\<close>

definition image_of :: "('s \<Rightarrow> int \<Rightarrow> nat) \<Rightarrow> ('s \<Rightarrow> nat \<Rightarrow> bytes) \<Rightarrow> 's Edit \<Rightarrow> bytes" where
  "image_of inode bytes_of st = bytes_of (ed_sys st) (inode (ed_sys st) (ed_file st))"

definition edit_volume :: "('s \<Rightarrow> int \<Rightarrow> nat) \<Rightarrow> ('s \<Rightarrow> nat \<Rightarrow> bytes) \<Rightarrow> 's Edit \<Rightarrow> bool" where
  "edit_volume inode bytes_of st \<longleftrightarrow> volume (ed_super st) (ed_fatRaw st) (image_of inode bytes_of st) \<and>
     length (image_of inode bytes_of st) < 2 ^ 64"

text \<open>No entry that the allocation looks at is zero.\<close>

definition no_free_cluster :: "'s Edit \<Rightarrow> bool" where
  "no_free_cluster st \<longleftrightarrow> (\<forall>k < cluster_total (ed_super st). raw_entry (ed_fatRaw st) k \<noteq> 0)"

text \<open>The clusters in use, with what they hold and the entries that link them, are kept.\<close>

definition used_clusters_kept :: "FatSuper \<Rightarrow> bytes \<Rightarrow> bytes \<Rightarrow> bytes \<Rightarrow> bytes \<Rightarrow> bool" where
  "used_clusters_kept s raw img raw' img' \<longleftrightarrow> (\<forall>c. data_cluster s c \<longrightarrow> raw_entry raw c \<noteq> 0 \<longrightarrow>
     raw_entry raw' c = raw_entry raw c \<and> cluster_data s img' c = cluster_data s img c)"

lemma extends_used: "extends s raw img [] raw' img' cs' \<Longrightarrow> used_clusters_kept s raw img raw' img'"
  unfolding extends_def used_clusters_kept_def by (metis append_Nil)

context reliable_posix
begin

lemma image_eq: "image st = image_of inode bytes_of st" "ed_volume st = edit_volume inode bytes_of st"
  by (simp_all add: image_def content_def image_of_def ed_volume_def edit_volume_def)

lemma type_file:
  assumes "edit_volume inode bytes_of st" "is_chain (ed_super st) (ed_fatRaw st) cs"
  shows "\<exists>st'. DumpFile_loop P (FileReader_new (of_nat (hd cs)) n) st = Some (Inr (), st') \<and>
    ed_cout st' = ed_cout st @ take (unat n) (chain_data (ed_super st) (image_of inode bytes_of st) cs) \<and>
    ed_fatRaw st' = ed_fatRaw st \<and> image_of inode bytes_of st' = image_of inode bytes_of st"
proof -
  let ?d = "take (unat n) (chain_data (ed_super st) (image_of inode bytes_of st) cs)"
  have "ed_reader st cs (FileReader_new (of_nat (hd cs)) n) ?d"
    unfolding ed_reader_def image_eq using assms(2) by (rule reader_at_new)
  then obtain st' where st': "DumpFile_loop P (FileReader_new (of_nat (hd cs)) n) st = Some (Inr (), st')"
    "only_read (st\<lparr>ed_cout := ed_cout st @ ?d\<rparr>) st'"
    using DumpFile_loop_correct [of st cs] assms by (auto simp: image_eq ed_chain_def)
  then show ?thesis using only_read_simps [OF st'(2)] by (auto simp: image_eq image_of_def)
qed

lemma append_file:
  assumes "edit_volume inode bytes_of st" "is_chain (ed_super st) (ed_fatRaw st) cs"
    and "writer_at (ed_super st) (image_of inode bytes_of st) cs wr old"
  shows "\<exists>r st' cs'. FileWriter_Append P d wr st = Some (r, st') \<and>
    extends (ed_super st) (ed_fatRaw st) (image_of inode bytes_of st) cs
      (ed_fatRaw st') (image_of inode bytes_of st') cs' \<and>
    is_chain (ed_super st) (ed_fatRaw st') cs' \<and>
    (case r of Inl e \<Rightarrow> e = no_space \<and> no_free_cluster st'
     | Inr wr' \<Rightarrow> writer_at (ed_super st) (image_of inode bytes_of st') cs' wr' (old @ d) \<and>
         unat (wr_totalSize wr') = length (old @ d) \<and>
         take (length (old @ d)) (chain_data (ed_super st) (image_of inode bytes_of st') cs') = old @ d)"
proof -
  obtain r st' cs' where a: "FileWriter_Append P d wr st = Some (r, st')" "ed_extends st cs st' cs'"
    "case r of Inr wr' \<Rightarrow> ed_writer st' cs' wr' (old @ d)
      | Inl e \<Rightarrow> e = no_space \<and> (\<forall>k < cluster_total (ed_super st'). raw_entry (ed_fatRaw st') k \<noteq> 0)"
    using Append_correct [of st cs wr old d] assms
    unfolding append_result_def by (auto simp: image_eq ed_chain_def ed_writer_def)
  have v: "volume (ed_super st) (ed_fatRaw st') (image_of inode bytes_of st')" "is_chain (ed_super st) (ed_fatRaw st') cs'"
    "ed_super st' = ed_super st"
    using a(2) by (auto simp: ed_extends_def image_eq edit_volume_def ed_chain_def wrote_def)
  have "case r of Inl e \<Rightarrow> e = no_space \<and> no_free_cluster st'
     | Inr wr' \<Rightarrow> writer_at (ed_super st) (image_of inode bytes_of st') cs' wr' (old @ d) \<and>
         unat (wr_totalSize wr') = length (old @ d) \<and>
         take (length (old @ d)) (chain_data (ed_super st) (image_of inode bytes_of st') cs') = old @ d"
  proof (cases r)
    case (Inr wr')
    then have "writer_at (ed_super st) (image_of inode bytes_of st') cs' wr' (old @ d)"
      using a(3) v(3) by (simp add: ed_writer_def image_eq)
    from this writer_file(1,2) [OF v(1,2) this] show ?thesis using Inr by simp
  qed (use a(3) in \<open>simp add: no_free_cluster_def\<close>)
  moreover have "extends (ed_super st) (ed_fatRaw st) (image_of inode bytes_of st) cs
      (ed_fatRaw st') (image_of inode bytes_of st') cs'"
    using a(2) by (simp add: ed_extends_def image_eq)
  ultimately show ?thesis using a(1) v(2) by blast
qed

lemma pack_chain:
  assumes "edit_volume inode bytes_of st" "inode (ed_sys st) infile \<noteq> inode (ed_sys st) (ed_file st)"
    and "input = drop (pos (ed_sys st) infile) (bytes_of (ed_sys st) (inode (ed_sys st) infile))"
  shows "\<exists>r st1. io_bind FileWriter_create (PackDirectory_loop P infile) st = Some (r, st1) \<and>
    (case r of Inl e \<Rightarrow> e = no_space \<and> no_free_cluster st1 \<and> (st1 = st \<or> (\<exists>cs. copies st [] st1 cs))
     | Inr wr \<Rightarrow> \<exists>cs. copies st [] st1 cs \<and> ed_writer st1 cs wr input)"
proof -
  have vol: "ed_volume st" using assms(1) by (simp add: image_eq)
  have input: "drop (pos (ed_sys st) infile) (content (ed_sys st) infile) = input" by (simp add: assms(3) content_def)
  obtain r0 st0 where c: "FileWriter_create st = Some (r0, st0)"
    "case r0 of Inl e \<Rightarrow> e = no_space \<and> st0 = st \<and> (\<forall>k < cluster_total (ed_super st). raw_entry (ed_fatRaw st) k \<noteq> 0)
     | Inr wr \<Rightarrow> (\<exists>k. ed_extends st [] st0 [k] \<and> ed_writer st0 [k] wr [])"
    using create_correct [OF vol] by blast
  show ?thesis
  proof (cases r0)
    case (Inl e)
    then show ?thesis using c by (simp add: io_bind_def no_free_cluster_def)
  next
    case (Inr wr0)
    then obtain k where k: "ed_extends st [] st0 [k]" "ed_writer st0 [k] wr0 []" using c(2) by auto
    have w: "wrote st st0" "ed_volume st0" "ed_chain st0 [k]" using k(1) by (simp_all add: ed_extends_def)
    have f: "inode (ed_sys st0) = inode (ed_sys st)" "ed_file st0 = ed_file st"
        "pos (ed_sys st0) infile = pos (ed_sys st) infile" "content (ed_sys st0) infile = content (ed_sys st) infile"
      using w(1) assms(2) by (simp_all add: wrote_def same_files_def content_def)
    obtain r st1 cs where p: "PackDirectory_loop P infile wr0 st0 = Some (r, st1)" "copies st0 [k] st1 cs"
      "case r of Inr wr' \<Rightarrow> ed_writer st1 cs wr' input
       | Inl e \<Rightarrow> e = no_space \<and> (\<forall>k < cluster_total (ed_super st1). raw_entry (ed_fatRaw st1) k \<noteq> 0)"
      using PackDirectory_loop_correct [OF w(2,3) k(2), of infile] assms(2)
      unfolding f input copy_result_def append_Nil by blast
    have "copies st [] st1 cs" using copies_trans [OF extends_copies [OF k(1)] p(2)] .
    then show ?thesis using c(1) Inr p(1,3) by (cases r) (auto simp: io_bind_def no_free_cluster_def)
  qed
qed

lemma copies_used: "copies st [] st1 cs \<Longrightarrow>
  used_clusters_kept (ed_super st) (ed_fatRaw st) (image_of inode bytes_of st) (ed_fatRaw st1) (image_of inode bytes_of st1)"
  by (intro extends_used [of _ _ _ _ _ cs]) (simp add: copies_def image_eq)

lemma pack_file:
  assumes "edit_volume inode bytes_of st" "inode (ed_sys st) infile \<noteq> inode (ed_sys st) (ed_file st)"
    and "input = drop (pos (ed_sys st) infile) (bytes_of (ed_sys st) (inode (ed_sys st) infile))"
  shows "\<exists>r st1. io_bind FileWriter_create (PackDirectory_loop P infile) st = Some (r, st1) \<and>
    used_clusters_kept (ed_super st) (ed_fatRaw st) (image_of inode bytes_of st) (ed_fatRaw st1) (image_of inode bytes_of st1) \<and>
    (case r of Inl e \<Rightarrow> e = no_space \<and> no_free_cluster st1
     | Inr wr \<Rightarrow> unat (wr_totalSize wr) = length input \<and>
         (\<exists>st2. DumpFile_loop P (FileReader_new (wr_firstCluster wr) (wr_totalSize wr)) st1 = Some (Inr (), st2) \<and>
            ed_cout st2 = ed_cout st @ input))"
proof -
  obtain r st1 where p: "io_bind FileWriter_create (PackDirectory_loop P infile) st = Some (r, st1)"
    "case r of Inl e \<Rightarrow> e = no_space \<and> no_free_cluster st1 \<and> (st1 = st \<or> (\<exists>cs. copies st [] st1 cs))
     | Inr wr \<Rightarrow> \<exists>cs. copies st [] st1 cs \<and> ed_writer st1 cs wr input"
    using pack_chain [OF assms] by blast
  show ?thesis
  proof (cases r)
    case (Inl e)
    then show ?thesis using p copies_used by (auto simp: used_clusters_kept_def)
  next
    case (Inr wr)
    then obtain cs where cs: "copies st [] st1 cs" "ed_writer st1 cs wr input" using p(2) by auto
    then have v: "edit_volume inode bytes_of st1" "is_chain (ed_super st1) (ed_fatRaw st1) cs" "ed_cout st1 = ed_cout st"
      "writer_at (ed_super st1) (image_of inode bytes_of st1) cs wr input"
      by (auto simp: copies_def image_eq ed_chain_def kept_def ed_writer_def)
    note wf = writer_file [OF v(1) [unfolded edit_volume_def, THEN conjunct1] v(2,4)]
    show ?thesis using p(1) Inr type_file [OF v(1,2), of "wr_totalSize wr"] v(3) wf copies_used [OF cs(1)] by auto
  qed
qed

end

text \<open>
  \<^verbatim>\<open>type\<close> on a file prints exactly its bytes: the first \<^verbatim>\<open>n\<close> bytes of the clusters of its chain,
  whatever interruptions and short transfers the system calls have. Image and FAT stay as they are.
\<close>

theorem type_prints_file:
  assumes "reliable_posix P inode bytes_of pos opened names patience"
    and "edit_volume inode bytes_of st" "is_chain (ed_super st) (ed_fatRaw st) cs"
  shows "\<exists>st'. DumpFile_loop P (FileReader_new (of_nat (hd cs)) n) st = Some (Inr (), st') \<and>
    ed_cout st' = ed_cout st @ take (unat n) (chain_data (ed_super st) (image_of inode bytes_of st) cs) \<and>
    ed_fatRaw st' = ed_fatRaw st \<and> image_of inode bytes_of st' = image_of inode bytes_of st"
  using assms by (rule reliable_posix.type_file)

text \<open>
  C18. Appending to a file stores the bytes behind the old ones: the chain grows by clusters that
  were free, every other cluster and entry is kept, and the chain then starts with the old bytes
  followed by the new ones. The only failure is that no cluster is free.
\<close>

theorem Append_extends_file:
  assumes "reliable_posix P inode bytes_of pos opened names patience"
    and "edit_volume inode bytes_of st" "is_chain (ed_super st) (ed_fatRaw st) cs"
    and "writer_at (ed_super st) (image_of inode bytes_of st) cs wr old"
  shows "\<exists>r st' cs'. FileWriter_Append P d wr st = Some (r, st') \<and>
    extends (ed_super st) (ed_fatRaw st) (image_of inode bytes_of st) cs
      (ed_fatRaw st') (image_of inode bytes_of st') cs' \<and>
    is_chain (ed_super st) (ed_fatRaw st') cs' \<and>
    (case r of Inl e \<Rightarrow> e = no_space \<and> no_free_cluster st'
     | Inr wr' \<Rightarrow> writer_at (ed_super st) (image_of inode bytes_of st') cs' wr' (old @ d) \<and>
         unat (wr_totalSize wr') = length (old @ d) \<and>
         take (length (old @ d)) (chain_data (ed_super st) (image_of inode bytes_of st') cs') = old @ d)"
  using assms by (rule reliable_posix.append_file)

text \<open>
  What \<^verbatim>\<open>pack\<close> copies into a new file is what \<^verbatim>\<open>type\<close> prints afterwards: with an input that is
  not the image itself, the copy ends, the size recorded is that of the input, printing the new file
  from its first cluster gives the input, and no cluster that was in use before has changed; or the
  volume is full.
\<close>

theorem packed_file_reads_back:
  assumes "reliable_posix P inode bytes_of pos opened names patience"
    and "edit_volume inode bytes_of st" "inode (ed_sys st) infile \<noteq> inode (ed_sys st) (ed_file st)"
    and "input = drop (pos (ed_sys st) infile) (bytes_of (ed_sys st) (inode (ed_sys st) infile))"
  shows "\<exists>r st1. io_bind FileWriter_create (PackDirectory_loop P infile) st = Some (r, st1) \<and>
    used_clusters_kept (ed_super st) (ed_fatRaw st) (image_of inode bytes_of st) (ed_fatRaw st1) (image_of inode bytes_of st1) \<and>
    (case r of Inl e \<Rightarrow> e = no_space \<and> no_free_cluster st1
     | Inr wr \<Rightarrow> unat (wr_totalSize wr) = length input \<and>
         (\<exists>st2. DumpFile_loop P (FileReader_new (wr_firstCluster wr) (wr_totalSize wr)) st1 = Some (Inr (), st2) \<and>
            ed_cout st2 = ed_cout st @ input))"
  using assms by (rule reliable_posix.pack_file)

subsection \<open>Witnesses\<close>

text \<open>The example volume as file 0 behind descriptor 3, an input of 700 bytes as file 1 behind descriptor 4.\<close>

definition small_sys :: refsys where
  "small_sys = \<lparr>ref_names = (\<lambda>_. None), ref_data = (\<lambda>i. if i = 0 then replicate 30720 7 else replicate 700 65),
     ref_inode = (\<lambda>fd. if fd = 4 then 1 else 0), ref_pos = (\<lambda>_. 0), ref_next = 5,
     ref_plan = [Short 99, Interrupt, Short 9]\<rparr>"

lemma small_image: "image_of ref_inode ref_data (small_state small_sys 3) = replicate 30720 7"
  by (simp add: image_of_def small_state_def small_sys_def)

lemma small_edit_volume: "edit_volume ref_inode ref_data (small_state small_sys 3)"
  using small_volume [of "replicate 30720 7"] unfolding edit_volume_def small_image by (simp add: small_state_def)

lemma small_edit_chain:
  "is_chain (ed_super (small_state small_sys 3)) (ed_fatRaw (small_state small_sys 3)) [3, 5]"
  using small_chain by (simp add: small_state_def)

lemma small_chain_data: "chain_data small_super (replicate 30720 7) [3, 5] = replicate 1024 7"
  by (simp add: chain_data_def cluster_data_def subbytes_def cluster_size_def cluster_pos_def small_super_geometry
      flip: replicate_add)

theorem type_prints_file_witness:
  "\<exists>st'. DumpFile_loop ref_posix (FileReader_new 3 1000) (small_state small_sys 3) = Some (Inr (), st') \<and>
    ed_cout st' = replicate 1000 7"
  using type_prints_file [OF ref.reliable_posix_axioms small_edit_volume small_edit_chain, of 1000]
  unfolding small_image by (auto simp: small_state_def small_chain_data)

definition small_writer :: FileWriter where
  "small_writer = \<lparr>wr_cluster = 5, wr_offset = 488, wr_firstCluster = 3, wr_totalSize = 1000\<rparr>"

lemma small_writer_at:
  "writer_at (ed_super (small_state small_sys 3)) (image_of ref_inode ref_data (small_state small_sys 3)) [3, 5]
     small_writer (replicate 1000 7)"
  unfolding small_image
  by (simp add: writer_at_def small_writer_def small_state_def chain_data_def cluster_data_def subbytes_def
      cluster_size_def cluster_pos_def small_super_geometry flip: replicate_add)

theorem Append_extends_file_witness:
  "\<exists>r st' cs'. FileWriter_Append ref_posix (replicate 600 9) small_writer (small_state small_sys 3) = Some (r, st') \<and>
    is_chain small_super (ed_fatRaw st') cs' \<and>
    (case r of Inl e \<Rightarrow> e = no_space \<and> no_free_cluster st'
     | Inr wr' \<Rightarrow> take 1600 (chain_data small_super (image_of ref_inode ref_data st') cs') =
         replicate 1000 7 @ replicate 600 9)"
proof -
  have s: "ed_super (small_state small_sys 3) = small_super" by (simp add: small_state_def)
  show ?thesis
    using Append_extends_file [OF ref.reliable_posix_axioms small_edit_volume small_edit_chain small_writer_at,
        of "replicate 600 9"]
    unfolding s by (elim exE conjE) (intro exI conjI; assumption | auto split: sum.splits)
qed

theorem packed_file_reads_back_witness:
  "\<exists>r st1. io_bind FileWriter_create (PackDirectory_loop ref_posix 4) (small_state small_sys 3) = Some (r, st1) \<and>
    (case r of Inl e \<Rightarrow> e = no_space \<and> no_free_cluster st1
     | Inr wr \<Rightarrow> unat (wr_totalSize wr) = 700 \<and>
         (\<exists>st2. DumpFile_loop ref_posix (FileReader_new (wr_firstCluster wr) (wr_totalSize wr)) st1 = Some (Inr (), st2) \<and>
            ed_cout st2 = replicate 700 65))"
proof -
  let ?st = "small_state small_sys 3"
  have i: "ref_inode (ed_sys ?st) 4 \<noteq> ref_inode (ed_sys ?st) (ed_file ?st)"
    "replicate 700 65 = drop (ref_pos (ed_sys ?st) 4) (ref_data (ed_sys ?st) (ref_inode (ed_sys ?st) 4))"
    "ed_cout ?st = []"
    by (simp_all add: small_state_def small_sys_def)
  show ?thesis
    using packed_file_reads_back [OF ref.reliable_posix_axioms small_edit_volume i(1,2)]
    unfolding i(3) append_Nil length_replicate by blast
qed

end
