(* ===== verification/Fat_Edit_Typed.thy ===== *)
theory Fat_Edit_Typed
  imports Fat_Edit_Files
begin

text \<open>
  What the commands of the editor keep, whatever the host answers and whatever the volume holds: the
  file, the super block and the information sector in memory, and the length of the table. The reserved
  bits of its entries are kept or cleared.
\<close>

subsection \<open>The reserved bits of the entries\<close>

definition fat_clean :: "bytes \<Rightarrow> bool" where
  "fat_clean raw \<longleftrightarrow> (\<forall>n. 4 * n + 4 \<le> length raw \<longrightarrow> raw_word raw n < 0x10000000)"

lemma take_bit_word_eq_self_28: "unat (w :: u32) < 2 ^ 28 \<Longrightarrow> take_bit 28 w = w"
  by (simp add: word_unat_eq_iff unsigned_take_bit_eq take_bit_nat_eq_self)

lemma raw_word_clean:
  assumes "fat_clean raw" "4 * n + 4 \<le> length raw"
  shows "raw_word raw n = raw_entry raw n"
proof -
  have "unat (raw_word raw n) < 2 ^ 28" using assms unfolding fat_clean_def word_less_nat_alt by simp
  then have "take_bit 28 (raw_word raw n) = raw_word raw n"
    by (simp add: take_bit_word_eq_self_28)
  then show ?thesis unfolding raw_word_entry and_mask_28 by simp
qed

text \<open>
  The reserved bits of every entry stay as they are, or are cleared: storing an entry clears them,
  whatever they were.
\<close>

definition reserved_bits :: "bytes \<Rightarrow> nat \<Rightarrow> u32" where
  "reserved_bits raw n = drop_bit 28 (raw_word raw n)"

definition reserved_cleared :: "bytes \<Rightarrow> bytes \<Rightarrow> bool" where
  "reserved_cleared raw raw' \<longleftrightarrow> length raw' = length raw \<and>
     (\<forall>n. 4 * n + 4 \<le> length raw \<longrightarrow> reserved_bits raw' n = reserved_bits raw n \<or> reserved_bits raw' n = 0)"

lemma reserved_cleared_refl [simp]: "reserved_cleared raw raw"
  by (simp add: reserved_cleared_def)

lemma reserved_cleared_trans: "reserved_cleared a b \<Longrightarrow> reserved_cleared b c \<Longrightarrow> reserved_cleared a c"
  unfolding reserved_cleared_def by (metis (no_types, lifting))

lemma reserved_Set: "reserved_cleared raw (FatReader_Set raw n v)"
proof (cases "4 * n + 4 \<le> length raw")
  case True
  have "drop_bit 28 (v AND 0x0FFFFFFF) = (0 :: u32)" unfolding and_mask_28 by (simp add: drop_bit_take_bit)
  then show ?thesis using raw_word_Set [OF True] by (simp add: reserved_cleared_def reserved_bits_def)
next
  case False
  then have "length raw < 4 \<or> length raw - 3 \<le> n * 4" by linarith
  then show ?thesis by (simp add: FatReader_Set_def)
qed

lemma reserved_bits_0: "reserved_bits raw n = 0 \<longleftrightarrow> raw_word raw n < 0x10000000"
proof -
  have "unat (drop_bit 28 (w :: u32)) = unat w div 2 ^ 28" for w
    by (simp add: drop_bit_eq_div unat_div)
  then have "drop_bit 28 (w :: u32) = 0 \<longleftrightarrow> unat w < 2 ^ 28" for w
    by (simp add: word_unat_eq_iff div_eq_0_iff)
  then show ?thesis by (simp add: reserved_bits_def word_less_nat_alt)
qed

lemma fat_clean_cleared: "reserved_cleared raw raw' \<Longrightarrow> fat_clean raw \<Longrightarrow> fat_clean raw'"
  unfolding fat_clean_def reserved_cleared_def reserved_bits_0 [symmetric] by metis

subsection \<open>Steps of the editor\<close>

definition typed_step :: "'s Edit \<Rightarrow> 's Edit \<Rightarrow> bool" where
  "typed_step st st' \<longleftrightarrow> ed_super st' = ed_super st \<and> ed_file st' = ed_file st \<and> ed_fsinfo st' = ed_fsinfo st \<and>
     reserved_cleared (ed_fatRaw st) (ed_fatRaw st')"

definition typed_run :: "'s Edit \<Rightarrow> ((exn + 'a) \<times> 's Edit) option \<Rightarrow> bool" where
  "typed_run st y \<longleftrightarrow> (\<forall>r st'. y = Some (r, st') \<longrightarrow> typed_step st st')"

lemma typed_refl [simp]: "typed_step st st"
  by (simp add: typed_step_def)

lemma typed_clean: "typed_step st st' \<Longrightarrow> fat_clean (ed_fatRaw st) \<Longrightarrow> fat_clean (ed_fatRaw st')"
  unfolding typed_step_def using fat_clean_cleared by blast

lemma typed_length: "typed_step st st' \<Longrightarrow> length (ed_fatRaw st') = length (ed_fatRaw st)"
  by (simp add: typed_step_def reserved_cleared_def)

lemma typed_trans: "typed_step a b \<Longrightarrow> typed_step b c \<Longrightarrow> typed_step a c"
  unfolding typed_step_def using reserved_cleared_trans by metis

lemma typed_runD: "typed_run st x \<Longrightarrow> x = Some y \<Longrightarrow> typed_step st (snd y)"
  by (cases y) (simp add: typed_run_def)

lemma typed_runI: "(\<And>y. x = Some y \<Longrightarrow> typed_step st (snd y)) \<Longrightarrow> typed_run st x"
  by (fastforce simp: typed_run_def)

named_theorems typed \<open>computations that keep what the editor has in memory\<close>

lemma typed_bind [typed]:
  assumes "typed_run st (m st)" "\<And>a st1. typed_run st1 (f a st1)"
  shows "typed_run st (io_bind m f st)"
proof (rule typed_runI)
  fix y assume "io_bind m f st = Some y"
  then obtain r st' where y: "y = (r, st')" "io_bind m f st = Some (r, st')" by (cases y) auto
  from y(2) show "typed_step st (snd y)"
  proof (cases rule: io_bind_cases)
    case (goes_on a st1)
    then have "typed_step st st1" "typed_step st1 st'" using assms by (simp_all add: typed_run_def)
    then show ?thesis using y(1) typed_trans by simp
  qed (use assms(1) y in \<open>auto simp: typed_run_def\<close>)
qed

lemma typed_basic [typed]:
  "typed_run st (Some (r, st))" "typed_run st None"
  "typed_run st (io_return a st)" "typed_run st (io_throw e st)" "typed_run st (io_get g st)" "typed_run st (io_lift x st)"
  "typed_run st (ed_call c st)" "typed_run st (ed_print msg st)" "typed_run st (ed_error msg st)"
  "typed_run st (io_put (\<lambda>st. st\<lparr>ed_fatRaw := FatReader_Set (ed_fatRaw st) n v\<rparr>) st)"
  "typed_run st (ed_ReadAt P off k st)" "typed_run st (ed_WriteAt P off d st)"
  by (auto simp: typed_run_def typed_step_def io_simps reserved_Set ed_call_def ed_print_def ed_error_def ed_ReadAt_def
      ed_WriteAt_def bind_eq_Some_conv)

text \<open>The branches of the code.\<close>

lemma typed_branches [typed]:
  "(c \<Longrightarrow> typed_run st x) \<Longrightarrow> (\<not> c \<Longrightarrow> typed_run st y) \<Longrightarrow> typed_run st (if c then x else y)"
  "(c \<Longrightarrow> typed_run st (m st)) \<Longrightarrow> (\<not> c \<Longrightarrow> typed_run st (n st)) \<Longrightarrow> typed_run st ((if c then m else n) st)"
  "(o1 = None \<Longrightarrow> typed_run st x) \<Longrightarrow> (\<And>a. o1 = Some a \<Longrightarrow> typed_run st (z a)) \<Longrightarrow>
     typed_run st (case o1 of None \<Rightarrow> x | Some a \<Rightarrow> z a)"
  "(o2 = None \<Longrightarrow> typed_run st (m st)) \<Longrightarrow> (\<And>a. o2 = Some a \<Longrightarrow> typed_run st (g a st)) \<Longrightarrow>
     typed_run st ((case o2 of None \<Rightarrow> m | Some a \<Rightarrow> g a) st)"
  "(\<And>e. s = Inl e \<Longrightarrow> typed_run st (v e)) \<Longrightarrow> (\<And>a. s = Inr a \<Longrightarrow> typed_run st (w a)) \<Longrightarrow>
     typed_run st (case s of Inl e \<Rightarrow> v e | Inr a \<Rightarrow> w a)"
  "(\<And>a b. p = (a, b) \<Longrightarrow> typed_run st (h a b)) \<Longrightarrow> typed_run st (case p of (a, b) \<Rightarrow> h a b)"
  "(\<And>a b. q = (a, b) \<Longrightarrow> typed_run st (k a b st)) \<Longrightarrow> typed_run st ((case q of (a, b) \<Rightarrow> k a b) st)"
  by (simp_all split: option.splits sum.splits prod.splits)

subsection \<open>Reading\<close>

lemma typed_Read_loop [typed]: "typed_run st (FileReader_Read_loop P sz data rd st)"
proof (rule typed_runI)
  let ?ok = "\<lambda>z y. typed_step (snd z) (snd y)"
  fix y assume run: "FileReader_Read_loop P sz data rd st = Some y"
  have "?ok ((((P, sz), data), rd), st) y"
  proof (rule FileReader_Read_loop.raw_induct [OF _ run], goal_cases)
    case (1 f P sz data rd st y)
    have rec: "typed_run st (f P sz data rd st)" for P sz data rd st using 1(1) by (fastforce intro: typed_runI)
    show ?case by (rule typed_runD [OF _ 1(2)]) (unfold Let_def snd_conv, intro typed rec)
  qed
  then show "typed_step st (snd y)" by simp
qed

lemma typed_Read [typed]: "typed_run st (FileReader_Read P rd sz st)"
  unfolding FileReader_Read_def by (intro typed)

lemma typed_more [typed]: "typed_run st (ScanDirectory_more P n ents rd st)"
  by (induction n arbitrary: ents rd st) (simp_all only: ScanDirectory_more.simps Let_def, (intro typed | assumption)+)

lemma typed_long [typed]: "typed_run st (ScanDirectory_long P d rd st)"
  unfolding ScanDirectory_long_def Let_def by (intro typed)

lemma typed_entry [typed]: "typed_run st (ScanDirectory_entry ents sEnt st)"
  unfolding ScanDirectory_entry_def Let_def by (intro typed)

lemma typed_ScanDirectory_loop [typed]: "typed_run st (ScanDirectory_loop P rd out st)"
proof (rule typed_runI)
  let ?ok = "\<lambda>z y. typed_step (snd z) (snd y)"
  fix y assume run: "ScanDirectory_loop P rd out st = Some y"
  have "?ok (((P, rd), out), st) y"
  proof (rule ScanDirectory_loop.raw_induct [OF _ run], goal_cases)
    case (1 f P rd out st y)
    have rec: "typed_run st (f P rd out st)" for P rd out st using 1(1) by (fastforce intro: typed_runI)
    show ?case by (rule typed_runD [OF _ 1(2)]) (unfold Let_def snd_conv, intro typed rec)
  qed
  then show "typed_step st (snd y)" by simp
qed

lemma typed_ScanDirectory [typed]: "typed_run st (ScanDirectory P rd st)"
  unfolding ScanDirectory_def by (intro typed)

lemma typed_FindFile_loop [typed]: "typed_run st (FindFile_loop P args ent path st)"
  by (induction path arbitrary: ent st) (simp_all only: FindFile_loop.simps, (intro typed | assumption)+)

lemma typed_FindFile [typed]: "typed_run st (FindFile P args st)"
  unfolding FindFile_def by (intro typed)

lemma typed_DumpFile_loop [typed]: "typed_run st (DumpFile_loop P rd st)"
proof (rule typed_runI)
  let ?ok = "\<lambda>z y. typed_step (snd z) (snd y)"
  fix y assume run: "DumpFile_loop P rd st = Some y"
  have "?ok ((P, rd), st) y"
  proof (rule DumpFile_loop.raw_induct [OF _ run], goal_cases)
    case (1 f P rd st y)
    have rec: "typed_run st (f P rd st)" for P rd st using 1(1) by (fastforce intro: typed_runI)
    show ?case by (rule typed_runD [OF _ 1(2)]) (unfold Let_def snd_conv, intro typed rec)
  qed
  then show "typed_step st (snd y)" by simp
qed

lemma typed_print [typed]: "typed_run st (ListDirectory_print es st)"
  by (induction es arbitrary: st) (simp_all only: ListDirectory_print.simps, (intro typed | assumption)+)

lemma typed_dir [typed]: "typed_run st (ListDirectory P args st)"
  unfolding ListDirectory_def by (intro typed)

lemma typed_type [typed]: "typed_run st (DumpFile P args st)"
  unfolding DumpFile_def by (intro typed)

subsection \<open>Writing\<close>

lemma typed_Allocate [typed]:
  "typed_run st (FatReader_AllocateCluster st)" "typed_run st (FatReader_AllocateCluster_after c st)"
  unfolding FatReader_AllocateCluster_after_def FatReader_AllocateCluster_def by (intro typed)+

lemma typed_create [typed]: "typed_run st (FileWriter_create st)"
  unfolding FileWriter_create_def by (intro typed)

lemma typed_seek [typed]: "typed_run st (FileWriter_seek clusterSize cluster sz st)"
proof (rule typed_runI)
  let ?ok = "\<lambda>z y. typed_step (snd z) (snd y)"
  fix y assume run: "FileWriter_seek clusterSize cluster sz st = Some y"
  have "?ok (((clusterSize, cluster), sz), st) y"
  proof (rule FileWriter_seek.raw_induct [OF _ run], goal_cases)
    case (1 f clusterSize cluster sz st y)
    have rec: "typed_run st (f clusterSize cluster sz st)" for clusterSize cluster sz st using 1(1) by (fastforce intro: typed_runI)
    show ?case by (rule typed_runD [OF _ 1(2)]) (unfold Let_def snd_conv, intro typed rec)
  qed
  then show "typed_step st (snd y)" by simp
qed

lemma typed_open [typed]: "typed_run st (FileWriter_open idx sz st)"
  unfolding FileWriter_open_def by (intro typed)

lemma typed_Append [typed]: "typed_run st (FileWriter_Append P data wr st)"
proof (rule typed_runI)
  let ?ok = "\<lambda>z y. typed_step (snd z) (snd y)"
  fix y assume run: "FileWriter_Append P data wr st = Some y"
  have "?ok (((P, data), wr), st) y"
  proof (rule FileWriter_Append.raw_induct [OF _ run], goal_cases)
    case (1 f P data wr st y)
    have rec: "typed_run st (f P data wr st)" for P data wr st using 1(1) by (fastforce intro: typed_runI)
    show ?case by (rule typed_runD [OF _ 1(2)]) (unfold Let_def snd_conv, intro typed rec)
  qed
  then show "typed_step st (snd y)" by simp
qed

lemma typed_PackDirectory_loop [typed]: "typed_run st (PackDirectory_loop P infile wr st)"
proof (rule typed_runI)
  let ?ok = "\<lambda>z y. typed_step (snd z) (snd y)"
  fix y assume run: "PackDirectory_loop P infile wr st = Some y"
  have "?ok (((P, infile), wr), st) y"
  proof (rule PackDirectory_loop.raw_induct [OF _ run], goal_cases)
    case (1 f P infile wr st y)
    have rec: "typed_run st (f P infile wr st)" for P infile wr st using 1(1) by (fastforce intro: typed_runI)
    show ?case by (rule typed_runD [OF _ 1(2)]) (unfold Let_def snd_conv, intro typed rec)
  qed
  then show "typed_step st (snd y)" by simp
qed

lemma typed_pack: "typed_run st (io_bind FileWriter_create (PackDirectory_loop P infile) st)"
  by (intro typed)

subsection \<open>The commands and the session\<close>

lemma typed_empty [typed]: "typed_run st (InitializeEmptyDirectory P p st)"
  unfolding InitializeEmptyDirectory_def Let_def by (intro typed)

lemma typed_FindParent [typed]: "typed_run st (FindParent P path st)"
  unfolding FindParent_def Let_def by (intro typed)

lemma typed_entry_steps [typed]:
  "typed_run st (AppendDirectoryEntry P c sz isDir name fc fs st)" "typed_run st (CheckEntryNotInDir P c name st)"
  unfolding AppendDirectoryEntry_def CheckEntryNotInDir_def Let_def by (intro typed)+

lemma typed_commands [typed]: "typed_run st (CreateDirectory P args st)" "typed_run st (PackDirectory P args st)"
  unfolding CreateDirectory_def PackDirectory_def Let_def by (intro typed)+

lemma typed_run_command [typed]: "typed_run st (run_command P line st)"
  unfolding run_command_def by (auto split: prod.splits bool.splits intro: typed)

lemma typed_run_lines: "typed_run st (run_lines P tty lines st)"
  by (induction lines arbitrary: st) (simp_all only: run_lines.simps Let_def, (intro typed | assumption)+)

text \<open>
  C17. The commands of the editor keep what it loaded. Whatever
  commands a session gets, whatever the host answers and whatever the volume holds, while the lines are
  run the super block, the descriptor of the image and the information sector in memory do not change,
  the table keeps its length, and the four reserved bits of each of its entries keep their value or
  become zero, so that a table without reserved bits stays one; this also holds when an exception
  ends the session.
\<close>

theorem session_keeps_types: "typed_run st (run_lines P tty lines st)"
  by (rule typed_run_lines)

end
