(* ===== verification/Volume_Boot.thy ===== *)
theory Volume_Boot
  imports Fat_Edit_Typed Fat_Fs_Correct
begin

text \<open>
  The editor and the boot loader agree on the volume: what the editor stores in the image, the
  driver of the second stage reads from the disk. The editor masks the four reserved bits of an
  entry, the driver does not, so the two agree on tables in which these bits are zero; the editor
  keeps them zero.
\<close>

subsection \<open>The volume on the disk\<close>

text \<open>A partition whose sectors hold the image, as far as the super block announces sectors.\<close>

definition disk_holds :: "BIOSBlockDevice \<Rightarrow> FatSuper \<Rightarrow> bytes \<Rightarrow> bool" where
  "disk_holds d s img \<longleftrightarrow>
     (\<forall>i < unat (FatSuper_SectorCount s). bios_content d (of_nat i) = subbytes (512 * i) 512 img)"

text \<open>A volume with sectors of 512 bytes whose first FAT is the one in memory.\<close>

definition fat_stored :: "FatSuper \<Rightarrow> bytes \<Rightarrow> bytes \<Rightarrow> bool" where
  "fat_stored s raw img \<longleftrightarrow> unat (FatSuper_BytesPerSector s) = 512 \<and> 0 < unat (FatSuper_NumFats s) \<and>
     length raw = 512 * unat (FatSuper_SectorsPerFat s) \<and>
     subbytes (512 * unat (FatSuper_ReservedSectors s)) (length raw) img = raw"

lemma concat_subbytes: "concat (map (\<lambda>i. subbytes (a + k * i) k xs) [0 ..< n]) = subbytes a (k * n) xs"
proof (induction n)
  case (Suc n)
  show ?case using subbytes_split [of "k * n" "k * Suc n" a xs] Suc.IH by simp
qed (simp add: subbytes_def)

lemma nth_subbytes_any: "i < n \<Longrightarrow> off + i < length xs \<Longrightarrow> subbytes off n xs ! i = xs ! (off + i)"
  by (simp add: subbytes_def)

lemma first_fat_sectors:
  assumes "geometry s raw" "0 < unat (FatSuper_NumFats s)" "q < unat (FatSuper_SectorsPerFat s)"
  shows "unat (FatSuper_ReservedSectors s) + q < unat (FatSuper_SectorCount s)"
proof -
  have "1 * unat (FatSuper_SectorsPerFat s) \<le> unat (FatSuper_NumFats s) * unat (FatSuper_SectorsPerFat s)"
    using assms(2) by (intro mult_right_mono) simp_all
  then show ?thesis using assms(1,3) unfolding geometry_def by linarith
qed

lemma fat_entry_on_disk:
  assumes g: "geometry s raw" and f: "fat_stored s raw img" and d: "disk_holds d s img"
    and c: "4 * c + 4 \<le> length raw" "c < 2 ^ 28"
  shows "fat_entry (bios_content d) 512 s (of_nat c) = raw_word raw c"
proof -
  let ?r = "unat (FatSuper_ReservedSectors s)" and ?q = "4 * c div 512" and ?o = "4 * c mod 512"
  have u: "unat (of_nat c :: u32) = c" using c(2) by (intro unat_of_nat_u32) simp
  have q: "?q < unat (FatSuper_SectorsPerFat s)" using c(1) f unfolding fat_stored_def by linarith
  have word: "ucast (FatSuper_ReservedSectors s) + of_nat ?q = (of_nat (?r + ?q) :: u32)" by simp
  have "?r + ?q < unat (FatSuper_SectorCount s)" using f by (intro first_fat_sectors [OF g _ q]) (simp add: fat_stored_def)
  then have "bios_content d (of_nat (?r + ?q)) = subbytes (512 * (?r + ?q)) 512 img" using d unfolding disk_holds_def by blast
  then have sector: "fat_sector (bios_content d) s (of_nat ?q) = subbytes (512 * (?r + ?q)) 512 img"
    unfolding fat_sector_def word .
  have "?o = 4 * (c mod 128)" using mult_mod_right [of 4 c 128] by simp
  moreover have "c mod 128 < 128" by simp
  ultimately have o: "?o + 3 < 512" by linarith
  have split: "512 * ?q + ?o = 4 * c" by (rule mult_div_mod_eq)
  have raw: "subbytes (512 * ?r) (length raw) img = raw" using f unfolding fat_stored_def by blast
  moreover have "raw \<noteq> []" using c by auto
  ultimately have img: "512 * ?r + length raw \<le> length img" using subbytes_bound [of raw] by metis
  have byte: "subbytes (512 * (?r + ?q)) 512 img ! (?o + k) = raw ! (4 * c + k)" if "k < 4" for k
  proof -
    have at: "512 * (?r + ?q) + (?o + k) = 512 * ?r + (4 * c + k)" using split by (simp add: algebra_simps)
    have "512 * ?r + (4 * c + k) < length img" using img c(1) that by linarith
    moreover have "?o + k < 512" using o that by linarith
    ultimately have "subbytes (512 * (?r + ?q)) 512 img ! (?o + k) = img ! (512 * ?r + (4 * c + k))"
      using nth_subbytes_any [of "?o + k" 512 "512 * (?r + ?q)" img] unfolding at by blast
    moreover have "raw ! (4 * c + k) = img ! (512 * ?r + (4 * c + k))"
      using nth_subbytes [of "4 * c + k" "length raw" "512 * ?r" img] raw img c(1) that by simp
    ultimately show ?thesis by simp
  qed
  from byte [of 0] byte [of 1] byte [of 2] byte [of 3] show ?thesis
    unfolding fat_entry_def u sector word_in_def raw_word_def by simp
qed

lemma cluster_on_disk:
  assumes g: "geometry s raw" and b: "unat (FatSuper_BytesPerSector s) = 512" and d: "disk_holds d s img" and c: "data_cluster s c"
  shows "cluster_bytes (bios_content d) s (of_nat c) = cluster_data s img c"
proof -
  let ?n = "unat (FatSuper_SectorsPerCluster s)"
  have "(cluster_sector s c + ?n) * 512 \<le> unat (FatSuper_SectorCount s) * 512"
    using cluster_in_image [OF g c] unfolding cluster_pos_sector cluster_size_def b by (simp add: algebra_simps)
  then have fit: "cluster_sector s c + ?n \<le> unat (FatSuper_SectorCount s)" by simp
  then have "cluster_sector s c < 4294967296"
    using unat_lt_u32 [of "FatSuper_SectorCount s"] by linarith
  then have small: "cluster_sector s c < 2 ^ 32" by simp
  have u: "unat (of_nat c :: u32) = c" using data_cluster_small(3) [OF g c] .
  have first: "FatSuper_ClusterIndex2Sector s (of_nat c) = of_nat (cluster_sector s c)"
    using ClusterIndex2Sector_unat [of s "of_nat c"] small by (simp add: u unat_eq_of_nat_u32)
  have sectors: "map (\<lambda>i. bios_content d (of_nat (cluster_sector s c) + of_nat i)) [0 ..< ?n] =
      map (\<lambda>i. subbytes (512 * cluster_sector s c + 512 * i) 512 img) [0 ..< ?n]"
  proof (rule map_cong)
    fix i assume "i \<in> set [0 ..< ?n]"
    then have "cluster_sector s c + i < unat (FatSuper_SectorCount s)" using fit by simp
    then have "bios_content d (of_nat (cluster_sector s c + i)) = subbytes (512 * (cluster_sector s c + i)) 512 img"
      using d unfolding disk_holds_def by blast
    then show "bios_content d (of_nat (cluster_sector s c) + of_nat i) = subbytes (512 * cluster_sector s c + 512 * i) 512 img"
      by (simp add: algebra_simps)
  qed simp
  have "cluster_bytes (bios_content d) s (of_nat c) = subbytes (512 * cluster_sector s c) (512 * ?n) img"
    unfolding cluster_bytes_def first sectors by (rule concat_subbytes)
  then show ?thesis by (simp add: cluster_data_def cluster_pos_sector cluster_size_def b mult.commute)
qed

lemma is_chain_tl:
  assumes "is_chain s raw (c # d # cs)"
  shows "raw_entry raw c = of_nat d" "is_chain s raw (d # cs)"
proof -
  have links: "Suc i < length (c # d # cs) \<Longrightarrow> raw_entry raw ((c # d # cs) ! i) = of_nat ((c # d # cs) ! Suc i)" for i
    using assms unfolding is_chain_def by blast
  from links [of 0] show "raw_entry raw c = of_nat d" by simp
  have "Suc i < length (d # cs) \<Longrightarrow> raw_entry raw ((d # cs) ! i) = of_nat ((d # cs) ! Suc i)" for i
    using links [of "Suc i"] by simp
  with assms show "is_chain s raw (d # cs)" by (simp add: is_chain_def)
qed

lemma chain_on_disk:
  assumes g: "geometry s raw" and f: "fat_stored s raw img" and d: "disk_holds d s img" and clean: "fat_clean raw"
    and c: "is_chain s raw cs"
  shows "volume_chain (bios_content d) 512 s (of_nat (hd cs)) (map of_nat cs)"
proof -
  have "cs \<noteq> []" using c by (simp add: is_chain_def)
  then show ?thesis using c
  proof (induction cs rule: list_nonempty_induct)
    case (single c)
    then have dc: "data_cluster s c" and e: "0x0FFFFFF8 \<le> raw_entry raw c" by (simp_all add: is_chain_def)
    note small = data_cluster_small [OF g dc]
    have "fat_entry (bios_content d) 512 s (of_nat c) = raw_entry raw c"
      using fat_entry_on_disk [OF g f d small(2)] raw_word_clean [OF clean small(2)] small(1) by simp
    moreover have "4 * c < 512 * unat (FatSuper_SectorsPerFat s)" using small(2) f by (simp add: fat_stored_def)
    ultimately show ?case
      using small e by (simp add: volume_chain_def) (rule order_trans [rotated], assumption, simp)
  next
    case (cons c cs)
    then obtain d' cs' where cs: "cs = d' # cs'" by (cases cs) auto
    have dc: "data_cluster s c" using cons.prems by (simp add: is_chain_def)
    note small = data_cluster_small [OF g dc] and link = is_chain_tl [OF cons.prems [unfolded cs]]
    have "fat_entry (bios_content d) 512 s (of_nat c) = of_nat d'"
      using fat_entry_on_disk [OF g f d small(2)] raw_word_clean [OF clean small(2)] small(1) link(1) by simp
    moreover have "4 * c < 512 * unat (FatSuper_SectorsPerFat s)" using small(2) f by (simp add: fat_stored_def)
    moreover have "volume_chain (bios_content d) 512 s (of_nat d') (map of_nat cs)"
      using cons.IH link(2) cs by simp
    ultimately show ?case using small cs by (simp add: volume_chain_def)
  qed
qed

lemma chain_bytes_on_disk:
  assumes "geometry s raw" "unat (FatSuper_BytesPerSector s) = 512" "disk_holds d s img" "is_chain s raw cs"
  shows "chain_bytes (bios_content d) s (map of_nat cs) = chain_data s img cs"
proof -
  have "map (cluster_bytes (bios_content d) s) (map of_nat cs) = map (cluster_data s img) cs"
    using cluster_on_disk [OF assms(1-3)] assms(4) by (simp add: is_chain_def)
  then show ?thesis unfolding chain_bytes_def chain_data_def by (rule arg_cong)
qed

text \<open>So the driver reads what the editor holds to be the file.\<close>

lemma driver_reads_chain:
  assumes "volume s raw img" "fat_stored s raw img" "fat_clean raw" "is_chain s raw cs"
    and "unat n \<le> length (chain_data s img cs)"
    and "fatfs_inv BIOS_ops bios_reliable bios_content fs" "super fs = s" "disk_holds (blk fs) s img"
  shows "\<exists>fs'. ReadAt BIOS_ops fs \<lparr>ff_cluster = of_nat (hd cs), ff_size = n, ff_flags = fl\<rparr> 0 n =
    Some (n, take (unat n) (chain_data s img cs), fs')"
proof -
  have g: "geometry s raw" using assms(1) by (simp add: volume_def)
  let ?f = "\<lparr>ff_cluster = of_nat (hd cs), ff_size = n, ff_flags = fl\<rparr>"
  have "volume_chain (bios_content (blk fs)) 512 (super fs) (ff_cluster ?f) (map of_nat cs)"
    using chain_on_disk [OF g assms(2,8,3,4)] assms(7) by simp
  from ReadAt_bios [OF assms(6) this, of 0 n] show ?thesis
    using chain_bytes_on_disk [OF g _ assms(8,4)] assms(2,5,7) by (auto simp: file_bytes_def fat_stored_def)
qed

subsection \<open>Writing the FAT back\<close>

lemma NumFreeClusters_loop_ends:
  "i + n < 2 ^ 30 \<Longrightarrow> 4 * (i + n) \<le> length raw \<Longrightarrow> \<exists>m. NumFreeClusters_loop raw i n k = Inr m"
proof (induction n arbitrary: i k)
  case (Suc n)
  have "unat (of_nat i :: u32) = i" using Suc.prems by (intro unat_of_nat_u32) simp
  then show ?case using Suc.IH [of "Suc i"] Suc.prems NextClusterInFile_eq [of "of_nat i" raw] by simp
qed simp

lemma FindFreeCluster_ends: "geometry s raw \<Longrightarrow> \<exists>k. FatReader_FindFreeCluster s raw = Inr k"
  by (simp add: FindFreeCluster_eq split: option.splits)

lemma unat_scast_small:
  assumes "unat (x :: u32) < 2 ^ 31"
  shows "unat (scast x :: u64) = unat x"
proof -
  have u: "uint x = int (unat x)" by simp
  have "int (unat x) < int (2 ^ 31)" using assms by (simp only: of_nat_less_iff)
  moreover have "- (2 ^ 31) \<le> int n" for n by simp
  ultimately have "- (2 ^ 31) \<le> uint x" "uint x < 2 ^ 31" by (simp_all only: u of_nat_power of_nat_numeral)
  then have "signed_take_bit (LENGTH(32) - Suc 0) (uint x) = uint x" by (intro signed_take_bit_int_eq_self) simp_all
  then have "sint x = int (unat x)" unfolding u sint_uint by simp
  then have "scast x = (of_nat (unat x) :: u64)" unfolding scast_eq by (simp only: of_int_of_nat_eq)
  then show ?thesis using assms by (simp only: unat_of_nat) (simp add: take_bit_nat_eq_self)
qed

lemma int_mul_unat:
  assumes "int_mul a b = Inr v"
  shows "unat v = unat a * unat b" "unat (ucast v :: u64) = unat a * unat b"
proof -
  have small: "unat a * unat b < 2 ^ 31" and v: "v = ucast a * ucast b"
    using assms by (simp_all add: int_mul_def split: if_splits)
  have "unat a < 2 ^ 32" "unat b < 2 ^ 32"
    using unsigned_less [of a, where ?'a = nat] unsigned_less [of b, where ?'a = nat] by simp_all
  then show eq: "unat v = unat a * unat b"
    using small v by (simp add: unsigned_ucast_eq unat_word_ariths take_bit_nat_eq_self)
  then show "unat (ucast v :: u64) = unat a * unat b" using small by (simp add: unsigned_ucast_eq take_bit_nat_eq_self)
qed

context reliable_posix
begin

lemma WriteToImage_loop_correct:
  assumes "unat offset + n * length (ed_fatRaw st) \<le> length (image st)" "length (image st) < 2 ^ 64"
    and "unat offset + n * length (ed_fatRaw st) < 2 ^ 31"
  shows "\<exists>st'. WriteToImage_loop P n offset st = Some (Inr (), st') \<and> wrote st st' \<and> ed_fatRaw st' = ed_fatRaw st \<and>
    length (image st') = length (image st) \<and>
    (\<forall>j < n. subbytes (unat offset + j * length (ed_fatRaw st)) (length (ed_fatRaw st)) (image st') = ed_fatRaw st) \<and>
    (\<forall>a k. a + k \<le> length (image st) \<longrightarrow> a + k \<le> unat offset \<or> unat offset + n * length (ed_fatRaw st) \<le> a \<longrightarrow>
       subbytes a k (image st') = subbytes a k (image st))"
  using assms
proof (induction n arbitrary: offset st)
  case 0
  then show ?case by (simp add: io_return_def)
next
  case (Suc n)
  let ?raw = "ed_fatRaw st" let ?l = "length ?raw"
  have room: "unat offset + ?l \<le> length (image st)" "unat offset + ?l < 2 ^ 31" using Suc.prems by simp_all
  have off: "unat (scast offset :: u64) = unat offset" using room(2) by (intro unat_scast_small) simp
  obtain st1 where st1: "ed_WriteAt P (scast offset) ?raw st = Some (Inr (), st1)"
    "image st1 = overwrite (unat offset) ?raw (image st)" "ed_fatRaw st1 = ?raw" "wrote st st1"
    using ed_WriteAt_works [of "scast offset" ?raw st] off room(1) Suc.prems(2) by auto
  have len: "length (image st1) = length (image st)" using st1(2) room(1) by simp
  have next_off: "unat (offset + of_nat ?l) = unat offset + ?l"
    using room(2) by (simp add: unat_word_ariths unat_of_nat)
  have run: "WriteToImage_loop P (Suc n) offset st = WriteToImage_loop P n (offset + of_nat ?l) st1"
    using st1(1) by (simp add: io_bind_def io_get_def)
  obtain st' where st': "WriteToImage_loop P n (offset + of_nat ?l) st1 = Some (Inr (), st')" "wrote st1 st'"
    "ed_fatRaw st' = ?raw" "length (image st') = length (image st)"
    "\<forall>j < n. subbytes (unat offset + ?l + j * ?l) ?l (image st') = ?raw"
    "\<forall>a k. a + k \<le> length (image st) \<longrightarrow> a + k \<le> unat offset + ?l \<or> unat offset + ?l + n * ?l \<le> a \<longrightarrow>
       subbytes a k (image st') = subbytes a k (image st1)"
    using Suc.IH [of "offset + of_nat ?l" st1] Suc.prems unfolding next_off st1(3) len by (auto simp: add.assoc)
  have "subbytes (unat offset) ?l (image st') = ?raw"
    using st'(6) room(1) st1(2) by simp
  then have "subbytes (unat offset + j * ?l) ?l (image st') = ?raw" if "j < Suc n" for j
    using st'(5) that by (cases j) (simp_all add: add.assoc)
  moreover have "subbytes a k (image st') = subbytes a k (image st)"
    if "a + k \<le> length (image st)" "a + k \<le> unat offset \<or> unat offset + Suc n * ?l \<le> a" for a k
  proof -
    have "subbytes a k (image st') = subbytes a k (image st1)" using st'(6) that by auto
    also have "\<dots> = subbytes a k (image st)"
      using that room(1) unfolding st1(2) by (auto simp: subbytes_overwrite_before subbytes_overwrite_after)
    finally show ?thesis .
  qed
  ultimately show ?case using st' run wrote_trans [OF st1(4) st'(2)] by (intro exI [of _ st']) auto
qed

end

text \<open>What the loading of the volume establishes about sector size, FAT and information sector.\<close>

definition volume_loaded :: "'s Edit \<Rightarrow> bool" where
  "volume_loaded st \<longleftrightarrow> unat (FatSuper_BytesPerSector (ed_super st)) = 512 \<and> 0 < unat (FatSuper_NumFats (ed_super st)) \<and>
     length (ed_fatRaw st) = 512 * unat (FatSuper_SectorsPerFat (ed_super st)) \<and>
     FatSuper_FsInfoIndex (ed_super st) < FatSuper_ReservedSectors (ed_super st) \<and>
     length (fi_reserved0 (ed_fsinfo st)) = 480 \<and> length (fi_reserved1 (ed_fsinfo st)) = 12 \<and>
     cluster_pos (ed_super st) 2 < 2 ^ 31"

text \<open>A session keeps it.\<close>

lemma volume_loaded_typed: "typed_step st st' \<Longrightarrow> volume_loaded st \<Longrightarrow> volume_loaded st'"
  by (simp add: typed_step_def volume_loaded_def reserved_cleared_def)

context reliable_posix
begin

lemma WriteToImage_correct:
  assumes vol: "ed_volume st" and loaded: "volume_loaded st"
  shows "\<exists>st'. FatReader_WriteToImage P st = Some (Inr (), st') \<and> ed_super st' = ed_super st \<and> ed_fatRaw st' = ed_fatRaw st \<and>
    ed_cout st' = ed_cout st \<and> fat_stored (ed_super st) (ed_fatRaw st) (image st') \<and> length (image st') = length (image st) \<and>
    (\<forall>c. data_cluster (ed_super st) c \<longrightarrow> cluster_data (ed_super st) (image st') c = cluster_data (ed_super st) (image st) c) \<and>
    (\<exists>k m. subbytes (unat (FatSuper_FsInfoIndex (ed_super st)) * 512) 512 (image st') =
       FatFsInfo_bytes (FatFsInfo_SetNumFreeCluster (FatFsInfo_SetNextFreeCluster (ed_fsinfo st) k) m))"
proof -
  let ?s = "ed_super st" and ?raw = "ed_fatRaw st" and ?img = "image st"
  let ?r = "unat (FatSuper_ReservedSectors ?s)" and ?f = "unat (FatSuper_NumFats ?s)" and ?i = "unat (FatSuper_FsInfoIndex ?s)"
  have l: "unat (FatSuper_BytesPerSector ?s) = 512" "0 < ?f" "length ?raw = 512 * unat (FatSuper_SectorsPerFat ?s)"
    "?i < ?r" "cluster_pos ?s 2 < 2 ^ 31"
    using loaded by (simp_all add: volume_loaded_def word_less_nat_alt)
  have v: "volume ?s ?raw ?img" and big: "length ?img < 2 ^ 64" using vol by (simp_all add: ed_volume_def)
  have g: "geometry ?s ?raw" using v by (simp add: volume_def)
  have start: "cluster_pos ?s 2 = ?r * 512 + ?f * length ?raw" by (simp add: cluster_pos_def l algebra_simps)
  have "?f * unat (FatSuper_SectorsPerFat ?s) + ?r \<le> unat (FatSuper_SectorCount ?s)" using g unfolding geometry_def by linarith
  then have "(?f * unat (FatSuper_SectorsPerFat ?s) + ?r) * 512 \<le> unat (FatSuper_SectorCount ?s) * 512" by (rule mult_right_mono) simp
  moreover have "unat (FatSuper_SectorCount ?s) * 512 \<le> length ?img" using v unfolding volume_def l by blast
  ultimately have img: "cluster_pos ?s 2 \<le> length ?img" unfolding start l by (simp add: algebra_simps)
  have "?r * 512 < 2 ^ 31" using l(5) unfolding start by linarith
  then obtain off where off: "int_mul (FatSuper_ReservedSectors ?s) (FatSuper_BytesPerSector ?s) = Inr off"
    by (simp add: int_mul_def l)
  note offset = int_mul_unat(1) [OF off, unfolded l(1)]
  have "?i * 512 < 2 ^ 31" using l(4) \<open>?r * 512 < 2 ^ 31\<close> by linarith
  then obtain ioff where ioff: "int_mul (FatSuper_FsInfoIndex ?s) (FatSuper_BytesPerSector ?s) = Inr ioff"
    by (simp add: int_mul_def l)
  note ioffset = int_mul_unat(2) [OF ioff, unfolded l(1)]
  obtain st1 where st1: "WriteToImage_loop P ?f off st = Some (Inr (), st1)" "wrote st st1" "ed_fatRaw st1 = ?raw"
    "length (image st1) = length ?img"
    "\<forall>j < ?f. subbytes (?r * 512 + j * length ?raw) (length ?raw) (image st1) = ?raw"
    "\<forall>a k. a + k \<le> length ?img \<longrightarrow> a + k \<le> ?r * 512 \<or> cluster_pos ?s 2 \<le> a \<longrightarrow> subbytes a k (image st1) = subbytes a k ?img"
    using WriteToImage_loop_correct [of off ?f st] big img l(5) unfolding offset start by auto
  obtain k where k: "FatReader_FindFreeCluster ?s ?raw = Inr k" using FindFreeCluster_ends [OF g] by blast
  have "length ?raw < 2 ^ 31" using l(2,5) unfolding start by (cases ?f) auto
  then have "length ?raw div 4 < 2 ^ 30" by (intro less_mult_imp_div_less) simp
  then obtain m where m: "FatReader_NumFreeClusters ?raw = Inr m"
    unfolding FatReader_NumFreeClusters_def using NumFreeClusters_loop_ends [of 0 "length ?raw div 4" ?raw 0] by auto
  define info where "info = FatFsInfo_SetNumFreeCluster (FatFsInfo_SetNextFreeCluster (ed_fsinfo st) k) m"
  have info_len: "length (FatFsInfo_bytes info) = 512"
    using loaded by (simp add: info_def FatFsInfo_bytes_def FatFsInfo_SetNumFreeCluster_def FatFsInfo_SetNextFreeCluster_def volume_loaded_def)
  let ?st2 = "st1\<lparr>ed_fsinfo := info\<rparr>"
  have img2: "image ?st2 = image st1" by (simp add: image_def)
  have fit: "?i * 512 + 512 \<le> ?r * 512" "?r * 512 \<le> length ?img" using l(4) img unfolding start by linarith+
  obtain st' where st': "ed_WriteAt P (ucast ioff) (FatFsInfo_bytes info) ?st2 = Some (Inr (), st')"
    "image st' = overwrite (?i * 512) (FatFsInfo_bytes info) (image st1)" "ed_fatRaw st' = ?raw" "wrote ?st2 st'"
    using ed_WriteAt_works [of "ucast ioff" "FatFsInfo_bytes info" ?st2] fit st1(3,4) big
    unfolding ioffset info_len img2 by auto
  have s1: "ed_super st1 = ?s" "ed_fsinfo st1 = ed_fsinfo st" "ed_cout st1 = ed_cout st" using st1(2) by (simp_all add: wrote_def)
  have "FatReader_WriteToImage P st = Some (Inr (), st')"
    by (simp add: FatReader_WriteToImage_def io_bind_def io_simps off ioff st1(1,3) k m s1 flip: info_def)
      (use st'(1) s1 in \<open>simp add: info_def FatFsInfo_SetNumFreeCluster_def FatFsInfo_SetNextFreeCluster_def\<close>)
  moreover have keep: "subbytes a n (image st') = subbytes a n (image st1)" if "?r * 512 \<le> a" for a n
    unfolding st'(2) using that fit st1(4) info_len by (intro subbytes_overwrite_after) simp_all
  have "subbytes (512 * ?r) (length ?raw) (image st') = ?raw"
    using keep [of "512 * ?r"] st1(5) [rule_format, OF l(2)] by (simp add: mult.commute)
  then have "fat_stored ?s ?raw (image st')" using l by (simp add: fat_stored_def)
  moreover have "cluster_data ?s (image st') c = cluster_data ?s ?img c" if c: "data_cluster ?s c" for c
  proof -
    have pos: "cluster_pos ?s 2 \<le> cluster_pos ?s c" by (simp add: cluster_pos_def)
    then have "?r * 512 \<le> cluster_pos ?s c" unfolding start by linarith
    then show ?thesis
      using keep st1(6) [rule_format, OF volume_cluster(1) [OF v c]] pos unfolding cluster_data_def by simp
  qed
  moreover have "length (image st') = length ?img" unfolding st'(2) using fit st1(4) info_len by simp
  moreover have "subbytes (?i * 512) 512 (image st') = FatFsInfo_bytes info"
    unfolding st'(2) using fit st1(4) info_len by simp
  ultimately show ?thesis using st'(3,4) s1 unfolding info_def by (intro exI [of _ st']) (auto simp: wrote_def)
qed

end

subsection \<open>The example\<close>

lemma small_fat_clean: "fat_clean small_fat"
  unfolding fat_clean_def
proof (intro allI impI)
  fix n assume n: "4 * n + 4 \<le> length small_fat"
  show "raw_word small_fat n < 0x10000000"
  proof (cases "n < 6")
    case True
    then have "n = 0 \<or> n = 1 \<or> n = 2 \<or> n = 3 \<or> n = 4 \<or> n = 5" by linarith
    then show ?thesis by (elim disjE) (simp_all add: raw_word_def small_fat_def le32_def)
  next
    case False
    let ?front = "[0xF8, 0xFF, 0xFF, 0x0F, 0xFF, 0xFF, 0xFF, 0x0F, 0xF8, 0xFF, 0xFF, 0x0F, 5, 0, 0, 0,
     0, 0, 0, 0, 0xF8, 0xFF, 0xFF, 0x0F] :: bytes"
    have len: "length ?front = 24" by simp
    have "length small_fat = 4608" by (simp add: small_fat_def)
    then have "small_fat ! (4 * n + k) = 0" if "k < 4" for k
      using False n that unfolding small_fat_def nth_append len by (auto intro!: nth_replicate)
    from this [of 0] this [of 1] this [of 2] this [of 3] show ?thesis by (simp add: raw_word_def le32_def)
  qed
qed

lemma small_loaded: "volume_loaded (small_state sys fd)"
proof -
  have "FatSuper_FsInfoIndex small_super = 1" by (simp add: small_super_def example_super_def FatSuper_FsInfoIndex_def) code_simp
  then show ?thesis
    by (simp add: volume_loaded_def small_state_def small_super_geometry cluster_pos_def FatFsInfo_of_bytes_def)
      (simp add: small_fat_def)
qed

text \<open>A disk with the sectors of an image.\<close>

definition image_sector :: "bytes \<Rightarrow> nat \<Rightarrow> bytes" where
  "image_sector img i = take 512 (drop (512 * i) img @ replicate 512 0)"

lemma image_disk:
  assumes "30720 \<le> length img"
  shows "disk_holds (linear_disk (image_sector img)) small_super img"
    "fatfs_inv BIOS_ops bios_reliable bios_content
       (FatFs_new (linear_disk (image_sector img)) small_super (replicate 512 0) (replicate 512 0))"
proof -
  show "disk_holds (linear_disk (image_sector img)) small_super img"
    using assms by (auto simp: disk_holds_def small_super_geometry linear_disk_content unat_of_nat take_bit_nat_eq_self
        image_sector_def subbytes_def)
  have "length (image_sector img n) = 512" for n by (simp add: image_sector_def)
  note ok = linear_disk_reliable [OF this]
  show "fatfs_inv BIOS_ops bios_reliable bios_content
       (FatFs_new (linear_disk (image_sector img)) small_super (replicate 512 0) (replicate 512 0))"
    by (rule FatFs_new_inv) (simp_all add: ok BIOS_ops_def BIOSBlockDevice_SectorSize_def small_super_geometry)
qed

end
