(* ===== verification/Fat_Edit_Scan.thy ===== *)
theory Fat_Edit_Scan
  imports Fat_Edit_Files
begin

text \<open>
  Directories in the editor. The scan of a directory reads its clusters entry by entry; here it is
  shown to compute a parser of the bytes of the directory, and the parser to give, for a directory
  that is a sequence of well-formed entries, exactly these.
\<close>

subsection \<open>Parsing the bytes of a directory\<close>

text \<open>The outcome: a result, a message for the user, or an exception.\<close>

datatype 'a parsed = Parsed 'a | Broken string | Thrown exn

fun parse_more :: "nat \<Rightarrow> FatDirentLong list \<Rightarrow> bytes \<Rightarrow> (FatDirentLong list \<times> bytes) parsed" where
  "parse_more 0 ents rest = Parsed (ents, rest)"
| "parse_more (Suc n) ents rest =
     (let ent = FatDirentLong_of_bytes (take 32 rest) in
      if length rest < 32 then Broken ''Not enouth space for long name list!''
      else if \<not> FlagField_IsSet (FatDirentLong_EntryFlags ent) Flags_LongFileName \<or> FatDirentLong_IsLast ent
      then Broken ''Broken long name entry!''
      else parse_more n (ents @ [ent]) (drop 32 rest))"

definition parse_short :: "u8 \<Rightarrow> FatDirentLong list \<Rightarrow> bytes \<Rightarrow> (FatDirentLong list \<times> FatDirent \<times> bytes) parsed" where
  "parse_short chksum ents rest =
     (let ent = FatDirent_of_bytes (take 32 rest) in
      if \<not> long_sequence_ok chksum ents then Broken ''Broken long filename sequence!''
      else if length rest < 32 then Broken ''Long name entry not followed by short name!''
      else if FlagField_IsSet (FatDirent_EntryFlags ent) Flags_LongFileName then Broken ''Short name entry is broken!''
      else if FatDirent_Checksum ent \<noteq> chksum then Broken ''Short name checksum does not match!''
      else Parsed (ents, ent, drop 32 rest))"

definition parse_long :: "bytes \<Rightarrow> bytes \<Rightarrow> (FatDirentLong list \<times> FatDirent \<times> bytes) parsed" where
  "parse_long d rest =
     (let ent = FatDirentLong_of_bytes d; count = FatDirentLong_SequenceNumber ent in
      if \<not> FatDirentLong_IsLast ent \<or> count < 1 then Broken ''Long name list needs to begin with last entry!''
      else case parse_more (unat count - 1) [ent] rest of
             Parsed (ents, rest1) \<Rightarrow> parse_short (FatDirentLong_ShortNameChecksum ent) (rev ents) rest1
           | Broken msg \<Rightarrow> Broken msg | Thrown e \<Rightarrow> Thrown e)"

definition parse_entry :: "FatDirentLong list \<Rightarrow> FatDirent \<Rightarrow> DirEntry parsed" where
  "parse_entry ents sEnt =
     (case FatDirent_NameToString sEnt (replicate 12 0) of None \<Rightarrow> Thrown Fault
      | Some (ok, buffer) \<Rightarrow>
          if \<not> ok then Broken ''File with empty short name found!''
          else case long_name (if ents = [] then cstr buffer else []) ents of
                 None \<Rightarrow> Broken ''File with empty long name found!''
               | Some name \<Rightarrow> Parsed \<lparr>en_shortName = cstr buffer, en_longName = name, en_size = FatDirent_Size sEnt,
                   en_firstCluster = FatDirent_ClusterIndex sEnt,
                   en_isDirectory = FlagField_IsSet (FatDirent_EntryFlags sEnt) Flags_Directory\<rparr>)"

lemma parse_more_length: "parse_more n ents rest = Parsed (ents', rest') \<Longrightarrow> length rest' \<le> length rest"
proof (induction n arbitrary: ents rest)
  case (Suc n)
  then have "parse_more n (ents @ [FatDirentLong_of_bytes (take 32 rest)]) (drop 32 rest) = Parsed (ents', rest')"
    by (auto simp: Let_def split: if_splits)
  from Suc.IH [OF this] show ?case by simp
qed simp

lemma parse_long_length: "parse_long d rest = Parsed (ents, ent, rest') \<Longrightarrow> length rest' \<le> length rest"
  by (auto simp: parse_long_def parse_short_def Let_def split: if_splits parsed.splits prod.splits dest: parse_more_length)

text \<open>The head of an entry: the long name entries in front of a short one, if there are any.\<close>

definition parse_head :: "bytes \<Rightarrow> (FatDirentLong list \<times> FatDirent \<times> bytes) parsed" where
  "parse_head rest =
     (let d = take 32 rest in
      if FlagField_IsSet (FatDirent_EntryFlags (FatDirent_of_bytes d)) Flags_LongFileName then parse_long d (drop 32 rest)
      else Parsed ([], FatDirent_of_bytes d, drop 32 rest))"

lemma parse_head_length: "parse_head rest = Parsed (ents, ent, rest') \<Longrightarrow> length rest' \<le> length rest - 32"
  by (auto simp: parse_head_def Let_def split: if_splits dest: parse_long_length)

function parse_dir :: "DirEntry list \<Rightarrow> bytes \<Rightarrow> (DirEntry list \<times> bytes) parsed" where
  "parse_dir out rest =
     (if length rest < 32 then Parsed (out, rest)
      else if FatDirent_IsDummiedOut (FatDirent_of_bytes (take 32 rest)) then parse_dir out (drop 32 rest)
      else if FatDirent_IsLastInList (FatDirent_of_bytes (take 32 rest)) then Parsed (out, rest)
      else case parse_head rest of Broken msg \<Rightarrow> Broken msg | Thrown e \<Rightarrow> Thrown e
           | Parsed (ents, sEnt, rest') \<Rightarrow>
               (case parse_entry ents sEnt of Broken msg \<Rightarrow> Broken msg | Thrown e \<Rightarrow> Thrown e
                | Parsed ent \<Rightarrow> parse_dir (out @ [ent]) rest'))"
  by pat_completeness auto

termination
  by (relation "measure (\<lambda>(_, rest). length rest)") (auto dest!: parse_head_length)

declare parse_dir.simps [simp del]

subsection \<open>The scan computes the parser\<close>

definition ed_err :: "'s Edit \<Rightarrow> string \<Rightarrow> 's Edit" where
  "ed_err st msg = st\<lparr>ed_cerr := ed_cerr st @ text_bytes msg @ [10]\<rparr>"

context reliable_posix
begin

text \<open>A reader in the chain, with the bytes left and the position at their end.\<close>

definition scanning :: "'a Edit \<Rightarrow> nat list \<Rightarrow> nat \<Rightarrow> FileReader \<Rightarrow> bytes \<Rightarrow> bool" where
  "scanning st cs end_pos rd rest \<longleftrightarrow> ed_volume st \<and> ed_chain st cs \<and> ed_reader st cs rd rest \<and>
     rd_totalRead rd + length rest = end_pos"

text \<open>A computation has the outcome of the parser; \<^verbatim>\<open>Q\<close> relates the two results.\<close>

definition outcome :: "'a Edit \<Rightarrow> ((exn + 'b option) \<times> 'a Edit) option \<Rightarrow> 'c parsed \<Rightarrow> ('c \<Rightarrow> 'b \<Rightarrow> 'a Edit \<Rightarrow> bool) \<Rightarrow> bool" where
  "outcome st run p Q \<longleftrightarrow>
     (case p of Parsed x \<Rightarrow> \<exists>y st'. run = Some (Inr (Some y), st') \<and> only_read st st' \<and> Q x y st'
      | Broken msg \<Rightarrow> \<exists>st'. run = Some (Inr None, st') \<and> only_read (ed_err st msg) st'
      | Thrown e \<Rightarrow> \<exists>st'. run = Some (Inl e, st') \<and> only_read st st')"

lemma only_read_err: "only_read st st' \<Longrightarrow> only_read (ed_err st msg) (ed_err st' msg)"
proof -
  assume "only_read st st'"
  then obtain s' where "st' = st\<lparr>ed_sys := s'\<rparr>" "same_files (ed_sys st) s'" "bytes_of s' = bytes_of (ed_sys st)"
    "pos s' = pos (ed_sys st)" by (auto simp: only_read_def)
  then show "only_read (ed_err st msg) (ed_err st' msg)"
    unfolding only_read_def by (intro exI [of _ s']) (simp add: ed_err_def)
qed

lemma outcome_only_read: "only_read st st1 \<Longrightarrow> outcome st1 run p Q \<Longrightarrow> outcome st run p Q"
  unfolding outcome_def by (cases p) (auto intro: only_read_trans [OF only_read_err] only_read_trans)

lemma outcome_fail:
  "only_read st st1 \<Longrightarrow> outcome st (io_bind (ed_error (text_bytes msg)) (\<lambda>_. io_return None) st1) (Broken msg) Q"
  using only_read_err [of st st1 msg] by (auto simp: outcome_def ed_error_def io_bind_def io_simps ed_err_def)

lemma scan_read:
  assumes "scanning st cs k rd rest"
  shows "\<exists>rd' st'. FileReader_Read P rd 32 st = Some (Inr (take 32 rest, rd'), st') \<and> only_read st st' \<and>
    scanning st' cs k rd' (drop 32 rest)"
proof -
  obtain rd' st' where r: "FileReader_Read P rd 32 st = Some (Inr (take 32 rest, rd'), st')" "only_read st st'"
    "ed_reader st cs rd' (drop 32 rest)" "rd_totalRead rd' = rd_totalRead rd + length (take 32 rest)"
    using FileReader_Read_correct [of st cs rd rest 32] assms by (auto simp: scanning_def)
  moreover have "length (take 32 rest) + length (drop 32 rest) = length rest" by simp
  then have "rd_totalRead rd' + length (drop 32 rest) = k" using assms r(4) unfolding scanning_def by linarith
  ultimately show ?thesis using assms by (auto simp: scanning_def only_read_volume)
qed

lemma scan_more:
  assumes "scanning st cs k rd rest"
  shows "outcome st (ScanDirectory_more P n ents rd st) (parse_more n ents rest)
    (\<lambda>(ents', rest') (ents2, rd') st'. ents2 = ents' \<and> scanning st' cs k rd' rest')"
  using assms
proof (induction n arbitrary: st rd rest ents)
  case 0
  then show ?case by (auto simp: outcome_def io_simps)
next
  case (Suc n)
  obtain rd' st' where r: "FileReader_Read P rd 32 st = Some (Inr (take 32 rest, rd'), st')" "only_read st st'"
    "scanning st' cs k rd' (drop 32 rest)" using scan_read [OF Suc.prems] by blast
  note step = ScanDirectory_more.simps(2) [of P n ents rd] io_bind_def [of "FileReader_Read P rd 32"] r(1)
  show ?case
    using outcome_fail [OF r(2)] outcome_only_read [OF r(2) Suc.IH [OF r(3)]] by (auto simp: step Let_def)
qed

lemma scan_long:
  assumes "scanning st cs k rd rest"
  shows "outcome st (ScanDirectory_long P d rd st) (parse_long d rest)
    (\<lambda>(ents', ent', rest') (ents2, ent2, rd') st'. ents2 = ents' \<and> ent2 = ent' \<and> scanning st' cs k rd' rest')"
proof -
  let ?ent = "FatDirentLong_of_bytes d"
  let ?chk = "FatDirentLong_ShortNameChecksum ?ent"
  obtain n where n: "unat (FatDirentLong_SequenceNumber ?ent) - Suc 0 = n" by blast
  show ?thesis
  proof (cases "\<not> FatDirentLong_IsLast ?ent \<or> FatDirentLong_SequenceNumber ?ent < 1")
    case True
    then show ?thesis using outcome_fail [OF only_read_refl]
      by (auto simp: ScanDirectory_long_def parse_long_def Let_def)
  next
    case first: False
    note more = scan_more [OF assms, of n "[?ent]"]
    show ?thesis
    proof (cases "parse_more n [?ent] rest")
      case (Parsed x)
      obtain ents rest1 where x: "x = (ents, rest1)" by (cases x)
      obtain rd1 st1 where m: "ScanDirectory_more P n [?ent] rd st = Some (Inr (Some (ents, rd1)), st1)" "only_read st st1"
        "scanning st1 cs k rd1 rest1"
        using more unfolding Parsed x outcome_def by auto
      obtain rd2 st2 where r: "FileReader_Read P rd1 32 st1 = Some (Inr (take 32 rest1, rd2), st2)" "only_read st1 st2"
        "scanning st2 cs k rd2 (drop 32 rest1)" using scan_read [OF m(3)] by blast
      note fail1 = outcome_fail [OF m(2)] and fail2 = outcome_fail [OF only_read_trans [OF m(2) r(2)]]
      have p: "parse_long d rest = parse_short ?chk (rev ents) rest1"
        using first Parsed x by (simp add: parse_long_def Let_def n)
      have run: "ScanDirectory_long P d rd st =
          (if \<not> long_sequence_ok ?chk (rev ents)
           then io_bind (ed_error (text_bytes ''Broken long filename sequence!'')) (\<lambda>_. io_return None) st1
           else (let sEnt = FatDirent_of_bytes (take 32 rest1) in
             if length (take 32 rest1) < 32
             then io_bind (ed_error (text_bytes ''Long name entry not followed by short name!'')) (\<lambda>_. io_return None)
             else if FlagField_IsSet (FatDirent_EntryFlags sEnt) Flags_LongFileName
             then io_bind (ed_error (text_bytes ''Short name entry is broken!'')) (\<lambda>_. io_return None)
             else if FatDirent_Checksum sEnt \<noteq> ?chk
             then io_bind (ed_error (text_bytes ''Short name checksum does not match!'')) (\<lambda>_. io_return None)
             else io_return (Some (rev ents, sEnt, rd2))) st2)"
        using first m(1) r(1)
        by (simp add: ScanDirectory_long_def Let_def n io_bind_def [of "ScanDirectory_more P n [?ent] rd"]
            io_bind_def [of "FileReader_Read P rd1 32"])
      show ?thesis
        unfolding p run parse_short_def Let_def using fail1 fail2 only_read_trans [OF m(2) r(2)] r(3)
        by (auto simp: io_simps outcome_def)
    next
      case (Broken msg)
      then show ?thesis using more first
        by (auto simp: outcome_def ScanDirectory_long_def parse_long_def Let_def n io_bind_def io_simps)
    next
      case (Thrown e)
      then show ?thesis using more first
        by (auto simp: outcome_def ScanDirectory_long_def parse_long_def Let_def n io_bind_def)
    qed
  qed
qed

lemma scan_entry:
  "outcome st (ScanDirectory_entry ents sEnt st) (parse_entry ents sEnt) (\<lambda>x y st'. y = x \<and> st' = st)"
  using outcome_fail [OF only_read_refl [of st]]
  by (auto simp: ScanDirectory_entry_def parse_entry_def outcome_def io_simps Let_def split: option.splits)

end

context reliable_posix
begin

lemma outcome_Parsed:
  "outcome st run (Parsed x) Q \<longleftrightarrow> (\<exists>y st'. run = Some (Inr (Some y), st') \<and> only_read st st' \<and> Q x y st')"
  "outcome st run (Broken msg) Q \<longleftrightarrow> (\<exists>st'. run = Some (Inr None, st') \<and> only_read (ed_err st msg) st')"
  "outcome st run (Thrown e) Q \<longleftrightarrow> (\<exists>st'. run = Some (Inl e, st') \<and> only_read st st')"
  by (simp_all add: outcome_def)

lemma scan_head:
  assumes "scanning st cs k rd (drop 32 rest)" "d = take 32 rest"
  shows "outcome st ((if FlagField_IsSet (FatDirent_EntryFlags (FatDirent_of_bytes d)) Flags_LongFileName
      then ScanDirectory_long P d rd else io_return (Some ([], FatDirent_of_bytes d, rd))) st) (parse_head rest)
    (\<lambda>(ents', ent', rest') (ents2, ent2, rd') st'. ents2 = ents' \<and> ent2 = ent' \<and> scanning st' cs k rd' rest')"
  using scan_long [OF assms(1), of d] assms by (auto simp: parse_head_def Let_def outcome_Parsed io_simps)

lemma scan_loop:
  assumes "scanning st cs k rd rest"
  shows "outcome st (ScanDirectory_loop P rd out st) (parse_dir out rest)
    (\<lambda>(out', rest') (out2, n) st'. out2 = out' \<and> n = k - length rest')"
  using assms
proof (induction out rest arbitrary: rd st rule: parse_dir.induct)
  case (1 out rest)
  let ?d = "take 32 rest" and ?ent = "FatDirent_of_bytes (take 32 rest)"
  obtain rd1 st1 where r: "FileReader_Read P rd 32 st = Some (Inr (?d, rd1), st1)" "only_read st st1"
    "scanning st1 cs k rd1 (drop 32 rest)" using scan_read [OF 1(3)] by blast
  have total: "rd_totalRead rd1 - length ?d = k - length rest" using r(3) by (auto simp: scanning_def min_def)
  note loop = ScanDirectory_loop.simps [of P rd out st] io_bind_def [of "FileReader_Read P rd 32"] r(1)
  show ?case
  proof (cases "length rest < 32")
    case True
    then show ?thesis using r(2) total by (auto simp: loop parse_dir.simps [of out rest] outcome_Parsed)
  next
    case long: False
    show ?thesis
    proof (cases "FatDirent_IsDummiedOut ?ent")
      case True
      then have "ScanDirectory_loop P rd out st = ScanDirectory_loop P rd1 out st1"
        "parse_dir out rest = parse_dir out (drop 32 rest)"
        using long by (simp_all add: loop parse_dir.simps [of out rest] Let_def)
      then show ?thesis using outcome_only_read [OF r(2) 1(1) [OF long True r(3)]] by simp
    next
      case alive: False
      show ?thesis
      proof (cases "FatDirent_IsLastInList ?ent")
        case True
        have "length ?d = 32" using long by simp
        with total have "rd_totalRead rd1 - 32 = k - length rest" by metis
        then show ?thesis using long alive True r(2)
          by (auto simp: loop parse_dir.simps [of out rest] Let_def outcome_Parsed)
      next
        case more: False
        let ?head = "if FlagField_IsSet (FatDirent_EntryFlags ?ent) Flags_LongFileName
            then ScanDirectory_long P ?d rd1 else io_return (Some ([], ?ent, rd1))"
        let ?k = "\<lambda>r st2. case r of None \<Rightarrow> Some (Inr None, st2)
            | Some (lEntList, sEnt1, rd2) \<Rightarrow> io_bind (ScanDirectory_entry lEntList sEnt1) (\<lambda>r st3.
                 case r of None \<Rightarrow> Some (Inr None, st3)
                 | Some ent \<Rightarrow> ScanDirectory_loop P rd2 (out @ [ent]) st3) st2"
        have run: "ScanDirectory_loop P rd out st = io_bind ?head ?k st1"
          using long alive more by (simp add: loop Let_def)
        note head = scan_head [OF r(3) refl]
        show ?thesis
        proof (cases "parse_head rest")
          case (Parsed x)
          obtain ents sEnt rest' where x: "x = (ents, sEnt, rest')" by (cases x) auto
          obtain rd2 st2 where h: "?head st1 = Some (Inr (Some (ents, sEnt, rd2)), st2)" "only_read st1 st2" "scanning st2 cs k rd2 rest'"
            using head unfolding Parsed x outcome_Parsed by auto
          note st2 = only_read_trans [OF r(2) h(2)]
          have run2: "ScanDirectory_loop P rd out st = io_bind (ScanDirectory_entry ents sEnt) (\<lambda>r st3.
                 case r of None \<Rightarrow> Some (Inr None, st3) | Some ent \<Rightarrow> ScanDirectory_loop P rd2 (out @ [ent]) st3) st2"
            unfolding run io_bind_def [of ?head] h(1) by simp
          note entry = scan_entry [of st2 ents sEnt]
          show ?thesis
          proof (cases "parse_entry ents sEnt")
            case (Parsed ent)
            have p: "parse_dir out rest = parse_dir (out @ [ent]) rest'"
              using long alive more \<open>parse_head rest = Parsed x\<close> x Parsed by (simp add: parse_dir.simps [of out rest])
            have "ScanDirectory_loop P rd out st = ScanDirectory_loop P rd2 (out @ [ent]) st2"
              using entry unfolding Parsed outcome_Parsed run2 by (auto simp: io_bind_def)
            then show ?thesis
              using outcome_only_read [OF st2 1(2) [OF long alive more \<open>parse_head rest = Parsed x\<close> x [symmetric] refl Parsed h(3)]] p by simp
          next
            case (Broken msg)
            then show ?thesis using entry long alive more \<open>parse_head rest = Parsed x\<close> x only_read_trans [OF only_read_err [OF st2]]
              by (auto simp: run2 parse_dir.simps [of out rest] outcome_Parsed io_bind_def)
          next
            case (Thrown e)
            then show ?thesis using entry long alive more \<open>parse_head rest = Parsed x\<close> x only_read_trans [OF st2]
              by (auto simp: run2 parse_dir.simps [of out rest] outcome_Parsed io_bind_def)
          qed
        next
          case (Broken msg)
          then obtain st2 where "?head st1 = Some (Inr None, st2)" "only_read (ed_err st1 msg) st2"
            using head by (auto simp: outcome_Parsed)
          then show ?thesis using Broken long alive more only_read_trans [OF only_read_err [OF r(2)]]
            unfolding run io_bind_def [of ?head] by (auto simp: parse_dir.simps [of out rest] outcome_Parsed)
        next
          case (Thrown e)
          then obtain st2 where "?head st1 = Some (Inl e, st2)" "only_read st1 st2"
            using head by (auto simp: outcome_Parsed)
          then show ?thesis using Thrown long alive more only_read_trans [OF r(2)]
            unfolding run io_bind_def [of ?head] by (auto simp: parse_dir.simps [of out rest] outcome_Parsed)
        qed
      qed
    qed
  qed
qed

end

subsection \<open>Directories as sequences of entries\<close>

text \<open>
  What a directory holds: deleted entries, and files with their short entry, in front of which are
  the entries of a long name, last part first.
\<close>

datatype dir_item = Deleted bytes | Item "bytes list" FatDirent

fun item_bytes :: "dir_item \<Rightarrow> bytes" where
  "item_bytes (Deleted b) = b"
| "item_bytes (Item ls d) = concat ls @ FatDirent_bytes d"

text \<open>A short entry with a name that leaves room for the terminator in 12 bytes.\<close>

definition short_ok :: "FatDirent \<Rightarrow> bool" where
  "short_ok d \<longleftrightarrow> FatDirent_wf d \<and> name_At d 0 \<notin> {0, 32, 0xE5} \<and> 0 \<notin> set (dirent_name d) \<and>
     length (dirent_name d) < 12 \<and> \<not> FlagField_IsSet (FatDirent_EntryFlags d) Flags_LongFileName"

definition long_part :: "bytes \<Rightarrow> bytes" where
  "long_part b = cstr (FatDirentLong_NameToString (FatDirentLong_of_bytes b))"

text \<open>The entries of a long name: all of the right kind, numbered downwards, with the checksum.\<close>

definition long_ok :: "bytes list \<Rightarrow> FatDirent \<Rightarrow> bool" where
  "long_ok ls d \<longleftrightarrow>
     (\<forall>b \<in> set ls. length b = 32 \<and> long_part b \<noteq> [] \<and>
        FlagField_IsSet (FatDirentLong_EntryFlags (FatDirentLong_of_bytes b)) Flags_LongFileName) \<and>
     long_sequence_ok (FatDirent_Checksum d) (rev (map FatDirentLong_of_bytes ls)) \<and>
     (case ls of [] \<Rightarrow> True | b # bs \<Rightarrow> FatDirentLong_IsLast (FatDirentLong_of_bytes b) \<and> b ! 0 \<noteq> 0xE5 \<and>
        (\<forall>x \<in> set bs. \<not> FatDirentLong_IsLast (FatDirentLong_of_bytes x)))"

fun item_ok :: "dir_item \<Rightarrow> bool" where
  "item_ok (Deleted b) \<longleftrightarrow> length b = 32 \<and> b ! 0 = 0xE5"
| "item_ok (Item ls d) \<longleftrightarrow> short_ok d \<and> long_ok ls d"

definition item_entry :: "bytes list \<Rightarrow> FatDirent \<Rightarrow> DirEntry" where
  "item_entry ls d = \<lparr>en_shortName = dirent_name d,
     en_longName = (if ls = [] then dirent_name d else concat (map long_part (rev ls))),
     en_size = FatDirent_Size d, en_firstCluster = FatDirent_ClusterIndex d,
     en_isDirectory = FlagField_IsSet (FatDirent_EntryFlags d) Flags_Directory\<rparr>"

fun item_entries :: "dir_item list \<Rightarrow> DirEntry list" where
  "item_entries [] = []"
| "item_entries (Deleted b # items) = item_entries items"
| "item_entries (Item ls d # items) = item_entry ls d # item_entries items"

text \<open>Where a directory ends: at a zero byte in the place of a name, or with its clusters.\<close>

definition dir_end :: "bytes \<Rightarrow> bool" where
  "dir_end rest \<longleftrightarrow> length rest < 32 \<or> rest ! 0 = 0"

lemma long_name_eq:
  "\<forall>b \<in> set bs. long_part b \<noteq> [] \<Longrightarrow> long_name acc (map FatDirentLong_of_bytes bs) = Some (acc @ concat (map long_part bs))"
  by (induction bs arbitrary: acc) (simp_all add: long_part_def Let_def)

lemma parse_entry_ok:
  assumes "short_ok d" "long_ok ls d"
  shows "parse_entry (rev (map FatDirentLong_of_bytes ls)) d = Parsed (item_entry ls d)"
proof -
  have wf: "FatDirent_wf d" and n: "name_At d 0 \<noteq> 32" "length (dirent_name d) < 12" "0 \<notin> set (dirent_name d)"
    using assms(1) by (simp_all add: short_ok_def)
  obtain r where "FatDirent_NameToString d (replicate 12 0) = Some (True, dirent_name d @ 0 # r)"
    using NameToString_eq [OF wf _ n(1), of "replicate 12 0"] n(2) by auto
  moreover have "cstr (dirent_name d @ 0 # r) = dirent_name d"
    using n(3) unfolding cstr_def by (subst takeWhile_append2) auto
  moreover have "\<forall>b \<in> set (rev ls). long_part b \<noteq> []" using assms(2) by (simp add: long_ok_def)
  ultimately show ?thesis
    using long_name_eq [of "rev ls"] by (auto simp: parse_entry_def item_entry_def rev_map)
qed

lemma parse_more_ok:
  assumes "\<forall>b \<in> set bs. length b = 32 \<and> \<not> FatDirentLong_IsLast (FatDirentLong_of_bytes b) \<and>
      FlagField_IsSet (FatDirentLong_EntryFlags (FatDirentLong_of_bytes b)) Flags_LongFileName"
  shows "parse_more (length bs) ents (concat bs @ rest) = Parsed (ents @ map FatDirentLong_of_bytes bs, rest)"
  using assms by (induction bs arbitrary: ents) (simp_all add: Let_def)

lemma name_At_byte: "b \<noteq> [] \<Longrightarrow> name_At (FatDirent_of_bytes b) 0 = b ! 0"
  by (cases b) (simp_all add: name_At_def FatDirent_of_bytes_def FixedLengthString_At_def subbytes_def)

lemma long_first:
  assumes "long_ok (b # bs) d"
  shows "unat (FatDirentLong_SequenceNumber (FatDirentLong_of_bytes b)) = length bs + 1"
    "FatDirentLong_ShortNameChecksum (FatDirentLong_of_bytes b) = FatDirent_Checksum d"
proof -
  let ?l = "rev (map FatDirentLong_of_bytes (b # bs))"
  have at: "?l ! length bs = FatDirentLong_of_bytes b" by (simp add: nth_append)
  have "\<forall>i \<in> set [0 ..< length ?l]. unat (FatDirentLong_SequenceNumber (?l ! i)) = i + 1 \<and>
      FatDirentLong_ShortNameChecksum (?l ! i) = FatDirent_Checksum d"
    using assms unfolding long_ok_def long_sequence_ok_def by blast
  moreover have "length bs \<in> set [0 ..< length ?l]" by simp
  ultimately show "unat (FatDirentLong_SequenceNumber (FatDirentLong_of_bytes b)) = length bs + 1"
    "FatDirentLong_ShortNameChecksum (FatDirentLong_of_bytes b) = FatDirent_Checksum d"
    using at by metis+
qed

lemma parse_long_ok:
  assumes "short_ok d" "long_ok (b # bs) d"
  shows "parse_long b (concat bs @ FatDirent_bytes d @ rest) = Parsed (rev (map FatDirentLong_of_bytes (b # bs)), d, rest)"
proof -
  note first = long_first [OF assms(2)]
  let ?b = "FatDirentLong_of_bytes b"
  have b: "FatDirentLong_IsLast ?b" "\<forall>x \<in> set bs. length x = 32 \<and> \<not> FatDirentLong_IsLast (FatDirentLong_of_bytes x) \<and>
      FlagField_IsSet (FatDirentLong_EntryFlags (FatDirentLong_of_bytes x)) Flags_LongFileName"
    using assms(2) by (auto simp: long_ok_def)
  have count: "\<not> FatDirentLong_SequenceNumber ?b < 1" "unat (FatDirentLong_SequenceNumber ?b) - 1 = length bs"
    using first(1) by (auto simp: word_less_nat_alt)
  have more: "parse_more (length bs) [?b] (concat bs @ FatDirent_bytes d @ rest) =
      Parsed (map FatDirentLong_of_bytes (b # bs), FatDirent_bytes d @ rest)"
    using parse_more_ok [OF b(2)] by simp
  have wf: "FatDirent_wf d" using assms(1) by (simp add: short_ok_def)
  then have d: "take 32 (FatDirent_bytes d @ rest) = FatDirent_bytes d" "drop 32 (FatDirent_bytes d @ rest) = rest"
    "\<not> length (FatDirent_bytes d @ rest) < 32" by simp_all
  have "long_sequence_ok (FatDirent_Checksum d) (rev (map FatDirentLong_of_bytes (b # bs)))"
    using assms(2) by (simp add: long_ok_def)
  then have "parse_short (FatDirent_Checksum d) (rev (map FatDirentLong_of_bytes (b # bs))) (FatDirent_bytes d @ rest) =
      Parsed (rev (map FatDirentLong_of_bytes (b # bs)), d, rest)"
    using assms(1) unfolding parse_short_def Let_def d FatDirent_of_bytes_bytes [OF wf] by (simp add: short_ok_def d(3) del: rev.simps list.map length_append)
  then show ?thesis
    unfolding parse_long_def Let_def count(2) more first(2) using b(1) count(1) by (simp del: rev.simps list.map)
qed

lemma parse_dir_end: "dir_end rest \<Longrightarrow> parse_dir out rest = Parsed (out, rest)"
proof (cases "length rest < 32")
  case False
  assume "dir_end rest"
  then have "name_At (FatDirent_of_bytes (take 32 rest)) 0 = 0" using False by (subst name_At_byte) (auto simp: dir_end_def)
  then show ?thesis using False
    by (simp add: parse_dir.simps [of out rest] FatDirent_IsDummiedOut_def FatDirent_IsLastInList_def)
qed (simp add: parse_dir.simps [of out rest])

lemma parse_dir_step:
  assumes "32 \<le> length rest" "take 32 rest ! 0 \<notin> {0, 0xE5}" "parse_head rest = Parsed (ents, d, rest')"
    and "parse_entry ents d = Parsed ent"
  shows "parse_dir out rest = parse_dir (out @ [ent]) rest'"
proof -
  have "name_At (FatDirent_of_bytes (take 32 rest)) 0 = take 32 rest ! 0" using assms(1) by (intro name_At_byte) auto
  then show ?thesis using assms
    by (simp add: parse_dir.simps [of out rest] FatDirent_IsDummiedOut_def FatDirent_IsLastInList_def)
qed

lemma parse_dir_item:
  assumes "item_ok (Item ls d)"
  shows "parse_dir out (item_bytes (Item ls d) @ rest) = parse_dir (out @ [item_entry ls d]) rest"
proof -
  have s: "short_ok d" and l: "long_ok ls d" using assms by simp_all
  have wf: "FatDirent_wf d" using s by (simp add: short_ok_def)
  let ?rest = "item_bytes (Item ls d) @ rest"
  have "32 \<le> length ?rest" using wf by simp
  moreover have "take 32 ?rest ! 0 \<notin> {0, 0xE5} \<and> parse_head ?rest = Parsed (rev (map FatDirentLong_of_bytes ls), d, rest)"
  proof (cases ls)
    case Nil
    then have t: "take 32 ?rest = FatDirent_bytes d" "drop 32 ?rest = rest" using wf by simp_all
    have "FatDirent_bytes d \<noteq> []" by (simp add: FatDirent_bytes_def)
    from name_At_byte [OF this] have "FatDirent_bytes d ! 0 = name_At d 0" by (simp add: FatDirent_of_bytes_bytes [OF wf])
    then show ?thesis using s Nil unfolding parse_head_def Let_def t
      by (simp add: FatDirent_of_bytes_bytes [OF wf] short_ok_def)
  next
    case (Cons b bs)
    have b: "length b = 32" "b ! 0 \<noteq> 0xE5" "FatDirentLong_IsLast (FatDirentLong_of_bytes b)"
      "FlagField_IsSet (FatDirentLong_EntryFlags (FatDirentLong_of_bytes b)) Flags_LongFileName"
      using l Cons by (auto simp: long_ok_def)
    then have t: "take 32 ?rest = b" "drop 32 ?rest = concat bs @ FatDirent_bytes d @ rest" using Cons by simp_all
    have "b ! 0 \<noteq> 0" using b(3) by (auto simp: FatDirentLong_IsLast_def FatDirentLong_of_bytes_def)
    moreover have "FlagField_IsSet (FatDirent_EntryFlags (FatDirent_of_bytes b)) Flags_LongFileName"
      using b(4) by (simp add: FatDirent_EntryFlags_def FatDirentLong_EntryFlags_def FatDirent_of_bytes_def FatDirentLong_of_bytes_def)
    ultimately show ?thesis using b(2) parse_long_ok [OF s] l Cons unfolding parse_head_def Let_def t by simp
  qed
  ultimately show ?thesis using parse_dir_step parse_entry_ok [OF s l] by blast
qed

lemma parse_dir_deleted:
  assumes "item_ok (Deleted b)"
  shows "parse_dir out (item_bytes (Deleted b) @ rest) = parse_dir out rest"
proof -
  have "b \<noteq> []" "length b = 32" "b ! 0 = 0xE5" using assms by auto
  then show ?thesis using name_At_byte [of b]
    by (subst parse_dir.simps) (simp add: FatDirent_IsDummiedOut_def)
qed

lemma parse_dir_items:
  assumes "\<forall>i \<in> set items. item_ok i" "dir_end rest"
  shows "parse_dir out (concat (map item_bytes items) @ rest) = Parsed (out @ item_entries items, rest)"
  using assms(1)
proof (induction items arbitrary: out)
  case (Cons i items)
  then have IH: "parse_dir out (concat (map item_bytes items) @ rest) = Parsed (out @ item_entries items, rest)" for out by simp
  show ?case
  proof (cases i)
    case (Deleted b)
    then show ?thesis using Cons.prems parse_dir_deleted [of b out] IH by simp
  next
    case (Item ls d)
    then have "item_ok (Item ls d)" using Cons.prems by simp
    from parse_dir_item [OF this, of out "concat (map item_bytes items) @ rest"] Item show ?thesis by (simp add: IH)
  qed
qed (simp add: parse_dir_end [OF assms(2)])

subsection \<open>Listing a directory of a volume\<close>

text \<open>
  A directory: a chain whose data is a sequence of entries up to the end of the directory;
  \<^verbatim>\<open>n\<close> is the number of bytes in front of the end. It is named by its first cluster.
\<close>

definition dir_chain :: "FatSuper \<Rightarrow> bytes \<Rightarrow> bytes \<Rightarrow> nat list \<Rightarrow> DirEntry list \<Rightarrow> nat \<Rightarrow> bool" where
  "dir_chain s raw img cs es n \<longleftrightarrow> (\<exists>items rest. is_chain s raw cs \<and>
     chain_data s img cs = concat (map item_bytes items) @ rest \<and> (\<forall>i \<in> set items. item_ok i) \<and> dir_end rest \<and>
     es = item_entries items \<and> n = length (concat (map item_bytes items)))"

definition dir_lists :: "FatSuper \<Rightarrow> bytes \<Rightarrow> bytes \<Rightarrow> u32 \<Rightarrow> DirEntry list \<Rightarrow> nat \<Rightarrow> bool" where
  "dir_lists s raw img c es n \<longleftrightarrow> (\<exists>cs. dir_chain s raw img cs es n \<and> of_nat (hd cs) = c)"

text \<open>States of the editor with the same volume and the same output so far.\<close>

definition same_volume :: "('s \<Rightarrow> int \<Rightarrow> nat) \<Rightarrow> ('s \<Rightarrow> nat \<Rightarrow> bytes) \<Rightarrow> 's Edit \<Rightarrow> 's Edit \<Rightarrow> bool" where
  "same_volume inode bytes_of st st' \<longleftrightarrow> ed_super st' = ed_super st \<and> ed_fatRaw st' = ed_fatRaw st \<and>
     ed_fsinfo st' = ed_fsinfo st \<and> ed_file st' = ed_file st \<and>
     image_of inode bytes_of st' = image_of inode bytes_of st"

lemma chain_bytes_fit:
  assumes "volume s raw img" "is_chain s raw cs"
  shows "length (chain_data s img cs) < 2 ^ 32"
proof -
  have g: "geometry s raw" using assms(1) by (simp add: volume_def)
  have "length (chain_data s img cs) \<le> length cs * cluster_size s"
    unfolding chain_data_def length_concat by (induction cs) (auto simp: cluster_data_def subbytes_def)
  then show ?thesis using chain_fits [OF assms] by simp
qed

context reliable_posix
begin

lemma only_read_same_volume: "only_read st st' \<Longrightarrow> same_volume inode bytes_of st st'"
  using only_read_simps [of st st'] by (simp add: same_volume_def flip: image_eq)

lemma scan_directory:
  assumes "edit_volume inode bytes_of st" "dir_lists (ed_super st) (ed_fatRaw st) (image_of inode bytes_of st) c es n"
  shows "\<exists>st'. ScanDirectory P (FileReader_new c 0xFFFFFFFF) st = Some (Inr (Some (es, n)), st') \<and> only_read st st'"
proof -
  let ?img = "image_of inode bytes_of st"
  obtain cs items rest where d: "is_chain (ed_super st) (ed_fatRaw st) cs" "of_nat (hd cs) = c"
    "chain_data (ed_super st) ?img cs = concat (map item_bytes items) @ rest" "\<forall>i \<in> set items. item_ok i" "dir_end rest"
    "es = item_entries items" "n = length (concat (map item_bytes items))"
    using assms(2) unfolding dir_lists_def dir_chain_def by blast
  let ?d = "chain_data (ed_super st) ?img cs"
  have len: "length ?d < 2 ^ 32" using chain_bytes_fit d(1) assms(1) by (auto simp: edit_volume_def)
  have "reader_at (ed_super st) ?img cs (FileReader_new c 0xFFFFFFFF) (take (unat (0xFFFFFFFF :: u32)) ?d)"
    unfolding d(2) [symmetric] using d(1) by (rule reader_at_new)
  moreover have "take (unat (0xFFFFFFFF :: u32)) ?d = ?d" using len by simp
  ultimately have "scanning st cs (length ?d) (FileReader_new c 0xFFFFFFFF) ?d"
    using assms(1) d(1) by (simp add: scanning_def ed_reader_def ed_chain_def image_eq FileReader_new_def)
  from scan_loop [OF this, of "[]"] show ?thesis
    unfolding d(3) parse_dir_items [OF d(4,5)] outcome_Parsed ScanDirectory_def by (auto simp: d(6,7))
qed

end

text \<open>
  C14. The scan of a directory of the editor returns its files. When the data of the
  clusters of a directory is a sequence of deleted entries and of files, each with a short entry
  and the entries of its long name in front of it, up to a zero byte or to the end of the clusters,
  \<^verbatim>\<open>ScanDirectory\<close> returns the files in their order, with the names, sizes, first clusters and
  directory flags of the entries, and the number of bytes in front of the end, where the next entry
  goes. It prints nothing and changes neither the volume nor the table in memory.
\<close>

theorem ScanDirectory_lists:
  assumes "reliable_posix P inode bytes_of pos opened names patience"
    and "edit_volume inode bytes_of st"
    and "dir_lists (ed_super st) (ed_fatRaw st) (image_of inode bytes_of st) c es n"
  shows "\<exists>st'. ScanDirectory P (FileReader_new c 0xFFFFFFFF) st = Some (Inr (Some (es, n)), st') \<and>
    same_volume inode bytes_of st st' \<and> ed_cout st' = ed_cout st \<and> ed_cerr st' = ed_cerr st"
  using reliable_posix.scan_directory [OF assms] reliable_posix.only_read_same_volume [OF assms(1)]
    reliable_posix.only_read_simps [OF assms(1)] by blast

subsection \<open>An example directory\<close>

text \<open>A deleted entry and a file HELLO.TXT with the long name hello.txt, in the root directory.\<close>

definition hello_long :: bytes where
  "hello_long = [0x41, 104, 0, 101, 0, 108, 0, 108, 0, 111, 0, 0x0F, 0, 241, 46, 0, 116, 0, 120, 0, 116, 0, 0, 0,
     0xFF, 0xFF, 0, 0, 0xFF, 0xFF, 0xFF, 0xFF]"

definition hello_short :: bytes where
  "hello_short = [72, 69, 76, 76, 79, 32, 32, 32, 84, 88, 84, 0x20, 0, 0, 0, 0, 0, 0, 0, 0, 0, 0, 0, 0, 0, 0, 3, 0, 232, 3, 0, 0]"

definition hello_items :: "dir_item list" where
  "hello_items = [Deleted (0xE5 # replicate 31 0), Item [hello_long] (FatDirent_of_bytes hello_short)]"

definition hello_file :: DirEntry where
  "hello_file = \<lparr>en_shortName = text_bytes ''HELLO.TXT'', en_longName = text_bytes ''hello.txt'',
     en_size = 1000, en_firstCluster = 3, en_isDirectory = False\<rparr>"

definition dir_sys :: refsys where
  "dir_sys = small_sys\<lparr>ref_data := (\<lambda>i. if i = 0 then
     replicate 25600 7 @ concat (map item_bytes hello_items) @ replicate 416 0 @ replicate 4608 7 else [])\<rparr>"

lemma hello_bytes: "FatDirent_bytes (FatDirent_of_bytes hello_short) = hello_short"
  by code_simp

lemma hello_item_bytes: "concat (map item_bytes hello_items) = 0xE5 # replicate 31 0 @ hello_long @ hello_short"
  by (simp add: hello_items_def hello_bytes)

lemma hello_lengths: "length hello_long = 32" "length hello_short = 32"
  by (simp_all add: hello_long_def hello_short_def)

lemma hello_items_ok: "\<forall>i \<in> set hello_items. item_ok i"
proof -
  have "item_ok (Item [hello_long] (FatDirent_of_bytes hello_short))" by code_simp
  then show ?thesis by (simp add: hello_items_def)
qed

lemma hello_entries: "item_entries hello_items = [hello_file]"
  by code_simp

lemma dir_image: "image_of ref_inode ref_data (small_state dir_sys 3) =
    replicate 25600 7 @ concat (map item_bytes hello_items) @ replicate 416 0 @ replicate 4608 7"
  by (simp add: image_of_def small_state_def small_sys_def dir_sys_def)

lemma dir_edit_volume: "edit_volume ref_inode ref_data (small_state dir_sys 3)"
proof -
  have "length (image_of ref_inode ref_data (small_state dir_sys 3)) = 30720"
    unfolding dir_image hello_item_bytes by (simp add: hello_lengths)
  then show ?thesis using small_volume [of "image_of ref_inode ref_data (small_state dir_sys 3)"]
    unfolding edit_volume_def by (simp add: small_state_def)
qed

lemma root_chain: "is_chain small_super small_fat [2]"
  by (simp add: is_chain_def data_cluster_def small_cluster_total small_fat_entries less_Suc_eq)

lemma root_dir_chain:
  "dir_chain small_super small_fat (image_of ref_inode ref_data (small_state dir_sys 3)) [2] [hello_file] 96"
proof -
  have "chain_data small_super (image_of ref_inode ref_data (small_state dir_sys 3)) [2] =
      concat (map item_bytes hello_items) @ replicate 416 0"
    unfolding dir_image hello_item_bytes
    by (simp add: chain_data_def cluster_data_def subbytes_def cluster_size_def cluster_pos_def small_super_geometry hello_lengths)
  moreover have "dir_end (replicate 416 0)" by (simp add: dir_end_def)
  moreover have "length (concat (map item_bytes hello_items)) = 96" unfolding hello_item_bytes by (simp add: hello_lengths)
  ultimately show ?thesis
    unfolding dir_chain_def using root_chain hello_items_ok hello_entries
    by (intro exI [of _ hello_items] exI [of _ "replicate 416 0"]) simp
qed

lemma root_lists:
  "dir_lists small_super small_fat (image_of ref_inode ref_data (small_state dir_sys 3)) 2 [hello_file] 96"
  unfolding dir_lists_def using root_dir_chain by (intro exI [of _ "[2]"]) simp

theorem ScanDirectory_lists_witness:
  "\<exists>st'. ScanDirectory ref_posix (FileReader_new 2 0xFFFFFFFF) (small_state dir_sys 3) =
    Some (Inr (Some ([hello_file], 96)), st') \<and> ed_cerr st' = []"
  using ScanDirectory_lists [OF ref.reliable_posix_axioms dir_edit_volume, of 2 "[hello_file]" 96] root_lists
  by (auto simp: small_state_def)

end
