(* ===== verification/Fat_Edit_Walk.thy ===== *)
theory Fat_Edit_Walk
  imports Fat_Edit_Scan
begin

text \<open>
  Paths in the editor: a path is followed through the directories of the volume, the file behind it
  is printed, and what a command does is what the walk says.
\<close>

subsection \<open>The walk through the directories\<close>

text \<open>What a path leads to. A component names a file by its long name or by its short name.\<close>

datatype lookup = Found DirEntry | Missing bytes | Not_directory

definition goes_by :: "bytes \<Rightarrow> DirEntry \<Rightarrow> bool" where
  "goes_by name it \<longleftrightarrow> name \<in> {en_longName it, en_shortName it}"

inductive ed_walks :: "FatSuper \<Rightarrow> bytes \<Rightarrow> bytes \<Rightarrow> DirEntry \<Rightarrow> bytes list \<Rightarrow> lookup \<Rightarrow> bool"
  for s :: FatSuper and raw img :: bytes where
  here: "ed_walks s raw img ent [] (Found ent)"
| not_directory: "\<not> en_isDirectory ent \<Longrightarrow> ed_walks s raw img ent (name # path) Not_directory"
| missing: "en_isDirectory ent \<Longrightarrow> dir_lists s raw img (en_firstCluster ent) es n \<Longrightarrow> \<forall>it \<in> set es. \<not> goes_by name it \<Longrightarrow>
    ed_walks s raw img ent (name # path) (Missing name)"
| into: "en_isDirectory ent \<Longrightarrow> dir_lists s raw img (en_firstCluster ent) (before @ it # rest) n \<Longrightarrow>
    \<forall>x \<in> set before. \<not> goes_by name x \<Longrightarrow> goes_by name it \<Longrightarrow>
    ed_walks s raw img it path res \<Longrightarrow> ed_walks s raw img ent (name # path) res"

text \<open>The search of the code in a listing.\<close>

lemma find_entry_goes_by:
  "find_entry name es = None \<longleftrightarrow> (\<forall>it \<in> set es. \<not> goes_by name it)"
  "\<forall>x \<in> set before. \<not> goes_by name x \<Longrightarrow> goes_by name it \<Longrightarrow> find_entry name (before @ it # rest) = Some it"
  "find_entry name es = Some it \<Longrightarrow> \<exists>before rest. es = before @ it # rest \<and> (\<forall>x \<in> set before. \<not> goes_by name x) \<and> goes_by name it"
proof -
  have g: "(\<lambda>it. en_longName it = name \<or> en_shortName it = name) = goes_by name" by (auto simp: goes_by_def)
  show "find_entry name es = None \<longleftrightarrow> (\<forall>it \<in> set es. \<not> goes_by name it)"
    unfolding find_entry_def g by (auto simp: find_None_iff)
  show "\<forall>x \<in> set before. \<not> goes_by name x \<Longrightarrow> goes_by name it \<Longrightarrow> find_entry name (before @ it # rest) = Some it"
    unfolding find_entry_def g by (induction before) auto
  show "find_entry name es = Some it \<Longrightarrow> \<exists>before rest. es = before @ it # rest \<and> (\<forall>x \<in> set before. \<not> goes_by name x) \<and> goes_by name it"
    unfolding find_entry_def g by (induction es) (auto split: if_splits, (metis append_Nil empty_iff empty_set), metis append_Cons set_ConsD)
qed

lemma walks_missing:
  "en_isDirectory ent \<Longrightarrow> dir_lists s raw img (en_firstCluster ent) es n \<Longrightarrow> find_entry name es = None \<Longrightarrow>
    ed_walks s raw img ent (name # path) (Missing name)"
  by (blast intro: ed_walks.missing dest: find_entry_goes_by(1) [THEN iffD1])

lemma walks_into:
  assumes "en_isDirectory ent" "dir_lists s raw img (en_firstCluster ent) es n" "find_entry name es = Some it" "ed_walks s raw img it path res"
  shows "ed_walks s raw img ent (name # path) res"
proof -
  obtain before rest where "es = before @ it # rest" "\<forall>x \<in> set before. \<not> goes_by name x" "goes_by name it"
    using find_entry_goes_by(3) [OF assms(3)] by blast
  then show ?thesis using assms(1,2,4) by (blast intro: ed_walks.into)
qed

text \<open>The messages for the user.\<close>

fun lookup_error :: "bytes \<Rightarrow> lookup \<Rightarrow> bytes" where
  "lookup_error args (Found ent) = []"
| "lookup_error args (Missing name) = name @ text_bytes '': no such file or directory'' @ [10]"
| "lookup_error args Not_directory = args @ text_bytes '': component is not a directory'' @ [10]"

fun lookup_result :: "lookup \<Rightarrow> DirEntry option" where
  "lookup_result (Found ent) = Some ent"
| "lookup_result _ = None"

context reliable_posix
begin

lemma only_read_volume_of: "only_read st st' \<Longrightarrow> edit_volume inode bytes_of st' = edit_volume inode bytes_of st"
  unfolding image_eq [symmetric] by (rule only_read_volume)

lemma only_read_cerr: "only_read st st' \<Longrightarrow> only_read (st\<lparr>ed_cerr := x\<rparr>) (st'\<lparr>ed_cerr := x\<rparr>)"
proof -
  assume "only_read st st'"
  then obtain s' where "st' = st\<lparr>ed_sys := s'\<rparr>" "same_files (ed_sys st) s'" "bytes_of s' = bytes_of (ed_sys st)"
    "pos s' = pos (ed_sys st)" by (auto simp: only_read_def)
  then show "only_read (st\<lparr>ed_cerr := x\<rparr>) (st'\<lparr>ed_cerr := x\<rparr>)"
    unfolding only_read_def by (intro exI [of _ s']) simp
qed

text \<open>A computation that only reads, prints \<^verbatim>\<open>msg\<close> to the error output and returns \<^verbatim>\<open>r\<close>.\<close>

definition answers :: "'a Edit \<Rightarrow> ((exn + 'b) \<times> 'a Edit) option \<Rightarrow> bytes \<Rightarrow> 'b \<Rightarrow> bool" where
  "answers st run msg r \<longleftrightarrow> (\<exists>st'. run = Some (Inr r, st') \<and> only_read (st\<lparr>ed_cerr := ed_cerr st @ msg\<rparr>) st')"

lemma answers_only_read: "only_read st st1 \<Longrightarrow> answers st1 run msg r \<Longrightarrow> answers st run msg r"
  unfolding answers_def using only_read_simps(6) [of st st1] only_read_trans [OF only_read_cerr [of st st1]]
  by metis

lemma answers_error: "only_read st st1 \<Longrightarrow>
    answers st (io_bind (ed_error msg) (\<lambda>_. io_return r) st1) (msg @ [10]) r"
  using only_read_cerr [of st st1] only_read_simps(6) [of st st1]
  by (auto simp: answers_def ed_error_def io_bind_def io_simps)

lemma find_loop:
  assumes "ed_walks s raw img ent path res" "edit_volume inode bytes_of st"
    and "s = ed_super st" "raw = ed_fatRaw st" "img = image_of inode bytes_of st"
  shows "answers st (FindFile_loop P args ent path st) (lookup_error args res) (lookup_result res)"
  using assms
proof (induction ent path res arbitrary: st rule: ed_walks.induct)
  case (here ent)
  then show ?case by (simp add: answers_def io_simps)
next
  case (not_directory ent name path)
  then show ?case using answers_error [OF only_read_refl] by (simp flip: append_assoc)
next
  case (missing ent es n name path)
  obtain st1 where s: "ScanDirectory P (FileReader_new (en_firstCluster ent) 0xFFFFFFFF) st = Some (Inr (Some (es, n)), st1)"
    "only_read st st1" using scan_directory missing by blast
  then show ?case using missing find_entry_goes_by(1) [of name es] answers_error [OF s(2)]
    by (simp add: io_bind_def [of "ScanDirectory P (FileReader_new (en_firstCluster ent) 0xFFFFFFFF)"] flip: append_assoc)
next
  case (into ent before it rest n name path res)
  obtain st1 where s: "ScanDirectory P (FileReader_new (en_firstCluster ent) 0xFFFFFFFF) st = Some (Inr (Some (before @ it # rest, n)), st1)"
    "only_read st st1" using scan_directory into by blast
  have "answers st1 (FindFile_loop P args it path st1) (lookup_error args res) (lookup_result res)"
    using into only_read_simps [OF s(2)] only_read_volume_of [OF s(2)] by (simp flip: image_eq)
  from answers_only_read [OF s(2) this] show ?case using into s(1) find_entry_goes_by(2) [OF into.hyps(3,4)]
    by (simp add: io_bind_def [of "ScanDirectory P (FileReader_new (en_firstCluster ent) 0xFFFFFFFF)"])
qed

lemma find_file:
  assumes "edit_volume inode bytes_of st"
    and "ed_walks (ed_super st) (ed_fatRaw st) (image_of inode bytes_of st) (root_entry (ed_super st)) (SplitPath args) res"
  shows "answers st (FindFile P args st) (lookup_error args res) (lookup_result res)"
  using find_loop [OF assms(2,1) refl refl refl] by (simp add: FindFile_def io_bind_def io_simps)

lemma answers_same_volume:
  assumes "answers st run msg r"
  shows "\<exists>st'. run = Some (Inr r, st') \<and> same_volume inode bytes_of st st' \<and>
    ed_cout st' = ed_cout st \<and> ed_cerr st' = ed_cerr st @ msg"
proof -
  obtain st' where st': "run = Some (Inr r, st')" "only_read (st\<lparr>ed_cerr := ed_cerr st @ msg\<rparr>) st'"
    using assms by (auto simp: answers_def)
  then show ?thesis using only_read_same_volume [OF st'(2)] only_read_simps [OF st'(2)]
    by (auto simp: same_volume_def image_of_def)
qed

end

text \<open>
  C15. The editor resolves a path as a walk through the directories of the volume. The path is the
  sequence of the non-empty runs of characters other than slashes and backslashes (\<^verbatim>\<open>runs\<close>), and the
  walk (\<^verbatim>\<open>ed_walks\<close>) starts at the root directory. Every component leads to the first of the files that
  the current directory lists (\<^verbatim>\<open>dir_lists\<close>) whose long name or whose short name it is.
  \<^verbatim>\<open>FindFile\<close> returns the entry at the end of the walk; it returns nothing and prints which name is
  missing, or that a component is not a directory, when the walk ends early. The volume is not changed.
\<close>

theorem FindFile_walks:
  assumes "reliable_posix P inode bytes_of pos opened names patience"
    and "edit_volume inode bytes_of st"
    and "root = \<lparr>en_shortName = [], en_longName = [], en_size = 0, en_firstCluster = FatSuper_RootDirIndex (ed_super st),
      en_isDirectory = True\<rparr>"
    and "ed_walks (ed_super st) (ed_fatRaw st) (image_of inode bytes_of st) root (runs path_sep [] args) res"
  shows "\<exists>st'. FindFile P args st = Some (Inr (lookup_result res), st') \<and> same_volume inode bytes_of st st' \<and>
    ed_cout st' = ed_cout st \<and> ed_cerr st' = ed_cerr st @ lookup_error args res"
proof -
  have "root = root_entry (ed_super st)" using assms(3) by (simp add: root_entry_def)
  then have "ed_walks (ed_super st) (ed_fatRaw st) (image_of inode bytes_of st) (root_entry (ed_super st)) (SplitPath args) res"
    using assms(4) by (simp add: SplitPath_runs)
  from reliable_posix.answers_same_volume [OF assms(1) reliable_posix.find_file [OF assms(1,2) this]] show ?thesis .
qed

subsection \<open>The commands that only read\<close>

text \<open>A line of the listing.\<close>

definition listing_line :: "DirEntry \<Rightarrow> bytes" where
  "listing_line it = en_longName it @ text_bytes '' ('' @ en_shortName it @ text_bytes ''), '' @
     number_text (unat (en_size it)) @ (if en_isDirectory it then text_bytes '', directory'' else []) @ [10]"

lemma ListDirectory_print_lines:
  "ListDirectory_print es st = Some (Inr (), st\<lparr>ed_cout := ed_cout st @ concat (map listing_line es)\<rparr>)"
proof (induction es arbitrary: st)
  case (Cons it es)
  show ?case
    by (simp add: ed_print_def io_bind_def io_simps Cons.IH listing_line_def)
qed (simp add: io_simps)

context reliable_posix
begin

text \<open>A computation that only reads, with \<^verbatim>\<open>out\<close> and \<^verbatim>\<open>msg\<close> printed.\<close>

definition prints :: "'a Edit \<Rightarrow> ((exn + unit) \<times> 'a Edit) option \<Rightarrow> bytes \<Rightarrow> bytes \<Rightarrow> bool" where
  "prints st run out msg \<longleftrightarrow> (\<exists>st'. run = Some (Inr (), st') \<and>
     only_read (st\<lparr>ed_cout := ed_cout st @ out, ed_cerr := ed_cerr st @ msg\<rparr>) st')"

lemma dump_file:
  assumes vol: "edit_volume inode bytes_of st"
    and path: "ed_walks (ed_super st) (ed_fatRaw st) (image_of inode bytes_of st) (root_entry (ed_super st)) (SplitPath args) (Found ent)"
    and ent: "\<not> en_isDirectory ent" "is_chain (ed_super st) (ed_fatRaw st) cs" "of_nat (hd cs) = en_firstCluster ent"
  shows "prints st (DumpFile P args st)
    (take (unat (en_size ent)) (chain_data (ed_super st) (image_of inode bytes_of st) cs)) []"
proof -
  let ?rd = "FileReader_new (en_firstCluster ent) (en_size ent)"
  let ?d = "take (unat (en_size ent)) (chain_data (ed_super st) (image_of inode bytes_of st) cs)"
  obtain st1 where f: "FindFile P args st = Some (Inr (Some ent), st1)" "only_read st st1"
    using find_file [OF vol path] by (auto simp: answers_def)
  note same = only_read_simps [OF f(2)]
  have "ed_reader st cs ?rd ?d" unfolding ed_reader_def image_eq ent(3) [symmetric] using ent(2) by (rule reader_at_new)
  then have "ed_volume st1" "ed_chain st1 cs" "ed_reader st1 cs ?rd ?d"
    using vol ent(2) only_read_volume [OF f(2)] by (auto simp: image_eq ed_chain_def)
  then obtain st' where d: "DumpFile_loop P ?rd st1 = Some (Inr (), st')" "only_read (st1\<lparr>ed_cout := ed_cout st1 @ ?d\<rparr>) st'"
    using DumpFile_loop_correct by blast
  have "only_read (st\<lparr>ed_cout := ed_cout st @ ?d\<rparr>) st'"
    using only_read_trans [OF only_read_then_print [OF f(2)]] d(2) same(5) by metis
  then show ?thesis using f(1) d(1) ent(1) by (simp add: prints_def DumpFile_def io_bind_def)
qed

lemma list_directory:
  assumes vol: "edit_volume inode bytes_of st"
    and path: "ed_walks (ed_super st) (ed_fatRaw st) (image_of inode bytes_of st) (root_entry (ed_super st)) (SplitPath args) (Found ent)"
    and ent: "en_isDirectory ent" "dir_lists (ed_super st) (ed_fatRaw st) (image_of inode bytes_of st) (en_firstCluster ent) es n"
  shows "prints st (ListDirectory P args st) (concat (map listing_line es)) []"
proof -
  obtain st1 where f: "FindFile P args st = Some (Inr (Some ent), st1)" "only_read st st1"
    using find_file [OF vol path] by (auto simp: answers_def)
  have "edit_volume inode bytes_of st1" "dir_lists (ed_super st1) (ed_fatRaw st1) (image_of inode bytes_of st1) (en_firstCluster ent) es n"
    using vol ent(2) only_read_volume_of [OF f(2)] only_read_simps [OF f(2)] by (simp_all flip: image_eq)
  then obtain st2 where s: "ScanDirectory P (FileReader_new (en_firstCluster ent) 0xFFFFFFFF) st1 = Some (Inr (Some (es, n)), st2)"
    "only_read st1 st2" using scan_directory by blast
  note st2 = only_read_trans [OF f(2) s(2)]
  show ?thesis using f(1) s(1) ent(1) only_read_then_print [OF st2] only_read_simps(5) [OF st2]
    by (simp add: prints_def ListDirectory_def io_bind_def ListDirectory_print_lines)
qed

text \<open>A path that leads nowhere: both commands print why and nothing else.\<close>

lemma path_error:
  assumes vol: "edit_volume inode bytes_of st"
    and path: "ed_walks (ed_super st) (ed_fatRaw st) (image_of inode bytes_of st) (root_entry (ed_super st)) (SplitPath args) res"
    and none: "lookup_result res = None"
  shows "prints st (DumpFile P args st) [] (lookup_error args res)"
    "prints st (ListDirectory P args st) [] (lookup_error args res)"
proof -
  obtain st1 where f: "FindFile P args st = Some (Inr None, st1)" "only_read (st\<lparr>ed_cerr := ed_cerr st @ lookup_error args res\<rparr>) st1"
    using find_file [OF vol path] none by (auto simp: answers_def)
  then show "prints st (DumpFile P args st) [] (lookup_error args res)"
    "prints st (ListDirectory P args st) [] (lookup_error args res)"
    by (simp_all add: prints_def DumpFile_def ListDirectory_def io_bind_def io_simps)
qed

lemma prints_same_volume:
  assumes "prints st run out msg"
  shows "\<exists>st'. run = Some (Inr (), st') \<and> same_volume inode bytes_of st st' \<and>
    ed_cout st' = ed_cout st @ out \<and> ed_cerr st' = ed_cerr st @ msg"
proof -
  obtain st' where st': "run = Some (Inr (), st')" "only_read (st\<lparr>ed_cout := ed_cout st @ out, ed_cerr := ed_cerr st @ msg\<rparr>) st'"
    using assms by (auto simp: prints_def)
  then show ?thesis using only_read_same_volume [OF st'(2)] only_read_simps [OF st'(2)]
    by (auto simp: same_volume_def image_of_def)
qed

end

text \<open>
  C19. The command \<^verbatim>\<open>type\<close> prints the file behind a path. When the walk
  along the components of the argument ends at a file whose clusters form a chain of the table, the
  command prints the first bytes of the chain, as many as the entry says, to the standard output
  and nothing else, whatever transfers of the host are short or interrupted, and changes nothing.
\<close>

theorem type_command_prints:
  assumes "reliable_posix P inode bytes_of pos opened names patience"
    and "edit_volume inode bytes_of st"
    and "ed_walks (ed_super st) (ed_fatRaw st) (image_of inode bytes_of st) (root_entry (ed_super st)) (SplitPath args) (Found ent)"
    and "\<not> en_isDirectory ent" "is_chain (ed_super st) (ed_fatRaw st) cs" "of_nat (hd cs) = en_firstCluster ent"
  shows "\<exists>st'. DumpFile P args st = Some (Inr (), st') \<and> same_volume inode bytes_of st st' \<and>
    ed_cout st' = ed_cout st @ take (unat (en_size ent)) (chain_data (ed_super st) (image_of inode bytes_of st) cs) \<and>
    ed_cerr st' = ed_cerr st @ []"
  using reliable_posix.prints_same_volume [OF assms(1) reliable_posix.dump_file [OF assms]] .

text \<open>
  The command \<^verbatim>\<open>dir\<close> prints the listing of the directory behind a
  path: one line for every file of the directory in its order, with the long name, the short name, the size in
  decimal and a mark for directories. It changes nothing.
\<close>

theorem dir_command_lists:
  assumes "reliable_posix P inode bytes_of pos opened names patience"
    and "edit_volume inode bytes_of st"
    and "ed_walks (ed_super st) (ed_fatRaw st) (image_of inode bytes_of st) (root_entry (ed_super st)) (SplitPath args) (Found ent)"
    and "en_isDirectory ent" "dir_lists (ed_super st) (ed_fatRaw st) (image_of inode bytes_of st) (en_firstCluster ent) es n"
  shows "\<exists>st'. ListDirectory P args st = Some (Inr (), st') \<and> same_volume inode bytes_of st st' \<and>
    ed_cout st' = ed_cout st @ concat (map listing_line es) \<and> ed_cerr st' = ed_cerr st @ []"
  using reliable_posix.prints_same_volume [OF assms(1) reliable_posix.list_directory [OF assms]] .

subsection \<open>Paths in the example\<close>

lemma dir_root: "root_entry (ed_super (small_state dir_sys 3)) =
    \<lparr>en_shortName = [], en_longName = [], en_size = 0, en_firstCluster = 2, en_isDirectory = True\<rparr>"
proof -
  have "FatSuper_RootDirIndex small_super = 2" by code_simp
  then show ?thesis by (simp add: small_state_def root_entry_def)
qed

lemma dir_lists_root:
  "dir_lists (ed_super (small_state dir_sys 3)) (ed_fatRaw (small_state dir_sys 3))
     (image_of ref_inode ref_data (small_state dir_sys 3)) 2 [hello_file] 96"
  using root_lists by (simp add: small_state_def)

text \<open>The file is found by its long name; another name is missing, and the file is not a directory.\<close>

lemma dir_walks:
  "ed_walks (ed_super (small_state dir_sys 3)) (ed_fatRaw (small_state dir_sys 3))
     (image_of ref_inode ref_data (small_state dir_sys 3)) (root_entry (ed_super (small_state dir_sys 3)))
     [text_bytes ''hello.txt''] (Found hello_file)"
  "ed_walks (ed_super (small_state dir_sys 3)) (ed_fatRaw (small_state dir_sys 3))
     (image_of ref_inode ref_data (small_state dir_sys 3)) (root_entry (ed_super (small_state dir_sys 3)))
     [text_bytes ''boot'', text_bytes ''x''] (Missing (text_bytes ''boot''))"
proof -
  have "find_entry (text_bytes ''hello.txt'') [hello_file] = Some hello_file"
    "find_entry (text_bytes ''boot'') [hello_file] = None" by code_simp+
  then show "ed_walks (ed_super (small_state dir_sys 3)) (ed_fatRaw (small_state dir_sys 3))
     (image_of ref_inode ref_data (small_state dir_sys 3)) (root_entry (ed_super (small_state dir_sys 3)))
     [text_bytes ''hello.txt''] (Found hello_file)"
    "ed_walks (ed_super (small_state dir_sys 3)) (ed_fatRaw (small_state dir_sys 3))
     (image_of ref_inode ref_data (small_state dir_sys 3)) (root_entry (ed_super (small_state dir_sys 3)))
     [text_bytes ''boot'', text_bytes ''x''] (Missing (text_bytes ''boot''))"
    using ed_walks.here walks_missing walks_into dir_lists_root dir_root by (auto intro: ed_walks.here walks_missing walks_into)
qed

theorem FindFile_walks_witness:
  "\<exists>st'. FindFile ref_posix (text_bytes ''/boot/x'') (small_state dir_sys 3) = Some (Inr None, st') \<and>
    ed_cerr st' = text_bytes ''boot: no such file or directory'' @ [10]"
proof -
  have "SplitPath (text_bytes ''/boot/x'') = [text_bytes ''boot'', text_bytes ''x'']" by code_simp
  note walk = dir_walks(2) [folded this, unfolded SplitPath_runs root_entry_def]
  have "lookup_error (text_bytes ''/boot/x'') (Missing (text_bytes ''boot'')) =
      text_bytes ''boot: no such file or directory'' @ [10]" by code_simp
  moreover have "ed_cerr (small_state dir_sys 3) = []" by (simp add: small_state_def)
  ultimately show ?thesis
    using FindFile_walks [OF ref.reliable_posix_axioms dir_edit_volume refl walk] by auto
qed

theorem type_command_prints_witness:
  "\<exists>st'. DumpFile ref_posix (text_bytes ''hello.txt'') (small_state dir_sys 3) = Some (Inr (), st') \<and>
    ed_cout st' = replicate 1000 7"
proof -
  have path: "SplitPath (text_bytes ''hello.txt'') = [text_bytes ''hello.txt'']" by code_simp
  have s: "ed_super (small_state dir_sys 3) = small_super" "ed_fatRaw (small_state dir_sys 3) = small_fat"
    "ed_cout (small_state dir_sys 3) = []" by (simp_all add: small_state_def)
  have data: "chain_data small_super (image_of ref_inode ref_data (small_state dir_sys 3)) [3, 5] = replicate 1024 7"
    unfolding dir_image hello_item_bytes
    by (simp add: chain_data_def cluster_data_def subbytes_def cluster_size_def cluster_pos_def small_super_geometry
        hello_lengths flip: replicate_add)
  have "\<not> en_isDirectory hello_file" "of_nat (hd [3, 5]) = en_firstCluster hello_file" "unat (en_size hello_file) = 1000"
    by (simp_all add: hello_file_def)
  then show ?thesis
    using type_command_prints [OF ref.reliable_posix_axioms dir_edit_volume, of "text_bytes ''hello.txt''" hello_file "[3, 5]"]
      dir_walks(1) small_chain unfolding path s data by auto
qed

theorem dir_command_lists_witness:
  "\<exists>st'. ListDirectory ref_posix [] (small_state dir_sys 3) = Some (Inr (), st') \<and>
    ed_cout st' = text_bytes ''hello.txt (HELLO.TXT), 1000'' @ [10]"
proof -
  let ?st = "small_state dir_sys 3"
  have path: "SplitPath [] = []" by code_simp
  have walk: "ed_walks (ed_super ?st) (ed_fatRaw ?st) (image_of ref_inode ref_data ?st) (root_entry (ed_super ?st))
      (SplitPath []) (Found (root_entry (ed_super ?st)))" unfolding path by (rule ed_walks.here)
  have line: "concat (map listing_line [hello_file]) = text_bytes ''hello.txt (HELLO.TXT), 1000'' @ [10]" by code_simp
  show ?thesis
    using dir_command_lists [OF ref.reliable_posix_axioms dir_edit_volume walk _ , of "[hello_file]" 96] dir_lists_root
    unfolding line by (auto simp: dir_root) (auto simp: small_state_def)
qed

end
