(* ===== verification/Fat_Edit_Pack.thy ===== *)
theory Fat_Edit_Pack
  imports Fat_Edit_Walk
begin

text \<open>
  New files in a directory of the editor: a writer is placed behind the last entry, the entry of
  the file and an end mark are appended, and the directory then lists one more file. A directory
  whose entries fill its clusters cannot be extended. The command \<^verbatim>\<open>pack\<close> as a whole.
\<close>

subsection \<open>The position behind the last entry\<close>

definition dir_index :: "FatSuper \<Rightarrow> nat \<Rightarrow> nat" where
  "dir_index s n = (n - 1) div cluster_size s"

lemma dir_index_bounds:
  "dir_index s n * cluster_size s \<le> n - 1"
  "0 < cluster_size s \<Longrightarrow> n - dir_index s n * cluster_size s \<le> cluster_size s"
  "0 < cluster_size s \<Longrightarrow> 0 < k \<Longrightarrow> n \<le> k * cluster_size s \<Longrightarrow> dir_index s n < k"
proof -
  show "dir_index s n * cluster_size s \<le> n - 1" unfolding dir_index_def by (rule div_times_less_eq_dividend)
  show "n - dir_index s n * cluster_size s \<le> cluster_size s" if "0 < cluster_size s"
    using dividend_less_div_times [OF that, of "n - 1"] unfolding dir_index_def by linarith
  show "dir_index s n < k" if "0 < cluster_size s" "0 < k" "n \<le> k * cluster_size s"
  proof -
    have "n - 1 < k * cluster_size s" using that by (cases n) simp_all
    then show ?thesis unfolding dir_index_def by (simp add: div_less_iff_less_mult [OF that(1)])
  qed
qed

definition not_terminated :: exn where
  "not_terminated = Runtime_error (text_bytes ''Cluster chain not properly termminated'')"

lemma chain_data_length:
  assumes "volume s raw img" "is_chain s raw cs"
  shows "length (chain_data s img cs) = length cs * cluster_size s"
  unfolding chain_data_def using assms volume_cluster(2) [OF assms(1)]
  by (subst length_concat_same [of _ "cluster_size s"]) (auto simp: is_chain_def)

lemma seek_correct:
  assumes "is_chain s raw cs" "geometry s raw" "cluster_size s < 2 ^ 32" "n < 2 ^ 32" "n \<le> length cs * cluster_size s"
    and "ed_fatRaw st = raw" "i \<le> dir_index s n"
  shows "FileWriter_seek (cluster_size s) (of_nat (cs ! i)) (of_nat (n - i * cluster_size s)) st =
    Some (Inr (of_nat (cs ! dir_index s n), of_nat (n - dir_index s n * cluster_size s)), st)"
  using assms(7)
proof (induction "dir_index s n - i" arbitrary: i rule: less_induct)
  case less
  let ?c = "cluster_size s" and ?j = "dir_index s n"
  have c: "0 < ?c" using assms(2) by (rule cluster_size_pos)
  have sz: "unat (of_nat (n - i * ?c) :: u32) = n - i * ?c" using assms(4) by (intro unat_of_nat_u32) simp
  show ?case
  proof (cases "i = ?j")
    case True
    then show ?thesis using sz dir_index_bounds(2) [OF c, of n] by (subst FileWriter_seek.simps) simp
  next
    case False
    then have i: "Suc i \<le> ?j" using less.prems by simp
    then have "Suc i * ?c \<le> ?j * ?c" by (rule mult_right_mono) simp
    then have left: "Suc i * ?c \<le> n - 1" using dir_index_bounds(1) [of s n] by linarith
    have n: "0 < n" using left c by (cases n) auto
    have "0 < length cs" using assms(1) by (simp add: is_chain_def)
    then have "?j < length cs" using assms(5) by (rule dir_index_bounds(3) [OF c])
    then have len: "Suc i < length cs" using i by simp
    then have "data_cluster s (cs ! Suc i)" using assms(1) by (simp add: is_chain_def)
    note small = data_cluster_small [OF assms(2) this]
    have ent: "\<not> (of_nat (cs ! Suc i) :: u32) < 2" "\<not> 0x0FFFFFF8 \<le> (of_nat (cs ! Suc i) :: u32)"
      using small(4,5) unfolding word_le_nat_alt word_less_nat_alt by simp_all
    have "i < length cs" using len by simp
    note next_cluster = chain_step [OF assms(1,2) this]
    have "?c < n - i * ?c" using left n by simp
    then have "FileWriter_seek ?c (of_nat (cs ! i)) (of_nat (n - i * ?c)) st =
        FileWriter_seek ?c (of_nat (cs ! Suc i)) (of_nat (n - Suc i * ?c)) st"
      using ent next_cluster len assms(6) sz by (subst FileWriter_seek.simps) (simp add: diff_diff_eq add.commute)
    then show ?thesis using less.hyps [of "Suc i"] i by simp
  qed
qed

text \<open>
  The writer is placed in the cluster where the entries end; when the chain goes on behind that
  cluster, the constructor throws.
\<close>

lemma open_eq:
  assumes "volume (ed_super st) (ed_fatRaw st) img" "is_chain (ed_super st) (ed_fatRaw st) cs"
    and "n \<le> length cs * cluster_size (ed_super st)"
  defines "j \<equiv> dir_index (ed_super st) n"
  shows "FileWriter_open (of_nat (hd cs)) (of_nat n) st = Some (if Suc j < length cs then Inl not_terminated
    else Inr \<lparr>wr_cluster = of_nat (last cs), wr_offset = of_nat (n - j * cluster_size (ed_super st)),
      wr_firstCluster = of_nat (hd cs), wr_totalSize = of_nat n\<rparr>, st)"
proof -
  let ?s = "ed_super st" and ?raw = "ed_fatRaw st" and ?c = "cluster_size (ed_super st)"
  have g: "geometry ?s ?raw" using assms(1) by (simp add: volume_def)
  have c: "0 < ?c" using g by (rule cluster_size_pos)
  have ne: "cs \<noteq> []" "0x0FFFFFF8 \<le> raw_entry ?raw (last cs)" using assms(2) by (simp_all add: is_chain_def)
  have small: "?c < 2 ^ 32" using volume_cluster(3) [OF assms(1) is_chain_last(2) [OF assms(2)]] by linarith
  have n: "n < 2 ^ 32" using assms(3) chain_fits [OF assms(1,2)] by linarith
  have "0 < length cs" using ne by simp
  then have j: "j < length cs" unfolding j_def using assms(3) by (rule dir_index_bounds(3) [OF c])
  have seek: "FileWriter_seek ?c (of_nat (hd cs)) (of_nat n) st = Some (Inr (of_nat (cs ! j), of_nat (n - j * ?c)), st)"
    using seek_correct [OF assms(2) g small n assms(3) refl, of 0] ne by (simp add: j_def hd_conv_nth)
  note step = chain_step [OF assms(2) g j]
  show ?thesis
  proof (cases "Suc j < length cs")
    case True
    then have "data_cluster ?s (cs ! Suc j)" using assms(2) by (simp add: is_chain_def)
    from data_cluster_small(5) [OF g this] have "(of_nat (cs ! Suc j) :: u32) < 0x0FFFFFF8"
      unfolding word_less_nat_alt by simp
    then show ?thesis using True seek step
      by (simp add: FileWriter_open_def io_bind_def io_simps BytesPerCluster_eq not_terminated_def)
  next
    case False
    then have "j = length cs - 1" using j by simp
    then have "cs ! j = last cs" using ne by (simp add: last_conv_nth)
    then show ?thesis using False seek step ne(2)
      by (simp add: FileWriter_open_def io_bind_def io_simps BytesPerCluster_eq not_less)
  qed
qed

lemma chain_data_last:
  assumes "volume s raw img" "is_chain s raw cs"
  shows "chain_data s img cs = chain_data s img (butlast cs) @ cluster_data s img (last cs)"
    "length (chain_data s img (butlast cs)) = (length cs - 1) * cluster_size s"
proof -
  show "chain_data s img cs = chain_data s img (butlast cs) @ cluster_data s img (last cs)"
    using is_chain_last(1) [OF assms(2)] unfolding chain_data_def by (metis concat_append concat.simps map_append list.map append_Nil2)
  then show "length (chain_data s img (butlast cs)) = (length cs - 1) * cluster_size s"
    using chain_data_length [OF assms] volume_cluster(2) [OF assms(1) is_chain_last(2) [OF assms(2)]]
    by (simp add: diff_mult_distrib)
qed

lemma open_writer:
  assumes "volume s raw img" "is_chain s raw cs" "n \<le> length cs * cluster_size s" "\<not> Suc (dir_index s n) < length cs"
  shows "writer_at s img cs \<lparr>wr_cluster = of_nat (last cs), wr_offset = of_nat (n - dir_index s n * cluster_size s),
      wr_firstCluster = of_nat (hd cs), wr_totalSize = of_nat n\<rparr> (take n (chain_data s img cs))"
proof -
  let ?c = "cluster_size s" and ?j = "dir_index s n"
  have "geometry s raw" using assms(1) by (simp add: volume_def)
  then have c: "0 < ?c" by (rule cluster_size_pos)
  have "0 < length cs" using assms(2) by (simp add: is_chain_def)
  then have "?j < length cs" using assms(3) by (rule dir_index_bounds(3) [OF c])
  then have j: "length cs - 1 = ?j" using assms(4) by simp
  have lo: "?j * ?c \<le> n" using dir_index_bounds(1) [of s n] by linarith
  note hi = dir_index_bounds(2) [OF c, of n]
  have "?c < 2 ^ 32" using volume_cluster(3) [OF assms(1) is_chain_last(2) [OF assms(2)]] by linarith
  then have u: "unat (of_nat (n - ?j * ?c) :: u32) = n - ?j * ?c" using hi by (intro unat_of_nat_u32) simp
  note data = chain_data_last [OF assms(1,2)]
  have "length (take n (chain_data s img cs)) = n" using assms(3) chain_data_length [OF assms(1,2)] by simp
  moreover have "take n (chain_data s img cs) =
      chain_data s img (butlast cs) @ take (n - ?j * ?c) (cluster_data s img (last cs))"
    unfolding data(1) using lo data(2) j by simp
  ultimately show ?thesis using hi u by (simp add: writer_at_def)
qed

subsection \<open>Adding an entry\<close>

lemma item_entries_append: "item_entries (xs @ ys) = item_entries xs @ item_entries ys"
  by (induction xs rule: item_entries.induct) simp_all

text \<open>A chain that starts with the old entries, a new one and an end mark is a directory with one more file.\<close>

lemma dir_chain_add:
  assumes "dir_chain s raw img cs es n" "short_ok d"
    and "is_chain s raw' cs'" "take (n + 64) (chain_data s img' cs') = take n (chain_data s img cs) @ FatDirent_bytes d @ replicate 32 0"
  shows "dir_chain s raw' img' cs' (es @ [item_entry [] d]) (n + 32)"
proof -
  obtain items rest where i: "chain_data s img cs = concat (map item_bytes items) @ rest" "\<forall>i \<in> set items. item_ok i"
    "es = item_entries items" "n = length (concat (map item_bytes items))"
    using assms(1) unfolding dir_chain_def by blast
  let ?items = "items @ [Item [] d]" and ?rest = "replicate 32 0 @ drop (n + 64) (chain_data s img' cs')"
  have "chain_data s img' cs' = take (n + 64) (chain_data s img' cs') @ drop (n + 64) (chain_data s img' cs')" by simp
  also have "take n (chain_data s img cs) = concat (map item_bytes items)" unfolding i(1) i(4) by simp
  then have "take (n + 64) (chain_data s img' cs') = concat (map item_bytes ?items) @ replicate 32 0"
    unfolding assms(4) by simp
  finally have "chain_data s img' cs' = concat (map item_bytes ?items) @ ?rest" by simp
  moreover have "item_ok (Item [] d)" using assms(2) by (simp add: long_ok_def long_sequence_ok_def)
  then have "\<forall>i \<in> set ?items. item_ok i" using i(2) by auto
  moreover have "dir_end ?rest" by (simp add: dir_end_def nth_append)
  moreover have "es @ [item_entry [] d] = item_entries ?items" by (simp add: i(3) item_entries_append)
  moreover have "n + 32 = length (concat (map item_bytes ?items))"
    using assms(2) by (simp add: i(4) short_ok_def)
  ultimately show ?thesis unfolding dir_chain_def using assms(3) by blast
qed

lemma dir_chain_fits: "volume s raw img \<Longrightarrow> dir_chain s raw img cs es n \<Longrightarrow> n \<le> length cs * cluster_size s"
proof -
  assume v: "volume s raw img" and "dir_chain s raw img cs es n"
  then obtain items rest where "is_chain s raw cs" "chain_data s img cs = concat (map item_bytes items) @ rest"
    "n = length (concat (map item_bytes items))" unfolding dir_chain_def by blast
  then show ?thesis using chain_data_length [OF v, of cs] by (metis le_add1 length_append)
qed

context reliable_posix
begin

text \<open>An append behind a computation that appended already.\<close>

lemma append_after:
  assumes "run st = Some (r1, st1)" "append_result st cs new r1 st1"
  shows "\<exists>r st'. io_bind run (FileWriter_Append P d) st = Some (r, st') \<and> append_result st cs (new @ d) r st'"
proof (cases r1)
  case (Inl x)
  then show ?thesis using assms by (auto simp: io_bind_def append_result_def)
next
  case (Inr wr1)
  then obtain cs1 where e: "ed_extends st cs st1 cs1" "ed_writer st1 cs1 wr1 new"
    using assms(2) by (auto simp: append_result_def)
  then have "ed_volume st1" "ed_chain st1 cs1" by (simp_all add: ed_extends_def)
  from Append_correct [OF this e(2)] obtain r st' where "FileWriter_Append P d wr1 st1 = Some (r, st')"
    "append_result st1 cs1 (new @ d) r st'" by blast
  then show ?thesis using assms(1) Inr append_result_trans [OF e(1)] by (auto simp: io_bind_def)
qed

lemma append_twice:
  assumes "ed_volume st" "ed_chain st cs" "ed_writer st cs wr old"
  shows "\<exists>r st'. io_bind (FileWriter_Append P d wr) (FileWriter_Append P e) st = Some (r, st') \<and>
    append_result st cs (old @ d @ e) r st'"
proof -
  obtain r1 st1 where "FileWriter_Append P d wr st = Some (r1, st1)" "append_result st cs (old @ d) r1 st1"
    using Append_correct [OF assms] by blast
  from append_after [of "FileWriter_Append P d wr", OF this, of e] show ?thesis by simp
qed

lemma writer_length:
  assumes "volume s raw img" "is_chain s raw cs" "writer_at s img cs wr old"
  shows "length cs * cluster_size s \<le> length old + cluster_size s"
proof -
  have cs: "cs \<noteq> []" "\<forall>c \<in> set cs. data_cluster s c" using assms(2) by (simp_all add: is_chain_def)
  have "length (chain_data s img (butlast cs)) = length (butlast cs) * cluster_size s"
    unfolding chain_data_def using cs(2) volume_cluster(2) [OF assms(1)]
    by (subst length_concat_same [of _ "cluster_size s"]) (auto dest: in_set_butlastD)
  then have "(length cs - 1) * cluster_size s \<le> length old" using assms(3) by (simp add: writer_at_def)
  moreover have "length cs = Suc (length cs - 1)" using cs(1) by (cases cs) simp_all
  then have "length cs * cluster_size s = (length cs - 1) * cluster_size s + cluster_size s" by (metis add.commute mult_Suc)
  ultimately show ?thesis by linarith
qed

definition entry_added :: "'a Edit \<Rightarrow> nat list \<Rightarrow> DirEntry list \<Rightarrow> nat \<Rightarrow> FatDirent \<Rightarrow> exn + unit \<Rightarrow> 'a Edit \<Rightarrow> bool" where
  "entry_added st cs es n d r st' \<longleftrightarrow> (\<exists>cs'. ed_extends st cs st' cs' \<and>
     (case r of Inl e \<Rightarrow> e = no_space \<and> no_free_cluster st'
      | Inr _ \<Rightarrow> dir_chain (ed_super st) (ed_fatRaw st') (image st') cs' (es @ [item_entry [] d]) (n + 32) \<and>
          n + 64 \<le> length cs' * cluster_size (ed_super st) \<and>
          (n + 64 < length cs * cluster_size (ed_super st) \<longrightarrow> cs' = cs)))"

lemma add_entry:
  assumes vol: "ed_volume st" and dir: "dir_chain (ed_super st) (ed_fatRaw st) (image st) cs es n"
    and d: "d = dirent_for isDir name fc sz" "short_ok d"
    and room: "\<not> Suc (dir_index (ed_super st) n) < length cs"
  shows "\<exists>r st'. AppendDirectoryEntry P (of_nat (hd cs)) n isDir name fc sz st = Some (r, st') \<and> entry_added st cs es n d r st'"
proof -
  let ?s = "ed_super st" and ?old = "take n (chain_data (ed_super st) (image st) cs)"
  let ?wr = "\<lparr>wr_cluster = of_nat (last cs), wr_offset = of_nat (n - dir_index ?s n * cluster_size ?s),
      wr_firstCluster = of_nat (hd cs), wr_totalSize = of_nat n\<rparr>"
  have v: "volume ?s (ed_fatRaw st) (image st)" using vol by (simp add: ed_volume_def)
  have c: "is_chain ?s (ed_fatRaw st) cs" using dir by (auto simp: dir_chain_def)
  note fits = dir_chain_fits [OF v dir]
  have "ed_writer st cs ?wr ?old" unfolding ed_writer_def using open_writer [OF v c fits room] .
  moreover have "ed_chain st cs" using c by (simp add: ed_chain_def)
  ultimately obtain r st' where a: "io_bind (FileWriter_Append P (FatDirent_bytes d) ?wr) (FileWriter_Append P (replicate 32 0)) st = Some (r, st')"
    "append_result st cs (?old @ FatDirent_bytes d @ replicate 32 0) r st'"
    using append_twice [OF vol] by blast
  obtain cs' where e: "ed_extends st cs st' cs'"
    "case r of Inr wr' \<Rightarrow> ed_writer st' cs' wr' (?old @ FatDirent_bytes d @ replicate 32 0)
      | Inl e \<Rightarrow> e = no_space \<and> (\<forall>k < cluster_total (ed_super st'). raw_entry (ed_fatRaw st') k \<noteq> 0)"
    using a(2) by (auto simp: append_result_def)
  have s': "ed_super st' = ?s" "volume ?s (ed_fatRaw st') (image st')" "is_chain ?s (ed_fatRaw st') cs'"
    using e(1) by (auto simp: ed_extends_def wrote_def ed_volume_def ed_chain_def)
  have run: "AppendDirectoryEntry P (of_nat (hd cs)) n isDir name fc sz st =
      io_bind (io_bind (FileWriter_Append P (FatDirent_bytes d) ?wr) (FileWriter_Append P (replicate 32 0)))
        (\<lambda>_. io_return ()) st"
    using open_eq [OF v c fits] room
    by (simp add: AppendDirectoryEntry_def d(1) Let_def io_bind_def [of "FileWriter_open _ _"] io_bind_assoc)
  show ?thesis
  proof (cases r)
    case (Inl x)
    then show ?thesis using run a(1) e by (auto simp: io_bind_def [of _ "\<lambda>_. io_return ()"] entry_added_def no_free_cluster_def)
  next
    case (Inr wr')
    have "length ?old = n" using fits chain_data_length [OF v c] by simp
    moreover have "FatDirent_wf d" using d(2) by (simp add: short_ok_def)
    ultimately have len: "length (?old @ FatDirent_bytes d @ replicate 32 0) = n + 64" by simp
    have "writer_at ?s (image st') cs' wr' (?old @ FatDirent_bytes d @ replicate 32 0)"
      using e(2) Inr s'(1) by (simp add: ed_writer_def)
    from writer_file(2) [OF s'(2,3) this, unfolded len]
    have "take (n + 64) (chain_data ?s (image st') cs') = ?old @ FatDirent_bytes d @ replicate 32 0" .
    note taken = this
    then have "length (take (n + 64) (chain_data ?s (image st') cs')) = n + 64" using len by simp
    then have "n + 64 \<le> length (chain_data ?s (image st') cs')" by simp
    then have "n + 64 \<le> length cs' * cluster_size ?s" using chain_data_length [OF s'(2,3)] by simp
    moreover have "cs' = cs" if "n + 64 < length cs * cluster_size ?s"
    proof -
      obtain new where new: "cs' = cs @ new" using e(1) by (auto simp: ed_extends_def extends_def)
      have "length cs' * cluster_size ?s \<le> n + 64 + cluster_size ?s"
        using writer_length [OF s'(2,3) \<open>writer_at _ _ cs' wr' _\<close>] len by simp
      then show ?thesis using that new by (cases new) (simp_all add: algebra_simps)
    qed
    ultimately show ?thesis
      using dir_chain_add [OF dir d(2) s'(3) taken] run a(1) e(1) Inr by (auto simp: io_bind_def [of _ "\<lambda>_. io_return ()"] io_return_def entry_added_def)
  qed
qed

text \<open>When the entries end in front of the last cluster, nothing can be added.\<close>

lemma no_entry_added:
  assumes vol: "ed_volume st" and dir: "dir_chain (ed_super st) (ed_fatRaw st) (image st) cs es n"
    and full: "Suc (dir_index (ed_super st) n) < length cs"
  shows "AppendDirectoryEntry P (of_nat (hd cs)) n isDir name fc sz st = Some (Inl not_terminated, st)"
proof -
  have v: "volume (ed_super st) (ed_fatRaw st) (image st)" using vol by (simp add: ed_volume_def)
  have c: "is_chain (ed_super st) (ed_fatRaw st) cs" using dir by (auto simp: dir_chain_def)
  show ?thesis using open_eq [OF v c dir_chain_fits [OF v dir]] full
    by (simp add: AppendDirectoryEntry_def Let_def io_bind_def [of "FileWriter_open _ _"])
qed

end

subsection \<open>The entry of a new file\<close>

text \<open>
  A name that survives being stored: 8.3, no part starts or ends with a blank, and short enough for
  the buffer of \<^verbatim>\<open>ScanDirectory\<close>.
\<close>

definition storable :: "bytes \<Rightarrow> bool" where
  "storable name \<longleftrightarrow> length name < 12 \<and> (\<exists>base ext. name = short_name base ext \<and> grammar_8_3 base ext \<and>
     no_blank_end base \<and> base ! 0 \<noteq> 32 \<and> (\<forall>x. ext = Some x \<longrightarrow> no_blank_end x \<and> x ! 0 \<noteq> 32))"

lemma storable_zero: "storable name \<Longrightarrow> 0 \<notin> set name"
  using grammar_8_3_nonzero by (auto simp: storable_def)

lemma storable_short: "storable name \<Longrightarrow> IsShortName (cstr name)"
proof -
  assume s: "storable name"
  then obtain base ext where "name = short_name base ext" "grammar_8_3 base ext" by (auto simp: storable_def)
  moreover have "cstr (cstr name) = name" using storable_zero [OF s] by (simp add: cstr_id)
  ultimately show ?thesis unfolding IsShortName_iff_grammar by metis
qed

lemma dirent_for_eq:
  assumes "grammar_8_3 base ext"
  shows "dirent_for isDir (short_name base ext) fc sz =
    (let d = FatDirent_SetClusterIndex (set_short_name FatDirent_new base ext) fc
     in if isDir then FatDirent_SetEntryFlags d Flags_Directory else FatDirent_SetSize d (of_nat sz))"
proof -
  have "0 \<notin> set base" "46 \<notin> set base" and e: "\<And>x. ext = Some x \<Longrightarrow> 0 \<notin> set x"
    using assms valid_char_nonzero by (auto simp: grammar_8_3_def)
  moreover have "count_while (\<lambda>c. c \<noteq> 46) (base @ 46 # x) = length base" for x
    using \<open>46 \<notin> set base\<close> by (induction base) auto
  ultimately show ?thesis
    by (cases ext) (simp_all add: dirent_for_def set_short_name_def short_name_def cstr_id Let_def FlagField_Set_def)
qed

lemma dirent_for_item:
  assumes "storable name"
  shows "short_ok (dirent_for isDir name fc sz)"
    "item_entry [] (dirent_for isDir name fc sz) = \<lparr>en_shortName = name, en_longName = name,
       en_size = (if isDir then 0 else of_nat sz), en_firstCluster = fc, en_isDirectory = isDir\<rparr>"
proof -
  obtain base ext where n: "name = short_name base ext" "grammar_8_3 base ext" "no_blank_end base" "base ! 0 \<noteq> 32"
    "\<And>x. ext = Some x \<Longrightarrow> no_blank_end x \<and> x ! 0 \<noteq> 32" and len: "length name < 12"
    using assms unfolding storable_def by blast
  let ?e = "set_short_name FatDirent_new base ext"
  let ?d = "dirent_for isDir name fc sz"
  note d = dirent_for_eq [OF n(2), folded n(1), of isDir fc sz]
  have f: "de_name ?d = de_name ?e" "de_extension ?d = de_extension ?e"
    unfolding d by (simp_all add: Let_def FatDirent_setters)
  have "dirent_name ?d = dirent_name ?e" unfolding dirent_name_def f ..
  then have name: "dirent_name ?d = name" "de_name ?d = de_name ?e"
    using dirent_name_set_short_name [OF n(2,3,5)] n(1) f by simp_all
  have wf: "FatDirent_wf ?d" by (simp add: d Let_def FatDirent_setters_wf set_short_name_wf)
  have base: "base \<noteq> []" "0 \<notin> set base" "length base \<le> 8" "valid_chars base"
    using n(2) valid_char_nonzero by (auto simp: grammar_8_3_def)
  then have at: "name_At ?d 0 = base ! 0" "base ! 0 \<in> set base"
    using name(2) by (auto simp: name_At_def FixedLengthString_At_def set_short_name_def FatDirent_setters
        FixedLengthString_Set_short nth_append split: option.splits)
  have "\<not> IsValidFatChar (char_int 0xE5)" by (simp add: IsValidFatChar_def char_int_def)
  then have first: "base ! 0 \<noteq> 0xE5" "base ! 0 \<noteq> 0" using at(2) base(2,4) unfolding valid_chars_def by metis+
  have flags: "FatDirent_EntryFlags ?d = (if isDir then Flags_Directory else 0)"
    by (auto simp: d Let_def FatDirent_EntryFlags_def FatDirent_setters set_short_name_def FatDirent_new_def split: option.splits)
  have set: "\<not> FlagField_IsSet (FatDirent_EntryFlags ?d) Flags_LongFileName"
    "FlagField_IsSet (FatDirent_EntryFlags ?d) Flags_Directory = isDir"
    unfolding flags by (simp_all add: FlagField_IsSet_def Flags_Directory_def Flags_LongFileName_def)
  show "short_ok ?d"
    using wf at first n(4) name(1) storable_zero [OF assms] len set(1) by (simp add: short_ok_def)
  have size: "FatDirent_Size ?d = (if isDir then 0 else of_nat sz)"
    by (simp add: d Let_def Size_Set)
      (auto simp: FatDirent_Size_def FatDirent_setters set_short_name_def FatDirent_new_def split: option.splits)
  have "FatDirent_ClusterIndex (FatDirent_SetEntryFlags x f) = FatDirent_ClusterIndex x"
    "FatDirent_ClusterIndex (FatDirent_SetSize x k) = FatDirent_ClusterIndex x" for x f k
    by (simp_all add: FatDirent_ClusterIndex_def FatDirent_setters)
  then have "FatDirent_ClusterIndex ?d = fc" by (simp add: d Let_def ClusterIndex_Set)
  then show "item_entry [] ?d = \<lparr>en_shortName = name, en_longName = name,
       en_size = (if isDir then 0 else of_nat sz), en_firstCluster = fc, en_isDirectory = isDir\<rparr>"
    using name(1) size set(2) by (simp add: item_entry_def)
qed

subsection \<open>The parent of a path\<close>

lemma runs_words: "\<forall>c \<in> set cur. \<not> sep c \<Longrightarrow> w \<in> set (runs sep cur s) \<Longrightarrow> w \<noteq> [] \<and> (\<forall>c \<in> set w. \<not> sep c)"
proof (induction s arbitrary: cur)
  case (Cons c s)
  show ?case
  proof (cases "sep c")
    case True
    then have "w \<in> set (runs sep [] s) \<or> w = cur \<and> cur \<noteq> []" using Cons.prems(2) by (auto split: if_splits)
    then show ?thesis using Cons.IH [of "[]"] Cons.prems(1) by (elim disjE) simp_all
  next
    case False
    then have "w \<in> set (runs sep (cur @ [c]) s)" using Cons.prems(2) by simp
    then show ?thesis by (rule Cons.IH [rotated]) (use Cons.prems(1) False in simp)
  qed
qed (auto split: if_splits)

lemma SplitPath_join:
  "\<forall>w \<in> set ws. w \<noteq> [] \<and> (\<forall>c \<in> set w. \<not> path_sep c) \<Longrightarrow> SplitPath (join_path ws) = ws"
proof (induction ws rule: join_path.induct)
  case (2 x)
  then show ?case using runs_chars [of x path_sep "[]" "[]"] by (simp add: SplitPath_runs)
next
  case (3 x y rest)
  then have "runs path_sep [] (join_path (y # rest)) = y # rest" by (simp add: SplitPath_runs)
  then show ?case using 3(2) runs_chars [of x path_sep "[]" "47 # join_path (y # rest)"]
    by (simp add: SplitPath_runs path_sep_def)
qed (simp add: SplitPath_runs)

lemma SplitPath_parent: "SplitPath (join_path (butlast (SplitPath args))) = butlast (SplitPath args)"
  using runs_words [of "[]" path_sep _ args] by (intro SplitPath_join ballI) (auto simp: SplitPath_runs dest!: in_set_butlastD)

subsection \<open>The command pack\<close>

inductive_cases ed_walks_NilE: "ed_walks s raw img ent [] res"

text \<open>A chain of other clusters is not touched by an extension.\<close>

lemma extends_other_chain:
  assumes e: "extends s raw img a raw' img' a'" and c: "is_chain s raw cs" and g: "geometry s raw" and d: "set cs \<inter> set a = {}"
  shows "set cs \<inter> set a' = {}" "is_chain s raw' cs" "chain_data s img' cs = chain_data s img cs"
proof -
  obtain new where new: "a' = a @ new" "\<forall>x \<in> set new. raw_entry raw x = 0" using e by (auto simp: extends_def)
  then show disj: "set cs \<inter> set a' = {}" using chain_entry_nonzero [OF c g] d by auto
  have kept: "raw_entry raw' x = raw_entry raw x" "data_cluster s x \<Longrightarrow> cluster_data s img' x = cluster_data s img x"
    if "x \<in> set cs" for x using e disj that by (auto simp: extends_def)
  have "raw_entry raw' (cs ! i) = raw_entry raw (cs ! i)" if "Suc i < length cs" for i using kept(1) that by simp
  moreover have "raw_entry raw' (last cs) = raw_entry raw (last cs)" using kept(1) c by (simp add: is_chain_def)
  ultimately show "is_chain s raw' cs" using c by (simp add: is_chain_def)
  show "chain_data s img' cs = chain_data s img cs" using kept(2) c by (intro chain_data_cong) (auto simp: is_chain_def)
qed

lemma dir_chain_cong:
  "dir_chain s raw img cs es n \<Longrightarrow> is_chain s raw' cs \<Longrightarrow> chain_data s img' cs = chain_data s img cs \<Longrightarrow>
    dir_chain s raw' img' cs es n"
  by (auto simp: dir_chain_def)

definition file_entry :: "bytes \<Rightarrow> u32 \<Rightarrow> nat \<Rightarrow> DirEntry" where
  "file_entry name c sz = \<lparr>en_shortName = name, en_longName = name, en_size = of_nat sz, en_firstCluster = c,
     en_isDirectory = False\<rparr>"

text \<open>
  A directory after an entry was added: it lists one more file, and every other chain is as before.
  A file has a chain of fresh clusters that holds its contents.
\<close>

definition added :: "FatSuper \<Rightarrow> bytes \<Rightarrow> bytes \<Rightarrow> nat list \<Rightarrow> DirEntry list \<Rightarrow> nat \<Rightarrow> DirEntry \<Rightarrow> bytes \<Rightarrow> bytes \<Rightarrow> bool" where
  "added s raw img dcs es n ent raw' img' \<longleftrightarrow>
     (\<exists>dcs'. hd dcs' = hd dcs \<and> dir_chain s raw' img' dcs' (es @ [ent]) (n + 32) \<and>
        (n + 64 < length dcs * cluster_size s \<longrightarrow> dcs' = dcs)) \<and>
     (\<forall>ocs. is_chain s raw ocs \<longrightarrow> set ocs \<inter> set dcs = {} \<longrightarrow>
        is_chain s raw' ocs \<and> chain_data s img' ocs = chain_data s img ocs)"

definition file_added :: "FatSuper \<Rightarrow> bytes \<Rightarrow> bytes \<Rightarrow> nat list \<Rightarrow> DirEntry list \<Rightarrow> nat \<Rightarrow> bytes \<Rightarrow> bytes \<Rightarrow>
    bytes \<Rightarrow> bytes \<Rightarrow> nat list \<Rightarrow> bool" where
  "file_added s raw img dcs es n name contents raw' img' cs \<longleftrightarrow>
     added s raw img dcs es n (file_entry name (of_nat (hd cs)) (length contents)) raw' img' \<and>
     is_chain s raw' cs \<and> set cs \<inter> set dcs = {} \<and>
     take (length contents) (chain_data s img' cs) = contents \<and> length contents < 2 ^ 32"

text \<open>The file to be packed on the host, and the place for it in the volume.\<close>

definition pack_target :: "FatSuper \<Rightarrow> bytes \<Rightarrow> bytes \<Rightarrow> bytes list \<Rightarrow> nat list \<Rightarrow> DirEntry list \<Rightarrow> nat \<Rightarrow> bool" where
  "pack_target s raw img path dcs es n \<longleftrightarrow> path \<noteq> [] \<and> storable (last path) \<and>
     (\<exists>parent. ed_walks s raw img (root_entry s) (butlast path) (Found parent) \<and> en_isDirectory parent \<and>
        of_nat (hd dcs) = en_firstCluster parent) \<and>
     dir_chain s raw img dcs es n \<and> \<not> Suc (dir_index s n) < length dcs \<and>
     (\<forall>it \<in> set es. en_shortName it \<noteq> last path \<and> en_longName it \<noteq> last path)"

context reliable_posix
begin

text \<open>What the editor leaves alone on the host: names, open descriptors, and every file but the image.\<close>

definition host_kept :: "'a Edit \<Rightarrow> 'a Edit \<Rightarrow> bool" where
  "host_kept st st' \<longleftrightarrow> ed_file st' = ed_file st \<and> names (ed_sys st') = names (ed_sys st) \<and> opened (ed_sys st) \<subseteq> opened (ed_sys st') \<and>
     inode (ed_sys st') (ed_file st') = inode (ed_sys st) (ed_file st) \<and>
     (\<forall>i. i \<noteq> inode (ed_sys st) (ed_file st) \<longrightarrow> bytes_of (ed_sys st') i = bytes_of (ed_sys st) i)"

lemma host_kept_refl [simp]: "host_kept st st"
  by (simp add: host_kept_def)

lemma host_kept_trans: "host_kept a b \<Longrightarrow> host_kept b c \<Longrightarrow> host_kept a c"
  by (auto simp: host_kept_def)

lemma host_kept_steps:
  "kept a b \<Longrightarrow> host_kept a b" "wrote a b \<Longrightarrow> host_kept a b" "only_read a b \<Longrightarrow> host_kept a b" "host_kept a (a\<lparr>ed_cout := x\<rparr>)"
  by (auto simp: host_kept_def kept_def wrote_def only_read_def same_files_def)

lemma find_parent:
  assumes "edit_volume inode bytes_of st" "path = SplitPath args"
    and "ed_walks (ed_super st) (ed_fatRaw st) (image_of inode bytes_of st) (root_entry (ed_super st)) (butlast path) (Found parent)"
    and "en_isDirectory parent"
  shows "answers st (FindParent P path st) [] (Some parent)"
proof (cases "length path > 1")
  case True
  have "answers st (FindFile P (join_path (butlast path)) st) [] (Some parent)"
    using find_file [OF assms(1), of "join_path (butlast path)" "Found parent"] assms(2,3) by (simp add: SplitPath_parent)
  then show ?thesis using True assms(4)
    by (auto simp: answers_def FindParent_def Let_def io_bind_def [of "FindFile _ _"] io_simps)
next
  case False
  then have "butlast path = []" by (cases path) auto
  then have "parent = root_entry (ed_super st)" using assms(3) by (auto elim: ed_walks_NilE)
  then show ?thesis using False by (simp add: answers_def FindParent_def io_bind_def io_simps)
qed

lemma check_entry:
  assumes "edit_volume inode bytes_of st" "dir_lists (ed_super st) (ed_fatRaw st) (image_of inode bytes_of st) c es n"
    and "\<forall>it \<in> set es. en_shortName it \<noteq> name \<and> en_longName it \<noteq> name"
  shows "answers st (CheckEntryNotInDir P c name st) [] (Some n)"
  using scan_directory [OF assms(1,2)] assms(3)
  by (auto simp: answers_def CheckEntryNotInDir_def io_bind_def [of "ScanDirectory _ _"] io_simps)

text \<open>Opening another file changes nothing for the editor.\<close>

lemma open_input:
  assumes "names (ed_sys st) path = Some i" "ed_file st \<in> opened (ed_sys st)"
  shows "\<exists>fd st'. ed_call (File_open P path True) st = Some (Inr fd, st') \<and> image st' = image st \<and>
    ed_super st' = ed_super st \<and> ed_fatRaw st' = ed_fatRaw st \<and> ed_cout st' = ed_cout st \<and> ed_file st' = ed_file st \<and>
    inode (ed_sys st') fd = i \<and> inode (ed_sys st') (ed_file st') = inode (ed_sys st) (ed_file st) \<and> host_kept st st' \<and>
    drop (pos (ed_sys st') fd) (bytes_of (ed_sys st') (inode (ed_sys st') fd)) = bytes_of (ed_sys st) i"
proof -
  obtain fd s' where o: "File_open P path True (ed_sys st) = Some (Inr fd, s')" "inode s' fd = i" "pos s' fd = 0"
    "\<forall>f \<in> opened (ed_sys st). inode s' f = inode (ed_sys st) f" "bytes_of s' = bytes_of (ed_sys st)"
    "opened s' = insert fd (opened (ed_sys st))" "names s' = names (ed_sys st)"
    using open_named [OF assms(1), of True] by blast
  then show ?thesis using assms(2)
    by (intro exI [of _ fd] exI [of _ "st\<lparr>ed_sys := s'\<rparr>"]) (auto simp: ed_call_def image_def content_def host_kept_def)
qed

end

text \<open>The two extensions that \<^verbatim>\<open>pack\<close> makes: fresh clusters for the file, then those of the directory.\<close>

lemma added_by:
  assumes v: "volume s raw img" and dir: "dir_chain s raw img dcs es n"
    and e1: "extends s raw img [] raw1 img1 cs" and v1: "volume s raw1 img1" and c1: "is_chain s raw1 cs"
    and e2: "extends s raw1 img1 dcs raw2 img2 dcs'" and dir2: "dir_chain s raw2 img2 dcs' (es @ [ent]) (n + 32)"
    and same: "n + 64 < length dcs * cluster_size s \<Longrightarrow> dcs' = dcs"
  shows "added s raw img dcs es n ent raw2 img2" "is_chain s raw2 cs" "chain_data s img2 cs = chain_data s img1 cs"
    "set cs \<inter> set dcs = {}"
proof -
  have g: "geometry s raw" "geometry s raw1" using v v1 by (simp_all add: volume_def)
  have d: "is_chain s raw dcs" using dir by (auto simp: dir_chain_def)
  note first = extends_other_chain [OF e1 _ g(1), simplified] and second = extends_other_chain [OF e2 _ g(2)]
  have "set cs \<inter> set dcs = {}" using first(1) [OF d] by auto
  from second(2,3) [OF c1 this] this show "is_chain s raw2 cs" "chain_data s img2 cs = chain_data s img1 cs"
    "set cs \<inter> set dcs = {}" .
  obtain new where "dcs' = dcs @ new" using e2 by (auto simp: extends_def)
  then have "hd dcs' = hd dcs" using d by (simp add: is_chain_def)
  moreover have "is_chain s raw2 ocs \<and> chain_data s img2 ocs = chain_data s img ocs"
    if "is_chain s raw ocs" "set ocs \<inter> set dcs = {}" for ocs
    using first(2,3) [OF that(1)] second(2,3) [of ocs] that(2) by simp
  ultimately show "added s raw img dcs es n ent raw2 img2"
    unfolding added_def using dir2 same by blast
qed

lemma file_added_by:
  assumes v1: "volume s raw1 img1" and c1: "is_chain s raw1 cs" "take (length contents) (chain_data s img1 cs) = contents"
    and a: "added s raw img dcs es n (file_entry name (of_nat (hd cs)) (length contents)) raw2 img2" "is_chain s raw2 cs"
      "chain_data s img2 cs = chain_data s img1 cs" "set cs \<inter> set dcs = {}"
  shows "file_added s raw img dcs es n name contents raw2 img2 cs"
proof -
  have "length contents \<le> length (chain_data s img1 cs)" using c1(2) by (metis linear take_all_iff length_take min_def)
  then have "length contents < 2 ^ 32" using chain_bytes_fit [OF v1 c1(1)] by linarith
  then show ?thesis using a c1(2) by (simp add: file_added_def)
qed

context reliable_posix
begin

definition pack_body :: "int \<Rightarrow> bytes \<Rightarrow> nat list \<Rightarrow> nat \<Rightarrow> bytes \<Rightarrow> ('a Edit, unit) io" where
  "pack_body infile msg dcs n name =
     io_bind FileWriter_create (\<lambda>wr. io_bind (PackDirectory_loop P infile wr) (\<lambda>wr1. io_bind (ed_print msg) (\<lambda>_.
       AppendDirectoryEntry P (of_nat (hd dcs)) n False name (wr_firstCluster wr1) (unat (wr_totalSize wr1)))))"

lemma pack_body_correct:
  assumes vol: "ed_volume st" and dir: "dir_chain (ed_super st) (ed_fatRaw st) (image st) dcs es n"
    and room: "\<not> Suc (dir_index (ed_super st) n) < length dcs" and name: "storable name"
    and infile: "inode (ed_sys st) infile \<noteq> inode (ed_sys st) (ed_file st)"
    and contents: "contents = drop (pos (ed_sys st) infile) (bytes_of (ed_sys st) (inode (ed_sys st) infile))"
  shows "\<exists>r st'. pack_body infile msg dcs n name st = Some (r, st') \<and> ed_volume st' \<and> host_kept st st' \<and>
    (case r of Inl e \<Rightarrow> e = no_space \<and> no_free_cluster st'
     | Inr _ \<Rightarrow> ed_super st' = ed_super st \<and> ed_cout st' = ed_cout st @ msg \<and>
         (\<exists>cs. file_added (ed_super st) (ed_fatRaw st) (image st) dcs es n name contents (ed_fatRaw st') (image st') cs))"
proof -
  let ?s = "ed_super st"
  have v: "volume ?s (ed_fatRaw st) (image st)" using vol by (simp add: ed_volume_def)
  obtain r1 st1 where p: "io_bind FileWriter_create (PackDirectory_loop P infile) st = Some (r1, st1)"
    "case r1 of Inl e \<Rightarrow> e = no_space \<and> no_free_cluster st1 \<and> (st1 = st \<or> (\<exists>cs. copies st [] st1 cs))
     | Inr wr \<Rightarrow> \<exists>cs. copies st [] st1 cs \<and> ed_writer st1 cs wr contents"
    using pack_chain [OF vol [unfolded image_eq] infile contents] by blast
  have run: "pack_body infile msg dcs n name st = io_bind (io_bind FileWriter_create (PackDirectory_loop P infile)) (\<lambda>wr1.
      io_bind (ed_print msg) (\<lambda>_. AppendDirectoryEntry P (of_nat (hd dcs)) n False name (wr_firstCluster wr1) (unat (wr_totalSize wr1)))) st"
    by (simp add: pack_body_def io_bind_assoc)
  show ?thesis
  proof (cases r1)
    case (Inl e)
    then show ?thesis using p vol by (auto simp: run io_bind_def [of "io_bind _ _"] copies_def host_kept_steps)
  next
    case (Inr wr)
    then obtain cs where c: "copies st [] st1 cs" "ed_writer st1 cs wr contents" using p(2) by auto
    let ?st2 = "st1\<lparr>ed_cout := ed_cout st1 @ msg\<rparr>"
    have "image ?st2 = image st1" by (simp add: image_def)
    moreover have e1: "extends ?s (ed_fatRaw st) (image st) [] (ed_fatRaw st1) (image st1) cs"
      using c(1) by (simp add: copies_def)
    ultimately have same: "ed_super st1 = ?s" "ed_cout st1 = ed_cout st" "image ?st2 = image st1" "ed_volume st1" "ed_chain st1 cs"
      using c(1) by (simp_all add: copies_def kept_def)
    then have v1: "volume ?s (ed_fatRaw st1) (image st1)" "is_chain ?s (ed_fatRaw st1) cs" and vol2: "ed_volume ?st2"
      by (simp_all add: ed_volume_def ed_chain_def)
    have super2: "ed_super ?st2 = ?s" using same(1) by simp
    note w = writer_file [OF v1 c(2) [unfolded ed_writer_def same(1)]]
    have g: "geometry ?s (ed_fatRaw st)" using v by (simp add: volume_def)
    have d0: "is_chain ?s (ed_fatRaw st) dcs" using dir by (auto simp: dir_chain_def)
    have dir2: "dir_chain (ed_super ?st2) (ed_fatRaw ?st2) (image ?st2) dcs es n"
      using dir_chain_cong [OF dir] extends_other_chain(2,3) [OF e1 d0 g] same by simp
    let ?d = "dirent_for False name (wr_firstCluster wr) (unat (wr_totalSize wr))"
    note item = dirent_for_item [OF name, of False "wr_firstCluster wr" "unat (wr_totalSize wr)"]
    obtain r st' where a: "AppendDirectoryEntry P (of_nat (hd dcs)) n False name (wr_firstCluster wr) (unat (wr_totalSize wr)) ?st2 =
        Some (r, st')" "entry_added ?st2 dcs es n ?d r st'"
      using add_entry [OF vol2 dir2 refl item(1)] room same(1) by auto
    obtain dcs' where e2: "ed_extends ?st2 dcs st' dcs'"
      "case r of Inl e \<Rightarrow> e = no_space \<and> no_free_cluster st'
       | Inr _ \<Rightarrow> dir_chain ?s (ed_fatRaw st') (image st') dcs' (es @ [item_entry [] ?d]) (n + 32) \<and>
           (n + 64 < length dcs * cluster_size ?s \<longrightarrow> dcs' = dcs)"
      using a(2) unfolding entry_added_def super2 by (cases r) auto
    have "host_kept st st1" "host_kept st1 ?st2" "host_kept ?st2 st'"
      using c(1) e2(1) by (simp_all add: copies_def ed_extends_def host_kept_steps)
    then have host: "host_kept st st'" using host_kept_trans by blast
    have st': "ed_volume st'" "ed_super st' = ?s" "ed_cout st' = ed_cout st @ msg"
      "extends ?s (ed_fatRaw st1) (image st1) dcs (ed_fatRaw st') (image st') dcs'"
      using e2(1) same by (auto simp: ed_extends_def wrote_def)
    have ent: "item_entry [] ?d = file_entry name (of_nat (hd cs)) (length contents)"
      using item(2) w(1,3) by (simp add: file_entry_def)
    have "file_added ?s (ed_fatRaw st) (image st) dcs es n name contents (ed_fatRaw st') (image st') cs" if "r = Inr ()"
    proof -
      have dir': "dir_chain ?s (ed_fatRaw st') (image st') dcs' (es @ [file_entry name (of_nat (hd cs)) (length contents)]) (n + 32)"
        and same': "n + 64 < length dcs * cluster_size ?s \<Longrightarrow> dcs' = dcs" using e2(2) that unfolding ent by simp_all
      show ?thesis by (rule file_added_by [OF v1 w(2) added_by [OF v dir e1 v1 st'(4) dir' same']])
    qed
    then show ?thesis using p(1) Inr a(1) e2(2) st' host
      by (cases r) (auto simp: run io_bind_def [of "io_bind _ _"] io_bind_def [of "ed_print _"] ed_print_def io_simps)
  qed
qed

end

lemma pack_arguments:
  assumes "\<forall>c \<in> set src. \<not> isspace c" "target \<noteq> []" "\<not> isspace (hd target)"
  shows "count_while (\<lambda>c. \<not> isspace c) (src @ 32 # target) = length src"
    "count_while isspace target = 0" "isspace 32"
proof -
  show "isspace 32" by (simp add: isspace_def)
  then show "count_while (\<lambda>c. \<not> isspace c) (src @ 32 # target) = length src"
    using assms(1) by (induction src) simp_all
  show "count_while isspace target = 0" using assms(2,3) by (cases target) simp_all
qed

lemma PackDirectory_run:
  assumes "\<forall>c \<in> set src. \<not> isspace c" "target \<noteq> []" "\<not> isspace (hd target)"
    and "SplitPath target \<noteq> []" "IsShortName (cstr (last (SplitPath target)))"
  shows "PackDirectory P (src @ 32 # target) = io_bind (FindParent P (SplitPath target)) (\<lambda>r.
    case r of None \<Rightarrow> io_return () | Some parent \<Rightarrow>
      io_bind (CheckEntryNotInDir P (en_firstCluster parent) (last (SplitPath target))) (\<lambda>r.
      case r of None \<Rightarrow> io_return () | Some parentDirSize \<Rightarrow>
        io_bind (ed_call (File_open P (cstr src) True)) (\<lambda>infile.
        io_bind FileWriter_create (\<lambda>wr. io_bind (PackDirectory_loop P infile wr) (\<lambda>wr1.
        io_bind (ed_print (text_bytes ''Packed `'' @ src @ text_bytes ''`'' @ [10])) (\<lambda>_.
          AppendDirectoryEntry P (en_firstCluster parent) parentDirSize False (last (SplitPath target))
            (wr_firstCluster wr1) (unat (wr_totalSize wr1))))))))"
  using assms(4,5) by (simp add: PackDirectory_def Let_def pack_arguments [OF assms(1-3)] assms(2))

context reliable_posix
begin

text \<open>What \<^verbatim>\<open>pack\<close> and \<^verbatim>\<open>mkdir\<close> find out before they change anything.\<close>

lemma target_found:
  assumes vol: "edit_volume inode bytes_of st"
    and place: "pack_target (ed_super st) (ed_fatRaw st) (image_of inode bytes_of st) (SplitPath target) dcs es n"
  shows "\<exists>parent st1 st2. FindParent P (SplitPath target) st = Some (Inr (Some parent), st1) \<and>
    CheckEntryNotInDir P (en_firstCluster parent) (last (SplitPath target)) st1 = Some (Inr (Some n), st2) \<and>
    only_read st st2 \<and> of_nat (hd dcs) = en_firstCluster parent"
proof -
  let ?s = "ed_super st" and ?name = "last (SplitPath target)" and ?img = "image_of inode bytes_of st"
  obtain parent where path: "ed_walks ?s (ed_fatRaw st) ?img (root_entry ?s) (butlast (SplitPath target)) (Found parent)"
    "en_isDirectory parent" "of_nat (hd dcs) = en_firstCluster parent" and dir: "dir_chain ?s (ed_fatRaw st) ?img dcs es n"
    "\<forall>it \<in> set es. en_shortName it \<noteq> ?name \<and> en_longName it \<noteq> ?name"
    using place unfolding pack_target_def by blast
  obtain st1 where p: "FindParent P (SplitPath target) st = Some (Inr (Some parent), st1)" "only_read st st1"
    using find_parent [OF vol refl path(1,2)] by (auto simp: answers_def)
  have "dir_lists ?s (ed_fatRaw st) ?img (en_firstCluster parent) es n" using dir(1) path(3) by (auto simp: dir_lists_def)
  then have "answers st1 (CheckEntryNotInDir P (en_firstCluster parent) ?name st1) [] (Some n)"
    using check_entry [of st1 "en_firstCluster parent" es n ?name] vol dir(2) only_read_simps [OF p(2)] only_read_volume_of [OF p(2)]
    by (simp flip: image_eq)
  then obtain st2 where k: "CheckEntryNotInDir P (en_firstCluster parent) ?name st1 = Some (Inr (Some n), st2)" "only_read st1 st2"
    by (auto simp: answers_def)
  then show ?thesis using p path(3) only_read_trans [OF p(2) k(2)] by blast
qed

lemma pack_command:
  assumes vol: "edit_volume inode bytes_of st"
    and args: "\<forall>c \<in> set src. \<not> isspace c" "target \<noteq> []" "\<not> isspace (hd target)"
    and place: "pack_target (ed_super st) (ed_fatRaw st) (image_of inode bytes_of st) (SplitPath target) dcs es n"
    and input: "names (ed_sys st) (cstr src) = Some i" "i \<noteq> inode (ed_sys st) (ed_file st)" "ed_file st \<in> opened (ed_sys st)"
  shows "\<exists>r st'. PackDirectory P (src @ 32 # target) st = Some (r, st') \<and> edit_volume inode bytes_of st' \<and> host_kept st st' \<and>
    (case r of Inl e \<Rightarrow> e = no_space \<and> no_free_cluster st'
     | Inr _ \<Rightarrow> ed_super st' = ed_super st \<and> ed_cout st' = ed_cout st @ text_bytes ''Packed `'' @ src @ text_bytes ''`'' @ [10] \<and>
         (\<exists>cs. file_added (ed_super st) (ed_fatRaw st) (image_of inode bytes_of st) dcs es n (last (SplitPath target))
           (bytes_of (ed_sys st) i) (ed_fatRaw st') (image_of inode bytes_of st') cs))"
proof -
  let ?s = "ed_super st" and ?name = "last (SplitPath target)" and ?img = "image_of inode bytes_of st"
  let ?msg = "text_bytes ''Packed `'' @ src @ text_bytes ''`'' @ [10]"
  have path: "SplitPath target \<noteq> []" "storable ?name" and dir: "dir_chain ?s (ed_fatRaw st) ?img dcs es n"
    "\<not> Suc (dir_index ?s n) < length dcs" using place by (simp_all add: pack_target_def)
  obtain parent st1 st2 where p: "FindParent P (SplitPath target) st = Some (Inr (Some parent), st1)"
    "CheckEntryNotInDir P (en_firstCluster parent) ?name st1 = Some (Inr (Some n), st2)"
    and read: "only_read st st2" and hd: "of_nat (hd dcs) = en_firstCluster parent"
    using target_found [OF vol place] by blast
  note r2 = only_read_simps [OF read]
  have files: "same_files (ed_sys st) (ed_sys st2)" "bytes_of (ed_sys st2) = bytes_of (ed_sys st)"
    using read by (auto simp: only_read_def)
  have "names (ed_sys st2) (cstr src) = Some i" "ed_file st2 \<in> opened (ed_sys st2)"
    using input files(1) r2(4) by (auto simp: same_files_def)
  from open_input [OF this] obtain fd st3 where o: "ed_call (File_open P (cstr src) True) st2 = Some (Inr fd, st3)"
    "image st3 = image st2" "ed_super st3 = ed_super st2" "ed_fatRaw st3 = ed_fatRaw st2" "ed_cout st3 = ed_cout st2"
    "inode (ed_sys st3) fd = i" "inode (ed_sys st3) (ed_file st3) = inode (ed_sys st2) (ed_file st2)"
    "drop (pos (ed_sys st3) fd) (bytes_of (ed_sys st3) (inode (ed_sys st3) fd)) = bytes_of (ed_sys st2) i" "host_kept st2 st3" by blast
  have same: "ed_super st3 = ?s" "ed_fatRaw st3 = ed_fatRaw st" "image st3 = ?img" "ed_cout st3 = ed_cout st"
    using o(2-5) r2 by (simp_all add: image_eq)
  have vol3: "ed_volume st3" using vol same unfolding ed_volume_def edit_volume_def by simp
  have other: "inode (ed_sys st3) fd \<noteq> inode (ed_sys st3) (ed_file st3)"
    using input(2) o(6,7) files(1) r2(4) by (simp add: same_files_def)
  have dir3: "dir_chain (ed_super st3) (ed_fatRaw st3) (image st3) dcs es n" "\<not> Suc (dir_index (ed_super st3) n) < length dcs"
    using dir(1,2) same by simp_all
  have contents: "bytes_of (ed_sys st) i = drop (pos (ed_sys st3) fd) (bytes_of (ed_sys st3) (inode (ed_sys st3) fd))"
    using o(8) files(2) by simp
  obtain r st' where b: "pack_body fd ?msg dcs n ?name st3 = Some (r, st')" "ed_volume st'" "host_kept st3 st'"
    "case r of Inl e \<Rightarrow> e = no_space \<and> no_free_cluster st'
     | Inr _ \<Rightarrow> ed_super st' = ?s \<and> ed_cout st' = ed_cout st @ ?msg \<and>
         (\<exists>cs. file_added ?s (ed_fatRaw st) ?img dcs es n ?name (bytes_of (ed_sys st) i) (ed_fatRaw st') (image st') cs)"
    using pack_body_correct [OF vol3 dir3 path(2) other contents, of ?msg] unfolding same by blast
  have "PackDirectory P (src @ 32 # target) st = pack_body fd ?msg dcs n ?name st3"
    unfolding PackDirectory_run [OF args path(1) storable_short [OF path(2)]]
    using p o(1) by (simp add: io_simps pack_body_def hd)
  moreover have "host_kept st st'" using host_kept_steps(3) [OF read] o(9) b(3) host_kept_trans by blast
  ultimately show ?thesis using b unfolding image_eq by (intro exI [of _ r] exI [of _ st'] conjI) simp_all
qed

end

subsection \<open>A packed file is found and printed\<close>

text \<open>
  A walk through directories that share no cluster with \<^verbatim>\<open>X\<close>; on a sound volume no two directories
  share one. Such a walk is not affected by changes of \<^verbatim>\<open>X\<close> and of free clusters.
\<close>

inductive reaches :: "FatSuper \<Rightarrow> bytes \<Rightarrow> bytes \<Rightarrow> nat set \<Rightarrow> DirEntry \<Rightarrow> bytes list \<Rightarrow> DirEntry \<Rightarrow> bool"
  for s :: FatSuper and raw img :: bytes and X :: "nat set" where
  reached: "reaches s raw img X ent [] ent"
| down: "en_isDirectory ent \<Longrightarrow> dir_chain s raw img cs es n \<Longrightarrow> of_nat (hd cs) = en_firstCluster ent \<Longrightarrow>
    set cs \<inter> X = {} \<Longrightarrow> find_entry name es = Some it \<Longrightarrow> reaches s raw img X it path out \<Longrightarrow>
    reaches s raw img X ent (name # path) out"

lemma reaches_walks:
  "reaches s raw img X ent path out \<Longrightarrow> ed_walks s raw img out rest res \<Longrightarrow> ed_walks s raw img ent (path @ rest) res"
proof (induction rule: reaches.induct)
  case (down ent cs es n name it path out)
  then have "dir_lists s raw img (en_firstCluster ent) es n" by (auto simp: dir_lists_def)
  from walks_into [OF down.hyps(1) this down.hyps(5)] down show ?case by simp
qed simp

lemma reaches_kept:
  assumes "added s raw img dcs es n new raw' img'"
  shows "reaches s raw img (set dcs) ent path out \<Longrightarrow> reaches s raw' img' (set dcs) ent path out"
proof (induction rule: reaches.induct)
  case (down ent ocs es n name it path out)
  have "is_chain s raw ocs" using down.hyps(2) by (auto simp: dir_chain_def)
  then have "is_chain s raw' ocs" "chain_data s img' ocs = chain_data s img ocs"
    using assms down.hyps(4) by (simp_all add: added_def)
  from reaches.down [OF down.hyps(1) dir_chain_cong [OF down.hyps(2) this] down.hyps(3-5) down.IH] show ?case .
qed (rule reaches.reached)

lemma find_entry_new:
  assumes "\<forall>it \<in> set es. en_shortName it \<noteq> name \<and> en_longName it \<noteq> name" "en_shortName ent = name"
  shows "find_entry name (es @ [ent]) = Some ent"
  using assms by (induction es) (auto simp: find_entry_def)

text \<open>After an entry was added, its path leads to it.\<close>

lemma added_found:
  assumes a: "added s raw img dcs es n ent raw' img'" "en_shortName ent = name"
    and new: "\<forall>it \<in> set es. en_shortName it \<noteq> name \<and> en_longName it \<noteq> name"
    and dir: "reaches s raw img (set dcs) root path parent" "en_isDirectory parent" "of_nat (hd dcs) = en_firstCluster parent"
  shows "ed_walks s raw' img' root (path @ [name]) (Found ent)"
proof (rule reaches_walks [OF reaches_kept [OF a(1) dir(1)]])
  have "dir_lists s raw' img' (en_firstCluster parent) (es @ [ent]) (n + 32)"
    unfolding dir_lists_def using a(1) dir(3) by (auto simp: added_def)
  from walks_into [OF dir(2) this find_entry_new [OF new a(2)] ed_walks.here]
  show "ed_walks s raw' img' parent [name] (Found ent)" .
qed

text \<open>A place for a file, in a directory that is reached through other directories.\<close>

definition pack_place :: "FatSuper \<Rightarrow> bytes \<Rightarrow> bytes \<Rightarrow> bytes list \<Rightarrow> nat list \<Rightarrow> DirEntry list \<Rightarrow> nat \<Rightarrow> bool" where
  "pack_place s raw img path dcs es n \<longleftrightarrow> path \<noteq> [] \<and> storable (last path) \<and>
     (\<exists>parent. reaches s raw img (set dcs) (root_entry s) (butlast path) parent \<and> en_isDirectory parent \<and>
        of_nat (hd dcs) = en_firstCluster parent) \<and>
     dir_chain s raw img dcs es n \<and> \<not> Suc (dir_index s n) < length dcs \<and>
     (\<forall>it \<in> set es. en_shortName it \<noteq> last path \<and> en_longName it \<noteq> last path)"

lemma pack_place_target: "pack_place s raw img path dcs es n \<Longrightarrow> pack_target s raw img path dcs es n"
  using reaches_walks [OF _ ed_walks.here] unfolding pack_place_def pack_target_def by fastforce

context reliable_posix
begin

lemma pack_type:
  assumes vol: "edit_volume inode bytes_of st"
    and args: "\<forall>c \<in> set src. \<not> isspace c" "target \<noteq> []" "\<not> isspace (hd target)"
    and place: "pack_place (ed_super st) (ed_fatRaw st) (image_of inode bytes_of st) (SplitPath target) dcs es n"
    and input: "names (ed_sys st) (cstr src) = Some i" "i \<noteq> inode (ed_sys st) (ed_file st)" "ed_file st \<in> opened (ed_sys st)"
  shows "\<exists>r st'. io_bind (PackDirectory P (src @ 32 # target)) (\<lambda>_. DumpFile P target) st = Some (r, st') \<and>
    (case r of Inl e \<Rightarrow> e = no_space \<and> no_free_cluster st'
     | Inr _ \<Rightarrow> ed_cout st' = ed_cout st @ text_bytes ''Packed `'' @ src @ text_bytes ''`'' @ [10] @ bytes_of (ed_sys st) i)"
proof -
  let ?s = "ed_super st" and ?name = "last (SplitPath target)" and ?c = "bytes_of (ed_sys st) i"
  obtain r st1 where p: "PackDirectory P (src @ 32 # target) st = Some (r, st1)" "edit_volume inode bytes_of st1"
    "case r of Inl e \<Rightarrow> e = no_space \<and> no_free_cluster st1
     | Inr _ \<Rightarrow> ed_super st1 = ed_super st \<and> ed_cout st1 = ed_cout st @ text_bytes ''Packed `'' @ src @ text_bytes ''`'' @ [10] \<and>
         (\<exists>cs. file_added ?s (ed_fatRaw st) (image_of inode bytes_of st) dcs es n ?name ?c (ed_fatRaw st1) (image_of inode bytes_of st1) cs)"
    using pack_command [OF vol args pack_place_target [OF place] input] by blast
  show ?thesis
  proof (cases r)
    case (Inl e)
    then show ?thesis using p by (auto simp: io_bind_def)
  next
    case (Inr u)
    then obtain cs where st1: "ed_super st1 = ?s" "ed_cout st1 = ed_cout st @ text_bytes ''Packed `'' @ src @ text_bytes ''`'' @ [10]"
      "file_added ?s (ed_fatRaw st) (image_of inode bytes_of st) dcs es n ?name ?c (ed_fatRaw st1) (image_of inode bytes_of st1) cs"
      using p(3) by auto
    let ?ent = "file_entry ?name (of_nat (hd cs)) (length ?c)"
    have path: "butlast (SplitPath target) @ [?name] = SplitPath target" using place by (simp add: pack_place_def)
    obtain parent where parent: "reaches ?s (ed_fatRaw st) (image_of inode bytes_of st) (set dcs) (root_entry ?s) (butlast (SplitPath target)) parent"
      "en_isDirectory parent" "of_nat (hd dcs) = en_firstCluster parent"
      and new: "\<forall>it \<in> set es. en_shortName it \<noteq> ?name \<and> en_longName it \<noteq> ?name"
      using place unfolding pack_place_def by blast
    have walk: "ed_walks (ed_super st1) (ed_fatRaw st1) (image_of inode bytes_of st1) (root_entry (ed_super st1)) (SplitPath target) (Found ?ent)"
      using added_found [OF _ _ new parent] st1(3) unfolding st1(1) by (metis DirEntry.select_convs(1) file_added_def file_entry_def path)
    have ent: "\<not> en_isDirectory ?ent" "is_chain (ed_super st1) (ed_fatRaw st1) cs" "of_nat (hd cs) = en_firstCluster ?ent"
      "unat (en_size ?ent) = length ?c" "take (length ?c) (chain_data (ed_super st1) (image_of inode bytes_of st1) cs) = ?c"
      using st1(1,3) by (simp_all add: file_entry_def file_added_def unat_of_nat_u32)
    from prints_same_volume [OF dump_file [OF p(2) walk ent(1-3)]] obtain st' where
      "DumpFile P target st1 = Some (Inr (), st')" "ed_cout st' = ed_cout st1 @ ?c" unfolding ent(4,5) by blast
    then show ?thesis using p(1) Inr st1(2) by (simp add: io_bind_def)
  qed
qed

text \<open>Once the entries fill the clusters of a directory, no other one can be added.\<close>

lemma full_directory:
  assumes vol: "ed_volume st" and dir: "dir_chain (ed_super st) (ed_fatRaw st) (image st) dcs es n"
    and name: "storable name" and full: "n + 32 = length dcs * cluster_size (ed_super st)"
    and big: "32 < cluster_size (ed_super st)"
  shows "\<exists>r st'. AppendDirectoryEntry P (of_nat (hd dcs)) n isDir name fc sz st = Some (r, st') \<and>
    (case r of Inl e \<Rightarrow> e = no_space
     | Inr _ \<Rightarrow> AppendDirectoryEntry P (of_nat (hd dcs)) (n + 32) isDir2 name2 fc2 sz2 st' = Some (Inl not_terminated, st'))"
proof -
  let ?s = "ed_super st" and ?c = "cluster_size (ed_super st)"
  have v: "volume ?s (ed_fatRaw st) (image st)" using vol by (simp add: ed_volume_def)
  have d0: "dcs \<noteq> []" using dir by (auto simp: dir_chain_def is_chain_def)
  have pos: "0 < ?c" using big by simp
  have split: "length dcs * ?c = (length dcs - 1) * ?c + ?c" using d0 by (cases dcs) simp_all
  have idx: "dir_index ?s m = length dcs - 1" if "(length dcs - 1) * ?c < m" "m \<le> length dcs * ?c" for m
    unfolding dir_index_def by (rule div_nat_eqI) (use that split pos in \<open>simp_all add: mult.commute\<close>)
  then have room: "dir_index ?s n = length dcs - 1" "dir_index ?s (n + 32) = length dcs - 1"
    using full big split by simp_all
  have fit: "\<not> Suc (dir_index ?s n) < length dcs" using room(1) d0 by (cases dcs) simp_all
  note item = dirent_for_item [OF name, of isDir fc sz]
  obtain r st' where a: "AppendDirectoryEntry P (of_nat (hd dcs)) n isDir name fc sz st = Some (r, st')"
    "entry_added st dcs es n (dirent_for isDir name fc sz) r st'"
    using add_entry [OF vol dir refl item(1) fit] by blast
  show ?thesis
  proof (cases r)
    case (Inl e)
    then show ?thesis using a by (auto simp: entry_added_def)
  next
    case (Inr u)
    obtain dcs' es' where e: "ed_extends st dcs st' dcs'" "dir_chain ?s (ed_fatRaw st') (image st') dcs' es' (n + 32)"
      "n + 64 \<le> length dcs' * ?c" using a(2) Inr by (auto simp: entry_added_def)
    have st': "ed_volume st'" "ed_super st' = ?s" using e(1) by (auto simp: ed_extends_def wrote_def)
    obtain new where "dcs' = dcs @ new" using e(1) by (auto simp: ed_extends_def extends_def)
    then have hd: "hd dcs' = hd dcs" using d0 by simp
    have "length dcs * ?c < length dcs' * ?c" using e(3) full by linarith
    then have "length dcs < length dcs'" by simp
    then have "Suc (dir_index ?s (n + 32)) < length dcs'" using room(2) d0 by simp
    from no_entry_added [OF st'(1), unfolded st'(2), OF e(2) this, unfolded hd] show ?thesis using a(1) Inr by auto
  qed
qed

end

text \<open>
  C11. The command \<^verbatim>\<open>pack\<close> adds a file to a directory of the volume. When the parent of the target
  is a directory with room behind its last entry, the name is an 8.3 name of fewer than 12 characters that is not in it, and the
  input can be opened, the command either throws that no cluster is free, with every cluster
  allocated and the volume still sound, or reports success: then the parent
  lists one more file, behind the others, under the name and with the size of the input; a chain of the
  table holds the bytes of the input; and every chain that shares no cluster with the parent is
  linked as before and has the same data.
\<close>

theorem pack_command_stores:
  assumes "reliable_posix P inode bytes_of pos opened names patience"
    and "edit_volume inode bytes_of st"
    and "\<forall>c \<in> set src. \<not> isspace c" "target \<noteq> []" "\<not> isspace (hd target)"
    and "pack_target (ed_super st) (ed_fatRaw st) (image_of inode bytes_of st) (SplitPath target) dcs es n"
    and "names (ed_sys st) (cstr src) = Some i" "i \<noteq> inode (ed_sys st) (ed_file st)" "ed_file st \<in> opened (ed_sys st)"
  shows "\<exists>r st'. PackDirectory P (src @ 32 # target) st = Some (r, st') \<and> edit_volume inode bytes_of st' \<and>
    (case r of Inl e \<Rightarrow> e = no_space \<and> no_free_cluster st'
     | Inr _ \<Rightarrow> ed_super st' = ed_super st \<and> ed_cout st' = ed_cout st @ text_bytes ''Packed `'' @ src @ text_bytes ''`'' @ [10] \<and>
         (\<exists>cs. file_added (ed_super st) (ed_fatRaw st) (image_of inode bytes_of st) dcs es n (last (SplitPath target))
           (bytes_of (ed_sys st) i) (ed_fatRaw st') (image_of inode bytes_of st') cs))"
  using reliable_posix.pack_command [OF assms] by blast

text \<open>
  C9. What \<^verbatim>\<open>pack\<close> stores under a path, \<^verbatim>\<open>type\<close> prints for that path. On a volume whose directories
  share no clusters, packing a file of the host under a new 8.3 name (of fewer than 12 characters with
  the dot, more do not fit into the buffer of the scan) into a directory with room for an entry, followed by the command \<^verbatim>\<open>type\<close> for the same path, prints
  the message of \<^verbatim>\<open>pack\<close> and then the bytes of the input; the only failure is a full volume.
\<close>

theorem pack_then_type:
  assumes "reliable_posix P inode bytes_of pos opened names patience"
    and "edit_volume inode bytes_of st"
    and "\<forall>c \<in> set src. \<not> isspace c" "target \<noteq> []" "\<not> isspace (hd target)"
    and "pack_place (ed_super st) (ed_fatRaw st) (image_of inode bytes_of st) (SplitPath target) dcs es n"
    and "names (ed_sys st) (cstr src) = Some i" "i \<noteq> inode (ed_sys st) (ed_file st)" "ed_file st \<in> opened (ed_sys st)"
  shows "\<exists>r st'. io_bind (PackDirectory P (src @ 32 # target)) (\<lambda>_. DumpFile P target) st = Some (r, st') \<and>
    (case r of Inl e \<Rightarrow> e = no_space \<and> no_free_cluster st'
     | Inr _ \<Rightarrow> ed_cout st' = ed_cout st @ text_bytes ''Packed `'' @ src @ text_bytes ''`'' @ [10] @ bytes_of (ed_sys st) i)"
  using assms by (rule reliable_posix.pack_type)

text \<open>
  C16. A directory whose entries fill its clusters exactly accepts no further entry. After an entry
  was added that ends with the last cluster, the end mark behind it is in a new cluster; every later
  attempt to add an entry throws, because the writer is placed in the cluster where the entries end,
  and the chain goes on behind it.
\<close>

theorem full_directory_refuses:
  assumes "reliable_posix P inode bytes_of pos opened names patience"
    and "edit_volume inode bytes_of st"
    and "dir_chain (ed_super st) (ed_fatRaw st) (image_of inode bytes_of st) dcs es n"
    and "storable name" "n + 32 = length dcs * cluster_size (ed_super st)" "32 < cluster_size (ed_super st)"
  shows "\<exists>r st'. AppendDirectoryEntry P (of_nat (hd dcs)) n isDir name fc sz st = Some (r, st') \<and>
    (case r of Inl e \<Rightarrow> e = no_space
     | Inr _ \<Rightarrow> AppendDirectoryEntry P (of_nat (hd dcs)) (n + 32) isDir2 name2 fc2 sz2 st' = Some (Inl not_terminated, st'))"
  using reliable_posix.full_directory [OF assms(1)] assms(2-) reliable_posix.image_eq [OF assms(1)] by metis

subsection \<open>Packing in the example\<close>

text \<open>The example directory with an input of 600 bytes on the host.\<close>

definition pack_sys :: refsys where
  "pack_sys = dir_sys\<lparr>ref_names := (\<lambda>p. if p = text_bytes ''in'' then Some 1 else None),
     ref_data := (ref_data dir_sys)(1 := replicate 600 65)\<rparr>"

lemma pack_sys_simps:
  "ref_names pack_sys (text_bytes ''in'') = Some 1" "ref_inode pack_sys 3 = 0" "3 < ref_next pack_sys"
  "ref_data pack_sys 1 = replicate 600 65"
  by (simp_all add: pack_sys_def dir_sys_def small_sys_def)

lemma pack_image: "image_of ref_inode ref_data (small_state pack_sys 3) = image_of ref_inode ref_data (small_state dir_sys 3)"
  by (simp add: image_of_def small_state_def pack_sys_def dir_sys_def small_sys_def)

lemma pack_edit_volume: "edit_volume ref_inode ref_data (small_state pack_sys 3)"
  using dir_edit_volume unfolding edit_volume_def pack_image by (simp add: small_state_def)

lemma pack_place_example:
  "pack_place small_super small_fat (image_of ref_inode ref_data (small_state dir_sys 3))
     (SplitPath (text_bytes ''/BOOT.CFG'')) [2] [hello_file] 96"
proof -
  have path: "SplitPath (text_bytes ''/BOOT.CFG'') = [text_bytes ''BOOT.CFG'']" by code_simp
  have "text_bytes ''BOOT.CFG'' = short_name (text_bytes ''BOOT'') (Some (text_bytes ''CFG''))"
    "grammar_8_3 (text_bytes ''BOOT'') (Some (text_bytes ''CFG''))" "no_blank_end (text_bytes ''BOOT'')"
    "no_blank_end (text_bytes ''CFG'')" "text_bytes ''BOOT'' ! 0 \<noteq> 32" "text_bytes ''CFG'' ! 0 \<noteq> 32"
    "length (text_bytes ''BOOT.CFG'') < 12"
    by code_simp+
  then have "storable (text_bytes ''BOOT.CFG'')" unfolding storable_def by blast
  moreover have "text_bytes ''HELLO.TXT'' \<noteq> text_bytes ''BOOT.CFG''" "text_bytes ''hello.txt'' \<noteq> text_bytes ''BOOT.CFG''"
    by code_simp+
  moreover have "FatSuper_RootDirIndex small_super = 2" by code_simp
  ultimately show ?thesis
    unfolding pack_place_def path using root_dir_chain
    by (auto simp: root_entry_def hello_file_def dir_index_def intro!: exI [of _ "root_entry small_super"] reaches.reached)
qed

lemma pack_line:
  "text_bytes ''in /BOOT.CFG'' = text_bytes ''in'' @ 32 # text_bytes ''/BOOT.CFG''"
  "\<forall>c \<in> set (text_bytes ''in''). \<not> isspace c" "text_bytes ''/BOOT.CFG'' \<noteq> []" "\<not> isspace (hd (text_bytes ''/BOOT.CFG''))"
  "text_bytes ''Packed `in`'' @ [10] = text_bytes ''Packed `'' @ text_bytes ''in'' @ text_bytes ''`'' @ [10]"
  "cstr (text_bytes ''in'') = text_bytes ''in''"
  by code_simp+

lemma pack_state:
  "ed_super (small_state pack_sys 3) = small_super" "ed_fatRaw (small_state pack_sys 3) = small_fat"
  "ed_sys (small_state pack_sys 3) = pack_sys" "ed_file (small_state pack_sys 3) = 3" "ed_cout (small_state pack_sys 3) = []"
  by (simp_all add: small_state_def)

theorem pack_command_stores_witness:
  "\<exists>r st'. PackDirectory ref_posix (text_bytes ''in /BOOT.CFG'') (small_state pack_sys 3) = Some (r, st') \<and>
    edit_volume ref_inode ref_data st' \<and> (r = Inr () \<longrightarrow> ed_cout st' = text_bytes ''Packed `in`'' @ [10])"
  using pack_command_stores [OF ref.reliable_posix_axioms pack_edit_volume pack_line(2-4), of "[2]" "[hello_file]" 96 1]
    pack_place_target [OF pack_place_example] pack_sys_simps
  unfolding pack_line(1,5,6) pack_state pack_image by auto

theorem pack_then_type_witness:
  "\<exists>r st'. io_bind (PackDirectory ref_posix (text_bytes ''in /BOOT.CFG'')) (\<lambda>_. DumpFile ref_posix (text_bytes ''/BOOT.CFG''))
      (small_state pack_sys 3) = Some (r, st') \<and>
    (r = Inr () \<longrightarrow> ed_cout st' = text_bytes ''Packed `'' @ text_bytes ''in'' @ text_bytes ''`'' @ [10] @ replicate 600 65)"
  using pack_then_type [OF ref.reliable_posix_axioms pack_edit_volume pack_line(2-4), of "[2]" "[hello_file]" 96 1]
    pack_place_example pack_sys_simps
  unfolding pack_line(1,6) pack_state pack_image by auto

text \<open>A root directory with 15 deleted entries, one less than its cluster holds.\<close>

definition full_items :: "dir_item list" where
  "full_items = replicate 15 (Deleted (0xE5 # replicate 31 0))"

definition full_sys :: refsys where
  "full_sys = small_sys\<lparr>ref_data := (\<lambda>i. if i = 0 then
     replicate 25600 7 @ concat (map item_bytes full_items) @ replicate 32 0 @ replicate 4608 7 else [])\<rparr>"

lemma full_image: "image_of ref_inode ref_data (small_state full_sys 3) =
    replicate 25600 7 @ concat (map item_bytes full_items) @ replicate 32 0 @ replicate 4608 7"
  by (simp add: image_of_def small_state_def small_sys_def full_sys_def)

lemma full_items_facts:
  "length (concat (map item_bytes full_items)) = 480" "\<forall>i \<in> set full_items. item_ok i" "item_entries full_items = []"
proof -
  show "length (concat (map item_bytes full_items)) = 480" "item_entries full_items = []"
    by (simp_all add: full_items_def numeral_eq_Suc)
  show "\<forall>i \<in> set full_items. item_ok i" by (auto simp: full_items_def)
qed

lemma full_edit_volume: "edit_volume ref_inode ref_data (small_state full_sys 3)"
proof -
  have "length (image_of ref_inode ref_data (small_state full_sys 3)) = 30720"
    unfolding full_image by (simp add: full_items_facts)
  then show ?thesis using small_volume [of "image_of ref_inode ref_data (small_state full_sys 3)"]
    unfolding edit_volume_def by (simp add: small_state_def)
qed

lemma full_dir_chain:
  "dir_chain small_super small_fat (image_of ref_inode ref_data (small_state full_sys 3)) [2] [] 480"
proof -
  have "chain_data small_super (image_of ref_inode ref_data (small_state full_sys 3)) [2] =
      concat (map item_bytes full_items) @ replicate 32 0"
    unfolding full_image
    by (simp add: chain_data_def cluster_data_def subbytes_def cluster_size_def cluster_pos_def small_super_geometry full_items_facts(1))
  moreover have "dir_end (replicate 32 0)" by (simp add: dir_end_def)
  ultimately show ?thesis
    unfolding dir_chain_def using root_chain full_items_facts by (intro exI [of _ full_items] exI [of _ "replicate 32 0"]) simp
qed

theorem full_directory_refuses_witness:
  "\<exists>r st'. AppendDirectoryEntry ref_posix 2 480 False (text_bytes ''BOOT.CFG'') 3 600 (small_state full_sys 3) = Some (r, st') \<and>
    (case r of Inl e \<Rightarrow> e = no_space
     | Inr _ \<Rightarrow> AppendDirectoryEntry ref_posix 2 512 True (text_bytes ''SUB'') 5 0 st' = Some (Inl not_terminated, st'))"
proof -
  have s: "ed_super (small_state full_sys 3) = small_super" "ed_fatRaw (small_state full_sys 3) = small_fat"
    by (simp_all add: small_state_def)
  have h: "of_nat (hd [2 :: nat]) = (2 :: u32)" "480 + 32 = (512 :: nat)" by simp_all
  have c: "cluster_size small_super = 512" by (simp add: cluster_size_def small_super_geometry)
  have name: "storable (text_bytes ''BOOT.CFG'')"
  proof -
    have "last (SplitPath (text_bytes ''/BOOT.CFG'')) = text_bytes ''BOOT.CFG''" by code_simp
    then show ?thesis using pack_place_example by (simp add: pack_place_def)
  qed
  show ?thesis
    using full_directory_refuses [OF ref.reliable_posix_axioms full_edit_volume, of "[2]" "[]" 480 "text_bytes ''BOOT.CFG''"
      False 3 600 True "text_bytes ''SUB''" 5 0] full_dir_chain name unfolding s c h by simp
qed

end
