(* ===== verification/Fat_Edit_Mkdir.thy ===== *)
theory Fat_Edit_Mkdir
  imports Fat_Edit_Pack
begin

text \<open>
  New directories of the editor: \<^verbatim>\<open>InitializeEmptyDirectory\<close> makes a chain that is a directory
  with the two entries for itself and its parent, and the command \<^verbatim>\<open>mkdir\<close> adds it to the
  parent, where \<^verbatim>\<open>dir\<close> finds it.
\<close>

subsection \<open>The two entries of an empty directory\<close>

definition dir_entry :: "bytes \<Rightarrow> u32 \<Rightarrow> DirEntry" where
  "dir_entry name c = \<lparr>en_shortName = name, en_longName = name, en_size = 0, en_firstCluster = c, en_isDirectory = True\<rparr>"

definition dot_dirent :: "bytes \<Rightarrow> u32 \<Rightarrow> FatDirent" where
  "dot_dirent name c = FatDirent_SetClusterIndex (FatDirent_SetEntryFlags (FatDirent_SetName FatDirent_new name)
     (FlagField_Set 0 Flags_Directory)) c"

lemma dot_item:
  assumes "name = text_bytes ''.'' \<or> name = text_bytes ''..''"
  shows "short_ok (dot_dirent name c)" "item_entry [] (dot_dirent name c) = dir_entry name c"
proof -
  let ?d = "dot_dirent name c"
  have dots: "text_bytes ''.'' = [46]" "text_bytes ''..'' = [46, 46]" by code_simp+
  have wf: "FatDirent_wf ?d" by (simp add: dot_dirent_def FatDirent_setters_wf FatDirent_new_wf)
  have pad: "rtrim (name @ replicate n 32) = name" for n using assms unfolding dots by (intro rtrim_pad) auto
  have set: "FixedLengthString_Set 8 32 name = name @ replicate (8 - length name) 32"
    using assms unfolding dots by (intro FixedLengthString_Set_short) auto
  have fields: "de_name ?d = name @ replicate (8 - length name) 32" "de_extension ?d = FixedLengthString 3 32"
    "de_flags ?d = Flags_Directory"
    using set by (simp_all add: dot_dirent_def FatDirent_setters FatDirent_new_def FlagField_Set_def)
  have name: "dirent_name ?d = name" unfolding dirent_name_def fields by (simp add: pad FixedLengthString_def)
  have at: "name_At ?d 0 = 46" using assms fields(1) unfolding dots
    by (auto simp: name_At_def FixedLengthString_At_def)
  have flags: "\<not> FlagField_IsSet (FatDirent_EntryFlags ?d) Flags_LongFileName" "FlagField_IsSet (FatDirent_EntryFlags ?d) Flags_Directory"
    by (simp_all add: FatDirent_EntryFlags_def fields FlagField_IsSet_def Flags_Directory_def Flags_LongFileName_def)
  show "short_ok ?d" using wf at name flags(1) assms unfolding dots by (auto simp: short_ok_def)
  have "FatDirent_Size ?d = 0" by (simp add: FatDirent_Size_def dot_dirent_def FatDirent_setters FatDirent_new_def)
  moreover have "FatDirent_ClusterIndex ?d = c" by (simp add: dot_dirent_def ClusterIndex_Set)
  ultimately show "item_entry [] ?d = dir_entry name c" using name flags(2) by (simp add: item_entry_def dir_entry_def)
qed

lemma empty_dir_chain:
  assumes "is_chain s raw cs"
    and "take 96 (chain_data s img cs) = FatDirent_bytes (dot_dirent (text_bytes ''.'') c) @
      FatDirent_bytes (dot_dirent (text_bytes ''..'') p) @ replicate 32 0"
  shows "dir_chain s raw img cs [dir_entry (text_bytes ''.'') c, dir_entry (text_bytes ''..'') p] 64"
proof -
  let ?a = "dot_dirent (text_bytes ''.'') c" and ?b = "dot_dirent (text_bytes ''..'') p"
  let ?items = "[Item [] ?a, Item [] ?b]" and ?rest = "replicate 32 0 @ drop 96 (chain_data s img cs)"
  note items = dot_item(1) [of "text_bytes ''.''" c] dot_item(1) [of "text_bytes ''..''" p]
  have "chain_data s img cs = take 96 (chain_data s img cs) @ drop 96 (chain_data s img cs)" by simp
  then have "chain_data s img cs = concat (map item_bytes ?items) @ ?rest" unfolding assms(2) by simp
  moreover have "\<forall>i \<in> set ?items. item_ok i" using items by (simp add: long_ok_def long_sequence_ok_def)
  moreover have "dir_end ?rest" by (simp add: dir_end_def nth_append)
  moreover have "item_entries ?items = [dir_entry (text_bytes ''.'') c, dir_entry (text_bytes ''..'') p]"
    by (simp add: dot_item(2))
  moreover have "length (concat (map item_bytes ?items)) = 64" using items by (simp add: short_ok_def)
  ultimately show ?thesis unfolding dir_chain_def using assms(1) by metis
qed

context reliable_posix
begin

lemma empty_directory:
  assumes vol: "ed_volume st"
  shows "\<exists>r st'. InitializeEmptyDirectory P p st = Some (r, st') \<and> ed_volume st' \<and>
    (case r of Inl e \<Rightarrow> e = no_space \<and> no_free_cluster st'
     | Inr c \<Rightarrow> \<exists>cs. ed_extends st [] st' cs \<and> c = of_nat (hd cs) \<and>
         dir_chain (ed_super st) (ed_fatRaw st') (image st') cs [dir_entry (text_bytes ''.'') c, dir_entry (text_bytes ''..'') p] 64)"
proof -
  obtain r0 st0 where c: "FileWriter_create st = Some (r0, st0)"
    "case r0 of Inl e \<Rightarrow> e = no_space \<and> st0 = st \<and> (\<forall>k < cluster_total (ed_super st). raw_entry (ed_fatRaw st) k \<noteq> 0)
     | Inr wr \<Rightarrow> (\<exists>k. ed_extends st [] st0 [k] \<and> ed_writer st0 [k] wr [])"
    using create_correct [OF vol] by blast
  show ?thesis
  proof (cases r0)
    case (Inl e)
    then show ?thesis using c vol by (simp add: InitializeEmptyDirectory_def io_bind_def no_free_cluster_def Let_def)
  next
    case (Inr wr)
    then obtain k where k: "ed_extends st [] st0 [k]" "ed_writer st0 [k] wr []" using c(2) by auto
    have st0: "ed_volume st0" "ed_chain st0 [k]" "ed_super st0 = ed_super st"
      using k(1) by (simp_all add: ed_extends_def wrote_def)
    let ?a = "FatDirent_bytes (dot_dirent (text_bytes ''.'') (wr_firstCluster wr))"
      and ?b = "FatDirent_bytes (dot_dirent (text_bytes ''..'') p)"
    let ?two = "io_bind (FileWriter_Append P ?a wr) (FileWriter_Append P ?b)"
    obtain r1 st1 where t: "?two st0 = Some (r1, st1)" "append_result st0 [k] ([] @ ?a @ ?b) r1 st1"
      using append_twice [OF st0(1,2) k(2)] by blast
    obtain r2 st2 where three: "io_bind ?two (FileWriter_Append P (replicate 32 0)) st0 = Some (r2, st2)"
      "append_result st0 [k] (([] @ ?a @ ?b) @ replicate 32 0) r2 st2"
      using append_after [of ?two, OF t] by blast
    have run: "InitializeEmptyDirectory P p st = io_bind (io_bind ?two (FileWriter_Append P (replicate 32 0)))
        (\<lambda>_. io_return (wr_firstCluster wr)) st0"
      using c(1) Inr by (simp add: InitializeEmptyDirectory_def Let_def io_bind_def [of FileWriter_create] io_bind_assoc dot_dirent_def)
    obtain cs where e: "ed_extends st0 [k] st2 cs" "case r2 of
        Inr wr' \<Rightarrow> ed_writer st2 cs wr' (([] @ ?a @ ?b) @ replicate 32 0)
      | Inl e \<Rightarrow> e = no_space \<and> (\<forall>k < cluster_total (ed_super st2). raw_entry (ed_fatRaw st2) k \<noteq> 0)"
      using three(2) unfolding append_result_def by blast
    note ext = ed_extends_trans [OF k(1) e(1)]
    have st2: "ed_volume st2" "volume (ed_super st) (ed_fatRaw st2) (image st2)" "is_chain (ed_super st) (ed_fatRaw st2) cs"
      "ed_super st2 = ed_super st"
      using ext by (auto simp: ed_extends_def wrote_def ed_volume_def ed_chain_def)
    show ?thesis
    proof (cases r2)
      case (Inl x)
      then show ?thesis using run three(1) e(2) st2(1) by (auto simp: io_bind_def [of _ "\<lambda>_. io_return _"] no_free_cluster_def)
    next
      case wr2: (Inr wr')
      have "writer_at (ed_super st) (image st2) cs wr' (?a @ ?b @ replicate 32 0)"
        using e(2) wr2 st2(4) by (simp add: ed_writer_def)
      note w = writer_file [OF st2(2,3) this]
      have "short_ok (dot_dirent (text_bytes ''.'') (wr_firstCluster wr))" "short_ok (dot_dirent (text_bytes ''..'') p)"
        by (simp_all add: dot_item(1))
      then have "length (?a @ ?b @ replicate 32 0) = 96" by (simp add: short_ok_def)
      from empty_dir_chain [OF st2(3) w(2) [unfolded this]]
      have "dir_chain (ed_super st) (ed_fatRaw st2) (image st2) cs
          [dir_entry (text_bytes ''.'') (wr_firstCluster wr), dir_entry (text_bytes ''..'') p] 64" .
      moreover have "wr_firstCluster wr = of_nat (hd cs)"
      proof -
        have "hd cs = k" using e(1) by (auto simp: ed_extends_def extends_def)
        then show ?thesis using k(2) by (simp add: ed_writer_def writer_at_def)
      qed
      ultimately show ?thesis
        using run three(1) wr2 ext st2(1) by (auto simp: io_bind_def [of _ "\<lambda>_. io_return _"] io_return_def)
    qed
  qed
qed

end

subsection \<open>The command mkdir\<close>

text \<open>A directory after a directory was added: the new one lists itself and its parent.\<close>

definition dir_added :: "FatSuper \<Rightarrow> bytes \<Rightarrow> bytes \<Rightarrow> nat list \<Rightarrow> DirEntry list \<Rightarrow> nat \<Rightarrow> bytes \<Rightarrow>
    bytes \<Rightarrow> bytes \<Rightarrow> nat list \<Rightarrow> bool" where
  "dir_added s raw img dcs es n name raw' img' cs \<longleftrightarrow>
     added s raw img dcs es n (dir_entry name (of_nat (hd cs))) raw' img' \<and>
     dir_chain s raw' img' cs [dir_entry (text_bytes ''.'') (of_nat (hd cs)), dir_entry (text_bytes ''..'') (of_nat (hd dcs))] 64"

context reliable_posix
begin

definition mkdir_body :: "nat list \<Rightarrow> nat \<Rightarrow> bytes \<Rightarrow> ('a Edit, unit) io" where
  "mkdir_body dcs n name = io_bind (InitializeEmptyDirectory P (of_nat (hd dcs))) (\<lambda>index.
     AppendDirectoryEntry P (of_nat (hd dcs)) n True name index 0)"

lemma mkdir_body_correct:
  assumes vol: "ed_volume st" and dir: "dir_chain (ed_super st) (ed_fatRaw st) (image st) dcs es n"
    and room: "\<not> Suc (dir_index (ed_super st) n) < length dcs" and name: "storable name"
  shows "\<exists>r st'. mkdir_body dcs n name st = Some (r, st') \<and> ed_volume st' \<and>
    (case r of Inl e \<Rightarrow> e = no_space \<and> no_free_cluster st'
     | Inr _ \<Rightarrow> ed_super st' = ed_super st \<and> ed_cout st' = ed_cout st \<and>
         (\<exists>cs. dir_added (ed_super st) (ed_fatRaw st) (image st) dcs es n name (ed_fatRaw st') (image st') cs))"
proof -
  let ?s = "ed_super st"
  have v: "volume ?s (ed_fatRaw st) (image st)" using vol by (simp add: ed_volume_def)
  obtain r1 st1 where i: "InitializeEmptyDirectory P (of_nat (hd dcs)) st = Some (r1, st1)" "ed_volume st1"
    "case r1 of Inl e \<Rightarrow> e = no_space \<and> no_free_cluster st1
     | Inr c \<Rightarrow> \<exists>cs. ed_extends st [] st1 cs \<and> c = of_nat (hd cs) \<and> dir_chain ?s (ed_fatRaw st1) (image st1) cs
         [dir_entry (text_bytes ''.'') c, dir_entry (text_bytes ''..'') (of_nat (hd dcs))] 64"
    using empty_directory [OF vol] by blast
  show ?thesis
  proof (cases r1)
    case (Inl e)
    then show ?thesis using i by (auto simp: mkdir_body_def io_bind_def)
  next
    case (Inr c)
    then obtain cs where e: "ed_extends st [] st1 cs" "c = of_nat (hd cs)"
      and new: "dir_chain ?s (ed_fatRaw st1) (image st1) cs
         [dir_entry (text_bytes ''.'') c, dir_entry (text_bytes ''..'') (of_nat (hd dcs))] 64" using i(3) by auto
    have same: "ed_super st1 = ?s" "ed_cout st1 = ed_cout st"
      and e1: "extends ?s (ed_fatRaw st) (image st) [] (ed_fatRaw st1) (image st1) cs"
      using e(1) by (simp_all add: ed_extends_def wrote_def)
    have v1: "volume ?s (ed_fatRaw st1) (image st1)" using i(2) same(1) by (simp add: ed_volume_def)
    have c1: "is_chain ?s (ed_fatRaw st1) cs" using new by (auto simp: dir_chain_def)
    have g: "geometry ?s (ed_fatRaw st)" using v by (simp add: volume_def)
    have d0: "is_chain ?s (ed_fatRaw st) dcs" using dir by (auto simp: dir_chain_def)
    have dir1: "dir_chain (ed_super st1) (ed_fatRaw st1) (image st1) dcs es n"
      using dir_chain_cong [OF dir] extends_other_chain(2,3) [OF e1 d0 g] same by simp
    let ?d = "dirent_for True name c 0"
    note item = dirent_for_item [OF name, of True c 0]
    obtain r st' where a: "AppendDirectoryEntry P (of_nat (hd dcs)) n True name c 0 st1 = Some (r, st')"
      "entry_added st1 dcs es n ?d r st'"
      using add_entry [OF i(2) dir1 refl item(1)] room same(1) by auto
    obtain dcs' where e2: "ed_extends st1 dcs st' dcs'"
      "case r of Inl e \<Rightarrow> e = no_space \<and> no_free_cluster st'
       | Inr _ \<Rightarrow> dir_chain ?s (ed_fatRaw st') (image st') dcs' (es @ [item_entry [] ?d]) (n + 32) \<and>
           (n + 64 < length dcs * cluster_size ?s \<longrightarrow> dcs' = dcs)"
      using a(2) unfolding entry_added_def same(1) by (cases r) auto
    have st': "ed_volume st'" "ed_super st' = ?s" "ed_cout st' = ed_cout st"
      "extends ?s (ed_fatRaw st1) (image st1) dcs (ed_fatRaw st') (image st') dcs'"
      using e2(1) same by (auto simp: ed_extends_def wrote_def)
    have ent: "item_entry [] ?d = dir_entry name c" using item(2) by (simp add: dir_entry_def)
    have "dir_added ?s (ed_fatRaw st) (image st) dcs es n name (ed_fatRaw st') (image st') cs" if "r = Inr ()"
    proof -
      have dir': "dir_chain ?s (ed_fatRaw st') (image st') dcs' (es @ [dir_entry name c]) (n + 32)"
        and same': "n + 64 < length dcs * cluster_size ?s \<Longrightarrow> dcs' = dcs" using e2(2) that unfolding ent by simp_all
      note a = added_by [OF v dir e1 v1 c1 st'(4) dir' same']
      show ?thesis using a(1) dir_chain_cong [OF new a(2,3)] unfolding dir_added_def e(2) by simp
    qed
    then show ?thesis using i(1) Inr a(1) e2(2) st' by (cases r) (auto simp: mkdir_body_def io_bind_def)
  qed
qed

lemma mkdir_command:
  assumes vol: "edit_volume inode bytes_of st"
    and place: "pack_target (ed_super st) (ed_fatRaw st) (image_of inode bytes_of st) (SplitPath args) dcs es n"
    and dot: "46 \<notin> set (last (SplitPath args))"
  shows "\<exists>r st'. CreateDirectory P args st = Some (r, st') \<and> edit_volume inode bytes_of st' \<and>
    (case r of Inl e \<Rightarrow> e = no_space \<and> no_free_cluster st'
     | Inr _ \<Rightarrow> ed_super st' = ed_super st \<and> ed_cout st' = ed_cout st \<and>
         (\<exists>cs. dir_added (ed_super st) (ed_fatRaw st) (image_of inode bytes_of st) dcs es n (last (SplitPath args))
           (ed_fatRaw st') (image_of inode bytes_of st') cs))"
proof -
  let ?s = "ed_super st" and ?name = "last (SplitPath args)" and ?img = "image_of inode bytes_of st"
  have path: "SplitPath args \<noteq> []" "storable ?name" and dir: "dir_chain ?s (ed_fatRaw st) ?img dcs es n"
    "\<not> Suc (dir_index ?s n) < length dcs" using place by (simp_all add: pack_target_def)
  obtain parent st1 st2 where p: "FindParent P (SplitPath args) st = Some (Inr (Some parent), st1)"
    "CheckEntryNotInDir P (en_firstCluster parent) ?name st1 = Some (Inr (Some n), st2)"
    and read: "only_read st st2" and hd: "of_nat (hd dcs) = en_firstCluster parent"
    using target_found [OF vol place] by blast
  note same = only_read_simps [OF read, unfolded image_eq]
  have "CreateDirectory P args st = mkdir_body dcs n ?name st2"
    using p path(1) storable_short [OF path(2)] dot
    by (simp add: CreateDirectory_def Let_def io_simps mkdir_body_def hd)
  moreover have "ed_volume st2" "dir_chain (ed_super st2) (ed_fatRaw st2) (image st2) dcs es n"
    "\<not> Suc (dir_index (ed_super st2) n) < length dcs"
    using vol dir same only_read_volume_of [OF read] by (simp_all add: image_eq)
  note mkdir_body_correct [OF this path(2), unfolded image_eq same]
  ultimately show ?thesis by simp
qed

end

context reliable_posix
begin

lemma mkdir_dir:
  assumes vol: "edit_volume inode bytes_of st"
    and place: "pack_place (ed_super st) (ed_fatRaw st) (image_of inode bytes_of st) (SplitPath args) dcs es n"
    and dot: "46 \<notin> set (last (SplitPath args))"
  shows "\<exists>r st'. io_bind (CreateDirectory P args) (\<lambda>_. ListDirectory P args) st = Some (r, st') \<and>
    (case r of Inl e \<Rightarrow> e = no_space \<and> no_free_cluster st'
     | Inr _ \<Rightarrow> ed_cout st' = ed_cout st @ text_bytes ''. (.), 0, directory'' @ [10] @ text_bytes ''.. (..), 0, directory'' @ [10])"
proof -
  let ?s = "ed_super st" and ?name = "last (SplitPath args)" and ?img = "image_of inode bytes_of st"
  obtain r st1 where m: "CreateDirectory P args st = Some (r, st1)" "edit_volume inode bytes_of st1"
    "case r of Inl e \<Rightarrow> e = no_space \<and> no_free_cluster st1
     | Inr _ \<Rightarrow> ed_super st1 = ed_super st \<and> ed_cout st1 = ed_cout st \<and>
         (\<exists>cs. dir_added ?s (ed_fatRaw st) ?img dcs es n ?name (ed_fatRaw st1) (image_of inode bytes_of st1) cs)"
    using mkdir_command [OF vol pack_place_target [OF place] dot] by blast
  show ?thesis
  proof (cases r)
    case (Inl e)
    then show ?thesis using m by (auto simp: io_bind_def)
  next
    case (Inr u)
    then obtain cs where st1: "ed_super st1 = ?s" "ed_cout st1 = ed_cout st"
      "dir_added ?s (ed_fatRaw st) ?img dcs es n ?name (ed_fatRaw st1) (image_of inode bytes_of st1) cs"
      using m(3) by auto
    let ?ent = "dir_entry ?name (of_nat (hd cs))"
      and ?es = "[dir_entry (text_bytes ''.'') (of_nat (hd cs)), dir_entry (text_bytes ''..'') (of_nat (hd dcs))]"
    have path: "butlast (SplitPath args) @ [?name] = SplitPath args" using place by (simp add: pack_place_def)
    obtain parent where parent: "reaches ?s (ed_fatRaw st) ?img (set dcs) (root_entry ?s) (butlast (SplitPath args)) parent"
      "en_isDirectory parent" "of_nat (hd dcs) = en_firstCluster parent"
      and new: "\<forall>it \<in> set es. en_shortName it \<noteq> ?name \<and> en_longName it \<noteq> ?name"
      using place unfolding pack_place_def by blast
    have walk: "ed_walks (ed_super st1) (ed_fatRaw st1) (image_of inode bytes_of st1) (root_entry (ed_super st1)) (SplitPath args) (Found ?ent)"
      using added_found [OF _ _ new parent] st1(3) unfolding st1(1) by (metis DirEntry.select_convs(1) dir_added_def dir_entry_def path)
    have "en_isDirectory ?ent" "dir_lists (ed_super st1) (ed_fatRaw st1) (image_of inode bytes_of st1) (en_firstCluster ?ent) ?es 64"
      using st1(1,3) by (auto simp: dir_lists_def dir_added_def dir_entry_def)
    from prints_same_volume [OF list_directory [OF m(2) walk this]] obtain st' where
      "ListDirectory P args st1 = Some (Inr (), st')" "ed_cout st' = ed_cout st1 @ concat (map listing_line ?es)" by blast
    moreover have "concat (map listing_line ?es) =
        text_bytes ''. (.), 0, directory'' @ [10] @ text_bytes ''.. (..), 0, directory'' @ [10]"
    proof -
      have zero: "number_text 0 = text_bytes ''0''" by code_simp
      show ?thesis by (simp add: listing_line_def dir_entry_def zero text_bytes_def)
    qed
    ultimately show ?thesis using m(1) Inr st1(2) by (simp add: io_bind_def)
  qed
qed

end

text \<open>
  C12. The command \<^verbatim>\<open>mkdir\<close> adds an empty directory to a directory of the volume. When the parent
  of the path is a directory with room behind its last entry and the name is an 8.3 name without an
  extension that is not in it, the command either throws that no cluster is free, with every
  cluster allocated and the volume sound, or the parent then
  lists one more file, the new directory, whose chain holds the entries for itself and for
  its parent and nothing else; every chain that shares no cluster with the parent is as before.
\<close>

theorem mkdir_command_creates:
  assumes "reliable_posix P inode bytes_of pos opened names patience"
    and "edit_volume inode bytes_of st"
    and "pack_target (ed_super st) (ed_fatRaw st) (image_of inode bytes_of st) (SplitPath args) dcs es n"
    and "46 \<notin> set (last (SplitPath args))"
  shows "\<exists>r st'. CreateDirectory P args st = Some (r, st') \<and> edit_volume inode bytes_of st' \<and>
    (case r of Inl e \<Rightarrow> e = no_space \<and> no_free_cluster st'
     | Inr _ \<Rightarrow> ed_super st' = ed_super st \<and> ed_cout st' = ed_cout st \<and>
         (\<exists>cs. dir_added (ed_super st) (ed_fatRaw st) (image_of inode bytes_of st) dcs es n (last (SplitPath args))
           (ed_fatRaw st') (image_of inode bytes_of st') cs))"
  using assms by (rule reliable_posix.mkdir_command)

text \<open>
  C13. A directory made with \<^verbatim>\<open>mkdir\<close> is listed by \<^verbatim>\<open>dir\<close> under the same path, with the entry for
  itself and the one for its parent, on a volume whose directories share no clusters; the
  only failure is a full volume.
\<close>

theorem mkdir_then_dir:
  assumes "reliable_posix P inode bytes_of pos opened names patience"
    and "edit_volume inode bytes_of st"
    and "pack_place (ed_super st) (ed_fatRaw st) (image_of inode bytes_of st) (SplitPath args) dcs es n"
    and "46 \<notin> set (last (SplitPath args))"
  shows "\<exists>r st'. io_bind (CreateDirectory P args) (\<lambda>_. ListDirectory P args) st = Some (r, st') \<and>
    (case r of Inl e \<Rightarrow> e = no_space \<and> no_free_cluster st'
     | Inr _ \<Rightarrow> ed_cout st' = ed_cout st @ text_bytes ''. (.), 0, directory'' @ [10] @ text_bytes ''.. (..), 0, directory'' @ [10])"
  using assms by (rule reliable_posix.mkdir_dir)

lemma mkdir_place_example:
  "pack_place small_super small_fat (image_of ref_inode ref_data (small_state dir_sys 3))
     (SplitPath (text_bytes ''/BOOT'')) [2] [hello_file] 96" "46 \<notin> set (last (SplitPath (text_bytes ''/BOOT'')))"
proof -
  have path: "SplitPath (text_bytes ''/BOOT'') = [text_bytes ''BOOT'']" by code_simp
  have "text_bytes ''BOOT'' = short_name (text_bytes ''BOOT'') None" "grammar_8_3 (text_bytes ''BOOT'') None"
    "no_blank_end (text_bytes ''BOOT'')" "text_bytes ''BOOT'' ! 0 \<noteq> 32" "length (text_bytes ''BOOT'') < 12"
    by code_simp+
  then have "storable (text_bytes ''BOOT'')" unfolding storable_def by blast
  moreover have "text_bytes ''HELLO.TXT'' \<noteq> text_bytes ''BOOT''" "text_bytes ''hello.txt'' \<noteq> text_bytes ''BOOT''"
    by code_simp+
  moreover have "FatSuper_RootDirIndex small_super = 2" by code_simp
  ultimately show "pack_place small_super small_fat (image_of ref_inode ref_data (small_state dir_sys 3))
     (SplitPath (text_bytes ''/BOOT'')) [2] [hello_file] 96"
    unfolding pack_place_def path using root_dir_chain
    by (auto simp: root_entry_def hello_file_def dir_index_def intro!: exI [of _ "root_entry small_super"] reaches.reached)
  show "46 \<notin> set (last (SplitPath (text_bytes ''/BOOT'')))" by code_simp
qed

lemma dir_state:
  "ed_super (small_state dir_sys 3) = small_super" "ed_fatRaw (small_state dir_sys 3) = small_fat"
  "ed_cout (small_state dir_sys 3) = []"
  by (simp_all add: small_state_def)

theorem mkdir_command_creates_witness:
  "\<exists>r st'. CreateDirectory ref_posix (text_bytes ''/BOOT'') (small_state dir_sys 3) = Some (r, st') \<and>
    edit_volume ref_inode ref_data st' \<and> (case r of Inl e \<Rightarrow> e = no_space | Inr _ \<Rightarrow> ed_super st' = small_super)"
  using mkdir_command_creates [OF ref.reliable_posix_axioms dir_edit_volume, of "text_bytes ''/BOOT''" "[2]" "[hello_file]" 96]
    pack_place_target [OF mkdir_place_example(1)] mkdir_place_example(2)
  unfolding dir_state by (auto split: sum.splits)

theorem mkdir_then_dir_witness:
  "\<exists>r st'. io_bind (CreateDirectory ref_posix (text_bytes ''/BOOT'')) (\<lambda>_. ListDirectory ref_posix (text_bytes ''/BOOT''))
      (small_state dir_sys 3) = Some (r, st') \<and>
    (r = Inr () \<longrightarrow> ed_cout st' = text_bytes ''. (.), 0, directory'' @ [10] @ text_bytes ''.. (..), 0, directory'' @ [10])"
  using mkdir_then_dir [OF ref.reliable_posix_axioms dir_edit_volume, of "text_bytes ''/BOOT''" "[2]" "[hello_file]" 96]
    mkdir_place_example
  unfolding dir_state by auto

end
