(* ===== verification/Editor_To_Loader.thy ===== *)
theory Editor_To_Loader
  imports Volume_Boot Fat_Edit_Mkdir Fat_Path
begin

text \<open>
  The editor and the driver of the second stage on the same directories: the entries that the
  editor parses from the bytes of a directory are the ones among which the driver looks up a name,
  so a file that was packed under a path is found by the loader under this path, and read.
\<close>

subsection \<open>The entries of a directory as the driver sees them\<close>

lemma entS_append: "32 * Suc i \<le> length a \<Longrightarrow> entS (a @ b) i = entS a i"
  by (simp add: entS_def subbytes_def)

lemma entS_append_behind: "length a = 32 * k \<Longrightarrow> entS (a @ b) (k + i) = entS b i"
  by (simp add: entS_def subbytes_def algebra_simps)

lemma dir_entries_append:
  assumes "32 dvd length a"
  shows "dir_entries (a @ b) = dir_entries a @ dir_entries b"
proof -
  obtain k where k: "length a = 32 * k" using assms by (auto elim: dvdE)
  have "[k ..< k + n] = map ((+) k) [0 ..< n]" for n by (intro nth_equalityI) simp_all
  then have "[0 ..< length (a @ b) div 32] = [0 ..< k] @ map ((+) k) [0 ..< length b div 32]"
    by (simp add: k upt_add_eq_append [of 0])
  then show ?thesis unfolding dir_entries_def using k by (simp add: entS_append entS_append_behind [OF k])
qed

lemma dir_entries_Nil: "dir_entries [] = []"
  by (simp add: dir_entries_def)

lemma dir_entries_concat: "\<forall>x \<in> set xs. 32 dvd length x \<Longrightarrow> dir_entries (concat xs) = concat (map dir_entries xs)"
  by (induction xs) (simp_all add: dir_entries_append dir_entries_Nil)

lemma dir_entries_single: "length b = 32 \<Longrightarrow> dir_entries b = [FatDirent_of_bytes b]"
  by (simp add: dir_entries_def entS_def subbytes_def)

fun item_dirents :: "dir_item \<Rightarrow> FatDirent list" where
  "item_dirents (Deleted b) = [FatDirent_of_bytes b]"
| "item_dirents (Item ls d) = map FatDirent_of_bytes ls @ [d]"

lemma dir_entries_item:
  assumes "item_ok i"
  shows "32 dvd length (item_bytes i)" "dir_entries (item_bytes i) = item_dirents i"
proof -
  have "32 dvd length (item_bytes i) \<and> dir_entries (item_bytes i) = item_dirents i"
  proof (cases i)
    case (Deleted b)
    then show ?thesis using assms by (simp add: dir_entries_single)
  next
    case (Item ls d)
    have ls: "\<forall>b \<in> set ls. length b = 32" and wf: "FatDirent_wf d" using assms Item by (simp_all add: long_ok_def short_ok_def)
    have len: "length (concat ls) = length ls * 32" using ls by (rule length_concat_same)
    have "dir_entries (concat ls) = concat (map dir_entries ls)" using ls by (intro dir_entries_concat) simp
    also have "\<dots> = map FatDirent_of_bytes ls" using ls by (induction ls) (simp_all add: dir_entries_single)
    finally show ?thesis using Item wf len
      by (simp add: dir_entries_append dir_entries_single FatDirent_of_bytes_bytes)
  qed
  then show "32 dvd length (item_bytes i)" "dir_entries (item_bytes i) = item_dirents i" by simp_all
qed

text \<open>The entries of a long name are never the end mark, and the driver skips them.\<close>

lemma long_dirent:
  assumes "long_ok ls d" "b \<in> set ls"
  shows "\<not> FatDirent_IsLastInList (FatDirent_of_bytes b)" "skipped (FatDirent_of_bytes b)"
proof -
  have b: "length b = 32" "FlagField_IsSet (FatDirentLong_EntryFlags (FatDirentLong_of_bytes b)) Flags_LongFileName"
    using assms by (simp_all add: long_ok_def)
  then show "skipped (FatDirent_of_bytes b)"
    by (simp add: skipped_def FatDirent_EntryFlags_def FatDirentLong_EntryFlags_def FatDirent_of_bytes_def FatDirentLong_of_bytes_def)
  let ?l = "rev (map FatDirentLong_of_bytes ls)"
  have "FatDirentLong_of_bytes b \<in> set ?l" using assms(2) by simp
  then obtain i where i: "i < length ?l" "?l ! i = FatDirentLong_of_bytes b" by (metis in_set_conv_nth)
  then have "i \<in> set [0 ..< length ?l]" by simp
  moreover have "long_sequence_ok (FatDirent_Checksum d) ?l" using assms(1) by (simp add: long_ok_def)
  ultimately have "unat (FatDirentLong_SequenceNumber (FatDirentLong_of_bytes b)) = i + 1"
    unfolding long_sequence_ok_def i(2) [symmetric] by blast
  then have "b ! 0 \<noteq> 0" by (auto simp: FatDirentLong_SequenceNumber_def FatDirentLong_of_bytes_def)
  moreover have "b \<noteq> []" using b(1) by auto
  ultimately show "\<not> FatDirent_IsLastInList (FatDirent_of_bytes b)"
    using name_At_byte [of b] by (simp add: FatDirent_IsLastInList_def)
qed

text \<open>The directory in the sectors of a disk, entry by entry.\<close>

lemma chain_entries_on_disk:
  assumes v: "volume s raw img" and "unat (FatSuper_BytesPerSector s) = 512" "disk_holds d s img" "is_chain s raw cs"
  shows "chain_entries (bios_content d) s (map of_nat cs) = dir_entries (chain_data s img cs)"
proof -
  have c: "\<forall>c \<in> set cs. data_cluster s c" using assms(4) by (simp add: is_chain_def)
  have "geometry s raw" using v by (simp add: volume_def)
  note cluster = cluster_on_disk [OF this assms(2,3)]
  have "32 dvd length (cluster_data s img c)" if "c \<in> set cs" for c
  proof -
    have len: "length (cluster_data s img c) = cluster_size s" using v c that by (intro volume_cluster(2)) auto
    then show ?thesis by (simp add: cluster_size_def assms(2))
  qed
  then have "dir_entries (chain_data s img cs) = concat (map dir_entries (map (cluster_data s img) cs))"
    unfolding chain_data_def by (intro dir_entries_concat) auto
  moreover have "map (\<lambda>c. dir_entries (cluster_bytes (bios_content d) s c)) (map of_nat cs) =
      map dir_entries (map (cluster_data s img) cs)"
    using cluster c by simp
  ultimately show ?thesis unfolding chain_entries_def by (simp only:)
qed

subsection \<open>Looking up a name\<close>

text \<open>An entry of the editor and a file handle of the driver that stand for the same file.\<close>

definition same_file :: "DirEntry \<Rightarrow> FatFile \<Rightarrow> bool" where
  "same_file it f \<longleftrightarrow> ff_cluster f = en_firstCluster it \<and> ff_size f = en_size it \<and>
     FlagField_IsSet (ff_flags f) Flags_Directory = en_isDirectory it"

definition find_short :: "bytes \<Rightarrow> DirEntry list \<Rightarrow> DirEntry option" where
  "find_short name es = find (\<lambda>it. en_shortName it = name) es"

lemma short_dirent:
  assumes "short_ok d"
  shows "\<not> FatDirent_IsLastInList d" "\<not> skipped d" "name_At d 0 \<noteq> 32" "cstr (dirent_name d) = dirent_name d"
    "same_file (item_entry ls d) (file_of_entry d)"
  using assms by (simp_all add: short_ok_def FatDirent_IsLastInList_def skipped_def FatDirent_IsDummiedOut_def cstr_id
      same_file_def item_entry_def file_of_entry_def)

lemma item_dirents_live:
  assumes "item_ok i" "e \<in> set (item_dirents i)"
  shows "\<not> FatDirent_IsLastInList e" "skipped e \<or> name_At e 0 \<noteq> 32"
proof -
  have "\<not> FatDirent_IsLastInList e \<and> (skipped e \<or> name_At e 0 \<noteq> 32)"
  proof (cases i)
    case (Deleted b)
    then have "name_At e 0 = 0xE5" using assms by auto (subst name_At_byte, auto)
    then show ?thesis by (simp add: FatDirent_IsLastInList_def skipped_def FatDirent_IsDummiedOut_def)
  next
    case (Item ls d)
    then show ?thesis using assms long_dirent [of ls d] short_dirent [of d] by auto
  qed
  then show "\<not> FatDirent_IsLastInList e" "skipped e \<or> name_At e 0 \<noteq> 32" by simp_all
qed

lemma find_skipped: "\<forall>e \<in> set es. skipped e \<Longrightarrow> find (named name) (es @ rest) = find (named name) rest"
  by (induction es) (simp_all add: named_def)

lemma find_items:
  assumes "\<forall>i \<in> set items. item_ok i" "0 \<notin> set name"
  shows "rel_option (\<lambda>it d. same_file it (file_of_entry d)) (find_short name (item_entries items))
    (find (named name) (concat (map item_dirents items)))"
  using assms(1)
proof (induction items rule: item_entries.induct)
  case (2 b items)
  then have "name_At (FatDirent_of_bytes b) 0 = 0xE5" by (subst name_At_byte) auto
  then show ?case using 2 by (simp add: named_def skipped_def FatDirent_IsDummiedOut_def)
next
  case (3 ls d items)
  then have ok: "short_ok d" "long_ok ls d" by simp_all
  have "find (named name) (map FatDirent_of_bytes ls @ d # concat (map item_dirents items)) =
      find (named name) (d # concat (map item_dirents items))"
    using long_dirent(2) [OF ok(2)] by (intro find_skipped) auto
  moreover have "named name d \<longleftrightarrow> dirent_name d = name"
    using short_dirent [OF ok(1)] cstr_id [OF assms(2)] by (simp add: named_def)
  moreover have "en_shortName (item_entry ls d) = dirent_name d" by (simp add: item_entry_def)
  ultimately show ?case using 3 short_dirent(5) [OF ok(1), of ls] by (simp add: find_short_def)
qed (simp add: find_short_def)

lemma dir_end_entries:
  assumes "dir_end rest"
  shows "takeWhile (\<lambda>e. \<not> FatDirent_IsLastInList e) (dir_entries rest) = []"
proof (cases "length rest < 32")
  case False
  then have "length rest div 32 \<noteq> 0" by (simp add: div_eq_0_iff)
  then obtain n where n: "length rest div 32 = Suc n" by (cases "length rest div 32") auto
  then have "dir_entries rest = entS rest 0 # map (entS rest) [1 ..< Suc n]"
    unfolding dir_entries_def by (simp add: upt_conv_Cons del: upt_Suc)
  moreover have "name_At (entS rest 0) 0 = 0"
    using False assms by (simp add: entS_def subbytes_def dir_end_def) (subst name_At_byte, auto)
  ultimately show ?thesis by (simp add: FatDirent_IsLastInList_def)
qed (simp add: dir_entries_def)

lemma lookup_on_disk:
  assumes dir: "dir_chain s raw img cs es n" and g: "volume s raw img" "unat (FatSuper_BytesPerSector s) = 512"
    and d: "disk_holds d s img" and name: "0 \<notin> set name"
  shows "no_blank_names (chain_entries (bios_content d) s (map of_nat cs))"
    "rel_option (\<lambda>it e. same_file it (file_of_entry e)) (find_short name es)
       (dir_lookup name (chain_entries (bios_content d) s (map of_nat cs)))"
proof -
  obtain items rest where i: "is_chain s raw cs" "chain_data s img cs = concat (map item_bytes items) @ rest"
    "\<forall>i \<in> set items. item_ok i" "dir_end rest" "es = item_entries items"
    using dir unfolding dir_chain_def by blast
  have items: "\<forall>x \<in> set (map item_bytes items). 32 dvd length x" using i(3) dir_entries_item(1) by auto
  then have "32 dvd length (concat (map item_bytes items))" by (induction items) simp_all
  then have "chain_entries (bios_content d) s (map of_nat cs) =
      concat (map dir_entries (map item_bytes items)) @ dir_entries rest"
    unfolding chain_entries_on_disk [OF g d i(1)] i(2) by (simp only: dir_entries_append dir_entries_concat [OF items])
  also have "map dir_entries (map item_bytes items) = map item_dirents items" using i(3) dir_entries_item(2) by simp
  finally have e: "chain_entries (bios_content d) s (map of_nat cs) = concat (map item_dirents items) @ dir_entries rest" .
  have live: "\<forall>e \<in> set (concat (map item_dirents items)). \<not> FatDirent_IsLastInList e \<and> (skipped e \<or> name_At e 0 \<noteq> 32)"
    using i(3) item_dirents_live by (auto, blast)
  then have t: "takeWhile (\<lambda>e. \<not> FatDirent_IsLastInList e) (concat (map item_dirents items) @ dir_entries rest) =
      concat (map item_dirents items)"
    using dir_end_entries [OF i(4)] by (subst takeWhile_append2) auto
  show "no_blank_names (chain_entries (bios_content d) s (map of_nat cs))"
    unfolding no_blank_names_def e t using live by auto
  show "rel_option (\<lambda>it e. same_file it (file_of_entry e)) (find_short name es)
       (dir_lookup name (chain_entries (bios_content d) s (map of_nat cs)))"
    unfolding dir_lookup_def e t i(5) by (rule find_items [OF i(3) name])
qed

subsection \<open>Walking a path\<close>

text \<open>
  A walk of the editor that uses the short names only, through directories whose chains satisfy
  \<^verbatim>\<open>Q\<close>: the driver makes the same walk on the disk.
\<close>

inductive name_walk ::
    "FatSuper \<Rightarrow> bytes \<Rightarrow> bytes \<Rightarrow> (nat list \<Rightarrow> bool) \<Rightarrow> DirEntry \<Rightarrow> bytes list \<Rightarrow> DirEntry \<Rightarrow> bool"
  for s :: FatSuper and raw img :: bytes and Q :: "nat list \<Rightarrow> bool" where
  arrived: "name_walk s raw img Q ent [] ent"
| enter: "en_isDirectory ent \<Longrightarrow> dir_chain s raw img cs es n \<Longrightarrow> of_nat (hd cs) = en_firstCluster ent \<Longrightarrow>
    Q cs \<Longrightarrow> IsShortName name \<Longrightarrow> find_short name es = Some it \<Longrightarrow>
    name_walk s raw img Q it path out \<Longrightarrow> name_walk s raw img Q ent (name # path) out"

lemma name_walk_append:
  "name_walk s raw img Q ent path mid \<Longrightarrow> name_walk s raw img Q mid rest out \<Longrightarrow> name_walk s raw img Q ent (path @ rest) out"
  by (induction rule: name_walk.induct) (auto intro: enter)

lemma name_walk_mono: "name_walk s raw img Q ent path out \<Longrightarrow> (\<And>cs. Q cs \<Longrightarrow> Q' cs) \<Longrightarrow> name_walk s raw img Q' ent path out"
  by (induction rule: name_walk.induct) (auto intro: name_walk.intros)

text \<open>When every directory on the way has its entries still, and maybe more behind them, the walk is the same.\<close>

lemma find_short_append: "find_short name es = Some it \<Longrightarrow> find_short name (es @ new) = Some it"
  by (induction es) (auto simp: find_short_def)

lemma name_walk_grown:
  assumes "\<And>ocs es n. dir_chain s raw img ocs es n \<Longrightarrow> Q ocs \<Longrightarrow>
    \<exists>ocs' new n'. hd ocs' = hd ocs \<and> Q' ocs' \<and> dir_chain s raw' img' ocs' (es @ new) n'"
  shows "name_walk s raw img Q ent path out \<Longrightarrow> name_walk s raw' img' Q' ent path out"
proof (induction rule: name_walk.induct)
  case (enter ent ocs es n name it path out)
  obtain ocs' new n' where "hd ocs' = hd ocs" "Q' ocs'" "dir_chain s raw' img' ocs' (es @ new) n'"
    using assms [OF enter.hyps(2,4)] by blast
  then show ?case using enter.hyps(1,3,5,6) enter.IH find_short_append
    by (intro name_walk.enter [of ent s raw' img' ocs' "es @ new" n']) simp_all
qed (rule arrived)

lemma name_walk_kept:
  assumes "\<And>ocs. is_chain s raw ocs \<Longrightarrow> Q ocs \<Longrightarrow> Q' ocs \<and> is_chain s raw' ocs \<and> chain_data s img' ocs = chain_data s img ocs"
    and "name_walk s raw img Q ent path out"
  shows "name_walk s raw' img' Q' ent path out"
proof (rule name_walk_grown [OF _ assms(2)])
  fix ocs es n assume d: "dir_chain s raw img ocs es n" "Q ocs"
  then have "is_chain s raw ocs" by (auto simp: dir_chain_def)
  with assms(1) d(2) have q: "Q' ocs" "is_chain s raw' ocs" "chain_data s img' ocs = chain_data s img ocs" by simp_all
  from dir_chain_cong [OF d(1) q(2,3)] q(1)
  show "\<exists>ocs' new n'. hd ocs' = hd ocs \<and> Q' ocs' \<and> dir_chain s raw' img' ocs' (es @ new) n'"
    by (metis append_Nil2)
qed

lemma name_walk_on_disk:
  assumes v: "volume s raw img" and f: "fat_stored s raw img" "fat_clean raw" and d: "disk_holds d s img"
  shows "name_walk s raw img Q ent path out \<Longrightarrow> \<forall>n \<in> set path. 0 \<notin> set n \<Longrightarrow> same_file ent f \<Longrightarrow>
    \<exists>g. same_file out g \<and> walks (bios_content d) 512 s f path (Ok, g)"
proof (induction arbitrary: f rule: name_walk.induct)
  case (arrived ent)
  then show ?case using walk_done by blast
next
  case (enter ent cs es n name it path out)
  have b: "unat (FatSuper_BytesPerSector s) = 512" using f by (simp add: fat_stored_def)
  have g: "geometry s raw" using v by (simp add: volume_def)
  have c: "is_chain s raw cs" using enter.hyps(2) by (auto simp: dir_chain_def)
  have name: "0 \<notin> set name" using enter.prems(1) by simp
  note look = lookup_on_disk [OF enter.hyps(2) v b d name]
  obtain e where e: "dir_lookup name (chain_entries (bios_content d) s (map of_nat cs)) = Some e" "same_file it (file_of_entry e)"
    using look(2) enter.hyps(6) by (auto simp: option_rel_Some1)
  obtain h where h: "same_file out h" "walks (bios_content d) 512 s (file_of_entry e) path (Ok, h)"
    using enter.IH [OF _ e(2)] enter.prems(1) by auto
  have at: "ff_cluster f = of_nat (hd cs)" "FlagField_IsSet (ff_flags f) Flags_Directory"
    using enter.prems(2) enter.hyps(1,3) by (simp_all add: same_file_def)
  have "volume_chain (bios_content d) 512 s (ff_cluster f) (map of_nat cs)"
    unfolding at(1) by (rule chain_on_disk [OF g f(1) d f(2) c])
  from walk_into [OF enter.hyps(5) at(2) this look(1) e(1) h(2)] h(1) show ?case by blast
qed

text \<open>Both sides split a path alike, up to a zero byte.\<close>

lemma is_sep_path_sep: "is_sep = path_sep"
  by (simp add: fun_eq_iff is_sep_def path_sep_def)

lemma path_components_eq: "0 \<notin> set name \<Longrightarrow> path_components name = SplitPath name"
proof (induction name rule: path_components.induct)
  case (1 name)
  consider (empty) "name = []" | (sep) "name \<noteq> []" "is_sep (hd name)" | (word) "name \<noteq> []" "\<not> is_sep (hd name)" by blast
  then show ?case
  proof cases
    case empty
    then show ?thesis by (simp add: path_components.simps [of "[]"] SplitPath_runs)
  next
    case sep
    then have hd: "hd name \<noteq> 0" using 1(3) by (metis list.set_sel(1))
    have "0 \<notin> set (dropWhile is_sep name)" using 1(3) set_dropWhileD by metis
    then show ?thesis using 1(1) [OF _ sep(2)] sep hd
      by (subst path_components.simps) (simp add: SplitPath_runs is_sep_path_sep runs_dropWhile)
  next
    case word
    then have hd: "hd name \<noteq> 0" using 1(3) by (metis list.set_sel(1))
    have eq: "takeWhile name_char name = takeWhile (\<lambda>c. \<not> path_sep c) name"
      "dropWhile name_char name = dropWhile (\<lambda>c. \<not> path_sep c) name"
      using 1(3) by (auto intro!: takeWhile_cong dropWhile_cong simp: name_char_def is_sep_path_sep)
    have "0 \<notin> set (dropWhile name_char name)" using 1(3) set_dropWhileD by metis
    then have "path_components (dropWhile name_char name) = SplitPath (dropWhile name_char name)"
      using 1(2) word hd by simp
    moreover have "runs path_sep [] name = takeWhile (\<lambda>c. \<not> path_sep c) name # runs path_sep [] (dropWhile (\<lambda>c. \<not> path_sep c) name)"
      using word by (intro runs_takeWhile) (cases name, simp_all add: is_sep_path_sep)
    ultimately show ?thesis using word hd
      by (subst path_components.simps) (simp add: SplitPath_runs is_sep_path_sep eq)
  qed
qed

lemma runs_subset: "w \<in> set (runs sep cur s) \<Longrightarrow> set w \<subseteq> set cur \<union> set s"
  by (induction s arbitrary: cur) (fastforce split: if_splits)+

lemma root_same: "same_file (root_entry (super fs)) (RootDir fs)"
  by (simp add: same_file_def root_entry_def RootDir_def FlagField_defs Flags_Directory_def)

lemma driver_finds:
  assumes v: "volume s raw img" and f: "fat_stored s raw img" "fat_clean raw" and d: "disk_holds (blk fs) s img"
    and inv: "fatfs_inv BIOS_ops bios_reliable bios_content fs" "super fs = s" "length junk = 13"
    and walk: "name_walk s raw img Q (root_entry s) (SplitPath path) ent" "0 \<notin> set path"
  shows "\<exists>g fs'. FindByPath BIOS_ops junk fs path = Some (Ok, g, fs') \<and> same_file ent g \<and>
    fatfs_inv BIOS_ops bios_reliable bios_content fs' \<and> super fs' = s \<and> disk_holds (blk fs') s img"
proof -
  have "\<forall>n \<in> set (SplitPath path). 0 \<notin> set n"
    using walk(2) runs_subset [of _ path_sep "[]" path] by (auto simp: SplitPath_runs)
  with name_walk_on_disk [OF v f d walk(1)] root_same [of fs] inv(2) obtain g where g: "same_file ent g"
    "walks (bios_content (blk fs)) 512 s (RootDir fs) (SplitPath path) (Ok, g)" by blast
  have "reliable_bios.find_result fs (Ok, g) (FindByPath_loop BIOS_ops junk fs path (RootDir fs))"
    using reliable_bios.FindByPath_loop_correct [OF inv(1,3), of "RootDir fs" path "(Ok, g)"] g(2)
    by (simp add: BIOS_sector_size inv(2) path_components_eq [OF walk(2)])
  then obtain fs' where "FindByPath BIOS_ops junk fs path = Some (Ok, g, fs')"
    "reliable_bios.same_device (blk fs) (blk fs')" "super fs' = s" "fatfs_inv BIOS_ops bios_reliable bios_content fs'"
    using inv(2) by (auto simp: FindByPath_def reliable_bios.find_result_reliable)
  then show ?thesis using g(1) d by (auto simp: disk_holds_def reliable_bios.same_device_def)
qed

subsection \<open>From the editor to the loader\<close>

text \<open>
  A place for a file that the driver finds as well: the parent directory is reached by short names,
  through directories that share no cluster with it.
\<close>

definition boot_place :: "FatSuper \<Rightarrow> bytes \<Rightarrow> bytes \<Rightarrow> bytes list \<Rightarrow> nat list \<Rightarrow> DirEntry list \<Rightarrow> nat \<Rightarrow> bool" where
  "boot_place s raw img path dcs es n \<longleftrightarrow> pack_target s raw img path dcs es n \<and>
     (\<exists>parent. name_walk s raw img (\<lambda>cs. set cs \<inter> set dcs = {}) (root_entry s) (butlast path) parent \<and> en_isDirectory parent \<and>
        of_nat (hd dcs) = en_firstCluster parent)"

lemma find_short_new:
  "\<forall>it \<in> set es. en_shortName it \<noteq> name \<Longrightarrow> en_shortName ent = name \<Longrightarrow> find_short name (es @ [ent]) = Some ent"
  by (induction es) (auto simp: find_short_def)

lemma added_walk:
  assumes place: "boot_place s raw img path dcs es n" and a: "added s raw img dcs es n ent raw' img'"
    and name: "en_shortName ent = last path"
    and Q: "\<And>ocs. set ocs \<inter> set dcs = {} \<Longrightarrow> Q ocs" "\<And>dcs'. (n + 64 < length dcs * cluster_size s \<longrightarrow> dcs' = dcs) \<Longrightarrow> Q dcs'"
  shows "name_walk s raw' img' Q (root_entry s) path ent"
proof -
  obtain parent where p: "name_walk s raw img (\<lambda>cs. set cs \<inter> set dcs = {}) (root_entry s) (butlast path) parent" "en_isDirectory parent"
    "of_nat (hd dcs) = en_firstCluster parent"
    and t: "path \<noteq> []" "storable (last path)" "\<forall>it \<in> set es. en_shortName it \<noteq> last path"
    using place unfolding boot_place_def pack_target_def by blast
  obtain dcs' where d: "hd dcs' = hd dcs" "dir_chain s raw' img' dcs' (es @ [ent]) (n + 32)"
    "n + 64 < length dcs * cluster_size s \<longrightarrow> dcs' = dcs" using a by (auto simp: added_def)
  have up: "name_walk s raw' img' Q (root_entry s) (butlast path) parent"
    using a Q(1) by (intro name_walk_kept [OF _ p(1)]) (simp add: added_def)
  have "IsShortName (last path)" using storable_short [OF t(2)] cstr_id [OF storable_zero [OF t(2)]] by simp
  from enter [OF p(2) d(2) _ _ this find_short_new [OF t(3) name] arrived, of Q] d(1) p(3) Q(2) [OF d(3)]
  have "name_walk s raw' img' Q parent [last path] ent" by simp
  from name_walk_append [OF up this] t(1) show ?thesis by simp
qed

text \<open>An entry of a file and the chain with its contents.\<close>

definition file_data :: "FatSuper \<Rightarrow> bytes \<Rightarrow> bytes \<Rightarrow> DirEntry \<Rightarrow> nat list \<Rightarrow> bytes \<Rightarrow> bool" where
  "file_data s raw img ent cs contents \<longleftrightarrow> \<not> en_isDirectory ent \<and> en_firstCluster ent = of_nat (hd cs) \<and>
     unat (en_size ent) = length contents \<and> is_chain s raw cs \<and> take (length contents) (chain_data s img cs) = contents"

text \<open>A file on a path of short names, and one of a volume with the FAT written back.\<close>

definition stored_file :: "FatSuper \<Rightarrow> bytes \<Rightarrow> bytes \<Rightarrow> bytes list \<Rightarrow> bytes \<Rightarrow> bool" where
  "stored_file s raw img path contents \<longleftrightarrow>
     (\<exists>ent cs. name_walk s raw img (\<lambda>_. True) (root_entry s) path ent \<and> file_data s raw img ent cs contents)"

lemma stored_file_kept:
  assumes "stored_file s raw img path contents" "\<And>c. data_cluster s c \<Longrightarrow> cluster_data s img' c = cluster_data s img c"
  shows "stored_file s raw img' path contents"
proof -
  have data: "chain_data s img' cs = chain_data s img cs" if "is_chain s raw cs" for cs
    using assms(2) that by (intro chain_data_cong) (simp add: is_chain_def)
  obtain ent cs where o: "name_walk s raw img (\<lambda>_. True) (root_entry s) path ent" "file_data s raw img ent cs contents"
    using assms(1) unfolding stored_file_def by blast
  have "name_walk s raw img' (\<lambda>_. True) (root_entry s) path ent" by (rule name_walk_kept [OF _ o(1)]) (simp add: data)
  moreover have "file_data s raw img' ent cs contents" using o(2) data by (simp add: file_data_def)
  ultimately show ?thesis unfolding stored_file_def by blast
qed

definition boot_file :: "FatSuper \<Rightarrow> bytes \<Rightarrow> bytes \<Rightarrow> bytes list \<Rightarrow> bytes \<Rightarrow> bool" where
  "boot_file s raw img path contents \<longleftrightarrow> volume s raw img \<and> fat_stored s raw img \<and> fat_clean raw \<and>
     stored_file s raw img path contents"

text \<open>The driver finds the file on the path, and the chain of clusters with its contents.\<close>

lemma boot_file_found:
  assumes stored: "boot_file s raw img (SplitPath path) contents" and path: "0 \<notin> set path"
    and fs: "fatfs_inv BIOS_ops bios_reliable bios_content fs" "super fs = s" "disk_holds (blk fs) s img" "length junk = 13"
  shows "\<exists>f fs1 cs. FindByPath BIOS_ops junk fs path = Some (Ok, f, fs1) \<and> unat (ff_size f) = length contents \<and>
    \<not> FlagField_IsSet (ff_flags f) Flags_Directory \<and> fatfs_inv BIOS_ops bios_reliable bios_content fs1 \<and>
    super fs1 = s \<and> disk_holds (blk fs1) s img \<and>
    volume_chain (bios_content (blk fs1)) 512 (super fs1) (ff_cluster f) cs \<and>
    take (length contents) (file_bytes (bios_content (blk fs1)) (super fs1) f cs) = contents \<and>
    (contents \<noteq> [] \<longrightarrow> file_bytes (bios_content (blk fs1)) (super fs1) f cs = contents)"
proof -
  obtain ent cs where v: "volume s raw img" "fat_stored s raw img" "fat_clean raw"
    and walk: "name_walk s raw img (\<lambda>_. True) (root_entry s) (SplitPath path) ent" and data: "file_data s raw img ent cs contents"
    using stored unfolding boot_file_def stored_file_def by blast
  have cs: "is_chain s raw cs" "take (length contents) (chain_data s img cs) = contents" using data by (simp_all add: file_data_def)
  obtain g fs1 where g: "FindByPath BIOS_ops junk fs path = Some (Ok, g, fs1)" "same_file ent g"
    "fatfs_inv BIOS_ops bios_reliable bios_content fs1" "super fs1 = s" "disk_holds (blk fs1) s img"
    using driver_finds [OF v fs(3,1,2,4) walk path] by blast
  have f: "ff_cluster g = of_nat (hd cs)" "unat (ff_size g) = length contents" "\<not> FlagField_IsSet (ff_flags g) Flags_Directory"
    using g(2) data by (simp_all add: same_file_def file_data_def)
  have geo: "geometry s raw" using v(1) by (simp add: volume_def)
  have "volume_chain (bios_content (blk fs1)) 512 (super fs1) (ff_cluster g) (map of_nat cs)"
    unfolding f(1) g(4) by (rule chain_on_disk [OF geo v(2) g(5) v(3) cs(1)])
  moreover have "unat (FatSuper_BytesPerSector s) = 512" using v(2) by (simp add: fat_stored_def)
  from chain_bytes_on_disk [OF geo this g(5) cs(1)]
  have "take (length contents) (file_bytes (bios_content (blk fs1)) (super fs1) g (map of_nat cs)) = contents"
    "contents \<noteq> [] \<Longrightarrow> file_bytes (bios_content (blk fs1)) (super fs1) g (map of_nat cs) = contents"
    using cs(2) f(2) by (auto simp: file_bytes_def g(4))
  ultimately show ?thesis using g f by blast
qed

text \<open>So it reads the contents.\<close>

definition loads :: "FatSuper \<Rightarrow> bytes \<Rightarrow> bytes \<Rightarrow> bytes \<Rightarrow> bool" where
  "loads s img path contents \<longleftrightarrow> (\<forall>fs junk. fatfs_inv BIOS_ops bios_reliable bios_content fs \<and> super fs = s \<and>
     disk_holds (blk fs) s img \<and> length junk = 13 \<longrightarrow>
     (\<exists>f fs1 fs2. FindByPath BIOS_ops junk fs path = Some (Ok, f, fs1) \<and> unat (ff_size f) = length contents \<and>
        \<not> FlagField_IsSet (ff_flags f) Flags_Directory \<and>
        ReadAt BIOS_ops fs1 f 0 (ff_size f) = Some (ff_size f, contents, fs2)))"

lemma boot_file_loads:
  assumes "boot_file s raw img (SplitPath path) contents" "0 \<notin> set path"
  shows "loads s img path contents"
  unfolding loads_def
proof (intro allI impI, elim conjE)
  fix fs :: "BIOSBlockDevice FatFs" and junk :: bytes
  assume a: "fatfs_inv BIOS_ops bios_reliable bios_content fs" "super fs = s" "disk_holds (blk fs) s img" "length junk = 13"
  obtain f fs1 cs where f: "FindByPath BIOS_ops junk fs path = Some (Ok, f, fs1)" "unat (ff_size f) = length contents"
    "\<not> FlagField_IsSet (ff_flags f) Flags_Directory" "fatfs_inv BIOS_ops bios_reliable bios_content fs1"
    "volume_chain (bios_content (blk fs1)) 512 (super fs1) (ff_cluster f) cs"
    "take (length contents) (file_bytes (bios_content (blk fs1)) (super fs1) f cs) = contents"
    using boot_file_found [OF assms a] by blast
  have "of_nat (length contents) = ff_size f" unfolding f(2) [symmetric] by simp
  then obtain fs2 where "ReadAt BIOS_ops fs1 f 0 (ff_size f) = Some (ff_size f, contents, fs2)"
    using ReadAt_bios [OF f(4,5), of 0 "ff_size f"] f(2,6) by auto
  then show "\<exists>f fs1 fs2. FindByPath BIOS_ops junk fs path = Some (Ok, f, fs1) \<and> unat (ff_size f) = length contents \<and>
        \<not> FlagField_IsSet (ff_flags f) Flags_Directory \<and> ReadAt BIOS_ops fs1 f 0 (ff_size f) = Some (ff_size f, contents, fs2)"
    using f(1-3) by blast
qed

text \<open>
  A file that is there already, with directories on its path that share no cluster with the directory
  \<^verbatim>\<open>dcs\<close> or are this directory: it stays when an entry is added to \<^verbatim>\<open>dcs\<close>.
\<close>

definition stored_beside :: "FatSuper \<Rightarrow> bytes \<Rightarrow> bytes \<Rightarrow> nat list \<Rightarrow> bytes list \<Rightarrow> bytes \<Rightarrow> bool" where
  "stored_beside s raw img dcs path contents \<longleftrightarrow>
     (\<exists>ent cs. name_walk s raw img (\<lambda>ocs. set ocs \<inter> set dcs = {} \<or> ocs = dcs) (root_entry s) path ent \<and>
        file_data s raw img ent cs contents \<and> set cs \<inter> set dcs = {})"

lemma dir_chain_unique:
  assumes "dir_chain s raw img cs es n" "dir_chain s raw img cs es' n'"
  shows "es = es'"
proof -
  have "\<exists>rest. parse_dir [] (chain_data s img cs) = Parsed (es, rest)" if "dir_chain s raw img cs es n" for es n
    using that parse_dir_items [of _ _ "[]"] by (fastforce simp: dir_chain_def)
  from this [OF assms(1)] this [OF assms(2)] show ?thesis by auto
qed

lemma beside_walk:
  assumes a: "added s raw img dcs es n new raw' img'" and dir: "dir_chain s raw img dcs es n"
    and walk: "name_walk s raw img (\<lambda>ocs. set ocs \<inter> set dcs = {} \<or> ocs = dcs) (root_entry s) path ent"
    and Q: "\<And>ocs. set ocs \<inter> set dcs = {} \<Longrightarrow> Q ocs" "\<And>dcs'. (n + 64 < length dcs * cluster_size s \<longrightarrow> dcs' = dcs) \<Longrightarrow> Q dcs'"
  shows "name_walk s raw' img' Q (root_entry s) path ent"
proof (rule name_walk_grown [OF _ walk])
  obtain dcs' where d: "hd dcs' = hd dcs" "dir_chain s raw' img' dcs' (es @ [new]) (n + 32)"
    "n + 64 < length dcs * cluster_size s \<longrightarrow> dcs' = dcs"
    and other: "\<And>ocs. is_chain s raw ocs \<Longrightarrow> set ocs \<inter> set dcs = {} \<Longrightarrow> is_chain s raw' ocs \<and> chain_data s img' ocs = chain_data s img ocs"
    using a unfolding added_def by blast
  fix ocs es' n' assume o: "dir_chain s raw img ocs es' n'" "set ocs \<inter> set dcs = {} \<or> ocs = dcs"
  have c: "is_chain s raw ocs" using o(1) by (auto simp: dir_chain_def)
  from o(2) show "\<exists>ocs' new n''. hd ocs' = hd ocs \<and> Q ocs' \<and> dir_chain s raw' img' ocs' (es' @ new) n''"
  proof
    assume e: "set ocs \<inter> set dcs = {}"
    from other [OF c this] dir_chain_cong [OF o(1)] have "dir_chain s raw' img' ocs (es' @ []) n'" by simp
    then show ?thesis using Q(1) [OF e] by blast
  next
    assume "ocs = dcs"
    then show ?thesis using d(1,2) Q(2) [OF d(3)] dir_chain_unique [OF o(1)] dir by blast
  qed
qed

text \<open>
  What is there after an entry for a file was added: the file itself and those that were there. When
  the directory did not need another cluster, this can be repeated.
\<close>

lemma stored_after:
  assumes a: "added s raw img dcs es n new raw' img'"
  shows "boot_place s raw img path dcs es n \<Longrightarrow> en_shortName new = last path \<Longrightarrow> file_data s raw' img' new cs contents \<Longrightarrow>
      stored_file s raw' img' path contents"
    "dir_chain s raw img dcs es n \<Longrightarrow> stored_beside s raw img dcs other contents \<Longrightarrow> stored_file s raw' img' other contents"
  using added_walk [OF _ a, of path "\<lambda>_. True"] beside_walk [OF a, of other _ "\<lambda>_. True"] a
  unfolding stored_file_def stored_beside_def by (blast, fastforce simp: added_def file_data_def)

lemma beside_after:
  assumes a: "added s raw img dcs es n new raw' img'" and room: "n + 64 < length dcs * cluster_size s"
  shows "boot_place s raw img path dcs es n \<Longrightarrow> en_shortName new = last path \<Longrightarrow> file_data s raw' img' new cs contents \<Longrightarrow>
      set cs \<inter> set dcs = {} \<Longrightarrow> stored_beside s raw' img' dcs path contents"
    "dir_chain s raw img dcs es n \<Longrightarrow> stored_beside s raw img dcs other contents \<Longrightarrow> stored_beside s raw' img' dcs other contents"
  using added_walk [OF _ a, of path "\<lambda>ocs. set ocs \<inter> set dcs = {} \<or> ocs = dcs"] room a
    beside_walk [OF a, of other _ "\<lambda>ocs. set ocs \<inter> set dcs = {} \<or> ocs = dcs"]
  unfolding stored_beside_def by (blast, fastforce simp: added_def file_data_def)

context reliable_posix
begin

lemma pack_adds:
  assumes vol: "edit_volume inode bytes_of st"
    and args: "\<forall>c \<in> set src. \<not> isspace c" "target \<noteq> []" "\<not> isspace (hd target)"
    and place: "pack_target (ed_super st) (ed_fatRaw st) (image_of inode bytes_of st) (SplitPath target) dcs es n"
    and input: "names (ed_sys st) (cstr src) = Some i" "i \<noteq> inode (ed_sys st) (ed_file st)" "ed_file st \<in> opened (ed_sys st)"
  shows "\<exists>r st'. PackDirectory P (src @ 32 # target) st = Some (r, st') \<and> typed_step st st' \<and> ed_volume st' \<and> host_kept st st' \<and>
    (case r of Inl e \<Rightarrow> e = no_space \<and> no_free_cluster st'
     | Inr _ \<Rightarrow> \<exists>ent cs. added (ed_super st) (ed_fatRaw st) (image st) dcs es n ent (ed_fatRaw st') (image st') \<and>
         en_shortName ent = last (SplitPath target) \<and> en_longName ent = last (SplitPath target) \<and>
         file_data (ed_super st) (ed_fatRaw st') (image st') ent cs (bytes_of (ed_sys st) i) \<and> set cs \<inter> set dcs = {})"
proof -
  let ?s = "ed_super st" and ?c = "bytes_of (ed_sys st) i" and ?name = "last (SplitPath target)"
  from pack_command [OF assms] obtain r st1 where
    p: "PackDirectory P (src @ 32 # target) st = Some (r, st1)" "edit_volume inode bytes_of st1" "host_kept st st1"
    "case r of Inl e \<Rightarrow> e = no_space \<and> no_free_cluster st1
     | Inr _ \<Rightarrow> ed_super st1 = ?s \<and> ed_cout st1 = ed_cout st @ text_bytes ''Packed `'' @ src @ text_bytes ''`'' @ [10] \<and>
         (\<exists>cs. file_added ?s (ed_fatRaw st) (image_of inode bytes_of st) dcs es n ?name ?c (ed_fatRaw st1) (image_of inode bytes_of st1) cs)"
    by blast
  have t: "typed_step st st1" "ed_volume st1"
    using typed_commands(2) [of st P "src @ 32 # target"] p(1,2) by (simp_all add: typed_run_def image_eq)
  show ?thesis
  proof (cases r)
    case (Inr u)
    then obtain cs where
      fa: "added ?s (ed_fatRaw st) (image st) dcs es n (file_entry ?name (of_nat (hd cs)) (length ?c)) (ed_fatRaw st1) (image st1)"
        "is_chain ?s (ed_fatRaw st1) cs" "take (length ?c) (chain_data ?s (image st1) cs) = ?c" "length ?c < 2 ^ 32" "set cs \<inter> set dcs = {}"
      using p(4) by (auto simp: file_added_def image_eq)
    have "file_data ?s (ed_fatRaw st1) (image st1) (file_entry ?name (of_nat (hd cs)) (length ?c)) cs ?c"
      using fa(2-4) unat_of_nat_u32 [of "length ?c"] by (simp add: file_data_def file_entry_def)
    then show ?thesis using p(1,3) t Inr fa(1,5)
      by (intro exI [of _ r] exI [of _ st1]) (auto simp: file_entry_def)
  qed (use p(1,3,4) t in auto)
qed

lemma pack_stores:
  assumes vol: "edit_volume inode bytes_of st"
    and args: "\<forall>c \<in> set src. \<not> isspace c" "target \<noteq> []" "\<not> isspace (hd target)"
    and place: "boot_place (ed_super st) (ed_fatRaw st) (image_of inode bytes_of st) (SplitPath target) dcs es n"
    and input: "names (ed_sys st) (cstr src) = Some i" "i \<noteq> inode (ed_sys st) (ed_file st)" "ed_file st \<in> opened (ed_sys st)"
  shows "\<exists>r st'. PackDirectory P (src @ 32 # target) st = Some (r, st') \<and> typed_step st st' \<and> ed_volume st' \<and>
    (case r of Inl e \<Rightarrow> e = no_space \<and> no_free_cluster st'
     | Inr _ \<Rightarrow> stored_file (ed_super st) (ed_fatRaw st') (image st') (SplitPath target) (bytes_of (ed_sys st) i))"
proof -
  have target: "pack_target (ed_super st) (ed_fatRaw st) (image_of inode bytes_of st) (SplitPath target) dcs es n"
    using place by (simp add: boot_place_def)
  from pack_adds [OF vol args target input] show ?thesis
    using stored_after(1) [of "ed_super st" "ed_fatRaw st" "image st"] place unfolding image_eq(1) [symmetric]
    by (fastforce split: sum.splits)
qed

lemma pack_boots:
  assumes vol: "edit_volume inode bytes_of st" and loaded: "volume_loaded st" and clean: "fat_clean (ed_fatRaw st)"
    and pack: "\<forall>c \<in> set src. \<not> isspace c" "target \<noteq> []" "\<not> isspace (hd target)"
    "boot_place (ed_super st) (ed_fatRaw st) (image_of inode bytes_of st) (SplitPath target) dcs es n"
    "names (ed_sys st) (cstr src) = Some i" "i \<noteq> inode (ed_sys st) (ed_file st)" "ed_file st \<in> opened (ed_sys st)"
  shows "\<exists>r st'. io_bind (PackDirectory P (src @ 32 # target)) (\<lambda>_. FatReader_WriteToImage P) st = Some (r, st') \<and>
    (case r of Inl e \<Rightarrow> e = no_space \<and> no_free_cluster st'
     | Inr _ \<Rightarrow> edit_volume inode bytes_of st' \<and> ed_super st' = ed_super st \<and>
         boot_file (ed_super st) (ed_fatRaw st') (image_of inode bytes_of st') (SplitPath target) (bytes_of (ed_sys st) i))"
proof -
  let ?s = "ed_super st" and ?c = "bytes_of (ed_sys st) i"
  obtain r st1 where p: "PackDirectory P (src @ 32 # target) st = Some (r, st1)" "typed_step st st1" "ed_volume st1"
    "case r of Inl e \<Rightarrow> e = no_space \<and> no_free_cluster st1 | Inr _ \<Rightarrow> stored_file ?s (ed_fatRaw st1) (image st1) (SplitPath target) ?c"
    using pack_stores [OF vol pack] by (fastforce split: sum.splits)
  have t: "ed_super st1 = ?s" "volume_loaded st1" "fat_clean (ed_fatRaw st1)"
    using p(2) loaded clean volume_loaded_typed typed_clean by (auto simp: typed_step_def)
  obtain st2 where w: "FatReader_WriteToImage P st1 = Some (Inr (), st2)" "ed_super st2 = ?s" "ed_fatRaw st2 = ed_fatRaw st1"
    "fat_stored ?s (ed_fatRaw st1) (image st2)" "length (image st2) = length (image st1)"
    "\<forall>c. data_cluster ?s c \<longrightarrow> cluster_data ?s (image st2) c = cluster_data ?s (image st1) c"
    using WriteToImage_correct [OF p(3) t(2)] unfolding t(1) by blast
  have v: "ed_volume st2" "volume ?s (ed_fatRaw st1) (image st2)" using p(3) w(2,3,5) t(1) by (simp_all add: ed_volume_def volume_def)
  show ?thesis
  proof (cases r)
    case (Inr u)
    then have "stored_file ?s (ed_fatRaw st1) (image st2) (SplitPath target) ?c"
      using p(4) w(6) stored_file_kept [of ?s "ed_fatRaw st1" "image st1"] by simp
    then have "boot_file ?s (ed_fatRaw st1) (image st2) (SplitPath target) ?c"
      using v(2) w(4) t(3) by (simp add: boot_file_def)
    then show ?thesis using p(1) Inr w(1-3) v(1) by (simp add: io_bind_def image_eq)
  qed (use p in \<open>auto simp: io_bind_def\<close>)
qed

end

text \<open>
  C10. What the editor stored under a path the boot loader finds under this path and reads. After the
  command \<^verbatim>\<open>pack\<close> for a new 8.3 name in a directory with room for an entry, and the writing back of
  the FAT, the driver of the second stage, on any disk that holds the image, resolves the path of the
  command, in any spelling with the same components, to a regular file with the size of the input, and reading it gives the bytes of the
  input; the only failure is a full volume, which leaves no free cluster. This takes sectors of 512 bytes, a FAT whose reserved
  bits are zero, and that the parent is reached by short names through directories that share no
  cluster with it.
\<close>

theorem packed_file_boots:
  assumes "reliable_posix P inode bytes_of pos opened names patience"
    and "edit_volume inode bytes_of st" "volume_loaded st" "fat_clean (ed_fatRaw st)"
    and "\<forall>c \<in> set src. \<not> isspace c" "target \<noteq> []" "\<not> isspace (hd target)"
    and "boot_place (ed_super st) (ed_fatRaw st) (image_of inode bytes_of st) (SplitPath target) dcs es n"
    and "names (ed_sys st) (cstr src) = Some i" "i \<noteq> inode (ed_sys st) (ed_file st)" "ed_file st \<in> opened (ed_sys st)"
    and "SplitPath path = SplitPath target" "0 \<notin> set path"
  shows "\<exists>r st'. io_bind (PackDirectory P (src @ 32 # target)) (\<lambda>_. FatReader_WriteToImage P) st = Some (r, st') \<and>
    (case r of Inl e \<Rightarrow> e = no_space \<and> no_free_cluster st'
     | Inr _ \<Rightarrow> edit_volume inode bytes_of st' \<and> ed_super st' = ed_super st \<and>
         loads (ed_super st) (image_of inode bytes_of st') path (bytes_of (ed_sys st) i))"
  using reliable_posix.pack_boots [OF assms(1-11), folded assms(12)] boot_file_loads [OF _ assms(13)]
  by (fastforce split: sum.splits)

subsection \<open>The example\<close>

lemma boot_place_example:
  "boot_place small_super small_fat (image_of ref_inode ref_data (small_state dir_sys 3))
     (SplitPath (text_bytes ''/BOOT.CFG'')) [2] [hello_file] 96"
proof -
  have "butlast (SplitPath (text_bytes ''/BOOT.CFG'')) = []" "FatSuper_RootDirIndex small_super = 2" by code_simp+
  then have "name_walk small_super small_fat (image_of ref_inode ref_data (small_state dir_sys 3)) (\<lambda>cs. set cs \<inter> set [2] = {}) (root_entry small_super)
      (butlast (SplitPath (text_bytes ''/BOOT.CFG''))) (root_entry small_super)"
    "en_isDirectory (root_entry small_super)" "of_nat (hd [2]) = en_firstCluster (root_entry small_super)"
    by (auto simp: root_entry_def intro: arrived)
  then show ?thesis unfolding boot_place_def using pack_place_target [OF pack_place_example] by blast
qed

text \<open>A driver on a disk that holds an image of the volume of the example.\<close>

definition image_fs :: "bytes \<Rightarrow> BIOSBlockDevice FatFs" where
  "image_fs img = FatFs_new (linear_disk (image_sector img)) small_super (replicate 512 0) (replicate 512 0)"

lemma image_fs_loads:
  assumes "loads small_super img path contents" "edit_volume inode bytes_of st" "ed_super st = small_super"
    and "img = image_of inode bytes_of st"
  shows "\<exists>f fs1 fs2. FindByPath BIOS_ops (replicate 13 0) (image_fs img) path = Some (Ok, f, fs1) \<and>
    unat (ff_size f) = length contents \<and> ReadAt BIOS_ops fs1 f 0 (ff_size f) = Some (ff_size f, contents, fs2)"
proof -
  have "30720 \<le> length img" using assms(2-4) by (simp add: edit_volume_def volume_def small_super_geometry)
  note disk = image_disk [OF this]
  have "super (image_fs img) = small_super" "blk (image_fs img) = linear_disk (image_sector img)"
    by (simp_all add: image_fs_def FatFs_new_def)
  then show ?thesis using assms(1) disk unfolding loads_def
    by (metis (no_types, lifting) image_fs_def length_replicate)
qed

theorem packed_file_boots_witness:
  "\<exists>r st'. io_bind (PackDirectory ref_posix (text_bytes ''in /BOOT.CFG'')) (\<lambda>_. FatReader_WriteToImage ref_posix)
      (small_state pack_sys 3) = Some (r, st') \<and>
    (case r of Inl e \<Rightarrow> e = no_space \<and> no_free_cluster st'
     | Inr _ \<Rightarrow> \<exists>f fs1 fs2. FindByPath BIOS_ops (replicate 13 0) (image_fs (image_of ref_inode ref_data st'))
           (text_bytes ''BOOT.CFG'') = Some (Ok, f, fs1) \<and>
         ReadAt BIOS_ops fs1 f 0 (ff_size f) = Some (ff_size f, replicate 600 65, fs2))"
proof -
  let ?st = "small_state pack_sys 3"
  have z: "SplitPath (text_bytes ''BOOT.CFG'') = SplitPath (text_bytes ''/BOOT.CFG'')" "0 \<notin> set (text_bytes ''BOOT.CFG'')"
    by code_simp+
  have c: "fat_clean (ed_fatRaw ?st)" using small_fat_clean by (simp add: small_state_def)
  obtain r st' where p: "io_bind (PackDirectory ref_posix (text_bytes ''in /BOOT.CFG'')) (\<lambda>_. FatReader_WriteToImage ref_posix) ?st = Some (r, st')"
    "case r of Inl e \<Rightarrow> e = no_space \<and> no_free_cluster st'
     | Inr _ \<Rightarrow> edit_volume ref_inode ref_data st' \<and> ed_super st' = small_super \<and>
         loads small_super (image_of ref_inode ref_data st') (text_bytes ''BOOT.CFG'') (replicate 600 65)"
    using packed_file_boots [OF ref.reliable_posix_axioms pack_edit_volume small_loaded c pack_line(2-4) _ _ _ _ z, of "[2]" "[hello_file]" 96 1]
      boot_place_example pack_sys_simps(1-3)
    unfolding pack_line(1,6) pack_state pack_image pack_sys_simps(4) by auto
  show ?thesis
  proof (cases r)
    case (Inr u)
    from p(2) [unfolded Inr] have "edit_volume ref_inode ref_data st'" "ed_super st' = small_super"
      "loads small_super (image_of ref_inode ref_data st') (text_bytes ''BOOT.CFG'') (replicate 600 65)" by simp_all
    from image_fs_loads [OF this(3,1,2) refl] show ?thesis using p(1) Inr by auto
  qed (use p in auto)
qed

end
