(* ===== verification/Loader_Boot.thy ===== *)
theory Loader_Boot
  imports Stage2_Loader_Correct Stage2_Boot Editor_To_Loader
begin

text \<open>
  Booting from a volume: the search of the loader finds the header of a kernel, the command
  \<^verbatim>\<open>multiboot\<close> loads the kernel behind a path, the script is read and run, and so a volume with the
  two files, as the editor makes it, boots the kernel.
\<close>

subsection \<open>Finding the header\<close>

definition file_word :: "bytes \<Rightarrow> nat \<Rightarrow> u32" where
  "file_word contents j = UnalignedInt_Read32 (subbytes j 4 contents)"

text \<open>A valid header at \<^verbatim>\<open>k\<close>, and no word in front of it that could be the beginning of one.\<close>

definition header_first :: "bytes \<Rightarrow> nat \<Rightarrow> bool" where
  "header_first contents k \<longleftrightarrow> 4 dvd k \<and> k + 32 \<le> length contents \<and>
     (\<forall>j < k. 4 dvd j \<longrightarrow> file_word contents j \<noteq> MultiBoot_Magic) \<and>
     MultiBootHeader_IsValid (MultiBootHeader_of_bytes (subbytes k 32 contents))"

lemma header_magic: "header_first contents k \<Longrightarrow> file_word contents k = MultiBoot_Magic"
proof -
  assume h: "header_first contents k"
  have "subbytes 0 4 (subbytes k 32 contents) = subbytes k 4 contents" by (simp add: subbytes_def)
  then show ?thesis
    using h by (simp add: header_first_def MultiBootHeader_IsValid_def MultiBootHeader_of_bytes_def Let_def file_word_def)
qed

lemma mem_read_part: "k + c \<le> n \<Longrightarrow> mem_read m (a + of_nat k) c = subbytes k c (mem_read m a n)"
  by (intro nth_equalityI) (simp_all add: mem_read_def nth_subbytes add.assoc)

lemma load32_mem_read: "load32 m a = UnalignedInt_Read32 (mem_read m a 4)"
  by (simp add: load32_Read32 mem_read_def upt_rec)

text \<open>The words of the buffer are words of the file.\<close>

lemma buffer_word:
  assumes "mem_read m p (length d) = d" "d = take n (drop off contents)" "4 * i + 4 \<le> length d"
  shows "load32 m (p + of_int (int i) * 4) = file_word contents (off + 4 * i)"
proof -
  have "p + of_int (int i) * 4 = p + of_nat (4 * i)" by simp
  then have "load32 m (p + of_int (int i) * 4) = UnalignedInt_Read32 (subbytes (4 * i) 4 d)"
    using mem_read_part [OF assms(3), of m p] assms(1) by (simp only: load32_mem_read)
  moreover have "4 * i + 4 \<le> n" using assms(2,3) by simp
  then have "subbytes (4 * i) 4 d = subbytes (off + 4 * i) 4 contents"
    unfolding assms(2) by (simp add: subbytes_def take_drop add.commute min_def)
  ultimately show ?thesis by (simp add: file_word_def)
qed

lemma scan_to_header:
  assumes disk: "file_on_disk st finfo contents" and h: "header_first contents k" "k < 8192"
    and d: "d = take 1024 (drop off contents)" "mem_read (ld_mem st) p (length d) = d"
    and off: "off \<le> k" "4 dvd off" and hdr: "length hdr = 32" and i: "i \<le> 256" "off + 4 * i \<le> k"
  shows "\<exists>st'. MBFindHeader_scan finfo p (of_nat off) (int i) (of_nat (length d)) hdr st =
      Some (Inr (if k < off + 1024 then Scan_found (of_nat k) (subbytes k 32 contents) else Scan_next (of_nat (length d)) hdr), st') \<and>
    file_on_disk st' finfo contents \<and> (\<exists>fs. st' = st\<lparr>ld_fs := Some fs\<rparr> \<or> st' = st)"
  using i
proof (induction "256 - i" arbitrary: i rule: less_induct)
  case less
  note loop = MBFindHeader_scan.simps [of finfo p "of_nat off" "int i" "of_nat (length d)" hdr]
  have k: "4 dvd k" "k + 32 \<le> length contents" "\<And>j. j < k \<Longrightarrow> 4 dvd j \<Longrightarrow> file_word contents j \<noteq> MultiBoot_Magic"
    "MultiBootHeader_IsValid (MultiBootHeader_of_bytes (subbytes k 32 contents))"
    using h(1) by (simp_all add: header_first_def)
  have dl: "length d = min 1024 (length contents - off)" by (simp add: d(1))
  have s: "sdiv4 (of_nat (length d)) = int (length d div 4)"
    using dl sint_of_nat_u32 [of "length d"] by (simp add: sdiv4_def zdiv_int)
  show ?case
  proof (cases "i < 256")
    case False
    then have "i = 256" "\<not> k < off + 1024" using less.prems by simp_all
    moreover from this have "\<not> int i < sdiv4 (of_nat (length d))" unfolding s by (simp add: dl)
    ultimately show ?thesis using disk by (subst loop) (auto simp: io_return_def)
  next
    case True
    have in_d: "4 * i + 4 \<le> length d" using dl k(2) True less.prems(2) by simp
    then have "int i < sdiv4 (of_nat (length d))" unfolding s by simp
    note word = buffer_word [OF d(2,1) in_d]
    show ?thesis
    proof (cases "off + 4 * i = k")
      case at: True
      have kk: "of_nat off + of_int (int i) * 4 = (of_nat k :: u32)" unfolding at [symmetric] by simp
      have u: "unat (of_nat k :: u32) = k" using h(2) by (intro unat_of_nat_u32) simp
      have out: "subbytes k 32 contents = take (unat (32 :: u32)) (drop (unat (of_nat k :: u32)) contents)"
        by (simp only: u) (simp add: subbytes_def)
      have len: "length (subbytes k 32 contents) = 32" using k(2) by simp
      obtain fs' where fs': "ld_ReadAt finfo (of_nat k) 32 st = Some (Inr (of_nat (length (subbytes k 32 contents)), subbytes k 32 contents), st\<lparr>ld_fs := Some fs'\<rparr>)"
        "file_on_disk (st\<lparr>ld_fs := Some fs'\<rparr>) finfo contents"
        using ld_ReadAt_file [OF disk out] by blast
      have "overwrite 0 (subbytes k 32 contents) hdr = subbytes k 32 contents" using hdr len by (simp add: overwrite_def)
      moreover have "\<not> sint (of_nat (length (subbytes k 32 contents)) :: u32) \<le> 0" unfolding len by simp
      moreover have "k < off + 1024" using at True by simp
      ultimately show ?thesis
        using word \<open>int i < _\<close> header_magic [OF h(1)] fs' k(4) unfolding at
        by (subst loop) (auto simp: io_bind_def io_get_def io_return_def kk kk [simplified] Let_def)
    next
      case before: False
      then have "off + 4 * i < k" using less.prems(2) by simp
      moreover have "4 dvd off + 4 * i" using off(2) by simp
      ultimately have "file_word contents (off + 4 * i) \<noteq> MultiBoot_Magic" by (rule k(3))
      then have step: "MBFindHeader_scan finfo p (of_nat off) (int i) (of_nat (length d)) hdr st =
          MBFindHeader_scan finfo p (of_nat off) (int (Suc i)) (of_nat (length d)) hdr st"
        using word \<open>int i < _\<close> by (subst loop) (simp add: io_bind_def io_get_def add.commute)
      have "4 dvd k - off" using off(2) k(1) by (rule dvd_diff_nat [rotated])
      then have "off + 4 * Suc i \<le> k" using \<open>off + 4 * i < k\<close> by presburger
      then show ?thesis unfolding step using True by (intro less.hyps) simp_all
    qed
  qed
qed

lemma find_loop_finds:
  assumes "file_on_disk st finfo contents" "header_first contents k" "k < 8192" "k < unat scanSize"
    and "heap_rep (ld_heap st) bs" "taken (unat (heap (ld_heap st))) bs0 bs p n" "1024 \<le> n"
    and "off \<le> k" "4 dvd off" "length hdr = 32"
  shows "\<exists>st'. MBFindHeader_loop finfo p scanSize (of_nat off) hdr st = Some (Inr (True, of_nat k, subbytes k 32 contents), st') \<and>
    file_on_disk st' finfo contents \<and> heap_rep (ld_heap st') (coalesce bs0) \<and> ld_frame st st'"
  using assms
proof (induction "k - off" arbitrary: off st rule: less_induct)
  case less
  note loop = MBFindHeader_loop.simps [of finfo p scanSize "of_nat off" hdr st]
  have u: "unat (of_nat off :: u32) = off" using less.prems(3,8) by (intro unat_of_nat_u32) simp
  have go: "of_nat off < scanSize" using less.prems(4,8) u by (simp add: word_less_nat_alt)
  define d where "d = take (unat (1024 :: u32)) (drop (unat (of_nat off :: u32)) contents)"
  have d: "d = take 1024 (drop off contents)" unfolding d_def by (simp only: u) simp
  have kl: "k + 32 \<le> length contents" using less.prems(2) by (simp add: header_first_def)
  have dl: "0 < length d" "length d \<le> 1024" using kl less.prems(8) by (simp_all add: d)
  have s: "\<not> sint (of_nat (length d) :: u32) \<le> 0" using dl sint_of_nat_u32 [of "length d"] by simp
  have buf: "heap_buffer st bs p n" using less.prems(5,6) taken_region by (simp add: heap_buffer_def)
  obtain st1 where st1: "ld_ReadAt_to finfo p (of_nat off) 1024 st = Some (Inr (of_nat (length d)), st1)"
    "file_on_disk st1 finfo contents" "heap_buffer st1 bs p n" "ld_mem st1 = mem_write (ld_mem st) p d"
    "heap (ld_heap st1) = heap (ld_heap st)" "heapEnd (ld_heap st1) = heapEnd (ld_heap st)"
    "st1 = st\<lparr>ld_heap := ld_heap st1, ld_fs := ld_fs st1\<rparr>"
    using ld_ReadAt_to_buffer [OF less.prems(1) buf d_def] less.prems(7) by auto
  have f1: "ld_frame st st1" using ld_frame_update [OF st1(5,6)] st1(7) by metis
  have "mem_read (ld_mem st1) p (length d) = d" unfolding st1(4) using dl(2) by simp
  from scan_to_header [OF st1(2) less.prems(2,3) d this less.prems(8-10), of 0] less.prems(8)
  obtain st2 where sc: "MBFindHeader_scan finfo p (of_nat off) 0 (of_nat (length d)) hdr st1 =
      Some (Inr (if k < off + 1024 then Scan_found (of_nat k) (subbytes k 32 contents) else Scan_next (of_nat (length d)) hdr), st2)"
    "file_on_disk st2 finfo contents" "\<exists>fs. st2 = st1\<lparr>ld_fs := Some fs\<rparr> \<or> st2 = st1" by auto
  have h2: "ld_heap st2 = ld_heap st1" and f2: "ld_frame st st2" using sc(3) f1 by (auto simp: ld_frame_def)
  have rep2: "heap_rep (ld_heap st2) bs" "taken (unat (heap (ld_heap st2))) bs0 bs p n"
    using st1(3,5) less.prems(6) h2 by (simp_all add: heap_buffer_def)
  have step: "MBFindHeader_loop finfo p scanSize (of_nat off) hdr st =
      (if k < off + 1024 then io_bind (ld_free p) (\<lambda>_. io_return (True, of_nat k, subbytes k 32 contents)) st2
       else MBFindHeader_loop finfo p scanSize (of_nat off + of_nat (length d)) hdr st2)"
    using go st1(1) s sc(1) by (subst loop) (simp add: io_bind_def)
  show ?case
  proof (cases "k < off + 1024")
    case True
    obtain h where h: "ld_free p st2 = Some (Inr (), st2\<lparr>ld_heap := h\<rparr>)" "heap_rep h (coalesce bs0)" "heap h = heap (ld_heap st2)"
      "heapEnd h = heapEnd (ld_heap st2)" using free_taken [OF rep2] by blast
    have "ld_frame st (st2\<lparr>ld_heap := h\<rparr>)" using f2 h(3,4) by (simp add: ld_frame_def)
    moreover have "file_on_disk (st2\<lparr>ld_heap := h\<rparr>) finfo contents" using sc(2) by (simp add: file_on_disk_def)
    ultimately show ?thesis using True step h(1,2) by (auto simp: io_bind_def io_return_def)
  next
    case False
    then have len: "length d = 1024" using kl by (simp add: d)
    have "k - (off + 1024) < k - off" "off + 1024 \<le> k" "4 dvd off + 1024" using False less.prems(9) by simp_all
    from less.hyps [OF this(1) sc(2) less.prems(2-4) rep2 less.prems(7) this(2,3) less.prems(10)] obtain st' where
      "MBFindHeader_loop finfo p scanSize (of_nat (off + 1024)) hdr st2 = Some (Inr (True, of_nat k, subbytes k 32 contents), st')"
      "file_on_disk st' finfo contents" "heap_rep (ld_heap st') (coalesce bs0)" "ld_frame st2 st'" by blast
    then show ?thesis using False step len ld_frame_trans [OF f2] by auto
  qed
qed

lemma MBFindHeader_found:
  assumes disk: "file_on_disk st finfo contents" "length contents = unat (ff_size finfo)"
    and h: "header_first contents k" "k < 8192"
    and room: "heap_rep (ld_heap st) bs" "fits 1024 bs \<noteq> {}" and hdr: "length hdr = 32"
  shows "\<exists>st'. MBFindHeader finfo hdr st = Some (Inr (True, of_nat k, subbytes k 32 contents), st') \<and>
    file_on_disk st' finfo contents \<and> heap_rep (ld_heap st') (coalesce bs) \<and> ld_frame st st'"
proof -
  define n where "n = (if ff_size finfo > multiBootMaxSearch then multiBootMaxSearch else ff_size finfo)"
  have "k < length contents" using h(1) by (simp add: header_first_def)
  then have n: "k < unat n" using disk(2) h(2) by (simp add: n_def multiBootMaxSearch_def)
  obtain p hp bs' m where p: "ld_malloc 1024 st = Some (Inr p, st\<lparr>ld_heap := hp\<rparr>)" "p \<noteq> 0" "heap hp = heap (ld_heap st)"
    "heapEnd hp = heapEnd (ld_heap st)" "1024 \<le> m" "heap_buffer (st\<lparr>ld_heap := hp\<rparr>) bs' p m" "taken (unat (heap hp)) bs bs' p m"
    using malloc_buffer [OF room] by blast
  let ?st = "st\<lparr>ld_heap := hp\<rparr>"
  have "file_on_disk ?st finfo contents" "heap_rep (ld_heap ?st) bs'" "taken (unat (heap (ld_heap ?st))) bs bs' p m"
    using disk(1) p(6,7) by (simp_all add: file_on_disk_def heap_buffer_def)
  from find_loop_finds [OF this(1) h n this(2,3) p(5), of 0 hdr] hdr obtain st' where
    st': "MBFindHeader_loop finfo p n 0 hdr ?st = Some (Inr (True, of_nat k, subbytes k 32 contents), st')"
    "file_on_disk st' finfo contents" "heap_rep (ld_heap st') (coalesce bs)" "ld_frame ?st st'" by auto
  have "ld_frame st ?st" using p(3,4) by (simp add: ld_frame_def)
  then show ?thesis using st' p(1,2) ld_frame_trans by (fastforce simp: MBFindHeader_def io_bind_def n_def)
qed

subsection \<open>The command multiboot\<close>

text \<open>A file system object on a disk of a given geometry that holds the image.\<close>

definition loader_disk :: "'h Loader \<Rightarrow> FatSuper \<Rightarrow> bytes \<Rightarrow> DriveGeometry \<Rightarrow> bool" where
  "loader_disk st s img g \<longleftrightarrow> (\<exists>fs. ld_fs st = Some fs \<and> fatfs_inv BIOS_ops bios_reliable bios_content fs \<and>
     super fs = s \<and> disk_holds (blk fs) s img \<and> bb_geometry (blk fs) = g)"

lemma loader_disk_cong: "ld_fs st' = ld_fs st \<Longrightarrow> loader_disk st' s img g = loader_disk st s img g"
  by (simp add: loader_disk_def)

lemma geometry_kept:
  assumes "fatfs_inv BIOS_ops bios_reliable bios_content fs"
  shows "FindByPath BIOS_ops junk fs name = Some (r, f, fs') \<Longrightarrow> length junk = 13 \<Longrightarrow> bb_geometry (blk fs') = bb_geometry (blk fs)"
    "ReadAt BIOS_ops fs f off sz = Some (n, out, fs') \<Longrightarrow> bb_geometry (blk fs') = bb_geometry (blk fs)"
proof -
  have d: "driver_on (bios_content (blk fs)) (super fs) (bb_geometry (blk fs)) fs"
    using assms by (simp add: driver_on_def fatfs_inv_fixed)
  show "FindByPath BIOS_ops junk fs name = Some (r, f, fs') \<Longrightarrow> length junk = 13 \<Longrightarrow> bb_geometry (blk fs') = bb_geometry (blk fs)"
    using FindByPath_driver [OF d] by (auto simp: driver_on_def fatfs_inv_fixed)
  show "ReadAt BIOS_ops fs f off sz = Some (n, out, fs') \<Longrightarrow> bb_geometry (blk fs') = bb_geometry (blk fs)"
    using ReadAt_driver [OF d] by (auto simp: driver_on_def fatfs_inv_fixed)
qed

lemma ld_finds:
  assumes "boot_file s raw img (SplitPath path) contents" "0 \<notin> set path" "loader_disk st s img g" "length (bd_nameBuffer B) = 13"
  shows "\<exists>f fs cs. ld_FindByPath B path st = Some (Inr (Ok, f), st\<lparr>ld_fs := Some fs\<rparr>) \<and> unat (ff_size f) = length contents \<and>
    fatfs_inv BIOS_ops bios_reliable bios_content fs \<and> super fs = s \<and> disk_holds (blk fs) s img \<and>
    volume_chain (bios_content (blk fs)) 512 (super fs) (ff_cluster f) cs \<and>
    take (length contents) (file_bytes (bios_content (blk fs)) (super fs) f cs) = contents \<and>
    (contents \<noteq> [] \<longrightarrow> file_bytes (bios_content (blk fs)) (super fs) f cs = contents) \<and> bb_geometry (blk fs) = g"
proof -
  obtain fs0 where fs0: "ld_fs st = Some fs0" "fatfs_inv BIOS_ops bios_reliable bios_content fs0" "super fs0 = s"
    "disk_holds (blk fs0) s img" "bb_geometry (blk fs0) = g" using assms(3) by (auto simp: loader_disk_def)
  obtain f fs cs where f: "FindByPath BIOS_ops (bd_nameBuffer B) fs0 path = Some (Ok, f, fs)" "unat (ff_size f) = length contents"
    "fatfs_inv BIOS_ops bios_reliable bios_content fs" "super fs = s" "disk_holds (blk fs) s img"
    "volume_chain (bios_content (blk fs)) 512 (super fs) (ff_cluster f) cs"
    "take (length contents) (file_bytes (bios_content (blk fs)) (super fs) f cs) = contents"
    "contents \<noteq> [] \<longrightarrow> file_bytes (bios_content (blk fs)) (super fs) f cs = contents"
    using boot_file_found [OF assms(1,2) fs0(2-4) assms(4)] by blast
  have "bb_geometry (blk fs) = g" using geometry_kept(1) [OF fs0(2) f(1) assms(4)] fs0(5) by simp
  moreover have "ld_FindByPath B path st = Some (Inr (Ok, f), st\<lparr>ld_fs := Some fs\<rparr>)" by (simp add: ld_FindByPath_def fs0(1) f(1))
  ultimately show ?thesis using f(2-8) by blast
qed

definition kernel_header :: "bytes \<Rightarrow> nat \<Rightarrow> MultiBootHeader" where
  "kernel_header contents k = MultiBootHeader_of_bytes (subbytes k 32 contents)"

text \<open>
  A kernel with its header at \<^verbatim>\<open>k\<close> that the loader accepts: what is to be loaded is the beginning of the
  file, and it and the area to be cleared fit behind the address \<^verbatim>\<open>low\<close>.
\<close>

definition kernel_file :: "u32 \<Rightarrow> bytes \<Rightarrow> nat \<Rightarrow> bool" where
  "kernel_file low contents k \<longleftrightarrow> (let hdr = kernel_header contents k; count = mb_loadEndAddr hdr - mb_loadAddr hdr in
     header_first contents k \<and> k < 8192 \<and>
     \<not> FlagField_IsSet (MultiBootHeader_Flags hdr) KernelFlags_WantVidmode \<and>
     FlagField_IsSet (MultiBootHeader_Flags hdr) KernelFlags_HaveLayoutInfo \<and>
     ExtractMemLayout hdr (of_nat k) (of_nat (length contents)) (0, 0, 0) = (True, 0, mb_loadAddr hdr, count) \<and>
     unat count < 10 ^ 9 \<and> low \<le> mb_loadAddr hdr \<and>
     unat (mb_loadAddr hdr) + length contents + unat (BSSSize hdr) < 2 ^ 32)"

text \<open>
  Memory holds the beginning of the file at the load address, at least as much as the header asks for,
  and behind it the cleared area.
\<close>

definition kernel_loaded :: "mem \<Rightarrow> bytes \<Rightarrow> MultiBootHeader \<Rightarrow> bool" where
  "kernel_loaded m contents hdr \<longleftrightarrow> (\<exists>L. unat (mb_loadEndAddr hdr - mb_loadAddr hdr) \<le> L \<and> L \<le> length contents \<and>
     mem_read m (mb_loadAddr hdr) L = take L contents \<and>
     mem_read m (mb_loadAddr hdr + of_nat L) (unat (BSSSize hdr)) = replicate (unat (BSSSize hdr)) 0)"

lemma fits_coalesce: "fits c bs \<noteq> {} \<Longrightarrow> fits c (coalesce bs) \<noteq> {}"
proof -
  have "(n, False) \<in> set bs \<Longrightarrow> \<exists>k \<ge> n. (k, False) \<in> set (coalesce bs)" for n
  proof (induction bs arbitrary: n rule: coalesce_induct)
    case (merge m k bs)
    then consider "n = m \<or> n = k" | "(n, False) \<in> set bs" by auto
    then show ?case
    proof cases
      case 1
      then have "n \<le> m + 8 + k" by auto
      then show ?thesis using merge.IH [of "m + 8 + k"] by (auto dest: order_trans)
    qed (use merge.IH in auto)
  qed auto
  then show "fits c bs \<noteq> {} \<Longrightarrow> ?thesis" by (auto simp: fits_def) (meson order_trans)
qed

text \<open>The state after a kernel was loaded.\<close>

definition kernel_ready :: "'h Loader \<Rightarrow> 'h Loader \<Rightarrow> bytes \<Rightarrow> MultiBootHeader \<Rightarrow> bool" where
  "kernel_ready st st' contents hdr \<longleftrightarrow> ld_haveKernel st' \<and> ld_kernelEntry st' = MultiBootHeader_EntryPoint hdr \<and>
     kernel_loaded (ld_mem st') contents hdr \<and> heap (ld_heap st') = heap (ld_heap st) \<and>
     heapEnd (ld_heap st') = heapEnd (ld_heap st) \<and> ld_mmap st' = ld_mmap st"

lemma CmdMultiboot_boots:
  assumes path: "boot_file s raw img (SplitPath path) contents" "0 \<notin> set path" and disk: "loader_disk st s img g"
    and board: "length (bd_nameBuffer B) = 13" "length (bd_hdr B) = 32"
    and kernel: "kernel_file (heapEnd (ld_heap st)) contents k"
    and room: "heap_rep (ld_heap st) bs" "fits 1024 bs \<noteq> {}"
  shows "\<exists>st'. CmdMultiboot B path st = Some (Inr True, st') \<and> kernel_ready st st' contents (kernel_header contents k) \<and>
    heap_rep (ld_heap st') (coalesce bs)"
proof -
  let ?hdr = "kernel_header contents k"
  let ?count = "mb_loadEndAddr ?hdr - mb_loadAddr ?hdr"
  have k: "header_first contents k" "k < 8192" "\<not> FlagField_IsSet (MultiBootHeader_Flags ?hdr) KernelFlags_WantVidmode"
    "FlagField_IsSet (MultiBootHeader_Flags ?hdr) KernelFlags_HaveLayoutInfo"
    "ExtractMemLayout ?hdr (of_nat k) (of_nat (length contents)) (0, 0, 0) = (True, 0, mb_loadAddr ?hdr, ?count)"
    "unat ?count < 10 ^ 9" "unat (heapEnd (ld_heap st)) \<le> unat (mb_loadAddr ?hdr)"
    "unat (mb_loadAddr ?hdr) + length contents + unat (BSSSize ?hdr) < 2 ^ 32"
    using kernel unfolding kernel_file_def Let_def by (simp_all add: word_le_nat_alt)
  obtain f fs cs where f: "ld_FindByPath B path st = Some (Inr (Ok, f), st\<lparr>ld_fs := Some fs\<rparr>)" "unat (ff_size f) = length contents"
    "fatfs_inv BIOS_ops bios_reliable bios_content fs" "volume_chain (bios_content (blk fs)) 512 (super fs) (ff_cluster f) cs"
    "contents \<noteq> [] \<longrightarrow> file_bytes (bios_content (blk fs)) (super fs) f cs = contents"
    using ld_finds [OF path disk board(1)] by blast
  let ?st = "st\<lparr>ld_fs := Some fs\<rparr>"
  have "contents \<noteq> []" using k(1) by (auto simp: header_first_def)
  then have "file_on_disk ?st f contents" using f(3-5) by (auto simp: file_on_disk_def)
  moreover have "heap_rep (ld_heap ?st) bs" using room(1) by simp
  ultimately obtain st1 where st1: "MBFindHeader f (bd_hdr B) ?st = Some (Inr (True, of_nat k, subbytes k 32 contents), st1)"
    "file_on_disk st1 f contents" "heap_rep (ld_heap st1) (coalesce bs)" "ld_frame ?st st1"
    using MBFindHeader_found [OF _ f(2) [symmetric] k(1,2) _ room(2) board(2)] by blast
  have size: "ff_size f = of_nat (length contents)" unfolding f(2) [symmetric] by simp
  have "fits 1024 (coalesce bs) \<noteq> {}" using room(2) by (rule fits_coalesce)
  moreover have "unat (heapEnd (ld_heap st1)) \<le> unat (mb_loadAddr ?hdr)" using st1(4) k(7) by (simp add: ld_frame_def)
  ultimately obtain st2 L where st2: "MBLoadKernel f ?hdr (of_nat k) st1 = Some (Inr True, st2)" "unat ?count \<le> L" "L \<le> length contents"
    "mem_read (ld_mem st2) (mb_loadAddr ?hdr) L = take L contents"
    "mem_read (ld_mem st2) (mb_loadAddr ?hdr + of_nat L) (unat (BSSSize ?hdr)) = replicate (unat (BSSSize ?hdr)) 0"
    "heap_rep (ld_heap st2) (coalesce (coalesce bs))" "ld_frame st1 st2"
    using MBLoadKernel_works [OF st1(2) f(2) [symmetric] st1(3) _ k(5) [folded size] k(6) _ k(8)] by blast
  let ?st' = "st2\<lparr>ld_haveKernel := True, ld_kernelEntry := MultiBootHeader_EntryPoint ?hdr\<rparr>"
  have run: "CmdMultiboot B path st = Some (Inr True, ?st')"
    using f(1) st1(1) st2(1) k(3,4)
    by (simp add: CmdMultiboot_def CmdMultiboot_found_def io_bind_def io_put_def io_return_def kernel_header_def)
  have "kernel_loaded (ld_mem ?st') contents ?hdr" unfolding kernel_loaded_def using st2(2-5) by (auto simp: ld_mem_def)
  then have "kernel_ready st ?st' contents ?hdr" using st1(4) st2(7) by (simp add: kernel_ready_def ld_frame_def)
  then show ?thesis using run st2(6) by (auto simp: coalesce_idem)
qed

subsection \<open>A heap that was only allocated from\<close>

definition one_free :: "nat list \<Rightarrow> nat \<Rightarrow> block list" where
  "one_free used rest = map (\<lambda>n. (n, True)) used @ [(rest, False)]"

lemma one_free_split:
  assumes "one_free used rest = pre @ (n, False) # post"
  shows "pre = map (\<lambda>n. (n, True)) used" "n = rest" "post = []"
proof -
  have "pre = map (\<lambda>n. (n, True)) used \<and> n = rest \<and> post = []"
    using assms
  proof (induction used arbitrary: pre)
    case Nil
    then show ?case by (cases pre) (simp_all add: one_free_def)
  next
    case (Cons u used)
    obtain b pre' where pre: "pre = b # pre'" using Cons.prems by (cases pre) (simp_all add: one_free_def)
    then have "b = (u, True)" "one_free used rest = pre' @ (n, False) # post" using Cons.prems by (simp_all add: one_free_def)
    with Cons.IH [of pre'] pre show ?case by simp
  qed
  then show "pre = map (\<lambda>n. (n, True)) used" "n = rest" "post = []" by simp_all
qed

lemma coalesce_reserved_prefix: "coalesce (map (\<lambda>n. (n, True)) used @ bs) = map (\<lambda>n. (n, True)) used @ coalesce bs"
  by (induction used) simp_all

lemma coalesce_one_free: "coalesce (one_free used rest) = one_free used rest"
  by (simp add: one_free_def coalesce_reserved_prefix)

lemma malloc_one_free:
  assumes "heap_rep (ld_heap st) (one_free used rest)" "unat k + 3 < 2 ^ 32" "round4 (unat k) + 12 \<le> rest"
  shows "\<exists>p h. ld_malloc k st = Some (Inr p, st\<lparr>ld_heap := h\<rparr>) \<and> p \<noteq> 0 \<and> heap h = heap (ld_heap st) \<and>
    heapEnd h = heapEnd (ld_heap st) \<and> heap_rep h (one_free (used @ [round4 (unat k)]) (rest - round4 (unat k) - 8)) \<and>
    unat p = unat (heap h) + span (map (\<lambda>n. (n, True)) used) + 8 \<and>
    outside_same (unat p - 8) (unat (heapEnd h)) (hmem (ld_heap st)) (hmem h)"
proof -
  let ?c = "round4 (unat k)"
  have "rest \<in> fits ?c (one_free used rest)" using assms(3) by (simp add: fits_def one_free_def)
  then have "fits ?c (one_free used rest) \<noteq> {}" by blast
  then obtain pre n post p h where m: "one_free used rest = pre @ (n, False) # post"
    "unat p = unat (heap (ld_heap st)) + span pre + 8" "malloc (ld_heap st) k = Some (p, h)"
    "heap h = heap (ld_heap st)" "heapEnd h = heapEnd (ld_heap st)" "heap_rep h (pre @ reserve_block ?c n @ post)"
    "outside_same (unat p - 8) (unat p + n) (hmem (ld_heap st)) (hmem h)"
    using malloc_best_fit [OF assms(1,2) refl] by blast
  note split = one_free_split [OF m(1)]
  have "pre @ reserve_block ?c n @ post = one_free (used @ [?c]) (rest - ?c - 8)"
    using assms(3) by (simp add: split reserve_block_def one_free_def)
  moreover have "unat p + n = unat (heapEnd h)"
    using heap_rep_end [OF assms(1)] m(1,2,5) split by simp
  moreover have "p \<noteq> 0" using m(2) by auto
  moreover have "unat p = unat (heap h) + span (map (\<lambda>n. (n, True)) used) + 8" using m(2,4) split(1) by simp
  moreover have "ld_malloc k st = Some (Inr p, st\<lparr>ld_heap := h\<rparr>)" using m(3) by (simp add: ld_malloc_def)
  ultimately show ?thesis using m(4-7) by metis
qed

text \<open>The block that was allocated last goes back to the rest.\<close>

lemma taken_last:
  assumes "unat p = a + span (map (\<lambda>n. (n, True)) used) + 8"
  shows "taken a (one_free used (c + 8 + rest)) (one_free (used @ [c]) rest) p c"
  unfolding taken_def
  by (intro exI [of _ "map (\<lambda>n. (n, True)) used"] exI [of _ "[(rest, False)]"])
    (simp add: one_free_def coalesce_reserved_prefix assms)

subsection \<open>The script\<close>

text \<open>
  A script whose last line loads the kernel behind a path. The lines in front of it are skipped, or
  print: \<^verbatim>\<open>echo\<close> with any text, \<^verbatim>\<open>info disk\<close> and \<^verbatim>\<open>info memory\<close>.
\<close>

definition boot_script :: "bytes \<Rightarrow> bytes" where
  "boot_script path = text_bytes ''multiboot '' @ path @ [10]"

definition config_script :: "bytes list \<Rightarrow> bytes \<Rightarrow> bytes" where
  "config_script lines path = concat (map (\<lambda>l. l @ [10]) lines) @ boot_script path"

definition plain_line :: "bytes \<Rightarrow> bool" where
  "plain_line line \<longleftrightarrow> 0 \<notin> set line \<and> 10 \<notin> set line \<and>
     (case script_command line of None \<Rightarrow> True
      | Some (cmd, arg) \<Rightarrow> StrEqual (text_bytes ''echo'') cmd \<or>
          StrEqual (text_bytes ''info'') cmd \<and> (StrEqual arg (text_bytes ''disk'') \<or> StrEqual arg (text_bytes ''memory'')))"

definition script_path :: "bytes \<Rightarrow> bool" where
  "script_path path \<longleftrightarrow> path \<noteq> [] \<and> 0 \<notin> set path \<and> 10 \<notin> set path \<and> \<not> IsSpace (char_at path)"

lemma multiboot_text:
  "text_bytes ''multiboot '' = text_bytes ''multiboot'' @ [32]"
  "\<forall>c \<in> set (text_bytes ''multiboot''). IsAlnum (sint c) \<and> c \<noteq> 0 \<and> c \<noteq> 10 \<and> c \<noteq> 32 \<and> c \<noteq> 9" "\<not> IsAlnum (sint (32 :: u8))" "IsSpace (sint (32 :: u8))"
  "char_at (text_bytes ''multiboot'') = 109" "\<not> StrEqual (text_bytes ''echo'') (text_bytes ''multiboot'')"
  "\<not> StrEqual (text_bytes ''info'') (text_bytes ''multiboot'')" "StrEqual (text_bytes ''multiboot'') (text_bytes ''multiboot'')"
  "IsAlnum 109" "text_bytes ''multiboot'' \<noteq> []"
  by code_simp+

lemma script_command_multiboot:
  assumes "script_path path"
  shows "script_command (text_bytes ''multiboot '' @ path) = Some (text_bytes ''multiboot'', path)"
proof -
  let ?m = "text_bytes ''multiboot''"
  have at: "char_at (?m @ x) = 109" for x using multiboot_text(5,10) by (cases ?m) (simp_all add: char_at_def)
  have "dropWhile (\<lambda>c. c = 32 \<or> c = 9) (?m @ x) = ?m @ x" for x
    using multiboot_text(2,10) by (cases ?m) simp_all
  moreover have "takeWhile (\<lambda>c. IsAlnum (sint c)) (?m @ 32 # path) = ?m" "dropWhile (\<lambda>c. IsAlnum (sint c)) (?m @ 32 # path) = 32 # path"
    using multiboot_text(2,3) by (simp_all add: takeWhile_append dropWhile_append)
  moreover have "dropWhile (\<lambda>c. IsSpace (sint c)) path = path"
    using assms by (cases path) (simp_all add: script_path_def char_at_def)
  moreover have "char_at (32 # path) = sint (32 :: u8)" by (simp add: char_at_def)
  ultimately show ?thesis
    unfolding script_command_def multiboot_text(1) Let_def using at multiboot_text(4,5,9) by simp
qed

lemma RunScript_line:
  assumes "0 \<notin> set line" "10 \<notin> set line"
  shows "RunScript B (line @ 10 # rest) = (case script_command line of None \<Rightarrow> RunScript B rest
    | Some (cmd, arg) \<Rightarrow> (case dispatch B cmd arg of
        None \<Rightarrow> ld_seq [ld_message ''Error, unknown command: '', ld_print cmd, ld_newline]
      | Some run \<Rightarrow> io_bind run (\<lambda>ok. if \<not> ok then io_return () else RunScript B rest)))"
proof -
  let ?P = "\<lambda>c :: u8. c \<noteq> 0 \<and> c \<noteq> 10"
  have "\<forall>c \<in> set line. ?P c" using assms by (metis (mono_tags))
  then have "takeWhile ?P (line @ 10 # rest) = line" "dropWhile ?P (line @ 10 # rest) = 10 # rest"
    by (simp_all add: takeWhile_append dropWhile_append)
  then have line: "script_line (line @ 10 # rest) = (line, rest)" by (simp add: script_line_def)
  have "line @ 10 # rest \<noteq> []" "hd (line @ 10 # rest) \<noteq> 0"
    using assms(1) by (cases line; simp)+
  then show ?thesis by (simp add: RunScript.simps [of B "line @ 10 # rest"] line)
qed

lemma RunScript_multiboot:
  assumes "script_path path"
  shows "RunScript B (boot_script path @ [0]) = io_bind (CmdMultiboot B path) (\<lambda>_. io_return ())"
proof -
  let ?l = "text_bytes ''multiboot '' @ path"
  have l: "0 \<notin> set ?l" "10 \<notin> set ?l" using assms multiboot_text(1,2) by (auto simp: script_path_def)
  have "RunScript B (?l @ 10 # [0]) = io_bind (CmdMultiboot B path) (\<lambda>ok. if \<not> ok then io_return () else RunScript B [0])"
    using multiboot_text(6-8) l by (subst RunScript_line) (simp_all add: script_command_multiboot [OF assms] dispatch_def)
  moreover have "RunScript B [0] = io_return ()" by (simp add: RunScript.simps)
  ultimately show ?thesis by (simp add: boot_script_def cong: if_cong)
qed

text \<open>The lines in front change the screen only, on a disk with a geometry that can be divided by.\<close>

lemma prints_info:
  "prints (CmdInfo_entry B it)" "prints (ld_chs chs)" "prints (ld_geometry g)"
proof -
  have small: "unat (ucast (x :: u16) :: u32) < 10 ^ 9" "unat (ucast (y :: u8) :: u32) < 10 ^ 9" for x y
    using unsigned_less [of x, where ?'a = nat] unsigned_less [of y, where ?'a = nat] by (simp_all add: unsigned_ucast_eq take_bit_nat_eq_self)
  show "prints (CmdInfo_entry B it)" unfolding CmdInfo_entry_def by (rule prints_seq) simp
  have "prints (ld_decimal (ucast (x :: u16)))" "prints (ld_decimal (ucast (y :: u8)))" for x y
    by (intro prints_decimal small)+
  then show "prints (ld_chs chs)" "prints (ld_geometry g)"
    unfolding ld_chs_def ld_geometry_def by (auto intro!: prints_seq)
qed

definition divides :: "DriveGeometry \<Rightarrow> bool" where
  "divides g \<longleftrightarrow> headsPerCylinder g \<noteq> 0 \<and> sectorsPerTrack g \<noteq> 0"

definition boot_lba :: "'h Loader \<Rightarrow> u32" where
  "boot_lba st = MBREntry_StartAddressLBA (Stage2Header_BootMBREntry (ld_header st))"

lemma prints_run: "prints m \<Longrightarrow> \<exists>cs. io_bind m (\<lambda>_. io_return True) st = Some (Inr True, st\<lparr>ld_screen := ld_screen st @ cs\<rparr>)"
  unfolding prints_def by (metis io_bind_go io_return_def)

lemma CmdInfo_runs:
  assumes "loader_disk st s img g" "divides g" "unat (boot_lba st) < 10 ^ 9"
    and "StrEqual what (text_bytes ''disk'') \<or> StrEqual what (text_bytes ''memory'')"
  shows "\<exists>cs. CmdInfo B what st = Some (Inr True, st\<lparr>ld_screen := ld_screen st @ cs\<rparr>)"
proof -
  obtain fs where fs: "ld_fs st = Some fs" "BIOSBlockDevice_DriveGeometry (blk fs) = g"
    using assms(1) by (auto simp: loader_disk_def BIOSBlockDevice_DriveGeometry_def)
  show ?thesis
  proof (cases "StrEqual what (text_bytes ''disk'')")
    case True
    let ?ms = "[ld_message ''Boot disk: '', ld_newline, ld_message ''    geometry (C/H/S): '', ld_geometry g, ld_newline,
        ld_message ''Boot partition: '', ld_newline, ld_message ''    LBA: '', ld_decimal (boot_lba st), ld_newline,
        ld_message ''    CHS: '', ld_chs (LBA2CHS g (boot_lba st)), ld_newline]"
    have "CmdInfo B what st = io_bind (ld_seq ?ms) (\<lambda>_. io_return True) st"
      using True fs assms(2) by (simp add: CmdInfo_def io_bind_def [of "io_get _"] io_get_def divides_def boot_lba_def Let_def)
    moreover have "prints (ld_seq ?ms)" by (rule prints_seq) (simp add: prints_info prints_decimal [OF assms(3)])
    ultimately show ?thesis using prints_run by metis
  next
    case False
    let ?ms = "[ld_message ''Memory:'', ld_newline]"
    let ?es = "map (CmdInfo_entry B) (MemoryMap_items (ld_mmap st))"
    have p: "prints (ld_seq ?ms)" "prints (ld_seq ?es)" by (rule prints_seq; simp add: prints_info; fail)+
    obtain cs where cs: "ld_seq ?ms st = Some (Inr (), st\<lparr>ld_screen := ld_screen st @ cs\<rparr>)" using p(1) unfolding prints_def by blast
    let ?st = "st\<lparr>ld_screen := ld_screen st @ cs\<rparr>"
    obtain cs' where "ld_seq ?es ?st = Some (Inr (), ?st\<lparr>ld_screen := ld_screen ?st @ cs'\<rparr>)" using p(2) unfolding prints_def by blast
    with cs have "CmdInfo B what st = Some (Inr True, st\<lparr>ld_screen := ld_screen st @ (cs @ cs')\<rparr>)"
      using False assms(4) by (simp add: CmdInfo_def io_bind_def io_get_def io_return_def)
    then show ?thesis by blast
  qed
qed

lemma plain_line_runs:
  assumes "plain_line line" "loader_disk st s img g" "divides g" "unat (boot_lba st) < 10 ^ 9"
  shows "\<exists>cs. RunScript B (line @ 10 # rest) st = RunScript B rest (st\<lparr>ld_screen := ld_screen st @ cs\<rparr>)"
proof -
  have l: "0 \<notin> set line" "10 \<notin> set line" using assms(1) by (simp_all add: plain_line_def)
  have same: "st = st\<lparr>ld_screen := ld_screen st @ []\<rparr>" by simp
  show ?thesis
  proof (cases "script_command line")
    case None
    then have "RunScript B (line @ 10 # rest) st = RunScript B rest (st\<lparr>ld_screen := ld_screen st @ []\<rparr>)"
      using RunScript_line [OF l, of B] by simp
    then show ?thesis by blast
  next
    case (Some c)
    obtain cmd arg where c: "c = (cmd, arg)" by (cases c)
    have "\<exists>run cs. dispatch B cmd arg = Some run \<and> run st = Some (Inr True, st\<lparr>ld_screen := ld_screen st @ cs\<rparr>)"
    proof (cases "StrEqual (text_bytes ''echo'') cmd")
      case True
      have "prints (ld_seq [ld_print arg, ld_newline])" by (rule prints_seq) simp
      from prints_run [OF this] show ?thesis using True by (auto simp: dispatch_def CmdEcho_def)
    next
      case False
      then have "StrEqual (text_bytes ''info'') cmd" "StrEqual arg (text_bytes ''disk'') \<or> StrEqual arg (text_bytes ''memory'')"
        using assms(1) Some c by (auto simp: plain_line_def)
      then show ?thesis using CmdInfo_runs [OF assms(2-4), of arg B] False by (auto simp: dispatch_def)
    qed
    then obtain run cs where "dispatch B cmd arg = Some run" "run st = Some (Inr True, st\<lparr>ld_screen := ld_screen st @ cs\<rparr>)" by blast
    then have "RunScript B (line @ 10 # rest) st = RunScript B rest (st\<lparr>ld_screen := ld_screen st @ cs\<rparr>)"
      using RunScript_line [OF l, of B] Some c by (simp add: io_bind_def)
    then show ?thesis by blast
  qed
qed

lemma plain_lines_run:
  assumes "\<forall>line \<in> set lines. plain_line line" "loader_disk st s img g" "divides g" "lines \<noteq> [] \<longrightarrow> unat (boot_lba st) < 10 ^ 9"
  shows "\<exists>cs. RunScript B (concat (map (\<lambda>l. l @ [10]) lines) @ rest) st = RunScript B rest (st\<lparr>ld_screen := ld_screen st @ cs\<rparr>)"
  using assms(1,2,4)
proof (induction lines arbitrary: st)
  case Nil
  have "RunScript B rest st = RunScript B rest (st\<lparr>ld_screen := ld_screen st @ []\<rparr>)" by simp
  then show ?case by (auto intro: exI [of _ "[]"])
next
  case (Cons line lines)
  let ?rest = "concat (map (\<lambda>l. l @ [10]) lines) @ rest"
  obtain cs where cs: "RunScript B (line @ 10 # ?rest) st = RunScript B ?rest (st\<lparr>ld_screen := ld_screen st @ cs\<rparr>)"
    using plain_line_runs [OF _ Cons.prems(2) assms(3)] Cons.prems(1,3) by (metis list.distinct(1) list.set_intros(1))
  let ?st = "st\<lparr>ld_screen := ld_screen st @ cs\<rparr>"
  have "loader_disk ?st s img g" "boot_lba ?st = boot_lba st" using Cons.prems(2) by (simp_all add: loader_disk_def boot_lba_def)
  then obtain cs' where "RunScript B ?rest ?st = RunScript B rest (?st\<lparr>ld_screen := ld_screen ?st @ cs'\<rparr>)"
    using Cons.IH [of ?st] Cons.prems by auto
  then have "RunScript B (concat (map (\<lambda>l. l @ [10]) (line # lines)) @ rest) st =
      RunScript B rest (st\<lparr>ld_screen := ld_screen st @ (cs @ cs')\<rparr>)" using cs by simp
  then show ?case by blast
qed

text \<open>A loaded kernel is not touched by what happens in the heap in front of it.\<close>

lemma kernel_loaded_behind:
  assumes "kernel_loaded m contents hdr" "kernel_file e contents k" "hdr = kernel_header contents k"
    and "\<forall>x < 2 ^ 32. unat e \<le> x \<longrightarrow> m' (of_nat x) = m (of_nat x)"
  shows "kernel_loaded m' contents hdr"
proof -
  let ?a = "mb_loadAddr hdr" and ?z = "unat (BSSSize hdr)"
  have k: "unat e \<le> unat ?a" "unat ?a + length contents + ?z < 2 ^ 32"
    using assms(2,3) unfolding kernel_file_def Let_def by (simp_all add: word_le_nat_alt)
  obtain L where L: "unat (mb_loadEndAddr hdr - mb_loadAddr hdr) \<le> L" "L \<le> length contents"
     "mem_read m ?a L = take L contents" "mem_read m (?a + of_nat L) ?z = replicate ?z 0"
    using assms(1) by (auto simp: kernel_loaded_def)
  have same: "m' (?a + of_nat j) = m (?a + of_nat j)" if "j < L + ?z" for j
  proof -
    have "unat ?a + j < 2 ^ 32" "unat e \<le> unat ?a + j" using that k L(2) by linarith+
    then have "m' (of_nat (unat ?a + j)) = m (of_nat (unat ?a + j))" using assms(4) by blast
    then show ?thesis by simp
  qed
  have "mem_read m' ?a L = mem_read m ?a L" by (intro mem_read_cong same) simp
  moreover have "mem_read m' (?a + of_nat L) ?z = mem_read m (?a + of_nat L) ?z"
  proof (rule mem_read_cong)
    fix i assume "i < ?z"
    then show "m' (?a + of_nat L + of_nat i) = m (?a + of_nat L + of_nat i)" using same [of "L + i"] by (simp add: add.assoc)
  qed
  ultimately show ?thesis unfolding kernel_loaded_def using L by auto
qed

lemma ld_new_eq: "ld_malloc k st = Some (Inr p, st') \<Longrightarrow> p \<noteq> 0 \<Longrightarrow> ld_new k st = Some (Inr p, st')"
  by (simp add: ld_new_def operator_new_def io_bind_def io_return_def)

lemma run_config_boots:
  assumes config: "boot_file s raw img (SplitPath bootConfigName) (config_script lines path)" "length (config_script lines path) \<le> 4096" "script_path path"
      "\<forall>line \<in> set lines. plain_line line"
    and info: "divides g" "lines \<noteq> [] \<longrightarrow> unat (boot_lba st) < 10 ^ 9"
    and kernel: "boot_file s raw img (SplitPath path) contents" "kernel_file (heapEnd (ld_heap st)) contents k"
    and disk: "loader_disk st s img g" and board: "length (bd_nameBuffer B) = 13" "length (bd_hdr B) = 32"
    and room: "heap_rep (ld_heap st) (one_free used rest)" "round4 (length (config_script lines path) + 1) + 1032 \<le> rest"
  shows "\<exists>st'. run_config B st = Some (Inr None, st') \<and> kernel_ready st st' contents (kernel_header contents k) \<and>
    heap_rep (ld_heap st') (one_free used rest)"
proof -
  let ?t = "config_script lines path" and ?hdr = "kernel_header contents k"
  define c where "c = round4 (length ?t + 1)"
  have zero: "0 \<notin> set bootConfigName" by (simp add: bootConfigName_def) code_simp
  have len: "length ?t < 2 ^ 32" "length ?t + 1 \<le> c" using config(2) round4_bounds(1) [of "length ?t + 1"] by (simp_all add: c_def)
  obtain f fs cs where f: "ld_FindByPath B bootConfigName st = Some (Inr (Ok, f), st\<lparr>ld_fs := Some fs\<rparr>)" "unat (ff_size f) = length ?t"
    "fatfs_inv BIOS_ops bios_reliable bios_content fs" "super fs = s" "disk_holds (blk fs) s img"
    "volume_chain (bios_content (blk fs)) 512 (super fs) (ff_cluster f) cs"
    "take (length ?t) (file_bytes (bios_content (blk fs)) (super fs) f cs) = ?t" "bb_geometry (blk fs) = g"
    using ld_finds [OF config(1) zero disk board(1)] by blast
  have size: "ff_size f = of_nat (length ?t)" unfolding f(2) [symmetric] by simp
  have plus: "unat (ff_size f + 1) = length ?t + 1" using f(2) config(2) by (simp add: unat_word_ariths)
  let ?st1 = "st\<lparr>ld_fs := Some fs\<rparr>"
  obtain p h where p: "ld_malloc (ff_size f + 1) ?st1 = Some (Inr p, ?st1\<lparr>ld_heap := h\<rparr>)" "p \<noteq> 0" "heap h = heap (ld_heap st)"
    "heapEnd h = heapEnd (ld_heap st)" "heap_rep h (one_free (used @ [c]) (rest - c - 8))"
    "unat p = unat (heap h) + span (map (\<lambda>n. (n, True)) used) + 8"
    using malloc_one_free [of ?st1 used rest "ff_size f + 1"] room config(2) plus by (auto simp: c_def)
  have long: "length ?t \<le> length (file_bytes (bios_content (blk fs)) (super fs) f cs)"
    using f(7) by (metis length_take min.cobounded1)
  obtain fs2 where fs2: "ReadAt BIOS_ops fs f 0 (ff_size f) = Some (ff_size f, ?t, fs2)"
    "fatfs_inv BIOS_ops bios_reliable bios_content fs2" "super fs2 = s" "bios_content (blk fs2) = bios_content (blk fs)"
    using ReadAt_bios [OF f(3,6), of 0 "ff_size f"] f(2,4,7) size long by (auto simp: min_absorb2)
  let ?m = "mem_write (hmem h) p (?t @ [0])"
  let ?st2 = "st\<lparr>ld_fs := Some fs2, ld_heap := h\<lparr>hmem := ?m\<rparr>\<rparr>"
  have rest: "c + 8 + (rest - c - 8) = rest" using room(2) by (simp add: c_def)
  note taken = taken_last [OF p(6), of c "rest - c - 8", unfolded rest]
  have rep2: "heap_rep (h\<lparr>hmem := ?m\<rparr>) (one_free (used @ [c]) (rest - c - 8))"
    using p(5) taken_region [OF taken] by (rule heap_rep_store_region) (use len(2) in simp)
  have read: "mem_read ?m p (Suc (length ?t)) = ?t @ [0]" using config(2) by (intro mem_read_write) simp_all
  have "bb_geometry (blk fs2) = g" using geometry_kept(2) [OF f(3) fs2(1)] f(8) by simp
  then have disk2: "loader_disk ?st2 s img g" using fs2(2-4) f(5) by (auto simp: loader_disk_def disk_holds_def)
  have "lines \<noteq> [] \<longrightarrow> unat (boot_lba ?st2) < 10 ^ 9" using info(2) by (simp add: boot_lba_def)
  then obtain cs where cs: "RunScript B (concat (map (\<lambda>l. l @ [10]) lines) @ boot_script path @ [0]) ?st2 =
      RunScript B (boot_script path @ [0]) (?st2\<lparr>ld_screen := ld_screen ?st2 @ cs\<rparr>)"
    using plain_lines_run [OF config(4) disk2 info(1)] by blast
  let ?st2' = "?st2\<lparr>ld_screen := ld_screen ?st2 @ cs\<rparr>"
  have disk2': "loader_disk ?st2' s img g" using disk2 by (simp add: loader_disk_def)
  have kernel2: "kernel_file (heapEnd (ld_heap ?st2')) contents k" using kernel(2) p(4) by simp
  have "rest - c - 8 \<in> fits 1024 (one_free (used @ [c]) (rest - c - 8))"
    using room(2) by (simp add: fits_def one_free_def c_def)
  then have fit2: "fits 1024 (one_free (used @ [c]) (rest - c - 8)) \<noteq> {}" by blast
  have "heap_rep (ld_heap ?st2') (one_free (used @ [c]) (rest - c - 8))" using rep2 by simp
  moreover have "0 \<notin> set path" using config(3) by (simp add: script_path_def)
  ultimately obtain st3 where st3: "CmdMultiboot B path ?st2' = Some (Inr True, st3)" "kernel_ready ?st2' st3 contents ?hdr"
    "heap_rep (ld_heap st3) (one_free (used @ [c]) (rest - c - 8))"
    using CmdMultiboot_boots [OF kernel(1) _ disk2' board kernel2 _ fit2] unfolding coalesce_one_free by blast
  have taken3: "taken (unat (heap (ld_heap st3))) (one_free used rest) (one_free (used @ [c]) (rest - c - 8)) p c"
    using taken st3(2) by (simp add: kernel_ready_def)
  obtain h4 where h4: "ld_free p st3 = Some (Inr (), st3\<lparr>ld_heap := h4\<rparr>)" "heap_rep h4 (one_free used rest)"
    "heap h4 = heap (ld_heap st3)" "heapEnd h4 = heapEnd (ld_heap st3)"
    "\<forall>x < 2 ^ 32. unat (heapEnd (ld_heap st3)) \<le> x \<longrightarrow> hmem h4 (of_nat x) = ld_mem st3 (of_nat x)"
    using free_taken [OF st3(3) taken3] unfolding coalesce_one_free by blast
  have sz: "\<not> ff_size f > bootConfigMaxSize" "\<not> sint (ff_size f) < 0"
    using f(2) config(2) sint_of_nat_u32 [of "length ?t"] unfolding size [symmetric]
    by (simp_all add: bootConfigMaxSize_def word_less_nat_alt)
  have st2: "(\<lambda>m. m(p + ff_size f := 0)) (mem_write (hmem h) p ?t) = ?m"
    using mem_write_snoc [OF len(1), of "hmem h" p 0] by (simp add: size)
  let ?st1' = "st\<lparr>ld_fs := Some fs, ld_heap := h\<rparr>" and ?sth = "st\<lparr>ld_fs := Some fs2, ld_heap := h\<lparr>hmem := mem_write (hmem h) p ?t\<rparr>\<rparr>"
  have new: "ld_new (ff_size f + 1) ?st1 = Some (Inr p, ?st1')" using ld_new_eq [OF p(1,2)] .
  have rd: "ld_ReadAt_to f p 0 (ff_size f) ?st1' = Some (Inr (ff_size f), ?sth)"
    using fs2(1) by (simp add: ld_ReadAt_to_def ld_ReadAt_def io_bind_def ld_update_mem_def io_put_def io_return_def ld_mem_def)
  have upd: "ld_update_mem (\<lambda>m. m(p + ff_size f := 0)) ?sth = Some (Inr (), ?st2)"
    using st2 by (simp add: ld_update_mem_def io_put_def ld_mem_def)
  have get: "io_get (\<lambda>st. mem_read (ld_mem st) p (Suc (unat (ff_size f)))) ?st2 = Some (Inr (?t @ [0]), ?st2)"
    using read by (simp add: io_get_def ld_mem_def f(2))
  have run: "RunScript B (?t @ [0]) ?st2 = Some (Inr (), st3)"
    using cs st3(1) RunScript_multiboot [OF config(3), of B]
    by (simp add: config_script_def io_bind_def io_return_def)
  have "run_config B st = Some (Inr None, st3\<lparr>ld_heap := h4\<rparr>)"
    unfolding run_config_def io_bind_def f(1)
    by (simp only: bind.simps sum.case prod.case new rd upd get run h4(1) sz io_return_def refl if_False if_True not_True_eq_False)
  moreover have "kernel_loaded (hmem h4) contents ?hdr"
    using kernel_loaded_behind [OF _ kernel(2) refl, of "ld_mem st3" "hmem h4"] st3(2) h4(5) p(4)
    by (simp add: kernel_ready_def)
  then have "kernel_ready st (st3\<lparr>ld_heap := h4\<rparr>) contents ?hdr"
    using st3(2) h4(3,4) p(3,4) by (simp add: kernel_ready_def ld_mem_def)
  ultimately show ?thesis using h4(2) by auto
qed

end
