(* ===== verification/Edit_Session.thy ===== *)
theory Edit_Session
  imports Editor_To_Loader
begin

text \<open>
  A run of the editor as a whole (\<^verbatim>\<open>main\<close> of \<^verbatim>\<open>tools/fatedit.cpp\<close>): from opening and loading the
  image, over the commands, to writing the table and the super block back.
\<close>

subsection \<open>Images the editor accepts\<close>

text \<open>
  The super block is the first sector, with sectors of 512 bytes; the table is the first FAT, with the
  reserved bits zero; the information sector has its magic numbers, and is neither the super block
  nor its backup.
\<close>

definition editable :: "bytes \<Rightarrow> FatSuper \<Rightarrow> bytes \<Rightarrow> bool" where
  "editable img s raw \<longleftrightarrow> FatSuper_of_bytes (subbytes 0 512 img) = s \<and> volume s raw img \<and> fat_stored s raw img \<and> fat_clean raw \<and>
     length img < 2 ^ 64 \<and> cluster_pos s 2 < 2 ^ 31 \<and> 0 < FatSuper_FsInfoIndex s \<and>
     FatSuper_FsInfoIndex s < FatSuper_ReservedSectors s \<and> FatSuper_FsInfoIndex s \<noteq> FatSuper_BackupIndex s \<and>
     FatFsInfo_IsValid (FatFsInfo_of_bytes (subbytes (unat (FatSuper_FsInfoIndex s) * 512) 512 img))"

text \<open>The regions in front of the clusters.\<close>

lemma editable_layout:
  assumes "editable img s raw"
  shows "unat (FatSuper_BytesPerSector s) = 512" "0 < unat (FatSuper_FsInfoIndex s)"
    "unat (FatSuper_FsInfoIndex s) < unat (FatSuper_ReservedSectors s)"
    "unat (FatSuper_ReservedSectors s) * 512 + length raw \<le> cluster_pos s 2" "cluster_pos s 2 \<le> length img" "cluster_pos s 2 < 2 ^ 31"
    "length img < 2 ^ 64" "length raw = 512 * unat (FatSuper_SectorsPerFat s)"
proof -
  let ?r = "unat (FatSuper_ReservedSectors s)" and ?f = "unat (FatSuper_NumFats s)" and ?k = "unat (FatSuper_SectorsPerFat s)"
  have b: "unat (FatSuper_BytesPerSector s) = 512" and f: "0 < ?f" "length raw = 512 * ?k"
    and v: "geometry s raw" "unat (FatSuper_SectorCount s) * 512 \<le> length img"
    using assms by (auto simp: editable_def fat_stored_def volume_def)
  show "unat (FatSuper_BytesPerSector s) = 512" "length raw = 512 * ?k" by fact+
  show "0 < unat (FatSuper_FsInfoIndex s)" "unat (FatSuper_FsInfoIndex s) < ?r" "cluster_pos s 2 < 2 ^ 31" "length img < 2 ^ 64"
    using assms by (simp_all add: editable_def word_less_nat_alt unat_gt_0)
  have pos: "cluster_pos s 2 = (?r + ?f * ?k) * 512" by (simp add: cluster_pos_def b)
  have "?k \<le> ?f * ?k" using f(1) by simp
  then have "(?r + ?k) * 512 \<le> cluster_pos s 2" unfolding pos by simp
  then show "?r * 512 + length raw \<le> cluster_pos s 2" by (simp add: f(2) algebra_simps)
  have "?f * ?k + ?r \<le> unat (FatSuper_SectorCount s)" using v(1) unfolding geometry_def by linarith
  then have "(?r + ?f * ?k) * 512 \<le> unat (FatSuper_SectorCount s) * 512" by (intro mult_right_mono) simp_all
  then show "cluster_pos s 2 \<le> length img" unfolding pos using v(2) by linarith
qed

subsection \<open>Loading\<close>

context reliable_posix
begin

lemma ed_ReadAt_reads:
  assumes "unat off + n \<le> length (image st)" "length (image st) < 2 ^ 64"
  shows "\<exists>s'. ed_ReadAt P off n st = Some (Inr (subbytes (unat off) n (image st)), st\<lparr>ed_sys := s'\<rparr>) \<and>
    same_files (ed_sys st) s' \<and> bytes_of s' = bytes_of (ed_sys st)"
  using ed_ReadAt_works [OF assms] by (auto simp: only_read_def)

lemma LoadFromImage_loads:
  assumes "editable (image st) s raw" "ed_super st = s"
  shows "\<exists>s'. FatReader_LoadFromImage P st = Some (Inr (), st\<lparr>ed_sys := s', ed_fatRaw := raw,
      ed_fsinfo := FatFsInfo_of_bytes (subbytes (unat (FatSuper_FsInfoIndex s) * 512) 512 (image st))\<rparr>) \<and>
    same_files (ed_sys st) s' \<and> bytes_of s' = bytes_of (ed_sys st)"
proof -
  let ?r = "unat (FatSuper_ReservedSectors s)" and ?i = "unat (FatSuper_FsInfoIndex s)" and ?img = "image st"
  let ?info = "FatFsInfo_of_bytes (subbytes (?i * 512) 512 ?img)"
  note l = editable_layout [OF assms(1)]
  have small: "?i * 512 + 512 \<le> ?r * 512" "?r * 512 < 2 ^ 31" "length raw < 2 ^ 31" "?r * 512 + length raw \<le> length ?img"
    using l(3-6) by linarith+
  obtain off where off: "int_mul (FatSuper_ReservedSectors s) (FatSuper_BytesPerSector s) = Inr off"
    using small by (simp add: int_mul_def l)
  note offset = int_mul_unat(2) [OF off, unfolded l(1)]
  obtain ioff where ioff: "int_mul (FatSuper_FsInfoIndex s) (FatSuper_BytesPerSector s) = Inr ioff"
    using small by (simp add: int_mul_def l)
  note ioffset = int_mul_unat(2) [OF ioff, unfolded l(1)]
  have "FatSuper_BytesPerSector s = 512" using l(1) by (simp add: word_unat_eq_iff)
  then have sz: "unat (FatSuper_SectorsPerFat s * ucast (FatSuper_BytesPerSector s) :: u32) = length raw"
    using small(3) l(8) by (simp add: unat_word_ariths mult.commute)
  obtain s1 where s1: "ed_ReadAt P (ucast ioff) 512 st = Some (Inr (subbytes (?i * 512) 512 ?img), st\<lparr>ed_sys := s1\<rparr>)"
    "same_files (ed_sys st) s1" "bytes_of s1 = bytes_of (ed_sys st)"
    using ed_ReadAt_reads [of "ucast ioff" 512 st] small l(7) unfolding ioffset by auto
  let ?st2 = "st\<lparr>ed_sys := s1, ed_fsinfo := ?info, ed_fatRaw := replicate (length raw) 0\<rparr>"
  have img2: "image ?st2 = ?img" using s1(2,3) by (simp add: image_def content_def same_files_def)
  obtain s2 where s2: "ed_ReadAt P (ucast off) (length raw) ?st2 = Some (Inr (subbytes (?r * 512) (length raw) ?img), ?st2\<lparr>ed_sys := s2\<rparr>)"
    "same_files s1 s2" "bytes_of s2 = bytes_of s1"
    using ed_ReadAt_reads [of "ucast off" "length raw" ?st2] small l(7) unfolding offset img2 by auto
  have "subbytes (512 * ?r) (length raw) ?img = raw" and valid: "FatFsInfo_IsValid ?info"
    and less: "\<not> FatSuper_ReservedSectors s \<le> FatSuper_FsInfoIndex s"
    using assms(1) unfolding editable_def fat_stored_def by (blast, blast, meson not_le)
  then have raw: "subbytes (?r * 512) (length raw) ?img = raw" by (simp only: mult.commute)
  have "FatReader_LoadFromImage P st = Some (Inr (), ?st2\<lparr>ed_sys := s2, ed_fatRaw := raw\<rparr>)"
    using s1(1) s2(1) valid less
    by (simp add: FatReader_LoadFromImage_def io_bind_def io_simps assms(2) off ioff sz raw)
  moreover have "?st2\<lparr>ed_sys := s2, ed_fatRaw := raw\<rparr> = st\<lparr>ed_sys := s2, ed_fatRaw := raw, ed_fsinfo := ?info\<rparr>" by simp
  ultimately show ?thesis using s1(2,3) s2(2,3) same_files_trans by metis
qed

end

subsection \<open>Saving\<close>

text \<open>The end of the program: table and information sector, the super block, and its backup.\<close>

definition save_backup :: "'s Posix \<Rightarrow> FatSuper \<Rightarrow> ('s Edit, unit) io" where
  "save_backup P s =
     (if FatSuper_BackupIndex s > 0 \<and> FatSuper_BackupIndex s < FatSuper_ReservedSectors s
      then io_bind (io_lift (int_mul (FatSuper_BackupIndex s) (FatSuper_BytesPerSector s))) (\<lambda>offset.
             ed_WriteAt P (ucast offset) (FatSuper_bytes s))
      else io_return ())"

definition save_volume :: "'s Posix \<Rightarrow> ('s Edit, int) io" where
  "save_volume P =
     io_bind (FatReader_WriteToImage P) (\<lambda>_.
     io_bind (io_get ed_super) (\<lambda>s.
     io_bind (ed_WriteAt P 0 (FatSuper_bytes s)) (\<lambda>_.
     io_bind (save_backup P s) (\<lambda>_.
     io_return 0))))"

lemma info_valid:
  assumes "FatFsInfo_IsValid i" "length (fi_reserved0 i) = 480" "length (fi_reserved1 i) = 12"
  shows "FatFsInfo_IsValid (FatFsInfo_of_bytes (FatFsInfo_bytes (FatFsInfo_SetNumFreeCluster (FatFsInfo_SetNextFreeCluster i k) m)))"
  using assms
  by (simp add: FatFsInfo_IsValid_def FatFsInfo_of_bytes_def FatFsInfo_bytes_def FatFsInfo_SetNumFreeCluster_def
      FatFsInfo_SetNextFreeCluster_def subbytes_def)

text \<open>Writes in the reserved sectors leave table and clusters alone.\<close>

lemma reserved_write:
  assumes "length d = 512" "unat (FatSuper_BytesPerSector s) = 512" "i < unat (FatSuper_ReservedSectors s)" "unat (FatSuper_ReservedSectors s) * 512 \<le> length img"
  shows "fat_stored s raw (overwrite (i * 512) d img) = fat_stored s raw img" "cluster_data s (overwrite (i * 512) d img) c = cluster_data s img c"
    "j \<noteq> i \<Longrightarrow> j < unat (FatSuper_ReservedSectors s) \<Longrightarrow> subbytes (j * 512) 512 (overwrite (i * 512) d img) = subbytes (j * 512) 512 img"
    "subbytes (i * 512) 512 (overwrite (i * 512) d img) = d" "length (overwrite (i * 512) d img) = length img"
proof -
  have fit: "i * 512 + 512 \<le> unat (FatSuper_ReservedSectors s) * 512" "i * 512 + 512 \<le> length img" using assms(3,4) by linarith+
  have keep: "subbytes a n (overwrite (i * 512) d img) = subbytes a n img" if "unat (FatSuper_ReservedSectors s) * 512 \<le> a" for a n
    using that fit assms(1) by (intro subbytes_overwrite_after) simp_all
  show "fat_stored s raw (overwrite (i * 512) d img) = fat_stored s raw img"
    using keep [of "512 * unat (FatSuper_ReservedSectors s)"] by (simp add: fat_stored_def mult.commute)
  have "unat (FatSuper_ReservedSectors s) * 512 \<le> cluster_pos s c" by (simp add: cluster_pos_def assms(2) algebra_simps)
  then show "cluster_data s (overwrite (i * 512) d img) c = cluster_data s img c" by (simp add: cluster_data_def keep)
  show "subbytes (i * 512) 512 (overwrite (i * 512) d img) = d" "length (overwrite (i * 512) d img) = length img"
    using fit assms(1) by simp_all
  assume "j \<noteq> i" "j < unat (FatSuper_ReservedSectors s)"
  then have "j * 512 + 512 \<le> i * 512 \<or> i * 512 + 512 \<le> j * 512" by linarith
  then show "subbytes (j * 512) 512 (overwrite (i * 512) d img) = subbytes (j * 512) 512 img"
    using fit assms(1) by (auto intro: subbytes_overwrite_before subbytes_overwrite_after)
qed

context reliable_posix
begin

lemma save_backup_reserved:
  assumes super: "unat (FatSuper_BytesPerSector (ed_super st)) = 512" "FatSuper_wf (ed_super st)"
    and room: "unat (FatSuper_ReservedSectors (ed_super st)) * 512 \<le> length (image st)" "unat (FatSuper_ReservedSectors (ed_super st)) * 512 < 2 ^ 31"
    "length (image st) < 2 ^ 64"
  shows "\<exists>st'. save_backup P (ed_super st) st = Some (Inr (), st') \<and> ed_super st' = ed_super st \<and>
    fat_stored (ed_super st) raw (image st') = fat_stored (ed_super st) raw (image st) \<and> length (image st') = length (image st) \<and>
    (\<forall>c. cluster_data (ed_super st) (image st') c = cluster_data (ed_super st) (image st) c) \<and>
    (\<forall>j < unat (FatSuper_ReservedSectors (ed_super st)). j \<noteq> unat (FatSuper_BackupIndex (ed_super st)) \<or> unat (FatSuper_BackupIndex (ed_super st)) = 0 \<longrightarrow>
       subbytes (j * 512) 512 (image st') = subbytes (j * 512) 512 (image st))"
proof (cases "FatSuper_BackupIndex (ed_super st) > 0 \<and> FatSuper_BackupIndex (ed_super st) < FatSuper_ReservedSectors (ed_super st)")
  case True
  let ?s = "ed_super st" and ?sector = "FatSuper_bytes (ed_super st)"
  let ?r = "unat (FatSuper_ReservedSectors ?s)" and ?b = "unat (FatSuper_BackupIndex ?s)"
  have b: "0 < ?b" "?b < ?r" using True by (auto simp: word_less_nat_alt unat_gt_0)
  have len: "length ?sector = 512" using super by simp
  have "?b * 512 < 2 ^ 31" using b(2) room(2) by linarith
  then obtain off where off: "int_mul (FatSuper_BackupIndex ?s) (FatSuper_BytesPerSector ?s) = Inr off"
    by (simp add: int_mul_def super)
  note offset = int_mul_unat(2) [OF off, unfolded super(1)]
  have "?b * 512 + 512 \<le> length (image st)" using b(2) room(1) by linarith
  then obtain st' where st': "ed_WriteAt P (ucast off) ?sector st = Some (Inr (), st')"
    "image st' = overwrite (?b * 512) ?sector (image st)" "ed_super st' = ?s"
    using ed_WriteAt_works [of "ucast off" ?sector st] room(3) unfolding offset len by (auto simp: wrote_def)
  show ?thesis using True st'(1,3) off reserved_write [OF len super(1) b(2) room(1)] b
    by (intro exI [of _ st']) (simp add: save_backup_def io_simps st'(2))
qed (use assms in \<open>auto simp: save_backup_def io_simps\<close>)

text \<open>What was loaded and changed by commands is saved, and the image can be loaded again.\<close>

lemma save_volume_saves:
  assumes vol: "ed_volume st" and loaded: "volume_loaded st" and clean: "fat_clean (ed_fatRaw st)"
    and super: "FatSuper_wf (ed_super st)" and info: "FatFsInfo_IsValid (ed_fsinfo st)"
    and index: "0 < FatSuper_FsInfoIndex (ed_super st)" "FatSuper_FsInfoIndex (ed_super st) \<noteq> FatSuper_BackupIndex (ed_super st)"
  shows "\<exists>st'. save_volume P st = Some (Inr 0, st') \<and> ed_super st' = ed_super st \<and> editable (image st') (ed_super st) (ed_fatRaw st) \<and>
    (\<forall>c. data_cluster (ed_super st) c \<longrightarrow> cluster_data (ed_super st) (image st') c = cluster_data (ed_super st) (image st) c)"
proof -
  let ?s = "ed_super st" and ?raw = "ed_fatRaw st"
  let ?r = "unat (FatSuper_ReservedSectors ?s)" and ?i = "unat (FatSuper_FsInfoIndex ?s)" and ?b = "unat (FatSuper_BackupIndex ?s)"
  have l: "unat (FatSuper_BytesPerSector ?s) = 512" "?i < ?r" "0 < ?i" "cluster_pos ?s 2 < 2 ^ 31" "FatSuper_FsInfoIndex ?s < FatSuper_ReservedSectors ?s"
    "length (fi_reserved0 (ed_fsinfo st)) = 480" "length (fi_reserved1 (ed_fsinfo st)) = 12"
    using loaded index(1) by (auto simp: volume_loaded_def word_less_nat_alt unat_gt_0)
  have v: "geometry ?s ?raw" "unat (FatSuper_SectorCount ?s) * 512 \<le> length (image st)" "length (image st) < 2 ^ 64"
    using vol by (auto simp: ed_volume_def volume_def l(1))
  have "?r \<le> unat (FatSuper_SectorCount ?s)" using v(1) unfolding geometry_def by linarith
  then have "?r * 512 \<le> unat (FatSuper_SectorCount ?s) * 512" by (rule mult_right_mono) simp
  then have room: "?r * 512 \<le> length (image st)" using v(2) by linarith
  have r31: "?r * 512 < 2 ^ 31" using l(4) by (simp add: cluster_pos_def l(1) algebra_simps)
  let ?sector = "FatSuper_bytes ?s"
  have len: "length ?sector = 512" using super by simp
  obtain st1 k m where st1: "FatReader_WriteToImage P st = Some (Inr (), st1)" "ed_super st1 = ?s"
    "fat_stored ?s ?raw (image st1)" "length (image st1) = length (image st)"
    "\<forall>c. data_cluster ?s c \<longrightarrow> cluster_data ?s (image st1) c = cluster_data ?s (image st) c"
    "subbytes (?i * 512) 512 (image st1) = FatFsInfo_bytes (FatFsInfo_SetNumFreeCluster (FatFsInfo_SetNextFreeCluster (ed_fsinfo st) k) m)"
    using WriteToImage_correct [OF vol loaded] by blast
  note w1 = reserved_write [OF len l(1), of 0 "image st1", unfolded mult_0]
  have r0: "0 < ?r" "?r * 512 \<le> length (image st1)" using l(2) room st1(4) by simp_all
  obtain st2 where st2: "ed_WriteAt P 0 ?sector st1 = Some (Inr (), st2)" "image st2 = overwrite 0 ?sector (image st1)" "ed_super st2 = ?s"
    using ed_WriteAt_works [of 0 ?sector st1] r0 v(3) st1(2,4) l(2) len by (auto simp: wrote_def)
  have m2: "fat_stored ?s ?raw (image st2)" "length (image st2) = length (image st)" "subbytes 0 512 (image st2) = ?sector"
    "\<forall>c. cluster_data ?s (image st2) c = cluster_data ?s (image st1) c" "subbytes (?i * 512) 512 (image st2) = subbytes (?i * 512) 512 (image st1)"
    using w1(1,2,4,5) [OF r0] w1(3) [OF r0, of ?i] l(2,3) st1(3,4) unfolding st2(2) by auto
  obtain st3 where st3: "save_backup P ?s st2 = Some (Inr (), st3)" "ed_super st3 = ?s"
    "fat_stored ?s ?raw (image st3) = fat_stored ?s ?raw (image st2)" "length (image st3) = length (image st2)"
    "\<forall>c. cluster_data ?s (image st3) c = cluster_data ?s (image st2) c"
    "\<forall>j < ?r. j \<noteq> ?b \<or> ?b = 0 \<longrightarrow> subbytes (j * 512) 512 (image st3) = subbytes (j * 512) 512 (image st2)"
    using save_backup_reserved [of st2 ?raw] st2(3) l(1) super m2(2) room r31 v(3) by auto
  have kept: "subbytes 0 512 (image st3) = ?sector" "subbytes (?i * 512) 512 (image st3) = subbytes (?i * 512) 512 (image st1)"
    using st3(6) [rule_format, of 0] st3(6) [rule_format, of ?i] l(2,3) index(2) m2(3,5) by (auto simp: word_unat_eq_iff)
  have "save_volume P st = Some (Inr 0, st3)"
    by (simp add: save_volume_def io_bind_def io_get_def io_return_def st1(1,2) st2(1) st3(1))
  moreover have "editable (image st3) ?s ?raw"
    using st3(3,4) kept m2(1,2) vol clean info_valid [OF info l(6,7)] FatSuper_of_bytes_bytes [OF super] st1(6) v(3) l index
    by (simp add: editable_def ed_volume_def volume_def)
  ultimately show ?thesis using st3(2,5) m2(4) st1(5) by auto
qed

end

subsection \<open>A run of the program\<close>

text \<open>The prompt on a terminal.\<close>

definition prompt :: "bool \<Rightarrow> 's Edit \<Rightarrow> 's Edit" where
  "prompt tty st = (if tty then st\<lparr>ed_cout := ed_cout st @ text_bytes ''C:'' @ [92] @ text_bytes ''> ''\<rparr> else st)"

lemma prompt_simps [simp]:
  "ed_sys (prompt tty st) = ed_sys st" "ed_file (prompt tty st) = ed_file st" "ed_super (prompt tty st) = ed_super st"
  "ed_fatRaw (prompt tty st) = ed_fatRaw st" "ed_fsinfo (prompt tty st) = ed_fsinfo st"
  by (simp_all add: prompt_def)

lemma run_lines_prompt:
  "run_lines P tty [] st = Some (Inr (), prompt tty st)"
  "run_lines P tty (input # lines) st =
     io_bind (if trim input = [] \<or> fst (MatchCommand (trim input) (text_bytes ''rem'')) then io_return ()
              else run_command P (trim input)) (\<lambda>_. run_lines P tty lines) (prompt tty st)"
  by (cases tty; simp add: prompt_def Let_def io_bind_def ed_print_def io_return_def io_put_def)+

text \<open>A line with the command \<^verbatim>\<open>pack\<close>.\<close>

lemma run_pack_line:
  assumes "trim input = text_bytes ''pack '' @ args" "args \<noteq> []" "\<not> isspace (hd args)"
  shows "run_lines P tty (input # lines) st = io_bind (PackDirectory P args) (\<lambda>_. run_lines P tty lines) (prompt tty st)"
proof -
  let ?l = "text_bytes ''pack '' @ args"
  have bytes: "text_bytes ''pack '' = [112, 97, 99, 107, 32]" "text_bytes ''rem'' = [114, 101, 109]" "text_bytes ''dir'' = [100, 105, 114]"
    "text_bytes ''type'' = [116, 121, 112, 101]" "text_bytes ''mkdir'' = [109, 107, 100, 105, 114]" "text_bytes ''pack'' = [112, 97, 99, 107]"
    by code_simp+
  have blank: "isspace 32" by (simp add: isspace_def)
  have args: "count_while isspace args = 0" using assms(2,3) by (cases args) simp_all
  have "MatchCommand ?l (text_bytes ''rem'') = (False, ?l)" "MatchCommand ?l (text_bytes ''dir'') = (False, ?l)"
    "MatchCommand ?l (text_bytes ''type'') = (False, ?l)" "MatchCommand ?l (text_bytes ''mkdir'') = (False, ?l)"
    "MatchCommand ?l (text_bytes ''pack'') = (True, args)"
    unfolding bytes MatchCommand_def Let_def using blank args by simp_all
  moreover have "text_bytes ''pack '' \<noteq> []" by (simp add: bytes(1))
  ultimately show ?thesis unfolding run_lines_prompt assms(1) by (simp add: run_command_def)
qed

context reliable_posix
begin

lemma fatedit_main_runs:
  assumes name: "names (ed_sys st) name = Some vol" "name \<noteq> text_bytes ''--help''" "name \<noteq> text_bytes ''-h''"
    and img: "editable (bytes_of (ed_sys st) vol) s raw"
  shows "\<exists>st1. fatedit_main P tty [name] lines st = io_bind (run_lines P tty lines) (\<lambda>_. save_volume P) st1 \<and>
    ed_super st1 = s \<and> ed_fatRaw st1 = raw \<and> image st1 = bytes_of (ed_sys st) vol \<and>
    FatFsInfo_IsValid (ed_fsinfo st1) \<and> FatSuper_wf s \<and> ed_volume st1 \<and> volume_loaded st1 \<and>
    inode (ed_sys st1) (ed_file st1) = vol \<and> ed_file st1 \<in> opened (ed_sys st1) \<and>
    names (ed_sys st1) = names (ed_sys st) \<and> bytes_of (ed_sys st1) = bytes_of (ed_sys st)"
proof -
  let ?img = "bytes_of (ed_sys st) vol"
  let ?info = "FatFsInfo_of_bytes (subbytes (unat (FatSuper_FsInfoIndex s) * 512) 512 ?img)"
  note l = editable_layout [OF img]
  have "512 \<le> unat (FatSuper_ReservedSectors s) * 512" using l(3) by linarith
  then have long: "512 \<le> length ?img" using l(4,5) by linarith
  have super: "FatSuper_of_bytes (subbytes 0 512 ?img) = s" using img by (simp add: editable_def)
  obtain fd s0 where o: "File_open P name False (ed_sys st) = Some (Inr fd, s0)" "opened s0 = insert fd (opened (ed_sys st))"
    "inode s0 fd = vol" "bytes_of s0 = bytes_of (ed_sys st)" "names s0 = names (ed_sys st)"
    using open_named [OF name(1), of False] by blast
  let ?st0 = "st\<lparr>ed_sys := s0, ed_file := fd\<rparr>"
  have i0: "image ?st0 = ?img" using o by (simp add: image_def content_def)
  obtain s1 where s1: "ed_ReadAt P 0 512 ?st0 = Some (Inr (subbytes 0 512 ?img), ?st0\<lparr>ed_sys := s1\<rparr>)"
    "same_files s0 s1" "bytes_of s1 = bytes_of s0"
    using ed_ReadAt_reads [of 0 512 ?st0] long l(7) unfolding i0 by auto
  let ?st1 = "?st0\<lparr>ed_sys := s1, ed_super := s\<rparr>"
  have i1: "image ?st1 = ?img" using o s1(2,3) by (simp add: image_def content_def same_files_def)
  obtain s2 where s2: "FatReader_LoadFromImage P ?st1 = Some (Inr (), ?st1\<lparr>ed_sys := s2, ed_fatRaw := raw, ed_fsinfo := ?info\<rparr>)"
    "same_files s1 s2" "bytes_of s2 = bytes_of s1"
    using LoadFromImage_loads [of ?st1 s raw] img unfolding i1 by auto
  let ?st2 = "?st1\<lparr>ed_sys := s2, ed_fatRaw := raw, ed_fsinfo := ?info\<rparr>"
  have i2: "image ?st2 = ?img" using o s1(2,3) s2(2,3) by (simp add: image_def content_def same_files_def)
  have "fatedit_main P tty [name] lines st = edit_session P tty lines ?st0"
    using name(2,3) o(1) by (simp add: fatedit_main_def ed_call_def)
  also have "\<dots> = io_bind (run_lines P tty lines) (\<lambda>_. save_volume P) ?st2"
    using s1(1) s2(1) super unfolding edit_session_def save_volume_def save_backup_def
    by (simp add: io_bind_go io_bind_def [of "io_put _"] io_put_def)
  finally have "fatedit_main P tty [name] lines st = io_bind (run_lines P tty lines) (\<lambda>_. save_volume P) ?st2" .
  moreover have "FatSuper_wf s" using FatSuper_of_bytes_wf [of "subbytes 0 512 ?img"] long super by (simp add: length_subbytes)
  moreover have "ed_volume ?st2" unfolding ed_volume_def i2 using img by (simp add: editable_def)
  moreover have "length (subbytes (unat (FatSuper_FsInfoIndex s) * 512) 512 ?img) = 512" using l(3,4,5) by simp
  then have "volume_loaded ?st2" using img unfolding volume_loaded_def
    by (simp add: editable_def fat_stored_def FatFsInfo_of_bytes_def)
  ultimately show ?thesis using img i2 o s1(2,3) s2(2,3)
    by (intro exI [of _ ?st2]) (simp add: editable_def same_files_def)
qed

text \<open>What a session leaves, once its commands ended without an exception.\<close>

lemma session_saves:
  assumes "editable (bytes_of (ed_sys st) vol) s raw" "ed_super st1 = s" "FatSuper_wf s"
    "FatFsInfo_IsValid (ed_fsinfo st1)" "volume_loaded st1" "fat_clean (ed_fatRaw st1)"
    and run: "typed_step st1 st2" "ed_volume st2"
  shows "\<exists>st3. save_volume P st2 = Some (Inr 0, st3) \<and> ed_super st3 = s \<and> editable (image st3) s (ed_fatRaw st2) \<and>
    (\<forall>path contents. stored_file s (ed_fatRaw st2) (image st2) path contents \<longrightarrow>
       boot_file s (ed_fatRaw st2) (image st3) path contents)"
proof -
  have k: "ed_super st2 = s" "ed_fsinfo st2 = ed_fsinfo st1" "volume_loaded st2" "fat_clean (ed_fatRaw st2)"
    using run(1) assms(2,5,6) volume_loaded_typed typed_clean by (auto simp: typed_step_def)
  obtain st3 where s3: "save_volume P st2 = Some (Inr 0, st3)" "ed_super st3 = s" "editable (image st3) s (ed_fatRaw st2)"
    "\<forall>c. data_cluster s c \<longrightarrow> cluster_data s (image st3) c = cluster_data s (image st2) c"
    using save_volume_saves [OF run(2) k(3,4)] assms(1,3,4) k(1,2) unfolding editable_def by auto
  moreover have "volume s (ed_fatRaw st2) (image st3)" "fat_stored s (ed_fatRaw st2) (image st3)"
    using s3(3) by (simp_all add: editable_def)
  ultimately show ?thesis using k(4) stored_file_kept unfolding boot_file_def by blast
qed

end

subsection \<open>Sessions that pack files\<close>

text \<open>The root directory, with its clusters, its entries, and where they end: in its last cluster.\<close>

definition root_dir :: "FatSuper \<Rightarrow> bytes \<Rightarrow> bytes \<Rightarrow> nat list \<Rightarrow> DirEntry list \<Rightarrow> nat \<Rightarrow> bool" where
  "root_dir s raw img dcs es n \<longleftrightarrow> dir_chain s raw img dcs es n \<and> of_nat (hd dcs) = en_firstCluster (root_entry s) \<and>
     \<not> Suc (dir_index s n) < length dcs"

definition new_name :: "DirEntry list \<Rightarrow> bytes \<Rightarrow> bool" where
  "new_name es name \<longleftrightarrow> storable name \<and> (\<forall>it \<in> set es. en_shortName it \<noteq> name \<and> en_longName it \<noteq> name)"

lemma root_place:
  assumes "root_dir s raw img dcs es n" "new_name es name"
  shows "boot_place s raw img [name] dcs es n"
proof -
  have "en_isDirectory (root_entry s)" by (simp add: root_entry_def)
  then show ?thesis using assms unfolding boot_place_def pack_target_def root_dir_def new_name_def
    by (auto intro: ed_walks.intros name_walk.arrived)
qed

lemma root_dir_added:
  assumes "root_dir s raw img dcs es n" "added s raw img dcs es n new raw' img'" "n + 64 < length dcs * cluster_size s"
  shows "root_dir s raw' img' dcs (es @ [new]) (n + 32)"
proof -
  have "dir_index s n \<le> dir_index s (n + 32)" unfolding dir_index_def by (intro div_le_mono) simp
  then show ?thesis using assms unfolding root_dir_def added_def by fastforce
qed

text \<open>A line of input that packs a file of the host into the root directory.\<close>

definition line_packs :: "bytes \<Rightarrow> bytes \<Rightarrow> bytes \<Rightarrow> bool" where
  "line_packs input src name \<longleftrightarrow> (\<exists>target. trim input = text_bytes ''pack '' @ src @ 32 # target \<and> src \<noteq> [] \<and>
     (\<forall>c \<in> set src. \<not> isspace c) \<and> target \<noteq> [] \<and> \<not> isspace (hd target) \<and> SplitPath target = [name])"

text \<open>A file the session brings, or that was in the volume before.\<close>

definition supplied :: "FatSuper \<Rightarrow> bytes \<Rightarrow> bytes \<Rightarrow> nat list \<Rightarrow> (bytes \<times> 'i) list \<Rightarrow> ('i \<Rightarrow> bytes) \<Rightarrow> bytes \<Rightarrow> bytes \<Rightarrow> bool" where
  "supplied s raw img dcs files host path contents \<longleftrightarrow>
     (\<exists>file \<in> set files. SplitPath path = [fst file] \<and> host (snd file) = contents) \<or> stored_beside s raw img dcs (SplitPath path) contents"

text \<open>The names a session gives, with the files of the host that are packed under them.\<close>

definition packs :: "(bytes \<Rightarrow> 'i option) \<Rightarrow> 'i \<Rightarrow> bytes \<Rightarrow> bytes \<times> 'i \<Rightarrow> bool" where
  "packs host vol input file \<longleftrightarrow> (\<exists>src. line_packs input src (fst file) \<and> host (cstr src) = Some (snd file) \<and> snd file \<noteq> vol)"

lemma list_all2_files: "list_all2 (packs host vol) lines files \<Longrightarrow> \<forall>file \<in> set files. snd file \<noteq> vol"
  by (induction rule: list_all2_induct) (auto simp: packs_def)

lemma stored_beside_file: "stored_beside s raw img dcs path contents \<Longrightarrow> stored_file s raw img path contents"
  unfolding stored_beside_def stored_file_def by (blast intro: name_walk_mono)

context reliable_posix
begin

lemma prompt_volume: "image (prompt tty st) = image st" "ed_volume (prompt tty st) = ed_volume st"
  by (simp_all add: image_def ed_volume_def)

lemma typed_prompt: "typed_step a b \<Longrightarrow> typed_step a (prompt tty b)" "typed_step (prompt tty a) b \<Longrightarrow> typed_step a b"
  by (simp_all add: typed_step_def)

text \<open>One line of a session, on the state \<^verbatim>\<open>st\<close> before the prompt.\<close>

lemma pack_line_adds:
  assumes vol: "ed_volume st" and root: "root_dir (ed_super st) (ed_fatRaw st) (image st) dcs es n"
    and line: "line_packs input src name" "new_name es name"
    and host: "names (ed_sys st) (cstr src) = Some i" "i \<noteq> inode (ed_sys st) (ed_file st)" "ed_file st \<in> opened (ed_sys st)"
  shows "\<exists>r st1. run_lines P tty (input # lines) st = (case r of Inl e \<Rightarrow> Some (Inl e, st1) | Inr _ \<Rightarrow> run_lines P tty lines st1) \<and>
    typed_step st st1 \<and> ed_volume st1 \<and> host_kept st st1 \<and>
    (case r of Inl e \<Rightarrow> e = no_space \<and> no_free_cluster st1
     | Inr (u :: unit) \<Rightarrow> \<exists>new cs. added (ed_super st) (ed_fatRaw st) (image st) dcs es n new (ed_fatRaw st1) (image st1) \<and>
         en_shortName new = name \<and> en_longName new = name \<and>
         file_data (ed_super st) (ed_fatRaw st1) (image st1) new cs (bytes_of (ed_sys st) i) \<and> set cs \<inter> set dcs = {})"
proof -
  let ?p = "prompt tty st" and ?s = "ed_super st"
  obtain target where t: "trim input = text_bytes ''pack '' @ src @ 32 # target" "src \<noteq> []" "\<forall>c \<in> set src. \<not> isspace c"
    "target \<noteq> []" "\<not> isspace (hd target)" "SplitPath target = [name]" using line(1) unfolding line_packs_def by blast
  have hd: "\<not> isspace (hd (src @ 32 # target))" using t(2,3) by (cases src) simp_all
  have run: "run_lines P tty (input # lines) st = io_bind (PackDirectory P (src @ 32 # target)) (\<lambda>_. run_lines P tty lines) ?p"
    by (rule run_pack_line) (simp_all add: t(1) hd)
  have target: "pack_target ?s (ed_fatRaw st) (image st) [name] dcs es n"
    using root_place [OF root line(2)] by (simp add: boot_place_def)
  note adds = pack_adds [of ?p src target dcs es n i, folded image_eq, unfolded prompt_simps prompt_volume t(6) last_ConsL [OF refl]]
  obtain r st1 where p: "PackDirectory P (src @ 32 # target) ?p = Some (r, st1)" "typed_step ?p st1" "ed_volume st1" "host_kept ?p st1"
    "case r of Inl e \<Rightarrow> e = no_space \<and> no_free_cluster st1
     | Inr _ \<Rightarrow> \<exists>ent cs. added ?s (ed_fatRaw st) (image st) dcs es n ent (ed_fatRaw st1) (image st1) \<and> en_shortName ent = name \<and>
         en_longName ent = name \<and> file_data ?s (ed_fatRaw st1) (image st1) ent cs (bytes_of (ed_sys st) i) \<and> set cs \<inter> set dcs = {}"
    using adds [OF vol t(3-5) target host] by blast
  have "typed_step st st1" "host_kept st st1" using typed_prompt(2) [OF p(2)] p(4) by (auto simp: host_kept_def)
  moreover have "run_lines P tty (input # lines) st = (case r of Inl e \<Rightarrow> Some (Inl e, st1) | Inr _ \<Rightarrow> run_lines P tty lines st1)"
    unfolding run using p(1) by (cases r) (simp_all add: io_bind_def)
  ultimately show ?thesis using p(3,5) by (intro exI [of _ r] exI [of _ st1]) (simp del: run_lines.simps)
qed

text \<open>
  The lines of a session, by induction: every file that was packed is there in the end, and so is every
  file that was there before. The directory has room for all entries but the last, which may need
  another cluster.
\<close>

lemma packs_run:
  assumes "ed_volume st" "root_dir (ed_super st) (ed_fatRaw st) (image st) dcs es n"
    and "list_all2 (packs (names (ed_sys st)) (inode (ed_sys st) (ed_file st))) lines files"
    and "distinct (map fst files)" "\<forall>file \<in> set files. new_name es (fst file)" "ed_file st \<in> opened (ed_sys st)"
    and "1 < length files \<longrightarrow> n + 32 * length files < length dcs * cluster_size (ed_super st)"
  shows "\<exists>r st'. run_lines P tty lines st = Some (r, st') \<and> typed_step st st' \<and> ed_volume st' \<and>
    (case r of Inl e \<Rightarrow> e = no_space \<and> no_free_cluster st'
     | Inr (u :: unit) \<Rightarrow>
         (\<forall>file \<in> set files. stored_file (ed_super st) (ed_fatRaw st') (image st') [fst file] (bytes_of (ed_sys st) (snd file))) \<and>
         (\<forall>other contents. stored_beside (ed_super st) (ed_fatRaw st) (image st) dcs other contents \<longrightarrow>
            stored_file (ed_super st) (ed_fatRaw st') (image st') other contents))"
  using assms
proof (induction lines arbitrary: files st es n)
  case Nil
  then have "files = []" by simp
  then show ?case using Nil.prems(1) typed_prompt(1) [OF typed_refl]
    by (simp add: run_lines_prompt(1) prompt_volume stored_beside_file del: run_lines.simps)
next
  case (Cons input lines)
  let ?s = "ed_super st" and ?raw = "ed_fatRaw st"
  obtain name i rest where f: "files = (name, i) # rest" "packs (names (ed_sys st)) (inode (ed_sys st) (ed_file st)) input (name, i)"
    and rest: "list_all2 (packs (names (ed_sys st)) (inode (ed_sys st) (ed_file st))) lines rest"
    using Cons.prems(3) by (auto simp: list_all2_Cons1)
  obtain src where src: "line_packs input src name" "names (ed_sys st) (cstr src) = Some i" "i \<noteq> inode (ed_sys st) (ed_file st)"
    using f(2) by (auto simp: packs_def)
  have fresh: "new_name es name" using Cons.prems(5) f(1) by simp
  obtain r st1 where p: "run_lines P tty (input # lines) st = (case r of Inl e \<Rightarrow> Some (Inl e, st1) | Inr _ \<Rightarrow> run_lines P tty lines st1)"
    "typed_step st st1" "ed_volume st1" "host_kept st st1"
    and res: "case r of Inl e \<Rightarrow> e = no_space \<and> no_free_cluster st1
     | Inr (u :: unit) \<Rightarrow> \<exists>new cs. added ?s ?raw (image st) dcs es n new (ed_fatRaw st1) (image st1) \<and>
         en_shortName new = name \<and> en_longName new = name \<and>
         file_data ?s (ed_fatRaw st1) (image st1) new cs (bytes_of (ed_sys st) i) \<and> set cs \<inter> set dcs = {}"
    using pack_line_adds [OF Cons.prems(1,2) src(1) fresh src(2,3) Cons.prems(6), of tty lines] by blast
  show ?case
  proof (cases r)
    case (Inr u)
    then obtain new cs where a: "added ?s ?raw (image st) dcs es n new (ed_fatRaw st1) (image st1)"
      "en_shortName new = name" "en_longName new = name"
      "file_data ?s (ed_fatRaw st1) (image st1) new cs (bytes_of (ed_sys st) i)" "set cs \<inter> set dcs = {}" using res by auto
    have run: "run_lines P tty (input # lines) st = run_lines P tty lines st1" using p(1) Inr by simp
    have place: "boot_place ?s ?raw (image st) [name] dcs es n" by (rule root_place [OF Cons.prems(2) fresh])
    have dir: "dir_chain ?s ?raw (image st) dcs es n" using Cons.prems(2) by (simp add: root_dir_def)
    have same: "ed_super st1 = ?s" using p(2) by (simp add: typed_step_def)
    show ?thesis
    proof (cases "rest = []")
      case True
      then have "lines = []" using rest by simp
      then have "run_lines P tty (input # lines) st = Some (Inr (), prompt tty st1)" using run by (simp add: run_lines_prompt(1) del: run_lines.simps)
      moreover have "stored_file ?s (ed_fatRaw st1) (image st1) [name] (bytes_of (ed_sys st) i)"
        by (rule stored_after(1) [OF a(1) place _ a(4)]) (simp add: a(2))
      ultimately show ?thesis using True f(1) typed_prompt(1) [OF p(2)] p(3) stored_after(2) [OF a(1) dir]
        by (simp add: prompt_volume del: run_lines.simps)
    next
      case False
      then have "2 \<le> length files" using f(1) by (cases rest) simp_all
      then have room: "n + 64 < length dcs * cluster_size ?s" using Cons.prems(7) by linarith
      have root1: "root_dir (ed_super st1) (ed_fatRaw st1) (image st1) dcs (es @ [new]) (n + 32)"
        unfolding same by (rule root_dir_added [OF Cons.prems(2) a(1) room])
      have host: "names (ed_sys st1) = names (ed_sys st)" "inode (ed_sys st1) (ed_file st1) = inode (ed_sys st) (ed_file st)"
        "ed_file st1 \<in> opened (ed_sys st1)" "\<forall>i. i \<noteq> inode (ed_sys st) (ed_file st) \<longrightarrow> bytes_of (ed_sys st1) i = bytes_of (ed_sys st) i"
        using p(4) Cons.prems(6) by (auto simp: host_kept_def)
      have news: "\<forall>file \<in> set rest. new_name (es @ [new]) (fst file)"
        using Cons.prems(4,5) f(1) a(2,3) by (force simp: new_name_def)
      have more: "1 < length rest \<longrightarrow> n + 32 + 32 * length rest < length dcs * cluster_size (ed_super st1)"
        using Cons.prems(7) f(1) same False by (simp add: add.assoc)
      obtain r2 st2 where q: "run_lines P tty lines st1 = Some (r2, st2)" "typed_step st1 st2" "ed_volume st2"
        "case r2 of Inl e \<Rightarrow> e = no_space \<and> no_free_cluster st2
         | Inr (u :: unit) \<Rightarrow>
             (\<forall>file \<in> set rest. stored_file ?s (ed_fatRaw st2) (image st2) [fst file] (bytes_of (ed_sys st1) (snd file))) \<and>
             (\<forall>other contents. stored_beside ?s (ed_fatRaw st1) (image st1) dcs other contents \<longrightarrow>
                stored_file ?s (ed_fatRaw st2) (image st2) other contents)"
        using Cons.IH [OF p(3) root1 rest [folded host(1,2)] _ news host(3) more] Cons.prems(4) f(1) unfolding same by auto
      have "stored_beside ?s (ed_fatRaw st1) (image st1) dcs [name] (bytes_of (ed_sys st) i)"
        by (rule beside_after(1) [OF a(1) room place _ a(4,5)]) (simp add: a(2))
      moreover have "\<forall>file \<in> set rest. bytes_of (ed_sys st1) (snd file) = bytes_of (ed_sys st) (snd file)"
        using list_all2_files [OF rest] host(4) by blast
      ultimately show ?thesis using q run f(1) typed_trans [OF p(2) q(2)] beside_after(2) [OF a(1) room dir]
        by (intro exI [of _ r2] exI [of _ st2]) (auto split: sum.splits simp del: run_lines.simps)
    qed
  qed (use p res in \<open>intro exI [of _ "Inl _"] exI [of _ st1], auto simp del: run_lines.simps\<close>)
qed

text \<open>The whole run, from the image file to the image file.\<close>

lemma packs_session:
  assumes name: "names (ed_sys st) name = Some vol" "name \<noteq> text_bytes ''--help''" "name \<noteq> text_bytes ''-h''"
    and img: "editable (bytes_of (ed_sys st) vol) s raw"
    and root: "root_dir s raw (bytes_of (ed_sys st) vol) dcs es n"
    and files: "list_all2 (packs (names (ed_sys st)) vol) lines files" "distinct (map fst files)" "\<forall>file \<in> set files. new_name es (fst file)"
    and room: "1 < length files \<longrightarrow> n + 32 * length files < length dcs * cluster_size s"
  shows "\<exists>r st'. fatedit_main P tty [name] lines st = Some (r, st') \<and>
    (case r of Inl e \<Rightarrow> e = no_space \<and> no_free_cluster st'
     | Inr code \<Rightarrow> code = 0 \<and> (\<exists>raw'. editable (image_of inode bytes_of st') s raw' \<and>
         (\<forall>path contents. supplied s raw (bytes_of (ed_sys st) vol) dcs files (bytes_of (ed_sys st)) path contents \<longrightarrow>
            boot_file s raw' (image_of inode bytes_of st') (SplitPath path) contents)))"
proof -
  obtain st1 where st1: "fatedit_main P tty [name] lines st = io_bind (run_lines P tty lines) (\<lambda>_. save_volume P) st1"
    "ed_super st1 = s" "ed_fatRaw st1 = raw" "image st1 = bytes_of (ed_sys st) vol"
    "FatFsInfo_IsValid (ed_fsinfo st1)" "FatSuper_wf s" "ed_volume st1" "volume_loaded st1"
    "inode (ed_sys st1) (ed_file st1) = vol" "ed_file st1 \<in> opened (ed_sys st1)"
    "names (ed_sys st1) = names (ed_sys st)" "bytes_of (ed_sys st1) = bytes_of (ed_sys st)"
    using fatedit_main_runs [OF name img] by blast
  note packed = packs_run [of st1, unfolded st1(2-4,9,11,12), OF st1(7) root files st1(10) room]
  obtain r st2 where p: "run_lines P tty lines st1 = Some (r, st2)" "typed_step st1 st2" "ed_volume st2"
    "case r of Inl e \<Rightarrow> e = no_space \<and> no_free_cluster st2
     | Inr (u :: unit) \<Rightarrow> (\<forall>file \<in> set files. stored_file s (ed_fatRaw st2) (image st2) [fst file] (bytes_of (ed_sys st) (snd file))) \<and>
         (\<forall>other contents. stored_beside s raw (bytes_of (ed_sys st) vol) dcs other contents \<longrightarrow>
            stored_file s (ed_fatRaw st2) (image st2) other contents)"
    using packed by blast
  have clean: "fat_clean (ed_fatRaw st1)" using img st1(3) by (simp add: editable_def)
  obtain st3 where st3: "save_volume P st2 = Some (Inr 0, st3)" "ed_super st3 = s" "editable (image st3) s (ed_fatRaw st2)"
    "\<forall>path contents. stored_file s (ed_fatRaw st2) (image st2) path contents \<longrightarrow> boot_file s (ed_fatRaw st2) (image st3) path contents"
    using session_saves [OF img st1(2,6,5,8) clean p(2,3)] by auto
  show ?thesis
  proof (cases r)
    case (Inl e)
    then show ?thesis using p(1,4) st1(1) by (auto simp: io_bind_def)
  next
    case (Inr u)
    then have "fatedit_main P tty [name] lines st = Some (Inr 0, st3)"
      using p(1) st3(1) unfolding st1(1) by (simp add: io_bind_go)
    then show ?thesis using p(4) Inr st3(3,4)
      by (intro exI [of _ "Inr 0"] exI [of _ st3]) (auto simp: image_eq supplied_def intro!: exI [of _ "ed_fatRaw st2"])
  qed
qed

end

end
