(* ===== verification/Boot_Chain.thy ===== *)
theory Boot_Chain
  imports Loader_Boot Edit_Session
begin

text \<open>
  The chain from the editor to the kernel: the program of the second stage on a volume with a script
  and a kernel, the run of the editor that puts them there, and what a volume with any contents has
  whenever the program enters a kernel.
\<close>

subsection \<open>Allocations of the program\<close>

definition same_below :: "nat \<Rightarrow> mem \<Rightarrow> mem \<Rightarrow> bool" where
  "same_below n m m' \<longleftrightarrow> (\<forall>x. unat x < n \<longrightarrow> m' x = m x)"

definition same_above :: "nat \<Rightarrow> mem \<Rightarrow> mem \<Rightarrow> bool" where
  "same_above n m m' \<longleftrightarrow> (\<forall>x < 2 ^ 32. n \<le> x \<longrightarrow> m' (of_nat x) = m (of_nat x))"

lemma same_below_trans: "same_below n a b \<Longrightarrow> same_below n b c \<Longrightarrow> same_below n a c"
  by (simp add: same_below_def)

lemma same_above_trans: "same_above n a b \<Longrightarrow> same_above n b c \<Longrightarrow> same_above n a c"
  by (simp add: same_above_def)

lemma same_below_read:
  assumes "same_below n m m'" "unat a + k \<le> n" "n < 2 ^ 32"
  shows "mem_read m' a k = mem_read m a k"
proof (rule mem_read_cong)
  fix i assume "i < k"
  then have "unat (a + of_nat i) = unat a + i" using assms(2,3) by (simp add: unat_word_ariths unat_of_nat)
  then show "m' (a + of_nat i) = m (a + of_nat i)" using assms(1,2) \<open>i < k\<close> by (simp add: same_below_def)
qed

text \<open>A heap from which was only allocated, at \<^verbatim>\<open>base\<close> and \<^verbatim>\<open>base + size\<close>.\<close>

definition stacked :: "'h Loader \<Rightarrow> u32 \<Rightarrow> u32 \<Rightarrow> nat list \<Rightarrow> nat \<Rightarrow> bool" where
  "stacked st lo hi used rest \<longleftrightarrow> heap (ld_heap st) = lo \<and> heapEnd (ld_heap st) = hi \<and>
     heap_rep (ld_heap st) (one_free used rest)"

lemma stacked_cong: "ld_heap st' = ld_heap st \<Longrightarrow> stacked st' lo hi used rest = stacked st lo hi used rest"
  by (simp add: stacked_def)

lemma stacked_small:
  assumes "stacked st lo hi used rest"
  shows "rest < 2 ^ 32"
proof -
  have "unat hi = unat lo + span (one_free used rest)" using assms heap_rep_end [of "ld_heap st"] by (auto simp: stacked_def)
  moreover have "rest \<le> span (one_free used rest)" by (simp add: one_free_def)
  ultimately have "rest \<le> unat hi" by simp
  from le_less_trans [OF this unat_lt_u32] show ?thesis by simp
qed

lemma ld_new_stacked:
  assumes "stacked st lo hi used rest" "unat k + 3 < 2 ^ 32" "round4 (unat k) + 12 \<le> rest"
  shows "\<exists>p h. ld_new k st = Some (Inr p, st\<lparr>ld_heap := h\<rparr>) \<and>
    stacked (st\<lparr>ld_heap := h\<rparr>) lo hi (used @ [round4 (unat k)]) (rest - round4 (unat k) - 8) \<and>
    unat lo \<le> unat p \<and> unat p + round4 (unat k) \<le> unat hi \<and>
    same_below (unat lo) (ld_mem st) (hmem h) \<and> same_above (unat hi) (ld_mem st) (hmem h)"
proof -
  have s: "heap (ld_heap st) = lo" "heapEnd (ld_heap st) = hi" "heap_rep (ld_heap st) (one_free used rest)"
    using assms(1) by (simp_all add: stacked_def)
  let ?c = "round4 (unat k)"
  obtain p h where p: "ld_malloc k st = Some (Inr p, st\<lparr>ld_heap := h\<rparr>)" "p \<noteq> 0" "heap h = lo" "heapEnd h = hi"
    "heap_rep h (one_free (used @ [?c]) (rest - ?c - 8))"
    "unat p = unat (heap h) + span (map (\<lambda>n. (n, True)) used) + 8"
    "outside_same (unat p - 8) (unat (heapEnd h)) (hmem (ld_heap st)) (hmem h)"
    using malloc_one_free [OF s(3) assms(2,3)] unfolding s by blast
  have "unat hi = unat lo + span (one_free (used @ [?c]) (rest - ?c - 8))"
    using heap_rep_end [OF p(5)] p(3,4) by simp
  then have "unat p + ?c \<le> unat hi" using p(3,6) by (simp add: one_free_def)
  moreover have "same_below (unat lo) (ld_mem st) (hmem h)" unfolding same_below_def
  proof (intro allI impI)
    fix x :: u32 assume "unat x < unat lo"
    then have "unat x < 2 ^ 32 \<and> unat x < unat p - 8" using p(3,6) unat_lt_u32 [of x] by simp
    then have "hmem h (of_nat (unat x)) = hmem (ld_heap st) (of_nat (unat x))" using p(7) unfolding outside_same_def by blast
    then show "hmem h x = ld_mem st x" by (simp add: ld_mem_def)
  qed
  moreover have "same_above (unat hi) (ld_mem st) (hmem h)"
    using p(4,7) unfolding outside_same_def same_above_def ld_mem_def by simp
  ultimately show ?thesis using ld_new_eq [OF p(1,2)] p(3-6)
    by (intro exI [of _ p] exI [of _ h]) (simp add: stacked_def)
qed

lemma HeapInit_stacked:
  assumes "0 < unat lo" "unat lo + 8192 < 2 ^ 32"
  shows "stacked (st\<lparr>ld_heap := HeapInit (ld_mem st) lo heapMaxSize\<rparr>) lo (lo + 8192) [] 8184"
    "same_below (unat lo) (ld_mem st) (hmem (HeapInit (ld_mem st) lo heapMaxSize))"
proof -
  have "lo \<noteq> 0" using assms(1) by auto
  then show "stacked (st\<lparr>ld_heap := HeapInit (ld_mem st) lo heapMaxSize\<rparr>) lo (lo + 8192) [] 8184"
    using HeapInit_rep_lemma [of lo heapMaxSize "ld_mem st"] assms
    by (simp add: stacked_def heapMaxSize_def one_free_def HeapInit_def Let_def)
  have b: "unat (lo + of_nat i) = unat lo + i" if "i < 8" for i
    using assms(2) that by (simp add: unat_word_ariths unat_of_nat)
  have "x \<notin> word_at lo" "x \<notin> word_at (lo + 4)" if "unat x < unat lo" for x
    using that b [of 1] b [of 2] b [of 3] b [of 4] b [of 5] b [of 6] b [of 7]
    by (auto simp: word_at_def add.assoc)
  then show "same_below (unat lo) (ld_mem st) (hmem (HeapInit (ld_mem st) lo heapMaxSize))"
    by (simp add: same_below_def HeapInit_def Let_def HeapEntry_Init_def store32_other)
qed

subsection \<open>The memory map for the kernel\<close>

lemma MBGenInfo_loop_above:
  assumes "MBGenInfo_loop m a mm i n = Some m'" "i + n \<le> mm_count mm" "mm_count mm \<le> length (mm_ent mm)"
    and "\<forall>e \<in> set (mm_ent mm). entry_wf e" "unat a + 24 * mm_count mm < 2 ^ 32" "unat a + 24 * mm_count mm \<le> unat x"
  shows "m' x = m x"
  using assms(1,2)
proof (induction n arbitrary: m i)
  case (Suc n)
  let ?e = "mm_ent mm ! i"
  have i: "i < mm_count mm" "i < length (mm_ent mm)" using Suc.prems assms(3) by simp_all
  have wf: "entry_wf ?e" using assms(4) i by simp
  have off: "unat (x - (a + of_nat j)) = unat x - (unat a + j)" if "j \<le> 24 * mm_count mm" for j
  proof -
    have "unat (a + of_nat j) = unat a + j" using that assms(5) by (simp add: unat_word_ariths unat_of_nat)
    then show ?thesis using that assms(6) by (subst unat_sub) (simp_all add: word_le_nat_alt)
  qed
  have far: "24 \<le> unat x - (unat a + 24 * i)" using i(1) assms(6) by simp
  let ?m1 = "MultiBootMmap_assign m (a + of_nat (24 * i)) ?e"
  let ?m2 = "MultiBootMmap_SetNext ?m1 (a + of_nat (24 * i)) (a + of_nat (24 * Suc i))"
  have "a + of_nat (24 * i) + 4 = a + of_nat (24 * i + 4)" by simp
  then have "?m1 x = m x"
    unfolding MultiBootMmap_assign_def using off [of "24 * i + 4"] i(1) far wf by (intro trans [OF mem_write_outside]) (simp_all add: add.assoc)
  moreover have "?m2 x = ?m1 x"
    unfolding MultiBootMmap_SetNext_def using off [of "24 * i"] i(1) far by (intro mem_write_outside) simp
  moreover have "MBGenInfo_loop ?m2 a mm (Suc i) n = Some m'"
    using Suc.prems(1) i by (simp add: MemoryMap_At_def Let_def del: mult_Suc_right)
  ultimately show ?case using Suc.IH [of ?m2 "Suc i"] Suc.prems(2) by simp
qed simp

lemma MBGenInfo_above:
  assumes "MBGenInfo wide m mm name a syms colors = Some (info, m')" "mm_count mm \<le> length (mm_ent mm)"
    and "\<forall>e \<in> set (mm_ent mm). entry_wf e" "unat a + 24 * mm_count mm < 2 ^ 32" "unat a + 24 * mm_count mm \<le> n"
  shows "same_above n m m'"
  unfolding same_above_def
proof (intro allI impI)
  fix y :: nat assume y: "y < 2 ^ 32" "n \<le> y"
  then have u: "unat (of_nat y :: u32) = y" by (intro unat_of_nat_u32) simp
  let ?m0 = "mem_write m a (replicate (24 * mm_count mm) 0)"
  have "MBGenInfo_loop ?m0 a mm 0 (mm_count mm) = Some m'"
    using assms(1) by (simp add: MBGenInfo_def Let_def MemoryMap_Count_def split: option.splits)
  moreover have "unat a + 24 * mm_count mm \<le> unat (of_nat y :: u32)" using assms(5) y u by simp
  ultimately have "m' (of_nat y) = ?m0 (of_nat y)" using MBGenInfo_loop_above [OF _ _ assms(2-4)] by simp
  also have "\<dots> = m (of_nat y)"
  proof (rule mem_write_outside)
    have "unat (of_nat y - a) = y - unat a" using assms(5) y u by (subst unat_sub) (simp_all add: word_le_nat_alt)
    then show "length (replicate (24 * mm_count mm) 0) \<le> unat (of_nat y - a)" using assms(5) y by simp
  qed
  finally show "m' (of_nat y) = m (of_nat y)" .
qed

definition map_wf :: "MemoryMap \<Rightarrow> bool" where
  "map_wf mm \<longleftrightarrow> mm_count mm \<le> length (mm_ent mm) \<and> (\<forall>e \<in> set (mm_ent mm). entry_wf e)"

text \<open>What the kernel finds: the entries of the memory map, and the name of the loader.\<close>

definition map_handed :: "mem \<Rightarrow> MultiBootInfo \<Rightarrow> MemoryMap \<Rightarrow> u32 \<Rightarrow> bool" where
  "map_handed m mbi mm name \<longleftrightarrow> (\<exists>visited. mmap_walk m (MemoryMapBegin mbi) (MemoryMapEnd mbi) = Some visited \<and>
     map (MultiBootMmap_wrapped m) visited = MemoryMap_items mm) \<and> MultiBootInfo_BootLoaderName mbi = name"

lemma round4_id: "4 dvd n \<Longrightarrow> round4 n = n"
  by (auto simp: round4_def elim!: dvdE)

lemma ld_MBGenInfo_works:
  assumes heap: "stacked st lo hi used rest" and mm: "map_wf (ld_mmap st)" and room: "148 + 24 * mm_count (ld_mmap st) \<le> rest"
  shows "\<exists>info mbi st'. ld_MBGenInfo B st = Some (Inr (info, mbi), st') \<and> map_handed (ld_mem st') mbi (ld_mmap st) (bd_loadName B) \<and>
    ld_kernelEntry st' = ld_kernelEntry st \<and> same_above (unat hi) (ld_mem st) (ld_mem st')"
proof -
  let ?mm = "ld_mmap st"
  define k where "k = 24 * mm_count ?mm"
  have wf: "mm_count ?mm \<le> length (mm_ent ?mm)" "\<forall>e \<in> set (mm_ent ?mm). entry_wf e" using mm by (simp_all add: map_wf_def)
  note small = stacked_small [OF heap]
  have r: "round4 (unat (128 :: u32)) = 128" "round4 k = k" "unat (of_nat k :: u32) = k"
  proof -
    show "round4 (unat (128 :: u32)) = 128" by (simp add: round4_def)
    show "unat (of_nat k :: u32) = k" using room small by (intro unat_of_nat_u32) (simp add: k_def)
    show "round4 k = k" by (intro round4_id) (simp add: k_def)
  qed
  obtain p1 h1 where a1: "ld_new 128 st = Some (Inr p1, st\<lparr>ld_heap := h1\<rparr>)" "stacked (st\<lparr>ld_heap := h1\<rparr>) lo hi (used @ [128]) (rest - 136)"
    "same_above (unat hi) (ld_mem st) (hmem h1)"
    using ld_new_stacked [OF heap, of 128, unfolded r] room by auto
  let ?st1 = "st\<lparr>ld_heap := h1\<rparr>"
  have fit: "k + 3 < 2 ^ 32" "k + 12 \<le> rest - 136" using room small by (simp_all add: k_def)
  obtain p2 h2 where a2: "ld_new (of_nat k) ?st1 = Some (Inr p2, st\<lparr>ld_heap := h2\<rparr>)" "unat p2 + k \<le> unat hi"
    "same_above (unat hi) (hmem h1) (hmem h2)"
    using ld_new_stacked [OF a1(2), of "of_nat k", unfolded r, OF fit] by (auto simp: ld_mem_def)
  let ?st2 = "st\<lparr>ld_heap := h2\<rparr>"
  have p2: "unat p2 + k < 2 ^ 32" using le_less_trans [OF a2(2) unat_lt_u32] by simp
  obtain mbi m' visited where g: "MBGenInfo (bd_wide B) (hmem h2) ?mm (bd_loadName B) p2 (bd_syms B) (bd_colors B) = Some (mbi, m')"
    "mmap_walk m' (MemoryMapBegin mbi) (MemoryMapEnd mbi) = Some visited"
    "map (MultiBootMmap_wrapped m') visited = MemoryMap_items ?mm" "MultiBootInfo_BootLoaderName mbi = bd_loadName B"
    using memory_map_passed [OF wf, of p2 "bd_wide B" "hmem h2" "bd_loadName B" "bd_syms B" "bd_colors B"] p2 unfolding k_def by blast
  have above: "same_above (unat hi) (hmem h2) m'" by (rule MBGenInfo_above [OF g(1) wf p2 [unfolded k_def] a2(2) [unfolded k_def]])
  let ?st3 = "st\<lparr>ld_heap := h2\<lparr>hmem := m'\<rparr>\<rparr>"
  have "ld_MBGenInfo B st = Some (Inr (p1, mbi), ?st3)"
    using a1(1) a2(1) [unfolded k_def] g(1)
    by (simp add: ld_MBGenInfo_def io_bind_def io_get_def io_return_def ld_update_mem_def io_put_def ld_mem_def MemoryMap_Count_def)
  moreover have "map_handed (ld_mem ?st3) mbi ?mm (bd_loadName B)" using g(2-4) by (auto simp: map_handed_def ld_mem_def)
  moreover have "same_above (unat hi) (ld_mem st) (ld_mem ?st3)"
    using same_above_trans [OF same_above_trans [OF a1(3) a2(3)] above] by (simp add: ld_mem_def)
  ultimately show ?thesis by auto
qed

subsection \<open>The program on a bootable volume\<close>

definition loader_part :: "'h Board \<Rightarrow> 'h Loader \<Rightarrow> BIOSBlockDevice" where
  "loader_part B st = BIOSBlockDevice_new (bd_geometry B) (bd_partStart B) (ld_bios st)
     (Stage2Header_BiosBootDrive (ld_header st)) (MBREntry_StartAddressLBA (Stage2Header_BootMBREntry (ld_header st)))"

text \<open>What the allocations for the device, the file system and its two windows leave of the heap.\<close>

definition heap_left :: "'h Board \<Rightarrow> FatSuper \<Rightarrow> nat" where
  "heap_left B s = 8184 - (round4 (unat (bd_sizeDevice B)) + 8) - (round4 (unat (bd_sizeFs B)) + 8) - 520 -
     (512 * unat (FatSuper_SectorsPerCluster s) + 8)"

text \<open>
  The surroundings of the second stage: the first sector of its partition is in memory, and the heap,
  behind it, is large enough for the device, the file system and its windows.
\<close>

definition loader_placed :: "'h Board \<Rightarrow> u32 \<Rightarrow> 'h Loader \<Rightarrow> FatSuper \<Rightarrow> bool" where
  "loader_placed B lo st s \<longleftrightarrow> FatSuper_of_bytes (mem_read (ld_mem st) 0x7C00 512) = s \<and>
     length (bd_nameBuffer B) = 13 \<and> length (bd_hdr B) = 32 \<and> 0x7E00 \<le> unat lo \<and> unat lo + 8192 < 2 ^ 32 \<and> 12 \<le> heap_left B s"

text \<open>
  A machine on which it starts: the disk of the boot partition can be read and holds the
  image, address line and memory map work out, and the heap is large enough for a script of \<^verbatim>\<open>n\<close>
  characters and the map.
\<close>

definition loader_starts :: "'h Board \<Rightarrow> u32 \<Rightarrow> 'h Loader \<Rightarrow> FatSuper \<Rightarrow> bytes \<Rightarrow> MemoryMap \<Rightarrow> nat \<Rightarrow> bool" where
  "loader_starts B lo st s img mm n \<longleftrightarrow>
     BIOSBlockDevice_IsInitialized (loader_part B st) \<and> bios_reliable (loader_part B st) \<and> disk_holds (loader_part B st) s img \<and>
     FatSuper_of_bytes (mem_read (ld_mem st) 0x7C00 512) = s \<and>
     (case EnableA20 (bd_machine B) (ld_hw st) of (ok, hw) \<Rightarrow> ok \<and>
        (case MemoryMap_Load (bd_e820 B) hw (ld_temp st) (ld_mmap st) of (loaded, mm', temp, hw') \<Rightarrow> loaded \<and> mm' = mm)) \<and>
     map_wf mm \<and> length (bd_nameBuffer B) = 13 \<and> length (bd_hdr B) = 32 \<and>
     0x7E00 \<le> unat lo \<and> unat lo + 8192 < 2 ^ 32 \<and>
     unat (bd_sizeDevice B) + unat (bd_sizeFs B) < 8192 \<and>
     round4 (n + 1) + 1032 \<le> heap_left B s \<and> 148 + 24 * mm_count mm \<le> heap_left B s"

lemma ld_make_device_works:
  assumes "stacked st lo hi [] 8184" "round4 (unat (bd_sizeDevice B)) + 12 \<le> 8184"
  shows "\<exists>h. ld_make_device B st = Some (Inr (loader_part B st), st\<lparr>ld_heap := h, ld_bios := bb_bios (loader_part B st)\<rparr>) \<and>
    stacked (st\<lparr>ld_heap := h\<rparr>) lo hi [round4 (unat (bd_sizeDevice B))] (8184 - round4 (unat (bd_sizeDevice B)) - 8) \<and>
    same_below (unat lo) (ld_mem st) (hmem h)"
proof -
  let ?k = "bd_sizeDevice B"
  have "unat ?k + 3 < 2 ^ 32" using assms(2) round4_bounds(1) [of "unat ?k"] by simp
  then obtain p h where h: "ld_new ?k st = Some (Inr p, st\<lparr>ld_heap := h\<rparr>)"
    "stacked (st\<lparr>ld_heap := h\<rparr>) lo hi ([] @ [round4 (unat ?k)]) (8184 - round4 (unat ?k) - 8)"
    "same_below (unat lo) (ld_mem st) (hmem h)"
    using ld_new_stacked [OF assms(1) _ assms(2)] by blast
  then show ?thesis
    by (intro exI [of _ h]) (simp add: ld_make_device_def io_bind_go [of _ _ _ "st\<lparr>ld_heap := h\<rparr>"] io_bind_def [of "io_get _"] io_bind_def [of "io_put _"]
        io_get_def io_put_def io_return_def loader_part_def)
qed

lemma ld_make_fs_works:
  assumes heap: "stacked st lo hi used rest" and sizes: "round4 (unat (bd_sizeFs B)) + 8 + 520 + 512 * unat (FatSuper_SectorsPerCluster s) + 12 \<le> rest"
    and super: "FatSuper_of_bytes (mem_read (ld_mem st) 0x7C00 512) = s" and disk: "bios_reliable part"
  shows "\<exists>h fs. ld_make_fs B part st = Some (Inr (), st\<lparr>ld_heap := h, ld_fs := Some fs\<rparr>) \<and>
    fatfs_inv BIOS_ops bios_reliable bios_content fs \<and> super fs = s \<and> blk fs = part \<and>
    (\<exists>used'. stacked (st\<lparr>ld_heap := h\<rparr>) lo hi used' (rest - (round4 (unat (bd_sizeFs B)) + 8) - 520 - (512 * unat (FatSuper_SectorsPerCluster s) + 8)))"
proof -
  let ?k = "bd_sizeFs B" and ?c = "512 * unat (FatSuper_SectorsPerCluster s)"
  let ?fs0 = "FatFs_new part s [] []"
  have c: "unat (BytesPerCluster BIOS_ops ?fs0) = ?c"
    by (simp add: BytesPerCluster_unat BIOS_sector_size FatFs_new_def)
  have w: "unat (SectorSize_op BIOS_ops part) = 512" "unat (ucast (SectorSize_op BIOS_ops part) :: u32) = 512"
    by (simp_all add: BIOS_ops_def BIOSBlockDevice_SectorSize_def)
  have r4: "round4 512 = 512" "round4 ?c = ?c" by (intro round4_id; simp)+
  have k: "unat ?k + 3 < 2 ^ 32" using sizes round4_bounds(1) [of "unat ?k"] stacked_small [OF heap] by linarith
  have fit: "(512 :: nat) + 3 < 2 ^ 32" "512 + 12 \<le> rest - round4 (unat ?k) - 8" "?c + 3 < 2 ^ 32"
    "?c + 12 \<le> rest - round4 (unat ?k) - 8 - 520"
    using sizes stacked_small [OF heap] by simp_all
  obtain p1 h1 where h1: "ld_new ?k st = Some (Inr p1, st\<lparr>ld_heap := h1\<rparr>)"
    "stacked (st\<lparr>ld_heap := h1\<rparr>) lo hi (used @ [round4 (unat ?k)]) (rest - round4 (unat ?k) - 8)"
    using ld_new_stacked [OF heap k] sizes by auto
  obtain p2 h2 where h2: "ld_new (ucast (SectorSize_op BIOS_ops part)) (st\<lparr>ld_heap := h1\<rparr>) = Some (Inr p2, st\<lparr>ld_heap := h2\<rparr>)"
    "stacked (st\<lparr>ld_heap := h2\<rparr>) lo hi ((used @ [round4 (unat ?k)]) @ [512]) (rest - round4 (unat ?k) - 8 - 520)"
    using ld_new_stacked [OF h1(2), of "ucast (SectorSize_op BIOS_ops part)", unfolded w r4, OF fit(1,2)] by auto
  obtain p3 h3 where h3: "ld_new (BytesPerCluster BIOS_ops ?fs0) (st\<lparr>ld_heap := h2\<rparr>) = Some (Inr p3, st\<lparr>ld_heap := h3\<rparr>)"
    "stacked (st\<lparr>ld_heap := h3\<rparr>) lo hi (((used @ [round4 (unat ?k)]) @ [512]) @ [?c]) (rest - round4 (unat ?k) - 8 - 520 - ?c - 8)"
    using ld_new_stacked [OF h2(2), of "BytesPerCluster BIOS_ops ?fs0", unfolded c r4, OF fit(3,4)] by auto
  let ?fs = "FatFs_new part s (mem_read (hmem h3) p2 512) (mem_read (hmem h3) p3 ?c)"
  have "ld_make_fs B part st = Some (Inr (), st\<lparr>ld_heap := h3, ld_fs := Some ?fs\<rparr>)"
    using h1(1) h2(1) h3(1) super c w(1)
    by (simp add: ld_make_fs_def io_bind_def io_get_def io_put_def ld_mem_def)
  moreover have "fatfs_inv BIOS_ops bios_reliable bios_content ?fs"
    using disk by (intro FatFs_new_inv) (simp_all add: BIOS_sector_size)
  moreover have "super ?fs = s" "blk ?fs = part" by (simp_all add: FatFs_new_def)
  ultimately show ?thesis using h3(2) by (intro exI [of _ h3] exI [of _ ?fs]) auto
qed

lemma kernel_loaded_above:
  "kernel_loaded m contents hdr \<Longrightarrow> kernel_file hi contents k \<Longrightarrow> hdr = kernel_header contents k \<Longrightarrow>
    same_above (unat hi) m m' \<Longrightarrow> kernel_loaded m' contents hdr"
  unfolding same_above_def by (rule kernel_loaded_behind)

lemma loader_main_prepares:
  assumes placed: "loader_placed B lo st s"
    and disk: "BIOSBlockDevice_IsInitialized (loader_part B st)" "bios_reliable (loader_part B st)"
    and hw: "EnableA20 (bd_machine B) (ld_hw st) = (True, hw)"
      "MemoryMap_Load (bd_e820 B) hw (ld_temp st) (ld_mmap st) = (True, mm, temp, hw')"
  shows "\<exists>st' fs used. loader_main B lo st = loader_rest B st' \<and> ld_fs st' = Some fs \<and>
    fatfs_inv BIOS_ops bios_reliable bios_content fs \<and> super fs = s \<and> blk fs = loader_part B st \<and>
    stacked st' lo (lo + 8192) used (heap_left B s) \<and> ld_mmap st' = mm \<and> ld_haveKernel st' = ld_haveKernel st \<and>
    ld_header st' = ld_header st"
proof -
  let ?part = "loader_part B st" and ?d = "round4 (unat (bd_sizeDevice B))"
  have super: "FatSuper_of_bytes (mem_read (ld_mem st) 0x7C00 512) = s"
    and ok: "0x7E00 \<le> unat lo" "unat lo + 8192 < 2 ^ 32" "12 \<le> heap_left B s"
    using placed by (simp_all add: loader_placed_def)
  have sizes: "?d + 12 \<le> 8184" "round4 (unat (bd_sizeFs B)) + 8 + 520 + 512 * unat (FatSuper_SectorsPerCluster s) + 12 \<le> 8184 - ?d - 8"
    using ok(3) by (simp_all add: heap_left_def)
  have left: "8184 - ?d - 8 - (round4 (unat (bd_sizeFs B)) + 8) - 520 - (512 * unat (FatSuper_SectorsPerCluster s) + 8) = heap_left B s"
    by (simp add: heap_left_def)
  let ?st1 = "st\<lparr>ld_heap := HeapInit (ld_mem st) lo heapMaxSize\<rparr>"
  let ?st2 = "?st1\<lparr>ld_screen := ld_screen ?st1 @ [BIOSTextMode_Reset]\<rparr>"
  have "0 < unat lo" using ok(1) by simp
  note init = HeapInit_stacked [OF this ok(2), of st]
  have "stacked ?st2 lo (lo + 8192) [] 8184" using init(1) by (simp add: stacked_def)
  moreover have part2: "loader_part B ?st2 = ?part" by (simp add: loader_part_def)
  ultimately obtain h3 where s3: "ld_make_device B ?st2 = Some (Inr ?part, ?st2\<lparr>ld_heap := h3, ld_bios := bb_bios ?part\<rparr>)"
    "stacked (?st2\<lparr>ld_heap := h3\<rparr>) lo (lo + 8192) [?d] (8184 - ?d - 8)" "same_below (unat lo) (ld_mem ?st2) (hmem h3)"
    using ld_make_device_works [of ?st2 lo "lo + 8192" B] sizes(1) by auto
  let ?st3 = "?st2\<lparr>ld_heap := h3, ld_bios := bb_bios ?part\<rparr>"
  let ?st4 = "?st3\<lparr>ld_hw := hw\<rparr>"
  let ?st5 = "?st4\<lparr>ld_mmap := mm, ld_temp := temp, ld_hw := hw'\<rparr>"
  have "same_below (unat lo) (ld_mem st) (hmem h3)"
    using same_below_trans [OF init(2)] s3(3) by (simp add: ld_mem_def)
  then have "mem_read (hmem h3) 0x7C00 512 = mem_read (ld_mem st) 0x7C00 512"
    using ok(1) by (intro same_below_read [where n = "unat lo"]) simp_all
  then have "FatSuper_of_bytes (mem_read (ld_mem ?st5) 0x7C00 512) = s" using super by (simp add: ld_mem_def)
  moreover have "stacked ?st5 lo (lo + 8192) [?d] (8184 - ?d - 8)" using s3(2) by (simp add: stacked_def)
  ultimately obtain h6 fs used where s6: "ld_make_fs B ?part ?st5 = Some (Inr (), ?st5\<lparr>ld_heap := h6, ld_fs := Some fs\<rparr>)"
    "fatfs_inv BIOS_ops bios_reliable bios_content fs" "super fs = s" "blk fs = ?part"
    "stacked (?st5\<lparr>ld_heap := h6\<rparr>) lo (lo + 8192) used (heap_left B s)"
    using ld_make_fs_works [OF _ sizes(2) _ disk(2), of ?st5 lo "lo + 8192" "[?d]"] unfolding left by blast
  let ?st6 = "?st5\<lparr>ld_heap := h6, ld_fs := Some fs\<rparr>"
  have "ld_enable_a20 B ?st3 = Some (Inr True, ?st4)" using hw(1) by (simp add: ld_enable_a20_def)
  note a20 = io_bind_go [of "ld_enable_a20 B", OF this]
  have "ld_load_mmap B ?st4 = Some (Inr True, ?st5)" using hw(2) by (simp add: ld_load_mmap_def)
  note load = io_bind_go [of "ld_load_mmap B", OF this]
  have put: "io_bind (io_put g) f x = f () (g x)" for g f and x :: "'a Loader" by (simp add: io_bind_def io_put_def)
  have "loader_main B lo st = loader_rest B ?st6"
    unfolding loader_main_def put io_bind_go [of "ld_make_device B", OF s3(1)]
    using disk(1)
    by (simp only: a20 load io_bind_go [of "ld_make_fs B ?part", OF s6(1)] loader_rest_def if_True if_False not_True_eq_False)
  moreover have "stacked ?st6 lo (lo + 8192) used (heap_left B s)" using s6(5) by (simp add: stacked_def)
  ultimately show ?thesis using s6(2-4) by (intro exI [of _ ?st6] exI [of _ fs] exI [of _ used]) simp
qed

lemma loader_part_divides:
  assumes "BIOSBlockDevice_IsInitialized (loader_part B st)" "bios_reliable (loader_part B st)"
  shows "divides (bb_geometry (loader_part B st))"
proof -
  obtain g b' where r: "BiosDisk_ReadDriveParameters (Stage2Header_BiosBootDrive (ld_header st)) (ld_bios st) (bd_geometry B) = (True, g, b')"
    "loader_part B st = \<lparr>bb_isInitialized = True, bb_geometry = g, bb_partStart = boot_lba st,
       bb_disk = Stage2Header_BiosBootDrive (ld_header st), bb_bios = b'\<rparr>"
    using assms(1) by (auto simp: loader_part_def BIOSBlockDevice_new_def BIOSBlockDevice_IsInitialized_def boot_lba_def split: prod.splits if_splits)
  have "b' = (ld_bios st)\<lparr>bios_now := Suc (bios_now (ld_bios st))\<rparr>"
    using r(1) by (auto simp: BiosDisk_ReadDriveParameters_def int13_def Let_def split: prod.splits if_splits)
  moreover have "int13_documented b'" using assms(2) by (simp add: r(2) bios_reliable_def bios_valid_def)
  ultimately have doc: "int13_documented (ld_bios st)" by simp
  have "unat (headsPerCylinder g) = bios_heads (ld_bios st) (Stage2Header_BiosBootDrive (ld_header st))"
    "unat (sectorsPerTrack g) = bios_sectors (ld_bios st) (Stage2Header_BiosBootDrive (ld_header st))"
    using ReadDriveParameters_geometry [OF doc r(1)] by simp_all
  moreover have "0 < bios_heads (ld_bios st) d \<and> 0 < bios_sectors (ld_bios st) d" for d
    using doc by (simp add: int13_documented_def medium_ok_def)
  ultimately have "0 < unat (headsPerCylinder g)" "0 < unat (sectorsPerTrack g)" by simp_all
  then show ?thesis unfolding divides_def by (auto simp: r(2))
qed

lemma loader_main_boots:
  assumes start: "loader_starts B lo st s img mm (length (config_script lines path))"
    and config: "boot_file s raw img (SplitPath bootConfigName) (config_script lines path)" "length (config_script lines path) \<le> 4096"
      "script_path path" "\<forall>line \<in> set lines. plain_line line" "lines \<noteq> [] \<longrightarrow> unat (boot_lba st) < 10 ^ 9"
    and kernel: "boot_file s raw img (SplitPath path) contents" "kernel_file (lo + 8192) contents k"
  shows "\<exists>info mbi st'. loader_main B lo st =
      Some (Inr (EnterKernel (MultiBootHeader_EntryPoint (kernel_header contents k)) info mbi), st') \<and>
    kernel_loaded (ld_mem st') contents (kernel_header contents k) \<and> map_handed (ld_mem st') mbi mm (bd_loadName B)"
proof -
  let ?hdr = "kernel_header contents k" and ?part = "loader_part B st" and ?left = "heap_left B s"
  obtain hw temp hw' where hw: "EnableA20 (bd_machine B) (ld_hw st) = (True, hw)"
    "MemoryMap_Load (bd_e820 B) hw (ld_temp st) (ld_mmap st) = (True, mm, temp, hw')"
    and disk: "BIOSBlockDevice_IsInitialized ?part" "bios_reliable ?part" "disk_holds ?part s img"
    and ok: "map_wf mm" "length (bd_nameBuffer B) = 13" "length (bd_hdr B) = 32"
    and room: "round4 (length (config_script lines path) + 1) + 1032 \<le> ?left" "148 + 24 * mm_count mm \<le> ?left"
    using start unfolding loader_starts_def by (auto split: prod.splits)
  have "loader_placed B lo st s" using start room(2) by (simp add: loader_starts_def loader_placed_def)
  then obtain st6 fs used where s6: "loader_main B lo st = loader_rest B st6" "ld_fs st6 = Some fs"
    "fatfs_inv BIOS_ops bios_reliable bios_content fs" "super fs = s" "blk fs = ?part"
    "stacked st6 lo (lo + 8192) used ?left" "ld_mmap st6 = mm" "ld_header st6 = ld_header st"
    using loader_main_prepares [OF _ disk(1,2) hw] by blast
  have heap6: "heap_rep (ld_heap st6) (one_free used ?left)" "heapEnd (ld_heap st6) = lo + 8192" "heap (ld_heap st6) = lo"
    using s6(6) by (simp_all add: stacked_def)
  have disk6: "loader_disk st6 s img (bb_geometry ?part)" using s6(2-5) disk(3) by (simp add: loader_disk_def)
  have "lines \<noteq> [] \<longrightarrow> unat (boot_lba st6) < 10 ^ 9" using config(5) s6(8) by (simp add: boot_lba_def)
  then obtain st7 where s7: "run_config B st6 = Some (Inr None, st7)" "kernel_ready st6 st7 contents ?hdr"
    "heap_rep (ld_heap st7) (one_free used ?left)"
    using run_config_boots [OF config(1-4) loader_part_divides [OF disk(1,2)] _ kernel(1) _ disk6 ok(2,3) heap6(1) room(1)] kernel(2)
    unfolding heap6(2) by blast
  have mm7: "ld_mmap st7 = mm" "ld_haveKernel st7" "ld_kernelEntry st7 = MultiBootHeader_EntryPoint ?hdr"
    "kernel_loaded (ld_mem st7) contents ?hdr" "stacked st7 lo (lo + 8192) used ?left"
    using s7(2,3) heap6 s6(7) by (simp_all add: kernel_ready_def stacked_def)
  obtain info mbi st8 where s8: "ld_MBGenInfo B st7 = Some (Inr (info, mbi), st8)" "map_handed (ld_mem st8) mbi mm (bd_loadName B)"
    "ld_kernelEntry st8 = MultiBootHeader_EntryPoint ?hdr" "same_above (unat (lo + 8192)) (ld_mem st7) (ld_mem st8)"
    using ld_MBGenInfo_works [OF mm7(5)] ok(1) room(2) unfolding mm7(1,3) by blast
  have get: "io_bind (io_get g) f x = f (g x) x" for g f and x :: "'a Loader" by (simp add: io_bind_def io_get_def)
  have "loader_main B lo st = Some (Inr (EnterKernel (MultiBootHeader_EntryPoint ?hdr) info mbi), st8)"
    unfolding s6(1) loader_rest_def using mm7(2) s8(3)
    by (simp only: io_bind_go [of "run_config B", OF s7(1)] io_bind_go [of "ld_MBGenInfo B", OF s8(1)] get if_True option.case prod.case io_return_def)
  moreover have "kernel_loaded (ld_mem st8) contents ?hdr"
    by (rule kernel_loaded_above [OF mm7(4) kernel(2) refl s8(4)])
  ultimately show ?thesis using s8(2) by blast
qed


subsection \<open>Only a checked kernel is entered\<close>

lemma ld_fail_halts: "ld_fail ms st = Some (Inr r, st') \<Longrightarrow> r = Halted"
  by (auto simp: ld_fail_def io_return_def elim!: io_bind_cases)

lemma ld_make_device_result:
  assumes "ld_make_device B st = Some (Inr part, st')"
  shows "part = loader_part B st \<and> ld_hw st' = ld_hw st \<and> ld_temp st' = ld_temp st \<and> ld_mmap st' = ld_mmap st"
proof -
  have new: "\<exists>h. st1 = st\<lparr>ld_heap := h\<rparr>" if "ld_new n st = Some (Inr p, st1)" for n p st1
    using that by (auto simp: ld_new_def operator_new_def ld_malloc_def bind_eq_Some_conv io_simps elim!: io_bind_cases split: if_splits)
  from assms show ?thesis unfolding ld_make_device_def
    by (auto simp: io_simps loader_part_def dest!: new elim!: io_bind_cases)
qed

lemma loader_main_entered:
  assumes "loader_main B lo st = Some (Inr (EnterKernel entry info mbi), st')"
  shows "BIOSBlockDevice_IsInitialized (loader_part B st) \<and>
    (\<exists>hw mm temp hw'. EnableA20 (bd_machine B) (ld_hw st) = (True, hw) \<and>
       MemoryMap_Load (bd_e820 B) hw (ld_temp st) (ld_mmap st) = (True, mm, temp, hw'))"
proof -
  let ?st2 = "st\<lparr>ld_heap := HeapInit (ld_mem st) lo heapMaxSize, ld_screen := ld_screen st @ [BIOSTextMode_Reset]\<rparr>"
  have put: "io_bind (io_put g) f x = f () (g x)" for g f and x :: "'a Loader" by (simp add: io_bind_def io_put_def)
  from assms obtain part st3 where st3: "ld_make_device B ?st2 = Some (Inr part, st3)"
    and rest: "(if \<not> BIOSBlockDevice_IsInitialized part
     then ld_fail [ld_message ''Error initializing FAT partition wrapper!'']
     else
       io_bind (ld_enable_a20 B) (\<lambda>a20.
       if \<not> a20 then ld_fail [ld_message ''Error enabling A20 line!'']
       else
         io_bind (ld_load_mmap B) (\<lambda>loaded.
         if \<not> loaded then ld_fail [ld_message ''Error loading BIOS memory map!'']
         else io_bind (ld_make_fs B part) (\<lambda>_. loader_rest B)))) st3 = Some (Inr (EnterKernel entry info mbi), st')"
    unfolding loader_main_def put loader_rest_def by (auto elim!: io_bind_cases)
  have part: "part = loader_part B st" "ld_hw st3 = ld_hw st" "ld_temp st3 = ld_temp st" "ld_mmap st3 = ld_mmap st"
    using ld_make_device_result [OF st3] by (simp_all add: loader_part_def)
  have init: "BIOSBlockDevice_IsInitialized part" using rest by (auto dest: ld_fail_halts split: if_splits)
  obtain a20 hw where hw: "EnableA20 (bd_machine B) (ld_hw st) = (a20, hw)" by fastforce
  then have "ld_enable_a20 B st3 = Some (Inr a20, st3\<lparr>ld_hw := hw\<rparr>)" using part(2) by (simp add: ld_enable_a20_def)
  with rest init have rest2: "(if \<not> a20 then ld_fail [ld_message ''Error enabling A20 line!'']
       else
         io_bind (ld_load_mmap B) (\<lambda>loaded.
         if \<not> loaded then ld_fail [ld_message ''Error loading BIOS memory map!'']
         else io_bind (ld_make_fs B part) (\<lambda>_. loader_rest B))) (st3\<lparr>ld_hw := hw\<rparr>) = Some (Inr (EnterKernel entry info mbi), st')"
    by (simp add: io_bind_def [of "ld_enable_a20 B"])
  then have a20 by (auto dest: ld_fail_halts split: if_splits)
  obtain loaded mm temp hw' where mm: "MemoryMap_Load (bd_e820 B) hw (ld_temp st) (ld_mmap st) = (loaded, mm, temp, hw')"
    by (metis prod_cases4)
  then have "ld_load_mmap B (st3\<lparr>ld_hw := hw\<rparr>) = Some (Inr loaded, st3\<lparr>ld_mmap := mm, ld_temp := temp, ld_hw := hw'\<rparr>)"
    using part by (simp add: ld_load_mmap_def)
  with rest2 \<open>a20\<close> have "(if \<not> loaded then ld_fail [ld_message ''Error loading BIOS memory map!'']
         else io_bind (ld_make_fs B part) (\<lambda>_. loader_rest B)) (st3\<lparr>ld_mmap := mm, ld_temp := temp, ld_hw := hw'\<rparr>) =
      Some (Inr (EnterKernel entry info mbi), st')"
    by (simp add: io_bind_def [of "ld_load_mmap B"])
  then have loaded by (auto dest: ld_fail_halts split: if_splits)
  then show ?thesis using init part(1) hw mm \<open>a20\<close> by auto
qed


subsection \<open>The example\<close>

text \<open>
  The script \<^verbatim>\<open>test/boot.cfg\<close> has five plain lines in front of its \<^verbatim>\<open>multiboot\<close>. On the host are a kernel of
  1000 bytes with the header in front, and a script with these lines that boots it from the root
  directory of the example volume.
\<close>

definition test_lines :: "bytes list" where
  "test_lines = [text_bytes ''echo ********** Second Stage FAT32 boot loader **********'', text_bytes ''info disk'',
     text_bytes ''info memory'', text_bytes ''echo ****************************************************'', []]"

definition boot_config :: bytes where
  "boot_config = config_script test_lines (text_bytes ''KERNEL'')"

lemma test_lines_plain: "\<forall>line \<in> set test_lines. plain_line line"
  by code_simp

lemma test_script:
  "config_script test_lines (text_bytes ''BOOT/KRNL386.SYS'') =
     text_bytes ''echo ********** Second Stage FAT32 boot loader **********'' @ 10 # text_bytes ''info disk'' @ 10 #
     text_bytes ''info memory'' @ 10 # text_bytes ''echo ****************************************************'' @ 10 # 10 #
     text_bytes ''multiboot BOOT/KRNL386.SYS'' @ [10]"
  "script_path (text_bytes ''BOOT/KRNL386.SYS'')"
  by code_simp+

lemma length_boot_config: "length boot_config = 156"
  by code_simp

definition boot_header :: bytes where
  "boot_header = [0x02, 0xB0, 0xAD, 0x1B, 0, 0, 1, 0, 0xFE, 0x4F, 0x51, 0xE4, 0, 0, 0x10, 0, 0, 0, 0x10, 0,
     0xE8, 3, 0x10, 0, 0xF0, 3, 0x10, 0, 0x20, 0, 0x10, 0]"

definition boot_kernel :: bytes where
  "boot_kernel = boot_header @ replicate 968 7"

definition boot_front :: bytes where
  "boot_front = FatSuper_bytes small_super @
     FatFsInfo_bytes \<lparr>fi_magic1 = FatFsInfoMagic1, fi_reserved0 = replicate 480 0, fi_magic2 = FatFsInfoMagic2, fi_freeClusters = 6,
       fi_nextFreeCluster = 4, fi_reserved1 = replicate 12 0, fi_magic3 = FatFsInfoMagic3\<rparr> @
     replicate 15360 0 @ small_fat @ small_fat"

definition boot_image :: bytes where
  "boot_image = boot_front @ concat (map item_bytes hello_items) @ replicate 416 0 @ replicate 4608 7"

definition boot_sys :: refsys where
  "boot_sys = small_sys\<lparr>ref_names := (\<lambda>p. if p = text_bytes ''disk'' then Some 0 else if p = text_bytes ''in'' then Some 1
       else if p = text_bytes ''kernel'' then Some 2 else None),
     ref_data := (\<lambda>i. if i = 0 then boot_image else if i = 1 then boot_config else if i = 2 then boot_kernel else [])\<rparr>"

definition boot_edit :: "refsys Edit" where
  "boot_edit = \<lparr>ed_sys = boot_sys, ed_file = -1, ed_super = FatSuper_of_bytes (replicate 512 0), ed_fatRaw = [],
     ed_fsinfo = FatFsInfo_of_bytes (replicate 512 0), ed_cout = [], ed_cerr = []\<rparr>"

lemma boot_kernel_header:
  "kernel_header boot_kernel 0 = \<lparr>mb_magic = 0x1BADB002, mb_flags = 0x00010000, mb_checksum = 0xE4514FFE,
     mb_hdrAddr = 0x100000, mb_loadAddr = 0x100000, mb_loadEndAddr = 0x1003E8,
     mb_bssEndAddr = 0x1003F0, mb_entryAddr = 0x100020\<rparr>"
proof -
  have "subbytes 0 32 boot_kernel = boot_header" by (simp add: subbytes_def boot_kernel_def boot_header_def)
  moreover have "MultiBootHeader_of_bytes boot_header = \<lparr>mb_magic = 0x1BADB002, mb_flags = 0x00010000, mb_checksum = 0xE4514FFE,
     mb_hdrAddr = 0x100000, mb_loadAddr = 0x100000, mb_loadEndAddr = 0x1003E8,
     mb_bssEndAddr = 0x1003F0, mb_entryAddr = 0x100020\<rparr>" by code_simp
  ultimately show ?thesis by (simp add: kernel_header_def)
qed

lemma length_boot_kernel: "length boot_kernel = 1000"
  by (simp add: boot_kernel_def boot_header_def)

lemma boot_kernel_file: "kernel_file 0xA000 boot_kernel 0"
proof -
  have "MultiBootHeader_IsValid (kernel_header boot_kernel 0)" unfolding boot_kernel_header by code_simp
  then have "header_first boot_kernel 0"
    unfolding header_first_def kernel_header_def by (simp add: length_boot_kernel)
  moreover have "\<not> FlagField_IsSet (MultiBootHeader_Flags (kernel_header boot_kernel 0)) KernelFlags_WantVidmode"
    "FlagField_IsSet (MultiBootHeader_Flags (kernel_header boot_kernel 0)) KernelFlags_HaveLayoutInfo"
    unfolding boot_kernel_header by code_simp+
  ultimately show ?thesis
    unfolding kernel_file_def Let_def
    by (simp add: boot_kernel_header length_boot_kernel ExtractMemLayout_def BSSSize_def)
qed

lemma length_hello_items: "length (concat (map item_bytes hello_items)) = 96"
  unfolding hello_item_bytes by (simp add: hello_lengths)

lemma small_super_wf: "FatSuper_wf small_super"
  using example_super_wf by (simp add: FatSuper_wf_def small_super_def)

lemma length_small_fat: "length small_fat = 4608"
  by (simp add: small_fat_def)

lemma length_boot_image: "length boot_front = 25600" "length boot_image = 30720"
  by (simp_all add: boot_image_def boot_front_def length_small_fat small_super_wf FatFsInfo_bytes_def length_hello_items boot_header_def)

lemma boot_editable: "editable boot_image small_super small_fat"
proof -
  have "subbytes 0 512 boot_image = FatSuper_bytes small_super"
    by (simp add: boot_image_def boot_front_def subbytes_def small_super_wf)
  then have "FatSuper_of_bytes (subbytes 0 512 boot_image) = small_super" by (simp add: FatSuper_of_bytes_bytes small_super_wf)
  moreover have "fat_stored small_super small_fat boot_image"
    by (simp add: fat_stored_def small_super_geometry boot_image_def boot_front_def subbytes_def small_super_wf length_small_fat FatFsInfo_bytes_def)
  moreover have "FatSuper_FsInfoIndex small_super = 1" "FatSuper_BackupIndex small_super = 6" by code_simp+
  moreover have "FatFsInfo_IsValid (FatFsInfo_of_bytes (subbytes 512 512 boot_image))"
    by (simp add: boot_image_def boot_front_def small_super_wf FatFsInfo_bytes_def FatFsInfo_of_bytes_def FatFsInfo_IsValid_def subbytes_def)
  ultimately show ?thesis
    using small_volume [of boot_image] small_fat_clean length_boot_image
    by (simp add: editable_def small_super_geometry cluster_pos_def)
qed

lemma boot_dir: "dir_chain small_super small_fat boot_image [2] [hello_file] 96"
proof -
  have "chain_data small_super boot_image [2] = concat (map item_bytes hello_items) @ replicate 416 0"
    by (simp add: boot_image_def chain_data_def cluster_data_def subbytes_def cluster_size_def cluster_pos_def small_super_geometry
        length_boot_image length_hello_items)
  moreover have "dir_end (replicate 416 0)" by (simp add: dir_end_def)
  ultimately show ?thesis
    unfolding dir_chain_def using root_chain hello_items_ok hello_entries length_hello_items
    by (intro exI [of _ hello_items] exI [of _ "replicate 416 0"]) simp
qed

lemma boot_root: "root_entry small_super = \<lparr>en_shortName = [], en_longName = [], en_size = 0, en_firstCluster = 2, en_isDirectory = True\<rparr>"
  by code_simp

lemma boot_paths:
  "SplitPath (text_bytes ''KERNEL'') = [text_bytes ''KERNEL'']" "SplitPath (text_bytes ''/BOOT.CFG'') = [text_bytes ''BOOT.CFG'']"
  "SplitPath bootConfigName = [text_bytes ''BOOT.CFG'']"
  by code_simp+

lemma boot_root_dir: "root_dir small_super small_fat boot_image [2] [hello_file] 96"
  using boot_dir by (simp add: root_dir_def boot_root dir_index_def)

lemma boot_names: "new_name [hello_file] (text_bytes ''KERNEL'')" "new_name [hello_file] (text_bytes ''BOOT.CFG'')"
proof -
  have "text_bytes ''KERNEL'' = short_name (text_bytes ''KERNEL'') None" "grammar_8_3 (text_bytes ''KERNEL'') None"
    "no_blank_end (text_bytes ''KERNEL'')" "text_bytes ''KERNEL'' ! 0 \<noteq> 32" "length (text_bytes ''KERNEL'') < 12"
    by code_simp+
  then have "storable (text_bytes ''KERNEL'')" unfolding storable_def by blast
  moreover have "storable (text_bytes ''BOOT.CFG'')"
    using pack_place_example by (simp add: pack_place_def boot_paths)
  moreover have "text_bytes ''HELLO.TXT'' \<noteq> text_bytes ''KERNEL''" "text_bytes ''hello.txt'' \<noteq> text_bytes ''KERNEL''"
    "text_bytes ''HELLO.TXT'' \<noteq> text_bytes ''BOOT.CFG''" "text_bytes ''hello.txt'' \<noteq> text_bytes ''BOOT.CFG''"
    by code_simp+
  ultimately show "new_name [hello_file] (text_bytes ''KERNEL'')" "new_name [hello_file] (text_bytes ''BOOT.CFG'')"
    by (simp_all add: new_name_def hello_file_def)
qed

definition boot_lines :: "bytes list" where
  "boot_lines = [text_bytes ''pack kernel KERNEL'' @ [10], text_bytes ''pack in /BOOT.CFG'' @ [10]]"

definition boot_files :: "(bytes \<times> nat) list" where
  "boot_files = [(text_bytes ''KERNEL'', 2), (text_bytes ''BOOT.CFG'', 1)]"

lemma boot_line_packs:
  "line_packs (text_bytes ''pack kernel KERNEL'' @ [10]) (text_bytes ''kernel'') (text_bytes ''KERNEL'')"
  "line_packs (text_bytes ''pack in /BOOT.CFG'' @ [10]) (text_bytes ''in'') (text_bytes ''BOOT.CFG'')"
proof -
  have "trim (text_bytes ''pack kernel KERNEL'' @ [10]) = text_bytes ''pack '' @ text_bytes ''kernel'' @ 32 # text_bytes ''KERNEL''"
    "text_bytes ''kernel'' \<noteq> []" "\<forall>c \<in> set (text_bytes ''kernel''). \<not> isspace c" "text_bytes ''KERNEL'' \<noteq> []"
    "\<not> isspace (hd (text_bytes ''KERNEL''))"
    "trim (text_bytes ''pack in /BOOT.CFG'' @ [10]) = text_bytes ''pack '' @ text_bytes ''in'' @ 32 # text_bytes ''/BOOT.CFG''"
    "text_bytes ''in'' \<noteq> []" by code_simp+
  then show "line_packs (text_bytes ''pack kernel KERNEL'' @ [10]) (text_bytes ''kernel'') (text_bytes ''KERNEL'')"
    "line_packs (text_bytes ''pack in /BOOT.CFG'' @ [10]) (text_bytes ''in'') (text_bytes ''BOOT.CFG'')"
    unfolding line_packs_def using boot_paths pack_line(2-4) by blast+
qed

lemma boot_sys_simps:
  "ref_names (ed_sys boot_edit) (text_bytes ''disk'') = Some 0" "ref_names (ed_sys boot_edit) (cstr (text_bytes ''in'')) = Some 1"
  "ref_names (ed_sys boot_edit) (cstr (text_bytes ''kernel'')) = Some 2"
  "ref_data (ed_sys boot_edit) 0 = boot_image" "ref_data (ed_sys boot_edit) 1 = boot_config"
  "ref_data (ed_sys boot_edit) 2 = boot_kernel"
proof -
  have "text_bytes ''in'' \<noteq> text_bytes ''disk''" "text_bytes ''kernel'' \<noteq> text_bytes ''disk''" "text_bytes ''kernel'' \<noteq> text_bytes ''in''"
    "cstr (text_bytes ''in'') = text_bytes ''in''" "cstr (text_bytes ''kernel'') = text_bytes ''kernel''" by code_simp+
  then show "ref_names (ed_sys boot_edit) (text_bytes ''disk'') = Some 0" "ref_names (ed_sys boot_edit) (cstr (text_bytes ''in'')) = Some 1"
    "ref_names (ed_sys boot_edit) (cstr (text_bytes ''kernel'')) = Some 2"
    "ref_data (ed_sys boot_edit) 0 = boot_image" "ref_data (ed_sys boot_edit) 1 = boot_config"
    "ref_data (ed_sys boot_edit) 2 = boot_kernel"
    by (simp_all add: boot_edit_def boot_sys_def)
qed

lemma boot_packs: "list_all2 (packs (ref_names (ed_sys boot_edit)) 0) boot_lines boot_files"
  using boot_line_packs boot_sys_simps(2,3) by (fastforce simp: boot_lines_def boot_files_def packs_def)

text \<open>
  A board without a keyboard controller, firmware that reports two areas of memory, the image on the
  first drive from its sector 0, and the boot sector in memory.
\<close>

definition boot_e820 :: "board e820" where
  "boot_e820 w ebx temp = (if ebx = 0 then (0, 1, replicate 16 0 @ [1, 0, 0, 0], w)
     else (0, 0, replicate 16 1 @ [2, 0, 0, 0], w))"

definition boot_board :: "board Board" where
  "boot_board = \<lparr>bd_machine = board_machine, bd_e820 = boot_e820, bd_wide = (\<lambda>_ _. 0), bd_sizeDevice = 64, bd_sizeFs = 600,
     bd_loadName = 0x5000, bd_nameBuffer = replicate 13 0, bd_geometry = \<lparr>cylinders = 0, headsPerCylinder = 0, sectorsPerTrack = 0\<rparr>,
     bd_partStart = 0, bd_hdr = replicate 32 0, bd_syms = [0, 0, 0, 0], bd_colors = replicate 6 0\<rparr>"

definition boot_machine :: "bytes \<Rightarrow> board Loader" where
  "boot_machine img = \<lparr>ld_heap = \<lparr>hmem = mem_write (\<lambda>_. 0) 0x7C00 (FatSuper_bytes small_super), heap = 0, heapEnd = 0\<rparr>,
     ld_hw = \<lparr>board_ctrl = 0, board_ram = \<lambda>_. 7\<rparr>, ld_bios = reference_bios (on_drive 0x80 (linear_medium (image_sector img))),
     ld_header = replicate 10 0 @ 0x80 # replicate 501 0, ld_screen = [], ld_temp = replicate 20 0,
     ld_mmap = \<lparr>mm_ent = replicate 32 (MemoryMapEntry_of_bytes (replicate 20 0)), mm_count = 0\<rparr>,
     ld_fs = None, ld_haveKernel = False, ld_kernelEntry = 0\<rparr>"

definition boot_mmap :: MemoryMap where
  "boot_mmap = \<lparr>mm_ent = (replicate 32 (MemoryMapEntry_of_bytes (replicate 20 0)))
     [0 := MemoryMapEntry_of_bytes (replicate 16 0 @ [1, 0, 0, 0]), 1 := MemoryMapEntry_of_bytes (replicate 16 1 @ [2, 0, 0, 0])],
     mm_count = 2\<rparr>"

lemma boot_a20: "fst (EnableA20 board_machine h)"
proof -
  obtain r h' where e: "EnableA20_loop board_machine 256 h = (r, h')" by fastforce
  have "\<forall>h v. bit v 1 \<longrightarrow> board_gate (out_op board_machine h 0x92 v)"
    by (simp add: board_machine_def board_gate_def)
  then have r using EnableA20_loop_gate [OF board_documented e, THEN conjunct2] by simp
  then show ?thesis by (simp add: EnableA20_def e)
qed

lemma boot_mmap_loaded:
  "\<exists>temp. MemoryMap_Load boot_e820 w t (ld_mmap (boot_machine img)) = (True, boot_mmap, temp, w)"
  by (simp add: MemoryMap_Load_def MemoryMap_Load_loop.simps [of boot_e820] MemoryMapEntry_Load_def boot_e820_def
      boot_machine_def boot_mmap_def)

lemma boot_machine_lba: "boot_lba (boot_machine img) = 0"
proof -
  have "subbytes 12 16 (ld_header (boot_machine img)) = replicate 16 0" by (simp add: boot_machine_def subbytes_def)
  moreover have "UnalignedInt_Read32 (subbytes 8 4 (replicate 16 0)) = 0" by code_simp
  ultimately show ?thesis
    by (simp add: boot_lba_def Stage2Header_BootMBREntry_def MBREntry_StartAddressLBA_def MBREntry_of_bytes_def)
qed

lemma boot_part: "loader_part boot_board (boot_machine img) = linear_disk (image_sector img)"
proof -
  let ?h = "ld_header (boot_machine img)"
  have "MBREntry_StartAddressLBA (Stage2Header_BootMBREntry ?h) = 0"
    using boot_machine_lba by (simp add: boot_lba_def)
  moreover have "Stage2Header_BiosBootDrive ?h = 0x80"
    by (simp add: Stage2Header_BiosBootDrive_def boot_machine_def nth_append)
  ultimately show ?thesis
    unfolding loader_part_def linear_disk_def by (simp add: boot_board_def boot_machine_def)
qed

lemma boot_machine_starts:
  assumes "30720 \<le> length img" "n < 1000"
  shows "loader_starts boot_board 0x8000 (boot_machine img) small_super img boot_mmap n"
proof -
  have sector: "length (image_sector img k) = 512" for k by (simp add: image_sector_def)
  have disk: "BIOSBlockDevice_IsInitialized (linear_disk (image_sector img))" "bios_reliable (linear_disk (image_sector img))"
    "disk_holds (linear_disk (image_sector img)) small_super img"
    using reference_bios_reads(1) [OF linear_disk_def] linear_disk_reliable(1) [OF sector] image_disk(1) [OF assms(1)] by simp_all
  note wf = small_super_wf
  then have "mem_read (ld_mem (boot_machine img)) 0x7C00 (length (FatSuper_bytes small_super)) = FatSuper_bytes small_super"
    by (simp add: boot_machine_def ld_mem_def)
  then have super: "FatSuper_of_bytes (mem_read (ld_mem (boot_machine img)) 0x7C00 512) = small_super"
    using wf by (simp add: FatSuper_of_bytes_bytes)
  have e: "entry_wf (MemoryMapEntry_of_bytes b)" if "length b = 20" for b
    using that by (simp add: entry_wf_def MemoryMapEntry_of_bytes_def)
  have "\<forall>e \<in> set (mm_ent boot_mmap). entry_wf e"
    unfolding boot_mmap_def by (auto dest!: set_update_subset_insert [THEN subsetD] simp: e)
  then have map: "map_wf boot_mmap" by (simp add: map_wf_def) (simp add: boot_mmap_def)
  obtain hw where hw: "EnableA20 board_machine (ld_hw (boot_machine img)) = (True, hw)"
    using boot_a20 [of "ld_hw (boot_machine img)"] by (metis eq_fst_iff)
  obtain temp where load: "MemoryMap_Load boot_e820 hw (ld_temp (boot_machine img)) (ld_mmap (boot_machine img)) = (True, boot_mmap, temp, hw)"
    using boot_mmap_loaded by blast
  have "round4 (n + 1) \<le> n + 4" using round4_bounds(2) [of "n + 1"] by simp
  moreover have "heap_left boot_board small_super = 6464"
    by (simp add: heap_left_def boot_board_def small_super_geometry round4_def)
  moreover have "mm_count boot_mmap = 2" by (simp add: boot_mmap_def)
  ultimately show ?thesis
    unfolding loader_starts_def boot_part using disk super map assms(2) hw load by (simp add: boot_board_def)
qed


text \<open>A volume with both files: the script in cluster 4, the kernel in the clusters 3 and 5.\<close>

definition ready_fat :: bytes where
  "ready_fat = [0xF8, 0xFF, 0xFF, 0x0F, 0xFF, 0xFF, 0xFF, 0x0F, 0xF8, 0xFF, 0xFF, 0x0F, 5, 0, 0, 0,
     0xF8, 0xFF, 0xFF, 0x0F, 0xF8, 0xFF, 0xFF, 0x0F] @ replicate 4584 0"

definition ready_items :: "dir_item list" where
  "ready_items = map (\<lambda>e. Item [] (FatDirent_of_bytes e))
     [text_bytes ''KERNEL     '' @ [0x20, 0, 0, 0, 0, 0, 0, 0, 0, 0, 0, 0, 0, 0, 0, 3, 0, 232, 3, 0, 0],
      text_bytes ''BOOT    CFG'' @ [0x20, 0, 0, 0, 0, 0, 0, 0, 0, 0, 0, 0, 0, 0, 0, 4, 0, 156, 0, 0, 0]]"

definition ready_kernel :: DirEntry where
  "ready_kernel = \<lparr>en_shortName = text_bytes ''KERNEL'', en_longName = text_bytes ''KERNEL'',
     en_size = 1000, en_firstCluster = 3, en_isDirectory = False\<rparr>"

definition ready_config :: DirEntry where
  "ready_config = \<lparr>en_shortName = text_bytes ''BOOT.CFG'', en_longName = text_bytes ''BOOT.CFG'',
     en_size = 156, en_firstCluster = 4, en_isDirectory = False\<rparr>"

definition ready_image :: bytes where
  "ready_image = FatSuper_bytes small_super @ replicate 15872 0 @ ready_fat @ ready_fat @
     concat (map item_bytes ready_items) @ replicate 448 0 @ take 512 boot_kernel @ boot_config @ replicate 356 0 @
     drop 512 boot_kernel @ replicate 3096 0"

lemma ready_items_facts:
  "\<forall>i \<in> set ready_items. item_ok i" "item_entries ready_items = [ready_kernel, ready_config]"
  "length (concat (map item_bytes ready_items)) = 64"
  by code_simp+

lemma ready_fat_entries:
  "raw_entry ready_fat 0 = 0x0FFFFFF8" "raw_entry ready_fat 1 = 0x0FFFFFFF" "raw_entry ready_fat 2 = 0x0FFFFFF8"
  "raw_entry ready_fat 3 = 5" "raw_entry ready_fat 4 = 0x0FFFFFF8" "raw_entry ready_fat 5 = 0x0FFFFFF8"
  by (simp_all add: raw_entry_def ready_fat_def) code_simp+

lemma length_ready_fat: "length ready_fat = 4608"
  by (simp add: ready_fat_def)

lemma ready_fat_clean: "fat_clean ready_fat"
  unfolding fat_clean_def
proof (intro allI impI)
  fix n assume n: "4 * n + 4 \<le> length ready_fat"
  show "raw_word ready_fat n < 0x10000000"
  proof (cases "n < 6")
    case True
    then have "n = 0 \<or> n = 1 \<or> n = 2 \<or> n = 3 \<or> n = 4 \<or> n = 5" by linarith
    then show ?thesis by (elim disjE) (simp_all add: raw_word_def ready_fat_def le32_def)
  next
    case False
    then have "ready_fat ! (4 * n + k) = 0" if "k < 4" for k
      using n that by (simp add: ready_fat_def nth_append)
    from this [of 0] this [of 1] this [of 2] this [of 3] show ?thesis by (simp add: raw_word_def le32_def)
  qed
qed

lemma ready_chains:
  "is_chain small_super ready_fat [2]" "is_chain small_super ready_fat [3, 5]" "is_chain small_super ready_fat [4]"
  by (simp_all add: is_chain_def data_cluster_def small_cluster_total ready_fat_entries less_Suc_eq)

lemma length_ready_image: "length ready_image = 30720"
  by (simp add: ready_image_def length_ready_fat small_super_wf ready_items_facts length_boot_kernel length_boot_config)

lemma ready_data:
  "chain_data small_super ready_image [2] = concat (map item_bytes ready_items) @ replicate 448 0"
  "chain_data small_super ready_image [3, 5] = boot_kernel @ replicate 24 0"
  "chain_data small_super ready_image [4] = boot_config @ replicate 356 0"
  by (simp_all add: ready_image_def chain_data_def cluster_data_def subbytes_def cluster_size_def cluster_pos_def small_super_geometry
      length_ready_fat small_super_wf ready_items_facts(3) length_boot_kernel length_boot_config)

lemma ready_root: "dir_chain small_super ready_fat ready_image [2] [ready_kernel, ready_config] 64"
  unfolding dir_chain_def using ready_chains(1) ready_data(1) ready_items_facts
  by (intro exI [of _ ready_items] exI [of _ "replicate 448 0"]) (simp add: dir_end_def)

lemma ready_file:
  assumes "find_short name [ready_kernel, ready_config] = Some it" "IsShortName name"
    and "file_data small_super ready_fat ready_image it cs contents"
  shows "boot_file small_super ready_fat ready_image [name] contents"
proof -
  have "name_walk small_super ready_fat ready_image (\<lambda>_. True) (root_entry small_super) [name] it"
    using name_walk.enter [OF _ ready_root _ _ assms(2,1) name_walk.arrived] by (simp add: boot_root)
  moreover have "geometry small_super ready_fat"
    by (simp add: geometry_def small_super_geometry small_cluster_total length_ready_fat)
  then have "volume small_super ready_fat ready_image"
    by (simp add: volume_def small_super_geometry length_ready_image ready_fat_entries del: One_nat_def)
  moreover have "fat_stored small_super ready_fat ready_image"
    by (simp add: fat_stored_def small_super_geometry ready_image_def subbytes_def small_super_wf length_ready_fat)
  ultimately show ?thesis using assms(3) ready_fat_clean by (auto simp: boot_file_def stored_file_def)
qed

lemma ready_files:
  "boot_file small_super ready_fat ready_image (SplitPath bootConfigName) boot_config"
  "boot_file small_super ready_fat ready_image (SplitPath (text_bytes ''KERNEL'')) boot_kernel"
proof -
  have n: "find_short (text_bytes ''BOOT.CFG'') [ready_kernel, ready_config] = Some ready_config" "IsShortName (text_bytes ''BOOT.CFG'')"
    "find_short (text_bytes ''KERNEL'') [ready_kernel, ready_config] = Some ready_kernel" "IsShortName (text_bytes ''KERNEL'')"
    by code_simp+
  have "file_data small_super ready_fat ready_image ready_config [4] boot_config"
    "file_data small_super ready_fat ready_image ready_kernel [3, 5] boot_kernel"
    using ready_chains(2,3) ready_data(2,3)
    by (simp_all add: file_data_def ready_config_def ready_kernel_def length_boot_config length_boot_kernel)
  then show "boot_file small_super ready_fat ready_image (SplitPath bootConfigName) boot_config"
    "boot_file small_super ready_fat ready_image (SplitPath (text_bytes ''KERNEL'')) boot_kernel"
    unfolding boot_paths using n by (auto intro: ready_file)
qed


end
