(* ===== verification/Cxxabi.thy ===== *)
theory Cxxabi
  imports Prelude
begin

text \<open>
  The table of destructors that the C++ runtime of the loader keeps (\<^verbatim>\<open>lib/cxxabi/cxxabi.cpp\<close>).
  Functions are their addresses, 0 is the null pointer. Running a destructor is an event: its
  address with the object it is called for; the destructors do not call back into the table.
\<close>

subsection \<open>The table\<close>

definition ATEXIT_MAX_FUNCS :: nat where "ATEXIT_MAX_FUNCS = 32"

record atexit_func_entry_t =
  destructor :: u32
  obj :: u32

record atexit_state =
  atexitFuncs :: "atexit_func_entry_t list"
  atexitCount :: nat

definition atexit_start :: atexit_state where
  "atexit_start = \<lparr>atexitFuncs = replicate ATEXIT_MAX_FUNCS \<lparr>destructor = 0, obj = 0\<rparr>, atexitCount = 0\<rparr>"

definition cxa_atexit :: "atexit_state \<Rightarrow> u32 \<Rightarrow> u32 \<Rightarrow> u32 \<Rightarrow> int \<times> atexit_state" where
  "cxa_atexit s f objptr dso =
     (if atexitCount s \<ge> ATEXIT_MAX_FUNCS then (-1, s)
      else (0, s\<lparr>atexitFuncs := (atexitFuncs s)[atexitCount s := \<lparr>destructor = f, obj = objptr\<rparr>],
                 atexitCount := atexitCount s + 1\<rparr>))"

text \<open>The two loops of \<^verbatim>\<open>__cxa_finalize\<close> count down; the events come in the order of the calls.\<close>

fun finalize_all :: "atexit_func_entry_t list \<Rightarrow> nat \<Rightarrow> (u32 \<times> u32) list" where
  "finalize_all tab 0 = []"
| "finalize_all tab (Suc i) =
     (if destructor (tab ! i) \<noteq> 0 then [(destructor (tab ! i), obj (tab ! i))] else []) @ finalize_all tab i"

fun finalize_one :: "u32 \<Rightarrow> atexit_func_entry_t list \<Rightarrow> nat \<Rightarrow>
    (u32 \<times> u32) list \<times> atexit_func_entry_t list" where
  "finalize_one f tab 0 = ([], tab)"
| "finalize_one f tab (Suc i) =
     (if destructor (tab ! i) = f then
        (case finalize_one f (tab[i := (tab ! i)\<lparr>destructor := 0\<rparr>]) i of
           (calls, tab') \<Rightarrow> ((destructor (tab ! i), obj (tab ! i)) # calls, tab'))
      else finalize_one f tab i)"

definition cxa_finalize :: "atexit_state \<Rightarrow> u32 \<Rightarrow> (u32 \<times> u32) list \<times> atexit_state" where
  "cxa_finalize s f =
     (if f = 0 then (finalize_all (atexitFuncs s) (atexitCount s), s)
      else case finalize_one f (atexitFuncs s) (atexitCount s) of
             (calls, tab) \<Rightarrow> (calls, s\<lparr>atexitFuncs := tab\<rparr>))"

subsection \<open>What was registered\<close>

definition atexit_wf :: "atexit_state \<Rightarrow> bool" where
  "atexit_wf s \<longleftrightarrow> length (atexitFuncs s) = ATEXIT_MAX_FUNCS \<and> atexitCount s \<le> ATEXIT_MAX_FUNCS"

text \<open>The registrations that are still due, oldest first.\<close>

definition due :: "atexit_state \<Rightarrow> (u32 \<times> u32) list" where
  "due s = filter (\<lambda>(f, _). f \<noteq> 0) (map (\<lambda>e. (destructor e, obj e)) (take (atexitCount s) (atexitFuncs s)))"

lemma atexit_wf_start [simp]: "atexit_wf atexit_start" "due atexit_start = []"
  by (simp_all add: atexit_wf_def atexit_start_def due_def)

lemma cxa_atexit_keeps:
  assumes "atexit_wf s"
  shows "atexit_wf (snd (cxa_atexit s f p d))"
  using assms by (simp add: atexit_wf_def cxa_atexit_def)

lemma cxa_atexit_due:
  assumes "atexit_wf s" "f \<noteq> 0"
  shows "due (snd (cxa_atexit s f p d)) = due s @ (if atexitCount s < ATEXIT_MAX_FUNCS then [(f, p)] else [])"
  using assms by (simp add: atexit_wf_def cxa_atexit_def due_def take_Suc_conv_app_nth)

lemma finalize_all_rev:
  "i \<le> length tab \<Longrightarrow> finalize_all tab i =
     rev (filter (\<lambda>(f, _). f \<noteq> 0) (map (\<lambda>e. (destructor e, obj e)) (take i tab)))"
  by (induction i) (simp_all add: take_Suc_conv_app_nth)

lemma cxa_finalize_all: "atexit_wf s \<Longrightarrow> cxa_finalize s 0 = (rev (due s), s)"
  by (simp add: cxa_finalize_def due_def finalize_all_rev atexit_wf_def)

text \<open>The loop for one function takes its entries out of the table.\<close>

lemma finalize_one_eq:
  assumes "f \<noteq> 0" "i \<le> length tab" "finalize_one f tab i = (calls, tab')"
  shows "length tab' = length tab \<and> drop i tab' = drop i tab \<and>
    calls = rev (filter (\<lambda>(g, _). g = f) (map (\<lambda>e. (destructor e, obj e)) (take i tab))) \<and>
    take i tab' = map (\<lambda>e. if destructor e = f then e\<lparr>destructor := 0\<rparr> else e) (take i tab)"
  using assms(2,3)
proof (induction i arbitrary: tab calls tab')
  case (Suc i)
  let ?e = "tab ! i"
  define t where "t = (if destructor ?e = f then tab[i := ?e\<lparr>destructor := 0\<rparr>] else tab)"
  obtain calls1 where r: "finalize_one f t i = (calls1, tab')"
    and calls: "calls = (if destructor ?e = f then (destructor ?e, obj ?e) # calls1 else calls1)"
    using Suc.prems(2) by (auto simp: t_def split: if_splits prod.splits)
  have len: "length t = length tab" by (simp add: t_def)
  have tk: "take i t = take i tab" "drop (Suc i) t = drop (Suc i) tab" by (simp_all add: t_def)
  have ti: "t ! i = (if destructor ?e = f then ?e\<lparr>destructor := 0\<rparr> else ?e)" using Suc.prems(1) by (simp add: t_def)
  note ih = Suc.IH [OF _ r, unfolded len tk(1)]
  have ih: "length tab' = length tab" "drop i tab' = drop i t"
    "calls1 = rev (filter (\<lambda>(g, _). g = f) (map (\<lambda>e. (destructor e, obj e)) (take i tab)))"
    "take i tab' = map (\<lambda>e. if destructor e = f then e\<lparr>destructor := 0\<rparr> else e) (take i tab)"
    using ih Suc.prems(1) by simp_all
  have "drop i tab' ! 0 = drop i t ! 0" using ih(2) by simp
  then have n: "tab' ! i = t ! i" using Suc.prems(1) ih(1) len by simp
  have "drop (Suc i) tab' = drop (Suc i) t"
    using arg_cong [OF ih(2), of tl] by (simp add: drop_Suc tl_drop)
  then show ?case
    using ih n ti tk(2) calls Suc.prems(1) by (simp add: take_Suc_conv_app_nth)
qed simp

lemma cxa_finalize_one:
  assumes "atexit_wf s" "f \<noteq> 0"
  shows "fst (cxa_finalize s f) = rev (filter (\<lambda>(g, _). g = f) (due s))"
    and "due (snd (cxa_finalize s f)) = filter (\<lambda>(g, _). g \<noteq> f) (due s)"
    and "atexit_wf (snd (cxa_finalize s f))"
proof -
  let ?n = "atexitCount s" and ?t = "atexitFuncs s" and ?pair = "\<lambda>e. (destructor e, obj e)"
  have n: "?n \<le> length ?t" using assms(1) by (simp add: atexit_wf_def)
  obtain calls tab where r: "finalize_one f ?t ?n = (calls, tab)" by fastforce
  note one = finalize_one_eq [OF assms(2) n r]
  have c: "cxa_finalize s f = (calls, s\<lparr>atexitFuncs := tab\<rparr>)" using assms(2) r by (simp add: cxa_finalize_def)
  have "filter (\<lambda>(g, _). g = f) (due s) = filter (\<lambda>(g, _). g = f) (map ?pair (take ?n ?t))"
    unfolding due_def filter_filter by (rule filter_cong) (use assms(2) in auto)
  then show "fst (cxa_finalize s f) = rev (filter (\<lambda>(g, _). g = f) (due s))" using c one by simp
  have "filter (\<lambda>(g, _). g \<noteq> 0) (map ?pair (map (\<lambda>e. if destructor e = f then e\<lparr>destructor := 0\<rparr> else e) xs)) =
      filter (\<lambda>(g, _). g \<noteq> f) (filter (\<lambda>(g, _). g \<noteq> 0) (map ?pair xs))" for xs
    using assms(2) by (induction xs) auto
  then show "due (snd (cxa_finalize s f)) = filter (\<lambda>(g, _). g \<noteq> f) (due s)"
    using c one by (simp add: due_def)
  show "atexit_wf (snd (cxa_finalize s f))" using assms(1) c one by (simp add: atexit_wf_def)
qed

subsection \<open>Registration and clean-up\<close>

text \<open>Registering a list of destructors one after the other.\<close>

definition register_all :: "(u32 \<times> u32) list \<Rightarrow> atexit_state \<Rightarrow> atexit_state" where
  "register_all ds s = fold (\<lambda>(f, p) s. snd (cxa_atexit s f p 0)) ds s"

lemma register_all_due:
  assumes "atexit_wf s" "\<forall>(f, p) \<in> set ds. f \<noteq> 0" "atexitCount s + length ds \<le> ATEXIT_MAX_FUNCS"
  shows "atexit_wf (register_all ds s)" "due (register_all ds s) = due s @ ds"
proof -
  have "atexit_wf (register_all ds s) \<and> due (register_all ds s) = due s @ ds"
    using assms
  proof (induction ds arbitrary: s)
    case (Cons d ds)
    obtain f p where d: "d = (f, p)" by fastforce
    let ?s = "snd (cxa_atexit s f p 0)"
    have f: "f \<noteq> 0" "atexitCount s < ATEXIT_MAX_FUNCS" using Cons.prems d by auto
    then have "atexitCount ?s = Suc (atexitCount s)" by (simp add: cxa_atexit_def)
    moreover have "due ?s = due s @ [(f, p)]" using cxa_atexit_due [OF Cons.prems(1) f(1)] f(2) by simp
    ultimately show ?case
      using Cons.IH [OF cxa_atexit_keeps [OF Cons.prems(1), of f p 0]] Cons.prems(2,3) d
      by (simp add: register_all_def)
  qed (simp add: register_all_def)
  then show "atexit_wf (register_all ds s)" "due (register_all ds s) = due s @ ds" by simp_all
qed

text \<open>
  C25. Up to 32 destructors can be registered, and \<^verbatim>\<open>__cxa_finalize\<close> then runs them in the reverse
  order of their registration: first, on request, those of one function, which leave the table,
  then each of the others exactly once. A further registration is refused and changes nothing.
\<close>

theorem finalize_reverses:
  assumes "\<forall>(f, p) \<in> set ds. f \<noteq> 0" "length ds \<le> ATEXIT_MAX_FUNCS" "g \<noteq> 0"
    and "s = register_all ds atexit_start"
  shows "cxa_finalize s 0 = (rev ds, s) \<and>
    fst (cxa_finalize s g) = rev (filter (\<lambda>(f, _). f = g) ds) \<and>
    fst (cxa_finalize (snd (cxa_finalize s g)) 0) = rev (filter (\<lambda>(f, _). f \<noteq> g) ds) \<and>
    (length ds = ATEXIT_MAX_FUNCS \<longrightarrow> cxa_atexit s f p dso = (-1, s))"
proof -
  have "atexitCount atexit_start = 0" by (simp add: atexit_start_def)
  note r = register_all_due [OF atexit_wf_start(1) assms(1), folded assms(4)]
  have wf: "atexit_wf s" and due: "due s = ds" using r assms(2) \<open>atexitCount atexit_start = 0\<close> by simp_all
  note one = cxa_finalize_one [OF wf assms(3)]
  have "length (due s) \<le> length (map (\<lambda>e. (destructor e, obj e)) (take (atexitCount s) (atexitFuncs s)))"
    unfolding due_def by (rule length_filter_le)
  then have "length ds \<le> atexitCount s" unfolding due by simp
  then have "length ds = ATEXIT_MAX_FUNCS \<longrightarrow> cxa_atexit s f p dso = (-1, s)" by (simp add: cxa_atexit_def)
  then show ?thesis using cxa_finalize_all [OF wf] cxa_finalize_all [OF one(3)] one(1,2) due by simp
qed

theorem finalize_reverses_witness:
  "cxa_finalize (register_all [(0x100, 1), (0x200, 2), (0x100, 3)] atexit_start) 0 =
     ([(0x100, 3), (0x200, 2), (0x100, 1)], register_all [(0x100, 1), (0x200, 2), (0x100, 3)] atexit_start) \<and>
   fst (cxa_finalize (register_all [(0x100, 1), (0x200, 2), (0x100, 3)] atexit_start) 0x100) = [(0x100, 3), (0x100, 1)]"
  using finalize_reverses [of "[(0x100, 1), (0x200, 2), (0x100, 3)]" "0x100"] by (simp add: ATEXIT_MAX_FUNCS_def)

end
