(* ===== verification/Unique_Ptr.thy ===== *)
theory Unique_Ptr
  imports Prelude "HOL-Library.Multiset"
begin

text \<open>
  The owning pointer of the loader (\<^verbatim>\<open>include/types/UniquePtr.h\<close>). A \<^verbatim>\<open>UniquePtr\<close> is the raw
  pointer it holds. The objects that exist are a list of addresses; \<^verbatim>\<open>delete\<close> takes one out of it,
  and deleting what is not there is \<^verbatim>\<open>None\<close>. A program is a sequence of operations on numbered
  variables; what it shows is that every object has one owner and is deleted once.
\<close>

subsection \<open>The class\<close>

text \<open>Each function returns what the members hold afterwards, \<^verbatim>\<open>this\<close> before its argument.\<close>

definition UniquePtr_empty :: u32 where
  "UniquePtr_empty = 0"

definition UniquePtr_null :: "u32 \<Rightarrow> u32" where
  "UniquePtr_null null = null"

definition UniquePtr_ptr :: "u32 \<Rightarrow> u32" where
  "UniquePtr_ptr ptr = ptr"

definition UniquePtr_move :: "u32 \<Rightarrow> u32 \<times> u32" where
  "UniquePtr_move o_raw = (o_raw, 0)"

definition UniquePtr_Release :: "u32 \<Rightarrow> u32 \<times> u32" where
  "UniquePtr_Release this_raw = (let temp = this_raw in (temp, 0))"

definition UniquePtr_convert :: "u32 \<Rightarrow> u32 \<times> u32" where
  "UniquePtr_convert o_raw = (let (temp, o') = UniquePtr_Release o_raw in (temp, o'))"

definition UniquePtr_assign :: "u32 \<Rightarrow> u32 \<Rightarrow> u32 \<times> u32" where
  "UniquePtr_assign this_raw o_raw = (let temp = this_raw in (o_raw, temp))"

definition delete :: "u32 \<Rightarrow> u32 list \<Rightarrow> u32 list option" where
  "delete p objs = (if p = 0 then Some objs else if p \<in> set objs then Some (remove1 p objs) else None)"

definition UniquePtr_destroy :: "u32 \<Rightarrow> u32 list \<Rightarrow> u32 list option" where
  "UniquePtr_destroy this_raw objs = delete this_raw objs"

definition UniquePtr_assign_null :: "u32 \<Rightarrow> u32 \<Rightarrow> u32 list \<Rightarrow> (u32 \<times> u32 list) option" where
  "UniquePtr_assign_null this_raw null objs = map_option (\<lambda>objs'. (null, objs')) (delete this_raw objs)"

definition UniquePtr_eq_null :: "u32 \<Rightarrow> bool" where
  "UniquePtr_eq_null this_raw \<longleftrightarrow> this_raw = 0"

text \<open>The body is that of the comparison for equality.\<close>

definition UniquePtr_neq_null :: "u32 \<Rightarrow> bool" where
  "UniquePtr_neq_null this_raw \<longleftrightarrow> this_raw = 0"

definition UniquePtr_arrow :: "u32 \<Rightarrow> u32" where
  "UniquePtr_arrow this_raw = this_raw"

text \<open>\<^verbatim>\<open>new\<close> hands out an address that no other object has.\<close>

definition MakeUnique :: "u32 \<Rightarrow> u32 list \<Rightarrow> u32 \<times> u32 list" where
  "MakeUnique fresh objs = (UniquePtr_ptr fresh, fresh # objs)"

subsection \<open>Programs\<close>

text \<open>
  The pointers in scope, the objects that exist, and the raw pointers that were taken out with
  \<^verbatim>\<open>Release\<close> and are owned by the code that called it.
\<close>

record ptr_state =
  ptrs :: "u32 list"
  objects :: "u32 list"
  released :: "u32 list"

definition remove_at :: "nat \<Rightarrow> 'a list \<Rightarrow> 'a list" where
  "remove_at i xs = take i xs @ drop (Suc i) xs"

inductive ptr_step :: "ptr_state \<Rightarrow> ptr_state \<Rightarrow> bool" where
  declare_empty: "ptr_step s (s\<lparr>ptrs := ptrs s @ [UniquePtr_empty]\<rparr>)"
| make: "p \<noteq> 0 \<Longrightarrow> p \<notin> set (objects s) \<Longrightarrow> MakeUnique p (objects s) = (raw, objs) \<Longrightarrow>
    ptr_step s (s\<lparr>ptrs := ptrs s @ [raw], objects := objs\<rparr>)"
| adopt: "p \<in> set (released s) \<Longrightarrow>
    ptr_step s (s\<lparr>ptrs := ptrs s @ [UniquePtr_ptr p], released := remove1 p (released s)\<rparr>)"
| move_construct: "i < length (ptrs s) \<Longrightarrow> UniquePtr_move (ptrs s ! i) = (raw, raw_o) \<Longrightarrow>
    ptr_step s (s\<lparr>ptrs := (ptrs s)[i := raw_o] @ [raw]\<rparr>)"
| convert: "i < length (ptrs s) \<Longrightarrow> UniquePtr_convert (ptrs s ! i) = (raw, raw_o) \<Longrightarrow>
    ptr_step s (s\<lparr>ptrs := (ptrs s)[i := raw_o] @ [raw]\<rparr>)"
| move_assign: "i < length (ptrs s) \<Longrightarrow> j < length (ptrs s) \<Longrightarrow>
    UniquePtr_assign (ptrs s ! i) (ptrs s ! j) = (raw, raw_o) \<Longrightarrow>
    ptr_step s (s\<lparr>ptrs := (ptrs s)[i := raw, j := raw_o]\<rparr>)"
| assign_null: "i < length (ptrs s) \<Longrightarrow> UniquePtr_assign_null (ptrs s ! i) 0 (objects s) = Some (raw, objs) \<Longrightarrow>
    ptr_step s (s\<lparr>ptrs := (ptrs s)[i := raw], objects := objs\<rparr>)"
| release: "i < length (ptrs s) \<Longrightarrow> UniquePtr_Release (ptrs s ! i) = (p, raw) \<Longrightarrow>
    ptr_step s (s\<lparr>ptrs := (ptrs s)[i := raw], released := (if p = 0 then [] else [p]) @ released s\<rparr>)"
| destroy: "i < length (ptrs s) \<Longrightarrow> UniquePtr_destroy (ptrs s ! i) (objects s) = Some objs \<Longrightarrow>
    ptr_step s (s\<lparr>ptrs := remove_at i (ptrs s), objects := objs\<rparr>)"

definition ptr_start :: ptr_state where
  "ptr_start = \<lparr>ptrs = [], objects = [], released = []\<rparr>"

definition ptr_reachable :: "ptr_state \<Rightarrow> bool" where
  "ptr_reachable s \<longleftrightarrow> ptr_step\<^sup>*\<^sup>* ptr_start s"

lemmas ptr_class_defs = UniquePtr_empty_def UniquePtr_ptr_def UniquePtr_move_def UniquePtr_Release_def
  UniquePtr_convert_def UniquePtr_assign_def UniquePtr_destroy_def UniquePtr_assign_null_def MakeUnique_def

subsection \<open>Ownership\<close>

text \<open>The owners of the objects, with multiplicity: pointers in scope and released ones.\<close>

definition owners :: "u32 list \<Rightarrow> u32 multiset" where
  "owners raws = filter_mset (\<lambda>p. p \<noteq> 0) (mset raws)"

definition ptr_inv :: "ptr_state \<Rightarrow> bool" where
  "ptr_inv s \<longleftrightarrow> owners (ptrs s) + mset (released s) = mset (objects s) \<and>
     distinct (objects s) \<and> 0 \<notin> set (objects s)"

lemma owners_simps [simp]:
  "owners [] = {#}" "owners (xs @ ys) = owners xs + owners ys"
  "owners (p # xs) = (if p = 0 then {#} else {#p#}) + owners xs"
  by (simp_all add: owners_def)

lemma owners_split: "i < length xs \<Longrightarrow> owners xs = owners (take i xs) + owners [xs ! i] + owners (drop (Suc i) xs)"
  by (subst id_take_nth_drop [of i xs], assumption) (simp only: owners_simps add.assoc append_Cons append_Nil, simp)

lemma owners_update:
  assumes "i < length xs"
  shows "owners (xs[i := v]) + owners [xs ! i] = owners xs + owners [v]"
  using owners_split [OF assms] owners_split [of i "xs[i := v]"] assms by (simp add: ac_simps)

lemma owners_remove_at: "i < length xs \<Longrightarrow> owners (remove_at i xs) + owners [xs ! i] = owners xs"
  using owners_split [of i xs] by (simp add: remove_at_def ac_simps)

text \<open>What a pointer owns exists, so that it can be deleted.\<close>

lemma ptr_inv_deletes:
  assumes "ptr_inv s" "i < length (ptrs s)"
  shows "\<exists>objs. delete (ptrs s ! i) (objects s) = Some objs \<and> mset (objects s) = mset objs + owners [ptrs s ! i] \<and>
    distinct objs \<and> set objs \<subseteq> set (objects s)"
proof (cases "ptrs s ! i = 0")
  case False
  let ?p = "ptrs s ! i"
  have "?p \<in># owners (ptrs s)" using assms(2) False by (simp add: owners_def)
  then have "?p \<in># mset (objects s)" using assms(1) unfolding ptr_inv_def by (metis union_iff)
  then have m: "?p \<in> set (objects s)" by simp
  have "distinct (remove1 ?p (objects s))" using assms(1) by (simp add: ptr_inv_def distinct_remove1)
  then show ?thesis using m False by (simp add: delete_def set_remove1_subset)
qed (use assms(1) in \<open>simp add: delete_def ptr_inv_def\<close>)

lemma ptr_inv_delete:
  assumes "ptr_inv s" "i < length (ptrs s)" "delete (ptrs s ! i) (objects s) = Some objs"
    and "owners ps + owners [ptrs s ! i] = owners (ptrs s)"
  shows "ptr_inv (s\<lparr>ptrs := ps, objects := objs\<rparr>)"
proof -
  obtain objs' where d: "delete (ptrs s ! i) (objects s) = Some objs'"
    "mset (objects s) = mset objs' + owners [ptrs s ! i]" "distinct objs'" "set objs' \<subseteq> set (objects s)"
    using ptr_inv_deletes [OF assms(1,2)] by blast
  have "owners ps + owners [ptrs s ! i] + mset (released s) = mset objs' + owners [ptrs s ! i]"
    using assms(1,4) d(2) by (simp add: ptr_inv_def)
  then have "owners ps + mset (released s) = mset objs'" by (simp add: ac_simps)
  then show ?thesis using d assms(1,3) by (auto simp: ptr_inv_def)
qed

lemma ptr_step_inv:
  assumes "ptr_step s s'" "ptr_inv s"
  shows "ptr_inv s'"
  using assms
proof (induction rule: ptr_step.induct)
  case (make p s raw objs)
  then show ?case by (auto simp: ptr_inv_def ptr_class_defs)
next
  case (adopt p s)
  have "mset (released s) = add_mset p (mset (remove1 p (released s)))" using adopt(1) by simp
  moreover have "p \<noteq> 0"
    using adopt unfolding ptr_inv_def by (metis set_mset_mset union_iff)
  ultimately show ?case using adopt(2) unfolding ptr_inv_def
    by (simp add: ptr_class_defs del: mset_remove1)
next
  case (move_construct i s raw raw_o)
  then show ?case using owners_update [of i "ptrs s" 0] by (auto simp: ptr_inv_def ptr_class_defs)
next
  case (convert i s raw raw_o)
  then show ?case using owners_update [of i "ptrs s" 0] by (auto simp: ptr_inv_def ptr_class_defs)
next
  case (move_assign i s j raw raw_o)
  have r: "raw = ptrs s ! j" "raw_o = ptrs s ! i" using move_assign(3) by (simp_all add: ptr_class_defs)
  have "owners ((ptrs s)[i := raw, j := raw_o]) = owners (ptrs s)"
    unfolding r owners_def using move_assign(1,2) by (simp add: mset_swap)
  then show ?case using move_assign by (simp add: ptr_inv_def)
next
  case (assign_null i s raw objs)
  have raw: "raw = 0" "delete (ptrs s ! i) (objects s) = Some objs" using assign_null(2) by (auto simp: ptr_class_defs)
  have "owners ((ptrs s)[i := raw]) + owners [ptrs s ! i] = owners (ptrs s)"
    using owners_update [OF assign_null(1), of 0] raw(1) by simp
  then show ?case using ptr_inv_delete [OF assign_null(3,1) raw(2)] by blast
next
  case (release i s p raw)
  have r: "p = ptrs s ! i" "raw = 0" using release(2) by (auto simp: ptr_class_defs Let_def)
  have "owners (ptrs s) = owners ((ptrs s)[i := 0]) + owners [p]"
    using owners_update [OF release(1), of 0] by (simp add: r)
  then show ?case using release(3) by (cases "ptrs s ! i = 0") (simp_all add: ptr_inv_def r)
next
  case (destroy i s objs)
  then show ?case using ptr_inv_delete [OF destroy(3,1)] owners_remove_at [OF destroy(1)] by (simp add: ptr_class_defs)
qed (simp add: ptr_inv_def ptr_class_defs)

lemma ptr_reachable_inv: "ptr_reachable s \<Longrightarrow> ptr_inv s"
  unfolding ptr_reachable_def
proof (induction rule: rtranclp_induct)
  case base
  then show ?case by (simp add: ptr_inv_def ptr_start_def)
qed (rule ptr_step_inv)

text \<open>Leaving a scope destroys its pointers, the last one first.\<close>

fun leave_scope :: "u32 list \<Rightarrow> u32 list \<Rightarrow> u32 list option" where
  "leave_scope [] objs = Some objs"
| "leave_scope (p # ps) objs = Option.bind (leave_scope ps objs) (UniquePtr_destroy p)"

lemma leave_scope_objects:
  assumes "owners ps + R = mset objs" "distinct objs" "0 \<notin> set objs"
  shows "\<exists>objs'. leave_scope ps objs = Some objs' \<and> mset objs' = R"
  using assms
proof (induction ps arbitrary: R)
  case (Cons p ps)
  have "owners ps + (owners [p] + R) = mset objs" using Cons.prems(1) by (simp add: ac_simps)
  from Cons.IH [OF this Cons.prems(2,3)] obtain o1 where o1: "leave_scope ps objs = Some o1" "mset o1 = owners [p] + R"
    by blast
  show ?case
  proof (cases "p = 0")
    case False
    have "p \<in># mset o1" unfolding o1(2) using False by simp
    then have "p \<in> set o1" by simp
    then show ?thesis using o1 False by (simp add: UniquePtr_destroy_def delete_def)
  qed (use o1 in \<open>simp add: UniquePtr_destroy_def delete_def\<close>)
qed simp

text \<open>
  C24. In every state a program can reach with the operations of the class, each object has
  exactly one owner: no two pointers hold the same object, every deletion finds its object, and
  destroying all pointers in scope deletes everything that was not released, and nothing twice.
\<close>

theorem unique_ownership:
  assumes "ptr_reachable s"
  shows "(\<forall>i < length (ptrs s). \<forall>j < length (ptrs s). ptrs s ! i \<noteq> 0 \<longrightarrow> ptrs s ! i = ptrs s ! j \<longrightarrow> i = j) \<and>
    (\<forall>i < length (ptrs s). UniquePtr_destroy (ptrs s ! i) (objects s) \<noteq> None) \<and>
    (\<exists>objs. leave_scope (ptrs s) (objects s) = Some objs \<and> mset objs = mset (released s))"
proof (intro conjI)
  have inv: "ptr_inv s" using assms by (rule ptr_reachable_inv)
  show "\<exists>objs. leave_scope (ptrs s) (objects s) = Some objs \<and> mset objs = mset (released s)"
    using inv leave_scope_objects unfolding ptr_inv_def by blast
  show "\<forall>i < length (ptrs s). UniquePtr_destroy (ptrs s ! i) (objects s) \<noteq> None"
    using ptr_inv_deletes [OF inv] by (auto simp: UniquePtr_destroy_def)
  have "owners (ptrs s) \<subseteq># mset (objects s)" using inv unfolding ptr_inv_def by (metis mset_subset_eq_add_left)
  then have cnt: "count (owners (ptrs s)) p \<le> 1" for p
    using inv unfolding ptr_inv_def by (metis count_mset_0_iff distinct_count_atmost_1 le_refl mset_subset_eq_count order_trans zero_le_one)
  show "\<forall>i < length (ptrs s). \<forall>j < length (ptrs s). ptrs s ! i \<noteq> 0 \<longrightarrow> ptrs s ! i = ptrs s ! j \<longrightarrow> i = j"
  proof (intro allI impI, rule ccontr)
    fix i j assume ij: "i < length (ptrs s)" "j < length (ptrs s)" "ptrs s ! i \<noteq> 0" "ptrs s ! i = ptrs s ! j" "i \<noteq> j"
    let ?p = "ptrs s ! i"
    have "owners ((ptrs s)[i := 0]) + {#?p#} = owners (ptrs s)" using owners_update [OF ij(1), of 0] ij(3) by simp
    moreover have "owners ((ptrs s)[i := 0, j := 0]) + {#?p#} = owners ((ptrs s)[i := 0])"
      using owners_update [of j "(ptrs s)[i := 0]" 0] ij by simp
    ultimately have "owners (ptrs s) = owners ((ptrs s)[i := 0, j := 0]) + {#?p#} + {#?p#}" by simp
    then have "2 \<le> count (owners (ptrs s)) ?p" by simp
    then show False using cnt [of ?p] by simp
  qed
qed

theorem unique_ownership_witness:
  "leave_scope [0, 0x40] [0x40] = Some []"
proof -
  have "ptr_step ptr_start (ptr_start\<lparr>ptrs := [0x40], objects := [0x40]\<rparr>)"
    using ptr_step.make [of "0x40" ptr_start] by (simp add: ptr_start_def MakeUnique_def UniquePtr_ptr_def)
  moreover have "ptr_step (ptr_start\<lparr>ptrs := [0x40], objects := [0x40]\<rparr>) (ptr_start\<lparr>ptrs := [0, 0x40], objects := [0x40]\<rparr>)"
    using ptr_step.move_construct [of 0 "ptr_start\<lparr>ptrs := [0x40], objects := [0x40]\<rparr>"]
    by (simp add: UniquePtr_move_def ptr_start_def)
  ultimately have "ptr_reachable (ptr_start\<lparr>ptrs := [0, 0x40], objects := [0x40]\<rparr>)"
    unfolding ptr_reachable_def by simp
  from unique_ownership [OF this] show ?thesis by (simp add: ptr_start_def)
qed

end
