(* ===== verification/Installfat.thy ===== *)
theory Installfat
  imports Host_File Fat_Super Stage2_Header Text_Screen
begin

text \<open>
  The installer (\<^verbatim>\<open>tools/installfat.cpp\<close>): it puts the boot code into the boot sector of a FAT32
  image and the second stage, with its header completed, into the reserved sectors behind it. The
  text of an exception is a parameter, as it belongs to the standard library.
\<close>

subsection \<open>State\<close>

record 's Install =
  in_sys :: 's
  in_cerr :: bytes

definition in_call :: "('s, 'a) io \<Rightarrow> ('s Install, 'a) io" where
  "in_call m st = Option.bind (m (in_sys st)) (\<lambda>(r, s'). Some (r, st\<lparr>in_sys := s'\<rparr>))"

definition in_error :: "bytes \<Rightarrow> ('s Install, unit) io" where
  "in_error msg = io_put (\<lambda>st. st\<lparr>in_cerr := in_cerr st @ msg @ [10]\<rparr>)"

subsection \<open>Reading a file\<close>

partial_function (option) ReadAll_loop ::
    "'s Posix \<Rightarrow> bytes \<Rightarrow> nat \<Rightarrow> int \<Rightarrow> bytes \<Rightarrow> 's Install \<Rightarrow> ((exn + bool \<times> bytes) \<times> 's Install) option" where
  "ReadAll_loop P filename limit fd out st =
     io_bind (in_call (File_Read P fd 1024)) (\<lambda>d st1.
       if length d = 0 then Some (Inr (True, out), st1)
       else if length (out @ d) > limit
       then io_bind (in_error (filename @ text_bytes '' is too big (max: '' @ number_text limit @ text_bytes '')''))
              (\<lambda>_. io_return (False, out @ d)) st1
       else ReadAll_loop P filename limit fd (out @ d) st1) st"

definition ReadAll :: "'s Posix \<Rightarrow> bytes \<Rightarrow> nat \<Rightarrow> ('s Install, bool \<times> bytes) io" where
  "ReadAll P filename limit =
     io_bind (in_call (File_open P filename True)) (\<lambda>fd. ReadAll_loop P filename limit fd [])"

subsection \<open>Arguments\<close>

record install_args =
  vbrFile :: "bytes option"
  stage2File :: "bytes option"
  outFile :: "bytes option"

definition missing_argument :: "bytes \<Rightarrow> bytes" where
  "missing_argument arg = text_bytes ''Missing argument for `'' @ arg @ text_bytes ''`''"

text \<open>\<^verbatim>\<open>Inl\<close> is the message of a failure. The comparisons are of whole strings.\<close>

fun parse_args :: "bytes list \<Rightarrow> install_args \<Rightarrow> bytes + install_args" where
  "parse_args [] a = Inr a"
| "parse_args (arg # rest) a =
     (if arg = text_bytes ''--stage2'' then
        (case rest of [] \<Rightarrow> Inl (missing_argument arg) | y # ys \<Rightarrow> parse_args ys (a\<lparr>stage2File := Some y\<rparr>))
      else if arg = text_bytes ''-v'' then
        (if drop 2 arg \<noteq> [] then parse_args rest (a\<lparr>vbrFile := Some (drop 2 arg)\<rparr>)
         else case rest of [] \<Rightarrow> Inl (missing_argument arg) | y # ys \<Rightarrow> parse_args ys (a\<lparr>vbrFile := Some y\<rparr>))
      else if arg = text_bytes ''-o'' then
        (if drop 2 arg \<noteq> [] then parse_args rest (a\<lparr>outFile := Some (drop 2 arg)\<rparr>)
         else case rest of [] \<Rightarrow> Inl (missing_argument arg) | y # ys \<Rightarrow> parse_args ys (a\<lparr>outFile := Some y\<rparr>))
      else parse_args rest a)"

subsection \<open>Installing\<close>

definition install_super :: "FatSuper \<Rightarrow> bytes \<Rightarrow> FatSuper" where
  "install_super super0 vbr =
     (let super1 = FatSuper_SetBackupIndex super0 0;
          super2 = FatSuper_SetFsInfoIndex super1 1;
          super3 = FatSuper_SetOEMName super2 (text_bytes ''Goliath'')
      in FatSuper_SetBootCode super3 vbr (length vbr) 0)"

text \<open>
  The header is constructed in place, and the checksum is taken over whole sectors, which may reach
  behind the last element of the vector. \<^verbatim>\<open>ReadAll\<close> has enlarged the vector by 1024 zero bytes
  before the read that returned nothing, so its storage holds these zeros behind the elements. Only
  the elements are written to the image.
\<close>

definition vector_storage :: "bytes \<Rightarrow> bytes" where
  "vector_storage v = v @ replicate 1024 0"

definition install_stage2 :: "bytes \<Rightarrow> exn + bytes" where
  "install_stage2 stage2 =
     (let mem0 = overwrite 0 Stage2Header_new (vector_storage stage2);
          mem1 = Stage2Header_SetSectorCount mem0 (of_nat (length stage2))
      in case Stage2Header_UpdateChecksum mem1 of None \<Rightarrow> Inl Fault | Some mem2 \<Rightarrow> Inr mem2)"

definition stage2_max :: "FatSuper \<Rightarrow> exn + nat" where
  "stage2_max super =
     (let max = (int (unat (FatSuper_ReservedSectors super)) - 2) * int (unat (FatSuper_BytesPerSector super))
      in if max < 2 ^ 31 then Inr (unat (of_int max :: u64)) else Inl Fault)"

definition install_files :: "'s Posix \<Rightarrow> bytes \<Rightarrow> bytes \<Rightarrow> bytes \<Rightarrow> ('s Install, int) io" where
  "install_files P vbrName stage2Name outName =
     io_bind (in_call (File_open P outName False)) (\<lambda>fd.
     io_bind (in_call (File_ReadAt P fd 0 512)) (\<lambda>sector.
     let super0 = FatSuper_of_bytes sector
     in io_bind (io_lift (int_mul (FatSuper_FsInfoIndex super0) (FatSuper_BytesPerSector super0))) (\<lambda>infoOff.
        io_bind (in_call (File_ReadAt P fd (ucast infoOff) 512)) (\<lambda>fsinfo.
        io_bind (ReadAll P vbrName 420) (\<lambda>(ok, vbr).
        if \<not> ok then io_return 1
        else
          let super = install_super super0 vbr
          in io_bind (in_call (File_WriteAt P fd 0 (FatSuper_bytes super))) (\<lambda>_.
             io_bind (in_call (File_WriteAt P fd (ucast (FatSuper_BytesPerSector super)) fsinfo)) (\<lambda>_.
             io_bind (io_lift (stage2_max super)) (\<lambda>max.
             io_bind (ReadAll P stage2Name max) (\<lambda>(ok, stage2).
             if \<not> ok then io_return 1
             else
               io_bind (io_lift (install_stage2 stage2)) (\<lambda>mem.
               case Stage2Header_Verify mem (of_nat (Stage2Header_SectorCount mem)) of
                 None \<Rightarrow> io_throw Fault
               | Some verified \<Rightarrow>
                   if \<not> verified
                   then io_bind (in_error (text_bytes ''Stage 2 header verification failed'')) (\<lambda>_. io_return 1)
                   else io_bind (in_call (File_WriteAt P fd (2 * ucast (FatSuper_BytesPerSector super))
                          (take (length stage2) mem))) (\<lambda>_.
                        io_return 0)))))))))))"

text \<open>Exceptions are printed, and the program still reports success.\<close>

definition install_try :: "(exn \<Rightarrow> bytes) \<Rightarrow> ('s Install, int) io \<Rightarrow> ('s Install, int) io" where
  "install_try what m st =
     (case m st of
        Some (Inl e, st') \<Rightarrow> if e = Fault then Some (Inl e, st') else io_bind (in_error (what e)) (\<lambda>_. io_return 0) st'
      | r \<Rightarrow> r)"

definition installfat_main :: "'s Posix \<Rightarrow> (exn \<Rightarrow> bytes) \<Rightarrow> bytes list \<Rightarrow> ('s Install, int) io" where
  "installfat_main P what argv =
     (case parse_args argv \<lparr>vbrFile = None, stage2File = None, outFile = None\<rparr> of
        Inl msg \<Rightarrow> io_bind (in_error msg) (\<lambda>_. io_return 1)
      | Inr a \<Rightarrow>
          (case outFile a of None \<Rightarrow> io_bind (in_error (text_bytes ''no output file specified'')) (\<lambda>_. io_return 1)
           | Some out \<Rightarrow>
          (case vbrFile a of None \<Rightarrow> io_bind (in_error (text_bytes ''no VBR file specified'')) (\<lambda>_. io_return 1)
           | Some vbr \<Rightarrow>
          (case stage2File a of None \<Rightarrow> io_bind (in_error (text_bytes ''no stag2 file specified'')) (\<lambda>_. io_return 1)
           | Some stage2 \<Rightarrow> install_try what (install_files P vbr stage2 out)))))"

subsection \<open>Reading a whole file\<close>

lemma take_length_drop: "take n xs @ drop (length (take n xs)) xs = xs"
  by (metis append_take_drop_id append_eq_conv_conj)

context reliable_posix
begin

lemma ReadAll_loop_works:
  assumes "length (out @ drop (pos (in_sys st) fd) (content (in_sys st) fd)) \<le> limit"
  shows "\<exists>s'. ReadAll_loop P filename limit fd out st =
      Some (Inr (True, out @ drop (pos (in_sys st) fd) (content (in_sys st) fd)), st\<lparr>in_sys := s'\<rparr>) \<and>
    same_files (in_sys st) s' \<and> bytes_of s' = bytes_of (in_sys st)"
  using assms
proof (induction "length (content (in_sys st) fd) - pos (in_sys st) fd" arbitrary: out st rule: less_induct)
  case less
  let ?s = "in_sys st" let ?c = "content (in_sys st) fd" let ?p = "pos (in_sys st) fd"
  let ?d = "subbytes ?p 1024 ?c"
  obtain s1 where rd: "File_Read P fd 1024 ?s = Some (Inr ?d, s1)" "same_files ?s s1" "bytes_of s1 = bytes_of ?s"
    "pos s1 fd = ?p + length ?d"
    using Read_works [of fd 1024 ?s] by auto
  then have call: "in_call (File_Read P fd 1024) st = Some (Inr ?d, st\<lparr>in_sys := s1\<rparr>)" by (simp add: in_call_def)
  have c1: "content s1 fd = ?c" using rd by (simp add: content_def same_files_def)
  have loop: "ReadAll_loop P filename limit fd out st =
      (if length ?d = 0 then Some (Inr (True, out), st\<lparr>in_sys := s1\<rparr>)
       else if length (out @ ?d) > limit
       then io_bind (in_error (filename @ text_bytes '' is too big (max: '' @ number_text limit @ text_bytes '')''))
              (\<lambda>_. io_return (False, out @ ?d)) (st\<lparr>in_sys := s1\<rparr>)
       else ReadAll_loop P filename limit fd (out @ ?d) (st\<lparr>in_sys := s1\<rparr>))"
    by (subst ReadAll_loop.simps) (simp add: io_bind_def [of "in_call (File_Read P fd 1024)"] call)
  show ?case
  proof (cases "length ?d = 0")
    case True
    then have "drop ?p ?c = []" by (simp add: subbytes_def)
    then show ?thesis using True loop rd by (intro exI [of _ s1]) simp
  next
    case False
    have split: "?d @ drop (?p + length ?d) ?c = drop ?p ?c"
      using take_length_drop [of 1024 "drop ?p ?c"] by (simp add: subbytes_def add.commute)
    then have all: "(out @ ?d) @ drop (pos s1 fd) (content s1 fd) = out @ drop ?p ?c" using c1 rd(4) by simp
    have small: "length ((out @ ?d) @ drop (pos s1 fd) (content s1 fd)) \<le> limit"
      unfolding all using less.prems .
    then have "\<not> length (out @ ?d) > limit" by simp
    with False loop have eq: "ReadAll_loop P filename limit fd out st =
        ReadAll_loop P filename limit fd (out @ ?d) (st\<lparr>in_sys := s1\<rparr>)" by simp
    have lt: "length (content (in_sys (st\<lparr>in_sys := s1\<rparr>)) fd) - pos (in_sys (st\<lparr>in_sys := s1\<rparr>)) fd < length ?c - ?p"
      using False c1 rd(4) by (simp add: subbytes_def)
    obtain s' where s': "ReadAll_loop P filename limit fd (out @ ?d) (st\<lparr>in_sys := s1\<rparr>) =
        Some (Inr (True, out @ drop ?p ?c), (st\<lparr>in_sys := s1\<rparr>)\<lparr>in_sys := s'\<rparr>)"
      "same_files s1 s'" "bytes_of s' = bytes_of s1"
      using less.hyps [OF lt, of "out @ ?d"] small all by auto
    then have "bytes_of s' = bytes_of ?s" using rd(3) by simp
    moreover have "(st\<lparr>in_sys := s1\<rparr>)\<lparr>in_sys := s'\<rparr> = st\<lparr>in_sys := s'\<rparr>" by simp
    ultimately show ?thesis using eq s'(1) same_files_trans [OF rd(2) s'(2)] by auto
  qed
qed

lemma ReadAll_works:
  assumes "names (in_sys st) path = Some i" "length (bytes_of (in_sys st) i) \<le> limit"
  shows "\<exists>s'. ReadAll P path limit st = Some (Inr (True, bytes_of (in_sys st) i), st\<lparr>in_sys := s'\<rparr>) \<and>
    bytes_of s' = bytes_of (in_sys st) \<and> names s' = names (in_sys st) \<and> opened (in_sys st) \<subseteq> opened s' \<and>
    (\<forall>f \<in> opened (in_sys st). inode s' f = inode (in_sys st) f)"
proof -
  obtain fd s1 where o: "File_open P path True (in_sys st) = Some (Inr fd, s1)" "opened s1 = insert fd (opened (in_sys st))"
    "inode s1 fd = i" "pos s1 fd = 0" "\<forall>f \<in> opened (in_sys st). inode s1 f = inode (in_sys st) f"
    "bytes_of s1 = bytes_of (in_sys st)" "names s1 = names (in_sys st)"
    using open_named [OF assms(1), of True] by blast
  then have call: "in_call (File_open P path True) st = Some (Inr fd, st\<lparr>in_sys := s1\<rparr>)" by (simp add: in_call_def)
  have c: "content s1 fd = bytes_of (in_sys st) i" using o by (simp add: content_def)
  have "\<exists>s'. ReadAll_loop P path limit fd [] (st\<lparr>in_sys := s1\<rparr>) =
      Some (Inr (True, bytes_of (in_sys st) i), st\<lparr>in_sys := s'\<rparr>) \<and> same_files s1 s' \<and> bytes_of s' = bytes_of s1"
    using ReadAll_loop_works [of "[]" "st\<lparr>in_sys := s1\<rparr>" fd limit path] assms(2) c o(4) by simp
  then show ?thesis
    using o call unfolding ReadAll_def same_files_def by (auto simp: io_bind_def)
qed

end

subsection \<open>Completing the header\<close>

lemma length_vector_storage [simp]: "length (vector_storage v) = length v + 1024"
  by (simp add: vector_storage_def)

text \<open>The storage of the second stage, before the checksum is set.\<close>

definition stage2_prepared :: "bytes \<Rightarrow> bytes" where
  "stage2_prepared stage2 = Stage2Header_SetSectorCount (overwrite 0 Stage2Header_new (vector_storage stage2))
     (of_nat (length stage2))"

lemma subbytes_take: "off + n \<le> m \<Longrightarrow> subbytes off n (take m xs) = subbytes off n xs"
  by (simp add: subbytes_def drop_take take_take min_def)

lemma Stage2Header_new_length [simp]: "length Stage2Header_new = 28"
  by (simp add: Stage2Header_new_def)

text \<open>\<^verbatim>\<open>Verify\<close> looks at the sectors the header counts, and at nothing behind them.\<close>

lemma Verify_take:
  assumes "image_ok img" "512 * unat (hdr_sectorCount img) \<le> n"
  shows "Stage2Header_Verify (take n img) limit = Stage2Header_Verify img limit"
proof -
  have n: "512 \<le> n" using assms by (simp add: image_ok_def word_less_nat_alt)
  then have fields: "hdr_magic (take n img) = hdr_magic img" "hdr_sectorCount (take n img) = hdr_sectorCount img"
    "hdr_checksum (take n img) = hdr_checksum img"
    by (simp_all add: hdr_magic_def hdr_sectorCount_def hdr_checksum_def subbytes_take)
  have ok: "image_ok (take n img)" using assms fields by (simp add: image_ok_def)
  have "word_of (take n img) i = word_of img i" if "i < unat (hdr_sectorCount img) * 128" for i
    using that assms(2) by (simp add: word_of_def subbytes_take)
  then have "(\<Sum>i < unat (hdr_sectorCount img) * 128. word_of (take n img) i) =
      (\<Sum>i < unat (hdr_sectorCount img) * 128. word_of img i)" by simp
  then show ?thesis
    using fields by (simp add: Stage2Header_Verify_def ComputeChecksum_eq [OF ok] ComputeChecksum_eq [OF assms(1)])
qed

lemma stage2_prepared_ok:
  assumes "0 < length p" "length p \<le> 512 * 65535"
  shows "image_ok (stage2_prepared p)" "hdr_magic (stage2_prepared p) = Stage2Magic"
    "unat (hdr_sectorCount (stage2_prepared p)) = (length p + 511) div 512"
    "length (stage2_prepared p) = length p + 1024"
proof -
  let ?m = "overwrite 0 Stage2Header_new (vector_storage p)"
  have len: "length ?m = length p + 1024" "28 \<le> length ?m" by (simp_all add: vector_storage_def)
  have sz: "unat (of_nat (length p) :: u32) = length p" using assms(2) by (simp add: unat_of_nat take_bit_nat_eq_self)
  have "10 \<le> length ?m" using len by simp
  note c = SetSectorCount_rounds_up [OF this, of "of_nat (length p)", unfolded sz, OF assms(2)]
  show cnt: "unat (hdr_sectorCount (stage2_prepared p)) = (length p + 511) div 512"
    using c by (simp add: Stage2Header_SectorCount_def stage2_prepared_def)
  show l: "length (stage2_prepared p) = length p + 1024"
    using len by (simp add: stage2_prepared_def Stage2Header_SetSectorCount_def Let_def)
  have "512 * ((length p + 511) div 512) \<le> length p + 511" by simp
  moreover have "0 < (length p + 511) div 512" using assms(1) by (simp add: div_greater_zero_iff Suc_le_eq)
  ultimately show "image_ok (stage2_prepared p)"
    unfolding image_ok_def word_less_nat_alt l cnt by simp
  have "subbytes 0 4 (stage2_prepared p) = subbytes 0 4 ?m"
    using len by (simp add: stage2_prepared_def Stage2Header_SetSectorCount_def Let_def subbytes_overwrite_before)
  also have "\<dots> = UnalignedInt_Set 4 Stage2Magic" by (simp add: overwrite_def Stage2Header_new_def subbytes_def)
  finally show "hdr_magic (stage2_prepared p) = Stage2Magic" by (simp add: hdr_magic_def Read32_Set)
qed

lemma stage2_prepared_bytes:
  assumes "0 < length p" "length p \<le> 512 * 65535"
  shows "stage2_prepared p = UnalignedInt_Set 4 Stage2Magic @ replicate 4 0 @
    UnalignedInt_Set 2 (of_nat ((length p + 511) div 512) :: u16) @ replicate 18 0 @ drop 28 (vector_storage p)"
proof -
  let ?h = "UnalignedInt_Set 4 Stage2Magic @ replicate 4 0"
  have new: "overwrite 0 Stage2Header_new (vector_storage p) = ?h @ replicate 2 0 @ replicate 18 0 @ drop 28 (vector_storage p)"
    by (simp add: overwrite_def Stage2Header_new_def flip: replicate_add)
  have over: "overwrite 8 (UnalignedInt_Set 2 c) (?h @ replicate 2 0 @ ys) = ?h @ UnalignedInt_Set 2 c @ ys" for c :: u16 and ys
    by (simp add: overwrite_def)
  obtain c :: u16 where c: "stage2_prepared p = ?h @ UnalignedInt_Set 2 c @ replicate 18 0 @ drop 28 (vector_storage p)"
    unfolding stage2_prepared_def Stage2Header_SetSectorCount_def Let_def new over by blast
  have "hdr_sectorCount (stage2_prepared p) = c" unfolding c by (simp add: hdr_sectorCount_def subbytes_def Read16_Set)
  then have "unat c = (length p + 511) div 512" using stage2_prepared_ok(3) [OF assms] by simp
  then have "c = of_nat ((length p + 511) div 512)" by (metis of_nat_unat ucast_id)
  with c show ?thesis by simp
qed

lemma install_stage2_eq:
  assumes "0 < length p" "length p \<le> 512 * 65535" "payload_sum (stage2_prepared p) \<noteq> 0"
  shows "\<exists>mem. install_stage2 p = Inr mem \<and> length mem = length p + 1024 \<and> image_ok mem \<and>
    unat (hdr_sectorCount mem) = (length p + 511) div 512 \<and>
    Stage2Header_Verify mem (of_nat (Stage2Header_SectorCount mem)) = Some True \<and>
    mem = UnalignedInt_Set 4 Stage2Magic @ UnalignedInt_Set 4 (- payload_sum (stage2_prepared p)) @
      UnalignedInt_Set 2 (of_nat ((length p + 511) div 512) :: u16) @ replicate 18 0 @ drop 28 (vector_storage p)"
proof -
  note ok = stage2_prepared_ok [OF assms(1,2)]
  let ?mem = "overwrite 4 (UnalignedInt_Set 4 (- payload_sum (stage2_prepared p))) (stage2_prepared p)"
  have len: "28 \<le> length (stage2_prepared p)" using ok(4) by simp
  have upd: "Stage2Header_UpdateChecksum (stage2_prepared p) = Some ?mem" by (rule UpdateChecksum_eq [OF ok(1)])
  have cnt: "hdr_sectorCount ?mem = hdr_sectorCount (stage2_prepared p)" using len by (simp add: set_checksum_fields)
  obtain img' where "Stage2Header_UpdateChecksum (stage2_prepared p) = Some img'"
    "Stage2Header_Verify img' (ucast (hdr_sectorCount (stage2_prepared p))) = Some True"
    using Verify_UpdateChecksum [OF ok(1,2) order_refl] assms(3) by auto
  then have "Stage2Header_Verify ?mem (ucast (hdr_sectorCount ?mem)) = Some True" using upd cnt by simp
  then have "Stage2Header_Verify ?mem (of_nat (Stage2Header_SectorCount ?mem)) = Some True"
    by (simp add: Stage2Header_SectorCount_def unsigned_of_nat)
  moreover have "overwrite 4 v (UnalignedInt_Set 4 Stage2Magic @ replicate 4 0 @ ys) = UnalignedInt_Set 4 Stage2Magic @ v @ ys"
    if "length v = 4" for v ys using that by (simp add: overwrite_def)
  then have "?mem = UnalignedInt_Set 4 Stage2Magic @ UnalignedInt_Set 4 (- payload_sum (stage2_prepared p)) @
      UnalignedInt_Set 2 (of_nat ((length p + 511) div 512) :: u16) @ replicate 18 0 @ drop 28 (vector_storage p)"
    using stage2_prepared_bytes [OF assms(1,2)] by simp
  moreover have "image_ok ?mem" by (rule image_ok_set_checksum [OF ok(1)])
  moreover have "install_stage2 p = Inr ?mem" using upd by (simp add: install_stage2_def stage2_prepared_def Let_def)
  ultimately show ?thesis
    using cnt ok(3,4) len by (intro exI [of _ ?mem]) simp
qed

subsection \<open>The whole installation\<close>

text \<open>What the image holds afterwards.\<close>

definition install_image :: "FatSuper \<Rightarrow> bytes \<Rightarrow> bytes \<Rightarrow> bytes \<Rightarrow> bytes" where
  "install_image super fsinfo stage2 img =
     write_bytes (2 * unat (FatSuper_BytesPerSector super)) stage2
       (write_bytes (unat (FatSuper_BytesPerSector super)) fsinfo
         (write_bytes 0 (FatSuper_bytes super) img))"

lemma install_super_wf: "FatSuper_wf super \<Longrightarrow> FatSuper_wf (install_super super vbr)"
  unfolding install_super_def Let_def by (intro FatSuper_SetBootCode_wf FatSuper_setters_wf) simp_all

lemma install_super_geometry [simp]:
  "FatSuper_BytesPerSector (install_super super vbr) = FatSuper_BytesPerSector super"
  "FatSuper_ReservedSectors (install_super super vbr) = FatSuper_ReservedSectors super"
  by (simp_all add: install_super_def FatSuper_SetBootCode_def introJump_SetEntryPoint_def FatSuper_setters Let_def
      FatSuper_BytesPerSector_def FatSuper_ReservedSectors_def)

lemma install_super_code:
  assumes "FatSuper_wf super" "length vbr \<le> 420"
  shows "subbytes 90 (length vbr) (FatSuper_bytes (install_super super vbr)) = vbr"
  using assms
  by (simp add: install_super_def FatSuper_SetBootCode_def introJump_SetEntryPoint_def FatSuper_setters FatSuper_bytes_def Let_def
      FatSuper_wf_def subbytes_def overwrite_def)

text \<open>
  The first sector afterwards: the jump to offset 90, the name, the parameter block with the
  information sector in sector 1 and no backup, the boot code, and the rest as it was.
\<close>

lemma install_super_bytes:
  assumes "length b = 512" "length vbr \<le> 420"
  shows "FatSuper_bytes (install_super (FatSuper_of_bytes b) vbr) =
    [0xEB, 88, 0x90] @ text_bytes ''Goliath '' @ subbytes 11 37 b @ [1, 0, 0, 0] @ subbytes 52 38 b @
    vbr @ subbytes (90 + length vbr) (422 - length vbr) b"
proof -
  have bpb: "subbytes 11 37 b = pieces 11 [2, 1, 2, 1, 4, 1, 2, 2, 2, 4, 4, 4, 2, 2, 4] b"
    using assms(1) by (subst pieces_join) simp_all
  have ebpb: "subbytes 52 38 b = pieces 52 [12, 1, 1, 1, 4, 11, 8] b"
    using assms(1) by (subst pieces_join) simp_all
  have code: "overwrite 0 vbr (subbytes 90 420 b) @ subbytes 510 2 b = vbr @ subbytes (90 + length vbr) (422 - length vbr) b"
    using assms by (intro nth_equalityI) (auto simp: overwrite_def subbytes_def nth_append min_def)
  have name: "FixedLengthString_Set 8 32 (text_bytes ''Goliath'') = text_bytes ''Goliath ''"
    "UnalignedInt_Set 2 (1 :: u16) = [1, 0]" "UnalignedInt_Set 2 (0 :: u16) = [0, 0]" by code_simp+
  show ?thesis
    unfolding bpb ebpb using assms code subbytes_single [of _ b]
    by (simp add: install_super_def FatSuper_SetBootCode_def introJump_SetEntryPoint_def FatSuper_setters FatSuper_bytes_def
        FatSuper_of_bytes_def Let_def name del: overwrite_def)
qed

lemma unat_of_int_small: "n < 2 ^ 31 \<Longrightarrow> unat (of_int (int n) :: u64) = n"
  by (simp add: unat_of_nat take_bit_nat_eq_self)

lemma stage2_max_eq:
  assumes "2 \<le> unat (FatSuper_ReservedSectors super)"
    "(unat (FatSuper_ReservedSectors super) - 2) * unat (FatSuper_BytesPerSector super) < 2 ^ 31"
  shows "stage2_max super = Inr ((unat (FatSuper_ReservedSectors super) - 2) * unat (FatSuper_BytesPerSector super))"
proof -
  let ?n = "(unat (FatSuper_ReservedSectors super) - 2) * unat (FatSuper_BytesPerSector super)"
  have eq: "(int (unat (FatSuper_ReservedSectors super)) - 2) * int (unat (FatSuper_BytesPerSector super)) = int ?n"
    using assms(1) by (simp add: of_nat_diff)
  have "int ?n < 2 ^ 31" using assms(2) by (metis of_nat_less_iff of_nat_numeral of_nat_power)
  moreover have "unat (of_int (int ?n) :: u64) = ?n"
    by (rule unat_of_int_small [OF assms(2)])
  ultimately show ?thesis unfolding stage2_max_def eq Let_def by simp
qed

lemma parse_args_example:
  "parse_args [text_bytes ''-v'', vbr, text_bytes ''--stage2'', stage2, text_bytes ''-o'', out] a =
    Inr (a\<lparr>vbrFile := Some vbr, stage2File := Some stage2, outFile := Some out\<rparr>)"
proof -
  have "text_bytes ''-v'' \<noteq> text_bytes ''--stage2''" "text_bytes ''-o'' \<noteq> text_bytes ''--stage2''"
    "text_bytes ''-o'' \<noteq> text_bytes ''-v''" "drop 2 (text_bytes ''-v'') = []" "drop 2 (text_bytes ''-o'') = []"
    by code_simp+
  then show ?thesis by simp
qed

lemma unat_infoOff:
  fixes a b :: u16
  assumes "unat a * unat b < 2 ^ 31"
  shows "unat (ucast (ucast a * ucast b :: u32) :: u64) = unat a * unat b"
proof -
  have "unat a < 2 ^ 32" "unat b < 2 ^ 32" using unsigned_less [of a, where ?'a = nat] unsigned_less [of b, where ?'a = nat] by simp_all
  then show ?thesis using assms by (simp add: unsigned_ucast_eq unat_word_ariths take_bit_nat_eq_self)
qed

lemma unat_ucast_sector: "unat (ucast (b :: u16) :: u64) = unat b" "unat (2 * ucast (b :: u16) :: u64) = 2 * unat b"
proof -
  have small: "unat b < 2 ^ 16" using unsigned_less [of b] by simp
  then show eq: "unat (ucast b :: u64) = unat b" by (simp add: unsigned_ucast_eq take_bit_nat_eq_self)
  from small show "unat (2 * ucast b :: u64) = 2 * unat b" by (simp add: unat_word_ariths eq)
qed

context reliable_posix
begin

lemma install_files_works:
  assumes files: "names (in_sys st) outName = Some i" "names (in_sys st) vbrName = Some j" "names (in_sys st) stage2Name = Some k"
      "i \<noteq> j" "i \<noteq> k"
    and img: "img = bytes_of (in_sys st) i" "super0 = FatSuper_of_bytes (subbytes 0 512 img)" "512 \<le> length img" "length img < 2 ^ 63"
    and info: "infoOff = unat (FatSuper_FsInfoIndex super0) * unat (FatSuper_BytesPerSector super0)" "infoOff < 2 ^ 31"
      "infoOff + 512 \<le> length img"
    and vbr: "vbr = bytes_of (in_sys st) j" "length vbr \<le> 420"
    and room: "2 \<le> unat (FatSuper_ReservedSectors super0)"
      "(unat (FatSuper_ReservedSectors super0) - 2) * unat (FatSuper_BytesPerSector super0) < 2 ^ 31"
    and p: "p = bytes_of (in_sys st) k" "0 < length p" "length p \<le> 512 * 65535"
      "length p \<le> (unat (FatSuper_ReservedSectors super0) - 2) * unat (FatSuper_BytesPerSector super0)"
      "payload_sum (stage2_prepared p) \<noteq> 0"
    and mem: "install_stage2 p = Inr mem"
  shows "\<exists>st'. install_files P vbrName stage2Name outName st = Some (Inr 0, st') \<and> in_cerr st' = in_cerr st \<and>
    bytes_of (in_sys st') = (bytes_of (in_sys st))(i :=
      install_image (install_super super0 vbr) (subbytes infoOff 512 img) (take (length p) mem) img)"
proof -
  let ?super = "install_super super0 vbr" and ?bps = "FatSuper_BytesPerSector super0"
  let ?fsinfo = "subbytes infoOff 512 img"
  have bps: "unat ?bps < 2 ^ 16" using unsigned_less [of ?bps] by simp
  have wf: "FatSuper_wf ?super" unfolding img(2) using img(3) by (intro install_super_wf FatSuper_of_bytes_wf) simp
  obtain fd s1 where s1: "File_open P outName False (in_sys st) = Some (Inr fd, s1)" "fd \<in> opened s1" "inode s1 fd = i"
    "bytes_of s1 = bytes_of (in_sys st)" "names s1 = names (in_sys st)"
    using open_named [OF files(1), of False] by blast
  have c1: "content s1 fd = img" using s1 img(1) by (simp add: content_def)
  obtain s2 where s2: "File_ReadAt P fd 0 512 s1 = Some (Inr (subbytes 0 512 img), s2)" "same_files s1 s2" "bytes_of s2 = bytes_of s1"
    using ReadAt_works [of 0 512 s1 fd] c1 img(3,4) by auto
  have c2: "content s2 fd = img" using c1 s2 by (simp add: content_def same_files_def)
  obtain off where off: "int_mul (FatSuper_FsInfoIndex super0) ?bps = Inr off" "unat (ucast off :: u64) = infoOff"
    using info(1,2) unat_infoOff by (auto simp: int_mul_def)
  obtain s3 where s3: "File_ReadAt P fd (ucast off) 512 s2 = Some (Inr ?fsinfo, s3)" "same_files s2 s3" "bytes_of s3 = bytes_of s2"
    using ReadAt_works [of "ucast off" 512 s2 fd] c2 off(2) info(3) img(4) by auto
  have st3: "names s3 = names (in_sys st)" "fd \<in> opened s3" "inode s3 fd = i" "bytes_of s3 = bytes_of (in_sys st)"
    using s1 s2 s3 by (auto simp: same_files_def)
  obtain s4 where s4: "ReadAll P vbrName 420 (st\<lparr>in_sys := s3\<rparr>) = Some (Inr (True, vbr), st\<lparr>in_sys := s4\<rparr>)"
    "bytes_of s4 = bytes_of (in_sys st)" "names s4 = names (in_sys st)" "fd \<in> opened s4" "inode s4 fd = i"
    using ReadAll_works [of "st\<lparr>in_sys := s3\<rparr>" vbrName j 420] files(2) vbr st3 by auto
  have c4: "content s4 fd = img" using s4 img(1) by (simp add: content_def)
  have l: "length (FatSuper_bytes ?super) = 512" using wf by simp
  obtain s5 where s5: "File_WriteAt P fd 0 (FatSuper_bytes ?super) s4 = Some (Inr (), s5)" "same_files s4 s5"
    "bytes_of s5 = (bytes_of (in_sys st))(i := write_bytes 0 (FatSuper_bytes ?super) img)"
    using WriteAt_works [of 0 "FatSuper_bytes ?super" fd s4] l s4 c4 by auto
  have c5: "content s5 fd = write_bytes 0 (FatSuper_bytes ?super) img" "inode s5 fd = i"
    using s4(5) s5 by (simp_all add: content_def same_files_def)
  have "length ?fsinfo = 512" using info(3) by simp
  then have "unat (ucast ?bps :: u64) + length ?fsinfo < 2 ^ 64" using bps by (simp add: unat_ucast_sector)
  from WriteAt_works [OF this, of fd s5] obtain s6 where
    s6: "File_WriteAt P fd (ucast ?bps) ?fsinfo s5 = Some (Inr (), s6)" "same_files s5 s6"
    "bytes_of s6 = (bytes_of (in_sys st))(i := write_bytes (unat ?bps) ?fsinfo (write_bytes 0 (FatSuper_bytes ?super) img))"
    unfolding c5 s5(3) unat_ucast_sector by auto
  have st6: "names s6 = names (in_sys st)" "fd \<in> opened s6" "inode s6 fd = i" "bytes_of s6 k = p"
    using s4 s5(2) s6 files(5) p(1) by (auto simp: same_files_def)
  obtain s7 where s7: "ReadAll P stage2Name ((unat (FatSuper_ReservedSectors super0) - 2) * unat ?bps) (st\<lparr>in_sys := s6\<rparr>) =
      Some (Inr (True, p), st\<lparr>in_sys := s7\<rparr>)" "bytes_of s7 = bytes_of s6" "inode s7 fd = i"
    using ReadAll_works [of "st\<lparr>in_sys := s6\<rparr>" stage2Name k
        "(unat (FatSuper_ReservedSectors super0) - 2) * unat ?bps"] files(3) p(4) st6 by auto
  have c7: "content s7 fd = write_bytes (unat ?bps) ?fsinfo (write_bytes 0 (FatSuper_bytes ?super) img)"
    using s7 s6(3) by (simp add: content_def)
  have "length (take (length p) mem) \<le> 512 * 65535" using p(3) by simp
  then have "unat (2 * ucast ?bps :: u64) + length (take (length p) mem) < 2 ^ 64" using bps by (simp add: unat_ucast_sector)
  from WriteAt_works [OF this, of fd s7] obtain s8 where
    s8: "File_WriteAt P fd (2 * ucast ?bps) (take (length p) mem) s7 = Some (Inr (), s8)"
    "bytes_of s8 = (bytes_of (in_sys st))(i := install_image ?super ?fsinfo (take (length p) mem) img)"
    unfolding c7 s7(2,3) s6(3) unat_ucast_sector by (auto simp: install_image_def)
  have ver: "Stage2Header_Verify mem (of_nat (Stage2Header_SectorCount mem)) = Some True"
    using install_stage2_eq [OF p(2,3,5)] mem by auto
  have limit: "stage2_max ?super = Inr ((unat (FatSuper_ReservedSectors super0) - 2) * unat ?bps)"
    using stage2_max_eq [of ?super] room by simp
  have super0: "FatSuper_of_bytes (subbytes 0 512 img) = super0" using img(2) ..
  have "install_files P vbrName stage2Name outName st = Some (Inr 0, st\<lparr>in_sys := s8\<rparr>)"
    unfolding install_files_def Let_def
    by (simp add: io_bind_def in_call_def s1(1) s2(1) off(1) s3(1) s4(1) s5(1) s6(1) s7(1) s8(1) super0
        limit mem ver io_return_simps)
  then show ?thesis using s8(2) by auto
qed

end

subsection \<open>What is on the disk afterwards\<close>

lemma subbytes_write_same: "subbytes off (length d) (write_bytes off d c) = d"
proof (cases "d = []")
  case False
  then show ?thesis
    by (intro nth_equalityI) (simp_all add: subbytes_def nth_write_bytes length_write_bytes)
qed (simp add: subbytes_def)

lemma write_bytes_grows: "n \<le> length c \<Longrightarrow> n \<le> length (write_bytes off d c)"
  by (auto simp: length_write_bytes)

lemma subbytes_write_before:
  assumes "a + n \<le> off" "a + n \<le> length c"
  shows "subbytes a n (write_bytes off d c) = subbytes a n c"
  using assms by (intro nth_equalityI) (auto simp: subbytes_def nth_write_bytes length_write_bytes)

text \<open>
  The image byte by byte: the three areas hold what was written, it grows only as far as the second
  stage needs, and every other byte is the one that was there.
\<close>

lemma install_image_exact:
  assumes "FatSuper_wf super" "bps = unat (FatSuper_BytesPerSector super)" "512 \<le> bps" "length info = 512" "d \<noteq> []" "512 \<le> length img"
  shows "take 512 (install_image super info d img) = FatSuper_bytes super"
    "subbytes bps 512 (install_image super info d img) = info"
    "subbytes (2 * bps) (length d) (install_image super info d img) = d"
    "length (install_image super info d img) = max (length img) (2 * bps + length d)"
    "x < length (install_image super info d img) \<Longrightarrow> x \<notin> {0 ..< 512} \<union> {bps ..< bps + 512} \<union> {2 * bps ..< 2 * bps + length d} \<Longrightarrow>
      install_image super info d img ! x = (if x < length img then img ! x else 0)"
proof -
  let ?w0 = "write_bytes 0 (FatSuper_bytes super) img"
  let ?w1 = "write_bytes bps info ?w0"
  have l: "length (FatSuper_bytes super) = 512" using assms(1) by simp
  have img: "install_image super info d img = write_bytes (2 * bps) d ?w1" by (simp add: install_image_def assms(2))
  have ne: "FatSuper_bytes super \<noteq> []" "info \<noteq> []" using l assms(4) by force+
  have l0: "length ?w0 = length img" using l ne assms(6) by (simp add: length_write_bytes)
  have l1: "length ?w1 = max (length img) (bps + 512)" using l0 ne assms(4) by (simp add: length_write_bytes)
  show "length (install_image super info d img) = max (length img) (2 * bps + length d)"
    using l1 assms(3,5) by (simp add: img length_write_bytes)
  show "subbytes (2 * bps) (length d) (install_image super info d img) = d"
    unfolding img by (rule subbytes_write_same)
  have "subbytes bps 512 (write_bytes (2 * bps) d ?w1) = subbytes bps 512 ?w1"
    using assms(3) l1 by (intro subbytes_write_before) simp_all
  then show "subbytes bps 512 (install_image super info d img) = info"
    unfolding img using subbytes_write_same [of bps info] assms(4) by simp
  have "take 512 (write_bytes (2 * bps) d ?w1) = take 512 ?w1" "take 512 ?w1 = take 512 ?w0"
    using subbytes_write_before [of 0 512 "2 * bps" ?w1 d] subbytes_write_before [of 0 512 bps ?w0 info] assms(3,6) l0 l1
    by (simp_all add: subbytes_def)
  then show "take 512 (install_image super info d img) = FatSuper_bytes super"
    unfolding img using subbytes_write_same [of 0 "FatSuper_bytes super" img] l by (simp add: subbytes_def)
  assume x: "x < length (install_image super info d img)"
    "x \<notin> {0 ..< 512} \<union> {bps ..< bps + 512} \<union> {2 * bps ..< 2 * bps + length d}"
  then have "install_image super info d img ! x = (if x < length ?w1 then ?w1 ! x else 0)"
    unfolding img by (subst nth_write_bytes) auto
  moreover have "?w1 ! x = (if x < length ?w0 then ?w0 ! x else 0)" if "x < length ?w1"
    using that x(2) assms(4) by (subst nth_write_bytes) auto
  moreover have "?w0 ! x = img ! x" if "x < length ?w0"
    using that x(2) l l0 by (subst nth_write_bytes) auto
  ultimately show "install_image super info d img ! x = (if x < length img then img ! x else 0)"
    using l0 l1 by auto
qed

text \<open>
  C28. The installer installs, and writes nothing else: given the three files, with boot code that
  fits into the super block and a second stage of whole sectors that fits into the reserved sectors,
  on a system whose calls are at most interrupted or short, it ends with success and prints nothing.
  It has written to the image only, and the image is determined. Its first sector has the jump to
  the boot code, the name, the old parameter block except that the information sector is sector 1
  and there is no backup, the boot code at offset 90, and the old bytes behind it. The sector after
  it is the old information sector, wherever that was. From the third sector on there is the second
  stage: its file with the first 28 bytes replaced by the header, which counts its sectors and whose
  checksum makes the check of the boot sector accept it. The image is only as much longer as the
  second stage reaches behind its end, and every other byte is what it was.
\<close>

theorem installfat_installs:
  fixes P :: "'s Posix"
  assumes "reliable_posix P inode bytes_of pos opened names patience"
    and "names s out = Some i" "names s vbr = Some j" "names s stage2 = Some k" "i \<noteq> j" "i \<noteq> k"
    and "super = FatSuper_of_bytes (subbytes 0 512 (bytes_of s i))" "512 \<le> length (bytes_of s i)"
      "length (bytes_of s i) < 2 ^ 63"
    and "bps = unat (FatSuper_BytesPerSector super)" "512 \<le> bps" "room = unat (FatSuper_ReservedSectors super) - 2"
      "2 \<le> unat (FatSuper_ReservedSectors super)" "room * bps < 2 ^ 31"
    and "info = unat (FatSuper_FsInfoIndex super) * bps" "info < 2 ^ 31" "info + 512 \<le> length (bytes_of s i)"
    and "length (bytes_of s j) \<le> 420"
    and "p = bytes_of s k" "length p = 512 * n" "0 < n" "n \<le> 65535" "length p \<le> room * bps"
      "payload_sum (stage2_prepared p) \<noteq> 0"
  shows "\<exists>st' disk chk. installfat_main P what [text_bytes ''-v'', vbr, text_bytes ''--stage2'', stage2, text_bytes ''-o'', out]
      \<lparr>in_sys = s, in_cerr = []\<rparr> = Some (Inr 0, st') \<and> in_cerr st' = [] \<and>
    bytes_of (in_sys st') = (bytes_of s)(i := disk) \<and>
    subbytes 90 (length (bytes_of s j)) disk = bytes_of s j \<and>
    take 512 disk = [0xEB, 88, 0x90] @ text_bytes ''Goliath '' @ subbytes 11 37 (bytes_of s i) @ [1, 0, 0, 0] @
      subbytes 52 38 (bytes_of s i) @ bytes_of s j @
      subbytes (90 + length (bytes_of s j)) (422 - length (bytes_of s j)) (bytes_of s i) \<and>
    subbytes bps 512 disk = subbytes info 512 (bytes_of s i) \<and>
    drop 28 (subbytes (2 * bps) (length p) disk) = drop 28 p \<and>
    take 28 (subbytes (2 * bps) (length p) disk) =
      UnalignedInt_Set 4 Stage2Magic @ UnalignedInt_Set 4 (chk :: u32) @ UnalignedInt_Set 2 (of_nat n :: u16) @ replicate 18 0 \<and>
    Stage2Header_Verify (subbytes (2 * bps) (length p) disk) (of_nat n) = Some True \<and>
    length disk = max (length (bytes_of s i)) (2 * bps + length p) \<and>
    (\<forall>x < length disk. x \<notin> {0 ..< 512} \<union> {bps ..< bps + 512} \<union> {2 * bps ..< 2 * bps + length p} \<longrightarrow>
      disk ! x = (if x < length (bytes_of s i) then bytes_of s i ! x else 0))"
proof -
  let ?st = "\<lparr>in_sys = s, in_cerr = []\<rparr>" let ?super = "install_super super (bytes_of s j)"
  let ?img = "bytes_of s i" and ?vbr = "bytes_of s j" let ?fsinfo = "subbytes info 512 ?img"
  have p: "0 < length p" "length p \<le> 512 * 65535" using assms(20-22) by simp_all
  obtain mem where mem: "install_stage2 p = Inr mem" "length mem = length p + 1024" "image_ok mem"
    "unat (hdr_sectorCount mem) = (length p + 511) div 512"
    "Stage2Header_Verify mem (of_nat (Stage2Header_SectorCount mem)) = Some True"
    "mem = UnalignedInt_Set 4 Stage2Magic @ UnalignedInt_Set 4 (- payload_sum (stage2_prepared p)) @
      UnalignedInt_Set 2 (of_nat ((length p + 511) div 512) :: u16) @ replicate 18 0 @ drop 28 (vector_storage p)"
    using install_stage2_eq [OF p assms(24)] by blast
  have n: "(length p + 511) div 512 = n" using assms(20) by simp
  let ?d = "take (length p) mem" let ?disk = "install_image ?super ?fsinfo ?d ?img"
  obtain st' where st': "install_files P vbr stage2 out ?st = Some (Inr 0, st')" "in_cerr st' = []"
    "bytes_of (in_sys st') = (bytes_of s)(i := ?disk)"
    using reliable_posix.install_files_works [OF assms(1), of ?st out i vbr j stage2 k ?img super info ?vbr p mem]
      assms(2-9,12-19,23,24) p mem(1) unfolding assms(10,12) by auto
  have main: "installfat_main P what [text_bytes ''-v'', vbr, text_bytes ''--stage2'', stage2, text_bytes ''-o'', out] ?st =
      Some (Inr 0, st')"
    using st'(1) by (simp add: installfat_main_def parse_args_example install_try_def del: parse_args.simps)
  have wf: "FatSuper_wf ?super" unfolding assms(7) using assms(8) by (intro install_super_wf FatSuper_of_bytes_wf) simp
  have sub: "subbytes a m (subbytes 0 512 ?img) = subbytes a m ?img" if "a + m \<le> 512" for a m
    using that by (simp add: subbytes_def drop_take)
  have d: "length ?d = length p" "?d \<noteq> []" using mem(2) p(1) by auto
  have bps: "bps = unat (FatSuper_BytesPerSector ?super)" using assms(10) by simp
  have fi: "length ?fsinfo = 512" using assms(17) by simp
  note exact = install_image_exact [OF wf bps assms(11) fi d(2) assms(8), unfolded d(1)]
  have sector: "take 512 ?disk = [0xEB, 88, 0x90] @ text_bytes ''Goliath '' @ subbytes 11 37 ?img @ [1, 0, 0, 0] @
      subbytes 52 38 ?img @ ?vbr @ subbytes (90 + length ?vbr) (422 - length ?vbr) ?img"
    unfolding exact(1) unfolding assms(7) using install_super_bytes [of "subbytes 0 512 ?img" ?vbr] assms(8,18) by (simp add: sub)
  have "text_bytes ''Goliath '' = [71, 111, 108, 105, 97, 116, 104, 32]" by code_simp
  then have "subbytes 90 (length ?vbr) (take 512 ?disk) = ?vbr"
    unfolding sector using assms(8) by (simp add: subbytes_def)
  then have code: "subbytes 90 (length ?vbr) ?disk = ?vbr" using assms(18) by (simp add: subbytes_take)
  have head: "take 28 ?d = UnalignedInt_Set 4 Stage2Magic @ UnalignedInt_Set 4 (- payload_sum (stage2_prepared p)) @
      UnalignedInt_Set 2 (of_nat n :: u16) @ replicate 18 0"
    using assms(20,21) unfolding mem(6) n by simp
  have "drop 28 mem = drop 28 (vector_storage p)" unfolding mem(6) by simp
  then have rest: "drop 28 ?d = drop 28 p"
    using p assms(20,21) by (simp add: drop_take vector_storage_def)
  have ver: "Stage2Header_Verify ?d (of_nat n) = Some True"
    using Verify_take [OF mem(3)] mem(4,5) assms(20) by (simp add: Stage2Header_SectorCount_def)
  show ?thesis
    using main st'(2,3) code sector exact(2-5) head rest ver
    by (intro exI [of _ st'] exI [of _ ?disk] exI [of _ "- payload_sum (stage2_prepared p)"]) (simp add: exact(3))
qed

text \<open>A volume with the example super block, no boot code and an empty second stage of one sector.\<close>

definition install_sys :: refsys where
  "install_sys = \<lparr>ref_names = (\<lambda>path. if path = [1] then Some 0 else if path = [2] then Some 1 else if path = [3] then Some 2 else None),
     ref_data = (\<lambda>i. if i = 0 then FatSuper_bytes example_super @ replicate 1024 0 else if i = 1 then [0xFA, 0xF4] else replicate 512 0),
     ref_inode = \<lambda>_. 0, ref_pos = \<lambda>_. 0, ref_next = 4, ref_plan = [Interrupt, Short 99, Interrupt]\<rparr>"

lemma payload_sum_append:
  assumes "image_ok img"
  shows "payload_sum (img @ ys) = payload_sum img"
proof -
  have "hdr_sectorCount (img @ ys) = hdr_sectorCount img"
    using image_ok_length [OF assms] by (simp add: hdr_sectorCount_def subbytes_append_left)
  moreover have "word_of (img @ ys) i = word_of img i" if "i < unat (hdr_sectorCount img) * 128" for i
    using that assms by (simp add: word_of_def image_ok_def subbytes_append_left)
  ultimately show ?thesis unfolding payload_sum_def by (intro sum.cong) auto
qed

lemma example_prepared: "stage2_prepared (replicate 512 0) = example_image @ replicate 1024 0"
proof -
  have r: "replicate 512 (0 :: u8) = replicate 28 0 @ replicate 484 0" by (simp flip: replicate_add)
  have "overwrite 0 Stage2Header_new (vector_storage (replicate 512 0)) = (Stage2Header_new @ replicate 484 0) @ replicate 1024 0"
    by (simp add: vector_storage_def overwrite_def r)
  then show ?thesis
    by (simp add: stage2_prepared_def example_image_def Stage2Header_SetSectorCount_def overwrite_def Let_def)
qed

theorem installfat_installs_witness:
  "\<exists>st'. installfat_main ref_posix (\<lambda>_. []) [text_bytes ''-v'', [2], text_bytes ''--stage2'', [3], text_bytes ''-o'', [1]]
      \<lparr>in_sys = install_sys, in_cerr = []\<rparr> = Some (Inr 0, st') \<and>
    Stage2Header_Verify (subbytes 1024 512 (ref_data (in_sys st') 0)) 1 = Some True"
proof -
  have len: "length (FatSuper_bytes example_super) = 512" using example_super_wf by simp
  have files: "ref_names install_sys [1] = Some 0" "ref_names install_sys [2] = Some 1" "ref_names install_sys [3] = Some 2"
    "ref_data install_sys 0 = FatSuper_bytes example_super @ replicate 1024 0" "ref_data install_sys 1 = [0xFA, 0xF4]"
    "ref_data install_sys 2 = replicate 512 0"
    by (simp_all add: install_sys_def)
  have super: "example_super = FatSuper_of_bytes (subbytes 0 512 (ref_data install_sys 0))"
    using len by (simp add: files subbytes_append_left subbytes_all FatSuper_of_bytes_bytes [OF example_super_wf])
  have geo: "512 = unat (FatSuper_BytesPerSector example_super)" "30 = unat (FatSuper_ReservedSectors example_super) - 2"
    "512 = unat (FatSuper_FsInfoIndex example_super) * 512"
    by (simp_all add: example_super_geometry) code_simp
  have "payload_sum (stage2_prepared (replicate 512 0)) \<noteq> 0"
    by (simp add: example_prepared payload_sum_append example_image_ok example_payload_sum)
  from installfat_installs [OF ref.reliable_posix_axioms files(1-3) _ _ super _ _ geo(1) _ geo(2) _ _ geo(3) _ _ _ files(6) [symmetric],
      of 1 "\<lambda>_. []", unfolded files(4-6)] this
  show ?thesis using len by (auto simp: example_super_geometry)
qed

end
