(* ===== verification/Spec2Isabelle.thy ===== *)
theory Spec2Isabelle
  imports Stage2_Heap Fat_Path Boot_Sectors Pm_Copy Kernel A20_Gate Boot_Chain
    Cxxabi Unique_Ptr Stage2_Boot Installfat
begin

text \<open>
  A verification library of \<^verbatim>\<open>hausboot\<close>, a BIOS boot loader in C++ with the host tools that build its
  disk images.

  \<^bold>\<open>The program.\<close> The master boot record (\<^verbatim>\<open>mbr/mbr.cpp\<close>) loads the boot sector of the bootable
  partition, the volume boot record (\<^verbatim>\<open>vbr/vbr.cpp\<close>). This one loads the second stage from the
  reserved sectors of the FAT32 volume, checks its checksum (\<^verbatim>\<open>include/Stage2Header.h\<close>) and enters
  it. The second stage (\<^verbatim>\<open>stage2/stage2.cpp\<close>) sets up its heap (\<^verbatim>\<open>stage2/heap.cpp\<close>), a block device
  over the BIOS (\<^verbatim>\<open>include/BIOS\<close>), the A20 gate (\<^verbatim>\<open>lib/pm86/a20.cpp\<close>), the memory map and a FAT32
  driver (\<^verbatim>\<open>include/fs/FatFs.h\<close>), interprets the script \<^verbatim>\<open>BOOT.CFG\<close>, copies a multiboot kernel to its
  load address (\<^verbatim>\<open>lib/pm86/copy.cpp\<close>) and enters it with the information block of
  \<^verbatim>\<open>include/kernel\<close>. The test kernel (\<^verbatim>\<open>kernel/kernel.cpp\<close>) prints that block. On the host,
  \<^verbatim>\<open>tools/fatedit.cpp\<close> fills a FAT32 image with files and \<^verbatim>\<open>tools/installfat.cpp\<close> puts boot code and
  second stage into it.

  \<^bold>\<open>Theories and sources.\<close>
  \<^item> \<^verbatim>\<open>Prelude\<close>, \<^verbatim>\<open>Basic_Types\<close>: machine words, byte memory, slices of buffers; \<^verbatim>\<open>include/types\<close>
    (\<^verbatim>\<open>FlagField\<close>, \<^verbatim>\<open>UnalignedInt\<close>, \<^verbatim>\<open>FixedLengthString\<close>, \<^verbatim>\<open>ByteBlob\<close>).
  \<^item> \<^verbatim>\<open>Unique_Ptr\<close>, \<^verbatim>\<open>Cxxabi\<close>: \<^verbatim>\<open>include/types/UniquePtr.h\<close> with programs over it as a step relation,
    and the destructor table of \<^verbatim>\<open>lib/cxxabi/cxxabi.cpp\<close>.
  \<^item> \<^verbatim>\<open>Stage2_Heap\<close>, \<^verbatim>\<open>Allocator\<close>: \<^verbatim>\<open>stage2/heap.cpp\<close> on byte memory; the interface of
    \<^verbatim>\<open>include/Memory.h\<close> is a locale, interpreted on the heap. The invariant relates the memory to a
    list of blocks; \<^verbatim>\<open>malloc\<close> and \<^verbatim>\<open>free\<close> refine best fit and coalescing on that list.
  \<^item> \<^verbatim>\<open>Fat_Name\<close>, \<^verbatim>\<open>Fat_Dirent\<close>, \<^verbatim>\<open>Fat_Super\<close>: the packed structures and names of FAT32.
  \<^item> \<^verbatim>\<open>Block_Device\<close>, \<^verbatim>\<open>Bios_Disk\<close>: the virtual class \<^verbatim>\<open>IBlockDevice\<close> as a record of operations and a
    locale, and \<^verbatim>\<open>BiosDisk.h\<close>, \<^verbatim>\<open>BIOSBlockDevice.h\<close>, which interpret it over the firmware. Each drive of
    the firmware has its own geometry and medium.
  \<^item> \<^verbatim>\<open>Fat_Fs\<close>, \<^verbatim>\<open>Fat_Fs_Correct\<close>, \<^verbatim>\<open>Fat_Path\<close>: the driver \<^verbatim>\<open>include/fs/FatFs.h\<close>; its reads return the
    bytes of a file's cluster chain, its lookups are the abstract walk over directories, and with
    failing loads they give an error or the right answer. \<^verbatim>\<open>Fat_Sound\<close>: what the driver reports comes
    from live directory entries and cluster chains, whatever is on the volume.
  \<^item> \<^verbatim>\<open>Partition\<close>, \<^verbatim>\<open>Stage2_Header\<close>, \<^verbatim>\<open>Boot_Sectors\<close>: partition table, checksum, and both boot sectors.
  \<^item> \<^verbatim>\<open>Pm_Copy\<close>, \<^verbatim>\<open>A20_Gate\<close>, \<^verbatim>\<open>Memory_Map\<close>, \<^verbatim>\<open>Multiboot\<close>: the routines the second stage uses around
    the kernel. \<^verbatim>\<open>Text_Screen\<close>, \<^verbatim>\<open>Video_Memory\<close>, \<^verbatim>\<open>Kernel\<close>: output and the test kernel.
  \<^item> \<^verbatim>\<open>Stage2_Loader\<close>, \<^verbatim>\<open>Stage2_Loader_Correct\<close>, \<^verbatim>\<open>Stage2_Boot\<close>: \<^verbatim>\<open>stage2/stage2.cpp\<close> on top of all of
    these, composed as the code composes them; what loading a kernel leaves in memory, and, by pre- and
    postconditions of the commands of the script, what the disk holds whenever the loader is about to
    enter a kernel: a script with the path, and a file behind it with a header that passed all checks.
  \<^item> \<^verbatim>\<open>Io_Monad\<close>, \<^verbatim>\<open>Host_Util\<close>, \<^verbatim>\<open>Host_File\<close>: computations with exceptions, \<^verbatim>\<open>tools/util.h\<close>, and
    \<^verbatim>\<open>include/host/File.h\<close> over system calls whose contract is a locale. \<^verbatim>\<open>Fat_Edit\<close>,
    \<^verbatim>\<open>Fat_Edit_Correct\<close>, \<^verbatim>\<open>Fat_Edit_Files\<close>: the volume editor, its readers and writers as operations on
    cluster chains. \<^verbatim>\<open>Fat_Edit_Scan\<close>: the directory scan computes a parser of the entries.
    \<^verbatim>\<open>Fat_Edit_Walk\<close>, \<^verbatim>\<open>Fat_Edit_Pack\<close>, \<^verbatim>\<open>Fat_Edit_Mkdir\<close>: the commands, which follow a path through the
    directories, print what it leads to, or add a file or a directory; what one command stored
    another one finds. \<^verbatim>\<open>Fat_Edit_Typed\<close>: what a session keeps whatever happens.
    \<^verbatim>\<open>Installfat\<close>: the installer, with the whole image it leaves.
  \<^item> \<^verbatim>\<open>Volume_Boot\<close>, \<^verbatim>\<open>Editor_To_Loader\<close>: editor and boot loader together. The FAT and the chains of an
    image are those the driver sees on a disk that holds it; a walk through directories by short names
    is the same on both sides; what \<^verbatim>\<open>pack\<close> stored under a path the driver finds under it and reads.
  \<^item> \<^verbatim>\<open>Edit_Session\<close>: a run of the editor as a whole. From an image it accepts (\<^verbatim>\<open>editable\<close>) it loads
    super block and table; a session of lines that pack files into the root directory keeps, by
    induction over the lines, what was there and what each line added; all of it is in the image the
    run leaves, which is accepted again.
  \<^item> \<^verbatim>\<open>Loader_Boot\<close>, \<^verbatim>\<open>Boot_Chain\<close>: the search for the header of a kernel finds it, the script is read
    and run, and the whole program of the second stage, started on a volume with a script and a kernel,
    ends with the kernel in memory and the memory map of the firmware handed to it. So a run of the
    editor that packs script and kernel makes an image that boots. The script may have lines that only
    print in front of its \<^verbatim>\<open>multiboot\<close>, as \<^verbatim>\<open>test/boot.cfg\<close> has. On a damaged volume, too, only a
    checked kernel of the disk is entered.

  \<^bold>\<open>Conventions.\<close> Definitions have the names of the functions, methods with their class in front.
  Integers are words of the width of the C++ type. State is passed explicitly: the memory is a
  function from addresses to bytes where aliasing matters, a packed structure that is read and
  written as a whole is a record or a list of bytes. A result \<^verbatim>\<open>None\<close> stands for a loop that does not
  end, and in the byte level routines for an access outside of the object (\<^verbatim>\<open>image_word\<close>,
  \<^verbatim>\<open>WriteDecimal\<close>). In computations with exceptions \<^verbatim>\<open>Inl\<close> carries the exception; \<^verbatim>\<open>Fault\<close> is an
  operation to which the language gives no meaning. Loops that may not end are partial functions, and
  the theorems about them state that they end. The only loops with fuel are those with a fixed
  number of rounds in the code.

  \<^bold>\<open>Parameters.\<close> The firmware (INT 13h and 15h), the ports, the system calls and the text of the
  standard library's exceptions are arguments of the definitions. What is assumed of them is stated
  as a locale (\<^verbatim>\<open>posix\<close>, \<^verbatim>\<open>reliable_posix\<close>, \<^verbatim>\<open>block_device\<close>) or as a named hypothesis, and met by
  a concrete instance in the witnesses.

  \<^bold>\<open>Not modelled.\<close> The assembly stubs, with the mode switches and register set-up around the calls;
  closing a file in the destructor of \<^verbatim>\<open>File\<close>; the memory that the objects of the second stage, the
  windows of the driver and the text of the script occupy: they are allocated on the heap and the
  contents are values, so a kernel that is loaded on top of them is not described. The information
  block is a value as well; the memory map it points to is in memory.

  \<^bold>\<open>Plan.\<close> Left are statements about sessions of the editor that mix \<^verbatim>\<open>mkdir\<close> with \<^verbatim>\<open>pack\<close> into several
  directories, and about files below directories that share clusters.
\<close>

end
